(* ===== verification/Prelude.thy ===== *)
theory Prelude
  imports Main "HOL-Library.Word" "HOL-Library.List_Lexorder" "HOL-Library.Char_ord"
begin

text \<open>
  Shared vocabulary of the go-rag development: bytes and Go strings, big- and little-endian
  encodings (\<open>encoding/binary\<close>), the error values of the modelled packages, and the generic
  lemmas on lists, orders and maps that the components rely on.

  A Go \<open>string\<close> is a sequence of bytes and is modelled by \<open>string\<close> (a list of 8-bit
  characters); a \<open>[]byte\<close> is a list of \<open>8 word\<close>. \<open>bytes.Compare\<close> and Go's
  \<open><\<close> on strings are the lexicographic order of \<open>HOL-Library.List_Lexorder\<close>.
\<close>

named_theorems store_simps \<open>effects of store operations on the contents\<close>
named_theorems key_simps \<open>shapes and lengths of keys\<close>

type_synonym byte = "8 word"
type_synonym bytes = "8 word list"

section \<open>Errors\<close>

text \<open>
  Go returns errors as values. One constructor per error that the modelled code creates or
  passes on; \<open>PebbleError\<close> stands for any error of the key-value store.
\<close>

datatype go_error =
    PebbleError string
  | WsPrefixOverflow bytes
  | InvalidRangeBounds bytes bytes
  | VaultNotRegistered
  | VaultNameMismatch string string
  | VaultNameTaken string
  | CorruptSchemaVersion nat
  | StoreTooNew nat nat
  | MigrationsNotFromOne nat
  | MigrationsNotContiguous nat nat
  | ReadVersionFailed go_error
  | MigrationFailed nat go_error
  | PersistVersionFailed nat go_error
  | NoLegacyVaults
  | ErrInvalid string
  | ErrNotFound string
  | ErrConflict string
  | ErrEmbeddingMismatch string
  | Permanent go_error
  | Failed string

type_synonym 'a gres = "go_error + 'a"

definition gbind :: "'a gres \<Rightarrow> ('a \<Rightarrow> 'b gres) \<Rightarrow> 'b gres" where
  "gbind m f = (case m of Inl e \<Rightarrow> Inl e | Inr x \<Rightarrow> f x)"

lemma gbind_simps [simp]:
  "gbind (Inl e) f = Inl e"
  "gbind (Inr x) f = f x"
  by (simp_all add: gbind_def)

lemma gbind_Inr_iff: "gbind m f = Inr y \<longleftrightarrow> (\<exists>x. m = Inr x \<and> f x = Inr y)"
  by (cases m) auto

lemma gbind_InrE:
  assumes "gbind m f = Inr y"
  obtains x where "m = Inr x" and "f x = Inr y"
  using assms by (auto simp: gbind_Inr_iff)

section \<open>Strings as bytes\<close>

definition byte_of_char :: "char \<Rightarrow> byte" where
  "byte_of_char c = word_of_nat (of_char c)"

definition char_of_byte :: "byte \<Rightarrow> char" where
  "char_of_byte b = char_of (unat b)"

definition str_bytes :: "string \<Rightarrow> bytes" where
  "str_bytes s = map byte_of_char s"

definition bytes_str :: "bytes \<Rightarrow> string" where
  "bytes_str bs = map char_of_byte bs"

lemma of_char_less_256: "(of_char c :: nat) < 256"
  by (metis nat_of_char_less_256)

lemma char_of_byte_of_char [simp]: "char_of_byte (byte_of_char c) = c"
  by (simp add: char_of_byte_def byte_of_char_def unat_of_nat of_char_less_256)

lemma byte_of_char_of_byte [simp]: "byte_of_char (char_of_byte b) = b"
proof -
  have "unat b < 256"
    using unsigned_less [of b] by simp
  then have "unat b mod 256 = unat b"
    by simp
  then show ?thesis
    by (simp add: char_of_byte_def byte_of_char_def of_char_of)
qed

lemma bytes_str_str_bytes [simp]: "bytes_str (str_bytes s) = s"
  by (simp add: bytes_str_def str_bytes_def comp_def)

lemma str_bytes_bytes_str [simp]: "str_bytes (bytes_str bs) = bs"
  by (simp add: bytes_str_def str_bytes_def comp_def)

lemma str_bytes_inject [simp]: "str_bytes s = str_bytes t \<longleftrightarrow> s = t"
  by (metis bytes_str_str_bytes)

lemma length_str_bytes [simp, key_simps]: "length (str_bytes s) = length s"
  by (simp add: str_bytes_def)

lemma str_bytes_append: "str_bytes (s @ t) = str_bytes s @ str_bytes t"
  by (simp add: str_bytes_def)

lemma str_bytes_Nil [simp]: "str_bytes [] = []"
  by (simp add: str_bytes_def)

section \<open>The lexicographic order on byte strings\<close>

text \<open>Keys of the store are compared bytewise; a common prefix of equal length decides first.\<close>

lemma append_less_append_same [simp]:
  "(p @ xs < p @ ys) \<longleftrightarrow> xs < (ys :: 'a::linorder list)"
  by (induction p) auto

lemma append_le_append_same [simp]:
  "(p @ xs \<le> p @ ys) \<longleftrightarrow> xs \<le> (ys :: 'a::linorder list)"
  by (induction p) auto

lemma less_append_same_length:
  fixes a b :: "'a::linorder list"
  assumes "length a = length b"
  shows "b @ p < a \<longleftrightarrow> b < a"
  using assms by (induction a b rule: list_induct2) auto

lemma le_append_same_length:
  fixes a b :: "'a::linorder list"
  assumes "length a = length b"
  shows "a \<le> b @ p \<longleftrightarrow> a \<le> b"
  using assms by (induction a b rule: list_induct2) auto

lemma append_less_append_length:
  fixes a b :: "'a::linorder list"
  assumes "length a = length b"
  shows "a @ p < b @ q \<longleftrightarrow> a < b \<or> a = b \<and> p < q"
  using assms by (induction a b rule: list_induct2) auto

section \<open>Big-endian and little-endian numbers\<close>

text \<open>
  \<open>be_bytes n x\<close> is what \<open>binary.BigEndian.PutUint\<close> writes for an \<open>n\<close>-byte
  unsigned integer, \<open>be_value\<close> what \<open>binary.BigEndian.Uint\<close> reads; the little-endian
  versions are the reversals.
\<close>

fun be_bytes :: "nat \<Rightarrow> nat \<Rightarrow> bytes" where
  "be_bytes 0 x = []"
| "be_bytes (Suc n) x = be_bytes n (x div 256) @ [word_of_nat x]"

definition be_value :: "bytes \<Rightarrow> nat" where
  "be_value bs = foldl (\<lambda>a b. a * 256 + unat b) 0 bs"

definition le_bytes :: "nat \<Rightarrow> nat \<Rightarrow> bytes" where
  "le_bytes n x = rev (be_bytes n x)"

definition le_value :: "bytes \<Rightarrow> nat" where
  "le_value bs = be_value (rev bs)"

lemma length_be_bytes [simp, key_simps]: "length (be_bytes n x) = n"
  by (induction n arbitrary: x) auto

lemma length_le_bytes [simp, key_simps]: "length (le_bytes n x) = n"
  by (simp add: le_bytes_def)

lemma be_value_Nil [simp]: "be_value [] = 0"
  by (simp add: be_value_def)

lemma be_value_snoc [simp]: "be_value (bs @ [b]) = be_value bs * 256 + unat b"
  by (simp add: be_value_def)

lemma unat_byte_less: "unat (b :: byte) < 256"
  using unsigned_less [of b] by simp

lemma byte_of_nat_low: "word_of_nat (k * 256 + unat b) = (b :: byte)"
proof -
  have "unat (word_of_nat (k * 256 + unat b) :: byte) = (k * 256 + unat b) mod 256"
    by (simp only: unat_of_nat) simp
  also have "\<dots> = unat b"
    using unat_byte_less [of b] by simp
  finally show ?thesis
    by (simp add: word_unat_eq_iff)
qed

lemma be_value_be_bytes: "be_value (be_bytes n x) = x mod 256 ^ n"
proof (induction n arbitrary: x)
  case 0
  then show ?case by simp
next
  case (Suc n)
  have "x mod 256 ^ Suc n = x div 256 mod 256 ^ n * 256 + x mod 256"
    using mod_mult2_eq [of x 256 "256 ^ n"] by (simp add: mult.commute)
  with Suc show ?case
    by (simp add: unat_of_nat)
qed

lemma be_value_be_bytes_id [simp]: "x < 256 ^ n \<Longrightarrow> be_value (be_bytes n x) = x"
  by (simp add: be_value_be_bytes)

lemma le_value_le_bytes: "le_value (le_bytes n x) = x mod 256 ^ n"
  by (simp add: le_value_def le_bytes_def be_value_be_bytes)

lemma be_value_bound: "be_value bs < 256 ^ length bs"
proof (induction bs rule: rev_induct)
  case Nil
  then show ?case by simp
next
  case (snoc b bs)
  then show ?case
    using unat_byte_less [of b] by simp
qed

lemma be_bytes_be_value [simp]: "length bs = n \<Longrightarrow> be_bytes n (be_value bs) = bs"
proof (induction bs arbitrary: n rule: rev_induct)
  case Nil
  then show ?case by simp
next
  case (snoc b bs)
  then show ?case
    using unat_byte_less [of b] byte_of_nat_low [of "be_value bs" b]
    by (auto simp del: of_nat_add of_nat_mult)
qed

lemma be_value_inject: "length a = length b \<Longrightarrow> be_value a = be_value b \<longleftrightarrow> a = b"
  by (metis be_bytes_be_value)

text \<open>On byte strings of one length the lexicographic order is the numeric order.\<close>

lemma be_value_less_iff:
  assumes "length a = length b"
  shows "a < b \<longleftrightarrow> be_value a < be_value b"
  using assms
proof (induction a arbitrary: b rule: rev_induct)
  case Nil
  then show ?case by simp
next
  case (snoc x a)
  from snoc.prems obtain b' y where b: "b = b' @ [y]" and len: "length a = length b'"
    by (cases b rule: rev_cases) auto
  have eq: "a = b' \<longleftrightarrow> be_value a = be_value b'"
    using len by (simp add: be_value_inject)
  have lt: "a < b' \<longleftrightarrow> be_value a < be_value b'"
    using len by (rule snoc.IH)
  have "a @ [x] < b' @ [y] \<longleftrightarrow> a < b' \<or> a = b' \<and> x < y"
    using len by (simp add: append_less_append_length)
  also have "\<dots> \<longleftrightarrow> be_value (a @ [x]) < be_value (b' @ [y])"
    using eq lt unat_byte_less [of x] unat_byte_less [of y] by (auto simp: word_less_nat_alt)
  finally show ?case by (simp add: b)
qed

lemma be_value_le_iff: "length a = length b \<Longrightarrow> a \<le> b \<longleftrightarrow> be_value a \<le> be_value b"
  by (metis be_value_inject be_value_less_iff le_less)

lemma be_bytes_less_iff:
  "x < 256 ^ n \<Longrightarrow> y < 256 ^ n \<Longrightarrow> be_bytes n x < be_bytes n y \<longleftrightarrow> x < y"
  by (simp add: be_value_less_iff)

lemma be_bytes_inject: "x < 256 ^ n \<Longrightarrow> y < 256 ^ n \<Longrightarrow> be_bytes n x = be_bytes n y \<longleftrightarrow> x = y"
  by (metis be_value_be_bytes_id)

end
