(* ===== verification/Keys.thy ===== *)
theory Keys
  imports Prelude
begin

text \<open>
  Key layout of the unified multi-vault store: \<open>internal/storage/keys/keys.go\<close> and the prefix
  table of \<open>internal/storage/storage.go\<close>. SipHash (\<open>github.com/dchest/siphash\<close>) is not part
  of the repository and is the parameter \<open>sip\<close>: its two key words and the data give a
  64-bit word. A workspace prefix \<open>[8]byte\<close> is a byte list of length 8 (\<open>is_ws\<close>).
\<close>

type_synonym ws = bytes
type_synonym siphash = "64 word \<Rightarrow> 64 word \<Rightarrow> bytes \<Rightarrow> 64 word"

definition is_ws :: "ws \<Rightarrow> bool" where
  "is_ws ws \<longleftrightarrow> length ws = 8"

section \<open>The prefix table\<close>

definition PrefixSource :: byte where "PrefixSource = 0x01"
definition PrefixDocument :: byte where "PrefixDocument = 0x02"
definition PrefixChunk :: byte where "PrefixChunk = 0x03"
definition PrefixEmbedding :: byte where "PrefixEmbedding = 0x04"
definition PrefixPoisonQuar :: byte where "PrefixPoisonQuar = 0x11"
definition PrefixThreatSrc :: byte where "PrefixThreatSrc = 0x12"
definition PrefixNearDup :: byte where "PrefixNearDup = 0x13"
definition PrefixEmbedQueue :: byte where "PrefixEmbedQueue = 0x14"
definition PrefixAuthAPIKey :: byte where "PrefixAuthAPIKey = 0x17"
definition PrefixAuthAdmin :: byte where "PrefixAuthAdmin = 0x18"
definition PrefixAuthSession :: byte where "PrefixAuthSession = 0x19"
definition PrefixVaultMeta :: byte where "PrefixVaultMeta = 0x1A"
definition PrefixVaultNameIndex :: byte where "PrefixVaultNameIndex = 0x1B"

lemmas prefix_defs =
  PrefixSource_def PrefixDocument_def PrefixChunk_def PrefixEmbedding_def
  PrefixPoisonQuar_def PrefixThreatSrc_def PrefixNearDup_def PrefixEmbedQueue_def
  PrefixAuthAPIKey_def PrefixAuthAdmin_def PrefixAuthSession_def
  PrefixVaultMeta_def PrefixVaultNameIndex_def

definition VaultScopedKinds :: "byte list" where
  "VaultScopedKinds =
     [0x01, 0x02, 0x03, 0x04, 0x05, 0x07, 0x08, 0x0A, 0x0B, 0x0C, 0x0D, 0x0E, 0x0F,
      0x10, 0x11, 0x12, 0x13, 0x14, 0x15]"

section \<open>Vault prefixes\<close>

definition sipKey0 :: "64 word" where "sipKey0 = 0x676f72616772656d"
definition sipKey1 :: "64 word" where "sipKey1 = 0x6d756c7469766175"

definition VaultPrefix :: "siphash \<Rightarrow> string \<Rightarrow> ws" where
  "VaultPrefix sip vault = be_bytes 8 (unat (sip sipKey0 sipKey1 (str_bytes vault)))"

definition VaultNameHash :: "siphash \<Rightarrow> string \<Rightarrow> bytes" where
  "VaultNameHash sip name = be_bytes 8 (unat (sip sipKey0 sipKey1 (str_bytes name)))"

text \<open>
  The loop of \<open>IncrementWSPrefix\<close> runs from byte 7 down to byte 0; \<open>incLoop i\<close> is the
  state before byte \<open>i - 1\<close> is incremented. Running off the front is the overflow.
\<close>

fun incLoop :: "nat \<Rightarrow> bytes \<Rightarrow> bytes option" where
  "incLoop 0 result = None"
| "incLoop (Suc i) result =
     (let result' = result[i := result ! i + 1]
      in if result' ! i \<noteq> 0 then Some result' else incLoop i result')"

definition IncrementWSPrefix :: "ws \<Rightarrow> ws gres" where
  "IncrementWSPrefix ws =
     (case incLoop 8 ws of Some result \<Rightarrow> Inr result | None \<Rightarrow> Inl (WsPrefixOverflow ws))"

section \<open>Builders\<close>

definition kindWSPrefix :: "byte \<Rightarrow> ws \<Rightarrow> bytes" where
  "kindWSPrefix kind ws = kind # ws"

definition vaultScoped :: "byte \<Rightarrow> ws \<Rightarrow> bytes \<Rightarrow> bytes" where
  "vaultScoped kind ws payload = kind # ws @ payload"

definition vaultScopedString :: "byte \<Rightarrow> ws \<Rightarrow> string \<Rightarrow> bytes" where
  "vaultScopedString kind ws ident = vaultScoped kind ws (str_bytes ident)"

definition SourceKey :: "ws \<Rightarrow> string \<Rightarrow> bytes" where
  "SourceKey ws sourceID = vaultScopedString 0x01 ws sourceID"

definition DocumentKey :: "ws \<Rightarrow> string \<Rightarrow> bytes" where
  "DocumentKey ws docID = vaultScopedString 0x02 ws docID"

definition ChunkKey :: "ws \<Rightarrow> string \<Rightarrow> bytes" where
  "ChunkKey ws chunkID = vaultScopedString 0x03 ws chunkID"

definition EmbeddingKey :: "ws \<Rightarrow> string \<Rightarrow> bytes" where
  "EmbeddingKey ws chunkID = vaultScopedString 0x04 ws chunkID"

definition FTSPostingKey :: "ws \<Rightarrow> string \<Rightarrow> string \<Rightarrow> bytes" where
  "FTSPostingKey ws term chunkID = 0x05 # ws @ str_bytes term @ 0x00 # str_bytes chunkID"

definition FTSPostingTermPrefix :: "ws \<Rightarrow> string \<Rightarrow> bytes" where
  "FTSPostingTermPrefix ws term = 0x05 # ws @ str_bytes term"

definition FTSIndexedKey :: "ws \<Rightarrow> string \<Rightarrow> bytes" where
  "FTSIndexedKey ws chunkID = vaultScopedString 0x07 ws chunkID"

definition FTSGlobalStatsKey :: "ws \<Rightarrow> bytes" where
  "FTSGlobalStatsKey ws = 0x08 # ws @ str_bytes ''stats''"

definition SourceDocsKey :: "ws \<Rightarrow> string \<Rightarrow> string \<Rightarrow> bytes" where
  "SourceDocsKey ws sourceID docID = 0x0A # ws @ str_bytes sourceID @ str_bytes docID"

definition DocChunksKey :: "ws \<Rightarrow> string \<Rightarrow> 32 word \<Rightarrow> bytes" where
  "DocChunksKey ws docID ordinal = 0x0B # ws @ str_bytes docID @ be_bytes 4 (unat ordinal)"

definition PathDocKey :: "ws \<Rightarrow> string \<Rightarrow> bytes" where
  "PathDocKey ws filePath = vaultScopedString 0x0C ws filePath"

definition ContentHashKey :: "ws \<Rightarrow> string \<Rightarrow> bytes" where
  "ContentHashKey ws contentHash = vaultScopedString 0x0D ws contentHash"

definition ChangeDetectKey :: "ws \<Rightarrow> string \<Rightarrow> bytes" where
  "ChangeDetectKey ws pathHash = vaultScopedString 0x0E ws pathHash"

definition IdempotencyKey :: "ws \<Rightarrow> string \<Rightarrow> bytes" where
  "IdempotencyKey ws opKey = vaultScopedString 0x0F ws opKey"

definition CorpusMetaKey :: "ws \<Rightarrow> string \<Rightarrow> bytes" where
  "CorpusMetaKey ws key = vaultScopedString 0x10 ws key"

definition QuarantineKey :: "ws \<Rightarrow> string \<Rightarrow> bytes" where
  "QuarantineKey ws chunkID = vaultScopedString 0x11 ws chunkID"

definition ThreatSourceKey :: "ws \<Rightarrow> string \<Rightarrow> bytes" where
  "ThreatSourceKey ws sourceID = vaultScopedString 0x12 ws sourceID"

definition NearDupKey :: "ws \<Rightarrow> string \<Rightarrow> bytes" where
  "NearDupKey ws chunkID = vaultScopedString 0x13 ws chunkID"

definition EmbedQueueKey :: "ws \<Rightarrow> string \<Rightarrow> bytes" where
  "EmbedQueueKey ws chunkID = vaultScopedString 0x14 ws chunkID"

definition ImageCaptionKey :: "ws \<Rightarrow> string \<Rightarrow> bytes" where
  "ImageCaptionKey ws imageHash = vaultScopedString 0x15 ws imageHash"

definition VaultMetaKey :: "ws \<Rightarrow> bytes" where
  "VaultMetaKey ws = 0x1A # ws"

definition VaultNameIndexKey :: "siphash \<Rightarrow> string \<Rightarrow> bytes" where
  "VaultNameIndexKey sip name = 0x1B # VaultNameHash sip name"

definition VaultKindRange :: "byte \<Rightarrow> ws \<Rightarrow> (bytes \<times> bytes) gres" where
  "VaultKindRange kind ws =
     gbind (IncrementWSPrefix ws) (\<lambda>wsPlus. Inr (kindWSPrefix kind ws, kindWSPrefix kind wsPlus))"

definition VaultKindLower :: "byte \<Rightarrow> ws \<Rightarrow> bytes" where
  "VaultKindLower kind ws = kindWSPrefix kind ws"

lemmas scoped_key_defs =
  SourceKey_def DocumentKey_def ChunkKey_def EmbeddingKey_def FTSIndexedKey_def PathDocKey_def
  ContentHashKey_def ChangeDetectKey_def IdempotencyKey_def CorpusMetaKey_def QuarantineKey_def
  ThreatSourceKey_def NearDupKey_def EmbedQueueKey_def ImageCaptionKey_def

lemmas raw_key_defs =
  vaultScoped_def vaultScopedString_def kindWSPrefix_def FTSPostingKey_def
  FTSPostingTermPrefix_def FTSGlobalStatsKey_def SourceDocsKey_def DocChunksKey_def
  VaultMetaKey_def VaultNameIndexKey_def

section \<open>Lemmas on prefixes and increments\<close>

lemma is_ws_VaultPrefix [simp, intro]: "is_ws (VaultPrefix sip name)"
  by (simp add: is_ws_def VaultPrefix_def)

lemma VaultNameHash_eq_VaultPrefix: "VaultNameHash sip name = VaultPrefix sip name"
  by (simp add: VaultNameHash_def VaultPrefix_def)

lemma VaultPrefix_inject:
  "VaultPrefix sip a = VaultPrefix sip b \<longleftrightarrow>
   sip sipKey0 sipKey1 (str_bytes a) = sip sipKey0 sipKey1 (str_bytes b)"
proof -
  have "unat (w :: 64 word) < 256 ^ 8" for w
    using unsigned_less [of w] by simp
  then show ?thesis
    unfolding VaultPrefix_def by (simp add: be_bytes_inject word_unat_eq_iff)
qed

text \<open>
  The increment, on a list split at the byte the loop is about to touch: the front part goes
  up by one as a big-endian number, the bytes behind it are kept.
\<close>

lemma unat_byte_Suc:
  "unat ((b :: byte) + 1) = (if unat b = 255 then 0 else unat b + 1)"
  using unat_byte_less [of b] by (auto simp: unat_word_ariths mod_Suc)

lemma byte_plus_one_eq_0: "(b :: byte) + 1 = 0 \<longleftrightarrow> unat b = 255"
  using unat_byte_Suc [of b] by (auto simp: word_unat_eq_iff split: if_splits)

lemma incLoop_append:
  "length as = i \<Longrightarrow>
   incLoop i (as @ bs) =
     (if be_value as + 1 = 256 ^ i then None else Some (be_bytes i (be_value as + 1) @ bs))"
proof (induction i arbitrary: as bs)
  case 0
  then show ?case by simp
next
  case (Suc i)
  then obtain as0 x where as: "as = as0 @ [x]" and len: "length as0 = i"
    by (cases as rule: rev_cases) auto
  let ?v = "be_value as0 * 256 + unat x"
  have upd: "(as @ bs)[i := (as @ bs) ! i + 1] = as0 @ (x + 1) # bs"
    using len by (simp add: as nth_append list_update_append)
  have bound: "be_value as0 < 256 ^ i"
    using be_value_bound [of as0] len by simp
  show ?case
  proof (cases "x + 1 = 0")
    case False
    then have x: "unat x + 1 < 256"
      using unat_byte_less [of x] by (simp add: byte_plus_one_eq_0)
    have "(?v + 1) div 256 = be_value as0"
      using x by simp
    moreover have "word_of_nat (?v + 1) = x + 1"
      using byte_of_nat_low [of "be_value as0" x] by (simp add: add.assoc [symmetric])
    moreover have "?v + 1 \<noteq> 256 ^ Suc i"
      using x bound by simp
    ultimately show ?thesis
      using False len upd by (simp add: as nth_append Let_def del: of_nat_add of_nat_Suc)
  next
    case True
    then have x: "unat x = 255"
      by (simp add: byte_plus_one_eq_0)
    have "(?v + 1) div 256 = be_value as0 + 1"
      using x by simp
    moreover have "(word_of_nat (?v + 1) :: byte) = 0"
      using byte_of_nat_low [of "be_value as0" x] True
      by (simp add: add.assoc [symmetric] add.commute)
    ultimately show ?thesis
      using Suc.IH [OF len, of "0 # bs"] True x len upd
      by (simp add: as nth_append Let_def del: of_nat_add of_nat_Suc)
  qed
qed

lemma IncrementWSPrefix_eq:
  assumes "is_ws ws"
  shows "IncrementWSPrefix ws =
     (if be_value ws + 1 = 256 ^ 8 then Inl (WsPrefixOverflow ws)
      else Inr (be_bytes 8 (be_value ws + 1)))"
  using assms incLoop_append [of ws 8 "[]"]
  by (simp add: IncrementWSPrefix_def is_ws_def)

lemma IncrementWSPrefix_Inr:
  assumes "is_ws ws" and "IncrementWSPrefix ws = Inr wsPlus"
  shows "is_ws wsPlus \<and> be_value wsPlus = be_value ws + 1"
proof -
  have "be_value ws + 1 < 256 ^ 8"
    using assms be_value_bound [of ws]
    by (auto simp: IncrementWSPrefix_eq is_ws_def split: if_splits)
  then show ?thesis
    using assms by (auto simp: IncrementWSPrefix_eq is_ws_def split: if_splits)
qed

section \<open>Lemmas on ranges\<close>

text \<open>A half-open key range, as \<open>IterOptions\<close> and \<open>DeleteRange\<close> use it.\<close>

definition in_range :: "bytes \<Rightarrow> bytes \<Rightarrow> bytes \<Rightarrow> bool" where
  "in_range lower upper key \<longleftrightarrow> lower \<le> key \<and> key < upper"

lemma in_range_next:
  assumes "length a = length b" and "length p = length a" and "be_value b = be_value a + 1"
  shows "in_range a b (p @ q) \<longleftrightarrow> p = a"
  using assms
  by (auto simp: in_range_def less_append_same_length le_append_same_length
      be_value_less_iff be_value_le_iff be_value_inject [symmetric])

lemma in_range_Cons:
  "in_range (x # a) (x # b) (y # c) \<longleftrightarrow> y = x \<and> in_range a b c"
  by (auto simp: in_range_def)

lemma VaultKindRange_vaultScoped:
  assumes "is_ws ws" and "is_ws ws'" and "VaultKindRange kind ws = Inr (lower, upper)"
  shows "in_range lower upper (vaultScoped kind' ws' payload) \<longleftrightarrow> kind' = kind \<and> ws' = ws"
proof -
  from assms(3) obtain wsPlus where inc: "IncrementWSPrefix ws = Inr wsPlus"
    and bounds: "lower = kind # ws" "upper = kind # wsPlus"
    by (auto simp: VaultKindRange_def kindWSPrefix_def gbind_Inr_iff)
  from IncrementWSPrefix_Inr [OF assms(1) inc] show ?thesis
    using assms(1,2)
    by (auto simp: bounds vaultScoped_def in_range_Cons in_range_next is_ws_def)
qed

lemma VaultKindRange_lower_less_upper:
  assumes "is_ws ws" and "VaultKindRange kind ws = Inr (lower, upper)"
  shows "lower < upper"
proof -
  from assms(2) obtain wsPlus where inc: "IncrementWSPrefix ws = Inr wsPlus"
    and bounds: "lower = kind # ws" "upper = kind # wsPlus"
    by (auto simp: VaultKindRange_def kindWSPrefix_def gbind_Inr_iff)
  from IncrementWSPrefix_Inr [OF assms(1) inc] show ?thesis
    using assms(1) by (simp add: bounds be_value_less_iff is_ws_def)
qed

lemma VaultKindRange_members:
  assumes "is_ws ws" and "VaultKindRange kind ws = Inr (lower, upper)"
    and "in_range lower upper key" and "9 \<le> length key"
  shows "\<exists>payload. key = vaultScoped kind ws payload"
proof -
  from assms(4) obtain k rest where key: "key = k # rest" and "8 \<le> length rest"
    by (cases key) auto
  then have split: "key = vaultScoped k (take 8 rest) (drop 8 rest)" and "is_ws (take 8 rest)"
    by (simp_all add: vaultScoped_def is_ws_def)
  then show ?thesis
    using VaultKindRange_vaultScoped [OF assms(1) _ assms(2)] assms(3) by metis
qed

lemma vaultScoped_inject:
  assumes "is_ws ws" and "is_ws ws'"
  shows "vaultScoped kind ws payload = vaultScoped kind' ws' payload' \<longleftrightarrow>
         kind = kind' \<and> ws = ws' \<and> payload = payload'"
  using assms by (auto simp: vaultScoped_def is_ws_def)

lemma vaultScoped_drop9: "is_ws ws \<Longrightarrow> drop 9 (vaultScoped kind ws payload) = payload"
  by (simp add: vaultScoped_def is_ws_def)

text \<open>Every builder gives the shape \<open>kind | ws | payload\<close>.\<close>

lemma vault_scoped_shapes:
  "FTSPostingKey ws term chunkID =
     vaultScoped 0x05 ws (str_bytes term @ 0x00 # str_bytes chunkID)"
  "FTSGlobalStatsKey ws = vaultScoped 0x08 ws (str_bytes ''stats'')"
  "SourceDocsKey ws sourceID docID = vaultScoped 0x0A ws (str_bytes sourceID @ str_bytes docID)"
  "DocChunksKey ws docID ordinal =
     vaultScoped 0x0B ws (str_bytes docID @ be_bytes 4 (unat ordinal))"
  by (simp_all add: vaultScoped_def raw_key_defs)

section \<open>Properties\<close>

lemma all_FF: "be_value (ws :: bytes) + 1 = 256 ^ length ws \<longleftrightarrow> ws = replicate (length ws) 255"
proof (induction ws rule: rev_induct)
  case Nil
  then show ?case by simp
next
  case (snoc b ws)
  have b: "b = 255 \<longleftrightarrow> unat b = 255"
    by (simp add: word_unat_eq_iff)
  have "be_value ws < 256 ^ length ws"
    by (rule be_value_bound)
  then have "be_value (ws @ [b]) + 1 = 256 ^ length (ws @ [b]) \<longleftrightarrow>
      be_value ws + 1 = 256 ^ length ws \<and> unat b = 255"
    using unat_byte_less [of b] by simp linarith
  also have "\<dots> \<longleftrightarrow> ws = replicate (length ws) 255 \<and> b = 255"
    using snoc.IH b by simp
  also have "\<dots> \<longleftrightarrow> ws @ [b] = replicate (length (ws @ [b])) 255"
    using replicate_append_same [of "length ws" "255 :: byte"] by simp (metis append1_eq_conv)
  finally show ?case .
qed

text \<open>C3: the range of one kind in one vault is exact. \<open>VaultKindRange\<close> fails only for the prefix
  of eight \<open>0xFF\<close> bytes; otherwise its bounds are ordered, and among the keys with a full head
  (\<open>kind | ws\<close>, nine bytes) it contains exactly those built for that kind and that vault.\<close>

theorem VaultKindRange_exact:
  assumes "is_ws ws"
  shows "case VaultKindRange kind ws of
      Inl e \<Rightarrow> e = WsPrefixOverflow ws \<and> ws = replicate 8 255
    | Inr (lower, upper) \<Rightarrow> lower < upper \<and> ws \<noteq> replicate 8 255 \<and>
        (\<forall>key. 9 \<le> length key \<longrightarrow>
          (in_range lower upper key \<longleftrightarrow> (\<exists>payload. key = vaultScoped kind ws payload)))"
proof (cases "VaultKindRange kind ws")
  case (Inl e)
  then show ?thesis
    using assms all_FF [of ws] IncrementWSPrefix_eq [OF assms]
    by (auto simp: VaultKindRange_def gbind_def is_ws_def split: if_splits)
next
  case (Inr r)
  then obtain lower upper where r: "VaultKindRange kind ws = Inr (lower, upper)"
    by (cases r) auto
  have "in_range lower upper (vaultScoped kind ws payload)" for payload
    using VaultKindRange_vaultScoped [OF assms assms r] by simp
  moreover have "ws \<noteq> replicate 8 255"
    using r assms all_FF [of ws] IncrementWSPrefix_eq [OF assms]
    by (auto simp: VaultKindRange_def gbind_def is_ws_def split: if_splits)
  ultimately show ?thesis
    using r VaultKindRange_lower_less_upper [OF assms r] VaultKindRange_members [OF assms r]
    by auto
qed

theorem VaultKindRange_exact_witness:
  "in_range [3, 0, 0, 0, 0, 0, 0, 1, 255] [3, 0, 0, 0, 0, 0, 0, 2, 0] (3 # [0, 0, 0, 0, 0, 0, 1, 255] @ [7])"
proof -
  have ws: "is_ws [0, 0, 0, 0, 0, 0, 1, 255]"
    by (simp add: is_ws_def)
  have "VaultKindRange 3 [0, 0, 0, 0, 0, 0, 1, 255] =
      Inr ([3, 0, 0, 0, 0, 0, 0, 1, 255], [3, 0, 0, 0, 0, 0, 0, 2, 0])"
    by code_simp
  then show ?thesis
    using VaultKindRange_exact [OF ws, of 3] by (auto simp: vaultScoped_def)
qed

text \<open>Keys never collide. Every vault-scoped builder gives the shape \<open>kind | ws | payload\<close>,
  and two such keys are equal only for the same kind, the same vault and the same payload; the
  payload is read back by dropping the first nine bytes, as the scans do with \<open>key[9:]\<close>.\<close>

theorem vault_keys_injective:
  assumes "is_ws ws" and "is_ws ws'"
  shows "(vaultScoped kind ws payload = vaultScoped kind' ws' payload' \<longleftrightarrow>
      kind = kind' \<and> ws = ws' \<and> payload = payload') \<and>
    bytes_str (drop 9 (vaultScopedString kind ws ident)) = ident"
  using assms vaultScoped_inject [OF assms] vaultScoped_drop9 [OF assms(1)]
  by (simp add: vaultScopedString_def)

theorem vault_keys_injective_witness:
  "vaultScoped 3 (replicate 8 0) [1] \<noteq> vaultScoped 3 (replicate 8 1) [1] \<and>
   bytes_str (drop 9 (vaultScopedString 3 (replicate 8 0) ''c1'')) = ''c1''"
  using vault_keys_injective [of "replicate 8 0" "replicate 8 1" 3 "[1]" 3 "[1]" "''c1''"]
  by (simp add: is_ws_def numeral_eq_Suc)

end
