(* ===== verification/Pebble_Store.thy ===== *)
theory Pebble_Store
  imports Keys
begin

text \<open>
  The key-value layer: \<open>internal/storage/db.go\<close>. Pebble itself
  (\<open>github.com/cockroachdb/pebble\<close>) is not part of the repository. It is the parameter
  \<open>P\<close>, a record of the three operations the code uses (point get, atomic batch commit,
  bounded iterator), and the locale \<open>pebble\<close> states what their documentation promises about
  the contents \<open>view d\<close> of a store. Every operation may fail; a failed commit yields no new
  store, so its caller goes on with the old one.
\<close>

type_synonym contents = "bytes \<rightharpoonup> bytes"

datatype kv_op = KSet bytes bytes | KDelete bytes | KDeleteRange bytes bytes

record 'db pebble_ops =
  pb_get :: "'db \<Rightarrow> bytes \<Rightarrow> bytes option gres"
  pb_commit :: "'db \<Rightarrow> kv_op list \<Rightarrow> 'db gres"
  pb_iter :: "'db \<Rightarrow> bytes option \<Rightarrow> bytes option \<Rightarrow> ((bytes \<times> bytes) list \<times> go_error option) gres"

section \<open>The contract\<close>

fun apply_op :: "kv_op \<Rightarrow> contents \<Rightarrow> contents" where
  "apply_op (KSet k v) m = m(k \<mapsto> v)"
| "apply_op (KDelete k) m = m(k := None)"
| "apply_op (KDeleteRange lower upper) m = (\<lambda>k. if in_range lower upper k then None else m k)"

definition apply_batch :: "kv_op list \<Rightarrow> contents \<Rightarrow> contents" where
  "apply_batch ops m = fold apply_op ops m"

definition in_bounds :: "bytes option \<Rightarrow> bytes option \<Rightarrow> bytes \<Rightarrow> bool" where
  "in_bounds lower upper k \<longleftrightarrow>
     (case lower of None \<Rightarrow> True | Some l \<Rightarrow> l \<le> k) \<and>
     (case upper of None \<Rightarrow> True | Some u \<Rightarrow> k < u)"

lemma apply_batch_simps [simp, store_simps]:
  "apply_batch [] m = m"
  "apply_batch (op # ops) m = apply_batch ops (apply_op op m)"
  by (simp_all add: apply_batch_def)

lemma apply_batch_append [simp]:
  "apply_batch (ops @ ops') m = apply_batch ops' (apply_batch ops m)"
  by (simp add: apply_batch_def)

lemma in_bounds_range [simp]: "in_bounds (Some l) (Some u) k \<longleftrightarrow> in_range l u k"
  by (simp add: in_bounds_def in_range_def)

locale pebble =
  fixes P :: "'db pebble_ops" and view :: "'db \<Rightarrow> contents"
  assumes get_view: "pb_get P d k = Inr r \<Longrightarrow> r = view d k"
    and commit_view: "pb_commit P d ops = Inr d' \<Longrightarrow> view d' = apply_batch ops (view d)"
    and iter_view: "pb_iter P d lower upper = Inr (kvs, None) \<Longrightarrow>
      sorted_wrt (<) (map fst kvs) \<and>
      set kvs = {(k, v). in_bounds lower upper k \<and> view d k = Some v}"
    and iter_partial: "pb_iter P d lower upper = Inr (kvs, Some e) \<Longrightarrow>
      set kvs \<subseteq> {(k, v). in_bounds lower upper k \<and> view d k = Some v}"

section \<open>An in-memory store that keeps the contract\<close>

text \<open>
  A store over association lists, used to show that the contract can be met and to evaluate
  the operations of the code on concrete inputs.
\<close>

fun mem_op :: "kv_op \<Rightarrow> (bytes \<times> bytes) list \<Rightarrow> (bytes \<times> bytes) list" where
  "mem_op (KSet k v) d = (k, v) # filter (\<lambda>kv. fst kv \<noteq> k) d"
| "mem_op (KDelete k) d = filter (\<lambda>kv. fst kv \<noteq> k) d"
| "mem_op (KDeleteRange lower upper) d = filter (\<lambda>kv. \<not> in_range lower upper (fst kv)) d"

definition mem_entries :: "(bytes \<times> bytes) list \<Rightarrow> bytes option \<Rightarrow> bytes option \<Rightarrow> (bytes \<times> bytes) list" where
  "mem_entries d lower upper =
     map (\<lambda>k. (k, the (map_of d k)))
       (filter (in_bounds lower upper) (sort (remdups (map fst d))))"

definition mem_pebble :: "(bytes \<times> bytes) list pebble_ops" where
  "mem_pebble =
     \<lparr>pb_get = (\<lambda>d k. Inr (map_of d k)),
      pb_commit = (\<lambda>d ops. Inr (fold mem_op ops d)),
      pb_iter = (\<lambda>d lower upper. Inr (mem_entries d lower upper, None))\<rparr>"

lemma map_of_filter_key: "map_of (filter (\<lambda>kv. Q (fst kv)) d) k = (if Q k then map_of d k else None)"
  by (induction d) auto

lemma map_of_mem_op: "map_of (mem_op op d) = apply_op op (map_of d)"
proof (cases op)
  case (KSet k v)
  then show ?thesis
    using map_of_filter_key [of "\<lambda>x. x \<noteq> k" d] by (auto simp: fun_eq_iff)
next
  case (KDelete k)
  then show ?thesis
    using map_of_filter_key [of "\<lambda>x. x \<noteq> k" d] by (auto simp: fun_eq_iff)
next
  case (KDeleteRange l u)
  then show ?thesis
    using map_of_filter_key [of "\<lambda>x. \<not> in_range l u x" d] by (auto simp: fun_eq_iff)
qed

lemma map_of_fold_mem_op: "map_of (fold mem_op ops d) = apply_batch ops (map_of d)"
  by (induction ops arbitrary: d) (simp_all add: map_of_mem_op)

lemma sorted_mem_entries: "sorted_wrt (<) (map fst (mem_entries d lower upper))"
proof -
  have "sorted_wrt (<) (sort (remdups (map fst d)))"
    by (simp add: strict_sorted_iff)
  then show ?thesis
    by (simp add: mem_entries_def comp_def sorted_wrt_filter)
qed

lemma set_mem_entries:
  "set (mem_entries d lower upper) = {(k, v). in_bounds lower upper k \<and> map_of d k = Some v}"
proof -
  have dom: "k \<in> fst ` set d \<longleftrightarrow> map_of d k \<noteq> None" for k
    by (simp add: map_of_eq_None_iff)
  have "(k, v) \<in> set (mem_entries d lower upper) \<longleftrightarrow>
      in_bounds lower upper k \<and> k \<in> fst ` set d \<and> v = the (map_of d k)" for k v
    by (auto simp: mem_entries_def)
  then show ?thesis
    unfolding dom by auto
qed

interpretation mem: pebble mem_pebble map_of
  by unfold_locales
    (auto simp: mem_pebble_def map_of_fold_mem_op set_mem_entries sorted_mem_entries)

section \<open>Operations of \<open>storage.DB\<close>\<close>

definition DB_Set :: "'db pebble_ops \<Rightarrow> 'db \<Rightarrow> bytes \<Rightarrow> bytes \<Rightarrow> 'db gres" where
  "DB_Set P d key val = pb_commit P d [KSet key val]"

definition DB_SetWithPrefix :: "'db pebble_ops \<Rightarrow> 'db \<Rightarrow> byte \<Rightarrow> bytes \<Rightarrow> bytes \<Rightarrow> 'db gres" where
  "DB_SetWithPrefix P d prefix key val = pb_commit P d [KSet (prefix # key) val]"

definition DB_Get :: "'db pebble_ops \<Rightarrow> 'db \<Rightarrow> bytes \<Rightarrow> bytes option gres" where
  "DB_Get P d key = pb_get P d key"

definition DB_GetWithPrefix :: "'db pebble_ops \<Rightarrow> 'db \<Rightarrow> byte \<Rightarrow> bytes \<Rightarrow> bytes option gres" where
  "DB_GetWithPrefix P d prefix key = DB_Get P d (prefix # key)"

definition DB_Delete :: "'db pebble_ops \<Rightarrow> 'db \<Rightarrow> bytes \<Rightarrow> 'db gres" where
  "DB_Delete P d key = pb_commit P d [KDelete key]"

definition DB_DeleteWithPrefix :: "'db pebble_ops \<Rightarrow> 'db \<Rightarrow> byte \<Rightarrow> bytes \<Rightarrow> 'db gres" where
  "DB_DeleteWithPrefix P d prefix key = pb_commit P d [KDelete (prefix # key)]"

definition DB_DeleteRange :: "'db pebble_ops \<Rightarrow> 'db \<Rightarrow> bytes \<Rightarrow> bytes \<Rightarrow> 'db gres" where
  "DB_DeleteRange P d lower upper =
     (if length lower = 0 \<or> length upper = 0 \<or> \<not> lower < upper
      then Inl (InvalidRangeBounds lower upper)
      else pb_commit P d [KDeleteRange lower upper])"

text \<open>
  The callback of a scan is a state transformer that also says whether to go on. The loop
  stops at the first key the guard rejects or the first callback that returns false; only a
  loop that consumed the iterator reports \<open>iter.Error()\<close>.
\<close>

fun scan_loop :: "(bytes \<Rightarrow> bool) \<Rightarrow> (bytes \<Rightarrow> bytes \<Rightarrow> 's \<Rightarrow> 's \<times> bool) \<Rightarrow>
    (bytes \<times> bytes) list \<Rightarrow> 's \<Rightarrow> 's \<times> bool" where
  "scan_loop ok fn [] s = (s, True)"
| "scan_loop ok fn ((k, v) # kvs) s =
     (if \<not> ok k then (s, False)
      else let (s', go) = fn k v s in if go then scan_loop ok fn kvs s' else (s', False))"

definition hasPrefix :: "'a list \<Rightarrow> 'a list \<Rightarrow> bool" where
  "hasPrefix s prefix \<longleftrightarrow> take (length prefix) s = prefix"

definition DB_PrefixScan :: "'db pebble_ops \<Rightarrow> 'db \<Rightarrow> bytes \<Rightarrow>
    (bytes \<Rightarrow> bytes \<Rightarrow> 's \<Rightarrow> 's \<times> bool) \<Rightarrow> 's \<Rightarrow> 's \<times> go_error option" where
  "DB_PrefixScan P d prefix fn s =
     (case pb_iter P d (Some prefix) None of
        Inl e \<Rightarrow> (s, Some e)
      | Inr (kvs, err) \<Rightarrow>
          let (s', consumed) = scan_loop (\<lambda>k. hasPrefix k prefix) fn kvs s
          in (s', if consumed then err else None))"

definition DB_PrefixScanByte :: "'db pebble_ops \<Rightarrow> 'db \<Rightarrow> byte \<Rightarrow>
    (bytes \<Rightarrow> bytes \<Rightarrow> 's \<Rightarrow> 's \<times> bool) \<Rightarrow> 's \<Rightarrow> 's \<times> go_error option" where
  "DB_PrefixScanByte P d prefix fn s = DB_PrefixScan P d [prefix] fn s"

definition DB_RangeScan :: "'db pebble_ops \<Rightarrow> 'db \<Rightarrow> bytes \<Rightarrow> bytes \<Rightarrow>
    (bytes \<Rightarrow> bytes \<Rightarrow> 's \<Rightarrow> 's \<times> bool) \<Rightarrow> 's \<Rightarrow> 's \<times> go_error option" where
  "DB_RangeScan P d lower upper fn s =
     (case pb_iter P d (Some lower) (Some upper) of
        Inl e \<Rightarrow> (s, Some e)
      | Inr (kvs, err) \<Rightarrow>
          let (s', consumed) = scan_loop (\<lambda>_. True) fn kvs s
          in (s', if consumed then err else None))"

lemmas db_op_defs =
  DB_Set_def DB_SetWithPrefix_def DB_Get_def DB_GetWithPrefix_def DB_Delete_def
  DB_DeleteWithPrefix_def DB_DeleteRange_def

section \<open>What the operations do to the contents\<close>

context pebble
begin

lemma DB_Get_view: "DB_Get P d k = Inr r \<Longrightarrow> r = view d k"
  by (simp add: DB_Get_def get_view)

lemma DB_Set_view [store_simps]: "DB_Set P d k v = Inr d' \<Longrightarrow> view d' = (view d)(k \<mapsto> v)"
  by (simp add: DB_Set_def commit_view)

lemma DB_Delete_view [store_simps]: "DB_Delete P d k = Inr d' \<Longrightarrow> view d' = (view d)(k := None)"
  by (simp add: DB_Delete_def commit_view)

lemma DB_SetWithPrefix_view [store_simps]:
  "DB_SetWithPrefix P d p k v = Inr d' \<Longrightarrow> view d' = (view d)(p # k \<mapsto> v)"
  by (simp add: DB_SetWithPrefix_def commit_view)

lemma DB_DeleteWithPrefix_view [store_simps]:
  "DB_DeleteWithPrefix P d p k = Inr d' \<Longrightarrow> view d' = (view d)(p # k := None)"
  by (simp add: DB_DeleteWithPrefix_def commit_view)

lemma DB_DeleteRange_view:
  "DB_DeleteRange P d lower upper = Inr d' \<Longrightarrow>
   view d' = (\<lambda>k. if in_range lower upper k then None else view d k)"
  by (auto simp: DB_DeleteRange_def commit_view split: if_splits)

lemma iter_map_of:
  assumes "pb_iter P d lower upper = Inr (kvs, None)"
  shows "map_of kvs k = (if in_bounds lower upper k then view d k else None)"
proof -
  have dist: "distinct (map fst kvs)"
    using iter_view [OF assms] by (auto simp: strict_sorted_iff)
  have set: "set kvs = {(k, v). in_bounds lower upper k \<and> view d k = Some v}"
    using iter_view [OF assms] by simp
  show ?thesis
  proof (cases "in_bounds lower upper k \<and> view d k \<noteq> None")
    case True
    then obtain v where "view d k = Some v" by auto
    then show ?thesis
      using True set dist by (simp add: map_of_is_SomeI)
  next
    case False
    then have "k \<notin> fst ` set kvs"
      using set by auto
    then show ?thesis
      using False by (auto simp: map_of_eq_None_iff)
  qed
qed

end

section \<open>A store without failures\<close>

text \<open>The hypothesis under which the effect of an operation is stated: no I/O error occurs.\<close>

definition reliable :: "'db pebble_ops \<Rightarrow> bool" where
  "reliable P \<longleftrightarrow> (\<forall>d k. \<exists>r. pb_get P d k = Inr r) \<and> (\<forall>d ops. \<exists>d'. pb_commit P d ops = Inr d') \<and>
     (\<forall>d l h. \<exists>kvs. pb_iter P d l h = Inr (kvs, None))"

lemma reliable_mem [simp]: "reliable mem_pebble"
  by (simp add: reliable_def mem_pebble_def)

context pebble
begin

lemma reliable_get: "reliable P \<Longrightarrow> pb_get P d k = Inr (view d k)"
  unfolding reliable_def by (metis get_view)

lemma reliable_commitE:
  assumes "reliable P"
  obtains d' where "pb_commit P d ops = Inr d'" and "view d' = apply_batch ops (view d)"
  using assms unfolding reliable_def by (metis commit_view)

lemma reliable_iterE:
  assumes "reliable P"
  obtains kvs where "pb_iter P d lower upper = Inr (kvs, None)"
    and "sorted_wrt (<) (map fst kvs)" and "distinct (map fst kvs)"
    and "set kvs = {(k, v). in_bounds lower upper k \<and> view d k = Some v}"
proof -
  obtain kvs where "pb_iter P d lower upper = Inr (kvs, None)"
    using assms unfolding reliable_def by blast
  then show thesis
    using iter_view [of d lower upper kvs] by (intro that) (auto simp: strict_sorted_iff)
qed

lemma reliable_Get: "reliable P \<Longrightarrow> DB_Get P d k = Inr (view d k)"
  by (simp add: DB_Get_def reliable_get)

end

text \<open>A callback that never stops collects the whole range in key order.\<close>

lemma scan_loop_collect:
  "scan_loop (\<lambda>_. True) (\<lambda>k v acc. (acc @ f k v, True)) kvs acc =
     (acc @ concat (map (\<lambda>(k, v). f k v) kvs), True)"
  by (induction kvs arbitrary: acc) auto

lemma hasPrefix_iff: "hasPrefix s p \<longleftrightarrow> (\<exists>q. s = p @ q)"
  by (metis append_eq_conv_conj append_take_drop_id hasPrefix_def)

end
