(* ===== verification/Lru.thy ===== *)
theory Lru
  imports Prelude
begin

text \<open>
  The two bounded caches of the program: the generic \<open>LRU\<close> of \<open>internal/engine/cache.go\<close>
  (result cache, query-embedding cache) and \<open>vaultCache\<close> of \<open>internal/storage/vault.go\<close>.
  Both keep a doubly-linked list (\<open>container/list\<close>) and a map from keys to list elements.
  Elements are modelled by handles: \<open>order\<close> lists them front to back, \<open>cell\<close> holds the
  entry of a handle, \<open>index\<close> is the map. The invariant says that list and map agree;
  \<open>entries\<close> is the abstraction to a list of pairs, most recently used first, on which the
  specification \<open>spec_get\<close>, \<open>spec_put\<close> is stated.
\<close>

record ('k, 'v) lru =
  cap :: int
  order :: "nat list"
  cell :: "nat \<Rightarrow> 'k \<times> 'v"
  index :: "'k \<rightharpoonup> nat"
  next_el :: nat
  hits :: "64 word"
  misses :: "64 word"

section \<open>Specification\<close>

fun spec_get :: "'k \<Rightarrow> ('k \<times> 'v) list \<Rightarrow> 'v option \<times> ('k \<times> 'v) list" where
  "spec_get k xs =
     (case map_of xs k of None \<Rightarrow> (None, xs)
      | Some v \<Rightarrow> (Some v, (k, v) # filter (\<lambda>e. fst e \<noteq> k) xs))"

definition spec_put :: "int \<Rightarrow> 'k \<Rightarrow> 'v \<Rightarrow> ('k \<times> 'v) list \<Rightarrow> ('k \<times> 'v) list" where
  "spec_put n k v xs =
     (let ys = (k, v) # filter (\<lambda>e. fst e \<noteq> k) xs in if n > 0 then take (nat n) ys else ys)"

definition spec_remove :: "'k \<Rightarrow> ('k \<times> 'v) list \<Rightarrow> ('k \<times> 'v) list" where
  "spec_remove k xs = filter (\<lambda>e. fst e \<noteq> k) xs"

section \<open>List operations of \<open>container/list\<close>\<close>

definition MoveToFront :: "nat \<Rightarrow> ('k, 'v) lru \<Rightarrow> ('k, 'v) lru" where
  "MoveToFront el c = c\<lparr>order := el # removeAll el (order c)\<rparr>"

definition PushFront :: "'k \<Rightarrow> 'v \<Rightarrow> ('k, 'v) lru \<Rightarrow> ('k, 'v) lru" where
  "PushFront k v c =
     c\<lparr>order := next_el c # order c, cell := (cell c)(next_el c := (k, v)),
       index := (index c)(k \<mapsto> next_el c), next_el := Suc (next_el c)\<rparr>"

definition RemoveElement :: "nat \<Rightarrow> ('k, 'v) lru \<Rightarrow> ('k, 'v) lru" where
  "RemoveElement el c =
     c\<lparr>order := removeAll el (order c), index := (index c)(fst (cell c el) := None)\<rparr>"

section \<open>\<open>engine.LRU\<close>\<close>

definition NewLRU :: "int \<Rightarrow> ('k, 'v) lru" where
  "NewLRU capacity =
     \<lparr>cap = capacity, order = [], cell = (\<lambda>_. undefined), index = (\<lambda>_. None), next_el = 0,
      hits = 0, misses = 0\<rparr>"

definition LRU_Enabled :: "('k, 'v) lru \<Rightarrow> bool" where
  "LRU_Enabled c \<longleftrightarrow> cap c > 0"

definition LRU_Get :: "('k, 'v) lru \<Rightarrow> 'k \<Rightarrow> 'v option \<times> ('k, 'v) lru" where
  "LRU_Get c key =
     (if \<not> LRU_Enabled c then (None, c\<lparr>misses := misses c + 1\<rparr>)
      else case index c key of
        Some el \<Rightarrow> let c' = MoveToFront el c
                   in (Some (snd (cell c' el)), c'\<lparr>hits := hits c' + 1\<rparr>)
      | None \<Rightarrow> (None, c\<lparr>misses := misses c + 1\<rparr>))"

definition LRU_Put :: "('k, 'v) lru \<Rightarrow> 'k \<Rightarrow> 'v \<Rightarrow> ('k, 'v) lru" where
  "LRU_Put c key val =
     (if \<not> LRU_Enabled c then c
      else case index c key of
        Some el \<Rightarrow> MoveToFront el (c\<lparr>cell := (cell c)(el := (fst (cell c el), val))\<rparr>)
      | None \<Rightarrow>
          let c1 = PushFront key val c
          in if int (length (order c1)) > cap c1
             then (if order c1 \<noteq> [] then RemoveElement (last (order c1)) c1 else c1)
             else c1)"

definition LRU_Flush :: "('k, 'v) lru \<Rightarrow> ('k, 'v) lru" where
  "LRU_Flush c = c\<lparr>order := [], index := (\<lambda>_. None)\<rparr>"

definition LRU_Len :: "('k, 'v) lru \<Rightarrow> nat" where
  "LRU_Len c = (if \<not> LRU_Enabled c then 0 else length (order c))"

record cache_stats =
  cs_Enabled :: bool
  cs_Size :: nat
  cs_Capacity :: int
  cs_Hits :: "64 word"
  cs_Misses :: "64 word"

definition LRU_Stats :: "('k, 'v) lru \<Rightarrow> cache_stats" where
  "LRU_Stats c =
     (if cap c \<le> 0
      then \<lparr>cs_Enabled = False, cs_Size = 0, cs_Capacity = cap c, cs_Hits = hits c,
            cs_Misses = misses c\<rparr>
      else \<lparr>cs_Enabled = True, cs_Size = LRU_Len c, cs_Capacity = cap c, cs_Hits = hits c,
            cs_Misses = misses c\<rparr>)"

section \<open>\<open>storage.vaultCache\<close>\<close>

text \<open>The same list and map without counters; a capacity of 0 or less means unbounded.\<close>

definition newVaultCache :: "int \<Rightarrow> (string, bytes) lru" where
  "newVaultCache capacity = NewLRU capacity"

definition vaultCache_Get :: "('k, 'v) lru \<Rightarrow> 'k \<Rightarrow> 'v option \<times> ('k, 'v) lru" where
  "vaultCache_Get c name =
     (case index c name of
        Some e \<Rightarrow> let c' = MoveToFront e c in (Some (snd (cell c' e)), c')
      | None \<Rightarrow> (None, c))"

definition vaultCache_Add :: "('k, 'v) lru \<Rightarrow> 'k \<Rightarrow> 'v \<Rightarrow> ('k, 'v) lru" where
  "vaultCache_Add c name ws =
     (case index c name of
        Some e \<Rightarrow> MoveToFront e (c\<lparr>cell := (cell c)(e := (fst (cell c e), ws))\<rparr>)
      | None \<Rightarrow>
          let c1 = (if cap c > 0 \<and> int (length (order c)) \<ge> cap c
                    then (if order c \<noteq> [] then RemoveElement (last (order c)) c else c)
                    else c)
          in PushFront name ws c1)"

definition vaultCache_Remove :: "('k, 'v) lru \<Rightarrow> 'k \<Rightarrow> ('k, 'v) lru" where
  "vaultCache_Remove c name =
     (case index c name of Some e \<Rightarrow> RemoveElement e c | None \<Rightarrow> c)"

section \<open>Invariant and abstraction\<close>

definition entries :: "('k, 'v) lru \<Rightarrow> ('k \<times> 'v) list" where
  "entries c = map (cell c) (order c)"

definition lru_inv :: "('k, 'v) lru \<Rightarrow> bool" where
  "lru_inv c \<longleftrightarrow>
     distinct (order c) \<and> (\<forall>el \<in> set (order c). el < next_el c) \<and>
     (\<forall>k el. index c k = Some el \<longleftrightarrow> el \<in> set (order c) \<and> fst (cell c el) = k) \<and>
     (cap c > 0 \<longrightarrow> int (length (order c)) \<le> cap c)"

lemma lru_invD:
  assumes "lru_inv c"
  shows "distinct (order c)" and "el \<in> set (order c) \<Longrightarrow> el < next_el c"
    and "index c k = Some el \<longleftrightarrow> el \<in> set (order c) \<and> fst (cell c el) = k"
    and "cap c > 0 \<Longrightarrow> int (length (order c)) \<le> cap c"
  using assms by (auto simp: lru_inv_def)

lemma lru_inv_NewLRU [simp, intro]: "lru_inv (NewLRU n)"
  by (simp add: lru_inv_def NewLRU_def)

lemma cap_NewLRU [simp]: "cap (NewLRU n) = n"
  by (simp add: NewLRU_def)

lemma entries_NewLRU [simp]: "entries (NewLRU n) = []"
  by (simp add: entries_def NewLRU_def)

lemma lru_key_inj:
  assumes "lru_inv c" and "x \<in> set (order c)" and "fst (cell c x) = fst (cell c y)"
    and "y \<in> set (order c)"
  shows "x = y"
  using lru_invD(3) [OF assms(1)] assms(2-4) by (metis option.inject)

lemma lru_keys_distinct:
  assumes "lru_inv c"
  shows "distinct (map fst (entries c))"
proof -
  have "inj_on (fst \<circ> cell c) (set (order c))"
    using lru_invD(3) [OF assms] by (intro inj_onI) (metis comp_apply option.inject)
  then show ?thesis
    using lru_invD(1) [OF assms] by (simp add: entries_def distinct_map)
qed

lemma lru_index_Some:
  assumes "lru_inv c" and "index c k = Some el"
  shows "el \<in> set (order c)" "cell c el = (k, snd (cell c el))"
    and "map_of (entries c) k = Some (snd (cell c el))"
    and "filter (\<lambda>e. fst e \<noteq> k) (entries c) = map (cell c) (removeAll el (order c))"
proof -
  show el: "el \<in> set (order c)" and cell: "cell c el = (k, snd (cell c el))"
    using lru_invD(3) [OF assms(1)] assms(2) by (auto simp: prod_eq_iff)
  have "(k, snd (cell c el)) \<in> set (entries c)"
    using el cell by (metis entries_def image_eqI list.set_map)
  then show "map_of (entries c) k = Some (snd (cell c el))"
    using lru_keys_distinct [OF assms(1)] by (simp add: map_of_is_SomeI)
  have same: "fst (cell c x) \<noteq> k \<longleftrightarrow> x \<noteq> el" if "x \<in> set (order c)" for x
    using lru_invD(3) [OF assms(1)] assms(2) that by (metis option.inject)
  have "filter (\<lambda>x. fst (cell c x) \<noteq> k) (order c) = filter (\<lambda>x. x \<noteq> el) (order c)"
    using same by (auto intro: filter_cong)
  then show "filter (\<lambda>e. fst e \<noteq> k) (entries c) = map (cell c) (removeAll el (order c))"
    by (simp add: entries_def filter_map comp_def removeAll_filter_not_eq eq_commute)
qed

lemma lru_index_None:
  assumes "lru_inv c" and "index c k = None"
  shows "map_of (entries c) k = None" and "filter (\<lambda>e. fst e \<noteq> k) (entries c) = entries c"
proof -
  have no: "fst (cell c x) \<noteq> k" if "x \<in> set (order c)" for x
    using lru_invD(3) [OF assms(1)] assms(2) that by (metis option.distinct(1))
  then show "map_of (entries c) k = None"
    by (auto simp: entries_def map_of_eq_None_iff image_iff)
  show "filter (\<lambda>e. fst e \<noteq> k) (entries c) = entries c"
    using no by (auto simp: entries_def filter_id_conv)
qed

text \<open>The list operations on the abstraction.\<close>

lemma MoveToFront_inv:
  assumes "lru_inv c" and "el \<in> set (order c)"
  shows "lru_inv (MoveToFront el c)"
proof -
  have "length (removeAll el (order c)) < length (order c)"
    using assms(2) by (rule length_removeAll_less)
  then show ?thesis
    using assms by (auto simp: lru_inv_def MoveToFront_def distinct_removeAll)
qed

lemma entries_MoveToFront:
  "entries (MoveToFront el c) = cell c el # map (cell c) (removeAll el (order c))"
  by (simp add: entries_def MoveToFront_def)

lemma RemoveElement_inv:
  assumes "lru_inv c" and "el \<in> set (order c)"
  shows "lru_inv (RemoveElement el c)"
proof -
  have "length (removeAll el (order c)) < length (order c)"
    using assms(2) by (rule length_removeAll_less)
  moreover have "x = el" if "x \<in> set (order c)" "fst (cell c x) = fst (cell c el)" for x
    using that assms(2) by (rule lru_key_inj [OF assms(1)])
  ultimately show ?thesis
    using assms by (auto simp: lru_inv_def RemoveElement_def distinct_removeAll)
qed

lemma entries_RemoveElement:
  "entries (RemoveElement el c) = map (cell c) (removeAll el (order c))"
  by (simp add: entries_def RemoveElement_def)

lemma PushFront_inv:
  assumes "lru_inv c" and "index c k = None"
    and "cap c > 0 \<Longrightarrow> int (length (order c)) < cap c"
  shows "lru_inv (PushFront k v c)"
proof -
  have no: "fst (cell c x) \<noteq> k" if "x \<in> set (order c)" for x
    using lru_invD(3) [OF assms(1)] assms(2) that by (metis option.distinct(1))
  have fresh: "next_el c \<notin> set (order c)"
    using lru_invD(2) [OF assms(1)] by blast
  show ?thesis
    unfolding lru_inv_def
  proof (intro conjI allI)
    fix k' el
    show "index (PushFront k v c) k' = Some el \<longleftrightarrow>
        el \<in> set (order (PushFront k v c)) \<and> fst (cell (PushFront k v c) el) = k'"
      using no fresh lru_invD(3) [OF assms(1), of k' el] by (auto simp: PushFront_def)
  qed (use assms fresh lru_invD(1,2) [OF assms(1)] in \<open>auto simp: PushFront_def less_Suc_eq\<close>)
qed

lemma entries_PushFront:
  assumes "lru_inv c"
  shows "entries (PushFront k v c) = (k, v) # entries c"
  using lru_invD(2) [OF assms] by (auto simp: entries_def PushFront_def)

lemma update_cell_inv:
  assumes "lru_inv c" and "index c k = Some el"
  shows "lru_inv (c\<lparr>cell := (cell c)(el := (fst (cell c el), v))\<rparr>)"
  using assms by (auto simp: lru_inv_def)

lemma removeAll_last_butlast:
  "distinct xs \<Longrightarrow> xs \<noteq> [] \<Longrightarrow> removeAll (last xs) xs = butlast xs"
  by (induction xs rule: rev_induct) auto

section \<open>The operations refine the specification\<close>

lemma LRU_Get_refines:
  assumes "lru_inv c" and "cap c > 0"
  shows "(fst (LRU_Get c k), entries (snd (LRU_Get c k))) = spec_get k (entries c)"
    and "lru_inv (snd (LRU_Get c k))" and "cap (snd (LRU_Get c k)) = cap c"
proof -
  have frame: "entries (c\<lparr>hits := h\<rparr>) = entries c" "entries (c\<lparr>misses := h\<rparr>) = entries c"
    "lru_inv (c\<lparr>hits := h\<rparr>) = lru_inv c" "lru_inv (c\<lparr>misses := h\<rparr>) = lru_inv c"
    for c :: "('a, 'b) lru" and h
    by (simp_all add: entries_def lru_inv_def)
  have cells: "cell (MoveToFront el c) = cell c" "cap (MoveToFront el c) = cap c" for el
    by (simp_all add: MoveToFront_def)
  show "(fst (LRU_Get c k), entries (snd (LRU_Get c k))) = spec_get k (entries c)"
    using assms lru_index_Some [OF assms(1), of k] lru_index_None [OF assms(1), of k]
    by (auto simp: LRU_Get_def LRU_Enabled_def Let_def frame cells entries_MoveToFront
        split: option.splits)
  show "lru_inv (snd (LRU_Get c k))"
    using assms lru_index_Some(1) [OF assms(1), of k] MoveToFront_inv [OF assms(1)]
    by (auto simp: LRU_Get_def LRU_Enabled_def Let_def frame split: option.splits)
  show "cap (snd (LRU_Get c k)) = cap c"
    by (auto simp: LRU_Get_def Let_def cells split: option.splits)
qed

lemma touch_refines:
  fixes v :: 'v and c :: "('k, 'v) lru"
  assumes "lru_inv c" and "index c k = Some el"
  defines "c' \<equiv> MoveToFront el (c\<lparr>cell := (cell c)(el := (fst (cell c el), v))\<rparr>)"
  shows "entries c' = (k, v) # filter (\<lambda>e. fst e \<noteq> k) (entries c)" and "lru_inv c'"
proof -
  note el = lru_index_Some [OF assms(1,2)]
  have "map ((cell c)(el := (k, v))) (removeAll el (order c)) = map (cell c) (removeAll el (order c))"
    by simp
  moreover have "fst (cell c el) = k"
    using el(2) by (metis fst_conv)
  ultimately show "entries c' = (k, v) # filter (\<lambda>e. fst e \<noteq> k) (entries c)"
    using el(4) by (simp add: c'_def entries_MoveToFront)
  show "lru_inv c'"
    unfolding c'_def using update_cell_inv [OF assms(1,2)] el(1) by (intro MoveToFront_inv) auto
qed

lemma length_entries [simp]: "length (entries c) = length (order c)"
  by (simp add: entries_def)

lemma spec_put_hit:
  assumes "length xs \<le> nat n \<or> n \<le> 0" and "distinct (map fst xs)" and "map_of xs k = Some w"
  shows "spec_put n k v xs = (k, v) # filter (\<lambda>e. fst e \<noteq> k) xs"
proof -
  have "(k, w) \<in> set xs"
    using assms(3) by (rule map_of_SomeD)
  then have "length (filter (\<lambda>e. fst e \<noteq> k) xs) < length xs"
    by (intro length_filter_less [of "(k, w)"]) auto
  then show ?thesis
    using assms(1) by (auto simp: spec_put_def Let_def)
qed

lemma LRU_Put_refines:
  assumes "lru_inv c" and "cap c > 0"
  shows "entries (LRU_Put c k v) = spec_put (cap c) k v (entries c)"
    and "lru_inv (LRU_Put c k v)" and "cap (LRU_Put c k v) = cap c"
proof -
  have len: "int (length (order c)) \<le> cap c"
    using assms by (simp add: lru_invD)
  show "cap (LRU_Put c k v) = cap c"
    by (auto simp: LRU_Put_def Let_def MoveToFront_def PushFront_def RemoveElement_def
        split: option.splits)
  show "entries (LRU_Put c k v) = spec_put (cap c) k v (entries c)" and "lru_inv (LRU_Put c k v)"
  proof (atomize (full), cases "index c k")
    case (Some el)
    have "spec_put (cap c) k v (entries c) = (k, v) # filter (\<lambda>e. fst e \<noteq> k) (entries c)"
      using len lru_keys_distinct [OF assms(1)] lru_index_Some(3) [OF assms(1) Some]
      by (intro spec_put_hit) auto
    then show "entries (LRU_Put c k v) = spec_put (cap c) k v (entries c) \<and> lru_inv (LRU_Put c k v)"
      using touch_refines [OF assms(1) Some, of v] assms(2) Some
      by (simp add: LRU_Put_def LRU_Enabled_def)
  next
    case None
    let ?c1 = "PushFront k v c"
    have spec: "spec_put (cap c) k v (entries c) = take (nat (cap c)) ((k, v) # entries c)"
      using assms(2) lru_index_None(2) [OF assms(1) None] by (simp add: spec_put_def Let_def)
    have ent: "entries ?c1 = (k, v) # entries c"
      using assms(1) by (rule entries_PushFront)
    show "entries (LRU_Put c k v) = spec_put (cap c) k v (entries c) \<and> lru_inv (LRU_Put c k v)"
    proof (cases "int (length (order c)) < cap c")
      case True
      then show ?thesis
        using None assms spec ent PushFront_inv [OF assms(1) None, of v]
        by (simp add: LRU_Put_def LRU_Enabled_def Let_def PushFront_def)
    next
      case False
      let ?el = "last (order c)"
      have full: "length (order c) = nat (cap c)" and ne: "order c \<noteq> []"
        using False len assms(2) by auto
      have fresh: "next_el c \<notin> set (order c)"
        using lru_invD(2) [OF assms(1)] by blast
      have put: "LRU_Put c k v = RemoveElement ?el ?c1"
        using None assms(2) full ne
        by (simp add: LRU_Put_def LRU_Enabled_def Let_def PushFront_def)
      have el: "?el \<in> set (order c)" "?el \<noteq> next_el c"
        using fresh last_in_set [OF ne] by metis+
      have "entries (RemoveElement ?el ?c1) = map (cell ?c1) (next_el c # butlast (order c))"
        using el ne lru_invD(1) [OF assms(1)]
        by (simp add: entries_RemoveElement removeAll_last_butlast PushFront_def)
      also have "\<dots> = (k, v) # map (cell c) (butlast (order c))"
        using fresh by (auto simp: PushFront_def dest: in_set_butlastD)
      also have "\<dots> = take (nat (cap c)) ((k, v) # entries c)"
        using full ne assms(2)
        by (simp add: entries_def butlast_conv_take take_Cons' take_map nat_diff_distrib)
      finally have 1: "entries (RemoveElement ?el ?c1) = take (nat (cap c)) ((k, v) # entries c)" .
      have c0: "lru_inv ((RemoveElement ?el c))" "index (RemoveElement ?el c) k = None"
        "length (order (RemoveElement ?el c)) < length (order c)"
        using RemoveElement_inv [OF assms(1) el(1)] None length_removeAll_less [OF el(1)]
        by (simp_all add: RemoveElement_def)
      have "lru_inv (PushFront k v (RemoveElement ?el c))"
        using c0 full len by (intro PushFront_inv) (auto simp: RemoveElement_def)
      moreover have "RemoveElement ?el ?c1 = PushFront k v (RemoveElement ?el c)"
        using el None fresh lru_invD(3) [OF assms(1), of k ?el]
        by (auto simp: RemoveElement_def PushFront_def fun_upd_twist)
      ultimately show ?thesis
        using 1 put spec by simp
    qed
  qed
qed

lemma vaultCache_Get_refines:
  assumes "lru_inv c"
  shows "(fst (vaultCache_Get c k), entries (snd (vaultCache_Get c k))) = spec_get k (entries c)"
    and "lru_inv (snd (vaultCache_Get c k))" and "cap (snd (vaultCache_Get c k)) = cap c"
proof -
  have cells: "cell (MoveToFront el c) = cell c" "cap (MoveToFront el c) = cap c" for el
    by (simp_all add: MoveToFront_def)
  show "(fst (vaultCache_Get c k), entries (snd (vaultCache_Get c k))) = spec_get k (entries c)"
    using lru_index_Some [OF assms, of k] lru_index_None [OF assms, of k]
    by (auto simp: vaultCache_Get_def Let_def cells entries_MoveToFront split: option.splits)
  show "lru_inv (snd (vaultCache_Get c k))"
    using assms lru_index_Some(1) [OF assms, of k] MoveToFront_inv [OF assms]
    by (auto simp: vaultCache_Get_def Let_def split: option.splits)
  show "cap (snd (vaultCache_Get c k)) = cap c"
    by (auto simp: vaultCache_Get_def Let_def cells split: option.splits)
qed

lemma vaultCache_Add_refines:
  assumes "lru_inv c"
  shows "entries (vaultCache_Add c k v) = spec_put (cap c) k v (entries c)"
    and "lru_inv (vaultCache_Add c k v)" and "cap (vaultCache_Add c k v) = cap c"
proof -
  show "cap (vaultCache_Add c k v) = cap c"
    by (auto simp: vaultCache_Add_def Let_def MoveToFront_def PushFront_def RemoveElement_def
        split: option.splits)
  show "entries (vaultCache_Add c k v) = spec_put (cap c) k v (entries c)"
    and "lru_inv (vaultCache_Add c k v)"
  proof (atomize (full), cases "index c k")
    case (Some el)
    have "spec_put (cap c) k v (entries c) = (k, v) # filter (\<lambda>e. fst e \<noteq> k) (entries c)"
      using lru_invD(4) [OF assms] lru_keys_distinct [OF assms] lru_index_Some(3) [OF assms Some]
      by (intro spec_put_hit) auto
    then show "entries (vaultCache_Add c k v) = spec_put (cap c) k v (entries c) \<and>
        lru_inv (vaultCache_Add c k v)"
      using touch_refines [OF assms Some, of v] Some by (simp add: vaultCache_Add_def)
  next
    case None
    note miss = lru_index_None(2) [OF assms None]
    show "entries (vaultCache_Add c k v) = spec_put (cap c) k v (entries c) \<and>
        lru_inv (vaultCache_Add c k v)"
    proof (cases "cap c > 0 \<and> int (length (order c)) \<ge> cap c")
      case False
      then have "lru_inv (PushFront k v c)"
        using assms None by (intro PushFront_inv) auto
      then show ?thesis
        using False None assms miss
        by (auto simp: vaultCache_Add_def spec_put_def Let_def entries_PushFront)
    next
      case True
      let ?el = "last (order c)" and ?c1 = "RemoveElement (last (order c)) c"
      have full: "length (order c) = nat (cap c)" and ne: "order c \<noteq> []"
        using True lru_invD(4) [OF assms] by auto
      have el: "?el \<in> set (order c)"
        using ne by simp
      have c1: "lru_inv ?c1" "index ?c1 k = None" "length (order ?c1) < length (order c)"
        using RemoveElement_inv [OF assms el] None length_removeAll_less [OF el]
        by (simp_all add: RemoveElement_def)
      have inv: "lru_inv (PushFront k v ?c1)"
        using c1 full by (intro PushFront_inv) (auto simp: RemoveElement_def)
      have "entries (PushFront k v ?c1) = (k, v) # map (cell c) (butlast (order c))"
        using c1(1) ne lru_invD(1) [OF assms]
        by (simp add: entries_PushFront entries_RemoveElement removeAll_last_butlast)
      also have "\<dots> = take (nat (cap c)) ((k, v) # entries c)"
        using full ne True
        by (simp add: entries_def butlast_conv_take take_Cons' take_map nat_diff_distrib)
      finally show ?thesis
        using inv True None ne miss by (simp add: vaultCache_Add_def spec_put_def Let_def)
    qed
  qed
qed

lemma vaultCache_Remove_refines:
  assumes "lru_inv c"
  shows "entries (vaultCache_Remove c k) = spec_remove k (entries c)"
    and "lru_inv (vaultCache_Remove c k)" and "cap (vaultCache_Remove c k) = cap c"
proof -
  show "entries (vaultCache_Remove c k) = spec_remove k (entries c)"
    using lru_index_Some(4) [OF assms, of k] lru_index_None(2) [OF assms, of k]
    by (auto simp: vaultCache_Remove_def spec_remove_def entries_RemoveElement split: option.splits)
  show "lru_inv (vaultCache_Remove c k)"
    using assms lru_index_Some(1) [OF assms, of k] RemoveElement_inv [OF assms]
    by (auto simp: vaultCache_Remove_def split: option.splits)
  show "cap (vaultCache_Remove c k) = cap c"
    by (auto simp: vaultCache_Remove_def RemoveElement_def split: option.splits)
qed

section \<open>The contract of a bounded cache\<close>

text \<open>
  What the users of either cache rely on. A client that only ever stores the value a function
  \<open>f\<close> computes for a key reads back nothing but values of \<open>f\<close>, and an entry survives as
  long as fewer than \<open>capacity\<close> keys were used since it was last touched.
\<close>

datatype ('k, 'v) cache_op = CGet 'k | CPut 'k 'v

fun op_key :: "('k, 'v) cache_op \<Rightarrow> 'k" where
  "op_key (CGet k) = k"
| "op_key (CPut k v) = k"

fun cache_step :: "('c \<Rightarrow> 'k \<Rightarrow> 'v option \<times> 'c) \<Rightarrow> ('c \<Rightarrow> 'k \<Rightarrow> 'v \<Rightarrow> 'c) \<Rightarrow>
    ('k, 'v) cache_op \<Rightarrow> 'c \<Rightarrow> 'c" where
  "cache_step get put (CGet k) c = snd (get c k)"
| "cache_step get put (CPut k v) c = put c k v"

definition cache_run :: "('c \<Rightarrow> 'k \<Rightarrow> 'v option \<times> 'c) \<Rightarrow> ('c \<Rightarrow> 'k \<Rightarrow> 'v \<Rightarrow> 'c) \<Rightarrow>
    ('k, 'v) cache_op list \<Rightarrow> 'c \<Rightarrow> 'c" where
  "cache_run get put ops c = fold (cache_step get put) ops c"

text \<open>The same run on the specification.\<close>

fun spec_step :: "int \<Rightarrow> ('k, 'v) cache_op \<Rightarrow> ('k \<times> 'v) list \<Rightarrow> ('k \<times> 'v) list" where
  "spec_step n (CGet k) xs = snd (spec_get k xs)"
| "spec_step n (CPut k v) xs = spec_put n k v xs"

definition within :: "int \<Rightarrow> ('k \<times> 'v) list \<Rightarrow> bool" where
  "within n xs \<longleftrightarrow> distinct (map fst xs) \<and> (n > 0 \<longrightarrow> int (length xs) \<le> n)"

text \<open>\<open>(k, v)\<close> is in the list, behind entries whose keys all belong to \<open>K\<close>.\<close>

definition recent :: "'k \<Rightarrow> 'v \<Rightarrow> 'k set \<Rightarrow> ('k \<times> 'v) list \<Rightarrow> bool" where
  "recent k v K xs \<longleftrightarrow> (\<exists>ps qs. xs = ps @ (k, v) # qs \<and> fst ` set ps \<subseteq> K)"

lemma distinct_map_fst_filter: "distinct (map fst xs) \<Longrightarrow> distinct (map fst (filter Q xs))"
  by (induction xs) auto

lemma within_spec_step: "within n xs \<Longrightarrow> within n (spec_step n op xs)"
proof (cases op)
  case (CGet k)
  assume w: "within n xs"
  show ?thesis
  proof (cases "map_of xs k")
    case None
    then show ?thesis using w CGet by simp
  next
    case (Some v)
    then have "(k, v) \<in> set xs" by (rule map_of_SomeD)
    then have "length (filter (\<lambda>e. fst e \<noteq> k) xs) < length xs"
      by (intro length_filter_less [of "(k, v)"]) auto
    then show ?thesis
      using w CGet Some by (auto simp: within_def distinct_map_fst_filter)
  qed
next
  case (CPut k v)
  assume w: "within n xs"
  have "distinct (map fst ((k, v) # filter (\<lambda>e. fst e \<noteq> k) xs))"
    using w by (auto simp: within_def distinct_map_fst_filter)
  then show ?thesis
    using CPut by (auto simp: within_def spec_put_def Let_def take_map [symmetric] simp del: map_fst_zip)
qed

lemma spec_get_hit:
  assumes "recent k v K xs" and dist: "distinct (map fst xs)"
  shows "fst (spec_get k xs) = Some v"
proof -
  from assms(1) have "(k, v) \<in> set xs"
    by (auto simp: recent_def)
  then have "map_of xs k = Some v"
    using dist by simp
  then show ?thesis by simp
qed

lemma recent_spec_put_same: "n > 0 \<Longrightarrow> recent k v {} (spec_put n k v xs)"
  by (cases "nat n") (auto simp: recent_def spec_put_def Let_def)

lemma recent_front:
  assumes "recent k v K xs" and "j \<noteq> k"
  shows "recent k v (insert j K) ((j, w) # filter (\<lambda>e. fst e \<noteq> j) xs)"
proof -
  from assms(1) obtain ps qs where "xs = ps @ (k, v) # qs" and "fst ` set ps \<subseteq> K"
    by (auto simp: recent_def)
  then have "(j, w) # filter (\<lambda>e. fst e \<noteq> j) xs =
      ((j, w) # filter (\<lambda>e. fst e \<noteq> j) ps) @ (k, v) # filter (\<lambda>e. fst e \<noteq> j) qs"
    and "fst ` set ((j, w) # filter (\<lambda>e. fst e \<noteq> j) ps) \<subseteq> insert j K"
    using assms(2) by auto
  then show ?thesis
    unfolding recent_def by blast
qed

lemma recent_take:
  assumes "recent k v K xs" and "distinct (map fst xs)" and "finite K" and "card K < n"
  shows "recent k v K (take n xs)"
proof -
  from assms(1) obtain ps qs where xs: "xs = ps @ (k, v) # qs" and ps: "fst ` set ps \<subseteq> K"
    by (auto simp: recent_def)
  have "length ps = card (fst ` set ps)"
    using assms(2) xs by (metis distinct_append distinct_card length_map list.set_map map_append)
  also have "\<dots> \<le> card K"
    using assms(3) ps by (rule card_mono)
  finally have "take n xs = ps @ (k, v) # take (n - length ps - 1) qs"
    using assms(4) xs by (cases "n - length ps") auto
  then show ?thesis
    using ps unfolding recent_def by blast
qed

lemma recent_spec_step:
  assumes "recent k v K xs" and "within n xs" and "op_key op \<noteq> k"
    and "finite K" and "card (insert (op_key op) K) < nat n"
  shows "recent k v (insert (op_key op) K) (spec_step n op xs)"
proof (cases op)
  case (CGet j)
  show ?thesis
  proof (cases "map_of xs j")
    case None
    then show ?thesis using assms(1) CGet by (auto simp: recent_def)
  next
    case (Some w)
    then show ?thesis using recent_front [OF assms(1)] assms(3) CGet by simp
  qed
next
  case (CPut j w)
  let ?ys = "(j, w) # filter (\<lambda>e. fst e \<noteq> j) xs"
  have "distinct (map fst ?ys)"
    using assms(2) by (auto simp: within_def distinct_map_fst_filter)
  then have "recent k v (insert j K) (take (nat n) ?ys)"
    using assms recent_front [OF assms(1)] CPut by (intro recent_take) auto
  then show ?thesis
    using assms(5) CPut by (auto simp: spec_put_def Let_def)
qed

locale lru_cache =
  fixes get :: "'c \<Rightarrow> 'k \<Rightarrow> 'v option \<times> 'c" and put :: "'c \<Rightarrow> 'k \<Rightarrow> 'v \<Rightarrow> 'c"
    and abs :: "'c \<Rightarrow> ('k \<times> 'v) list" and inv :: "'c \<Rightarrow> bool" and capacity :: "'c \<Rightarrow> int"
  assumes get_refines: "inv c \<Longrightarrow> (fst (get c k), abs (snd (get c k))) = spec_get k (abs c)"
    and inv_get: "inv c \<Longrightarrow> inv (snd (get c k))"
    and capacity_get: "capacity (snd (get c k)) = capacity c"
    and put_refines: "inv c \<Longrightarrow> abs (put c k v) = spec_put (capacity c) k v (abs c)"
    and inv_put: "inv c \<Longrightarrow> inv (put c k v)"
    and capacity_put: "capacity (put c k v) = capacity c"
    and inv_within: "inv c \<Longrightarrow> within (capacity c) (abs c)"
begin

lemma get_fst: "inv c \<Longrightarrow> fst (get c k) = fst (spec_get k (abs c))"
  using get_refines by (metis fst_conv)

lemma step_refines:
  assumes "inv c"
  shows "inv (cache_step get put op c)" and "capacity (cache_step get put op c) = capacity c"
    and "abs (cache_step get put op c) = spec_step (capacity c) op (abs c)"
proof -
  have "abs (snd (get c k)) = snd (spec_get k (abs c))" for k
    using get_refines [OF assms] by (metis snd_conv)
  then show "inv (cache_step get put op c)" "capacity (cache_step get put op c) = capacity c"
    "abs (cache_step get put op c) = spec_step (capacity c) op (abs c)"
    using assms by (cases op; simp add: inv_get capacity_get put_refines inv_put capacity_put)+
qed

lemma run_refines:
  assumes "inv c"
  shows "inv (cache_run get put ops c) \<and> capacity (cache_run get put ops c) = capacity c \<and>
    abs (cache_run get put ops c) = fold (spec_step (capacity c)) ops (abs c)"
  using assms
proof (induction ops arbitrary: c)
  case Nil
  then show ?case by (simp add: cache_run_def)
next
  case (Cons op ops)
  then show ?case
    using step_refines [OF Cons.prems, of op] by (simp add: cache_run_def)
qed

lemma recent_run:
  assumes "inv c" and "recent k v K (abs c)" and "finite K" and "k \<notin> op_key ` set ops"
    and "card (K \<union> op_key ` set ops) < nat (capacity c)"
  shows "fst (get (cache_run get put ops c) k) = Some v"
  using assms
proof (induction ops arbitrary: c K)
  case Nil
  then show ?case
    using inv_within [OF Nil.prems(1)]
    by (simp add: cache_run_def get_fst spec_get_hit within_def del: spec_get.simps)
next
  case (Cons op ops)
  let ?c = "cache_step get put op c" and ?K = "insert (op_key op) K"
  have "?K \<union> op_key ` set ops = K \<union> op_key ` set (op # ops)"
    by auto
  moreover have "card ?K \<le> card (K \<union> op_key ` set (op # ops))"
    using Cons.prems(3) by (intro card_mono) auto
  moreover note step_refines [OF Cons.prems(1), of op]
  ultimately have "fst (get (cache_run get put ops ?c) k) = Some v"
    using Cons.prems inv_within [OF Cons.prems(1)]
    by (intro Cons.IH [of ?c ?K]) (auto intro: recent_spec_step)
  then show ?case
    by (simp add: cache_run_def)
qed

lemma put_survives:
  assumes "inv c" and "k \<notin> op_key ` set ops" and "card (op_key ` set ops) < nat (capacity c)"
  shows "fst (get (cache_run get put ops (put c k v)) k) = Some v"
  using assms recent_run [of "put c k v" k v "{}" ops]
  by (simp add: inv_put capacity_put put_refines recent_spec_put_same)

lemma bounded: "inv c \<Longrightarrow> capacity c > 0 \<Longrightarrow> int (length (abs (cache_run get put ops c))) \<le> capacity c"
  using run_refines [of c ops] inv_within [of "cache_run get put ops c"] by (simp add: within_def)

lemma spec_step_values:
  "set (spec_step n op xs) \<subseteq> set xs \<union> (case op of CGet k \<Rightarrow> {} | CPut k v \<Rightarrow> {(k, v)})"
  by (cases op) (auto simp: spec_put_def Let_def split: option.splits if_splits
      dest: in_set_takeD map_of_SomeD)

lemma run_transparent:
  assumes "inv c" and "\<forall>(k, v) \<in> set (abs c). v = f k"
    and "\<forall>k v. CPut k v \<in> set ops \<longrightarrow> v = f k"
    and "fst (get (cache_run get put ops c) j) = Some w"
  shows "w = f j"
proof -
  have "\<forall>(k, v) \<in> set (fold (spec_step (capacity c)) ops (abs c)). v = f k"
    using assms(2,3)
  proof (induction ops arbitrary: c rule: rev_induct)
    case Nil
    then show ?case by simp
  next
    case (snoc op ops)
    then show ?case
      using spec_step_values [of "capacity c" op "fold (spec_step (capacity c)) ops (abs c)"]
      by (fastforce split: cache_op.splits)
  qed
  then show ?thesis
    using assms(1,4) run_refines [OF assms(1), of ops]
    by (fastforce simp: get_fst split: option.splits dest: map_of_SomeD)
qed

end

lemma lru_inv_within: "lru_inv c \<Longrightarrow> within (cap c) (entries c)"
  by (simp add: within_def lru_keys_distinct lru_invD)

interpretation engine_lru: lru_cache LRU_Get LRU_Put entries "\<lambda>c. lru_inv c \<and> cap c > 0" cap
proof (unfold_locales, goal_cases)
  case 3
  then show ?case
    by (auto simp: LRU_Get_def MoveToFront_def Let_def split: option.splits)
next
  case 6
  then show ?case
    by (auto simp: LRU_Put_def MoveToFront_def PushFront_def RemoveElement_def Let_def
        split: option.splits)
qed (auto simp: LRU_Get_refines LRU_Put_refines lru_inv_within simp del: spec_get.simps)

interpretation vault_lru: lru_cache vaultCache_Get vaultCache_Add entries lru_inv cap
proof (unfold_locales, goal_cases)
  case 3
  then show ?case
    by (auto simp: vaultCache_Get_def MoveToFront_def Let_def split: option.splits)
next
  case 6
  then show ?case
    by (auto simp: vaultCache_Add_def MoveToFront_def PushFront_def RemoveElement_def Let_def
        split: option.splits)
qed (auto simp: vaultCache_Get_refines vaultCache_Add_refines lru_inv_within simp del: spec_get.simps)

section \<open>Properties\<close>

text \<open>C4: refinement. Every sequence of lookups and stores on an enabled \<open>engine.LRU\<close>, started
  empty, leaves the list and the map in agreement and acts on the recency list exactly as the
  specification: a lookup moves the entry to the front, a store puts it in front and drops the
  tail beyond the capacity.\<close>

theorem LRU_run_refines:
  assumes "n > 0"
  shows "lru_inv (cache_run LRU_Get LRU_Put ops (NewLRU n)) \<and>
    entries (cache_run LRU_Get LRU_Put ops (NewLRU n)) = fold (spec_step n) ops [] \<and>
    int (LRU_Len (cache_run LRU_Get LRU_Put ops (NewLRU n))) \<le> n"
  using engine_lru.run_refines [of "NewLRU n" ops] assms
    lru_invD(4) [of "cache_run LRU_Get LRU_Put ops (NewLRU n)"]
  by (simp add: LRU_Len_def LRU_Enabled_def)

theorem LRU_run_refines_witness:
  "entries (cache_run LRU_Get LRU_Put [CPut (1::nat) ''a'', CPut 2 ''b'', CGet 1, CPut 3 ''c'']
      (NewLRU 2)) = [(3, ''c''), (1, ''a'')]"
  using LRU_run_refines [of 2 "[CPut (1::nat) ''a'', CPut 2 ''b'', CGet 1, CPut 3 ''c'']"]
  by (simp add: spec_put_def)

text \<open>An entry is only evicted by use of other keys. After a store under \<open>key\<close>, as long as
  fewer than \<open>cap\<close> distinct other keys are looked up or stored, a lookup of \<open>key\<close> still hits
  and returns the stored value.\<close>

theorem LRU_put_survives:
  assumes "lru_inv c" and "cap c > 0" and "key \<notin> op_key ` set ops"
    and "card (op_key ` set ops) < nat (cap c)"
  shows "fst (LRU_Get (cache_run LRU_Get LRU_Put ops (LRU_Put c key val)) key) = Some val"
  using assms by (intro engine_lru.put_survives) auto

theorem LRU_put_survives_witness:
  "fst (LRU_Get (cache_run LRU_Get LRU_Put [CPut 2 ''b'', CGet 2, CPut 2 ''c'']
      (LRU_Put (NewLRU 2) (1::nat) ''a'')) 1) = Some ''a''"
  by (rule LRU_put_survives) (simp_all add: NewLRU_def lru_inv_def)

text \<open>Transparency of the cache. If every value ever stored under a key is the value \<open>f\<close>
  computes for it, every hit returns the computed value, whatever was evicted in between, so
  enabling the cache can only change latency. This holds for both caches of the program.\<close>

theorem cache_transparent:
  assumes "n > 0" and "\<forall>k v. CPut k v \<in> set ops \<longrightarrow> v = f k"
    and "fst (LRU_Get (cache_run LRU_Get LRU_Put ops (NewLRU n)) key) = Some w \<or>
      fst (vaultCache_Get (cache_run vaultCache_Get vaultCache_Add ops (NewLRU n)) key) = Some w"
  shows "w = f key"
  using assms engine_lru.run_transparent [of "NewLRU n" f ops key w]
    vault_lru.run_transparent [of "NewLRU n" f ops key w]
  by (auto simp: NewLRU_def entries_def lru_inv_def)

theorem cache_transparent_witness:
  "the (fst (LRU_Get (cache_run LRU_Get LRU_Put [CPut (3::nat) (9::nat)] (NewLRU 1)) 3)) = 3 * 3"
  by (rule cache_transparent [of 1 "[CPut (3::nat) (9::nat)]" "\<lambda>k. k * k"])
    (auto simp: cache_run_def LRU_Put_def LRU_Get_def LRU_Enabled_def PushFront_def
      MoveToFront_def NewLRU_def Let_def)

end
