(* ===== verification/Go_Strings.thy ===== *)
theory Go_Strings
  imports Prelude
begin

text \<open>
  The functions of Go's \<open>strings\<close>, \<open>strconv\<close> and \<open>fmt\<close> that the modelled code calls, on
  byte strings. White space is Unicode white space in UTF-8, as \<open>unicode.IsSpace\<close> has it.
\<close>

section \<open>White space\<close>

definition space_encodings :: "string list" where
  "space_encodings =
     [[CHR 0x20], [CHR 0x09], [CHR 0x0A], [CHR 0x0B], [CHR 0x0C], [CHR 0x0D],
      [CHR 0xC2, CHR 0x85], [CHR 0xC2, CHR 0xA0], [CHR 0xE1, CHR 0x9A, CHR 0x80],
      [CHR 0xE2, CHR 0x80, CHR 0x80], [CHR 0xE2, CHR 0x80, CHR 0x81],
      [CHR 0xE2, CHR 0x80, CHR 0x82], [CHR 0xE2, CHR 0x80, CHR 0x83],
      [CHR 0xE2, CHR 0x80, CHR 0x84], [CHR 0xE2, CHR 0x80, CHR 0x85],
      [CHR 0xE2, CHR 0x80, CHR 0x86], [CHR 0xE2, CHR 0x80, CHR 0x87],
      [CHR 0xE2, CHR 0x80, CHR 0x88], [CHR 0xE2, CHR 0x80, CHR 0x89],
      [CHR 0xE2, CHR 0x80, CHR 0x8A], [CHR 0xE2, CHR 0x80, CHR 0xA8],
      [CHR 0xE2, CHR 0x80, CHR 0xA9], [CHR 0xE2, CHR 0x80, CHR 0xAF],
      [CHR 0xE2, CHR 0x81, CHR 0x9F], [CHR 0xE3, CHR 0x80, CHR 0x80]]"

definition has_prefix :: "string \<Rightarrow> string \<Rightarrow> bool" where
  "has_prefix s p \<longleftrightarrow> take (length p) s = p"

text \<open>Bytes of the white-space character at the front of \<open>s\<close>, 0 if there is none.\<close>

definition space_len :: "string \<Rightarrow> nat" where
  "space_len s = (case find (has_prefix s) space_encodings of None \<Rightarrow> 0 | Some e \<Rightarrow> length e)"

definition space_len_end :: "string \<Rightarrow> nat" where
  "space_len_end s =
     (case find (\<lambda>e. has_prefix (rev s) (rev e)) space_encodings of None \<Rightarrow> 0 | Some e \<Rightarrow> length e)"

lemma space_len_le: "space_len s \<le> length s"
proof (cases "find (has_prefix s) space_encodings")
  case None
  then show ?thesis by (simp add: space_len_def)
next
  case (Some e)
  then have "has_prefix s e"
    by (auto simp: find_Some_iff)
  then have "length e \<le> length s"
    by (metis has_prefix_def length_take min.cobounded1)
  then show ?thesis
    using Some by (simp add: space_len_def)
qed

function trim_left :: "string \<Rightarrow> string" where
  "trim_left s = (if space_len s = 0 then s else trim_left (drop (space_len s) s))"
  by pat_completeness auto
termination
proof (relation "measure length")
  fix s :: string
  assume "space_len s \<noteq> 0"
  then show "(drop (space_len s) s, s) \<in> measure length"
    using space_len_le [of s] by auto
qed simp

lemma space_len_end_le: "space_len_end s \<le> length s"
proof (cases "find (\<lambda>e. has_prefix (rev s) (rev e)) space_encodings")
  case None
  then show ?thesis by (simp add: space_len_end_def)
next
  case (Some e)
  then have "has_prefix (rev s) (rev e)"
    by (auto simp: find_Some_iff)
  then have "length (rev e) \<le> length (rev s)"
    by (metis has_prefix_def length_take min.cobounded1)
  then show ?thesis
    using Some by (simp add: space_len_end_def)
qed

function trim_right :: "string \<Rightarrow> string" where
  "trim_right s =
     (if space_len_end s = 0 then s else trim_right (take (length s - space_len_end s) s))"
  by pat_completeness auto
termination
proof (relation "measure length")
  fix s :: string
  assume "space_len_end s \<noteq> 0"
  then show "(take (length s - space_len_end s) s, s) \<in> measure length"
    using space_len_end_le [of s] by auto
qed simp

declare trim_left.simps [simp del] trim_right.simps [simp del]

definition TrimSpace :: "string \<Rightarrow> string" where
  "TrimSpace s = trim_right (trim_left s)"

text \<open>
  \<open>strings.Fields\<close>: maximal runs without white space. \<open>fields_aux s w\<close> has read the word
  \<open>w\<close> so far.
\<close>

function fields_aux :: "string \<Rightarrow> string \<Rightarrow> string list" where
  "fields_aux s w =
     (if s = [] then (if w = [] then [] else [w])
      else if space_len s = 0 then fields_aux (tl s) (w @ [hd s])
      else (if w = [] then [] else [w]) @ fields_aux (drop (space_len s) s) [])"
  by pat_completeness auto
termination
  by (relation "measure (\<lambda>(s, w). length s)") auto

declare fields_aux.simps [simp del]

definition Fields :: "string \<Rightarrow> string list" where
  "Fields s = fields_aux s []"

lemma fields_aux_nonempty: "\<forall>f \<in> set (fields_aux s w). f \<noteq> []"
proof (induction s w rule: fields_aux.induct)
  case (1 s w)
  consider (empty) "s = []" | (word) "s \<noteq> []" "space_len s = 0" | (space) "s \<noteq> []" "space_len s \<noteq> 0"
    by blast
  then show ?case
  proof cases
    case empty
    then show ?thesis by (simp add: fields_aux.simps [of "[]" w])
  next
    case word
    then show ?thesis using 1(1) by (simp add: fields_aux.simps [of s w])
  next
    case space
    then show ?thesis using 1(2) by (simp add: fields_aux.simps [of s w])
  qed
qed

lemma Fields_nonempty: "f \<in> set (Fields s) \<Longrightarrow> f \<noteq> []"
  using fields_aux_nonempty by (auto simp: Fields_def)

section \<open>Joining, splitting, formatting\<close>

fun Join :: "string list \<Rightarrow> string \<Rightarrow> string" where
  "Join [] sep = []"
| "Join [x] sep = x"
| "Join (x # xs) sep = x @ sep @ Join xs sep"

text \<open>\<open>strings.Split(s, ",")\<close> for a one-byte separator; never empty.\<close>

fun Split1 :: "char \<Rightarrow> string \<Rightarrow> string list" where
  "Split1 sep [] = [[]]"
| "Split1 sep (c # cs) =
     (if c = sep then [] # Split1 sep cs
      else case Split1 sep cs of [] \<Rightarrow> [[c]] | w # ws \<Rightarrow> (c # w) # ws)"

definition hex_digit :: "nat \<Rightarrow> char" where
  "hex_digit n = (if n < 10 then char_of (48 + n) else char_of (87 + n))"

definition hex_of_bytes :: "bytes \<Rightarrow> string" where
  "hex_of_bytes bs = concat (map (\<lambda>b. [hex_digit (unat b div 16), hex_digit (unat b mod 16)]) bs)"

text \<open>\<open>strconv.Itoa\<close>, \<open>strconv.FormatBool\<close>.\<close>

fun nat_digits :: "nat \<Rightarrow> string" where
  "nat_digits n =
     (if n < 10 then [char_of (48 + n)] else nat_digits (n div 10) @ [char_of (48 + n mod 10)])"

declare nat_digits.simps [simp del]

definition Itoa :: "int \<Rightarrow> string" where
  "Itoa i = (if i < 0 then CHR ''-'' # nat_digits (nat (- i)) else nat_digits (nat i))"

definition FormatBool :: "bool \<Rightarrow> string" where
  "FormatBool b = (if b then ''true'' else ''false'')"

lemma of_char_digit: "n < 10 \<Longrightarrow> (of_char (char_of (48 + n :: nat) :: char) :: nat) = 48 + n"
  by (simp add: of_char_of)

lemma digit_inject:
  fixes m n :: nat
  assumes "m < 10" and "n < 10" and "(char_of (48 + m) :: char) = char_of (48 + n)"
  shows "m = n"
  using assms of_char_digit [of m] of_char_digit [of n] by simp

lemma nat_digits_nonempty [simp]: "nat_digits n \<noteq> []"
  by (subst nat_digits.simps) simp

lemma nat_digits_chars: "c \<in> set (nat_digits n) \<Longrightarrow> \<exists>d :: nat. d < 10 \<and> c = char_of (48 + d)"
proof (induction n rule: nat_digits.induct)
  case (1 n)
  show ?case
  proof (cases "n < 10")
    case True
    then show ?thesis
      using 1(2) by (auto simp: nat_digits.simps [of n])
  next
    case False
    then have "c = char_of (48 + n mod 10) \<or> c \<in> set (nat_digits (n div 10))"
      using 1(2) by (auto simp: nat_digits.simps [of n])
    moreover have "n mod 10 < 10"
      by simp
    ultimately show ?thesis
      using 1(1) False by blast
  qed
qed

lemma nat_digits_length1: "length (nat_digits n) = 1 \<longleftrightarrow> n < 10"
  by (subst nat_digits.simps) auto

lemma nat_digits_inject: "nat_digits m = nat_digits n \<longleftrightarrow> m = n"
proof
  show "nat_digits m = nat_digits n \<Longrightarrow> m = n"
  proof (induction m arbitrary: n rule: nat_digits.induct)
    case (1 m)
    show ?case
    proof (cases "m < 10")
      case True
      then have "n < 10"
        using 1(2) nat_digits_length1 by metis
      then show ?thesis
        using True 1(2) digit_inject [of m n]
        by (simp add: nat_digits.simps [of m] nat_digits.simps [of n])
    next
      case False
      then have n: "\<not> n < 10"
        using 1(2) nat_digits_length1 by metis
      then have "nat_digits (m div 10) = nat_digits (n div 10)"
        and "(char_of (48 + m mod 10) :: char) = char_of (48 + n mod 10)"
        using False 1(2) by (simp_all add: nat_digits.simps [of m] nat_digits.simps [of n])
      then have "m div 10 = n div 10" and "m mod 10 = n mod 10"
        using 1(1) False digit_inject by auto
      then show ?thesis
        by (metis div_mult_mod_eq)
    qed
  qed
qed simp

lemma FormatBool_inject: "FormatBool a = FormatBool b \<longleftrightarrow> a = b"
  by (simp add: FormatBool_def)

end
