(* ===== verification/Vault_Registry.thy ===== *)
theory Vault_Registry
  imports Pebble_Store Lru Go_Strings
begin

text \<open>
  The vault registry of the unified store: \<open>internal/storage/vault.go\<close>. Two global key
  families hold it, \<open>0x1A|ws \<mapsto> name\<close> (VaultMeta) and \<open>0x1B|siphash(name) \<mapsto> ws\<close>
  (VaultNameIndex); in front of them sits the LRU of names already resolved. A \<open>vdb\<close> is a
  \<open>storage.DB\<close>: the Pebble handle, the cache (never nil: \<open>Open\<close> creates it) and the set of
  prefixes whose registry entry was written in this session.
\<close>

record 'db vdb =
  pdb :: 'db
  vaultPrefixCache :: "(string, ws) lru"
  vaultNameWritten :: "ws set"

definition vaultCacheCapacity :: int where
  "vaultCacheCapacity = 10000"

abbreviation cache_add :: "string \<Rightarrow> ws \<Rightarrow> 'db vdb \<Rightarrow> 'db vdb" where
  "cache_add name ws d \<equiv> d\<lparr>vaultPrefixCache := vaultCache_Add (vaultPrefixCache d) name ws\<rparr>"

section \<open>Operations\<close>

definition ResolveVaultPrefix ::
    "'db pebble_ops \<Rightarrow> siphash \<Rightarrow> 'db vdb \<Rightarrow> string \<Rightarrow> ws \<times> 'db vdb" where
  "ResolveVaultPrefix P sip d name =
     (case vaultCache_Get (vaultPrefixCache d) name of
        (Some ws, c) \<Rightarrow> (ws, d\<lparr>vaultPrefixCache := c\<rparr>)
      | (None, _) \<Rightarrow>
          let fallback = (let ws = VaultPrefix sip name in (ws, cache_add name ws d))
          in case pb_get P (pdb d) (VaultNameIndexKey sip name) of
               Inr (Some val) \<Rightarrow> if length val = 8 then (val, cache_add name val d) else fallback
             | _ \<Rightarrow> fallback)"

definition seed_step :: "bytes \<Rightarrow> bytes \<Rightarrow> 'db vdb \<Rightarrow> 'db vdb" where
  "seed_step k v d =
     (if length k \<noteq> 9 \<or> hd k \<noteq> PrefixVaultMeta then d
      else cache_add (bytes_str v) (drop 1 k) d)"

definition SeedVaultPrefixCache ::
    "'db pebble_ops \<Rightarrow> 'db vdb \<Rightarrow> go_error option \<times> 'db vdb" where
  "SeedVaultPrefixCache P d =
     (case pb_iter P (pdb d) (Some [PrefixVaultMeta]) (Some [PrefixVaultMeta + 1]) of
        Inl e \<Rightarrow> (Some e, d)
      | Inr (kvs, err) \<Rightarrow> (err, fold (\<lambda>(k, v). seed_step k v) kvs d))"

definition WriteVaultName ::
    "'db pebble_ops \<Rightarrow> siphash \<Rightarrow> 'db vdb \<Rightarrow> ws \<Rightarrow> string \<Rightarrow> 'db vdb gres" where
  "WriteVaultName P sip d ws name =
     (if ws \<in> vaultNameWritten d then Inr d
      else
        let metaKey = VaultMetaKey ws;
            written = (\<lambda>d. cache_add name ws (d\<lparr>vaultNameWritten := insert ws (vaultNameWritten d)\<rparr>))
        in case pb_get P (pdb d) metaKey of
             Inr (Some _) \<Rightarrow> Inr (written d)
           | _ \<Rightarrow>
               gbind (pb_commit P (pdb d)
                 [KSet metaKey (str_bytes name), KSet (VaultNameIndexKey sip name) ws])
                 (\<lambda>db'. Inr (written (d\<lparr>pdb := db'\<rparr>))))"

definition VaultNameExists :: "'db pebble_ops \<Rightarrow> siphash \<Rightarrow> 'db vdb \<Rightarrow> string \<Rightarrow> bool" where
  "VaultNameExists P sip d name =
     (case pb_get P (pdb d) (VaultNameIndexKey sip name) of Inr (Some _) \<Rightarrow> True | _ \<Rightarrow> False)"

definition ListVaultNames :: "'db pebble_ops \<Rightarrow> 'db vdb \<Rightarrow> string list gres" where
  "ListVaultNames P d =
     gbind (pb_iter P (pdb d) (Some [PrefixVaultMeta]) (Some [PrefixVaultNameIndex]))
       (\<lambda>(kvs, err).
         case err of Some e \<Rightarrow> Inl e
         | None \<Rightarrow> Inr (map (\<lambda>(k, v). bytes_str v)
                       (filter (\<lambda>(k, v). length k = 9 \<and> hd k = PrefixVaultMeta) kvs)))"

definition RenameVault ::
    "'db pebble_ops \<Rightarrow> siphash \<Rightarrow> 'db vdb \<Rightarrow> ws \<Rightarrow> string \<Rightarrow> string \<Rightarrow> 'db vdb gres" where
  "RenameVault P sip d ws oldName newName =
     (let metaKey = VaultMetaKey ws
      in case pb_get P (pdb d) metaKey of
           Inl e \<Rightarrow> Inl e
         | Inr None \<Rightarrow> Inl VaultNotRegistered
         | Inr (Some val) \<Rightarrow>
             let stored = bytes_str val
             in if stored \<noteq> oldName then Inl (VaultNameMismatch stored oldName)
                else if newName = oldName then Inr d
                else if VaultNameExists P sip d newName then Inl (VaultNameTaken newName)
                else gbind (pb_commit P (pdb d)
                       [KSet metaKey (str_bytes newName), KSet (VaultNameIndexKey sip newName) ws,
                        KDelete (VaultNameIndexKey sip oldName)])
                     (\<lambda>db'. Inr (d\<lparr>pdb := db',
                        vaultPrefixCache :=
                          vaultCache_Add (vaultCache_Remove (vaultPrefixCache d) oldName) newName ws,
                        vaultNameWritten := vaultNameWritten d - {ws}\<rparr>)))"

definition DeleteVaultNameOnly ::
    "'db pebble_ops \<Rightarrow> siphash \<Rightarrow> 'db vdb \<Rightarrow> ws \<Rightarrow> string \<Rightarrow> 'db vdb gres" where
  "DeleteVaultNameOnly P sip d ws name =
     gbind (pb_commit P (pdb d) [KDelete (VaultMetaKey ws), KDelete (VaultNameIndexKey sip name)])
       (\<lambda>db'. Inr (d\<lparr>pdb := db',
          vaultPrefixCache := vaultCache_Remove (vaultPrefixCache d) name,
          vaultNameWritten := vaultNameWritten d - {ws}\<rparr>))"

text \<open>
  \<open>BackfillVaultNames\<close> collects the prefixes of all document keys in a Go map and visits them
  in map order, which Go leaves open: \<open>shuffle\<close> is that order.
\<close>

definition backfill_name :: "siphash \<Rightarrow> ws \<Rightarrow> string" where
  "backfill_name sip ws =
     (if ws = VaultPrefix sip ''default'' then ''default''
      else ''vault-'' @ hex_of_bytes (take 4 ws))"

definition backfill_step ::
    "'db pebble_ops \<Rightarrow> siphash \<Rightarrow> 'db vdb \<Rightarrow> ws \<Rightarrow> 'db vdb gres" where
  "backfill_step P sip d ws =
     (let metaKey = VaultMetaKey ws;
          stored = (case pb_get P (pdb d) metaKey of Inr (Some val) \<Rightarrow> Some (bytes_str val) | _ \<Rightarrow> None);
          name = (case stored of Some n \<Rightarrow> n | None \<Rightarrow> backfill_name sip ws);
          idxKey = VaultNameIndexKey sip name
      in case pb_get P (pdb d) idxKey of
           Inr (Some _) \<Rightarrow> Inr d
         | _ \<Rightarrow>
             gbind (pb_commit P (pdb d)
               ((if stored = None then [KSet metaKey (str_bytes name)] else []) @ [KSet idxKey ws]))
               (\<lambda>db'. Inr (d\<lparr>pdb := db'\<rparr>)))"

text \<open>The loop stops at the first failed commit; the commits before it stay.\<close>

fun backfill_loop ::
    "'db pebble_ops \<Rightarrow> siphash \<Rightarrow> ws list \<Rightarrow> 'db vdb \<Rightarrow> go_error option \<times> 'db vdb" where
  "backfill_loop P sip [] d = (None, d)"
| "backfill_loop P sip (ws # wss) d =
     (case backfill_step P sip d ws of
        Inl e \<Rightarrow> (Some e, d)
      | Inr d' \<Rightarrow> backfill_loop P sip wss d')"

definition seen_prefixes :: "(bytes \<times> bytes) list \<Rightarrow> ws list" where
  "seen_prefixes kvs = remdups (map (\<lambda>(k, v). take 8 (drop 1 k)) (filter (\<lambda>(k, v). 9 \<le> length k) kvs))"

definition BackfillVaultNames ::
    "'db pebble_ops \<Rightarrow> siphash \<Rightarrow> (ws list \<Rightarrow> ws list) \<Rightarrow> 'db vdb \<Rightarrow> go_error option \<times> 'db vdb" where
  "BackfillVaultNames P sip shuffle d =
     (case pb_iter P (pdb d) (Some [PrefixDocument]) (Some [PrefixDocument + 1]) of
        Inl e \<Rightarrow> (Some e, d)
      | Inr (kvs, Some e) \<Rightarrow> (Some e, d)
      | Inr (kvs, None) \<Rightarrow> backfill_loop P sip (shuffle (seen_prefixes kvs)) d)"

text \<open>\<open>storage.Open\<close> on an opened Pebble handle; both passes are best effort.\<close>

definition Open ::
    "'db pebble_ops \<Rightarrow> siphash \<Rightarrow> (ws list \<Rightarrow> ws list) \<Rightarrow> 'db \<Rightarrow> 'db vdb" where
  "Open P sip shuffle db =
     (let d0 = \<lparr>pdb = db, vaultPrefixCache = newVaultCache vaultCacheCapacity, vaultNameWritten = {}\<rparr>;
          (_, d1) = BackfillVaultNames P sip shuffle d0;
          (_, d2) = SeedVaultPrefixCache P d1
      in d2)"

section \<open>Specification and invariant\<close>

text \<open>What a name resolves to, on the contents of the store alone.\<close>

definition resolve_spec :: "siphash \<Rightarrow> contents \<Rightarrow> string \<Rightarrow> ws" where
  "resolve_spec sip m name =
     (case m (VaultNameIndexKey sip name) of
        Some ws \<Rightarrow> if length ws = 8 then ws else VaultPrefix sip name
      | None \<Rightarrow> VaultPrefix sip name)"

definition registered :: "siphash \<Rightarrow> contents \<Rightarrow> string \<Rightarrow> bool" where
  "registered sip m name \<longleftrightarrow> m (VaultNameIndexKey sip name) \<noteq> None"

text \<open>The two key families point at each other.\<close>

definition registry_ok :: "siphash \<Rightarrow> contents \<Rightarrow> bool" where
  "registry_ok sip m \<longleftrightarrow>
     (\<forall>ws nm. is_ws ws \<and> m (VaultMetaKey ws) = Some nm \<longrightarrow>
        m (0x1B # VaultNameHash sip (bytes_str nm)) = Some ws) \<and>
     (\<forall>h ws. length h = 8 \<and> m (0x1B # h) = Some ws \<longrightarrow>
        is_ws ws \<and> (\<exists>nm. m (VaultMetaKey ws) = Some nm \<and> VaultNameHash sip (bytes_str nm) = h))"

definition cache_coherent :: "siphash \<Rightarrow> contents \<Rightarrow> (string \<times> ws) list \<Rightarrow> bool" where
  "cache_coherent sip m es \<longleftrightarrow> (\<forall>(name, ws) \<in> set es. ws = resolve_spec sip m name)"

text \<open>
  \<open>N\<close> is the set of names in use; SipHash is assumed to have no collision on it (on all
  strings it cannot be injective).
\<close>

definition session_inv :: "('db \<Rightarrow> contents) \<Rightarrow> siphash \<Rightarrow> string set \<Rightarrow> 'db vdb \<Rightarrow> bool" where
  "session_inv view sip N d \<longleftrightarrow>
     registry_ok sip (view (pdb d)) \<and> lru_inv (vaultPrefixCache d) \<and>
     cache_coherent sip (view (pdb d)) (entries (vaultPrefixCache d)) \<and>
     fst ` set (entries (vaultPrefixCache d)) \<subseteq> N \<and>
     (\<forall>ws \<in> vaultNameWritten d. view (pdb d) (VaultMetaKey ws) \<noteq> None)"

lemma VaultNameIndexKey_eq_iff [simp]:
  "VaultNameIndexKey sip a = VaultNameIndexKey sip b \<longleftrightarrow> VaultNameHash sip a = VaultNameHash sip b"
  by (simp add: VaultNameIndexKey_def)

lemma registry_keys_distinct [simp]:
  "VaultMetaKey ws \<noteq> VaultNameIndexKey sip a" "VaultNameIndexKey sip a \<noteq> VaultMetaKey ws"
  "VaultMetaKey ws = VaultMetaKey ws' \<longleftrightarrow> ws = ws'"
  "VaultMetaKey ws \<noteq> 0x1B # h" "0x1B # h \<noteq> VaultMetaKey ws"
  "0x1B # h = VaultNameIndexKey sip a \<longleftrightarrow> h = VaultNameHash sip a"
  "VaultNameIndexKey sip a = 0x1B # h \<longleftrightarrow> h = VaultNameHash sip a"
  by (auto simp: VaultMetaKey_def VaultNameIndexKey_def)

lemma length_VaultNameHash [simp]: "length (VaultNameHash sip a) = 8"
  by (simp add: VaultNameHash_def)

lemma registry_okD1:
  "registry_ok sip m \<Longrightarrow> is_ws ws \<Longrightarrow> m (VaultMetaKey ws) = Some nm \<Longrightarrow>
   m (VaultNameIndexKey sip (bytes_str nm)) = Some ws"
  by (simp add: registry_ok_def VaultNameIndexKey_def)

lemma registry_okD2:
  "registry_ok sip m \<Longrightarrow> m (VaultNameIndexKey sip a) = Some ws \<Longrightarrow>
   is_ws ws \<and> (\<exists>nm. m (VaultMetaKey ws) = Some nm \<and> VaultNameHash sip (bytes_str nm) = VaultNameHash sip a)"
  using length_VaultNameHash [of sip a] unfolding registry_ok_def VaultNameIndexKey_def by blast

lemma resolve_spec_registered:
  "registry_ok sip m \<Longrightarrow> registered sip m a \<Longrightarrow> m (VaultNameIndexKey sip a) = Some (resolve_spec sip m a)"
  by (auto simp: registered_def resolve_spec_def is_ws_def dest!: registry_okD2)

lemma resolve_spec_unregistered: "\<not> registered sip m a \<Longrightarrow> resolve_spec sip m a = VaultPrefix sip a"
  by (simp add: registered_def resolve_spec_def)

lemma is_ws_resolve_spec: "is_ws (resolve_spec sip m a)"
  by (auto simp: resolve_spec_def is_ws_def VaultPrefix_def split: option.splits)

lemma registered_distinct:
  assumes "registry_ok sip m" and "registered sip m a" and "registered sip m b"
    and "resolve_spec sip m a = resolve_spec sip m b"
  shows "VaultNameHash sip a = VaultNameHash sip b"
  using resolve_spec_registered [OF assms(1,2)] resolve_spec_registered [OF assms(1,3)] assms(4)
    registry_okD2 [OF assms(1)] by (metis option.inject)

text \<open>Coherence follows the cache operations.\<close>

lemma cache_coherent_lookup:
  assumes "lru_inv c" and "cache_coherent sip m (entries c)"
  shows "fst (vaultCache_Get c name) = Some ws \<Longrightarrow> ws = resolve_spec sip m name"
    and "cache_coherent sip m (entries (snd (vaultCache_Get c name)))"
    and "fst ` set (entries (snd (vaultCache_Get c name))) \<subseteq> fst ` set (entries c)"
proof -
  have get: "fst (vaultCache_Get c name) = map_of (entries c) name"
    "entries (snd (vaultCache_Get c name)) = snd (spec_get name (entries c))"
    using vaultCache_Get_refines(1) [OF assms(1), of name]
    by (auto simp: prod_eq_iff split: option.splits)
  have sub: "set (snd (spec_get name (entries c))) \<subseteq> set (entries c)"
    by (auto split: option.splits dest: map_of_SomeD)
  show "fst (vaultCache_Get c name) = Some ws \<Longrightarrow> ws = resolve_spec sip m name"
    using assms(2) get(1) by (auto simp: cache_coherent_def dest: map_of_SomeD)
  show "cache_coherent sip m (entries (snd (vaultCache_Get c name)))"
    using assms(2) sub unfolding cache_coherent_def get(2) by blast
  show "fst ` set (entries (snd (vaultCache_Get c name))) \<subseteq> fst ` set (entries c)"
    using sub unfolding get(2) by blast
qed

lemma set_entries_Add:
  assumes "lru_inv c"
  shows "set (entries (vaultCache_Add c k v)) \<subseteq> insert (k, v) {e \<in> set (entries c). fst e \<noteq> k}"
  unfolding vaultCache_Add_refines(1) [OF assms] spec_put_def Let_def
  by (auto dest: in_set_takeD)

lemma set_entries_Remove:
  assumes "lru_inv c"
  shows "set (entries (vaultCache_Remove c k)) = {e \<in> set (entries c). fst e \<noteq> k}"
  by (auto simp: vaultCache_Remove_refines(1) [OF assms] spec_remove_def)

section \<open>Every operation keeps the invariant\<close>

lemma resolve_spec_upd_other:
  "VaultNameHash sip n \<noteq> VaultNameHash sip a \<Longrightarrow>
   resolve_spec sip (m(VaultMetaKey ws := x, VaultNameIndexKey sip a := y)) n = resolve_spec sip m n"
  by (simp add: resolve_spec_def)

text \<open>The three registry updates, on the contents: register, rename, delete.\<close>

lemma registry_ok_register:
  assumes "registry_ok sip m" and "is_ws ws" and "m (VaultMetaKey ws) = None"
    and "m (VaultNameIndexKey sip a) = None"
  shows "registry_ok sip (m(VaultMetaKey ws \<mapsto> str_bytes a, VaultNameIndexKey sip a \<mapsto> ws))"
proof -
  have "VaultNameHash sip (bytes_str nm) \<noteq> VaultNameHash sip a"
    if "m (VaultMetaKey ws') = Some nm" "is_ws ws'" for ws' nm
    using registry_okD1 [OF assms(1) that(2,1)] assms(4) by (auto simp: VaultNameIndexKey_def)
  moreover have "m (0x1B # h) \<noteq> Some ws" if "length h = 8" for h
    using assms(1,3) that unfolding registry_ok_def by fastforce
  ultimately show ?thesis
    using assms unfolding registry_ok_def VaultNameIndexKey_def VaultMetaKey_def by auto
qed

lemma registry_ok_rename:
  assumes "registry_ok sip m" and "is_ws ws" and "m (VaultMetaKey ws) = Some (str_bytes a)"
    and "m (VaultNameIndexKey sip b) = None"
  shows "registry_ok sip
    (m(VaultMetaKey ws \<mapsto> str_bytes b, VaultNameIndexKey sip b \<mapsto> ws,
       VaultNameIndexKey sip a := None))"
proof -
  have a: "m (VaultNameIndexKey sip a) = Some ws"
    using registry_okD1 [OF assms(1,2,3)] by simp
  have ne: "VaultNameHash sip a \<noteq> VaultNameHash sip b"
    using a assms(4) by (auto simp: VaultNameIndexKey_def)
  have inj: "ws' = ws" if "m (VaultMetaKey ws') = Some nm" "is_ws ws'"
      "VaultNameHash sip (bytes_str nm) = VaultNameHash sip a" for ws' nm
    using registry_okD1 [OF assms(1) that(2,1)] that(3) a by (simp add: VaultNameIndexKey_def)
  have bwd: "h = VaultNameHash sip a" if "m (0x1B # h) = Some ws" "length h = 8" for h
    using assms(1,3) that unfolding registry_ok_def by (metis bytes_str_str_bytes option.inject)
  let ?m' = "m(VaultMetaKey ws \<mapsto> str_bytes b, VaultNameIndexKey sip b \<mapsto> ws,
       VaultNameIndexKey sip a := None)"
  have 1: "?m' (0x1B # VaultNameHash sip (bytes_str nm)) = Some ws'"
    if ws': "is_ws ws'" "?m' (VaultMetaKey ws') = Some nm" for ws' nm
  proof (cases "ws' = ws")
    case True
    then show ?thesis using that ne by auto
  next
    case False
    then have old: "m (VaultMetaKey ws') = Some nm"
      using that by auto
    then have "m (0x1B # VaultNameHash sip (bytes_str nm)) = Some ws'"
      using registry_okD1 [OF assms(1) ws'(1) old] by (simp add: VaultNameIndexKey_def)
    moreover from this have "VaultNameHash sip (bytes_str nm) \<noteq> VaultNameHash sip b"
      using assms(4) by (auto simp: VaultNameIndexKey_def)
    moreover have "VaultNameHash sip (bytes_str nm) \<noteq> VaultNameHash sip a"
      using inj [OF old ws'(1)] False by blast
    ultimately show ?thesis by simp
  qed
  have 2: "is_ws w \<and> (\<exists>nm. ?m' (VaultMetaKey w) = Some nm \<and> VaultNameHash sip (bytes_str nm) = h)"
    if h: "length h = 8" "?m' (0x1B # h) = Some w" for h w
  proof (cases "h = VaultNameHash sip b")
    case True
    then show ?thesis using h(2) ne assms(2) by auto
  next
    case False
    then have old: "m (0x1B # h) = Some w" "h \<noteq> VaultNameHash sip a"
      using h(2) by (auto split: if_splits)
    then have "w \<noteq> ws"
      using bwd h(1) by blast
    then show ?thesis
      using assms(1) old h(1) unfolding registry_ok_def by fastforce
  qed
  show ?thesis
    unfolding registry_ok_def using 1 2 by blast
qed

lemma registry_ok_delete:
  assumes "registry_ok sip m" and "m (VaultNameIndexKey sip a) = Some ws"
  shows "registry_ok sip (m(VaultMetaKey ws := None, VaultNameIndexKey sip a := None))"
proof -
  obtain nm where nm: "m (VaultMetaKey ws) = Some nm"
      "VaultNameHash sip (bytes_str nm) = VaultNameHash sip a"
    using registry_okD2 [OF assms] by blast
  have bwd: "h = VaultNameHash sip a" if "m (0x1B # h) = Some ws" "length h = 8" for h
    using assms(1) nm that unfolding registry_ok_def by (metis option.inject)
  have fwd: "ws' = ws" if "m (VaultMetaKey ws') = Some nm'" "is_ws ws'"
      "VaultNameHash sip (bytes_str nm') = VaultNameHash sip a" for ws' nm'
    using registry_okD1 [OF assms(1) that(2,1)] that(3) assms(2) by (simp add: VaultNameIndexKey_def)
  show ?thesis
    unfolding registry_ok_def
    using assms(1) bwd fwd unfolding registry_ok_def
    by (auto simp: VaultNameIndexKey_def VaultMetaKey_def)
qed

lemma cache_coherent_change:
  assumes "cache_coherent sip m es" and "set es' \<subseteq> insert (a, ws) {e \<in> set es. fst e \<noteq> a}"
    and "ws = resolve_spec sip m' a" and "\<And>n. n \<in> fst ` set es \<Longrightarrow> n \<noteq> a \<Longrightarrow>
      resolve_spec sip m' n = resolve_spec sip m n"
  shows "cache_coherent sip m' es'"
  using assms unfolding cache_coherent_def by (fastforce simp: image_iff)

lemma session_invD:
  assumes "session_inv view sip N d"
  shows "registry_ok sip (view (pdb d))" and "lru_inv (vaultPrefixCache d)"
    and "cache_coherent sip (view (pdb d)) (entries (vaultPrefixCache d))"
    and "fst ` set (entries (vaultPrefixCache d)) \<subseteq> N"
    and "ws \<in> vaultNameWritten d \<Longrightarrow> view (pdb d) (VaultMetaKey ws) \<noteq> None"
  using assms by (auto simp: session_inv_def)

lemma session_invI:
  assumes "registry_ok sip (view (pdb d))" and "lru_inv (vaultPrefixCache d)"
    and "cache_coherent sip (view (pdb d)) (entries (vaultPrefixCache d))"
    and "fst ` set (entries (vaultPrefixCache d)) \<subseteq> N"
    and "\<And>ws. ws \<in> vaultNameWritten d \<Longrightarrow> view (pdb d) (VaultMetaKey ws) \<noteq> None"
  shows "session_inv view sip N d"
  using assms by (simp add: session_inv_def)

lemma names_Add:
  assumes "lru_inv c" and "fst ` set (entries c) \<subseteq> N" and "a \<in> N"
  shows "fst ` set (entries (vaultCache_Add c a ws)) \<subseteq> N"
  using set_entries_Add [OF assms(1), of a ws] assms(2,3) by (auto simp: image_subset_iff dest!: subsetD)

context pebble
begin

lemma Resolve_correct:
  assumes "session_inv view sip N d" and "name \<in> N"
    and "pb_get P (pdb d) (VaultNameIndexKey sip name) = Inr r"
  shows "fst (ResolveVaultPrefix P sip d name) = resolve_spec sip (view (pdb d)) name"
    and "session_inv view sip N (snd (ResolveVaultPrefix P sip d name))"
    and "pdb (snd (ResolveVaultPrefix P sip d name)) = pdb d"
    and "vaultNameWritten (snd (ResolveVaultPrefix P sip d name)) = vaultNameWritten d"
proof -
  let ?c = "vaultPrefixCache d" and ?m = "view (pdb d)"
  have c: "lru_inv ?c" "cache_coherent sip ?m (entries ?c)" "fst ` set (entries ?c) \<subseteq> N"
    using assms(1) by (simp_all add: session_inv_def)
  have r: "r = ?m (VaultNameIndexKey sip name)"
    using assms(3) by (rule get_view)
  have spec: "resolve_spec sip ?m name =
      (case r of Some val \<Rightarrow> if length val = 8 then val else VaultPrefix sip name
       | None \<Rightarrow> VaultPrefix sip name)"
    by (simp add: resolve_spec_def r)
  have miss: "ResolveVaultPrefix P sip d name =
      (resolve_spec sip ?m name, cache_add name (resolve_spec sip ?m name) d)"
    if "fst (vaultCache_Get ?c name) = None"
    using that assms(3) spec
    by (auto simp: ResolveVaultPrefix_def Let_def split: prod.splits option.splits)
  have add: "session_inv view sip N (cache_add name (resolve_spec sip ?m name) d)"
  proof (rule session_invI)
    show "cache_coherent sip (view (pdb (cache_add name (resolve_spec sip ?m name) d)))
        (entries (vaultPrefixCache (cache_add name (resolve_spec sip ?m name) d)))"
      using cache_coherent_change [OF c(2) set_entries_Add [OF c(1)]] by simp
  qed (use session_invD [OF assms(1)] assms(2) names_Add [OF c(1,3)]
      vaultCache_Add_refines(2) [OF c(1)] in simp_all)
  have hit: "ResolveVaultPrefix P sip d name =
      (resolve_spec sip ?m name, d\<lparr>vaultPrefixCache := snd (vaultCache_Get ?c name)\<rparr>)"
    if "fst (vaultCache_Get ?c name) = Some ws" for ws
    using that cache_coherent_lookup(1) [OF c(1,2)]
    by (auto simp: ResolveVaultPrefix_def split: prod.splits)
  have get: "session_inv view sip N (d\<lparr>vaultPrefixCache := snd (vaultCache_Get ?c name)\<rparr>)"
    using session_invD [OF assms(1)] vaultCache_Get_refines(2) [OF c(1)]
      cache_coherent_lookup(2,3) [OF c(1,2), of name]
    by (intro session_invI) auto
  show "fst (ResolveVaultPrefix P sip d name) = resolve_spec sip ?m name"
    "session_inv view sip N (snd (ResolveVaultPrefix P sip d name))"
    "pdb (snd (ResolveVaultPrefix P sip d name)) = pdb d"
    "vaultNameWritten (snd (ResolveVaultPrefix P sip d name)) = vaultNameWritten d"
    by (cases "fst (vaultCache_Get ?c name)"; simp add: miss hit add get)+
qed

lemma Write_correct:
  assumes "session_inv view sip N d" and "name \<in> N" and "inj_on (VaultNameHash sip) N"
    and "ws = resolve_spec sip (view (pdb d)) name"
    and "pb_get P (pdb d) (VaultMetaKey ws) = Inr r"
    and "WriteVaultName P sip d ws name = Inr d'"
  shows "session_inv view sip N d'"
proof -
  let ?c = "vaultPrefixCache d" and ?m = "view (pdb d)"
  have c: "lru_inv ?c" "cache_coherent sip ?m (entries ?c)" "fst ` set (entries ?c) \<subseteq> N"
    and reg: "registry_ok sip ?m"
    using assms(1) by (simp_all add: session_inv_def)
  note add = set_entries_Add [OF c(1), of name ws] vaultCache_Add_refines(2) [OF c(1), of name ws]
  have r: "r = ?m (VaultMetaKey ws)"
    using assms(5) by (rule get_view)
  consider "ws \<in> vaultNameWritten d" | val where "ws \<notin> vaultNameWritten d" "r = Some val"
    | "ws \<notin> vaultNameWritten d" "r = None"
    by (cases r) auto
  then show ?thesis
  proof cases
    case 1
    then show ?thesis using assms(1,6) by (simp add: WriteVaultName_def)
  next
    case 2
    then have "d' = cache_add name ws (d\<lparr>vaultNameWritten := insert ws (vaultNameWritten d)\<rparr>)"
      using assms(5,6) by (simp add: WriteVaultName_def Let_def)
    moreover have "cache_coherent sip ?m (entries (vaultCache_Add ?c name ws))"
      using cache_coherent_change [OF c(2) add(1) assms(4)] by blast
    ultimately show ?thesis
      using session_invD [OF assms(1)] assms(2) add(2) names_Add [OF c(1,3)] 2 r
      by (intro session_invI) auto
  next
    case 3
    have none: "?m (VaultMetaKey ws) = None" and ws: "is_ws ws"
      using 3 r assms(4) by (simp_all add: is_ws_resolve_spec)
    then have unreg: "?m (VaultNameIndexKey sip name) = None"
      using resolve_spec_registered [OF reg, of name] registry_okD2 [OF reg] assms(4)
      by (fastforce simp: registered_def)
    let ?m' = "?m(VaultMetaKey ws \<mapsto> str_bytes name, VaultNameIndexKey sip name \<mapsto> ws)"
    obtain db' where db': "pb_commit P (pdb d)
          [KSet (VaultMetaKey ws) (str_bytes name), KSet (VaultNameIndexKey sip name) ws] = Inr db'"
      and d': "d' = cache_add name ws
          (d\<lparr>pdb := db', vaultNameWritten := insert ws (vaultNameWritten d)\<rparr>)"
      using 3 assms(5,6) by (auto simp: WriteVaultName_def Let_def gbind_Inr_iff)
    have view': "view db' = ?m'"
      using commit_view [OF db'] by simp
    have other: "resolve_spec sip ?m' n = resolve_spec sip ?m n"
      if "n \<in> fst ` set (entries ?c)" "n \<noteq> name" for n
      using that c(3) assms(2,3) by (intro resolve_spec_upd_other) (auto dest: inj_onD)
    have "ws = resolve_spec sip ?m' name"
      using ws by (simp add: resolve_spec_def is_ws_def)
    then have "cache_coherent sip ?m' (entries (vaultCache_Add ?c name ws))"
      using cache_coherent_change [OF c(2) add(1)] other by blast
    moreover have "registry_ok sip ?m'"
      using reg ws none unreg by (rule registry_ok_register)
    ultimately show ?thesis
      using session_invD [OF assms(1)] assms(2) add(2) names_Add [OF c(1,3)]
      by (intro session_invI) (auto simp: d' view')
  qed
qed

lemma Rename_correct:
  assumes "session_inv view sip N d" and "old \<in> N" and "new \<in> N"
    and "inj_on (VaultNameHash sip) N" and "is_ws ws"
    and "pb_get P (pdb d) (VaultNameIndexKey sip new) = Inr r"
    and "RenameVault P sip d ws old new = Inr d'"
  shows "session_inv view sip N d'" and "old \<noteq> new \<Longrightarrow> view (pdb d') = (view (pdb d))
     (VaultMetaKey ws \<mapsto> str_bytes new, VaultNameIndexKey sip new \<mapsto> ws,
      VaultNameIndexKey sip old := None)"
    and "view (pdb d) (VaultMetaKey ws) = Some (str_bytes old)"
proof (atomize (full))
  let ?c = "vaultPrefixCache d" and ?m = "view (pdb d)"
  let ?m' = "?m(VaultMetaKey ws \<mapsto> str_bytes new, VaultNameIndexKey sip new \<mapsto> ws,
      VaultNameIndexKey sip old := None)"
  have c: "lru_inv ?c" "cache_coherent sip ?m (entries ?c)" "fst ` set (entries ?c) \<subseteq> N"
    and reg: "registry_ok sip ?m"
    using assms(1) by (simp_all add: session_inv_def)
  obtain val where "pb_get P (pdb d) (VaultMetaKey ws) = Inr (Some val)" and "bytes_str val = old"
    using assms(7) by (auto simp: RenameVault_def Let_def split: sum.splits option.splits if_splits)
  then have meta: "?m (VaultMetaKey ws) = Some (str_bytes old)"
    using get_view by (metis str_bytes_bytes_str)
  show "session_inv view sip N d' \<and> (old \<noteq> new \<longrightarrow> view (pdb d') = ?m') \<and>
      ?m (VaultMetaKey ws) = Some (str_bytes old)"
  proof (cases "new = old")
    case True
    then show ?thesis
      using assms(1,7) meta
      by (auto simp: RenameVault_def Let_def split: sum.splits option.splits if_splits)
  next
    case False
    let ?c1 = "vaultCache_Remove ?c old"
    obtain db' where free: "\<not> VaultNameExists P sip d new"
      and db': "pb_commit P (pdb d) [KSet (VaultMetaKey ws) (str_bytes new),
            KSet (VaultNameIndexKey sip new) ws, KDelete (VaultNameIndexKey sip old)] = Inr db'"
      and d': "d' = d\<lparr>pdb := db', vaultPrefixCache := vaultCache_Add ?c1 new ws,
            vaultNameWritten := vaultNameWritten d - {ws}\<rparr>"
      using assms(7) False
      by (auto simp: RenameVault_def Let_def gbind_Inr_iff split: sum.splits option.splits if_splits)
    have none: "?m (VaultNameIndexKey sip new) = None"
      using free assms(6) get_view [OF assms(6)] by (auto simp: VaultNameExists_def split: option.splits)
    have view': "view db' = ?m'"
      using commit_view [OF db'] by simp
    have hash: "VaultNameHash sip old \<noteq> VaultNameHash sip new"
      using False assms(2-4) by (auto dest: inj_onD)
    have c1: "lru_inv ?c1" "set (entries ?c1) = {e \<in> set (entries ?c). fst e \<noteq> old}"
      using vaultCache_Remove_refines(2) [OF c(1)] set_entries_Remove [OF c(1)] by blast+
    have coh1: "cache_coherent sip ?m (entries ?c1)"
      using c(2) c1(2) by (auto simp: cache_coherent_def)
    have other: "resolve_spec sip ?m' n = resolve_spec sip ?m n"
      if "n \<in> fst ` set (entries ?c1)" "n \<noteq> new" for n
    proof -
      have "n \<in> N" "n \<noteq> old"
        using that c(3) c1(2) by auto
      then have "VaultNameHash sip n \<noteq> VaultNameHash sip old"
        "VaultNameHash sip n \<noteq> VaultNameHash sip new"
        using that(2) assms(2-4) by (auto dest: inj_onD)
      then show ?thesis by (simp add: resolve_spec_def)
    qed
    have "ws = resolve_spec sip ?m' new"
      using assms(5) hash by (simp add: resolve_spec_def is_ws_def)
    then have "cache_coherent sip ?m' (entries (vaultCache_Add ?c1 new ws))"
      using cache_coherent_change [OF coh1 set_entries_Add [OF c1(1)]] other by blast
    moreover have "registry_ok sip ?m'"
      using reg assms(5) meta none by (rule registry_ok_rename)
    moreover have "lru_inv (vaultCache_Add ?c1 new ws)"
      using c1(1) by (rule vaultCache_Add_refines)
    moreover have "fst ` set (entries (vaultCache_Add ?c1 new ws)) \<subseteq> N"
      using c(3) c1(2) assms(3) by (intro names_Add [OF c1(1)]) auto
    ultimately have "session_inv view sip N d'"
      using session_invD(5) [OF assms(1)] by (intro session_invI) (auto simp: d' view')
    then show ?thesis
      using meta by (simp add: d' view')
  qed
qed

lemma Delete_correct:
  assumes "session_inv view sip N d" and "name \<in> N" and "inj_on (VaultNameHash sip) N"
    and "registered sip (view (pdb d)) name" and "ws = resolve_spec sip (view (pdb d)) name"
    and "DeleteVaultNameOnly P sip d ws name = Inr d'"
  shows "session_inv view sip N d'"
proof -
  let ?c = "vaultPrefixCache d" and ?m = "view (pdb d)" and ?c1 = "vaultCache_Remove (vaultPrefixCache d) name"
  let ?m' = "?m(VaultMetaKey ws := None, VaultNameIndexKey sip name := None)"
  have c: "lru_inv ?c" "cache_coherent sip ?m (entries ?c)" "fst ` set (entries ?c) \<subseteq> N"
    and reg: "registry_ok sip ?m"
    using assms(1) by (simp_all add: session_inv_def)
  obtain db' where db': "pb_commit P (pdb d)
        [KDelete (VaultMetaKey ws), KDelete (VaultNameIndexKey sip name)] = Inr db'"
    and d': "d' = d\<lparr>pdb := db', vaultPrefixCache := ?c1, vaultNameWritten := vaultNameWritten d - {ws}\<rparr>"
    using assms(6) by (auto simp: DeleteVaultNameOnly_def gbind_Inr_iff)
  have view': "view db' = ?m'"
    using commit_view [OF db'] by simp
  have c1: "lru_inv ?c1" "set (entries ?c1) = {e \<in> set (entries ?c). fst e \<noteq> name}"
    using vaultCache_Remove_refines(2) [OF c(1)] set_entries_Remove [OF c(1)] by blast+
  have other: "resolve_spec sip ?m' n = resolve_spec sip ?m n"
    if "n \<in> fst ` set (entries ?c1)" for n
    using that c(3) c1(2) assms(2,3) by (intro resolve_spec_upd_other) (auto dest: inj_onD)
  have "cache_coherent sip ?m' (entries ?c1)"
    using c(2) c1(2) other unfolding cache_coherent_def by (fastforce simp: image_iff)
  moreover have "registry_ok sip ?m'"
    using reg resolve_spec_registered [OF reg assms(4)] assms(5) by (simp add: registry_ok_delete)
  ultimately show ?thesis
    using session_invD(4,5) [OF assms(1)] c1 by (intro session_invI) (auto simp: d' view')
qed

end

section \<open>Sessions\<close>

text \<open>
  What the engine does with the registry between \<open>Open\<close> and \<open>Close\<close>: resolve a name,
  register it on the first write to its vault (\<open>Engine.Add\<close>, \<open>Engine.CreateVault\<close>), rename
  and delete vaults. Each rule is one call sequence of the engine, labelled with the call; the
  reads it makes succeed. \<open>Engine.DeleteVault\<close> asks nothing of the registry: its rule applies
  to a name that is not registered as well (the tombstones of \<open>ClearVault\<close> that come first
  touch no registry key; the refusal of the empty name and of \<open>default\<close> is left out, which
  only adds steps).
\<close>

datatype vault_op = ResolveOp string | RegisterOp string | RenameOp string string | DeleteOp string

inductive vault_step ::
    "'db pebble_ops \<Rightarrow> siphash \<Rightarrow> string set \<Rightarrow> 'db vdb \<Rightarrow> vault_op \<Rightarrow> 'db vdb \<Rightarrow> bool"
  for P sip N where
  resolve: "\<lbrakk>name \<in> N; pb_get P (pdb d) (VaultNameIndexKey sip name) = Inr r\<rbrakk> \<Longrightarrow>
    vault_step P sip N d (ResolveOp name) (snd (ResolveVaultPrefix P sip d name))"
| register: "\<lbrakk>name \<in> N; pb_get P (pdb d) (VaultNameIndexKey sip name) = Inr r;
    ResolveVaultPrefix P sip d name = (ws, d1); pb_get P (pdb d1) (VaultMetaKey ws) = Inr r';
    WriteVaultName P sip d1 ws name = Inr d2\<rbrakk> \<Longrightarrow> vault_step P sip N d (RegisterOp name) d2"
| rename: "\<lbrakk>old \<in> N; new \<in> N; pb_get P (pdb d) (VaultNameIndexKey sip old) = Inr r;
    pb_get P (pdb d) (VaultNameIndexKey sip new) = Inr r';
    ResolveVaultPrefix P sip d old = (ws, d1); RenameVault P sip d1 ws old new = Inr d2\<rbrakk> \<Longrightarrow>
    vault_step P sip N d (RenameOp old new) d2"
| delete: "\<lbrakk>name \<in> N; pb_get P (pdb d) (VaultNameIndexKey sip name) = Inr r;
    ResolveVaultPrefix P sip d name = (ws, d1); DeleteVaultNameOnly P sip d1 ws name = Inr d2\<rbrakk> \<Longrightarrow>
    vault_step P sip N d (DeleteOp name) d2"

text \<open>
  Deleting a name that is not registered drops whatever vault is registered under the prefix the
  name hashes to. \<open>deletes_own\<close> is the discipline a caller has to add: a deleted name is
  registered, or its prefix has no registered vault (the deletion then has nothing to drop).
\<close>

definition deletes_own :: "'db pebble_ops \<Rightarrow> siphash \<Rightarrow> 'db vdb \<Rightarrow> vault_op \<Rightarrow> bool" where
  "deletes_own P sip d op =
     (case op of
        DeleteOp name \<Rightarrow> VaultNameExists P sip d name \<or>
          pb_get P (pdb d) (VaultMetaKey (fst (ResolveVaultPrefix P sip d name))) = Inr None
      | _ \<Rightarrow> True)"

definition any_step :: "'db pebble_ops \<Rightarrow> siphash \<Rightarrow> string set \<Rightarrow> 'db vdb \<Rightarrow> 'db vdb \<Rightarrow> bool" where
  "any_step P sip N d d' \<longleftrightarrow> (\<exists>op. vault_step P sip N d op d')"

definition own_step :: "'db pebble_ops \<Rightarrow> siphash \<Rightarrow> string set \<Rightarrow> 'db vdb \<Rightarrow> 'db vdb \<Rightarrow> bool" where
  "own_step P sip N d d' \<longleftrightarrow> (\<exists>op. vault_step P sip N d op d' \<and> deletes_own P sip d op)"

inductive_cases vault_stepE: "vault_step P sip N d op d'"

context pebble
begin

text \<open>A deletion that finds nothing leaves the contents as they were.\<close>

lemma Delete_nothing:
  assumes "session_inv view sip N d" and "view (pdb d) (VaultNameIndexKey sip name) = None"
    and "view (pdb d) (VaultMetaKey ws) = None" and "DeleteVaultNameOnly P sip d ws name = Inr d'"
  shows "session_inv view sip N d'"
proof -
  have c: "lru_inv (vaultPrefixCache d)"
    using session_invD(2) [OF assms(1)] .
  obtain db' where "pb_commit P (pdb d)
        [KDelete (VaultMetaKey ws), KDelete (VaultNameIndexKey sip name)] = Inr db'"
    and d': "d' = d\<lparr>pdb := db', vaultPrefixCache := vaultCache_Remove (vaultPrefixCache d) name,
      vaultNameWritten := vaultNameWritten d - {ws}\<rparr>"
    using assms(4) by (auto simp: DeleteVaultNameOnly_def gbind_Inr_iff)
  then have "view db' = view (pdb d)"
    using commit_view assms(2,3) by (fastforce simp: fun_upd_idem)
  then show ?thesis
    using session_invD [OF assms(1)] vaultCache_Remove_refines(2) [OF c] set_entries_Remove [OF c]
    by (intro session_invI) (auto simp: d' cache_coherent_def)
qed

lemma vault_step_inv:
  assumes "vault_step P sip N d op d'" and "deletes_own P sip d op" and "session_inv view sip N d"
    and "inj_on (VaultNameHash sip) N"
  shows "session_inv view sip N d'"
  using assms(1)
proof cases
  case (resolve name r)
  then show ?thesis
    using Resolve_correct(2) [OF assms(3)] by blast
next
  case (register name r ws d1 r')
  note res = Resolve_correct [OF assms(3) register(2,3), unfolded register(4), simplified]
  show ?thesis
    using Write_correct [OF res(2) register(2) assms(4) _ register(5,6)] res(1,3) by simp
next
  case (rename old new r r' ws d1)
  note res = Resolve_correct [OF assms(3) rename(2,4), unfolded rename(6), simplified]
  show ?thesis
    using Rename_correct(1) [OF res(2) rename(2,3) assms(4) _ _ rename(7)] res(1,3) rename(5)
    by (simp add: is_ws_resolve_spec)
next
  case (delete name r ws d1)
  note res = Resolve_correct [OF assms(3) delete(2,3), unfolded delete(4), simplified]
  have r: "r = view (pdb d) (VaultNameIndexKey sip name)"
    using delete(3) by (rule get_view)
  show ?thesis
  proof (cases r)
    case None
    then have "view (pdb d) (VaultMetaKey ws) = None"
      using assms(2) delete(1,3,4) get_view [of "pdb d" "VaultMetaKey ws" None]
      by (simp add: deletes_own_def VaultNameExists_def)
    then show ?thesis
      using Delete_nothing [OF res(2) _ _ delete(5)] None r res(3) by simp
  next
    case (Some val)
    then have "registered sip (view (pdb d)) name"
      using r by (simp add: registered_def)
    then show ?thesis
      using Delete_correct [OF res(2) delete(2) assms(4) _ _ delete(5)] res(1,3) by simp
  qed
qed

lemma vault_steps_inv:
  "(own_step P sip N)\<^sup>*\<^sup>* d d' \<Longrightarrow> session_inv view sip N d \<Longrightarrow> inj_on (VaultNameHash sip) N \<Longrightarrow>
   session_inv view sip N d'"
  by (induction rule: rtranclp_induct) (auto simp: own_step_def intro: vault_step_inv)

end

lemma session_inv_fresh:
  assumes "view db = Map.empty"
  shows "session_inv view sip N \<lparr>pdb = db, vaultPrefixCache = newVaultCache n, vaultNameWritten = {}\<rparr>"
  using assms by (simp add: session_inv_def registry_ok_def cache_coherent_def newVaultCache_def)

section \<open>A concrete session\<close>

text \<open>The in-memory store with a hash that is injective on names of up to eight bytes.\<close>

definition demo_sip :: siphash where
  "demo_sip k0 k1 bs = word_of_nat (be_value bs)"

definition demo_open :: "(bytes \<times> bytes) list vdb" where
  "demo_open = \<lparr>pdb = [], vaultPrefixCache = newVaultCache 10, vaultNameWritten = {}\<rparr>"

definition demo_register :: "(bytes \<times> bytes) list vdb \<Rightarrow> string \<Rightarrow> (bytes \<times> bytes) list vdb" where
  "demo_register d name =
     (case ResolveVaultPrefix mem_pebble demo_sip d name of (ws, d1) \<Rightarrow>
        (case WriteVaultName mem_pebble demo_sip d1 ws name of Inr d2 \<Rightarrow> d2 | Inl _ \<Rightarrow> d1))"

definition demo_ab :: "(bytes \<times> bytes) list vdb" where
  "demo_ab = demo_register (demo_register demo_open ''a'') ''b''"

lemma mem_get: "pb_get mem_pebble d k = Inr (map_of d k)"
  by (simp add: mem_pebble_def)

lemma demo_register_step:
  "name \<in> N \<Longrightarrow> vault_step mem_pebble demo_sip N d (RegisterOp name) (demo_register d name)"
proof -
  assume "name \<in> N"
  obtain ws d1 where res: "ResolveVaultPrefix mem_pebble demo_sip d name = (ws, d1)"
    by (cases "ResolveVaultPrefix mem_pebble demo_sip d name")
  have "\<not> isl (WriteVaultName mem_pebble demo_sip d1 ws name)"
    by (simp add: WriteVaultName_def Let_def mem_pebble_def split: option.split)
  then obtain d2 where "WriteVaultName mem_pebble demo_sip d1 ws name = Inr d2"
    by (metis sum.collapse(2))
  with \<open>name \<in> N\<close> res show ?thesis
    by (auto simp: demo_register_def intro: vault_step.register mem_get)
qed

lemma demo_ab_steps: "(own_step mem_pebble demo_sip {''a'', ''b'', ''c''})\<^sup>*\<^sup>* demo_open demo_ab"
proof -
  let ?step = "own_step mem_pebble demo_sip {''a'', ''b'', ''c''}"
  have "?step demo_open (demo_register demo_open ''a'')" and
    "?step (demo_register demo_open ''a'') demo_ab"
    unfolding demo_ab_def own_step_def deletes_own_def
    by (rule exI, rule conjI, rule demo_register_step, simp, simp)+
  then show ?thesis by simp
qed

lemma demo_open_inv: "session_inv map_of demo_sip N demo_open"
  unfolding demo_open_def by (rule session_inv_fresh) auto

lemma demo_sip_inj: "inj_on (VaultNameHash demo_sip) {''a'', ''b'', ''c''}"
proof -
  have "VaultNameHash demo_sip ''a'' = [0, 0, 0, 0, 0, 0, 0, 97]"
    "VaultNameHash demo_sip ''b'' = [0, 0, 0, 0, 0, 0, 0, 98]"
    "VaultNameHash demo_sip ''c'' = [0, 0, 0, 0, 0, 0, 0, 99]"
    by code_simp+
  then show ?thesis by (simp add: inj_on_def)
qed

lemma demo_ab_inv: "session_inv map_of demo_sip {''a'', ''b'', ''c''} demo_ab"
  using mem.vault_steps_inv [OF demo_ab_steps demo_open_inv demo_sip_inj] .

section \<open>Deleting a name that is not registered\<close>

text \<open>
  Register \<open>a\<close>, rename it to \<open>b\<close>, delete \<open>a\<close>, register \<open>a\<close> again: the deletion resolves \<open>a\<close>
  to the prefix \<open>b\<close> lives under and drops that prefix's record, so the registration finds
  the prefix free. Both names are then registered, on one prefix.
\<close>

definition demo_rename :: "(bytes \<times> bytes) list vdb \<Rightarrow> string \<Rightarrow> string \<Rightarrow> (bytes \<times> bytes) list vdb" where
  "demo_rename d old new =
     (case ResolveVaultPrefix mem_pebble demo_sip d old of (ws, d1) \<Rightarrow>
        projr (RenameVault mem_pebble demo_sip d1 ws old new))"

definition demo_delete :: "(bytes \<times> bytes) list vdb \<Rightarrow> string \<Rightarrow> (bytes \<times> bytes) list vdb" where
  "demo_delete d name =
     (case ResolveVaultPrefix mem_pebble demo_sip d name of (ws, d1) \<Rightarrow>
        projr (DeleteVaultNameOnly mem_pebble demo_sip d1 ws name))"

lemma demo_delete_step:
  assumes "name \<in> N"
  shows "vault_step mem_pebble demo_sip N d (DeleteOp name) (demo_delete d name)"
  using assms by (auto simp: demo_delete_def DeleteVaultNameOnly_def mem_pebble_def
      split: prod.split intro!: vault_step.delete)

lemma demo_rename_step:
  assumes "old \<in> N" and "new \<in> N" and "ResolveVaultPrefix mem_pebble demo_sip d old = (ws, d1)"
    and "\<not> isl (RenameVault mem_pebble demo_sip d1 ws old new)"
  shows "vault_step mem_pebble demo_sip N d (RenameOp old new) (demo_rename d old new)"
  using assms by (auto simp: demo_rename_def intro: vault_step.rename mem_get)

lemma unchecked_delete_shares_prefix:
  "\<exists>d. (any_step mem_pebble demo_sip {''a'', ''b''})\<^sup>*\<^sup>* demo_open d \<and>
     VaultNameExists mem_pebble demo_sip d ''a'' \<and> VaultNameExists mem_pebble demo_sip d ''b'' \<and>
     fst (ResolveVaultPrefix mem_pebble demo_sip d ''a'') =
       fst (ResolveVaultPrefix mem_pebble demo_sip d ''b'')"
proof -
  let ?step = "any_step mem_pebble demo_sip {''a'', ''b''}"
  define d1 where "d1 = demo_register demo_open ''a''"
  define d2 where "d2 = demo_rename d1 ''a'' ''b''"
  define d3 where "d3 = demo_delete d2 ''a''"
  define d4 where "d4 = demo_register d3 ''a''"
  have ren: "\<not> isl (RenameVault mem_pebble demo_sip
      (snd (ResolveVaultPrefix mem_pebble demo_sip d1 ''a''))
      (fst (ResolveVaultPrefix mem_pebble demo_sip d1 ''a'')) ''a'' ''b'')"
    unfolding d1_def by code_simp
  have steps: "?step demo_open d1" "?step d1 d2" "?step d2 d3" "?step d3 d4"
    unfolding any_step_def d1_def d2_def d3_def d4_def
    by (rule exI, rule demo_register_step, simp,
        rule exI, rule demo_rename_step [OF _ _ prod.collapse [symmetric] ren [unfolded d1_def]], simp, simp,
        rule exI, rule demo_delete_step, simp, rule exI, rule demo_register_step, simp)
  note reach = r_into_rtranclp [of ?step, OF steps(1)]
  note reach = rtranclp.rtrancl_into_rtrancl [of ?step, OF reach steps(2)]
  note reach = rtranclp.rtrancl_into_rtrancl [of ?step, OF reach steps(3)]
  note reach = rtranclp.rtrancl_into_rtrancl [of ?step, OF reach steps(4)]
  have "VaultNameExists mem_pebble demo_sip d4 ''a''" "VaultNameExists mem_pebble demo_sip d4 ''b''"
    "fst (ResolveVaultPrefix mem_pebble demo_sip d4 ''a'') =
      fst (ResolveVaultPrefix mem_pebble demo_sip d4 ''b'')"
    unfolding d1_def d2_def d3_def d4_def by code_simp+
  with reach show ?thesis
    by (intro exI conjI)
qed

section \<open>Properties\<close>

text \<open>C1: vault isolation. In every state a session can reach by resolving, registering,
  renaming and deleting names, where every deletion (\<open>deletes_own\<close>) is of a name that is
  registered or whose prefix has no registered vault, two different registered vault names
  resolve to different 8-byte prefixes, through the cache or past it, and the key range scanned
  or tombstoned for the one contains no key of the other, of any kind. \<open>Engine.DeleteVault\<close>
  does not check what it deletes; \<open>unchecked_delete_shares_prefix\<close> below shows that the
  isolation is lost without the condition.\<close>

theorem registered_vaults_isolated:
  assumes "pebble P view" and "inj_on (VaultNameHash sip) N"
    and "session_inv view sip N d0" and "(own_step P sip N)\<^sup>*\<^sup>* d0 d"
    and "a \<in> N" and "b \<in> N" and "a \<noteq> b"
    and "VaultNameExists P sip d a" and "VaultNameExists P sip d b"
    and "VaultKindRange kind (fst (ResolveVaultPrefix P sip d a)) = Inr (lower, upper)"
  shows "fst (ResolveVaultPrefix P sip d a) \<noteq> fst (ResolveVaultPrefix P sip d b) \<and>
    \<not> in_range lower upper (vaultScoped kind' (fst (ResolveVaultPrefix P sip d b)) payload)"
proof -
  note inv = pebble.vault_steps_inv [OF assms(1) assms(4,3,2)]
  have reads: "\<exists>v. pb_get P (pdb d) (VaultNameIndexKey sip n) = Inr (Some v)"
    if "VaultNameExists P sip d n" for n
    using that by (auto simp: VaultNameExists_def split: sum.splits option.splits)
  have res: "fst (ResolveVaultPrefix P sip d n) = resolve_spec sip (view (pdb d)) n"
    and reg: "registered sip (view (pdb d)) n" if "n \<in> N" "VaultNameExists P sip d n" for n
    using reads [OF that(2)] pebble.Resolve_correct(1) [OF assms(1) inv that(1)]
      pebble.get_view [OF assms(1)] by (auto simp: registered_def)
  have "VaultNameHash sip a \<noteq> VaultNameHash sip b"
    using assms(2,5-7) by (auto dest: inj_onD)
  then have ne: "resolve_spec sip (view (pdb d)) a \<noteq> resolve_spec sip (view (pdb d)) b"
    using registered_distinct [OF session_invD(1) [OF inv]] reg assms(5,6,8,9) by blast
  show ?thesis
    using ne VaultKindRange_vaultScoped [OF is_ws_resolve_spec is_ws_resolve_spec] assms(10)
    by (auto simp: res assms)
qed

theorem registered_vaults_isolated_witness:
  "\<not> in_range [3, 0, 0, 0, 0, 0, 0, 0, 97] [3, 0, 0, 0, 0, 0, 0, 0, 98]
     (vaultScoped 3 (fst (ResolveVaultPrefix mem_pebble demo_sip demo_ab ''b'')) [1, 2])"
proof -
  have "VaultNameExists mem_pebble demo_sip demo_ab ''a''"
    "VaultNameExists mem_pebble demo_sip demo_ab ''b''"
    by code_simp+
  moreover have "VaultKindRange 3 (fst (ResolveVaultPrefix mem_pebble demo_sip demo_ab ''a'')) =
      Inr ([3, 0, 0, 0, 0, 0, 0, 0, 97], [3, 0, 0, 0, 0, 0, 0, 0, 98])"
    by code_simp
  ultimately show ?thesis
    using registered_vaults_isolated [OF mem.pebble_axioms demo_sip_inj demo_open_inv demo_ab_steps,
        of "''a''" "''b''" 3] by blast
qed

text \<open>C2: the old name of a renamed vault still reaches its data. After a vault created under
  \<open>old\<close> (its prefix is \<open>VaultPrefix old\<close>) was renamed to \<open>new\<close>, \<open>old\<close> is not registered any
  more, yet it resolves to the same prefix as \<open>new\<close>: the SipHash fallback is taken for a name
  that was registered once, which the comment of \<open>ResolveVaultPrefix\<close> rules out.\<close>

theorem rename_old_name_aliases:
  assumes "pebble P view" and "inj_on (VaultNameHash sip) N" and "session_inv view sip N d"
    and "old \<in> N" and "new \<in> N" and "old \<noteq> new"
    and "RenameVault P sip d (VaultPrefix sip old) old new = Inr d'"
    and "pb_get P (pdb d) (VaultNameIndexKey sip new) = Inr r"
    and "pb_get P (pdb d') (VaultNameIndexKey sip old) = Inr r1"
    and "pb_get P (pdb d') (VaultNameIndexKey sip new) = Inr r2"
  shows "\<not> VaultNameExists P sip d' old \<and> VaultNameExists P sip d' new \<and>
    fst (ResolveVaultPrefix P sip d' old) = fst (ResolveVaultPrefix P sip d' new)"
proof -
  let ?ws = "VaultPrefix sip old"
  note ren = pebble.Rename_correct [OF assms(1,3,4,5,2) is_ws_VaultPrefix assms(8,7)]
  have hash: "VaultNameHash sip old \<noteq> VaultNameHash sip new"
    using assms(2,4-6) by (auto dest: inj_onD)
  have r1: "r1 = None" and r2: "r2 = Some ?ws"
    using ren(2) [OF assms(6)] pebble.get_view [OF assms(1) assms(9)]
      pebble.get_view [OF assms(1) assms(10)] hash by auto
  have "resolve_spec sip (view (pdb d')) old = ?ws" "resolve_spec sip (view (pdb d')) new = ?ws"
    using ren(2) [OF assms(6)] hash by (auto simp: resolve_spec_def VaultPrefix_def)
  then show ?thesis
    using pebble.Resolve_correct(1) [OF assms(1) ren(1)] assms(4,5,9,10) r1 r2
    by (simp add: VaultNameExists_def)
qed

theorem rename_old_name_aliases_witness:
  "let d' = projr (RenameVault mem_pebble demo_sip demo_ab (VaultPrefix demo_sip ''a'') ''a'' ''c'')
   in fst (ResolveVaultPrefix mem_pebble demo_sip d' ''a'') =
      fst (ResolveVaultPrefix mem_pebble demo_sip d' ''c'')"
proof -
  let ?r = "RenameVault mem_pebble demo_sip demo_ab (VaultPrefix demo_sip ''a'') ''a'' ''c''"
  have "\<not> isl ?r"
    by code_simp
  then have "?r = Inr (projr ?r)"
    by simp
  then show ?thesis
    using rename_old_name_aliases [OF mem.pebble_axioms demo_sip_inj demo_ab_inv, of "''a''" "''c''"]
    by (simp add: mem_get Let_def)
qed

end
