(* ===== verification/Indexes.thy ===== *)
theory Indexes
  imports Pebble_Store Go_Strings
begin

text \<open>
  The small vault-scoped indexes: the SimHash fingerprints (\<open>internal/storage/near.go\<close>), the
  quarantine index and the threat sources (\<open>internal/storage/poison.go\<close>) and the durable
  embed queue (\<open>internal/storage/embedqueue.go\<close>). They share one contract, the locale
  \<open>scoped_index\<close>: a map from a vault and an identifier to a value, whose scan sees one vault.
  JSON (\<open>encoding/json\<close>) is the pair of parameters \<open>marshal\<close>, \<open>unmarshal\<close>.
\<close>

section \<open>Fingerprints\<close>

definition PutNearDup :: "'db pebble_ops \<Rightarrow> 'db \<Rightarrow> ws \<Rightarrow> string \<Rightarrow> 64 word \<Rightarrow> 'db gres" where
  "PutNearDup P d ws chunkID fp = DB_Set P d (NearDupKey ws chunkID) (be_bytes 8 (unat fp))"

definition be_uint64 :: "bytes \<Rightarrow> 64 word" where
  "be_uint64 val = word_of_nat (be_value (take 8 val))"

definition GetNearDup :: "'db pebble_ops \<Rightarrow> 'db \<Rightarrow> ws \<Rightarrow> string \<Rightarrow> 64 word option" where
  "GetNearDup P d ws chunkID =
     (case DB_Get P d (NearDupKey ws chunkID) of
        Inr (Some val) \<Rightarrow> if length val < 8 then None else Some (be_uint64 val)
      | _ \<Rightarrow> None)"

definition DeleteNearDup :: "'db pebble_ops \<Rightarrow> 'db \<Rightarrow> ws \<Rightarrow> string \<Rightarrow> 'db gres" where
  "DeleteNearDup P d ws chunkID = DB_Delete P d (NearDupKey ws chunkID)"

definition ScanNearDup :: "'db pebble_ops \<Rightarrow> 'db \<Rightarrow> ws \<Rightarrow>
    (string \<Rightarrow> 64 word \<Rightarrow> 's \<Rightarrow> 's \<times> bool) \<Rightarrow> 's \<Rightarrow> 's \<times> go_error option" where
  "ScanNearDup P d ws fn s =
     (case VaultKindRange PrefixNearDup ws of
        Inl e \<Rightarrow> (s, Some e)
      | Inr (lower, upper) \<Rightarrow>
          DB_RangeScan P d lower upper
            (\<lambda>key val s. if length val < 8 then (s, True)
                         else fn (bytes_str (drop 9 key)) (be_uint64 val) s) s)"

section \<open>Quarantine and threat sources\<close>

definition PutQuarantine :: "'db pebble_ops \<Rightarrow> 'db \<Rightarrow> ws \<Rightarrow> string \<Rightarrow> bytes \<Rightarrow> 'db gres" where
  "PutQuarantine P d ws chunkID verdict = DB_Set P d (QuarantineKey ws chunkID) verdict"

definition DeleteQuarantine :: "'db pebble_ops \<Rightarrow> 'db \<Rightarrow> ws \<Rightarrow> string \<Rightarrow> 'db gres" where
  "DeleteQuarantine P d ws chunkID = DB_Delete P d (QuarantineKey ws chunkID)"

definition ScanQuarantine :: "'db pebble_ops \<Rightarrow> 'db \<Rightarrow> ws \<Rightarrow>
    (string \<Rightarrow> bytes \<Rightarrow> 's \<Rightarrow> 's \<times> bool) \<Rightarrow> 's \<Rightarrow> 's \<times> go_error option" where
  "ScanQuarantine P d ws fn s =
     (case VaultKindRange PrefixPoisonQuar ws of
        Inl e \<Rightarrow> (s, Some e)
      | Inr (lower, upper) \<Rightarrow>
          DB_RangeScan P d lower upper (\<lambda>key val s. fn (bytes_str (drop 9 key)) val s) s)"

definition ScanThreatSources :: "'db pebble_ops \<Rightarrow> 'db \<Rightarrow> ws \<Rightarrow>
    (string \<Rightarrow> bytes \<Rightarrow> 's \<Rightarrow> 's \<times> bool) \<Rightarrow> 's \<Rightarrow> 's \<times> go_error option" where
  "ScanThreatSources P d ws fn s =
     (case VaultKindRange PrefixThreatSrc ws of
        Inl e \<Rightarrow> (s, Some e)
      | Inr (lower, upper) \<Rightarrow>
          DB_RangeScan P d lower upper (\<lambda>key val s. fn (bytes_str (drop 9 key)) val s) s)"

section \<open>The embed queue\<close>

record EmbedQueueItem =
  eq_Model :: string
  eq_Status :: string
  eq_Attempts :: int

definition EmbedQueuePending :: string where "EmbedQueuePending = ''pending''"
definition EmbedQueueFailed :: string where "EmbedQueueFailed = ''failed''"

definition PutEmbedQueue :: "'db pebble_ops \<Rightarrow> 'db \<Rightarrow> ws \<Rightarrow> string \<Rightarrow> bytes \<Rightarrow> 'db gres" where
  "PutEmbedQueue P d ws chunkID item = DB_Set P d (EmbedQueueKey ws chunkID) item"

definition PutEmbedQueueItem :: "'db pebble_ops \<Rightarrow> (EmbedQueueItem \<Rightarrow> bytes) \<Rightarrow> 'db \<Rightarrow> ws \<Rightarrow>
    string \<Rightarrow> string \<Rightarrow> 'db gres" where
  "PutEmbedQueueItem P marshal d ws chunkID model =
     (let rec = marshal \<lparr>eq_Model = model, eq_Status = EmbedQueuePending, eq_Attempts = 0\<rparr>
      in PutEmbedQueue P d ws chunkID rec)"

definition GetEmbedQueue :: "'db pebble_ops \<Rightarrow> (bytes \<Rightarrow> EmbedQueueItem option) \<Rightarrow> 'db \<Rightarrow> ws \<Rightarrow>
    string \<Rightarrow> EmbedQueueItem option gres" where
  "GetEmbedQueue P unmarshal d ws chunkID =
     gbind (DB_Get P d (EmbedQueueKey ws chunkID)) (\<lambda>found.
       case found of None \<Rightarrow> Inr None | Some val \<Rightarrow> Inr (unmarshal val))"

definition DeleteEmbedQueue :: "'db pebble_ops \<Rightarrow> 'db \<Rightarrow> ws \<Rightarrow> string \<Rightarrow> 'db gres" where
  "DeleteEmbedQueue P d ws chunkID = DB_Delete P d (EmbedQueueKey ws chunkID)"

definition ScanEmbedQueue :: "'db pebble_ops \<Rightarrow> (bytes \<Rightarrow> EmbedQueueItem option) \<Rightarrow> 'db \<Rightarrow> ws \<Rightarrow>
    (string \<Rightarrow> EmbedQueueItem \<Rightarrow> 's \<Rightarrow> 's \<times> bool) \<Rightarrow> 's \<Rightarrow> 's \<times> go_error option" where
  "ScanEmbedQueue P unmarshal d ws fn s =
     (case VaultKindRange PrefixEmbedQueue ws of
        Inl e \<Rightarrow> (s, Some e)
      | Inr (lower, upper) \<Rightarrow>
          DB_RangeScan P d lower upper
            (\<lambda>key val s. case unmarshal val of
                 None \<Rightarrow> (s, True)
               | Some item \<Rightarrow> fn (bytes_str (drop 9 key)) item s) s)"

definition CountEmbedQueue :: "'db pebble_ops \<Rightarrow> (bytes \<Rightarrow> EmbedQueueItem option) \<Rightarrow> 'db \<Rightarrow> ws \<Rightarrow> nat" where
  "CountEmbedQueue P unmarshal d ws =
     fst (ScanEmbedQueue P unmarshal d ws (\<lambda>_ _ n. (n + 1, True)) 0)"

section \<open>The common contract\<close>

text \<open>
  \<open>lookup d ws id\<close> is the value of an identifier, \<open>scan d ws\<close> the list a collecting callback
  gathers (if the iterator ran without error).
\<close>

locale scoped_index =
  fixes lookup :: "'d \<Rightarrow> ws \<Rightarrow> string \<Rightarrow> 'v option"
    and put :: "'d \<Rightarrow> ws \<Rightarrow> string \<Rightarrow> 'v \<Rightarrow> 'd gres"
    and del :: "'d \<Rightarrow> ws \<Rightarrow> string \<Rightarrow> 'd gres"
    and scan :: "'d \<Rightarrow> ws \<Rightarrow> (string \<times> 'v) list gres"
    and ok :: "'d \<Rightarrow> bool"
  assumes lookup_put: "is_ws ws \<Longrightarrow> is_ws ws' \<Longrightarrow> put d ws i v = Inr d' \<Longrightarrow>
      lookup d' ws' j = (if ws' = ws \<and> j = i then Some v else lookup d ws' j)"
    and lookup_del: "is_ws ws \<Longrightarrow> is_ws ws' \<Longrightarrow> del d ws i = Inr d' \<Longrightarrow>
      lookup d' ws' j = (if ws' = ws \<and> j = i then None else lookup d ws' j)"
    and ok_put: "ok d \<Longrightarrow> is_ws ws \<Longrightarrow> put d ws i v = Inr d' \<Longrightarrow> ok d'"
    and ok_del: "ok d \<Longrightarrow> is_ws ws \<Longrightarrow> del d ws i = Inr d' \<Longrightarrow> ok d'"
    and scan_lookup: "ok d \<Longrightarrow> is_ws ws \<Longrightarrow> scan d ws = Inr kvs \<Longrightarrow>
      distinct (map fst kvs) \<and> map_of kvs = lookup d ws"
begin

lemma scan_put:
  assumes "ok d" and "is_ws ws" and "put d ws i v = Inr d'" and "scan d' ws = Inr kvs"
  shows "(i, v) \<in> set kvs"
  using assms scan_lookup [OF ok_put [OF assms(1-3)] assms(2,4)] lookup_put [OF assms(2,2,3)]
  by (metis map_of_SomeD)

lemma scan_del:
  assumes "ok d" and "is_ws ws" and "del d ws i = Inr d'" and "scan d' ws = Inr kvs"
  shows "i \<notin> fst ` set kvs"
  using assms scan_lookup [OF ok_del [OF assms(1-3)] assms(2,4)] lookup_del [OF assms(2,2,3)]
  by (metis map_of_eq_None_iff)

text \<open>Two scans of equal contents return the same entries: other vaults do not show.\<close>

lemma scan_same:
  assumes "ok d" and "ok d'" and "is_ws ws" and "scan d ws = Inr kvs" and "scan d' ws = Inr kvs'"
    and "lookup d ws = lookup d' ws"
  shows "set kvs = set kvs' \<and> length kvs = length kvs'"
proof -
  have *: "distinct (map fst kvs)" "distinct (map fst kvs')" "map_of kvs = map_of kvs'"
    using scan_lookup [OF _ assms(3)] assms by auto
  have "x \<in> set kvs \<longleftrightarrow> x \<in> set kvs'" for x
    using * by (cases x) (metis map_of_eq_Some_iff)
  then have "set kvs = set kvs'"
    by blast
  moreover have "distinct kvs" "distinct kvs'"
    using * by (auto simp: distinct_map)
  ultimately show ?thesis
    by (metis distinct_card)
qed

lemma other_vault_scan:
  assumes "ok d" and "is_ws ws" and "is_ws ws'" and "ws \<noteq> ws'"
    and "put d ws i v = Inr d' \<or> del d ws i = Inr d'"
    and "scan d ws' = Inr kvs" and "scan d' ws' = Inr kvs'"
  shows "set kvs = set kvs' \<and> length kvs = length kvs'"
proof -
  have "ok d'"
    using assms(1,2,5) ok_put ok_del by blast
  moreover have "lookup d ws' = lookup d' ws'"
    using assms(4,5) lookup_put [OF assms(2,3)] lookup_del [OF assms(2,3)] by (auto simp: fun_eq_iff)
  ultimately show ?thesis
    using scan_same [OF assms(1) _ assms(3,6,7)] by blast
qed

end

text \<open>The list a collecting callback gathers, and what a stored record decodes to.\<close>

definition collected :: "'a list \<times> go_error option \<Rightarrow> 'a list gres" where
  "collected r = (case r of (xs, None) \<Rightarrow> Inr xs | (xs, Some e) \<Rightarrow> Inl e)"

definition collect_cb :: "string \<Rightarrow> 'v \<Rightarrow> (string \<times> 'v) list \<Rightarrow> (string \<times> 'v) list \<times> bool" where
  "collect_cb i v acc = (acc @ [(i, v)], True)"

definition long_keys :: "byte \<Rightarrow> contents \<Rightarrow> bool" where
  "long_keys kind m \<longleftrightarrow> (\<forall>k. kind # k \<in> dom m \<longrightarrow> 8 \<le> length k)"

definition decoded :: "contents \<Rightarrow> byte \<Rightarrow> (bytes \<Rightarrow> 'v option) \<Rightarrow> ws \<Rightarrow> string \<Rightarrow> 'v option" where
  "decoded m kind dec ws i = Option.bind (m (vaultScopedString kind ws i)) dec"

definition decode_cb :: "(bytes \<Rightarrow> 'v option) \<Rightarrow> (string \<Rightarrow> 'v \<Rightarrow> 's \<Rightarrow> 's \<times> bool) \<Rightarrow>
    bytes \<Rightarrow> bytes \<Rightarrow> 's \<Rightarrow> 's \<times> bool" where
  "decode_cb dec fn key val s =
     (case dec val of None \<Rightarrow> (s, True) | Some v \<Rightarrow> fn (bytes_str (drop 9 key)) v s)"

definition decode_entry :: "(bytes \<Rightarrow> 'v option) \<Rightarrow> bytes \<times> bytes \<Rightarrow> (string \<times> 'v) list" where
  "decode_entry dec kv =
     (case dec (snd kv) of None \<Rightarrow> [] | Some v \<Rightarrow> [(bytes_str (drop 9 (fst kv)), v)])"

lemma scan_loop_decode:
  "scan_loop (\<lambda>_. True) (decode_cb dec collect_cb) kvs acc =
     (acc @ concat (map (decode_entry dec) kvs), True)"
  by (induction kvs arbitrary: acc)
    (auto simp: decode_cb_def collect_cb_def decode_entry_def split: option.splits)

lemma vaultScopedString_inject:
  "is_ws ws \<Longrightarrow> is_ws ws' \<Longrightarrow> vaultScopedString kind ws i = vaultScopedString kind' ws' j \<longleftrightarrow>
   kind = kind' \<and> ws = ws' \<and> i = j"
  by (simp add: vaultScopedString_def vaultScoped_inject)

lemma long_keys_upd:
  assumes "long_keys kind m" and "is_ws ws"
  shows "long_keys kind (m(vaultScopedString kind ws i := x))"
  using assms by (auto simp: long_keys_def vaultScopedString_def vaultScoped_def is_ws_def)

text \<open>
  Decoding a key-sorted list of entries that all belong to one vault and kind: identifiers stay
  distinct and the lookup is the decoded lookup.
\<close>

lemma decode_entries:
  assumes "distinct (map fst kvs)" and "\<forall>k \<in> fst ` set kvs. \<exists>p. k = vaultScoped kind ws p"
    and "is_ws ws"
  shows "distinct (map fst (concat (map (decode_entry dec) kvs))) \<and>
    map_of (concat (map (decode_entry dec) kvs)) i =
      Option.bind (map_of kvs (vaultScopedString kind ws i)) dec"
  using assms(1,2)
proof (induction kvs)
  case Nil
  then show ?case by simp
next
  case (Cons kv kvs)
  obtain k v where kv: "kv = (k, v)" by (cases kv)
  obtain p where k: "k = vaultScoped kind ws p"
    using Cons.prems(2) kv by auto
  have ident: "bytes_str (drop 9 k) = j \<longleftrightarrow> k = vaultScopedString kind ws j" for j
    using assms(3) by (auto simp: k vaultScoped_drop9 vaultScopedString_def vaultScoped_inject)
  have IH: "distinct (map fst (concat (map (decode_entry dec) kvs)))"
    "map_of (concat (map (decode_entry dec) kvs)) i =
      Option.bind (map_of kvs (vaultScopedString kind ws i)) dec"
    using Cons by auto
  have fresh: "bytes_str (drop 9 k) \<notin> set (map fst (concat (map (decode_entry dec) kvs)))"
  proof
    assume "bytes_str (drop 9 k) \<in> set (map fst (concat (map (decode_entry dec) kvs)))"
    then obtain k' where k': "k' \<in> fst ` set kvs" "bytes_str (drop 9 k') = bytes_str (drop 9 k)"
      by (force simp: decode_entry_def split: option.splits)
    then obtain p' where "k' = vaultScoped kind ws p'"
      using Cons.prems(2) by auto
    then have "k' = k"
      using k'(2) assms(3) by (metis k str_bytes_bytes_str vaultScoped_drop9)
    then show False
      using k'(1) Cons.prems(1) kv by auto
  qed
  have none: "map_of kvs k = None"
    using Cons.prems(1) kv by (simp add: map_of_eq_None_iff)
  have head: "decode_entry dec kv = (case dec v of None \<Rightarrow> [] | Some w \<Rightarrow> [(bytes_str (drop 9 k), w)])"
    by (simp add: kv decode_entry_def split: option.split)
  show ?case
  proof (cases "k = vaultScopedString kind ws i")
    case True
    then have "bytes_str (drop 9 k) = i"
      using ident by blast
    then show ?thesis
      using IH fresh none True head by (cases "dec v") (simp_all add: kv del: set_concat set_map)
  next
    case False
    then have "bytes_str (drop 9 k) \<noteq> i"
      using ident by blast
    then show ?thesis
      using IH fresh False head by (cases "dec v") (simp_all add: kv del: set_concat set_map)
  qed
qed

context pebble
begin

lemma decoded_scan:
  assumes "is_ws ws" and "long_keys kind (view d)"
    and "VaultKindRange kind ws = Inr (lower, upper)"
    and "collected (DB_RangeScan P d lower upper (decode_cb dec collect_cb) []) = Inr out"
  shows "distinct (map fst out) \<and> map_of out = decoded (view d) kind dec ws"
proof -
  obtain kvs where kvs: "pb_iter P d (Some lower) (Some upper) = Inr (kvs, None)"
    and out: "out = concat (map (decode_entry dec) kvs)"
    using assms(4) by (auto simp: DB_RangeScan_def collected_def scan_loop_decode
        split: sum.splits prod.splits option.splits)
  have dist: "distinct (map fst kvs)" and set: "set kvs = {(k, v). in_range lower upper k \<and> view d k = Some v}"
    using iter_view [OF kvs] by (auto simp: strict_sorted_iff)
  have head: "hd k = kind \<and> k \<noteq> []" if "in_range lower upper k" for k
    using that assms(3) by (cases k) (auto simp: VaultKindRange_def kindWSPrefix_def gbind_Inr_iff in_range_Cons, auto simp: in_range_def)
  have shape: "\<forall>k \<in> fst ` set kvs. \<exists>p. k = vaultScoped kind ws p"
  proof
    fix k
    assume "k \<in> fst ` set kvs"
    then have k: "in_range lower upper k" "k \<in> dom (view d)"
      using set by auto
    then have "9 \<le> length k"
      using head [OF k(1)] assms(2) by (cases k) (auto simp: long_keys_def)
    then show "\<exists>p. k = vaultScoped kind ws p"
      using VaultKindRange_members [OF assms(1,3) k(1)] by blast
  qed
  have "map_of kvs (vaultScopedString kind ws i) = view d (vaultScopedString kind ws i)" for i
    using iter_map_of [OF kvs] VaultKindRange_vaultScoped [OF assms(1,1,3)]
    by (simp add: vaultScopedString_def)
  then show ?thesis
    using decode_entries [OF dist shape assms(1), of dec] by (simp add: out decoded_def fun_eq_iff)
qed

end

definition near_dec :: "bytes \<Rightarrow> 64 word option" where
  "near_dec val = (if length val < 8 then None else Some (be_uint64 val))"

lemma near_dec_enc [simp]: "near_dec (be_bytes 8 (unat fp)) = Some fp"
proof -
  have "unat fp < 256 ^ 8"
    using unsigned_less [of fp] by simp
  then show ?thesis by (simp add: near_dec_def be_uint64_def)
qed

lemma GetNearDup_decoded:
  "GetNearDup P d ws i =
     (case DB_Get P d (NearDupKey ws i) of Inr r \<Rightarrow> Option.bind r near_dec | Inl _ \<Rightarrow> None)"
  by (auto simp: GetNearDup_def near_dec_def split: sum.splits option.splits)

lemma ScanNearDup_decode_cb:
  "ScanNearDup P d ws fn s =
     (case VaultKindRange 0x13 ws of Inl e \<Rightarrow> (s, Some e)
      | Inr (lower, upper) \<Rightarrow> DB_RangeScan P d lower upper (decode_cb near_dec fn) s)"
proof -
  have "decode_cb near_dec fn =
      (\<lambda>key val s. if length val < 8 then (s, True)
                    else fn (bytes_str (drop 9 key)) (be_uint64 val) s)"
    by (simp add: fun_eq_iff decode_cb_def near_dec_def)
  then show ?thesis
    by (simp add: ScanNearDup_def PrefixNearDup_def split: sum.split)
qed

lemma ScanQuarantine_decode_cb:
  "ScanQuarantine P d ws fn s =
     (case VaultKindRange 0x11 ws of Inl e \<Rightarrow> (s, Some e)
      | Inr (lower, upper) \<Rightarrow> DB_RangeScan P d lower upper (decode_cb Some fn) s)"
proof -
  have "decode_cb Some fn = (\<lambda>key val s. fn (bytes_str (drop 9 key)) val s)"
    by (simp add: fun_eq_iff decode_cb_def)
  then show ?thesis
    by (simp add: ScanQuarantine_def PrefixPoisonQuar_def split: sum.split)
qed

lemma ScanEmbedQueue_decode_cb:
  "ScanEmbedQueue P unmarshal d ws fn s =
     (case VaultKindRange 0x14 ws of Inl e \<Rightarrow> (s, Some e)
      | Inr (lower, upper) \<Rightarrow> DB_RangeScan P d lower upper (decode_cb unmarshal fn) s)"
proof -
  have "decode_cb unmarshal fn =
      (\<lambda>key val s. case unmarshal val of None \<Rightarrow> (s, True)
          | Some item \<Rightarrow> fn (bytes_str (drop 9 key)) item s)"
    by (simp add: fun_eq_iff decode_cb_def)
  then show ?thesis
    by (simp add: ScanEmbedQueue_def PrefixEmbedQueue_def split: sum.split)
qed

lemma collected_Inr_iff: "collected r = Inr xs \<longleftrightarrow> r = (xs, None)"
  by (cases r) (auto simp: collected_def split: option.splits)

lemma decoded_upd:
  assumes "is_ws ws" and "is_ws ws'"
  shows "decoded (m(vaultScopedString kind ws i := x)) kind dec ws' j =
    (if ws' = ws \<and> j = i then Option.bind x dec else decoded m kind dec ws' j)"
  using vaultScopedString_inject [OF assms(2,1), of kind j kind i] by (auto simp: decoded_def)

text \<open>A codec for the queue items, as \<open>encoding/json\<close> provides one.\<close>

locale queue_store = pebble P view
  for P :: "'db pebble_ops" and view :: "'db \<Rightarrow> contents" +
  fixes marshal :: "EmbedQueueItem \<Rightarrow> bytes" and unmarshal :: "bytes \<Rightarrow> EmbedQueueItem option"
  assumes unmarshal_marshal [simp]: "unmarshal (marshal item) = Some item"

text \<open>The three indexes provide the contract, over any store that keeps Pebble's.\<close>

sublocale pebble < near: scoped_index
  "\<lambda>d. decoded (view d) 0x13 near_dec" "PutNearDup P" "DeleteNearDup P"
  "\<lambda>d ws. collected (ScanNearDup P d ws collect_cb [])" "\<lambda>d. long_keys 0x13 (view d)"
proof unfold_locales
  show "distinct (map fst kvs) \<and> map_of kvs = decoded (view d) 0x13 near_dec ws"
    if "long_keys 0x13 (view d)" "is_ws ws" "collected (ScanNearDup P d ws collect_cb []) = Inr kvs"
    for d ws kvs
    using that decoded_scan [OF that(2,1)]
    by (auto simp: ScanNearDup_decode_cb collected_Inr_iff split: sum.splits)
qed (auto simp: PutNearDup_def DeleteNearDup_def NearDupKey_def decoded_upd
    long_keys_upd dest!: DB_Set_view DB_Delete_view)

sublocale pebble < quarantine: scoped_index
  "\<lambda>d. decoded (view d) 0x11 Some" "PutQuarantine P" "DeleteQuarantine P"
  "\<lambda>d ws. collected (ScanQuarantine P d ws collect_cb [])" "\<lambda>d. long_keys 0x11 (view d)"
proof unfold_locales
  show "distinct (map fst kvs) \<and> map_of kvs = decoded (view d) 0x11 Some ws"
    if "long_keys 0x11 (view d)" "is_ws ws" "collected (ScanQuarantine P d ws collect_cb []) = Inr kvs"
    for d ws kvs
    using that decoded_scan [OF that(2,1)]
    by (auto simp: ScanQuarantine_decode_cb collected_Inr_iff split: sum.splits)
qed (auto simp: PutQuarantine_def DeleteQuarantine_def QuarantineKey_def decoded_upd
    long_keys_upd dest!: DB_Set_view DB_Delete_view)

sublocale queue_store < queue: scoped_index
  "\<lambda>d. decoded (view d) 0x14 unmarshal" "\<lambda>d ws i item. PutEmbedQueue P d ws i (marshal item)"
  "DeleteEmbedQueue P"
  "\<lambda>d ws. collected (ScanEmbedQueue P unmarshal d ws collect_cb [])" "\<lambda>d. long_keys 0x14 (view d)"
proof unfold_locales
  show "distinct (map fst kvs) \<and> map_of kvs = decoded (view d) 0x14 unmarshal ws"
    if "long_keys 0x14 (view d)" "is_ws ws"
      "collected (ScanEmbedQueue P unmarshal d ws collect_cb []) = Inr kvs" for d ws kvs
    using that decoded_scan [OF that(2,1)]
    by (auto simp: ScanEmbedQueue_decode_cb collected_Inr_iff split: sum.splits)
qed (auto simp: PutEmbedQueue_def DeleteEmbedQueue_def EmbedQueueKey_def decoded_upd
    long_keys_upd dest!: DB_Set_view DB_Delete_view)

section \<open>A codec that keeps the contract\<close>

text \<open>A length-prefixed encoding of the queue items, to evaluate the queue on concrete inputs.\<close>

definition put_unary :: "nat \<Rightarrow> bytes" where
  "put_unary n = replicate n 1 @ [0]"

definition get_unary :: "bytes \<Rightarrow> nat \<times> bytes" where
  "get_unary bs = (length (takeWhile (\<lambda>b. b = 1) bs), drop 1 (dropWhile (\<lambda>b. b = 1) bs))"

definition demo_marshal :: "EmbedQueueItem \<Rightarrow> bytes" where
  "demo_marshal item =
     put_unary (length (eq_Model item)) @ str_bytes (eq_Model item) @
     put_unary (length (eq_Status item)) @ str_bytes (eq_Status item) @
     put_unary (nat \<bar>eq_Attempts item\<bar>) @ [if eq_Attempts item < 0 then 1 else 0]"

definition demo_unmarshal :: "bytes \<Rightarrow> EmbedQueueItem option" where
  "demo_unmarshal bs =
     (let (n, bs1) = get_unary bs;
          (m, bs2) = get_unary (drop n bs1);
          (a, bs3) = get_unary (drop m bs2)
      in if length bs1 < n \<or> length bs2 < m \<or> length bs3 \<noteq> 1 then None
         else Some \<lparr>eq_Model = bytes_str (take n bs1), eq_Status = bytes_str (take m bs2),
                    eq_Attempts = (if hd bs3 = 1 then - int a else int a)\<rparr>)"

lemma get_put_unary [simp]: "get_unary (put_unary n @ bs) = (n, bs)"
  by (simp add: get_unary_def put_unary_def takeWhile_append dropWhile_append)

lemma demo_unmarshal_marshal: "demo_unmarshal (demo_marshal item) = Some item"
  by (cases item) (simp add: demo_unmarshal_def demo_marshal_def)

interpretation mem_queue: queue_store mem_pebble map_of demo_marshal demo_unmarshal
  by unfold_locales (rule demo_unmarshal_marshal)

text \<open>The facts of the two interfaces that the properties use.\<close>

context pebble
begin

lemma near_put_scan:
  assumes "long_keys 0x13 (view d)" and "is_ws ws" and "is_ws ws'"
    and "PutNearDup P d ws i fp = Inr d'"
    and "ScanNearDup P d' ws' collect_cb [] = (out, None)"
  shows "distinct (map fst out) \<and> map_of out j =
    (if ws' = ws \<and> j = i then Some fp else decoded (view d) 0x13 near_dec ws' j)"
proof -
  have "distinct (map fst out) \<and> map_of out = decoded (view d') 0x13 near_dec ws'"
    using near.scan_lookup [OF near.ok_put [OF assms(1,2,4)] assms(3)] assms(5)
    by (simp add: collected_def)
  then show ?thesis
    using near.lookup_put [OF assms(2,3,4)] by simp
qed

end

context queue_store
begin

lemma queue_put_delete:
  assumes "long_keys 0x14 (view d)" and "is_ws ws"
    and put: "PutEmbedQueue P d ws i (marshal item) = Inr d1"
    and del: "DeleteEmbedQueue P d1 ws i = Inr d2"
    and "ScanEmbedQueue P unmarshal d1 ws collect_cb [] = (out1, None)"
    and "ScanEmbedQueue P unmarshal d2 ws collect_cb [] = (out2, None)"
  shows "(i, item) \<in> set out1 \<and> i \<notin> fst ` set out2 \<and> (\<forall>j. j \<noteq> i \<longrightarrow> map_of out1 j = map_of out2 j)"
proof -
  have ok1: "long_keys 0x14 (view d1)"
    by (rule queue.ok_put [OF assms(1,2) put])
  have ok2: "long_keys 0x14 (view d2)"
    by (rule queue.ok_del [OF ok1 assms(2) del])
  have scan1: "collected (ScanEmbedQueue P unmarshal d1 ws collect_cb []) = Inr out1"
    and scan2: "collected (ScanEmbedQueue P unmarshal d2 ws collect_cb []) = Inr out2"
    using assms(5,6) by (simp_all add: collected_def)
  have "map_of out1 j = map_of out2 j" if "j \<noteq> i" for j
    using queue.scan_lookup [OF ok1 assms(2) scan1] queue.scan_lookup [OF ok2 assms(2) scan2]
      queue.lookup_del [OF assms(2,2) del] that by auto
  then show ?thesis
    using queue.scan_put [OF assms(1,2) put scan1] queue.scan_del [OF ok1 assms(2) del scan2]
    by blast
qed

end

section \<open>Properties\<close>

text \<open>The near-duplicate scan of a vault is exact and isolated. Over any store that keeps
  Pebble's contract, after \<open>PutNearDup\<close> a complete scan of a vault returns each identifier once,
  with the fingerprint just written for the identifier and vault of the put, and with the stored
  fingerprint everywhere else; a put to another vault does not show.\<close>

theorem near_dup_scan_exact:
  assumes "pebble P view" and "long_keys 0x13 (view d)" and "is_ws ws" and "is_ws ws'"
    and "PutNearDup P d ws i fp = Inr d'"
    and "ScanNearDup P d' ws' collect_cb [] = (out, None)"
  shows "distinct (map fst out) \<and>
    (\<forall>j. map_of out j =
       (if ws' = ws \<and> j = i then Some fp else decoded (view d) 0x13 near_dec ws' j))"
  using pebble.near_put_scan [OF assms] by blast

definition demo_scan_db :: "(bytes \<times> bytes) list" where
  "demo_scan_db = [(NearDupKey (replicate 8 1) ''x'', be_bytes 8 5)]"

theorem near_dup_scan_exact_witness:
  "let d' = projr (PutNearDup mem_pebble demo_scan_db (replicate 8 1) ''y'' 9)
   in map_of (fst (ScanNearDup mem_pebble d' (replicate 8 1) collect_cb [])) ''y'' = Some 9"
proof -
  let ?p = "PutNearDup mem_pebble demo_scan_db (replicate 8 1) ''y'' 9"
  have p: "?p = Inr (projr ?p)"
    by (simp add: PutNearDup_def DB_Set_def mem_pebble_def)
  have ws: "is_ws (replicate 8 1)"
    by (simp add: is_ws_def)
  have long: "long_keys 0x13 (map_of demo_scan_db)"
    by (simp add: long_keys_def demo_scan_db_def NearDupKey_def vaultScopedString_def vaultScoped_def)
  have "snd (ScanNearDup mem_pebble (projr ?p) (replicate 8 1) collect_cb []) = None"
    by code_simp
  then have "ScanNearDup mem_pebble (projr ?p) (replicate 8 1) collect_cb [] =
      (fst (ScanNearDup mem_pebble (projr ?p) (replicate 8 1) collect_cb []), None)"
    by (metis prod.collapse)
  from near_dup_scan_exact [OF mem.pebble_axioms long ws ws p this] show ?thesis
    by (simp add: Let_def)
qed

text \<open>A chunk put on the embed queue is scanned with what was put, and taken off the queue it
  is scanned no more, whatever the other vaults hold; JSON is any codec that reads back what it
  writes.\<close>

theorem embed_queue_put_delete:
  assumes "queue_store P view marshal unmarshal" and "long_keys 0x14 (view d)" and "is_ws ws"
    and "PutEmbedQueueItem P marshal d ws i model = Inr d1"
    and "DeleteEmbedQueue P d1 ws i = Inr d2"
    and "ScanEmbedQueue P unmarshal d1 ws collect_cb [] = (out1, None)"
    and "ScanEmbedQueue P unmarshal d2 ws collect_cb [] = (out2, None)"
  shows "(i, \<lparr>eq_Model = model, eq_Status = ''pending'', eq_Attempts = 0\<rparr>) \<in> set out1 \<and>
    i \<notin> fst ` set out2 \<and> (\<forall>j. j \<noteq> i \<longrightarrow> map_of out1 j = map_of out2 j)"
  using queue_store.queue_put_delete [OF assms(1-3) _ assms(5-7)] assms(4)
  by (simp add: PutEmbedQueueItem_def EmbedQueuePending_def)

theorem embed_queue_put_delete_witness:
  "let d1 = projr (PutEmbedQueueItem mem_pebble demo_marshal [] (replicate 8 1) ''c'' ''m'')
   in (''c'', \<lparr>eq_Model = ''m'', eq_Status = ''pending'', eq_Attempts = 0\<rparr>)
        \<in> set (fst (ScanEmbedQueue mem_pebble demo_unmarshal d1 (replicate 8 1) collect_cb []))"
proof -
  let ?ws = "replicate 8 1 :: ws"
  let ?p = "PutEmbedQueueItem mem_pebble demo_marshal [] ?ws ''c'' ''m''"
  let ?q = "DeleteEmbedQueue mem_pebble (projr ?p) ?ws ''c''"
  let ?s = "\<lambda>d. ScanEmbedQueue mem_pebble demo_unmarshal d ?ws collect_cb []"
  have p: "?p = Inr (projr ?p)" and q: "?q = Inr (projr ?q)"
    by (simp_all add: PutEmbedQueueItem_def PutEmbedQueue_def DeleteEmbedQueue_def DB_Set_def
        DB_Delete_def mem_pebble_def Let_def)
  have ws: "is_ws ?ws" and long: "long_keys 0x14 (map_of ([] :: (bytes \<times> bytes) list))"
    by (simp_all add: is_ws_def long_keys_def)
  have "snd (?s (projr ?p)) = None" and "snd (?s (projr ?q)) = None"
    by code_simp+
  then have "?s (projr ?p) = (fst (?s (projr ?p)), None)" and "?s (projr ?q) = (fst (?s (projr ?q)), None)"
    by (metis prod.collapse)+
  from embed_queue_put_delete [OF mem_queue.queue_store_axioms long ws p q this] show ?thesis
    by (simp add: Let_def)
qed

end
