(* ===== verification/Utf8.thy ===== *)
theory Utf8
  imports Go_Strings
begin

text \<open>
  Runes: what \<open>range\<close> over a string, \<open>utf8.DecodeRuneInString\<close>,
  \<open>utf8.DecodeLastRuneInString\<close>, \<open>strings.Builder.WriteRune\<close> and \<open>strings.ToLower\<close> do.
  The Unicode tables of Go's \<open>unicode\<close> package are the parameter \<open>u\<close>; \<open>unicode_ascii\<close>
  states what they say of the first 128 code points.
\<close>

section \<open>Decoding\<close>

definition RuneError :: nat where "RuneError = 0xFFFD"

abbreviation byte_at :: "string \<Rightarrow> nat \<Rightarrow> nat" where
  "byte_at s i \<equiv> of_char (s ! i)"

definition cont :: "nat \<Rightarrow> bool" where
  "cont b \<longleftrightarrow> 0x80 \<le> b \<and> b \<le> 0xBF"

text \<open>First byte, the allowed second bytes, and how many bytes; invalid input has width 1.\<close>

definition second_range :: "nat \<Rightarrow> nat \<times> nat" where
  "second_range b0 =
     (if b0 = 0xE0 then (0xA0, 0xBF) else if b0 = 0xED then (0x80, 0x9F)
      else if b0 = 0xF0 then (0x90, 0xBF) else if b0 = 0xF4 then (0x80, 0x8F)
      else (0x80, 0xBF))"

definition rune_width :: "nat \<Rightarrow> nat" where
  "rune_width b0 =
     (if b0 < 0x80 then 1 else if b0 < 0xC2 then 0 else if b0 < 0xE0 then 2
      else if b0 < 0xF0 then 3 else if b0 < 0xF5 then 4 else 0)"

definition DecodeRune :: "string \<Rightarrow> nat \<times> nat" where
  "DecodeRune s =
     (if s = [] then (RuneError, 0)
      else
        let b0 = byte_at s 0; n = rune_width b0; (lo, hi) = second_range b0
        in if n = 1 then (b0, 1)
           else if n = 0 \<or> length s < n \<or> byte_at s 1 < lo \<or> hi < byte_at s 1 then (RuneError, 1)
           else if n = 2 then ((b0 - 0xC0) * 64 + (byte_at s 1 - 0x80), 2)
           else if \<not> cont (byte_at s 2) then (RuneError, 1)
           else if n = 3 then
             ((b0 - 0xE0) * 4096 + (byte_at s 1 - 0x80) * 64 + (byte_at s 2 - 0x80), 3)
           else if \<not> cont (byte_at s 3) then (RuneError, 1)
           else ((b0 - 0xF0) * 262144 + (byte_at s 1 - 0x80) * 4096 + (byte_at s 2 - 0x80) * 64 +
                 (byte_at s 3 - 0x80), 4))"

lemma DecodeRune_size: "s \<noteq> [] \<Longrightarrow> 0 < snd (DecodeRune s) \<and> snd (DecodeRune s) \<le> length s"
  by (cases s) (auto simp: DecodeRune_def Let_def rune_width_def Suc_le_eq split: prod.split)

text \<open>\<open>for _, r := range s\<close>, with the byte offsets \<open>range\<close> also yields.\<close>

function runes_at :: "nat \<Rightarrow> string \<Rightarrow> (nat \<times> nat) list" where
  "runes_at i s =
     (if s = [] then []
      else let (r, n) = DecodeRune s in (i, r) # runes_at (i + n) (drop n s))"
  by pat_completeness auto
termination
proof (relation "measure (\<lambda>(i, s). length s)")
  fix i :: nat and s :: string and x r n
  assume "s \<noteq> []" "x = DecodeRune s" "(r, n) = x"
  then show "((i + n, drop n s), i, s) \<in> measure (\<lambda>(i, s). length s)"
    using DecodeRune_size [of s] by (metis case_prod_conv diff_less in_measure length_drop
        length_greater_0_conv snd_conv)
qed simp

declare runes_at.simps [simp del]

definition runes :: "string \<Rightarrow> nat list" where
  "runes s = map snd (runes_at 0 s)"

text \<open>\<open>DecodeLastRuneInString\<close> backs up over at most three bytes to the start of a rune.\<close>

definition rune_start :: "nat \<Rightarrow> bool" where
  "rune_start b \<longleftrightarrow> \<not> cont b"

definition DecodeLastRune :: "string \<Rightarrow> nat \<times> nat" where
  "DecodeLastRune s =
     (let e = length s in
      if e = 0 then (RuneError, 0)
      else if byte_at s (e - 1) < 0x80 then (byte_at s (e - 1), 1)
      else
        let lim = e - 4;
            start = (case find (\<lambda>i. rune_start (byte_at s i)) (rev [lim..<e - 1]) of
                       Some i \<Rightarrow> i | None \<Rightarrow> lim - 1);
            (r, size) = DecodeRune (drop start s)
        in if start + size \<noteq> e then (RuneError, 1) else (r, size))"

section \<open>Encoding\<close>

definition EncodeRune :: "nat \<Rightarrow> string" where
  "EncodeRune r0 =
     (let r = (if r0 \<le> 0x10FFFF \<and> \<not> (0xD800 \<le> r0 \<and> r0 \<le> 0xDFFF) then r0 else RuneError) in
      if r < 0x80 then [char_of r]
      else if r < 0x800 then [char_of (0xC0 + r div 64), char_of (0x80 + r mod 64)]
      else if r < 0x10000 then
        [char_of (0xE0 + r div 4096), char_of (0x80 + r div 64 mod 64), char_of (0x80 + r mod 64)]
      else
        [char_of (0xF0 + r div 262144), char_of (0x80 + r div 4096 mod 64),
         char_of (0x80 + r div 64 mod 64), char_of (0x80 + r mod 64)])"

lemma EncodeRune_nonempty [simp]: "EncodeRune r \<noteq> []"
  by (simp add: EncodeRune_def Let_def)

text \<open>Every byte of an encoding of a rune other than NUL is not NUL, and likewise for any ASCII byte.\<close>

lemma of_char_of_nat: "(of_char (char_of n :: char) :: nat) = n mod 256"
  by (simp add: of_char_of)

lemma high_byte: "(0x80 :: nat) \<le> n \<Longrightarrow> n < 256 \<Longrightarrow> 0x80 \<le> (of_char (char_of n :: char) :: nat)"
  by (simp add: of_char_of_nat)

lemma high_bytes:
  "0x80 \<le> (of_char (char_of (0x80 + x mod 64 :: nat) :: char) :: nat)"
  "x < 32 \<Longrightarrow> 0x80 \<le> (of_char (char_of (0xC0 + x :: nat) :: char) :: nat)"
  "x < 16 \<Longrightarrow> 0x80 \<le> (of_char (char_of (0xE0 + x :: nat) :: char) :: nat)"
  "x < 16 \<Longrightarrow> 0x80 \<le> (of_char (char_of (0xF0 + x :: nat) :: char) :: nat)"
proof -
  have "x mod 64 < 64"
    by simp
  then show "0x80 \<le> (of_char (char_of (0x80 + x mod 64 :: nat) :: char) :: nat)"
    by (intro high_byte) linarith+
qed (intro high_byte; simp)+

lemma EncodeRune_high:
  assumes "0x80 \<le> r" and "c \<in> set (EncodeRune r)"
  shows "\<not> (of_char c :: nat) < 0x80"
proof -
  define q where "q = (if r \<le> 0x10FFFF \<and> \<not> (0xD800 \<le> r \<and> r \<le> 0xDFFF) then r else RuneError)"
  have q: "0x80 \<le> q" "q \<le> 0x10FFFF"
    using assms(1) by (auto simp: q_def RuneError_def)
  have d: "q div 64 < 32" if "q < 0x800"
    using that by auto
  have d': "q div 4096 < 16" if "q < 0x10000"
    using that by auto
  have d'': "q div 262144 < 16"
    using q(2) by auto
  have "0x80 \<le> (of_char c :: nat)"
    using assms(2) q(1) high_bytes(2) [OF d] high_bytes(3) [OF d'] high_bytes(4) [OF d'']
    unfolding EncodeRune_def q_def [symmetric] Let_def
    by (auto simp only: high_bytes(1) set_simps insert_iff empty_iff split: if_splits)
  then show ?thesis by simp
qed

lemma EncodeRune_ascii_byte:
  assumes "c \<in> set (EncodeRune r)" and "(of_char c :: nat) < 0x80"
  shows "r = of_char c \<and> EncodeRune r = [c]"
proof -
  have "r < 0x80"
    using EncodeRune_high assms by (metis linorder_not_le)
  then show ?thesis
    using assms by (auto simp: EncodeRune_def Let_def of_char_of_nat)
qed

section \<open>Character classes and case\<close>

record unicode =
  u_letter :: "nat \<Rightarrow> bool"
  u_digit :: "nat \<Rightarrow> bool"
  u_lower :: "nat \<Rightarrow> nat"

definition ascii_lower :: "nat \<Rightarrow> nat" where
  "ascii_lower r = (if 0x41 \<le> r \<and> r \<le> 0x5A then r + 32 else r)"

definition unicode_ascii :: "unicode \<Rightarrow> bool" where
  "unicode_ascii u \<longleftrightarrow> (\<forall>r < 0x80.
     (u_letter u r \<longleftrightarrow> 0x41 \<le> r \<and> r \<le> 0x5A \<or> 0x61 \<le> r \<and> r \<le> 0x7A) \<and>
     (u_digit u r \<longleftrightarrow> 0x30 \<le> r \<and> r \<le> 0x39) \<and> u_lower u r = ascii_lower r)"

definition ascii_tables :: unicode where
  "ascii_tables =
     \<lparr>u_letter = (\<lambda>r. 0x41 \<le> r \<and> r \<le> 0x5A \<or> 0x61 \<le> r \<and> r \<le> 0x7A),
      u_digit = (\<lambda>r. 0x30 \<le> r \<and> r \<le> 0x39), u_lower = ascii_lower\<rparr>"

lemma unicode_ascii_tables [simp]: "unicode_ascii ascii_tables"
  by (simp add: unicode_ascii_def ascii_tables_def)

text \<open>\<open>strings.ToLower\<close>: bytewise on ASCII strings, rune by rune otherwise.\<close>

definition ToLower :: "unicode \<Rightarrow> string \<Rightarrow> string" where
  "ToLower u s =
     (if \<forall>c \<in> set s. (of_char c :: nat) < 0x80
      then map (\<lambda>c. char_of (ascii_lower (of_char c))) s
      else concat (map (\<lambda>r. EncodeRune (u_lower u r)) (runes s)))"

text \<open>Strings of ASCII characters decode to their bytes.\<close>

lemma DecodeRune_ascii: "(of_char c :: nat) < 0x80 \<Longrightarrow> DecodeRune (c # s) = (of_char c, 1)"
  by (simp add: DecodeRune_def rune_width_def second_range_def)

lemma runes_at_ascii:
  "(of_char c :: nat) < 0x80 \<Longrightarrow> runes_at i (c # s) = (i, of_char c) # runes_at (Suc i) s"
  by (simp add: runes_at.simps [of i "c # s"] DecodeRune_ascii)

lemma runes_at_Nil [simp]: "runes_at i [] = []"
  by (simp add: runes_at.simps)

lemma runes_ascii:
  "\<forall>c \<in> set s. (of_char c :: nat) < 0x80 \<Longrightarrow> map snd (runes_at i s) = map of_char s"
  by (induction s arbitrary: i) (simp_all add: runes_at_ascii)

end
