(* ===== verification/Ranking.thy ===== *)
theory Ranking
  imports Prelude Complex_Main "HOL-Library.Multiset"
begin

text \<open>
  Ranked hits (\<open>index.Hit\<close>) and the accumulating maps of the retrieval code. Scores are
  \<open>float64\<close> in the code and real numbers here: rounding, infinities and NaN are idealised away.
  \<open>sort.Slice\<close> with the comparator "higher score first, then smaller chunk ID" is \<open>sort\<close> for
  the linear order below; on hits with distinct IDs the comparator has no ties, so the unstable
  sort of the code has this one result.
\<close>

datatype hit = Hit (ChunkID: string) (Score: real)

instantiation hit :: linorder
begin

definition less_hit :: "hit \<Rightarrow> hit \<Rightarrow> bool" where
  "less_hit a b \<longleftrightarrow> Score a > Score b \<or> Score a = Score b \<and> ChunkID a < ChunkID b"

definition less_eq_hit :: "hit \<Rightarrow> hit \<Rightarrow> bool" where
  "less_eq_hit (a :: hit) b \<longleftrightarrow> a = b \<or> a < b"

instance
proof
  fix a b c :: hit
  show "(a < b) = (a \<le> b \<and> \<not> b \<le> a)"
    by (auto simp: less_eq_hit_def less_hit_def)
  show "a \<le> a"
    by (simp add: less_eq_hit_def)
  show "a \<le> b \<Longrightarrow> b \<le> c \<Longrightarrow> a \<le> c"
    by (auto simp: less_eq_hit_def less_hit_def)
  show "a \<le> b \<Longrightarrow> b \<le> a \<Longrightarrow> a = b"
    by (auto simp: less_eq_hit_def less_hit_def)
  show "a \<le> b \<or> b \<le> a"
    by (cases a; cases b) (auto simp: less_eq_hit_def less_hit_def)
qed

end

section \<open>Accumulating maps\<close>

text \<open>\<open>m[k] += v\<close> on a Go map; the entries are kept in the order of first insertion.\<close>

fun bump :: "'k \<Rightarrow> 'v::plus \<Rightarrow> ('k \<times> 'v) list \<Rightarrow> ('k \<times> 'v) list" where
  "bump k v [] = [(k, v)]"
| "bump k v ((k', v') # kvs) = (if k' = k then (k', v' + v) # kvs else (k', v') # bump k v kvs)"

definition bump_all :: "('k \<times> 'v::plus) list \<Rightarrow> ('k \<times> 'v) list \<Rightarrow> ('k \<times> 'v) list" where
  "bump_all us m = fold (\<lambda>(k, v). bump k v) us m"

lemma keys_bump: "fst ` set (bump k v kvs) = insert k (fst ` set kvs)"
proof (induction kvs)
  case (Cons kv kvs)
  then show ?case
    by (cases kv) (simp add: insert_commute)
qed simp

lemma distinct_bump: "distinct (map fst kvs) \<Longrightarrow> distinct (map fst (bump k v kvs))"
  by (induction kvs) (auto simp: keys_bump dest: arg_cong [where f = set])

lemma map_of_bump:
  "map_of (bump k v kvs) j =
     (if j = k then Some (case map_of kvs k of None \<Rightarrow> v | Some v' \<Rightarrow> v' + v) else map_of kvs j)"
  by (induction kvs) auto

lemma bump_all_simps [simp]:
  "bump_all [] m = m"
  "bump_all ((k, v) # us) m = bump_all us (bump k v m)"
  by (simp_all add: bump_all_def)

lemma bump_all_append: "bump_all (us @ ws) m = bump_all ws (bump_all us m)"
  by (simp add: bump_all_def)

lemma distinct_bump_all: "distinct (map fst m) \<Longrightarrow> distinct (map fst (bump_all us m))"
  by (induction us arbitrary: m) (auto simp: distinct_bump)

lemma keys_bump_all: "fst ` set (bump_all us m) = fst ` set us \<union> fst ` set m"
proof (induction us arbitrary: m)
  case (Cons u us)
  then show ?case
    by (cases u) (simp add: keys_bump)
qed simp

text \<open>The value of a key is the sum of what was added to it.\<close>

definition tally :: "'k \<Rightarrow> ('k \<times> 'v::comm_monoid_add) list \<Rightarrow> 'v" where
  "tally k us = sum_list (map snd (filter (\<lambda>u. fst u = k) us))"

lemma tally_simps [simp]:
  "tally k [] = 0"
  "tally k ((j, v) # us) = (if j = k then v + tally k us else tally k us)"
  "tally k (us @ ws) = tally k us + tally k ws"
  by (simp_all add: tally_def)

lemma map_of_bump_all:
  "map_of (bump_all us m) k =
     (if k \<in> fst ` set us \<union> fst ` set m
      then Some ((case map_of m k of None \<Rightarrow> 0 | Some v \<Rightarrow> v) + tally k us) else None)"
proof (induction us arbitrary: m)
  case Nil
  then show ?case
    by (cases "map_of m k") (force simp: map_of_eq_None_iff dest: map_of_SomeD)+
next
  case (Cons u us)
  obtain j v where u: "u = (j, v)" by (cases u)
  have m: "map_of m k = None" if "k \<notin> fst ` set m"
    using that by (simp add: map_of_eq_None_iff)
  have m': "k \<in> fst ` set m" if "map_of m k = Some x" for x
    using that by (force dest: map_of_SomeD)
  show ?case
    unfolding u bump_all_simps Cons
    by (cases "map_of m k"; cases "j = k") (use m m' in \<open>auto simp: map_of_bump keys_bump add.assoc\<close>)
qed

lemma tally_perm: "mset us = mset ws \<Longrightarrow> tally k us = tally k ws"
proof -
  assume "mset us = mset ws"
  then have "mset (map snd (filter (\<lambda>u. fst u = k) us)) = mset (map snd (filter (\<lambda>u. fst u = k) ws))"
    by simp
  then show ?thesis
    unfolding tally_def by (metis sum_mset_sum_list)
qed

lemma tally_zero: "k \<notin> fst ` set us \<Longrightarrow> tally k us = 0"
  by (induction us) auto

section \<open>Ranking\<close>

definition hits_of :: "(string \<times> real) list \<Rightarrow> hit list" where
  "hits_of m = map (\<lambda>(c, s). Hit c s) m"

text \<open>\<open>if k > 0 && k < len(hits) { hits = hits[:k] }\<close>\<close>

definition topk :: "int \<Rightarrow> 'a list \<Rightarrow> 'a list" where
  "topk k xs = (if 0 < k \<and> k < int (length xs) then take (nat k) xs else xs)"

definition ids :: "hit list \<Rightarrow> string list" where
  "ids hs = map ChunkID hs"

lemma ids_hits_of [simp]: "ids (hits_of m) = map fst m"
  by (induction m) (auto simp: ids_def hits_of_def)

lemma set_hits_of: "set (hits_of m) = {Hit c s |c s. (c, s) \<in> set m}"
  by (force simp: hits_of_def)

lemma topk_length: "0 < k \<Longrightarrow> int (length (topk k xs)) \<le> k"
  by (simp add: topk_def)

lemma set_topk: "set (topk k xs) \<subseteq> set xs"
  by (auto simp: topk_def dest: in_set_takeD)

lemma topk_take: "\<exists>n. topk k xs = take n xs"
  by (auto simp: topk_def intro: exI [where x = "length xs"])

lemma sorted_topk: "sorted xs \<Longrightarrow> sorted (topk k xs)"
  by (simp add: topk_def sorted_wrt_take)

lemma distinct_ids_topk: "distinct (ids xs) \<Longrightarrow> distinct (ids (topk k xs))"
  by (simp add: topk_def ids_def take_map [symmetric])

lemma distinct_ids_sort: "distinct (ids (sort xs)) = distinct (ids xs)"
  unfolding ids_def by (metis distinct_map list.map_cong mset_map mset_sort mset_eq_imp_distinct_iff)

text \<open>What is kept comes before everything that is cut off.\<close>

lemma topk_best:
  assumes "sorted xs" and "x \<in> set (topk k xs)" and "y \<in> set xs" and "y \<notin> set (topk k xs)"
  shows "x \<le> (y :: 'a::linorder)"
proof -
  obtain n where n: "topk k xs = take n xs"
    using topk_take by blast
  have "y \<in> set (drop n xs)"
    using assms(3,4) n by (metis Un_iff append_take_drop_id set_append)
  moreover have "sorted (take n xs @ drop n xs)"
    using assms(1) by simp
  ultimately show ?thesis
    using assms(2) n unfolding sorted_append by simp
qed

text \<open>The ranking does not depend on the order in which the map was iterated.\<close>

lemma sort_perm: "mset xs = mset ys \<Longrightarrow> sort xs = sort (ys :: 'a::linorder list)"
  by (metis sorted_list_of_multiset_mset)

lemma mset_hits_of: "mset m = mset m' \<Longrightarrow> mset (hits_of m) = mset (hits_of m')"
  by (simp add: hits_of_def)

lemma mset_eq_map_of:
  assumes "distinct (map fst m)" and "distinct (map fst m')" and "map_of m = map_of m'"
  shows "mset m = mset m'"
proof -
  have "set m = set m'"
    using assms by (metis map_of_eqI map_of_inject_set map_of_eq_None_iff)
  then show ?thesis
    using assms(1,2) by (metis distinct_map set_eq_iff_mset_eq_distinct)
qed

section \<open>Keyed entries\<close>

text \<open>Adding under distinct keys only collects the entries.\<close>

lemma bump_fresh: "k \<notin> fst ` set m \<Longrightarrow> bump k v m = m @ [(k, v)]"
  by (induction m) auto

lemma bump_all_distinct_append:
  "distinct (map fst us) \<Longrightarrow> fst ` set us \<inter> fst ` set m = {} \<Longrightarrow> bump_all us m = m @ us"
proof (induction us arbitrary: m)
  case (Cons x us)
  obtain k v where x: "x = (k, v)" by (cases x)
  have "bump_all us (m @ [(k, v)]) = (m @ [(k, v)]) @ us"
    using Cons.prems by (intro Cons.IH) (auto simp: x)
  moreover have "k \<notin> fst ` set m"
    using Cons.prems by (auto simp: x)
  ultimately show ?case
    by (simp add: x bump_fresh)
qed simp

lemma bump_all_distinct: "distinct (map fst us) \<Longrightarrow> bump_all us [] = us"
  by (simp add: bump_all_distinct_append)

text \<open>
  Entries of a store turned into entries of an index: \<open>g\<close> reads the identifier from the key and
  \<open>key\<close> builds the key of an identifier.
\<close>

lemma keyed_entries:
  assumes "distinct (map fst kvs)"
    and "\<forall>k \<in> fst ` set kvs. \<forall>i. g k = Some i \<longleftrightarrow> k = key i \<and> Q i"
  shows "distinct (map fst (concat (map (\<lambda>(k, v). case g k of None \<Rightarrow> [] | Some i \<Rightarrow> [(i, h v)]) kvs))) \<and>
    map_of (concat (map (\<lambda>(k, v). case g k of None \<Rightarrow> [] | Some i \<Rightarrow> [(i, h v)]) kvs)) i =
      (if Q i then map_option h (map_of kvs (key i)) else None)"
  using assms
proof (induction kvs)
  case Nil
  then show ?case by simp
next
  case (Cons kv kvs)
  obtain k v where kv: "kv = (k, v)" by (cases kv)
  define L where "L = concat (map (\<lambda>(k, v). case g k of None \<Rightarrow> [] | Some i \<Rightarrow> [(i, h v)]) kvs)"
  have IH: "distinct (map fst L)" "map_of L i = (if Q i then map_option h (map_of kvs (key i)) else None)"
    using Cons by (auto simp: L_def)
  have g: "g k = Some j \<longleftrightarrow> k = key j \<and> Q j" for j
    using Cons.prems(2) kv by simp
  have fresh: "j \<notin> fst ` set L" if "g k = Some j" for j
  proof
    assume "j \<in> fst ` set L"
    then obtain k' where "k' \<in> fst ` set kvs" "g k' = Some j"
      by (force simp: L_def split: option.splits)
    then show False
      using that g Cons.prems kv by auto
  qed
  have none: "map_of kvs k = None"
    using Cons.prems(1) kv by (simp add: map_of_eq_None_iff)
  show ?case
  proof (cases "g k")
    case None
    then have "\<not> (k = key i \<and> Q i)"
      using g [of i] by simp
    then show ?thesis
      using None IH by (auto simp: kv L_def [symmetric])
  next
    case (Some j)
    then have "k = key j" "Q j"
      using g by auto
    moreover have "k = key i \<and> Q i \<longleftrightarrow> i = j"
      using g [of i] Some by auto
    ultimately show ?thesis
      using Some IH fresh [OF Some] none by (auto simp: kv L_def [symmetric])
  qed
qed

end
