(* ===== verification/Fts.thy ===== *)
theory Fts
  imports Pebble_Store Utf8 Ranking
begin

text \<open>
  The BM25 full-text index: \<open>internal/index/fts.go\<close>. Postings, the set of indexed chunks and the
  statistics are keys of the store; the only state in memory is the IDF cache. Scores are real
  numbers; the term frequencies that are stored are sums of the integral field weights and are
  natural numbers until they are read back. A Go map is a list of its entries; the orders in which
  the code iterates over maps do not matter, which the properties show where results depend on them.
\<close>

record fts =
  idfCache :: "string \<rightharpoonup> real"

definition NewFTS :: fts where
  "NewFTS = \<lparr>idfCache = Map.empty\<rparr>"

section \<open>Tokens\<close>

definition isStopword :: "string \<Rightarrow> bool" where
  "isStopword w \<longleftrightarrow> w \<in> set
     [''the'', ''a'', ''an'', ''and'', ''or'', ''but'', ''of'', ''to'', ''in'', ''on'', ''for'',
      ''is'', ''are'', ''was'', ''were'', ''be'', ''been'', ''with'', ''as'', ''at'', ''by'',
      ''this'', ''that'', ''it'', ''from'']"

definition flush_word :: "string \<Rightarrow> string list \<Rightarrow> string list" where
  "flush_word b out = (if b \<noteq> [] \<and> \<not> isStopword b then out @ [b] else out)"

fun tokenize_loop :: "unicode \<Rightarrow> nat list \<Rightarrow> string \<Rightarrow> string list \<Rightarrow> string list" where
  "tokenize_loop u [] b out = flush_word b out"
| "tokenize_loop u (r # rs) b out =
     (if u_letter u r \<or> u_digit u r then tokenize_loop u rs (b @ EncodeRune r) out
      else tokenize_loop u rs [] (flush_word b out))"

definition Tokenize :: "unicode \<Rightarrow> string \<Rightarrow> string list" where
  "Tokenize u s = tokenize_loop u (runes (ToLower u s)) [] []"

section \<open>Encodings\<close>

definition fieldWeight :: "string \<Rightarrow> nat" where
  "fieldWeight field =
     (if field = ''title'' then 3 else if field = ''heading'' \<or> field = ''headings'' then 2 else 1)"

text \<open>
  \<open>math.Float32bits(float32(n))\<close> of a natural number: below \<open>2 ^ 24\<close> it is exact, above the
  fraction is rounded to the nearest, ties to even (a carry moves into the exponent).
\<close>

function bit_length :: "nat \<Rightarrow> nat" where
  "bit_length n = (if n = 0 then 0 else Suc (bit_length (n div 2)))"
  by pat_completeness auto
termination by (relation "measure id") auto

declare bit_length.simps [simp del]

definition Float32bits :: "nat \<Rightarrow> nat" where
  "Float32bits n =
     (if n = 0 then 0
      else
        let e = bit_length n - 1;
            q = (if e \<le> 23 then n * 2 ^ (23 - e)
                 else let d = 2 ^ (e - 23); q = n div d; r = n mod d
                      in if d < 2 * r \<or> (2 * r = d \<and> odd q) then q + 1 else q)
        in (e + 127) * 2 ^ 23 + (q - 2 ^ 23))"

definition Float32frombits :: "nat \<Rightarrow> real" where
  "Float32frombits b =
     (let s = (if b div 2 ^ 31 mod 2 = 1 then -1 else 1);
          e = b div 2 ^ 23 mod 2 ^ 8;
          f = b mod 2 ^ 23
      in if e = 0 then s * real f / 2 ^ 149
         else if e = 255 then 0
         else s * real (2 ^ 23 + f) * 2 ^ e / 2 ^ 150)"

definition encodePosting :: "nat \<Rightarrow> nat \<Rightarrow> bytes" where
  "encodePosting tf docLen = le_bytes 4 (Float32bits tf) @ le_bytes 2 docLen"

definition decodePosting :: "bytes \<Rightarrow> real \<times> nat" where
  "decodePosting buf =
     (if length buf < 6 then (0, 0)
      else (Float32frombits (le_value (take 4 buf)), le_value (take 2 (drop 4 buf))))"

definition chunkIDFromKey :: "bytes \<Rightarrow> string" where
  "chunkIDFromKey key = bytes_str (drop 1 (dropWhile (\<lambda>b. b \<noteq> 0) (drop 9 key)))"

record globalStats =
  gs_N :: "64 word"
  gs_TotalLen :: "64 word"

definition encodeStats :: "globalStats \<Rightarrow> bytes" where
  "encodeStats s = le_bytes 8 (unat (gs_N s)) @ le_bytes 8 (unat (gs_TotalLen s))"

definition decodeStats :: "bytes \<Rightarrow> globalStats" where
  "decodeStats buf =
     (if length buf < 16 then \<lparr>gs_N = 0, gs_TotalLen = 0\<rparr>
      else \<lparr>gs_N = word_of_nat (le_value (take 8 buf)),
            gs_TotalLen = word_of_nat (le_value (take 8 (drop 8 buf)))\<rparr>)"

definition readStats :: "'db pebble_ops \<Rightarrow> 'db \<Rightarrow> ws \<Rightarrow> globalStats" where
  "readStats P d ws =
     (case pb_get P d (FTSGlobalStatsKey ws) of
        Inr (Some val) \<Rightarrow> decodeStats val
      | _ \<Rightarrow> \<lparr>gs_N = 0, gs_TotalLen = 0\<rparr>)"

definition writeStats :: "ws \<Rightarrow> kv_op list \<Rightarrow> globalStats \<Rightarrow> kv_op list" where
  "writeStats ws b s = b @ [KSet (FTSGlobalStatsKey ws) (encodeStats s)]"

section \<open>Indexing\<close>

text \<open>A commit whose error the code drops: on failure the store stays as it was.\<close>

definition commit_ignored :: "'db pebble_ops \<Rightarrow> 'db \<Rightarrow> kv_op list \<Rightarrow> 'db" where
  "commit_ignored P d ops = (case pb_commit P d ops of Inr d' \<Rightarrow> d' | Inl _ \<Rightarrow> d)"

text \<open>What every term of the fields adds, and the resulting counts.\<close>

definition field_updates :: "unicode \<Rightarrow> (string \<times> string) list \<Rightarrow> (string \<times> nat) list" where
  "field_updates u flds =
     concat (map (\<lambda>(field, text). map (\<lambda>term. (term, fieldWeight field)) (Tokenize u text)) flds)"

definition term_counts :: "unicode \<Rightarrow> (string \<times> string) list \<Rightarrow> (string \<times> nat) list" where
  "term_counts u flds = bump_all (field_updates u flds) []"

definition doc_len :: "unicode \<Rightarrow> (string \<times> string) list \<Rightarrow> nat" where
  "doc_len u flds = length (field_updates u flds)"

definition posting_ops :: "ws \<Rightarrow> string \<Rightarrow> nat \<Rightarrow> (string \<times> nat) list \<Rightarrow> kv_op list" where
  "posting_ops ws chunkID docLen counts =
     map (\<lambda>(term, tf). KSet (FTSPostingKey ws term chunkID) (encodePosting tf docLen)) counts"

definition FTS_Index ::
    "'db pebble_ops \<Rightarrow> unicode \<Rightarrow> ws \<Rightarrow> string \<Rightarrow> (string \<times> string) list \<Rightarrow> 'db \<times> fts \<Rightarrow> 'db \<times> fts" where
  "FTS_Index P u ws chunkID flds s =
     (case s of (d, f) \<Rightarrow>
       let idxKey = FTSIndexedKey ws chunkID in
       case pb_get P d idxKey of
         Inr (Some _) \<Rightarrow> (d, f)
       | _ \<Rightarrow>
           let termCounts = term_counts u flds;
               docLen = doc_len u flds
           in if termCounts = [] then (d, f)
              else
                let batch = posting_ops ws chunkID docLen termCounts @
                      [KSet idxKey (take 2 (drop 4 (encodePosting 0 docLen)))];
                    st = readStats P d ws;
                    st' = \<lparr>gs_N = gs_N st + 1, gs_TotalLen = gs_TotalLen st + word_of_nat docLen\<rparr>
                in (commit_ignored P d (writeStats ws batch st'), f\<lparr>idfCache := Map.empty\<rparr>))"

definition FTS_Delete ::
    "'db pebble_ops \<Rightarrow> unicode \<Rightarrow> ws \<Rightarrow> string \<Rightarrow> string \<Rightarrow> 'db \<times> fts \<Rightarrow> 'db \<times> fts" where
  "FTS_Delete P u ws chunkID content s =
     (case s of (d, f) \<Rightarrow>
       let idxKey = FTSIndexedKey ws chunkID in
       case pb_get P d idxKey of
         Inr (Some val) \<Rightarrow>
           let docLen = (if 2 \<le> length val then le_value (take 2 val) else 0);
               terms = remdups (Tokenize u content);
               batch = map (\<lambda>term. KDelete (FTSPostingKey ws term chunkID)) terms @ [KDelete idxKey];
               st = readStats P d ws;
               n' = (if 0 < gs_N st then gs_N st - 1 else gs_N st);
               l' = (if word_of_nat docLen \<le> gs_TotalLen st then gs_TotalLen st - word_of_nat docLen
                     else gs_TotalLen st)
           in (commit_ignored P d (writeStats ws batch \<lparr>gs_N = n', gs_TotalLen = l'\<rparr>),
               f\<lparr>idfCache := Map.empty\<rparr>)
       | _ \<Rightarrow> (d, f))"

section \<open>Searching\<close>

definition idfCacheKey :: "ws \<Rightarrow> string \<Rightarrow> string" where
  "idfCacheKey ws term = bytes_str ws @ term"

definition postingTermUpperBound :: "ws \<Rightarrow> string \<Rightarrow> bytes" where
  "postingTermUpperBound ws term = FTSPostingTermPrefix ws term @ [0x01]"

definition prefixRangeUpperBound :: "bytes \<Rightarrow> bytes option" where
  "prefixRangeUpperBound lower =
     (let upper = butlast lower @ [last lower + 1]
      in if last upper = 0 then None else Some upper)"

definition cachedIDF :: "fts \<Rightarrow> ws \<Rightarrow> string \<Rightarrow> real \<Rightarrow> real \<Rightarrow> real \<times> fts" where
  "cachedIDF f ws term n df =
     (let cacheKey = idfCacheKey ws term in
      case idfCache f cacheKey of
        Some idf \<Rightarrow> (idf, f)
      | None \<Rightarrow>
          let idf = ln (1 + (n - df + 1 / 2) / (df + 1 / 2))
          in (idf, f\<lparr>idfCache := (idfCache f)(cacheKey \<mapsto> idf)\<rparr>))"

definition scan_step :: "string \<Rightarrow> bytes \<times> bytes \<Rightarrow> (string \<times> real) list" where
  "scan_step knownTerm kv =
     (case kv of (key, val) \<Rightarrow>
       let off = 9 + length knownTerm + 1;
           chunkID = (if knownTerm \<noteq> [] then (if off < length key then bytes_str (drop off key) else [])
                      else chunkIDFromKey key)
       in if chunkID = [] then [] else [(chunkID, fst (decodePosting val))])"

definition scanRange ::
    "'db pebble_ops \<Rightarrow> 'db \<Rightarrow> bytes \<Rightarrow> bytes \<Rightarrow> string \<Rightarrow> (string \<times> real) list" where
  "scanRange P d lower upper knownTerm =
     (case pb_iter P d (Some lower) (Some upper) of
        Inl _ \<Rightarrow> []
      | Inr (kvs, _) \<Rightarrow> bump_all (concat (map (scan_step knownTerm) kvs)) [])"

definition scanTerm :: "'db pebble_ops \<Rightarrow> 'db \<Rightarrow> ws \<Rightarrow> string \<Rightarrow> (string \<times> real) list" where
  "scanTerm P d ws term =
     scanRange P d (FTSPostingTermPrefix ws term) (postingTermUpperBound ws term) term"

definition scanPrefix :: "'db pebble_ops \<Rightarrow> 'db \<Rightarrow> ws \<Rightarrow> string \<Rightarrow> (string \<times> real) list" where
  "scanPrefix P d ws prefix =
     (if prefix = [] then []
      else
        let lower = FTSPostingTermPrefix ws prefix in
        case prefixRangeUpperBound lower of
          None \<Rightarrow> []
        | Some upper \<Rightarrow> scanRange P d lower upper [])"

definition docLenOf :: "'db pebble_ops \<Rightarrow> 'db \<Rightarrow> ws \<Rightarrow> string \<Rightarrow> real" where
  "docLenOf P d ws chunkID =
     (case pb_get P d (FTSIndexedKey ws chunkID) of
        Inr (Some val) \<Rightarrow> if 2 \<le> length val then real (le_value (take 2 val)) else 0
      | _ \<Rightarrow> 0)"

definition bm25_term :: "real \<Rightarrow> real \<Rightarrow> real \<Rightarrow> real \<Rightarrow> real" where
  "bm25_term idf tf dl avgDL =
     (let k1 = 6 / 5; b = 3 / 4; denom = tf + k1 * (1 - b + b * dl / avgDL)
      in idf * (tf * (k1 + 1)) / denom)"

text \<open>What one query term adds to the scores.\<close>

definition term_scores ::
    "'db pebble_ops \<Rightarrow> 'db \<Rightarrow> ws \<Rightarrow> real \<Rightarrow> real \<Rightarrow> fts \<Rightarrow> string \<Rightarrow> (string \<times> real) list \<times> fts" where
  "term_scores P d ws n avgDL f term =
     (let posts0 = scanTerm P d ws term;
          posts = (if posts0 = [] \<and> length term < 4 then scanPrefix P d ws term else posts0)
      in if posts = [] then ([], f)
         else
           let (idf, f') = cachedIDF f ws term n (real (length posts))
           in (map (\<lambda>(chunkID, tf).
                 let dl0 = docLenOf P d ws chunkID; dl = (if dl0 = 0 then avgDL else dl0)
                 in (chunkID, bm25_term idf tf dl avgDL)) posts, f'))"

fun search_loop ::
    "'db pebble_ops \<Rightarrow> 'db \<Rightarrow> ws \<Rightarrow> real \<Rightarrow> real \<Rightarrow> string list \<Rightarrow> (string \<times> real) list \<Rightarrow> fts \<Rightarrow>
     (string \<times> real) list \<times> fts" where
  "search_loop P d ws n avgDL [] scores f = (scores, f)"
| "search_loop P d ws n avgDL (term # terms) scores f =
     (let (us, f') = term_scores P d ws n avgDL f term
      in search_loop P d ws n avgDL terms (bump_all us scores) f')"

definition FTS_Search ::
    "'db pebble_ops \<Rightarrow> unicode \<Rightarrow> 'db \<Rightarrow> ws \<Rightarrow> string \<Rightarrow> int \<Rightarrow> fts \<Rightarrow> hit list \<times> fts" where
  "FTS_Search P u d ws query k f =
     (let terms = Tokenize u query in
      if terms = [] then ([], f)
      else
        let st = readStats P d ws;
            n = real (unat (gs_N st));
            avgDL = (if 0 < gs_N st then real (unat (gs_TotalLen st)) / n else 0);
            (scores, f') = search_loop P d ws n avgDL terms [] f
        in (topk k (sort (hits_of scores)), f'))"

section \<open>Migration of chunks stored before the index\<close>

definition migrate_ops :: "unicode \<Rightarrow> ws \<Rightarrow> string \<Rightarrow> string \<Rightarrow> kv_op list" where
  "migrate_ops u ws chunkID content =
     (let terms = Tokenize u content;
          termCounts = bump_all (map (\<lambda>t. (t, 1)) terms) [];
          docLen = length terms
      in posting_ops ws chunkID docLen termCounts @
         [KSet (FTSIndexedKey ws chunkID) (take 2 (drop 4 (encodePosting 0 docLen)))])"

record 'db migrate_st =
  ms_db :: 'db
  ms_batch :: "kv_op list"
  ms_n :: "64 word"
  ms_totalLen :: "64 word"
  ms_count :: nat

definition migrate_chunk ::
    "'db pebble_ops \<Rightarrow> unicode \<Rightarrow> ws \<Rightarrow> string \<times> string \<Rightarrow> 'db migrate_st \<Rightarrow> 'db migrate_st" where
  "migrate_chunk P u ws c s =
     (case c of (chunkID, content) \<Rightarrow>
       if Tokenize u content = [] then s
       else
         let batch = ms_batch s @ migrate_ops u ws chunkID content;
             s' = s\<lparr>ms_batch := batch, ms_n := ms_n s + 1,
                    ms_totalLen := ms_totalLen s + word_of_nat (length (Tokenize u content)),
                    ms_count := ms_count s + 1\<rparr>
         in if 256 \<le> ms_count s' then s'\<lparr>ms_db := commit_ignored P (ms_db s') batch, ms_batch := []\<rparr>
            else s')"

definition MigrateFromChunks ::
    "'db pebble_ops \<Rightarrow> unicode \<Rightarrow> 'db \<Rightarrow> ws \<Rightarrow> (string \<times> string) list \<Rightarrow> 'db" where
  "MigrateFromChunks P u d ws chunks =
     (let s = fold (migrate_chunk P u ws) chunks
            \<lparr>ms_db = d, ms_batch = [], ms_n = 0, ms_totalLen = 0, ms_count = 0\<rparr>
      in commit_ignored P (ms_db s)
           (writeStats ws (ms_batch s) \<lparr>gs_N = ms_n s, gs_TotalLen = ms_totalLen s\<rparr>))"

definition HasPostings :: "'db pebble_ops \<Rightarrow> 'db \<Rightarrow> ws \<Rightarrow> bool" where
  "HasPostings P d ws =
     (case pb_get P d (FTSGlobalStatsKey ws) of Inr (Some val) \<Rightarrow> 16 \<le> length val | _ \<Rightarrow> False)"

section \<open>Tokens carry no separator\<close>

definition word_char :: "unicode \<Rightarrow> char \<Rightarrow> bool" where
  "word_char u c \<longleftrightarrow> (of_char c :: nat) < 0x80 \<longrightarrow> u_letter u (of_char c) \<or> u_digit u (of_char c)"

definition token_ok :: "unicode \<Rightarrow> string \<Rightarrow> bool" where
  "token_ok u w \<longleftrightarrow> w \<noteq> [] \<and> \<not> isStopword w \<and> (\<forall>c \<in> set w. word_char u c)"

lemma word_char_EncodeRune:
  "u_letter u r \<or> u_digit u r \<Longrightarrow> c \<in> set (EncodeRune r) \<Longrightarrow> word_char u c"
  using EncodeRune_ascii_byte [of c r] by (auto simp: word_char_def)

lemma flush_word_ok:
  "\<forall>c \<in> set b. word_char u c \<Longrightarrow> \<forall>w \<in> set out. token_ok u w \<Longrightarrow>
   \<forall>w \<in> set (flush_word b out). token_ok u w"
  by (auto simp: flush_word_def token_ok_def)

lemma tokenize_loop_ok:
  "\<forall>c \<in> set b. word_char u c \<Longrightarrow> \<forall>w \<in> set out. token_ok u w \<Longrightarrow>
   \<forall>w \<in> set (tokenize_loop u rs b out). token_ok u w"
proof (induction u rs b out rule: tokenize_loop.induct)
  case (1 u b out)
  then show ?case by (simp add: flush_word_ok)
next
  case (2 u r rs b out)
  show ?case
  proof (cases "u_letter u r \<or> u_digit u r")
    case True
    then have "\<forall>c \<in> set (b @ EncodeRune r). word_char u c"
      using 2(3) word_char_EncodeRune by auto
    then show ?thesis
      using 2(1) True 2(4) by simp
  next
    case False
    then show ?thesis
      using 2(2) flush_word_ok [OF 2(3,4)] by simp
  qed
qed

lemma Tokenize_ok: "w \<in> set (Tokenize u s) \<Longrightarrow> token_ok u w"
  using tokenize_loop_ok [of "[]" u "[]"] by (auto simp: Tokenize_def)

abbreviation NUL :: char where "NUL \<equiv> CHR 0x00"

lemma token_no_NUL: "unicode_ascii u \<Longrightarrow> token_ok u w \<Longrightarrow> NUL \<notin> set w"
  by (force simp: token_ok_def word_char_def unicode_ascii_def)

section \<open>Posting keys\<close>

lemma byte_of_char_0 [simp]: "byte_of_char c = 0 \<longleftrightarrow> c = NUL"
proof
  assume "byte_of_char c = 0"
  then have "char_of_byte (byte_of_char c) = char_of_byte 0"
    by simp
  moreover have "char_of_byte 0 = NUL"
    by (simp add: char_of_byte_def char_of_def)
  ultimately show "c = NUL"
    by simp
qed (simp add: byte_of_char_def)

lemma zero_in_str_bytes [simp]: "0 \<in> set (str_bytes s) \<longleftrightarrow> NUL \<in> set s"
  by (force simp: str_bytes_def)

text \<open>Splitting at the first separator.\<close>

lemma separated_inject:
  assumes "x \<notin> set a" and "x \<notin> set b"
  shows "a @ x # c = b @ x # d \<longleftrightarrow> a = b \<and> c = d"
  using assms
proof (induction a arbitrary: b)
  case Nil
  then show ?case by (cases b) auto
next
  case (Cons y a)
  then show ?case by (cases b) auto
qed

lemma FTSPostingKey_inject:
  assumes "NUL \<notin> set t" and "NUL \<notin> set t'" and "is_ws ws" and "is_ws ws'"
  shows "FTSPostingKey ws t c = FTSPostingKey ws' t' c' \<longleftrightarrow> ws = ws' \<and> t = t' \<and> c = c'"
  using assms separated_inject [of "0 :: byte" "str_bytes t" "str_bytes t'" "str_bytes c" "str_bytes c'"]
  by (auto simp: vault_scoped_shapes vaultScoped_inject)

lemma fts_keys_distinct [simp]:
  "FTSPostingKey ws t c \<noteq> FTSIndexedKey ws' i" "FTSIndexedKey ws' i \<noteq> FTSPostingKey ws t c"
  "FTSPostingKey ws t c \<noteq> FTSGlobalStatsKey ws'" "FTSGlobalStatsKey ws' \<noteq> FTSPostingKey ws t c"
  "FTSIndexedKey ws' i \<noteq> FTSGlobalStatsKey ws" "FTSGlobalStatsKey ws \<noteq> FTSIndexedKey ws' i"
  by (auto simp: raw_key_defs FTSIndexedKey_def)

text \<open>The range of a term: its prefix alone, or the prefix followed by the separator.\<close>

lemma in_range_below_1:
  fixes L :: bytes
  shows "in_range L (L @ [1]) k \<longleftrightarrow> k = L \<or> (\<exists>r. k = L @ 0 # r)"
proof (induction L arbitrary: k)
  case Nil
  have "(b :: byte) < 1 \<longleftrightarrow> b = 0" for b
    by (auto simp: word_less_nat_alt word_unat_eq_iff)
  then show ?case
    by (cases k) (auto simp: in_range_def)
next
  case (Cons x L)
  show ?case
  proof (cases k)
    case Nil
    then show ?thesis by (simp add: in_range_def)
  next
    case (Cons y k')
    then show ?thesis
      using Cons.IH [of k'] by (auto simp: in_range_Cons)
  qed
qed

lemma term_range:
  "in_range (FTSPostingTermPrefix ws t) (postingTermUpperBound ws t) k \<longleftrightarrow>
   k = FTSPostingTermPrefix ws t \<or> (\<exists>c. k = FTSPostingKey ws t c)"
proof -
  have "(\<exists>r. k = FTSPostingTermPrefix ws t @ 0 # r) \<longleftrightarrow> (\<exists>c. k = FTSPostingKey ws t c)"
    by (auto simp: FTSPostingKey_def FTSPostingTermPrefix_def) (metis str_bytes_bytes_str)
  then show ?thesis
    by (simp add: postingTermUpperBound_def in_range_below_1)
qed

definition stored_tf :: "contents \<Rightarrow> ws \<Rightarrow> string \<Rightarrow> string \<rightharpoonup> real" where
  "stored_tf m ws t c =
     (if c = [] then None else map_option (fst \<circ> decodePosting) (m (FTSPostingKey ws t c)))"

context pebble
begin

lemma reliable_commit: "reliable P \<Longrightarrow> view (commit_ignored P d ops) = apply_batch ops (view d)"
  unfolding reliable_def commit_ignored_def by (metis commit_view sum.simps(6))

text \<open>The scan of a term returns exactly its stored postings.\<close>

lemma scanTerm_stored:
  assumes "reliable P" and "is_ws ws" and "t \<noteq> []"
  shows "distinct (map fst (scanTerm P d ws t)) \<and> map_of (scanTerm P d ws t) c = stored_tf (view d) ws t c"
proof -
  let ?L = "FTSPostingTermPrefix ws t" and ?U = "postingTermUpperBound ws t"
  let ?off = "9 + length t + 1"
  let ?g = "\<lambda>k. if ?off < length k then Some (bytes_str (drop ?off k)) else None"
  obtain kvs where kvs: "pb_iter P d (Some ?L) (Some ?U) = Inr (kvs, None)"
    using assms(1) unfolding reliable_def by blast
  have dist: "distinct (map fst kvs)" and set: "set kvs = {(k, v). in_range ?L ?U k \<and> view d k = Some v}"
    using iter_view [OF kvs] by (auto simp: strict_sorted_iff)
  have steps: "map (scan_step t) kvs =
      map (\<lambda>(k, v). case ?g k of None \<Rightarrow> [] | Some i \<Rightarrow> [(i, (fst \<circ> decodePosting) v)]) kvs"
    using assms(3) by (auto simp: scan_step_def Let_def bytes_str_def split: option.split)
  have keys: "\<forall>k \<in> fst ` set kvs. \<forall>i. ?g k = Some i \<longleftrightarrow> k = FTSPostingKey ws t i \<and> i \<noteq> []"
  proof (intro ballI allI)
    fix k i
    assume "k \<in> fst ` set kvs"
    then consider "k = ?L" | c where "k = FTSPostingKey ws t c"
      using set by (auto simp: term_range)
    then show "?g k = Some i \<longleftrightarrow> k = FTSPostingKey ws t i \<and> i \<noteq> []"
    proof cases
      case 1
      then show ?thesis
        using assms(2) by (auto simp: FTSPostingTermPrefix_def FTSPostingKey_def is_ws_def)
    next
      case 2
      then have k: "k = (5 # ws @ str_bytes t @ [0]) @ str_bytes c"
        by (simp add: FTSPostingKey_def)
      moreover have "?off = length (5 # ws @ str_bytes t @ [0])"
        using assms(2) by (simp add: is_ws_def)
      ultimately have "length k = ?off + length c" "drop ?off k = str_bytes c"
        by (simp_all only: length_append append_eq_conv_conj [THEN iffD1, OF refl] length_str_bytes)
          (metis append_eq_conv_conj)
      then show ?thesis
        using 2 by (auto simp: FTSPostingKey_def)
    qed
  qed
  note entries = keyed_entries [OF dist keys, of "fst \<circ> decodePosting"]
  have "scanTerm P d ws t = concat (map (scan_step t) kvs)"
    using entries by (simp add: scanTerm_def scanRange_def kvs steps bump_all_distinct)
  moreover have "map_of kvs (FTSPostingKey ws t c) = view d (FTSPostingKey ws t c)"
    using iter_map_of [OF kvs] by (auto simp: term_range)
  ultimately show ?thesis
    using entries by (simp add: steps stored_tf_def)
qed

end

section \<open>What is written is read back\<close>

lemma bit_length_bounds: "0 < n \<Longrightarrow> 0 < bit_length n \<and> 2 ^ (bit_length n - 1) \<le> n \<and> n < 2 ^ bit_length n"
proof (induction n rule: bit_length.induct)
  case (1 n)
  show ?case
  proof (cases "n div 2 = 0")
    case True
    then have "n = 1"
      using 1(2) by auto
    then show ?thesis
      by (simp add: bit_length.simps [of "Suc 0"] bit_length.simps [of 0])
  next
    case False
    then have IH: "0 < bit_length (n div 2)" "2 ^ (bit_length (n div 2) - 1) \<le> n div 2"
      "n div 2 < 2 ^ bit_length (n div 2)"
      using 1 by auto
    have "bit_length n = Suc (bit_length (n div 2))"
      using 1(2) by (subst bit_length.simps) simp
    moreover have "2 * 2 ^ (bit_length (n div 2) - 1) = (2 :: nat) ^ bit_length (n div 2)"
      using IH(1) by (metis One_nat_def Suc_pred power_Suc)
    ultimately show ?thesis
      using IH(2,3) by simp linarith
  qed
qed

lemma Float32_roundtrip:
  assumes "n < 2 ^ 24"
  shows "Float32bits n < 2 ^ 32 \<and> Float32frombits (Float32bits n) = real n"
proof (cases "n = 0")
  case True
  then show ?thesis
    by (simp add: Float32bits_def Float32frombits_def)
next
  case False
  define e where "e = bit_length n - 1"
  have e: "2 ^ e \<le> n" "n < 2 ^ Suc e"
    using bit_length_bounds [of n] False by (auto simp: e_def)
  have "e < 24"
  proof (rule ccontr)
    assume "\<not> e < 24"
    then have "(2 :: nat) ^ 24 \<le> 2 ^ e"
      by (intro power_increasing) auto
    then show False using e(1) assms by linarith
  qed
  define q where "q = n * 2 ^ (23 - e)"
  have p: "(2 :: nat) ^ e * 2 ^ (23 - e) = 2 ^ 23"
    using \<open>e < 24\<close> by (simp add: power_add [symmetric])
  have q: "2 ^ 23 \<le> q" "q < 2 ^ 24"
  proof -
    show "2 ^ 23 \<le> q"
      using e(1) p by (metis q_def mult_le_mono1)
    have "q < 2 ^ Suc e * 2 ^ (23 - e)"
      using e(2) by (simp add: q_def)
    then show "q < 2 ^ 24"
      using p by simp
  qed
  have bits: "Float32bits n = (e + 127) * 2 ^ 23 + (q - 2 ^ 23)"
    using False \<open>e < 24\<close> unfolding Float32bits_def Let_def e_def [symmetric] q_def by simp
  have f: "q - 2 ^ 23 < 2 ^ 23"
    using q by simp
  have small: "(e + 127) * 2 ^ 23 + (q - 2 ^ 23) < 2 ^ 31"
    using f \<open>e < 24\<close> by simp
  have fields: "Float32bits n div 2 ^ 31 mod 2 = 0" "Float32bits n div 2 ^ 23 mod 2 ^ 8 = e + 127"
    "Float32bits n mod 2 ^ 23 = q - 2 ^ 23"
    unfolding bits mod_mult_self3 using f small \<open>e < 24\<close> by simp_all
  have "Float32frombits (Float32bits n) = real (2 ^ 23 + (q - 2 ^ 23)) * 2 ^ (e + 127) / 2 ^ 150"
    unfolding Float32frombits_def Let_def fields using \<open>e < 24\<close> by simp
  also have "\<dots> = real n * (2 ^ (23 - e) * 2 ^ (e + 127)) / 2 ^ 150"
    using q by (simp add: q_def)
  also have "\<dots> = real n"
    using \<open>e < 24\<close> by (simp add: power_add [symmetric])
  finally show ?thesis
    using small bits by simp
qed

lemma le_value_append: "le_value (xs @ ys) = le_value xs + 256 ^ length xs * le_value ys"
proof (induction xs)
  case (Cons x xs)
  have snoc: "le_value (z # zs) = le_value zs * 256 + unat z" for z zs
    by (simp add: le_value_def)
  show ?case
    by (simp add: snoc Cons algebra_simps)
qed (simp add: le_value_def)

lemma decode_encode_posting:
  assumes "tf < 2 ^ 24"
  shows "decodePosting (encodePosting tf docLen) = (real tf, docLen mod 65536)"
  using Float32_roundtrip [OF assms]
  by (simp add: decodePosting_def encodePosting_def le_value_le_bytes)

lemma posting_len_bytes [simp]: "take 2 (drop 4 (encodePosting tf docLen)) = le_bytes 2 docLen"
  by (simp add: encodePosting_def)

lemma word64_le: "word_of_nat (le_value (le_bytes 8 (unat (w :: 64 word)))) = w"
proof -
  have "unat w < 256 ^ 8"
    using unsigned_less [of w] by simp
  then show ?thesis
    by (simp add: le_value_le_bytes)
qed

lemma decode_encode_stats [simp]: "decodeStats (encodeStats s) = s"
  by (cases s) (simp add: decodeStats_def encodeStats_def word64_le)

section \<open>Effect of the batches\<close>

lemma apply_sets_other:
  "k \<notin> (\<lambda>x. key (fst x)) ` set us \<Longrightarrow>
   apply_batch (map (\<lambda>(i, v). KSet (key i) (val v)) us) m k = m k"
  by (induction us arbitrary: m) auto

lemma apply_sets:
  assumes "distinct (map fst us)" and "inj_on key (insert i (fst ` set us))"
  shows "apply_batch (map (\<lambda>(i, v). KSet (key i) (val v)) us) m (key i) =
    (case map_of us i of Some v \<Rightarrow> Some (val v) | None \<Rightarrow> m (key i))"
  using assms
proof (induction us arbitrary: m)
  case (Cons x us)
  obtain j v where x: "x = (j, v)" by (cases x)
  have inj: "inj_on key (insert i (fst ` set us))" "key j \<noteq> key i" if "j \<noteq> i"
    using Cons.prems(2) that by (auto simp: x inj_on_def)
  show ?case
  proof (cases "j = i")
    case True
    then have "key i \<notin> (\<lambda>x. key (fst x)) ` set us"
      using Cons.prems by (auto simp: x inj_on_def)
    then show ?thesis
      using True by (simp add: x apply_sets_other)
  next
    case False
    then show ?thesis
      using Cons.IH [OF _ inj(1) [OF False]] Cons.prems(1) inj(2)
      by (simp add: x split: option.split)
  qed
qed simp

lemma apply_deletes:
  "apply_batch (map (\<lambda>i. KDelete (key i)) is) m k = (if k \<in> key ` set is then None else m k)"
  by (induction "is" arbitrary: m) auto

lemma term_counts_facts:
  "distinct (map fst (term_counts u flds))"
  "map_of (term_counts u flds) t =
    (if t \<in> fst ` set (field_updates u flds) then Some (tally t (field_updates u flds)) else None)"
  "term_counts u flds = [] \<longleftrightarrow> field_updates u flds = []"
proof -
  show "distinct (map fst (term_counts u flds))"
    by (simp add: term_counts_def distinct_bump_all)
  show "map_of (term_counts u flds) t =
    (if t \<in> fst ` set (field_updates u flds) then Some (tally t (field_updates u flds)) else None)"
    by (simp add: term_counts_def map_of_bump_all)
  have "fst ` set (term_counts u flds) = fst ` set (field_updates u flds)"
    by (simp add: term_counts_def keys_bump_all)
  then show "term_counts u flds = [] \<longleftrightarrow> field_updates u flds = []"
    by (metis image_is_empty set_empty)
qed

lemma field_terms_ok: "t \<in> fst ` set (field_updates u flds) \<Longrightarrow> token_ok u t"
  by (auto simp: field_updates_def Tokenize_ok)

definition posted :: "unicode \<Rightarrow> (string \<times> string) list \<Rightarrow> string \<Rightarrow> bytes option" where
  "posted u flds t =
     map_option (\<lambda>tf. encodePosting tf (doc_len u flds)) (map_of (term_counts u flds) t)"

text \<open>The contents after \<open>FTS_Index\<close> of a chunk that was not indexed.\<close>

definition index_effect ::
    "unicode \<Rightarrow> ws \<Rightarrow> string \<Rightarrow> (string \<times> string) list \<Rightarrow> globalStats \<Rightarrow> contents \<Rightarrow> contents" where
  "index_effect u ws chunkID flds st m = apply_batch
     (writeStats ws (posting_ops ws chunkID (doc_len u flds) (term_counts u flds) @
        [KSet (FTSIndexedKey ws chunkID) (le_bytes 2 (doc_len u flds))])
        \<lparr>gs_N = gs_N st + 1, gs_TotalLen = gs_TotalLen st + word_of_nat (doc_len u flds)\<rparr>) m"

lemma index_effect_other:
  assumes "\<And>t. t \<in> fst ` set (field_updates u flds) \<Longrightarrow> k \<noteq> FTSPostingKey ws t chunkID"
    and "k \<noteq> FTSIndexedKey ws chunkID" and "k \<noteq> FTSGlobalStatsKey ws"
  shows "index_effect u ws chunkID flds st m k = m k"
proof -
  have "k \<notin> (\<lambda>x. FTSPostingKey ws (fst x) chunkID) ` set (term_counts u flds)"
  proof
    assume "k \<in> (\<lambda>x. FTSPostingKey ws (fst x) chunkID) ` set (term_counts u flds)"
    then obtain t where "t \<in> fst ` set (term_counts u flds)" "k = FTSPostingKey ws t chunkID"
      by blast
    then show False
      using assms(1) by (simp add: term_counts_def keys_bump_all)
  qed
  then show ?thesis
    using assms(2,3)
    by (simp add: index_effect_def writeStats_def posting_ops_def apply_sets_other)
qed

lemma index_effect_posting:
  assumes "unicode_ascii u" and "is_ws ws" and "NUL \<notin> set t"
  shows "index_effect u ws chunkID flds st m (FTSPostingKey ws t c) =
    (if c = chunkID \<and> posted u flds t \<noteq> None then posted u flds t else m (FTSPostingKey ws t c))"
proof (cases "c = chunkID")
  case True
  have ok: "NUL \<notin> set t'" if "t' \<in> fst ` set (term_counts u flds)" for t'
    using that field_terms_ok [of t' u flds] token_no_NUL [OF assms(1)]
    by (auto simp: term_counts_def keys_bump_all)
  have "inj_on (\<lambda>t. FTSPostingKey ws t chunkID) (insert t (fst ` set (term_counts u flds)))"
    using assms(2,3) ok by (auto simp: inj_on_def FTSPostingKey_inject)
  from apply_sets [OF term_counts_facts(1) this, of "\<lambda>tf. encodePosting tf (doc_len u flds)"] show ?thesis
    using True
    by (auto simp: index_effect_def writeStats_def posting_ops_def posted_def split: option.split)
next
  case False
  have "FTSPostingKey ws t c \<noteq> FTSPostingKey ws t' chunkID" if "t' \<in> fst ` set (field_updates u flds)" for t'
    using False assms(2,3) token_no_NUL [OF assms(1) field_terms_ok [OF that]]
    by (simp add: FTSPostingKey_inject)
  then show ?thesis
    using False by (simp add: index_effect_other)
qed

lemma index_effect_indexed:
  "index_effect u ws chunkID flds st m (FTSIndexedKey ws chunkID) = Some (le_bytes 2 (doc_len u flds))"
  "index_effect u ws chunkID flds st m (FTSGlobalStatsKey ws) = Some (encodeStats
     \<lparr>gs_N = gs_N st + 1, gs_TotalLen = gs_TotalLen st + word_of_nat (doc_len u flds)\<rparr>)"
  by (simp_all add: index_effect_def writeStats_def)

section \<open>Effects of the operations\<close>

lemma apply_batch_pointwise: "m k = m' k \<Longrightarrow> apply_batch ops m k = apply_batch ops m' k"
proof (induction ops arbitrary: m m')
  case (Cons op ops)
  have "apply_op op m k = apply_op op m' k"
    using Cons.prems by (cases op) auto
  then have "apply_batch ops (apply_op op m) k = apply_batch ops (apply_op op m') k"
    by (rule Cons.IH)
  then show ?case by simp
qed simp

lemma in_range_next_byte:
  fixes x w :: byte
  assumes "\<And>y. y < w \<longleftrightarrow> y \<le> x"
  shows "in_range (L0 @ [x]) (L0 @ [w]) k \<longleftrightarrow> (\<exists>r. k = L0 @ x # r)"
proof (induction L0 arbitrary: k)
  case Nil
  show ?case
  proof (cases k)
    case Nil
    then show ?thesis by (simp add: in_range_def)
  next
    case (Cons z zs)
    have "in_range [x] [w] (z # zs) \<longleftrightarrow> x \<le> z \<and> z < w"
      by (auto simp: in_range_def)
    then have "in_range [x] [w] (z # zs) \<longleftrightarrow> z = x"
      using assms [of z] by (metis order.antisym order.refl)
    then show ?thesis using Cons by simp
  qed
next
  case (Cons y L0)
  show ?case
  proof (cases k)
    case Nil
    then show ?thesis by (simp add: in_range_def)
  next
    case k: (Cons z k')
    show ?thesis
      unfolding k append_Cons in_range_Cons using Cons.IH [of k'] by blast
  qed
qed

lemma prefix_range:
  assumes "prefixRangeUpperBound L = Some U" and "L \<noteq> []"
  shows "in_range L U k \<longleftrightarrow> hasPrefix k L"
proof -
  obtain L0 x where L: "L = L0 @ [x]"
    using assms(2) by (cases L rule: rev_cases) auto
  then have U: "U = L0 @ [x + 1]" and x: "x + 1 \<noteq> 0"
    using assms(1) by (auto simp: prefixRangeUpperBound_def Let_def split: if_splits)
  have "unat (x + 1) = unat x + 1"
    using x unat_byte_Suc [of x] unfolding byte_plus_one_eq_0 by presburger
  then have "y < x + 1 \<longleftrightarrow> y \<le> x" for y
    unfolding word_less_nat_alt word_le_nat_alt by linarith
  from in_range_next_byte [OF this] show ?thesis
    unfolding L U hasPrefix_iff by simp
qed

lemma bump_all_keys: "c \<in> fst ` set (bump_all us []) \<longleftrightarrow> c \<in> fst ` set us"
  by (simp add: keys_bump_all)

context pebble
begin

lemma Index_view:
  assumes "reliable P" and "view d (FTSIndexedKey ws c) = None"
  shows "view (fst (FTS_Index P u ws c flds (d, f))) =
    (if field_updates u flds = [] then view d
     else index_effect u ws c flds (readStats P d ws) (view d))"
  using assms reliable_get [OF assms(1), of d "FTSIndexedKey ws c"] term_counts_facts(3) [of u flds]
  by (simp add: FTS_Index_def Let_def index_effect_def reliable_commit)

lemma readStats_view:
  "reliable P \<Longrightarrow> readStats P d ws =
    (case view d (FTSGlobalStatsKey ws) of Some val \<Rightarrow> decodeStats val | None \<Rightarrow> \<lparr>gs_N = 0, gs_TotalLen = 0\<rparr>)"
  by (simp add: readStats_def reliable_get)

lemma Delete_view:
  assumes "reliable P" and "view d (FTSIndexedKey ws c) = Some val" and "2 \<le> length val"
    and "readStats P d ws = st" and "0 < gs_N st" and "word_of_nat (le_value (take 2 val)) \<le> gs_TotalLen st"
  shows "view (fst (FTS_Delete P u ws c content (d, f))) k =
    (if k = FTSGlobalStatsKey ws
     then Some (encodeStats \<lparr>gs_N = gs_N st - 1, gs_TotalLen = gs_TotalLen st - word_of_nat (le_value (take 2 val))\<rparr>)
     else if k = FTSIndexedKey ws c \<or> (\<exists>t \<in> set (Tokenize u content). k = FTSPostingKey ws t c) then None
     else view d k)"
  using assms reliable_get [OF assms(1), of d "FTSIndexedKey ws c"]
  by (auto simp: FTS_Delete_def Let_def writeStats_def reliable_commit apply_deletes image_iff)

lemma body_updates: "fst ` set (field_updates u [(''body'', content)]) = set (Tokenize u content)"
  by (force simp: field_updates_def)

lemma Delete_undoes_Index:
  assumes "reliable P" and "view d (FTSIndexedKey ws c) = None"
    and "\<And>t. view d (FTSPostingKey ws t c) = None"
    and "view d (FTSGlobalStatsKey ws) = Some (encodeStats st)"
    and "doc_len u [(''body'', content)] < 65536"
    and "gs_N st + 1 \<noteq> 0" and "unat (gs_TotalLen st) + doc_len u [(''body'', content)] < 2 ^ 64"
  shows "view (fst (FTS_Delete P u ws c content (FTS_Index P u ws c [(''body'', content)] (d, f)))) = view d"
proof (cases "field_updates u [(''body'', content)] = []")
  case True
  let ?s = "FTS_Index P u ws c [(''body'', content)] (d, f)"
  have v: "view (fst ?s) = view d"
    using Index_view [OF assms(1,2)] True by simp
  then have "pb_get P (fst ?s) (FTSIndexedKey ws c) = Inr None"
    using reliable_get [OF assms(1)] assms(2) by simp
  then have "fst (FTS_Delete P u ws c content ?s) = fst ?s"
    by (cases ?s) (simp add: FTS_Delete_def Let_def)
  then show ?thesis using v by simp
next
  case False
  let ?flds = "[(''body'', content)]" and ?n = "doc_len u [(''body'', content)]"
  obtain d1 f1 where s1: "FTS_Index P u ws c ?flds (d, f) = (d1, f1)"
    by (cases "FTS_Index P u ws c ?flds (d, f)")
  have st: "readStats P d ws = st"
    using readStats_view [OF assms(1)] assms(4) by simp
  have v1: "view d1 = index_effect u ws c ?flds st (view d)"
    using Index_view [OF assms(1,2), of u ?flds f] False by (simp add: s1 st)
  let ?st1 = "\<lparr>gs_N = gs_N st + 1, gs_TotalLen = gs_TotalLen st + word_of_nat ?n\<rparr>"
  have st1: "readStats P d1 ws = ?st1"
    using readStats_view [OF assms(1)] by (simp add: v1 index_effect_indexed)
  have len: "le_value (take 2 (le_bytes 2 ?n)) = ?n"
    using assms(5) by (simp add: le_value_le_bytes)
  have un: "unat (word_of_nat ?n :: 64 word) = ?n"
    using assms(5) by (simp add: unat_of_nat)
  have le: "word_of_nat ?n \<le> gs_TotalLen ?st1"
    using assms(7) un by (simp add: word_le_nat_alt unat_word_ariths)
  have pos: "0 < gs_N ?st1"
    using assms(6) by (simp add: word_gt_0)
  have idx: "view d1 (FTSIndexedKey ws c) = Some (le_bytes 2 ?n)"
    by (simp add: v1 index_effect_indexed)
  note del = Delete_view [OF assms(1) idx _ st1 pos, unfolded len, OF _ le, of u content f1]
  have "view (fst (FTS_Delete P u ws c content (d1, f1))) k = view d k" for k
  proof -
    have "view d1 k = view d k" if "k \<noteq> FTSGlobalStatsKey ws" "k \<noteq> FTSIndexedKey ws c"
      "\<not> (\<exists>t \<in> set (Tokenize u content). k = FTSPostingKey ws t c)"
      unfolding v1 using that body_updates [of u content] by (intro index_effect_other) auto
    then show ?thesis
      unfolding del [simplified] using assms(2-4) by (cases st) auto
  qed
  then show ?thesis
    by (auto simp: s1)
qed

end

section \<open>Migration is indexing\<close>

lemma body_field: "field_updates u [(''body'', content)] = map (\<lambda>t. (t, 1)) (Tokenize u content)"
  by (simp add: field_updates_def fieldWeight_def)

lemma migrate_ops_index:
  "migrate_ops u ws c content =
     posting_ops ws c (doc_len u [(''body'', content)]) (term_counts u [(''body'', content)]) @
     [KSet (FTSIndexedKey ws c) (le_bytes 2 (doc_len u [(''body'', content)]))]"
  by (simp add: migrate_ops_def Let_def term_counts_def doc_len_def body_field)

text \<open>The bodies are indexed one after the other.\<close>

definition index_bodies ::
    "'db pebble_ops \<Rightarrow> unicode \<Rightarrow> ws \<Rightarrow> (string \<times> string) list \<Rightarrow> 'db \<times> fts \<Rightarrow> 'db \<times> fts" where
  "index_bodies P u ws chunks s = fold (\<lambda>(c, content). FTS_Index P u ws c [(''body'', content)]) chunks s"

text \<open>What the two computations agree on at every moment.\<close>

definition migrate_rel ::
    "'db pebble_ops \<Rightarrow> ('db \<Rightarrow> contents) \<Rightarrow> ws \<Rightarrow> 'db migrate_st \<Rightarrow> 'db \<times> fts \<Rightarrow> bool" where
  "migrate_rel P view ws s ix \<longleftrightarrow>
     (\<forall>k. k \<noteq> FTSGlobalStatsKey ws \<longrightarrow> apply_batch (ms_batch s) (view (ms_db s)) k = view (fst ix) k) \<and>
     readStats P (fst ix) ws = \<lparr>gs_N = ms_n s, gs_TotalLen = ms_totalLen s\<rparr>"

context pebble
begin

lemma migrate_chunk_rel:
  assumes "reliable P" and "migrate_rel P view ws s (d, f)" and "view d (FTSIndexedKey ws c) = None"
  shows "migrate_rel P view ws (migrate_chunk P u ws (c, content) s)
    (FTS_Index P u ws c [(''body'', content)] (d, f))"
proof (cases "Tokenize u content = []")
  case True
  have "FTS_Index P u ws c [(''body'', content)] (d, f) = (d, f)"
    using True assms(3) reliable_get [OF assms(1), of d "FTSIndexedKey ws c"]
    by (simp add: FTS_Index_def Let_def term_counts_def body_field)
  then show ?thesis
    using True assms(2) by (simp add: migrate_chunk_def)
next
  case False
  let ?flds = "[(''body'', content)]" and ?st = "\<lparr>gs_N = ms_n s, gs_TotalLen = ms_totalLen s\<rparr>"
  obtain d1 f1 where ix: "FTS_Index P u ws c ?flds (d, f) = (d1, f1)"
    by (cases "FTS_Index P u ws c ?flds (d, f)")
  have st: "readStats P d ws = ?st"
    using assms(2) by (simp add: migrate_rel_def)
  have v1: "view d1 = index_effect u ws c ?flds ?st (view d)"
    using Index_view [OF assms(1,3), of u ?flds f] False by (simp add: ix st body_field)
  define s' where "s' = migrate_chunk P u ws (c, content) s"
  have pend: "apply_batch (ms_batch s') (view (ms_db s')) =
      apply_batch (migrate_ops u ws c content) (apply_batch (ms_batch s) (view (ms_db s)))"
    using False by (simp add: s'_def migrate_chunk_def Let_def reliable_commit [OF assms(1)])
  have counts: "ms_n s' = ms_n s + 1" "ms_totalLen s' = ms_totalLen s + word_of_nat (doc_len u ?flds)"
    using False by (simp_all add: s'_def migrate_chunk_def Let_def doc_len_def body_field)
  have "apply_batch (ms_batch s') (view (ms_db s')) k = view d1 k" if "k \<noteq> FTSGlobalStatsKey ws" for k
  proof -
    have "view d1 k = apply_batch (migrate_ops u ws c content) (view d) k"
      using that by (simp add: v1 index_effect_def writeStats_def migrate_ops_index)
    moreover have "apply_batch (migrate_ops u ws c content) (apply_batch (ms_batch s) (view (ms_db s))) k =
        apply_batch (migrate_ops u ws c content) (view d) k"
      using assms(2) that by (intro apply_batch_pointwise) (simp add: migrate_rel_def)
    ultimately show ?thesis
      unfolding pend by simp
  qed
  moreover have "readStats P d1 ws = \<lparr>gs_N = ms_n s', gs_TotalLen = ms_totalLen s'\<rparr>"
    using readStats_view [OF assms(1)] by (simp add: v1 index_effect_indexed counts)
  ultimately show ?thesis
    by (simp add: migrate_rel_def s'_def ix)
qed

lemma Index_keeps_unindexed:
  assumes "reliable P" and "view d (FTSIndexedKey ws c) = None" and "view d (FTSIndexedKey ws c') = None"
    and "c' \<noteq> c"
  shows "view (fst (FTS_Index P u ws c flds (d, f))) (FTSIndexedKey ws c') = None"
proof -
  have "FTSIndexedKey ws c' \<noteq> FTSIndexedKey ws c"
    using assms(4) by (simp add: FTSIndexedKey_def raw_key_defs)
  then show ?thesis
    using assms(3) by (simp add: Index_view [OF assms(1,2)] index_effect_other)
qed

lemma migrate_fold_rel:
  assumes "reliable P" and "migrate_rel P view ws s ix" and "distinct (map fst chunks)"
    and "\<forall>c \<in> fst ` set chunks. view (fst ix) (FTSIndexedKey ws c) = None"
  shows "migrate_rel P view ws (fold (migrate_chunk P u ws) chunks s) (index_bodies P u ws chunks ix)"
  using assms(2-4)
proof (induction chunks arbitrary: s ix)
  case Nil
  then show ?case by (simp add: index_bodies_def)
next
  case (Cons ch chunks)
  obtain c content where ch: "ch = (c, content)" by (cases ch)
  obtain d f where ix: "ix = (d, f)" by (cases ix)
  let ?ix' = "FTS_Index P u ws c [(''body'', content)] (d, f)"
  have fresh: "view d (FTSIndexedKey ws c) = None"
    using Cons.prems(3) by (simp add: ch ix)
  have rel: "migrate_rel P view ws (migrate_chunk P u ws (c, content) s) ?ix'"
    using migrate_chunk_rel [OF assms(1) _ fresh] Cons.prems(1) by (simp add: ix)
  have "\<forall>c' \<in> fst ` set chunks. view (fst ?ix') (FTSIndexedKey ws c') = None"
  proof
    fix c'
    assume c': "c' \<in> fst ` set chunks"
    then have "c' \<noteq> c" and "view d (FTSIndexedKey ws c') = None"
      using Cons.prems(2,3) by (auto simp: ch ix)
    then show "view (fst ?ix') (FTSIndexedKey ws c') = None"
      using Index_keeps_unindexed [OF assms(1) fresh] by blast
  qed
  then show ?case
    using Cons.IH [OF rel] Cons.prems(2) by (simp add: ch ix index_bodies_def)
qed

lemma Migrate_is_indexing:
  assumes "reliable P" and "\<not> HasPostings P d ws" and "distinct (map fst chunks)"
    and "\<forall>c \<in> fst ` set chunks. view d (FTSIndexedKey ws c) = None"
  shows "(k \<noteq> FTSGlobalStatsKey ws \<longrightarrow>
      view (MigrateFromChunks P u d ws chunks) k = view (fst (index_bodies P u ws chunks (d, f))) k) \<and>
    readStats P (MigrateFromChunks P u d ws chunks) ws = readStats P (fst (index_bodies P u ws chunks (d, f))) ws"
proof -
  define s where "s = fold (migrate_chunk P u ws) chunks
    \<lparr>ms_db = d, ms_batch = [], ms_n = 0, ms_totalLen = 0, ms_count = 0\<rparr>"
  have "readStats P d ws = \<lparr>gs_N = 0, gs_TotalLen = 0\<rparr>"
    using assms(2) readStats_view [OF assms(1)] reliable_get [OF assms(1)]
    by (auto simp: HasPostings_def decodeStats_def split: option.splits)
  then have "migrate_rel P view ws \<lparr>ms_db = d, ms_batch = [], ms_n = 0, ms_totalLen = 0, ms_count = 0\<rparr> (d, f)"
    by (simp add: migrate_rel_def)
  from migrate_fold_rel [OF assms(1) this assms(3)] assms(4)
  have rel: "migrate_rel P view ws s (index_bodies P u ws chunks (d, f))"
    by (simp add: s_def)
  have v: "view (MigrateFromChunks P u d ws chunks) =
      (apply_batch (ms_batch s) (view (ms_db s)))
        (FTSGlobalStatsKey ws \<mapsto> encodeStats \<lparr>gs_N = ms_n s, gs_TotalLen = ms_totalLen s\<rparr>)"
    by (simp add: MigrateFromChunks_def Let_def s_def [symmetric] reliable_commit [OF assms(1)] writeStats_def)
  then have "readStats P (MigrateFromChunks P u d ws chunks) ws = \<lparr>gs_N = ms_n s, gs_TotalLen = ms_totalLen s\<rparr>"
    using readStats_view [OF assms(1)] by simp
  then show ?thesis
    using rel by (auto simp: v migrate_rel_def)
qed

end

section \<open>What a search ranks\<close>

text \<open>
  The specification of a search, on the contents of the store. A term of the query is looked up
  as it is; a term of fewer than four bytes that no chunk holds stands for all stored terms it is
  a prefix of (their frequencies added up per chunk). \<open>query_tf\<close> is the frequency found for a
  chunk, if it has one. Every term contributes its BM25 weight (\<open>term_weight\<close>) once per
  occurrence in the query, with the idf cached for the term or, if there is none, the one of the
  current statistics; \<open>fts_matches\<close> is the set of all chunks with a term of the query, with the
  sum of the weights as their score.
\<close>

definition posting_keys :: "contents \<Rightarrow> ws \<Rightarrow> string \<Rightarrow> string \<Rightarrow> bytes set" where
  "posting_keys m ws t c =
     {k \<in> dom m. hasPrefix k (FTSPostingTermPrefix ws t) \<and> chunkIDFromKey k = c}"

definition prefix_tf :: "contents \<Rightarrow> ws \<Rightarrow> string \<Rightarrow> string \<rightharpoonup> real" where
  "prefix_tf m ws t c =
     (if c = [] \<or> posting_keys m ws t c = {} then None
      else Some (\<Sum>k \<in> posting_keys m ws t c. fst (decodePosting (the (m k)))))"

definition query_tf :: "contents \<Rightarrow> ws \<Rightarrow> string \<Rightarrow> string \<rightharpoonup> real" where
  "query_tf m ws t =
     (if dom (stored_tf m ws t) = {} \<and> length t < 4 \<and>
         prefixRangeUpperBound (FTSPostingTermPrefix ws t) \<noteq> None
      then prefix_tf m ws t else stored_tf m ws t)"

definition idf_in_use :: "contents \<Rightarrow> ws \<Rightarrow> real \<Rightarrow> fts \<Rightarrow> string \<Rightarrow> real" where
  "idf_in_use m ws n f t =
     (case idfCache f (idfCacheKey ws t) of
        Some idf \<Rightarrow> idf
      | None \<Rightarrow> let df = real (card (dom (query_tf m ws t))) in ln (1 + (n - df + 1 / 2) / (df + 1 / 2)))"

definition term_weight ::
    "contents \<Rightarrow> ws \<Rightarrow> real \<Rightarrow> real \<Rightarrow> (string \<Rightarrow> real) \<Rightarrow> fts \<Rightarrow> string \<Rightarrow> string \<Rightarrow> real" where
  "term_weight m ws n avgDL dl f c t =
     (case query_tf m ws t c of
        None \<Rightarrow> 0
      | Some tf \<Rightarrow> bm25_term (idf_in_use m ws n f t) tf (if dl c = 0 then avgDL else dl c) avgDL)"

definition fts_matches ::
    "'db pebble_ops \<Rightarrow> contents \<Rightarrow> unicode \<Rightarrow> 'db \<Rightarrow> ws \<Rightarrow> string \<Rightarrow> fts \<Rightarrow> hit set" where
  "fts_matches P m u d ws query f =
     (let ts = Tokenize u query; st = readStats P d ws;
          n = real (unat (gs_N st));
          avgDL = (if 0 < gs_N st then real (unat (gs_TotalLen st)) / n else 0)
      in {Hit c (sum_list (map (term_weight m ws n avgDL (docLenOf P d ws) f c) ts)) |c.
            \<exists>t \<in> set ts. query_tf m ws t c \<noteq> None})"

lemma tally_scan_steps:
  "distinct (map fst kvs) \<Longrightarrow>
   tally c (concat (map (scan_step []) kvs)) =
     (\<Sum>k \<in> {k \<in> fst ` set kvs. chunkIDFromKey k = c \<and> c \<noteq> []}. fst (decodePosting (the (map_of kvs k))))"
proof (induction kvs)
  case (Cons kv kvs)
  obtain k v where kv: "kv = (k, v)" by (cases kv)
  let ?S = "\<lambda>kvs. {k \<in> fst ` set kvs. chunkIDFromKey k = c \<and> c \<noteq> []}"
  have new: "k \<notin> ?S kvs"
    using Cons.prems kv by force
  have S: "?S (kv # kvs) = (if chunkIDFromKey k = c \<and> c \<noteq> [] then insert k (?S kvs) else ?S kvs)"
    by (auto simp: kv)
  have "(\<Sum>j \<in> ?S kvs. fst (decodePosting (the (map_of (kv # kvs) j)))) =
      (\<Sum>j \<in> ?S kvs. fst (decodePosting (the (map_of kvs j))))"
    using new by (intro sum.cong) (auto simp: kv)
  then show ?case
    using Cons new unfolding S by (auto simp: kv scan_step_def Let_def sum.insert)
qed simp

lemma scan_step_ids: "c \<in> fst ` set (concat (map (scan_step []) kvs)) \<longleftrightarrow>
    c \<noteq> [] \<and> (\<exists>k \<in> fst ` set kvs. chunkIDFromKey k = c)"
  by (force simp: scan_step_def Let_def split: if_splits)

text \<open>The first \<open>k\<close> of a finite set in its linear order.\<close>

lemma topk_of_set:
  assumes "finite M" and "xs = topk k (sorted_list_of_set M)" and "y \<in> M" and "y \<notin> set xs"
  shows "0 < k \<and> int (length xs) = k \<and> (\<forall>x \<in> set xs. x < (y :: 'a::linorder))"
proof -
  have y: "y \<in> set (sorted_list_of_set M)"
    using assms(1,3) by simp
  have "x < y" if "x \<in> set xs" for x
    using topk_best [OF sorted_sorted_list_of_set, of x k M y] that y assms(2,4)
    by (metis order.not_eq_order_implies_strict)
  moreover have "0 < k \<and> k < int (length (sorted_list_of_set M))"
    using y assms(2,4) by (auto simp: topk_def split: if_splits)
  ultimately show ?thesis
    by (auto simp: assms(2) topk_def min_def)
qed

text \<open>The postings one term is scored on.\<close>

definition term_posts :: "'db pebble_ops \<Rightarrow> 'db \<Rightarrow> ws \<Rightarrow> string \<Rightarrow> (string \<times> real) list" where
  "term_posts P d ws t =
     (if scanTerm P d ws t = [] \<and> length t < 4 then scanPrefix P d ws t else scanTerm P d ws t)"

lemma term_scores_posts:
  "term_scores P d ws n avgDL f t =
     (if term_posts P d ws t = [] then ([], f)
      else (map (\<lambda>(c, tf). (c, bm25_term (fst (cachedIDF f ws t n (real (length (term_posts P d ws t))))) tf
              (if docLenOf P d ws c = 0 then avgDL else docLenOf P d ws c) avgDL)) (term_posts P d ws t),
            snd (cachedIDF f ws t n (real (length (term_posts P d ws t))))))"
  by (simp add: term_scores_def term_posts_def Let_def case_prod_unfold)

lemma map_of_map_key: "map_of (map (\<lambda>(c, v). (c, w c v)) ps) c = map_option (w c) (map_of ps c)"
  by (induction ps) auto

lemma tally_distinct:
  "distinct (map fst us) \<Longrightarrow> tally k us = (case map_of us k of None \<Rightarrow> 0 | Some v \<Rightarrow> v)"
proof (induction us)
  case (Cons u us)
  then show ?case
    by (cases u) (auto simp: tally_zero)
qed simp

context pebble
begin

lemma search_loop_distinct:
  "distinct (map fst scores) \<Longrightarrow> distinct (map fst (fst (search_loop P d ws n avgDL ts scores f)))"
proof (induction ts arbitrary: scores f)
  case (Cons t ts)
  then show ?case
    by (cases "term_scores P d ws n avgDL f t") (simp add: distinct_bump_all)
qed simp

lemma scanPrefix_stored:
  assumes "reliable P" and "t \<noteq> []" and "prefixRangeUpperBound (FTSPostingTermPrefix ws t) = Some U"
  shows "distinct (map fst (scanPrefix P d ws t)) \<and> map_of (scanPrefix P d ws t) c = prefix_tf (view d) ws t c"
proof -
  let ?L = "FTSPostingTermPrefix ws t"
  obtain kvs where kvs: "pb_iter P d (Some ?L) (Some U) = Inr (kvs, None)"
    using assms(1) unfolding reliable_def by blast
  have "?L \<noteq> []"
    by (simp add: FTSPostingTermPrefix_def)
  note range = prefix_range [OF assms(3) this]
  have dist: "distinct (map fst kvs)"
    and set: "set kvs = {(k, v). hasPrefix k ?L \<and> view d k = Some v}"
    using iter_view [OF kvs] by (auto simp: strict_sorted_iff range)
  have keys: "{k \<in> fst ` set kvs. chunkIDFromKey k = c} = posting_keys (view d) ws t c"
    by (force simp: set posting_keys_def)
  have val: "map_of kvs k = view d k" if "k \<in> posting_keys (view d) ws t c" for k
    using iter_map_of [OF kvs] that by (auto simp: range posting_keys_def)
  have "tally c (concat (map (scan_step []) kvs)) =
      (\<Sum>k \<in> posting_keys (view d) ws t c. fst (decodePosting (the (view d k))))" if "c \<noteq> []"
    using tally_scan_steps [OF dist, of c] that val by (simp add: keys cong: sum.cong)
  moreover have "scanPrefix P d ws t = bump_all (concat (map (scan_step []) kvs)) []"
    using assms(2,3) by (simp add: scanPrefix_def scanRange_def kvs)
  moreover have "c \<in> fst ` set (concat (map (scan_step []) kvs)) \<longleftrightarrow>
      c \<noteq> [] \<and> posting_keys (view d) ws t c \<noteq> {}"
    unfolding scan_step_ids keys [symmetric] by blast
  ultimately show ?thesis
    by (simp add: distinct_bump_all map_of_bump_all prefix_tf_def del: set_concat)
qed

lemma term_posts_stored:
  assumes "reliable P" and "is_ws ws" and "t \<noteq> []"
  shows "distinct (map fst (term_posts P d ws t))" and "map_of (term_posts P d ws t) = query_tf (view d) ws t"
proof -
  note exact = scanTerm_stored [OF assms]
  have "map_of (scanTerm P d ws t) = stored_tf (view d) ws t"
    using exact by blast
  then have dom: "scanTerm P d ws t = [] \<longleftrightarrow> dom (stored_tf (view d) ws t) = {}"
    by (metis dom_map_of_conv_image_fst image_is_empty set_empty)
  have none: "scanPrefix P d ws t = []" if "prefixRangeUpperBound (FTSPostingTermPrefix ws t) = None"
    using that by (simp add: scanPrefix_def)
  show "distinct (map fst (term_posts P d ws t))"
    using exact scanPrefix_stored [OF assms(1,3)] none
    by (cases "prefixRangeUpperBound (FTSPostingTermPrefix ws t)") (auto simp: term_posts_def Let_def)
  show "map_of (term_posts P d ws t) = query_tf (view d) ws t"
  proof
    fix c
    show "map_of (term_posts P d ws t) c = query_tf (view d) ws t c"
      using exact [of d c] scanPrefix_stored [OF assms(1,3), where d = d and c = c] none dom
      by (cases "prefixRangeUpperBound (FTSPostingTermPrefix ws t)")
        (auto simp: term_posts_def Let_def query_tf_def)
  qed
qed

lemma term_posts_df:
  assumes "reliable P" and "is_ws ws" and "t \<noteq> []"
  shows "card (dom (query_tf (view d) ws t)) = length (term_posts P d ws t)"
    and "finite (dom (query_tf (view d) ws t))"
proof -
  note posts = term_posts_stored [OF assms, of d]
  show "card (dom (query_tf (view d) ws t)) = length (term_posts P d ws t)"
    using posts distinct_card [OF posts(1)] by (metis dom_map_of_conv_image_fst length_map list.set_map)
  show "finite (dom (query_tf (view d) ws t))"
    using posts(2) finite_dom_map_of by metis
qed

text \<open>The idf of a term in one search does not depend on what the search cached before.\<close>

lemma idf_in_use_cached:
  "idf_in_use m ws n (f\<lparr>idfCache := (idfCache f)(idfCacheKey ws t \<mapsto> idf_in_use m ws n f t)\<rparr>) t' =
   idf_in_use m ws n f t'"
  by (cases "t = t'") (simp_all add: idf_in_use_def idfCacheKey_def)

lemma term_scores_stored:
  assumes "reliable P" and "is_ws ws" and "t \<noteq> []"
    and "term_scores P d ws n avgDL f t = (us, f')"
  shows "distinct (map fst us)" and "fst ` set us = dom (query_tf (view d) ws t)"
    and "tally c us = term_weight (view d) ws n avgDL (docLenOf P d ws) f c t"
    and "idf_in_use (view d) ws n f' = idf_in_use (view d) ws n f"
proof -
  let ?ps = "term_posts P d ws t" and ?idf = "idf_in_use (view d) ws n f t"
  let ?w = "\<lambda>c tf. bm25_term ?idf tf (if docLenOf P d ws c = 0 then avgDL else docLenOf P d ws c) avgDL"
  note posts = term_posts_stored [OF assms(1-3), of d] term_posts_df [OF assms(1-3), of d]
  have cached: "cachedIDF f ws t n (real (length ?ps)) =
      (?idf, if idfCache f (idfCacheKey ws t) = None
        then f\<lparr>idfCache := (idfCache f)(idfCacheKey ws t \<mapsto> ?idf)\<rparr> else f)"
    by (simp add: cachedIDF_def idf_in_use_def posts(3) Let_def split: option.split)
  have us: "us = map (\<lambda>(c, tf). (c, ?w c tf)) ?ps"
    and f': "f' = f \<or> f' = f\<lparr>idfCache := (idfCache f)(idfCacheKey ws t \<mapsto> ?idf)\<rparr>"
    using assms(4) cached unfolding term_scores_posts by (auto split: if_splits)
  show "idf_in_use (view d) ws n f' = idf_in_use (view d) ws n f"
    using f' idf_in_use_cached [of "view d" ws n f t] by (auto simp: fun_eq_iff)
  have keys: "map fst us = map fst ?ps"
    by (simp add: us case_prod_unfold comp_def)
  show dist: "distinct (map fst us)"
    using posts(1) keys by simp
  show dom: "fst ` set us = dom (query_tf (view d) ws t)"
    using keys posts(2) by (metis dom_map_of_conv_image_fst list.set_map)
  have "map_of us c = map_option (?w c) (query_tf (view d) ws t c)"
    unfolding us posts(2) [symmetric] by (rule map_of_map_key)
  then show "tally c us = term_weight (view d) ws n avgDL (docLenOf P d ws) f c t"
    using tally_distinct [OF dist, of c] by (simp add: term_weight_def split: option.splits)
qed


lemma search_loop_stored:
  assumes "reliable P" and "is_ws ws" and "\<And>t. t \<in> set ts \<Longrightarrow> t \<noteq> []"
  shows "map_of (fst (search_loop P d ws n avgDL ts scores f)) c =
    (if c \<in> fst ` set scores \<or> (\<exists>t \<in> set ts. query_tf (view d) ws t c \<noteq> None)
     then Some ((case map_of scores c of None \<Rightarrow> 0 | Some v \<Rightarrow> v) +
       sum_list (map (term_weight (view d) ws n avgDL (docLenOf P d ws) f c) ts))
     else None)"
  using assms(3)
proof (induction ts arbitrary: scores f)
  case Nil
  then show ?case
    by (cases "map_of scores c") (force simp: map_of_eq_None_iff dest: map_of_SomeD)+
next
  case (Cons t ts)
  obtain us f' where us: "term_scores P d ws n avgDL f t = (us, f')"
    by (cases "term_scores P d ws n avgDL f t")
  have ne: "t \<noteq> []"
    using Cons.prems by simp
  note new = term_scores_stored [OF assms(1,2) ne us]
  have weights: "term_weight (view d) ws n avgDL (docLenOf P d ws) f' = term_weight (view d) ws n avgDL (docLenOf P d ws) f"
    by (intro ext) (simp add: term_weight_def new(4) cong: option.case_cong)
  have zero: "term_weight (view d) ws n avgDL (docLenOf P d ws) f c t = 0" if "c \<notin> fst ` set us"
    using that unfolding new(3) [symmetric] by (rule tally_zero)
  have dom: "c \<in> fst ` set us \<longleftrightarrow> query_tf (view d) ws t c \<noteq> None"
    using new(2) by auto
  have keys: "c \<in> fst ` set (bump_all us scores) \<longleftrightarrow> c \<in> fst ` set us \<or> c \<in> fst ` set scores"
    by (simp add: keys_bump_all)
  have mem: "map_of scores c = None \<longleftrightarrow> c \<notin> fst ` set scores"
    by (simp add: map_of_eq_None_iff)
  have val: "(case map_of (bump_all us scores) c of None \<Rightarrow> 0 | Some v \<Rightarrow> v) =
      (case map_of scores c of None \<Rightarrow> 0 | Some v \<Rightarrow> v) +
        term_weight (view d) ws n avgDL (docLenOf P d ws) f c t"
    unfolding map_of_bump_all new(3)
    using zero mem by (auto split: option.splits)
  show ?case
    using Cons.IH [of "bump_all us scores" f'] Cons.prems
    by (simp add: us keys val weights dom disj_commute disj_left_commute add.assoc)
qed

text \<open>The hits a query has to choose from: every chunk with a posting for one of its terms.\<close>

lemma matches_ranked:
  assumes "reliable P" and "unicode_ascii u" and "is_ws ws" and "FTS_Search P u d ws query k f = (hs, f')"
  shows "finite (fts_matches P (view d) u d ws query f)"
    and "hs = topk k (sorted_list_of_set (fts_matches P (view d) u d ws query f))"
    and "distinct (ids hs)"
proof -
  let ?ts = "Tokenize u query"
  define n where "n = real (unat (gs_N (readStats P d ws)))"
  define avgDL where "avgDL = (if 0 < gs_N (readStats P d ws)
    then real (unat (gs_TotalLen (readStats P d ws))) / n else 0)"
  define scores where "scores = fst (search_loop P d ws n avgDL ?ts [] f)"
  have tok: "\<And>t. t \<in> set ?ts \<Longrightarrow> t \<noteq> []"
    using Tokenize_ok by (auto simp: token_ok_def)
  have hs: "hs = topk k (sort (hits_of scores))"
    using assms(4)
    by (cases "?ts = []")
      (auto simp: FTS_Search_def Let_def scores_def avgDL_def n_def hits_of_def topk_def split: prod.splits)
  have dist: "distinct (map fst scores)"
    unfolding scores_def by (rule search_loop_distinct) simp
  then show "distinct (ids hs)"
    by (simp add: hs distinct_ids_topk distinct_ids_sort)
  have m: "map_of scores c = (if \<exists>t \<in> set ?ts. query_tf (view d) ws t c \<noteq> None
      then Some (sum_list (map (term_weight (view d) ws n avgDL (docLenOf P d ws) f c) ?ts)) else None)" for c
    unfolding scores_def using search_loop_stored [OF assms(1,3) tok, where d = d and n = n and avgDL = avgDL and f = f and c = c and scores = "[]"] by simp
  have matches: "set (hits_of scores) = fts_matches P (view d) u d ws query f"
    unfolding set_hits_of fts_matches_def Let_def n_def [symmetric] avgDL_def [symmetric]
    unfolding map_of_eq_Some_iff [OF dist, symmetric] m by (auto split: if_splits)
  show "finite (fts_matches P (view d) u d ws query f)"
    unfolding matches [symmetric] by simp
  have "distinct (hits_of scores)"
    using dist by (simp add: hits_of_def distinct_map inj_on_def case_prod_unfold)
  then show "hs = topk k (sorted_list_of_set (fts_matches P (view d) u d ws query f))"
    unfolding hs matches [symmetric] by (simp add: sorted_list_of_set_sort_remdups distinct_remdups_id)
qed


lemma FTS_Search_exact:
  assumes "reliable P" and "unicode_ascii u" and "is_ws ws"
    and "FTS_Search P u d ws query k f = (hits, f')" and "M = fts_matches P (view d) u d ws query f"
  shows "finite M \<and> hits = topk k (sorted_list_of_set M) \<and> set hits \<subseteq> M \<and>
    (\<forall>y \<in> M - set hits. 0 < k \<and> int (length hits) = k \<and> (\<forall>h \<in> set hits. h < y)) \<and>
    sorted hits \<and> distinct (ids hits) \<and> (0 < k \<longrightarrow> int (length hits) \<le> k)"
proof -
  note m = matches_ranked [OF assms(1-4), folded assms(5)]
  have "set hits \<subseteq> M" and sub: "sorted hits" "0 < k \<longrightarrow> int (length hits) \<le> k"
    using m set_topk [of k "sorted_list_of_set M"] sorted_topk [OF sorted_sorted_list_of_set]
    by (auto simp: topk_length)
  then show ?thesis
    using m topk_of_set [OF m(1,2)] by blast
qed

end

text \<open>On ASCII text the tokenizer works byte by byte.\<close>

definition lower_char :: "char \<Rightarrow> char" where
  "lower_char c = (if 0x41 \<le> (of_char c :: nat) \<and> (of_char c :: nat) \<le> 0x5A
     then char_of (of_char c + 32 :: nat) else c)"

definition ascii_word_char :: "char \<Rightarrow> bool" where
  "ascii_word_char c \<longleftrightarrow> (let n = (of_char c :: nat) in
     0x41 \<le> n \<and> n \<le> 0x5A \<or> 0x61 \<le> n \<and> n \<le> 0x7A \<or> 0x30 \<le> n \<and> n \<le> 0x39)"

fun tokenize_chars :: "string \<Rightarrow> string \<Rightarrow> string list \<Rightarrow> string list" where
  "tokenize_chars [] b out = flush_word b out"
| "tokenize_chars (c # cs) b out =
     (if ascii_word_char c then tokenize_chars cs (b @ [c]) out
      else tokenize_chars cs [] (flush_word b out))"

lemma EncodeRune_ascii: "(of_char c :: nat) < 0x80 \<Longrightarrow> EncodeRune (of_char c) = [c]"
  by (simp add: EncodeRune_def Let_def)

lemma tokenize_loop_ascii:
  "\<forall>c \<in> set s. (of_char c :: nat) < 0x80 \<Longrightarrow> unicode_ascii u \<Longrightarrow>
   tokenize_loop u (map of_char s) b out = tokenize_chars s b out"
  by (induction s arbitrary: b out)
    (auto simp: EncodeRune_ascii unicode_ascii_def ascii_word_char_def Let_def)

lemma lower_char_ascii: "(of_char c :: nat) < 0x80 \<Longrightarrow> (of_char (lower_char c) :: nat) < 0x80"
  by (auto simp: lower_char_def of_char_of_nat)

lemma Tokenize_ascii:
  assumes "\<forall>c \<in> set s. (of_char c :: nat) < 0x80" and "unicode_ascii u"
  shows "Tokenize u s = tokenize_chars (map lower_char s) [] []"
proof -
  have "ToLower u s = map lower_char s"
    using assms(1) by (auto simp: ToLower_def lower_char_def ascii_lower_def)
  moreover have low: "\<forall>c \<in> set (map lower_char s). (of_char c :: nat) < 0x80"
    using assms(1) lower_char_ascii by auto
  ultimately have "Tokenize u s = tokenize_loop u (map of_char (map lower_char s)) [] []"
    unfolding Tokenize_def runes_def using runes_ascii [OF low] by simp
  then show ?thesis
    using tokenize_loop_ascii [OF low assms(2)] by metis
qed

lemmas tokenize_eval = Tokenize_ascii lower_char_def ascii_word_char_def flush_word_def isStopword_def

section \<open>Properties\<close>

text \<open>A chunk is searchable right after it was indexed, with the right weights. After
  \<open>FTS.Index\<close> of a chunk that was not indexed, the scan of a term returns the chunk with the sum of
  the field weights of the term's occurrences (through the \<open>float32\<close> that is stored) if the term
  occurs, and for every other term and chunk what it returned before.\<close>

theorem fts_index_then_scan:
  assumes "pebble P view" and "reliable P" and "unicode_ascii u" and "is_ws ws"
    and "view d (FTSIndexedKey ws c) = None" and "c \<noteq> []" and "t \<noteq> []" and "NUL \<notin> set t"
    and "tally t (field_updates u flds) < 2 ^ 24"
  shows "map_of (scanTerm P (fst (FTS_Index P u ws c flds (d, f))) ws t) c' =
    (if c' = c \<and> t \<in> fst ` set (field_updates u flds)
     then Some (real (tally t (field_updates u flds))) else map_of (scanTerm P d ws t) c')"
proof -
  let ?d' = "fst (FTS_Index P u ws c flds (d, f))"
  have scan: "map_of (scanTerm P d0 ws t) c0 = stored_tf (view d0) ws t c0" for d0 c0
    using pebble.scanTerm_stored [OF assms(1,2,4,7)] by blast
  have posted: "posted u flds t = (if t \<in> fst ` set (field_updates u flds)
      then Some (encodePosting (tally t (field_updates u flds)) (doc_len u flds)) else None)"
    by (simp add: posted_def term_counts_facts)
  have "view ?d' (FTSPostingKey ws t c') =
      (if c' = c \<and> t \<in> fst ` set (field_updates u flds)
       then Some (encodePosting (tally t (field_updates u flds)) (doc_len u flds))
       else view d (FTSPostingKey ws t c'))"
    using pebble.Index_view [OF assms(1,2,5), of u flds f]
      index_effect_posting [OF assms(3,4,8), of c flds _ _ c'] posted
    by (cases "t \<in> fst ` set (field_updates u flds)") auto
  then show ?thesis
    using assms(6,9) decode_encode_posting
    by (cases "c' = c \<and> t \<in> fst ` set (field_updates u flds)") (auto simp: scan stored_tf_def)
qed

theorem fts_index_then_scan_witness:
  "let d' = fst (FTS_Index mem_pebble ascii_tables (replicate 8 1) ''c1''
       [(''title'', ''go store''), (''body'', ''the store, a store'')] ([], NewFTS))
   in map_of (scanTerm mem_pebble d' (replicate 8 1) ''store'') ''c1'' = Some 5"
proof -
  let ?flds = "[(''title'', ''go store''), (''body'', ''the store, a store'')]"
  have "field_updates ascii_tables ?flds = [(''go'', 3), (''store'', 3), (''store'', 1), (''store'', 1)]"
    by (simp add: field_updates_def fieldWeight_def tokenize_eval)
  then show ?thesis
    using fts_index_then_scan [OF mem.pebble_axioms reliable_mem unicode_ascii_tables, of "replicate 8 1" "[]"
        "''c1''" "''store''" ?flds NewFTS "''c1''"]
    by (simp add: is_ws_def Let_def)
qed

text \<open>C5: deleting a chunk undoes indexing it. If the body that \<open>FTS.Index\<close> was given is passed to
  \<open>FTS.Delete\<close>, every posting, the indexed mark and the statistics return to what they were, so
  nothing of the chunk stays searchable and no statistic drifts (for documents of less than 65536
  tokens, which the two stored bytes can count).\<close>

theorem fts_delete_undoes_index:
  assumes "pebble P view" and "reliable P" and "view d (FTSIndexedKey ws c) = None"
    and "\<And>t. view d (FTSPostingKey ws t c) = None"
    and "view d (FTSGlobalStatsKey ws) = Some (encodeStats st)"
    and "doc_len u [(''body'', content)] < 65536"
    and "gs_N st + 1 \<noteq> 0" and "unat (gs_TotalLen st) + doc_len u [(''body'', content)] < 2 ^ 64"
  shows "view (fst (FTS_Delete P u ws c content (FTS_Index P u ws c [(''body'', content)] (d, f)))) = view d"
  using assms by (rule pebble.Delete_undoes_Index)

theorem fts_delete_undoes_index_witness:
  "let d = [(FTSGlobalStatsKey (replicate 8 1), encodeStats \<lparr>gs_N = 3, gs_TotalLen = 40\<rparr>)]
   in map_of (fst (FTS_Delete mem_pebble ascii_tables (replicate 8 1) ''c'' ''red fish''
         (FTS_Index mem_pebble ascii_tables (replicate 8 1) ''c'' [(''body'', ''red fish'')] (d, NewFTS)))) =
      map_of d"
proof -
  let ?d = "[(FTSGlobalStatsKey (replicate 8 1), encodeStats \<lparr>gs_N = 3, gs_TotalLen = 40\<rparr>)]"
  have "doc_len ascii_tables [(''body'', ''red fish'')] = 2"
    by (simp add: doc_len_def body_field tokenize_eval)
  then show ?thesis
    using fts_delete_undoes_index [OF mem.pebble_axioms reliable_mem, of ?d "replicate 8 1" "''c''"
        "\<lparr>gs_N = 3, gs_TotalLen = 40\<rparr>" ascii_tables "''red fish''" NewFTS]
    by simp
qed

text \<open>C6: search is exact. \<open>FTS.Search\<close> returns the first \<open>k\<close> (all, if \<open>k\<close> is not positive) of
  the set of all chunks that match the query, best score first and ties by ID: \<open>fts_matches\<close> is
  that set, a chunk with a stored posting for a term of the query (or, for a short term without
  one, for a term it is a prefix of) and the sum of the BM25 weights of the query's terms. A
  match is left out only when \<open>k\<close> better ones are returned; no chunk is returned twice.\<close>

theorem fts_search_hits:
  assumes "pebble P view" and "reliable P" and "unicode_ascii u" and "is_ws ws"
    and "FTS_Search P u d ws query k f = (hits, f')" and "M = fts_matches P (view d) u d ws query f"
  shows "finite M \<and> hits = topk k (sorted_list_of_set M) \<and> set hits \<subseteq> M \<and>
    (\<forall>y \<in> M - set hits. 0 < k \<and> int (length hits) = k \<and> (\<forall>h \<in> set hits. h < y)) \<and>
    sorted hits \<and> distinct (ids hits) \<and> (0 < k \<longrightarrow> int (length hits) \<le> k)"
  using assms by (rule pebble.FTS_Search_exact)

definition demo_fts :: "(bytes \<times> bytes) list \<times> fts" where
  "demo_fts = index_bodies mem_pebble ascii_tables (replicate 8 1)
     [(''c1'', ''red fish''), (''c2'', ''blue fish fish'')] ([], NewFTS)"

theorem fts_search_hits_witness:
  "let M = fts_matches mem_pebble (map_of (fst demo_fts)) ascii_tables (fst demo_fts) (replicate 8 1)
       ''fi'' NewFTS;
     hits = fst (FTS_Search mem_pebble ascii_tables (fst demo_fts) (replicate 8 1) ''fi'' 1 NewFTS)
   in finite M \<and> hits = topk 1 (sorted_list_of_set M) \<and> (\<forall>y \<in> M - set hits. \<forall>h \<in> set hits. h < y)"
proof -
  have "is_ws (replicate 8 1)"
    by (simp add: is_ws_def)
  from fts_search_hits [OF mem.pebble_axioms reliable_mem unicode_ascii_tables this prod.collapse [symmetric]
      refl, where d = "fst demo_fts" and query = "''fi''" and k = 1 and f = NewFTS]
  show ?thesis unfolding Let_def by blast
qed

text \<open>The one-time migration is equivalent to indexing. On a vault without postings,
  \<open>MigrateFromChunks\<close> (one batch per 256 chunks and later one per chunk, statistics last) leaves
  the same postings, marks and statistics as \<open>FTS.Index\<close> of the bodies one by one.\<close>

theorem fts_migration_is_indexing:
  assumes "pebble P view" and "reliable P" and "\<not> HasPostings P d ws" and "distinct (map fst chunks)"
    and "\<forall>c \<in> fst ` set chunks. view d (FTSIndexedKey ws c) = None"
  shows "(k \<noteq> FTSGlobalStatsKey ws \<longrightarrow>
      view (MigrateFromChunks P u d ws chunks) k = view (fst (index_bodies P u ws chunks (d, f))) k) \<and>
    readStats P (MigrateFromChunks P u d ws chunks) ws = readStats P (fst (index_bodies P u ws chunks (d, f))) ws"
  using assms by (rule pebble.Migrate_is_indexing)

theorem fts_migration_is_indexing_witness:
  "readStats mem_pebble (MigrateFromChunks mem_pebble ascii_tables [] (replicate 8 1)
       [(''c1'', ''red fish''), (''c2'', ''blue fish fish'')]) (replicate 8 1) =
   readStats mem_pebble (fst demo_fts) (replicate 8 1)"
proof -
  have "\<not> HasPostings mem_pebble [] (replicate 8 1)"
    by (simp add: HasPostings_def mem_pebble_def)
  from fts_migration_is_indexing [OF mem.pebble_axioms reliable_mem this] show ?thesis
    by (simp add: demo_fts_def)
qed

end
