(* ===== verification/Vector_Index.thy ===== *)
theory Vector_Index
  imports Ranking
begin

text \<open>
  The vector store: \<open>internal/index/vector.go\<close> and its contract \<open>VectorIndex\<close> of
  \<open>internal/index/index.go\<close>, stated as the locale \<open>vector_index\<close>. \<open>float32\<close> components and
  \<open>float64\<close> similarities are real numbers; the Go map of vectors is a list of its entries with
  distinct keys. The JSON files of \<open>Save\<close> and \<open>Load\<close> are not modelled.
\<close>

section \<open>The store\<close>

record vector =
  vec_chunks :: "(string \<times> real list) list"
  vec_dims :: nat

definition NewVector :: vector where
  "NewVector = \<lparr>vec_chunks = [], vec_dims = 0\<rparr>"

fun put_entry :: "'k \<Rightarrow> 'v \<Rightarrow> ('k \<times> 'v) list \<Rightarrow> ('k \<times> 'v) list" where
  "put_entry k v [] = [(k, v)]"
| "put_entry k v ((k', v') # m) = (if k' = k then (k, v) # m else (k', v') # put_entry k v m)"

definition Vec_Add :: "string \<Rightarrow> real list \<Rightarrow> vector \<Rightarrow> vector" where
  "Vec_Add i vec v =
     v\<lparr>vec_dims := (if vec_dims v = 0 \<and> 0 < length vec then length vec else vec_dims v),
       vec_chunks := put_entry i vec (vec_chunks v)\<rparr>"

definition Vec_Delete :: "string \<Rightarrow> vector \<Rightarrow> vector" where
  "Vec_Delete i v = v\<lparr>vec_chunks := filter (\<lambda>e. fst e \<noteq> i) (vec_chunks v)\<rparr>"

fun cosine_loop :: "real list \<Rightarrow> real list \<Rightarrow> real \<Rightarrow> real \<Rightarrow> real \<Rightarrow> real \<times> real \<times> real" where
  "cosine_loop (ai # a) (bi # b) dot na nb =
     cosine_loop a b (dot + ai * bi) (na + ai * ai) (nb + bi * bi)"
| "cosine_loop _ _ dot na nb = (dot, na, nb)"

definition cosine :: "real list \<Rightarrow> real list \<Rightarrow> real" where
  "cosine a b =
     (case cosine_loop a b 0 0 0 of (dot, na, nb) \<Rightarrow>
        if na = 0 \<or> nb = 0 then 0 else dot / (sqrt na * sqrt nb))"

definition Vec_Query :: "real list \<Rightarrow> int \<Rightarrow> vector \<Rightarrow> hit list" where
  "Vec_Query vec k v =
     (let all = map (\<lambda>(i, cv). Hit i (cosine vec cv))
            (filter (\<lambda>(i, cv). length cv = length vec) (vec_chunks v))
      in topk k (sort all))"

section \<open>The contract\<close>

text \<open>
  The obligations of \<open>index.go\<close>: a vector of another length is never scored, equal contents give
  equal results, ties are resolved by ascending ID.
\<close>

locale vector_index =
  fixes ok :: "'v \<Rightarrow> bool"
    and stored :: "'v \<Rightarrow> string \<rightharpoonup> real list"
    and add :: "string \<Rightarrow> real list \<Rightarrow> 'v \<Rightarrow> 'v"
    and del :: "string \<Rightarrow> 'v \<Rightarrow> 'v"
    and query :: "real list \<Rightarrow> int \<Rightarrow> 'v \<Rightarrow> hit list"
    and sim :: "real list \<Rightarrow> real list \<Rightarrow> real"
  assumes ok_add: "ok v \<Longrightarrow> ok (add i w v)"
    and ok_del: "ok v \<Longrightarrow> ok (del i v)"
    and stored_add: "ok v \<Longrightarrow> stored (add i w v) = (stored v)(i \<mapsto> w)"
    and stored_del: "ok v \<Longrightarrow> stored (del i v) = (stored v)(i := None)"
    and query_all: "ok v \<Longrightarrow> sorted (query q 0 v) \<and> distinct (ids (query q 0 v)) \<and>
      set (query q 0 v) = {Hit i (sim q w) |i w. stored v i = Some w \<and> length w = length q}"
    and query_top: "ok v \<Longrightarrow> query q k v = topk k (query q 0 v)"
begin

lemma query_subset: "ok v \<Longrightarrow> set (query q k v) \<subseteq> set (query q 0 v)"
  by (metis query_top set_topk)

lemma query_sorted: "ok v \<Longrightarrow> sorted (query q k v) \<and> distinct (ids (query q k v))"
  using query_all [of v q] query_top [of v q k] by (simp add: sorted_topk distinct_ids_topk)

lemma query_bounded: "ok v \<Longrightarrow> 0 < k \<Longrightarrow> int (length (query q k v)) \<le> k"
  using query_top [of v q k] topk_length [of k "query q 0 v"] by simp

lemma dimension_skip:
  assumes "ok v" and "h \<in> set (query q k v)"
  shows "\<exists>w. stored v (ChunkID h) = Some w \<and> length w = length q \<and> Score h = sim q w"
proof -
  have "h \<in> set (query q 0 v)"
    using assms query_subset by blast
  then show ?thesis
    using query_all [OF assms(1), of q] by auto
qed

lemma deterministic:
  assumes "ok v" and "ok v'" and "stored v = stored v'"
  shows "query q k v = query q k v'"
proof -
  have "set (query q 0 v) = set (query q 0 v')"
    using query_all [OF assms(1), of q] query_all [OF assms(2), of q] assms(3) by simp
  moreover have "distinct (query q 0 v)" "distinct (query q 0 v')"
    using query_all [OF assms(1), of q] query_all [OF assms(2), of q] by (auto simp: ids_def distinct_map)
  ultimately have "query q 0 v = query q 0 v'"
    using query_all [OF assms(1), of q] query_all [OF assms(2), of q]
    by (metis sorted_distinct_set_unique)
  then show ?thesis
    using query_top [OF assms(1), of q k] query_top [OF assms(2), of q k] by simp
qed

lemma deleted_not_returned:
  assumes "ok v"
  shows "i \<notin> set (ids (query q k (del i v)))"
proof
  assume "i \<in> set (ids (query q k (del i v)))"
  then obtain h where "h \<in> set (query q k (del i v))" "ChunkID h = i"
    by (auto simp: ids_def)
  then show False
    using dimension_skip [OF ok_del [OF assms]] stored_del [OF assms, of i] by force
qed

lemma nearest:
  assumes "ok v" and "h \<in> set (query q k v)" and "stored v i = Some w" and "length w = length q"
    and "i \<notin> set (ids (query q k v))"
  shows "sim q w \<le> Score h"
proof -
  have "Hit i (sim q w) \<in> set (query q 0 v)"
    using query_all [OF assms(1), of q] assms(3,4) by blast
  moreover have "Hit i (sim q w) \<notin> set (query q k v)"
    using assms(5) by (force simp: ids_def)
  moreover have "h \<in> set (topk k (query q 0 v))"
    using assms(1,2) query_top by metis
  ultimately have "h \<le> Hit i (sim q w)"
    using topk_best query_all [OF assms(1), of q] query_top [OF assms(1), of q k] by metis
  then show ?thesis
    by (auto simp: less_eq_hit_def less_hit_def)
qed

end

section \<open>The store keeps the contract\<close>

definition vec_ok :: "vector \<Rightarrow> bool" where
  "vec_ok v \<longleftrightarrow> distinct (map fst (vec_chunks v))"

lemma keys_put_entry: "fst ` set (put_entry k v m) = insert k (fst ` set m)"
proof (induction m)
  case (Cons e m)
  then show ?case by (cases e) (simp add: insert_commute)
qed simp

lemma distinct_put_entry: "distinct (map fst m) \<Longrightarrow> distinct (map fst (put_entry k v m))"
proof (induction m)
  case (Cons e m)
  then show ?case
    using keys_put_entry [of k v m] by (cases e) auto
qed simp

lemma map_of_put_entry: "map_of (put_entry k v m) = (map_of m)(k \<mapsto> v)"
  by (induction m) (auto simp: fun_eq_iff)

lemma map_of_filter_neq: "map_of (filter (\<lambda>e. fst e \<noteq> k) m) = (map_of m)(k := None)"
  by (induction m) (auto simp: fun_eq_iff)

lemma distinct_map_fst_filter': "distinct (map fst m) \<Longrightarrow> distinct (map fst (filter Q m))"
  by (induction m) auto

interpretation brute_force: vector_index vec_ok "map_of \<circ> vec_chunks" Vec_Add Vec_Delete Vec_Query cosine
proof unfold_locales
  fix v :: vector and i w q k
  assume v: "vec_ok v"
  show "vec_ok (Vec_Add i w v)" "vec_ok (Vec_Delete i v)"
    using v by (simp_all add: vec_ok_def Vec_Add_def Vec_Delete_def distinct_put_entry
        distinct_map_fst_filter')
  show "(map_of \<circ> vec_chunks) (Vec_Add i w v) = ((map_of \<circ> vec_chunks) v)(i \<mapsto> w)"
    "(map_of \<circ> vec_chunks) (Vec_Delete i v) = ((map_of \<circ> vec_chunks) v)(i := None)"
    by (simp_all add: Vec_Add_def Vec_Delete_def map_of_put_entry map_of_filter_neq)
  show "Vec_Query q k v = topk k (Vec_Query q 0 v)"
    by (simp add: Vec_Query_def Let_def topk_def)
  let ?m = "filter (\<lambda>(i, cv). length cv = length q) (vec_chunks v)"
  have q0: "Vec_Query q 0 v = sort (map (\<lambda>(i, cv). Hit i (cosine q cv)) ?m)"
    by (simp add: Vec_Query_def Let_def topk_def)
  have "ids (map (\<lambda>(i, cv). Hit i (cosine q cv)) ?m) = map fst ?m"
    by (auto simp: ids_def)
  then have "distinct (ids (Vec_Query q 0 v))"
    unfolding q0 distinct_ids_sort using v by (simp add: vec_ok_def distinct_map_fst_filter')
  moreover have "map_of (vec_chunks v) i = Some w \<longleftrightarrow> (i, w) \<in> set (vec_chunks v)" for i w
    using v by (simp add: vec_ok_def)
  then have "set (Vec_Query q 0 v) =
      {Hit i (cosine q w) |i w. map_of (vec_chunks v) i = Some w \<and> length w = length q}"
    unfolding q0 by (auto simp: image_iff)
  ultimately show "sorted (Vec_Query q 0 v) \<and> distinct (ids (Vec_Query q 0 v)) \<and>
      set (Vec_Query q 0 v) =
        {Hit i (cosine q w) |i w. (map_of \<circ> vec_chunks) v i = Some w \<and> length w = length q}"
    by (simp add: q0)
qed

text \<open>Every sequence of additions and deletions.\<close>

datatype vec_op = VAdd string "real list" | VDelete string

fun vec_step :: "vec_op \<Rightarrow> vector \<Rightarrow> vector" where
  "vec_step (VAdd i w) v = Vec_Add i w v"
| "vec_step (VDelete i) v = Vec_Delete i v"

definition vec_run :: "vec_op list \<Rightarrow> vector" where
  "vec_run ops = fold vec_step ops NewVector"

lemma vec_run_ok: "vec_ok (vec_run ops)"
proof -
  have "vec_ok v \<Longrightarrow> vec_ok (fold vec_step ops v)" for v
  proof (induction ops arbitrary: v)
    case (Cons op ops)
    then show ?case
      by (cases op) (simp_all add: brute_force.ok_add brute_force.ok_del)
  qed simp
  then show ?thesis
    by (simp add: vec_run_def NewVector_def vec_ok_def)
qed

section \<open>Cosine similarity\<close>

lemma cosine_loop_sum:
  "cosine_loop a b dot na nb =
     (dot + (\<Sum>(x, y) \<leftarrow> zip a b. x * y), na + (\<Sum>(x, y) \<leftarrow> zip a b. x * x),
      nb + (\<Sum>(x, y) \<leftarrow> zip a b. y * y))"
  by (induction a b dot na nb rule: cosine_loop.induct) auto

lemma sum_sq_nonneg: "0 \<le> (\<Sum>(x, y) \<leftarrow> ps. x * (x :: real))" "0 \<le> (\<Sum>(x, y) \<leftarrow> ps. y * (y :: real))"
  by (induction ps) auto

text \<open>Cauchy and Schwarz, on lists of pairs.\<close>

lemma cauchy_schwarz_list:
  fixes ps :: "(real \<times> real) list"
  shows "(\<Sum>(x, y) \<leftarrow> ps. x * y)\<^sup>2 \<le> (\<Sum>(x, y) \<leftarrow> ps. x * x) * (\<Sum>(x, y) \<leftarrow> ps. y * y)"
proof -
  define A where "A = (\<Sum>(x, y) \<leftarrow> ps. x * x)"
  define B where "B = (\<Sum>(x, y) \<leftarrow> ps. y * y)"
  define C where "C = (\<Sum>(x, y) \<leftarrow> ps. x * y)"
  have expand: "(\<Sum>(x, y) \<leftarrow> ps. (s * x - t * y) * (s * x - t * y)) = s\<^sup>2 * A - 2 * s * t * C + t\<^sup>2 * B" for s t
    unfolding A_def B_def C_def by (induction ps) (auto simp: algebra_simps power2_eq_square)
  have nonneg: "0 \<le> (\<Sum>(x, y) \<leftarrow> ps. (s * x - t * y) * (s * x - t * y))" for s t
    by (induction ps) auto
  have AB: "0 \<le> A" "0 \<le> B"
    unfolding A_def B_def using sum_sq_nonneg by blast+
  have "0 \<le> B\<^sup>2 * A - 2 * B * C * C + C\<^sup>2 * B"
    using nonneg [of B C] unfolding expand .
  then have 1: "0 \<le> B * (A * B - C\<^sup>2)"
    by (simp add: algebra_simps power2_eq_square)
  have "C\<^sup>2 \<le> A * B"
  proof (cases "B = 0")
    case True
    then have "0 \<le> A - 2 * t * C" for t
      using nonneg [of 1 t] unfolding expand by simp
    from this [of "(A + 1) / (2 * C)"] this [of 0] have "C = 0"
      by (cases "C = 0") auto
    then show ?thesis using AB by simp
  next
    case False
    then have "0 < B"
      using AB by simp
    then show ?thesis
      using 1 by (simp add: zero_le_mult_iff)
  qed
  then show ?thesis
    by (simp add: A_def B_def C_def)
qed

lemma cosine_bounds: "\<bar>cosine a b\<bar> \<le> 1"
proof -
  define A where "A = (\<Sum>(x, y) \<leftarrow> zip a b. x * x)"
  define B where "B = (\<Sum>(x, y) \<leftarrow> zip a b. y * y)"
  define C where "C = (\<Sum>(x, y) \<leftarrow> zip a b. x * y)"
  have c: "cosine a b = (if A = 0 \<or> B = 0 then 0 else C / (sqrt A * sqrt B))"
    by (simp add: cosine_def cosine_loop_sum A_def B_def C_def)
  have "0 \<le> A" "0 \<le> B" and le: "C\<^sup>2 \<le> A * B"
    using sum_sq_nonneg cauchy_schwarz_list by (simp_all add: A_def B_def C_def)
  have "\<bar>C\<bar> = sqrt (C\<^sup>2)"
    by simp
  also have "\<dots> \<le> sqrt (A * B)"
    using le by (rule real_sqrt_le_mono)
  finally have "\<bar>C\<bar> \<le> sqrt A * sqrt B"
    by (simp add: real_sqrt_mult)
  then show ?thesis
    using \<open>0 \<le> A\<close> \<open>0 \<le> B\<close> by (auto simp: c abs_divide abs_mult divide_le_eq)
qed

lemma cosine_commute: "cosine a b = cosine b a"
proof -
  have "(\<Sum>(x, y) \<leftarrow> zip b a. x * y) = (\<Sum>(x, y) \<leftarrow> zip a b. x * (y :: real))"
    "(\<Sum>(x, y) \<leftarrow> zip b a. x * x) = (\<Sum>(x, y) \<leftarrow> zip a b. y * (y :: real))"
    "(\<Sum>(x, y) \<leftarrow> zip b a. y * y) = (\<Sum>(x, y) \<leftarrow> zip a b. x * (x :: real))"
    by (induction a b rule: list_induct2') auto
  then show ?thesis
    by (simp add: cosine_def cosine_loop_sum mult.commute)
qed

lemma cosine_self:
  assumes "\<exists>x \<in> set a. x \<noteq> 0"
  shows "cosine a a = 1"
proof -
  have eq: "(\<Sum>(x, y) \<leftarrow> zip a a. x * y) = (\<Sum>x \<leftarrow> a. x * x)" for a :: "real list"
    by (induction a) auto
  have "(\<Sum>(x, y) \<leftarrow> zip a a. x * x) = (\<Sum>x \<leftarrow> a. x * x)"
    "(\<Sum>(x, y) \<leftarrow> zip a a. y * y) = (\<Sum>x \<leftarrow> a. x * x)"
    by (induction a) auto
  moreover have "0 \<le> (\<Sum>x \<leftarrow> b. x * (x :: real))" for b
    by (induction b) auto
  then have "0 < (\<Sum>x \<leftarrow> a. x * x)"
    using assms
  proof (induction a)
    case (Cons x a)
    show ?case
    proof (cases "x = 0")
      case True
      then show ?thesis using Cons by auto
    next
      case False
      then have "0 < x * x"
        by (simp add: zero_less_mult_iff) linarith
      then show ?thesis
        using Cons.prems(1) [of a] by simp
    qed
  qed simp
  ultimately show ?thesis
    by (simp add: cosine_def cosine_loop_sum eq)
qed

section \<open>Properties\<close>

text \<open>Nearest-neighbour search is exact, ranked and dimension-safe. After any sequence of
  additions and deletions \<open>Vector.Query\<close> returns at most \<open>k\<close> distinct chunks, best first with ties by
  ID; every one has a stored vector of the query's length and its cosine as the score, which lies
  in \<open>[-1, 1]\<close>; and no stored vector of that length that is left out is more similar.\<close>

theorem vector_query_exact:
  assumes "hits = Vec_Query q k (vec_run ops)"
  shows "sorted hits \<and> distinct (ids hits) \<and> (0 < k \<longrightarrow> int (length hits) \<le> k) \<and>
    (\<forall>h \<in> set hits.
       (\<exists>w. map_of (vec_chunks (vec_run ops)) (ChunkID h) = Some w \<and> length w = length q \<and>
          Score h = cosine q w \<and> \<bar>Score h\<bar> \<le> 1) \<and>
       (\<forall>i w. map_of (vec_chunks (vec_run ops)) i = Some w \<and> length w = length q \<and>
          i \<notin> set (ids hits) \<longrightarrow> cosine q w \<le> Score h))"
proof -
  note ok = vec_run_ok [of ops]
  have "\<exists>w. map_of (vec_chunks (vec_run ops)) (ChunkID h) = Some w \<and> length w = length q \<and>
      Score h = cosine q w \<and> \<bar>Score h\<bar> \<le> 1" if "h \<in> set hits" for h
    using brute_force.dimension_skip [OF ok, of h q k] that cosine_bounds by (auto simp: assms)
  moreover have "cosine q w \<le> Score h"
    if "h \<in> set hits" "map_of (vec_chunks (vec_run ops)) i = Some w" "length w = length q"
      "i \<notin> set (ids hits)" for h i w
    using brute_force.nearest [OF ok, of h q k i w] that by (simp add: assms)
  ultimately show ?thesis
    using brute_force.query_sorted [OF ok, of q k] brute_force.query_bounded [OF ok, of k q]
    unfolding assms by blast
qed

theorem vector_query_exact_witness:
  "length (Vec_Query [1, 0] 1 (vec_run [VAdd ''a'' [1, 0], VAdd ''b'' [0, 1], VAdd ''c'' [1]])) \<le> 1"
proof -
  define hits where "hits = Vec_Query [1, 0] 1 (vec_run [VAdd ''a'' [1, 0], VAdd ''b'' [0, 1], VAdd ''c'' [1]])"
  have "0 < (1 :: int) \<longrightarrow> int (length hits) \<le> 1"
    by (rule vector_query_exact [OF hits_def, THEN conjunct2, THEN conjunct2, THEN conjunct1])
  then have "length hits \<le> 1"
    by simp
  then show ?thesis
    unfolding hits_def .
qed

text \<open>The store is deterministic. Two histories of additions and deletions that leave the same
  vectors answer every query with the same list.\<close>

theorem vector_query_deterministic:
  assumes "map_of (vec_chunks (vec_run ops)) = map_of (vec_chunks (vec_run ops'))"
  shows "Vec_Query q k (vec_run ops) = Vec_Query q k (vec_run ops')"
  by (rule brute_force.deterministic [OF vec_run_ok vec_run_ok]) (simp only: comp_apply assms)

theorem vector_query_deterministic_witness:
  "Vec_Query [1, 0] 2 (vec_run [VAdd ''a'' [1, 0], VAdd ''b'' [2, 0]]) =
   Vec_Query [1, 0] 2 (vec_run [VAdd ''b'' [3, 3], VAdd ''c'' [0, 1], VAdd ''b'' [2, 0],
     VAdd ''a'' [1, 0], VDelete ''c''])"
proof (rule vector_query_deterministic)
  have "vec_chunks (vec_run [VAdd ''a'' [1, 0], VAdd ''b'' [2, 0]]) = [(''a'', [1, 0]), (''b'', [2, 0])]"
    and "vec_chunks (vec_run [VAdd ''b'' [3, 3], VAdd ''c'' [0, 1], VAdd ''b'' [2, 0],
      VAdd ''a'' [1, 0], VDelete ''c'']) = [(''b'', [2, 0]), (''a'', [1, 0])]"
    by (simp_all add: vec_run_def NewVector_def Vec_Add_def Vec_Delete_def)
  then show "map_of (vec_chunks (vec_run [VAdd ''a'' [1, 0], VAdd ''b'' [2, 0]])) =
      map_of (vec_chunks (vec_run [VAdd ''b'' [3, 3], VAdd ''c'' [0, 1], VAdd ''b'' [2, 0],
        VAdd ''a'' [1, 0], VDelete ''c'']))"
    by (simp add: fun_upd_twist)
qed

end
