(* ===== verification/Retrieval.thy ===== *)
theory Retrieval
  imports Fts Vector_Index
begin

text \<open>
  Fusion of the two indexes: \<open>internal/index/retrieval.go\<close>, with the query seams of
  \<open>filter.go\<close>, \<open>transform.go\<close> and \<open>classify.go\<close>. The embedding function and the reranker are
  interfaces of the code whose implementations call model servers: functions that also change
  a state \<open>'s\<close> of the outside world (and of the caches in front of it). The vector index is
  the interface \<open>VectorIndex\<close>, of which retrieval uses \<open>Query\<close>. Scores are real numbers.
\<close>

datatype mode = ModeHybrid | ModeSemantic | ModeKeyword

definition ParseMode :: "string \<Rightarrow> mode" where
  "ParseMode s =
     (if s = ''semantic'' then ModeSemantic else if s = ''keyword'' then ModeKeyword else ModeHybrid)"

type_synonym 's embed_fn = "string list \<Rightarrow> 's \<Rightarrow> real list list gres \<times> 's"

record 's retrieval =
  r_ws :: ws
  r_vec :: "real list \<Rightarrow> int \<Rightarrow> hit list"
  r_embed :: "'s embed_fn option"
  rrfK :: int
  poolSize :: int
  retryRerank :: bool
  keep :: "(string \<Rightarrow> bool) option"

definition NewRetrieval ::
    "ws \<Rightarrow> (real list \<Rightarrow> int \<Rightarrow> hit list) \<Rightarrow> 's embed_fn option \<Rightarrow> 's retrieval" where
  "NewRetrieval ws vec emb =
     \<lparr>r_ws = ws, r_vec = vec, r_embed = emb, rrfK = 60, poolSize = 60, retryRerank = False, keep = None\<rparr>"

definition SetRRFK :: "int \<Rightarrow> 's retrieval \<Rightarrow> 's retrieval" where
  "SetRRFK k r = (if 0 < k then r\<lparr>rrfK := k\<rparr> else r)"

definition SetPoolSize :: "int \<Rightarrow> 's retrieval \<Rightarrow> 's retrieval" where
  "SetPoolSize n r = (if 0 < n then r\<lparr>poolSize := n\<rparr> else r)"

definition EnableRerankRetry :: "'s retrieval \<Rightarrow> 's retrieval" where
  "EnableRerankRetry r = r\<lparr>retryRerank := True\<rparr>"

definition SetFilter :: "(string \<Rightarrow> bool) option \<Rightarrow> 's retrieval \<Rightarrow> 's retrieval" where
  "SetFilter kp r = r\<lparr>keep := kp\<rparr>"

section \<open>Fusion and collapse\<close>

definition filterHits :: "'s retrieval \<Rightarrow> hit list \<Rightarrow> hit list" where
  "filterHits r hits =
     (case keep r of None \<Rightarrow> hits | Some kp \<Rightarrow> filter (\<lambda>h. kp (ChunkID h)) hits)"

definition rrf_adds :: "int \<Rightarrow> hit list \<Rightarrow> (string \<times> real) list" where
  "rrf_adds k hits = map (\<lambda>(rank, h). (ChunkID h, 1 / real_of_int (k + int rank + 1))) (enumerate 0 hits)"

definition ReciprocalRankFusionN :: "hit list list \<Rightarrow> int \<Rightarrow> hit list" where
  "ReciprocalRankFusionN allLists k =
     sort (hits_of (bump_all (concat (map (rrf_adds k) allLists)) []))"

definition reciprocalRankFusion :: "hit list \<Rightarrow> hit list \<Rightarrow> int \<Rightarrow> hit list" where
  "reciprocalRankFusion vectorHits ftsHits k = ReciprocalRankFusionN [vectorHits, ftsHits] k"

fun collapse_loop :: "(string \<Rightarrow> string) \<Rightarrow> int \<Rightarrow> hit list \<Rightarrow> string set \<Rightarrow> hit list \<Rightarrow> hit list" where
  "collapse_loop docOf k [] seen out = out"
| "collapse_loop docOf k (h # hs) seen out =
     (let d = docOf (ChunkID h) in
      if d \<in> seen then collapse_loop docOf k hs seen out
      else
        let out' = out @ [h] in
        if 0 < k \<and> k \<le> int (length out') then out'
        else collapse_loop docOf k hs (insert d seen) out')"

definition CollapseByDoc :: "hit list \<Rightarrow> int \<Rightarrow> (string \<Rightarrow> string) option \<Rightarrow> hit list" where
  "CollapseByDoc hits k docOf =
     (case docOf of
        None \<Rightarrow> if 0 < k \<and> k < int (length hits) then take (nat k) hits else hits
      | Some doc \<Rightarrow> collapse_loop doc k hits {} [])"

section \<open>Search\<close>

definition semantic :: "'s retrieval \<Rightarrow> string \<Rightarrow> 's \<Rightarrow> hit list gres \<times> 's" where
  "semantic r query s =
     (case r_embed r of
        None \<Rightarrow> (Inr [], s)
      | Some emb \<Rightarrow>
          (case emb [query] s of
             (Inl e, s') \<Rightarrow> (Inl e, s')
           | (Inr [], s') \<Rightarrow> (Inr [], s')
           | (Inr (v # _), s') \<Rightarrow> (Inr (r_vec r v (poolSize r)), s')))"

definition CandidateLists ::
    "'db pebble_ops \<Rightarrow> unicode \<Rightarrow> 'db \<Rightarrow> 's retrieval \<Rightarrow> string \<Rightarrow> mode \<Rightarrow> fts \<times> 's \<Rightarrow>
     hit list list gres \<times> fts \<times> 's" where
  "CandidateLists P u d r query mode st =
     (case st of (f, s) \<Rightarrow>
       (case mode of
          ModeKeyword \<Rightarrow>
            (let (hits, f') = FTS_Search P u d (r_ws r) query (poolSize r) f
             in (Inr [filterHits r hits], f', s))
        | ModeSemantic \<Rightarrow>
            (case semantic r query s of
               (Inl e, s') \<Rightarrow> (Inl e, f, s')
             | (Inr hits, s') \<Rightarrow> (Inr [filterHits r hits], f, s'))
        | ModeHybrid \<Rightarrow>
            (let (fh, f') = FTS_Search P u d (r_ws r) query (poolSize r) f; fHits = filterHits r fh
             in case semantic r query s of
                  (Inl e, s') \<Rightarrow> (Inl e, f', s')
                | (Inr vHits, s') \<Rightarrow> (Inr [filterHits r vHits, fHits], f', s'))))"

definition Search ::
    "'db pebble_ops \<Rightarrow> unicode \<Rightarrow> 'db \<Rightarrow> 's retrieval \<Rightarrow> string \<Rightarrow> int \<Rightarrow> mode \<Rightarrow>
     (string \<Rightarrow> string) option \<Rightarrow> fts \<times> 's \<Rightarrow> hit list gres \<times> fts \<times> 's" where
  "Search P u d r query k mode docOf st =
     (case st of (f, s) \<Rightarrow>
       (case mode of
          ModeKeyword \<Rightarrow>
            (let (hits, f') = FTS_Search P u d (r_ws r) query (poolSize r) f
             in (Inr (CollapseByDoc (filterHits r hits) k docOf), f', s))
        | ModeSemantic \<Rightarrow>
            (case semantic r query s of
               (Inl e, s') \<Rightarrow> (Inl e, f, s')
             | (Inr hits, s') \<Rightarrow> (Inr (CollapseByDoc (filterHits r hits) k docOf), f, s'))
        | ModeHybrid \<Rightarrow>
            (let (fh, f') = FTS_Search P u d (r_ws r) query (poolSize r) f; fHits = filterHits r fh
             in case semantic r query s of
                  (Inl e, s') \<Rightarrow> (Inl e, f', s')
                | (Inr vHits, s') \<Rightarrow>
                    (let fused = reciprocalRankFusion (filterHits r vHits) fHits (rrfK r)
                     in (Inr (CollapseByDoc fused k docOf), f', s')))))"

section \<open>Reranking\<close>

record 's reranker =
  rr_score :: "string \<Rightarrow> string list \<Rightarrow> 's \<Rightarrow> (real list \<times> go_error option) \<times> 's"

record rerankFail =
  rf_candidates :: nat
  rf_scores :: nat
  rf_err :: "go_error option"

definition maxRetryPool :: int where "maxRetryPool = 200"

text \<open>\<open>sort.Slice\<close> by descending score; it may order equal scores as it likes.\<close>

type_synonym scored_sort = "(hit \<times> real) list \<Rightarrow> (hit \<times> real) list"

definition slice_sort :: "scored_sort \<Rightarrow> bool" where
  "slice_sort srt \<longleftrightarrow> (\<forall>ss. mset (srt ss) = mset ss \<and> sorted_wrt (\<lambda>a b. snd b \<le> snd a) (srt ss))"

definition attemptRerank ::
    "'db pebble_ops \<Rightarrow> unicode \<Rightarrow> scored_sort \<Rightarrow> 'db \<Rightarrow> 's retrieval \<Rightarrow> string \<Rightarrow> int \<Rightarrow> mode \<Rightarrow>
     (string \<Rightarrow> string) option \<Rightarrow> 's reranker \<Rightarrow> (string \<Rightarrow> string) \<Rightarrow> int \<Rightarrow> fts \<times> 's \<Rightarrow>
     (hit list \<times> rerankFail option) gres \<times> fts \<times> 's" where
  "attemptRerank P u srt d r query k mode docOf rr chunkText pool st =
     (case Search P u d r query pool mode docOf st of
        (Inl e, st') \<Rightarrow> (Inl e, st')
      | (Inr hits, f, s) \<Rightarrow>
          if hits = [] then (Inr (hits, None), f, s)
          else
            let texts = map (\<lambda>h. chunkText (ChunkID h)) hits;
                n = length hits;
                ((scores, err), s') = rr_score rr query texts s
            in if err \<noteq> None \<or> length scores \<noteq> n
               then (Inr (if k < int n then take (nat k) hits else hits,
                          Some \<lparr>rf_candidates = n, rf_scores = length scores, rf_err = err\<rparr>), f, s')
               else
                 let ss = srt (zip hits scores)
                 in (Inr (map (\<lambda>(h, sc). Hit (ChunkID h) sc) (take (nat k) ss), None), f, s'))"

definition SearchWithRerank ::
    "'db pebble_ops \<Rightarrow> unicode \<Rightarrow> scored_sort \<Rightarrow> 'db \<Rightarrow> 's retrieval \<Rightarrow> string \<Rightarrow> int \<Rightarrow> mode \<Rightarrow>
     (string \<Rightarrow> string) option \<Rightarrow> 's reranker option \<Rightarrow> (string \<Rightarrow> string) \<Rightarrow> fts \<times> 's \<Rightarrow>
     (hit list \<times> bool) gres \<times> fts \<times> 's" where
  "SearchWithRerank P u srt d r query k mode docOf reranker chunkText st =
     (case reranker of
        None \<Rightarrow>
          (case Search P u d r query k mode docOf st of
             (Inl e, st') \<Rightarrow> (Inl e, st')
           | (Inr hits, st') \<Rightarrow> (Inr (hits, False), st'))
      | Some rr \<Rightarrow>
          let pool = (if poolSize r < k then k else poolSize r) in
          (case attemptRerank P u srt d r query k mode docOf rr chunkText pool st of
             (Inl e, st') \<Rightarrow> (Inl e, st')
           | (Inr (hits, None), st') \<Rightarrow> (Inr (hits, False), st')
           | (Inr (hits, Some fail), st') \<Rightarrow>
               if retryRerank r then
                 let retryPool = (if maxRetryPool < pool * 2 then maxRetryPool else pool * 2) in
                 if pool < retryPool then
                   (case attemptRerank P u srt d r query k mode docOf rr chunkText retryPool st' of
                      (Inl e, st'') \<Rightarrow> (Inl e, st'')
                    | (Inr (h2, None), st'') \<Rightarrow> (Inr (h2, False), st'')
                    | (Inr (h2, Some fail2), st'') \<Rightarrow> (Inr (h2, True), st''))
                 else (Inr (hits, True), st')
               else (Inr (hits, True), st')))"

section \<open>Query seams\<close>

text \<open>
  \<open>path.Match\<close> (with its error) and \<open>strings.EqualFold\<close> of the Go library are the parameters
  \<open>glob\<close> and \<open>fold_eq\<close>.
\<close>

record query_filter =
  flt_Source :: string
  flt_Type :: string
  flt_Tags :: "string list"

definition Filter_Empty :: "query_filter \<Rightarrow> bool" where
  "Filter_Empty f \<longleftrightarrow> flt_Source f = [] \<and> flt_Type f = [] \<and> flt_Tags f = []"

definition sourceMatches :: "(string \<Rightarrow> string \<Rightarrow> bool gres) \<Rightarrow> string \<Rightarrow> string \<Rightarrow> bool" where
  "sourceMatches glob pattern filePath =
     (if \<exists>c \<in> set pattern. c \<in> set ''*?['' then glob pattern filePath = Inr True
      else has_prefix filePath pattern)"

definition Filter_Matches ::
    "(string \<Rightarrow> string \<Rightarrow> bool gres) \<Rightarrow> (string \<Rightarrow> string \<Rightarrow> bool) \<Rightarrow> query_filter \<Rightarrow> string \<Rightarrow> string \<Rightarrow>
     string list \<Rightarrow> bool" where
  "Filter_Matches glob fold_eq f filePath fileType docTags =
     (if flt_Source f \<noteq> [] \<and> \<not> sourceMatches glob (flt_Source f) filePath then False
      else if flt_Type f \<noteq> [] \<and> \<not> fold_eq (flt_Type f) fileType then False
      else \<forall>want \<in> set (flt_Tags f). want \<in> set docTags)"

definition normalizeQuery :: "unicode \<Rightarrow> string \<Rightarrow> string" where
  "normalizeQuery u s = ToLower u (Join (Fields s) '' '')"

definition Transform :: "unicode \<Rightarrow> string \<Rightarrow> string list gres" where
  "Transform u query =
     (let n = normalizeQuery u query in
      if n = [] then Inl (Failed ''query is empty after normalization'') else Inr [n])"

definition PoolSlack :: int where "PoolSlack = 10"
definition PoolFloor :: int where "PoolFloor = 20"

definition comparativeTerms :: "string set" where
  "comparativeTerms = set
     [''compare'', ''comparison'', ''comparisons'', ''comparing'', ''vs'', ''versus'', ''differ'',
      ''difference'', ''differences'', ''different'', ''between'', ''across'', ''all'', ''every'',
      ''each'', ''list'', ''summarize'', ''overview'', ''survey'']"

definition hasComparative :: "string \<Rightarrow> bool" where
  "hasComparative query \<longleftrightarrow> (\<exists>tok \<in> set (Fields query). tok \<in> comparativeTerms)"

definition Classify :: "string \<Rightarrow> int" where
  "Classify query =
     (let n = length (Fields query) in
      if n = 0 then 0 else if hasComparative query then 0 else if n \<le> 3 then 3 else 0)"

definition EffectivePoolFor :: "int \<Rightarrow> int \<Rightarrow> int \<Rightarrow> int \<Rightarrow> int" where
  "EffectivePoolFor k slack flr ceil =
     (let p = k + slack; p1 = (if p < flr then flr else p)
      in if ceil < p1 then ceil else p1)"

section \<open>Collapse keeps the best hit of every document\<close>

fun firsts :: "(string \<Rightarrow> string) \<Rightarrow> string set \<Rightarrow> hit list \<Rightarrow> hit list" where
  "firsts docOf seen [] = []"
| "firsts docOf seen (h # hs) =
     (if docOf (ChunkID h) \<in> seen then firsts docOf seen hs
      else h # firsts docOf (insert (docOf (ChunkID h)) seen) hs)"

lemma collapse_loop_firsts:
  "0 < k \<Longrightarrow> int (length out) < k \<Longrightarrow>
   collapse_loop docOf k hs seen out = out @ take (nat k - length out) (firsts docOf seen hs)"
proof (induction docOf k hs seen out rule: collapse_loop.induct)
  case (2 docOf k h hs seen out)
  show ?case
  proof (cases "docOf (ChunkID h) \<in> seen \<or> \<not> k \<le> int (length (out @ [h]))")
    case True
    have "nat k - length out = Suc (nat k - Suc (length out))"
      using 2(4) by simp
    then show ?thesis
      using True 2 by (auto simp: Let_def)
  next
    case False
    then have "nat k - length out = 1"
      using 2(4) by simp linarith
    then show ?thesis
      using False 2(3) by (simp add: Let_def)
  qed
qed simp

lemma collapse_loop_all: "k \<le> 0 \<Longrightarrow> collapse_loop docOf k hs seen out = out @ firsts docOf seen hs"
  by (induction docOf k hs seen out rule: collapse_loop.induct) (auto simp: Let_def)

lemma CollapseByDoc_eq:
  "CollapseByDoc hits k docOf =
     topk k (case docOf of None \<Rightarrow> hits | Some doc \<Rightarrow> firsts doc {} hits)"
proof (cases docOf)
  case None
  then show ?thesis by (simp add: CollapseByDoc_def topk_def)
next
  case (Some doc)
  show ?thesis
  proof (cases "0 < k")
    case True
    then show ?thesis
      using Some collapse_loop_firsts [OF True, of "[]" doc hits "{}"]
      by (simp add: CollapseByDoc_def topk_def)
  next
    case False
    then show ?thesis
      using Some by (simp add: CollapseByDoc_def topk_def collapse_loop_all)
  qed
qed

lemma set_firsts: "set (firsts docOf seen hs) \<subseteq> set hs"
  by (induction hs arbitrary: seen) auto

lemma sorted_firsts: "sorted hs \<Longrightarrow> sorted (firsts docOf seen hs)"
proof (induction hs arbitrary: seen)
  case (Cons h hs)
  then show ?case
    using set_firsts [of docOf "insert (docOf (ChunkID h)) seen" hs] by auto
qed simp

lemma distinct_ids_firsts: "distinct (ids hs) \<Longrightarrow> distinct (ids (firsts docOf seen hs))"
proof (induction hs arbitrary: seen)
  case (Cons h hs)
  then show ?case
    using set_firsts [of docOf "insert (docOf (ChunkID h)) seen" hs] by (auto simp: ids_def)
qed simp

lemma docs_firsts:
  "distinct (map (\<lambda>h. docOf (ChunkID h)) (firsts docOf seen hs)) \<and>
   (\<lambda>h. docOf (ChunkID h)) ` set (firsts docOf seen hs) = (\<lambda>h. docOf (ChunkID h)) ` set hs - seen"
proof (induction hs arbitrary: seen)
  case Nil
  then show ?case by simp
next
  case (Cons h hs)
  show ?case
  proof (cases "docOf (ChunkID h) \<in> seen")
    case True
    then show ?thesis using Cons [of seen] by (simp add: insert_absorb insert_Diff_if)
  next
    case False
    then show ?thesis
      using Cons [of "insert (docOf (ChunkID h)) seen"] by (simp add: insert_Diff_if) blast
  qed
qed

lemma distinct_docs_firsts:
  "distinct (map (\<lambda>h. docOf (ChunkID h)) (firsts docOf seen hs))"
  "h \<in> set (firsts docOf seen hs) \<Longrightarrow> docOf (ChunkID h) \<notin> seen"
  using docs_firsts [of docOf seen hs] by blast+

lemma firsts_covers:
  assumes "h \<in> set hs" and "docOf (ChunkID h) \<notin> seen"
  shows "\<exists>h' \<in> set (firsts docOf seen hs). docOf (ChunkID h') = docOf (ChunkID h)"
proof -
  have "docOf (ChunkID h) \<in> (\<lambda>h. docOf (ChunkID h)) ` set (firsts docOf seen hs)"
    using assms docs_firsts [of docOf seen hs] by blast
  then show ?thesis by force
qed

lemma firsts_best:
  assumes "sorted hs" and "h \<in> set hs" and "h' \<in> set (firsts docOf seen hs)"
    and "docOf (ChunkID h) = docOf (ChunkID h')"
  shows "h' \<le> h"
  using assms(1-3)
proof (induction hs arbitrary: seen)
  case (Cons x hs)
  have out: "docOf (ChunkID h') \<notin> seen"
    using distinct_docs_firsts(2) [OF Cons.prems(3)] .
  show ?case
  proof (cases "h' = x")
    case True
    then show ?thesis using Cons.prems(1,2) by auto
  next
    case False
    have "h \<noteq> x \<and> (\<exists>seen'. h' \<in> set (firsts docOf seen' hs))"
    proof (cases "docOf (ChunkID x) \<in> seen")
      case True
      then show ?thesis
        using out assms(4) Cons.prems(3) by auto
    next
      case new: False
      then have h': "h' \<in> set (firsts docOf (insert (docOf (ChunkID x)) seen) hs)"
        using Cons.prems(3) False by simp
      then show ?thesis
        using distinct_docs_firsts(2) [OF h'] assms(4) by auto
    qed
    then show ?thesis
      using Cons.IH Cons.prems(1,2) by auto
  qed
qed simp

lemma set_CollapseByDoc: "set (CollapseByDoc hits k docOf) \<subseteq> set hits"
proof -
  have sub: "set (firsts doc {} hits) \<subseteq> set hits" for doc
    by (rule set_firsts)
  show ?thesis
  proof (cases docOf)
    case None
    then show ?thesis using set_topk [of k hits] by (simp add: CollapseByDoc_eq)
  next
    case (Some doc)
    then show ?thesis
      using sub [of doc] set_topk [of k "firsts doc {} hits"] by (simp add: CollapseByDoc_eq)
  qed
qed

lemma take_topk: "0 < k \<Longrightarrow> k \<le> pool \<Longrightarrow>
   (if k < int (length (topk pool xs)) then take (nat k) (topk pool xs) else topk pool xs) = topk k xs"
  by (auto simp: topk_def min_def)

section \<open>Reciprocal rank fusion\<close>

definition rrf_score :: "int \<Rightarrow> hit list list \<Rightarrow> string \<Rightarrow> real" where
  "rrf_score k lsts c = (\<Sum>l \<leftarrow> lsts. tally c (rrf_adds k l))"

lemma tally_concat: "tally c (concat us) = (\<Sum>u \<leftarrow> us. tally c u)"
  by (induction us) auto

lemma keys_rrf_adds: "fst ` set (rrf_adds k l) = set (ids l)"
proof -
  have "map fst (rrf_adds k l) = map ChunkID (map snd (enumerate 0 l))"
    unfolding rrf_adds_def map_map comp_def by (rule map_cong) auto
  then have "map fst (rrf_adds k l) = ids l"
    unfolding ids_def map_snd_enumerate .
  then show ?thesis
    by (metis set_map)
qed

lemma ids_RRF: "set (ids (ReciprocalRankFusionN lsts k)) = (\<Union>l \<in> set lsts. set (ids l))"
proof -
  let ?us = "concat (map (rrf_adds k) lsts)"
  have "set (ids (ReciprocalRankFusionN lsts k)) = set (ids (hits_of (bump_all ?us [])))"
    by (simp add: ReciprocalRankFusionN_def ids_def)
  also have "\<dots> = fst ` set ?us"
    by (simp add: keys_bump_all del: set_concat)
  also have "\<dots> = (\<Union>l \<in> set lsts. fst ` set (rrf_adds k l))"
    by auto
  finally show ?thesis
    by (simp add: keys_rrf_adds)
qed

lemma RRF_facts:
  "sorted (ReciprocalRankFusionN lsts k) \<and> distinct (ids (ReciprocalRankFusionN lsts k)) \<and>
   (\<forall>h \<in> set (ReciprocalRankFusionN lsts k). Score h = rrf_score k lsts (ChunkID h))"
proof -
  let ?us = "concat (map (rrf_adds k) lsts)"
  have dist: "distinct (map fst (bump_all ?us []))"
    by (simp add: distinct_bump_all)
  have "Score h = rrf_score k lsts (ChunkID h)" if h_in: "h \<in> set (ReciprocalRankFusionN lsts k)" for h
  proof -
    obtain c s where h: "h = Hit c s" and "(c, s) \<in> set (bump_all ?us [])"
      using h_in unfolding ReciprocalRankFusionN_def set_sort set_hits_of by blast
    then have "map_of (bump_all ?us []) c = Some s"
      using dist by simp
    then have "s = tally c ?us"
      by (simp add: map_of_bump_all split: if_splits)
    then show ?thesis
      by (simp add: h rrf_score_def tally_concat comp_def)
  qed
  then show ?thesis
    using dist by (simp add: ReciprocalRankFusionN_def distinct_ids_sort)
qed

text \<open>The contribution of one list, with the ranks starting at \<open>n\<close>.\<close>

definition rrf_from :: "int \<Rightarrow> nat \<Rightarrow> hit list \<Rightarrow> (string \<times> real) list" where
  "rrf_from k n l = map (\<lambda>(rank, h). (ChunkID h, 1 / real_of_int (k + int rank + 1))) (enumerate n l)"

lemma rrf_from_simps:
  "rrf_from k n [] = []"
  "rrf_from k n (h # l) = (ChunkID h, 1 / real_of_int (k + int n + 1)) # rrf_from k (Suc n) l"
  by (simp_all add: rrf_from_def)

lemma rrf_from_nonneg: "0 \<le> k \<Longrightarrow> 0 \<le> tally c (rrf_from k n l)"
  by (induction l arbitrary: n) (auto simp: rrf_from_simps)

lemma rrf_from_at_least:
  "0 \<le> k \<Longrightarrow> i < length l \<Longrightarrow> ChunkID (l ! i) = c \<Longrightarrow>
   1 / real_of_int (k + int (n + i) + 1) \<le> tally c (rrf_from k n l)"
proof (induction l arbitrary: n i)
  case (Cons h l)
  show ?case
  proof (cases i)
    case 0
    then show ?thesis
      using Cons.prems rrf_from_nonneg [of k c "Suc n" l] by (simp add: rrf_from_simps)
  next
    case (Suc j)
    then have "1 / real_of_int (k + int (Suc n + j) + 1) \<le> tally c (rrf_from k (Suc n) l)"
      using Cons.IH [of j "Suc n"] Cons.prems by simp
    moreover have "tally c (rrf_from k (Suc n) l) \<le> tally c (rrf_from k n (h # l))"
      using Cons.prems(1) by (simp add: rrf_from_simps)
    ultimately show ?thesis
      using Suc by simp
  qed
qed simp

lemma rrf_from_absent: "c \<notin> set (ids l) \<Longrightarrow> tally c (rrf_from k n l) = 0"
  by (induction l arbitrary: n) (auto simp: rrf_from_simps ids_def)

lemma rrf_from_exact:
  "distinct (ids l) \<Longrightarrow> j < length l \<Longrightarrow> ChunkID (l ! j) = c \<Longrightarrow>
   tally c (rrf_from k n l) = 1 / real_of_int (k + int (n + j) + 1)"
proof (induction l arbitrary: n j)
  case (Cons h l)
  show ?case
  proof (cases j)
    case 0
    then show ?thesis
      using Cons.prems rrf_from_absent [of c l k "Suc n"] by (simp add: rrf_from_simps ids_def)
  next
    case (Suc i)
    then have "c \<in> set (ids l)"
      using Cons.prems by (auto simp: ids_def)
    then have "ChunkID h \<noteq> c"
      using Cons.prems(1) by (auto simp: ids_def)
    then show ?thesis
      using Cons.IH [of i "Suc n"] Cons.prems Suc by (simp add: rrf_from_simps ids_def)
  qed
qed simp

lemma rrf_adds_from: "rrf_adds k l = rrf_from k 0 l"
  by (simp add: rrf_adds_def rrf_from_def)

text \<open>A list in which \<open>c\<close> comes before \<open>c'\<close> wherever \<open>c'\<close> occurs.\<close>

definition ranks_above :: "string \<Rightarrow> string \<Rightarrow> hit list \<Rightarrow> bool" where
  "ranks_above c c' l \<longleftrightarrow>
     (\<forall>j < length l. ChunkID (l ! j) = c' \<longrightarrow> (\<exists>i < j. ChunkID (l ! i) = c))"

lemma rrf_adds_above:
  assumes "0 \<le> k" and "distinct (ids l)" and "ranks_above c c' l"
  shows "tally c' (rrf_adds k l) \<le> tally c (rrf_adds k l) \<and>
    (c' \<in> set (ids l) \<longrightarrow> tally c' (rrf_adds k l) < tally c (rrf_adds k l))"
proof (cases "c' \<in> set (ids l)")
  case False
  then show ?thesis
    using rrf_from_absent rrf_from_nonneg [OF assms(1)] by (simp add: rrf_adds_from)
next
  case True
  then obtain j where j: "j < length l" "ChunkID (l ! j) = c'"
    by (auto simp: ids_def in_set_conv_nth)
  then obtain i where i: "i < j" "ChunkID (l ! i) = c"
    using assms(3) by (auto simp: ranks_above_def)
  have "tally c' (rrf_adds k l) = 1 / real_of_int (k + int j + 1)"
    using rrf_from_exact [OF assms(2) j, of k 0] by (simp add: rrf_adds_from)
  also have "\<dots> < 1 / real_of_int (k + int i + 1)"
    using i(1) assms(1) by (intro divide_strict_left_mono) auto
  also have "\<dots> \<le> tally c (rrf_adds k l)"
    using rrf_from_at_least [OF assms(1) _ i(2), of 0] i(1) j(1) by (simp add: rrf_adds_from)
  finally show ?thesis by simp
qed

lemma rrf_score_above:
  assumes "0 \<le> k" and "\<forall>l \<in> set lsts. distinct (ids l) \<and> ranks_above c c' l"
    and "\<exists>l \<in> set lsts. c' \<in> set (ids l)"
  shows "rrf_score k lsts c' < rrf_score k lsts c"
proof -
  have le: "rrf_score k ls c' \<le> rrf_score k ls c"
    if "\<forall>l \<in> set ls. distinct (ids l) \<and> ranks_above c c' l" for ls
    using that
  proof (induction ls)
    case (Cons l ls)
    then show ?case
      using rrf_adds_above [OF assms(1), of l c c'] by (simp add: rrf_score_def add_mono)
  qed (simp add: rrf_score_def)
  show ?thesis
    using assms(2,3)
  proof (induction lsts)
    case (Cons l ls)
    note l = rrf_adds_above [OF assms(1), of l c c']
    show ?case
    proof (cases "c' \<in> set (ids l)")
      case True
      then have "tally c' (rrf_adds k l) < tally c (rrf_adds k l)"
        using l Cons.prems(1) by simp
      then show ?thesis
        using le [of ls] Cons.prems(1) by (simp add: rrf_score_def add_less_le_mono)
    next
      case False
      then have "rrf_score k ls c' < rrf_score k ls c"
        using Cons by simp
      then show ?thesis
        using l Cons.prems(1) by (simp add: rrf_score_def add_le_less_mono)
    qed
  qed simp
qed

section \<open>Search keeps its promises\<close>

definition kept :: "'s retrieval \<Rightarrow> string \<Rightarrow> bool" where
  "kept r c \<longleftrightarrow> (case keep r of None \<Rightarrow> True | Some kp \<Rightarrow> kp c)"

definition one_per_doc :: "(string \<Rightarrow> string) option \<Rightarrow> hit list \<Rightarrow> bool" where
  "one_per_doc docOf hits \<longleftrightarrow>
     (case docOf of None \<Rightarrow> True | Some doc \<Rightarrow> distinct (map (\<lambda>h. doc (ChunkID h)) hits))"

lemma filterHits_kept: "h \<in> set (filterHits r hits) \<Longrightarrow> kept r (ChunkID h)"
  by (auto simp: filterHits_def kept_def split: option.splits)

lemma RRF_kept:
  assumes "h \<in> set (ReciprocalRankFusionN lsts k)" and "\<forall>l \<in> set lsts. \<forall>h \<in> set l. kept r (ChunkID h)"
  shows "kept r (ChunkID h)"
proof -
  have "ChunkID h \<in> set (ids (ReciprocalRankFusionN lsts k))"
    using assms(1) by (simp add: ids_def)
  then show ?thesis
    using assms(2) unfolding ids_RRF by (auto simp: ids_def)
qed

lemma CollapseByDoc_facts:
  "0 < k \<Longrightarrow> int (length (CollapseByDoc hits k docOf)) \<le> k"
  "one_per_doc docOf (CollapseByDoc hits k docOf)"
proof -
  show "0 < k \<Longrightarrow> int (length (CollapseByDoc hits k docOf)) \<le> k"
    by (simp add: CollapseByDoc_eq topk_length)
  show "one_per_doc docOf (CollapseByDoc hits k docOf)"
  proof (cases docOf)
    case (Some doc)
    obtain n where "topk k (firsts doc {} hits) = take n (firsts doc {} hits)"
      using topk_take by blast
    then show ?thesis
      using distinct_docs_firsts(1) [of doc "{}" hits]
      by (simp add: Some one_per_doc_def CollapseByDoc_eq take_map [symmetric])
  qed (simp add: one_per_doc_def)
qed

text \<open>Every mode collapses one list of candidates, which does not depend on \<open>k\<close>.\<close>

lemma Search_candidates:
  obtains (error) e st' where "\<And>k docOf. Search P u d r query k mode docOf st = (Inl e, st')"
  | (cands) cs st' where "\<And>k docOf. Search P u d r query k mode docOf st = (Inr (CollapseByDoc cs k docOf), st')"
    and "\<forall>h \<in> set cs. kept r (ChunkID h)"
proof -
  obtain f s where st: "st = (f, s)" by (cases st)
  obtain fh f' where fts: "FTS_Search P u d (r_ws r) query (poolSize r) f = (fh, f')"
    by (cases "FTS_Search P u d (r_ws r) query (poolSize r) f")
  obtain v s' where sem: "semantic r query s = (v, s')"
    by (cases "semantic r query s")
  show thesis
  proof (cases mode)
    case ModeKeyword
    then show thesis
      using cands [of "filterHits r fh" "(f', s)"] filterHits_kept [of _ r fh]
      by (simp add: Search_def st fts)
  next
    case ModeSemantic
    show thesis
    proof (cases v)
      case (Inl e)
      then show thesis using error [of e "(f, s')"] ModeSemantic by (simp add: Search_def st sem)
    next
      case (Inr hits)
      then show thesis
        using cands [of "filterHits r hits" "(f, s')"] filterHits_kept [of _ r hits] ModeSemantic
        by (simp add: Search_def st sem)
    qed
  next
    case ModeHybrid
    show thesis
    proof (cases v)
      case (Inl e)
      then show thesis using error [of e "(f', s')"] ModeHybrid by (simp add: Search_def st fts sem)
    next
      case (Inr vh)
      let ?cs = "reciprocalRankFusion (filterHits r vh) (filterHits r fh) (rrfK r)"
      have "\<forall>l \<in> set [filterHits r vh, filterHits r fh]. \<forall>h \<in> set l. kept r (ChunkID h)"
        using filterHits_kept [of _ r vh] filterHits_kept [of _ r fh] by simp
      then have "\<forall>h \<in> set ?cs. kept r (ChunkID h)"
        unfolding reciprocalRankFusion_def using RRF_kept by blast
      then show thesis
        using cands [of ?cs "(f', s')"] ModeHybrid Inr by (simp add: Search_def st fts sem Let_def)
    qed
  qed
qed

definition good_hits :: "'s retrieval \<Rightarrow> int \<Rightarrow> (string \<Rightarrow> string) option \<Rightarrow> hit list \<Rightarrow> bool" where
  "good_hits r k docOf hits \<longleftrightarrow>
     (\<forall>c \<in> set (ids hits). kept r c) \<and> int (length hits) \<le> k \<and> one_per_doc docOf hits"

lemma one_per_doc_ids:
  "one_per_doc docOf hits \<longleftrightarrow>
     (case docOf of None \<Rightarrow> True | Some doc \<Rightarrow> distinct (map doc (ids hits)))"
  by (simp add: one_per_doc_def ids_def comp_def split: option.split)

lemma good_hits_take:
  assumes "\<forall>c \<in> set (ids hits). kept r c" and "one_per_doc docOf hits" and "0 < k"
  shows "good_hits r k docOf (if k < int (length hits) then take (nat k) hits else hits)"
proof -
  have "one_per_doc docOf (take (nat k) hits)"
    using assms(2) by (auto simp: one_per_doc_def take_map [symmetric] split: option.splits)
  then show ?thesis
    using assms by (auto simp: good_hits_def ids_def dest: in_set_takeD)
qed

lemma good_hits_rerank:
  assumes "slice_sort srt" and "\<forall>c \<in> set (ids hits). kept r c" and "one_per_doc docOf hits" and "0 < k"
    and "length scores = length hits"
  shows "good_hits r k docOf (map (\<lambda>(h, sc). Hit (ChunkID h) sc) (take (nat k) (srt (zip hits scores))))"
proof -
  let ?ss = "srt (zip hits scores)"
  have ids: "ids (map (\<lambda>(h, sc). Hit (ChunkID h) sc) (take (nat k) ?ss)) = take (nat k) (map (ChunkID \<circ> fst) ?ss)"
    unfolding ids_def map_map take_map [symmetric]
    by (rule arg_cong [where f = "take (nat k)"], rule map_cong) auto
  have "mset (map fst ?ss) = mset hits"
    using assms(1,5) unfolding slice_sort_def by (metis map_fst_zip mset_map)
  then have m: "mset (map (ChunkID \<circ> fst) ?ss) = mset (ids hits)"
    by (metis ids_def map_map mset_map)
  have "distinct (map doc (take (nat k) (map (ChunkID \<circ> fst) ?ss)))" if "docOf = Some doc" for doc
  proof -
    have "mset (map doc (map (ChunkID \<circ> fst) ?ss)) = mset (map doc (ids hits))"
      using m by (simp only: mset_map)
    moreover have "distinct (map doc (ids hits))"
      using assms(3) that by (simp add: one_per_doc_def ids_def comp_def)
    ultimately have "distinct (map doc (map (ChunkID \<circ> fst) ?ss))"
      by (metis mset_eq_imp_distinct_iff)
    then show ?thesis
      by (simp add: take_map [symmetric])
  qed
  then have "one_per_doc docOf (map (\<lambda>(h, sc). Hit (ChunkID h) sc) (take (nat k) ?ss))"
    using ids by (simp add: one_per_doc_ids split: option.split)
  moreover have "set (take (nat k) (map (ChunkID \<circ> fst) ?ss)) \<subseteq> set (ids hits)"
    using m by (metis set_mset_mset set_take_subset)
  ultimately show ?thesis
    using assms(2,4) ids by (auto simp: good_hits_def)
qed

lemma attemptRerank_good:
  assumes "slice_sort srt" and "0 < k"
    and "attemptRerank P u srt d r query k mode docOf rr chunkText pool st = (Inr (hits, fail), st')"
  shows "good_hits r k docOf hits"
proof (cases rule: Search_candidates [of P u d r query mode st])
  case (error e st'')
  then show ?thesis using assms(3) by (simp add: attemptRerank_def)
next
  case (cands cs st'')
  obtain f s where st'': "st'' = (f, s)" by (cases st'')
  let ?hs = "CollapseByDoc cs pool docOf"
  have kept: "\<forall>c \<in> set (ids ?hs). kept r c"
    using cands(2) set_CollapseByDoc [of cs pool docOf] by (auto simp: ids_def)
  note one = CollapseByDoc_facts(2) [of docOf cs pool]
  show ?thesis
  proof (cases "?hs = []")
    case True
    then show ?thesis
      using assms(2,3) by (auto simp: attemptRerank_def cands(1) st'' good_hits_def ids_def one_per_doc_def
          split: option.split)
  next
    case False
    obtain scores err s' where rr: "rr_score rr query (map (\<lambda>h. chunkText (ChunkID h)) ?hs) s = ((scores, err), s')"
      by (metis prod.collapse)
    show ?thesis
    proof (cases "err \<noteq> None \<or> length scores \<noteq> length ?hs")
      case True
      then have "hits = (if k < int (length ?hs) then take (nat k) ?hs else ?hs)"
        using assms(3) False by (simp add: attemptRerank_def cands(1) st'' rr Let_def)
      then show ?thesis
        using good_hits_take [OF kept one assms(2)] by simp
    next
      case ok: False
      then have "hits = map (\<lambda>(h, sc). Hit (ChunkID h) sc) (take (nat k) (srt (zip ?hs scores)))"
        using assms(3) False by (simp add: attemptRerank_def cands(1) st'' rr Let_def)
      then show ?thesis
        using good_hits_rerank [OF assms(1) kept one assms(2)] ok by simp
    qed
  qed
qed

lemma Search_good:
  assumes "0 < k" and "Search P u d r query k mode docOf st = (Inr hits, st')"
  shows "good_hits r k docOf hits"
proof (cases rule: Search_candidates [of P u d r query mode st])
  case (error e st'')
  then show ?thesis using assms(2) by simp
next
  case (cands cs st'')
  then have "hits = CollapseByDoc cs k docOf"
    using assms(2) by simp
  then show ?thesis
    using cands(2) set_CollapseByDoc [of cs k docOf] CollapseByDoc_facts(1) [OF assms(1), of cs docOf]
      CollapseByDoc_facts(2) [of docOf cs k]
    by (auto simp: good_hits_def ids_def)
qed

text \<open>The result with a reranker is the result of one of at most two attempts.\<close>

lemma SearchWithRerank_attempt:
  assumes "SearchWithRerank P u srt d r query k mode docOf (Some rr) chunkText st = (Inr (hits, failed), st')"
    and "pool = (if poolSize r < k then k else poolSize r)"
  obtains (first) fail st1 where
      "attemptRerank P u srt d r query k mode docOf rr chunkText pool st = (Inr (hits, fail), st1)"
      and "failed \<longleftrightarrow> fail \<noteq> None"
  | (second) st1 retryPool fail where "retryRerank r"
      and "attemptRerank P u srt d r query k mode docOf rr chunkText retryPool st1 = (Inr (hits, fail), st')"
      and "failed \<longleftrightarrow> fail \<noteq> None"
proof -
  obtain r1 st1 where a1: "attemptRerank P u srt d r query k mode docOf rr chunkText pool st = (r1, st1)"
    by (cases "attemptRerank P u srt d r query k mode docOf rr chunkText pool st")
  show thesis
  proof (cases r1)
    case (Inl e)
    then show thesis using assms(1) a1 by (simp add: SearchWithRerank_def assms(2) [symmetric])
  next
    case (Inr p)
    obtain h1 f1 where p: "p = (h1, f1)" by (cases p)
    let ?rp = "if maxRetryPool < pool * 2 then maxRetryPool else pool * 2"
    show thesis
    proof (cases "f1 = None \<or> \<not> retryRerank r \<or> \<not> pool < ?rp")
      case True
      then have "h1 = hits \<and> (failed \<longleftrightarrow> f1 \<noteq> None)"
        using assms(1) a1 Inr p
        by (cases f1) (simp_all add: SearchWithRerank_def assms(2) [symmetric] Let_def split: if_splits)
      then show thesis using first a1 Inr p by blast
    next
      case False
      then obtain fail where f1: "f1 = Some fail" by auto
      obtain r2 st2 where a2: "attemptRerank P u srt d r query k mode docOf rr chunkText ?rp st1 = (r2, st2)"
        by (cases "attemptRerank P u srt d r query k mode docOf rr chunkText ?rp st1")
      have "(case r2 of Inl e \<Rightarrow> (Inl e, st2) | Inr (h2, None) \<Rightarrow> (Inr (h2, False), st2)
          | Inr (h2, Some fail2) \<Rightarrow> (Inr (h2, True), st2)) = (Inr (hits, failed), st')"
        using assms(1) a1 Inr p f1 False a2
        by (simp add: SearchWithRerank_def assms(2) [symmetric] Let_def split: sum.split)
      then obtain fail2 where "r2 = Inr (hits, fail2)" "st2 = st'" "failed \<longleftrightarrow> fail2 \<noteq> None"
        by (auto split: sum.splits prod.splits option.splits)
      then show thesis using second a2 False by blast
    qed
  qed
qed

lemma SearchWithRerank_good:
  assumes "slice_sort srt" and "0 < k"
    and "SearchWithRerank P u srt d r query k mode docOf reranker chunkText st = (Inr (hits, failed), st')"
  shows "good_hits r k docOf hits"
proof (cases reranker)
  case None
  then show ?thesis
    using assms(3) Search_good [OF assms(2), of P u d r query mode docOf st hits st']
    by (auto simp: SearchWithRerank_def split: sum.splits prod.splits)
next
  case (Some rr)
  show ?thesis
    using SearchWithRerank_attempt [OF assms(3) [unfolded Some] refl] attemptRerank_good [OF assms(1,2)]
    by metis
qed

lemma failed_rerank_hits:
  assumes "0 < k" and "k \<le> pool"
    and "attemptRerank P u srt d r query k mode docOf rr chunkText pool st = (Inr (hits, Some fail), st')"
  shows "fst (Search P u d r query k mode docOf st) = Inr hits"
proof (cases rule: Search_candidates [of P u d r query mode st])
  case (error e st'')
  then show ?thesis using assms(3) by (simp add: attemptRerank_def)
next
  case (cands cs st'')
  obtain f s where st'': "st'' = (f, s)" by (cases st'')
  let ?hs = "CollapseByDoc cs pool docOf"
  obtain scores err s' where rr: "rr_score rr query (map (\<lambda>h. chunkText (ChunkID h)) ?hs) s = ((scores, err), s')"
    by (metis prod.collapse)
  have "hits = (if k < int (length ?hs) then take (nat k) ?hs else ?hs)"
    using assms(3) by (auto simp: attemptRerank_def cands(1) st'' rr Let_def split: if_splits)
  then have "hits = CollapseByDoc cs k docOf"
    unfolding CollapseByDoc_eq by (simp only: take_topk [OF assms(1,2)])
  then show ?thesis
    by (simp add: cands(1))
qed

lemma FTS_Search_length:
  "0 < k \<Longrightarrow> FTS_Search P u d ws query k f = (hits, f') \<Longrightarrow> int (length hits) \<le> k"
  by (auto simp: FTS_Search_def Let_def topk_length split: if_splits prod.splits)

lemma CollapseByDoc_enough:
  assumes "int (length cs) \<le> pool"
  shows "CollapseByDoc cs pool docOf = (case docOf of None \<Rightarrow> cs | Some doc \<Rightarrow> firsts doc {} cs)"
proof -
  have len: "length (firsts doc seen cs) \<le> length cs" for doc seen
    by (induction cs arbitrary: seen) (simp_all add: le_SucI)
  have "\<not> pool < int (length (firsts doc {} cs))" for doc
    using assms len [of doc "{}"] by linarith
  then show ?thesis
    using assms by (simp add: CollapseByDoc_eq topk_def split: option.split)
qed

section \<open>Properties\<close>

text \<open>C7: no retrieval path leaks a filtered chunk. Whatever the mode, with or without reranking,
  after a failed rerank or a retry, every hit that \<open>SearchWithRerank\<close> returns passes the keep
  predicate (metadata filter and quarantine), there are at most \<open>k\<close> hits and no two of one document.\<close>

theorem search_respects_filter:
  assumes "slice_sort srt" and "0 < k"
    and "SearchWithRerank P u srt d r query k mode docOf reranker chunkText st = (Inr (hits, failed), st')"
  shows "(\<forall>h \<in> set hits. case keep r of None \<Rightarrow> True | Some kp \<Rightarrow> kp (ChunkID h)) \<and>
    int (length hits) \<le> k \<and>
    (case docOf of None \<Rightarrow> True | Some doc \<Rightarrow> distinct (map (\<lambda>h. doc (ChunkID h)) hits))"
  using SearchWithRerank_good [OF assms] by (auto simp: good_hits_def kept_def one_per_doc_def ids_def)

definition demo_srt :: scored_sort where
  "demo_srt ss = rev (sort_key snd ss)"

lemma demo_srt: "slice_sort demo_srt"
proof -
  have "sorted_wrt (\<lambda>a b. snd a \<le> snd b) (sort_key snd ss)" for ss :: "(hit \<times> real) list"
    using sorted_sort_key [of snd ss] unfolding sorted_map .
  then show ?thesis
    by (simp add: slice_sort_def demo_srt_def sorted_wrt_rev)
qed

definition demo_retrieval :: "unit retrieval" where
  "demo_retrieval = SetFilter (Some (\<lambda>c. c \<noteq> ''bad''))
     (NewRetrieval (replicate 8 1) (\<lambda>v k. [Hit ''bad'' 1, Hit ''good'' (1 / 2)]) (Some (\<lambda>ts s. (Inr [[1]], s))))"

definition demo_failing :: "unit reranker" where
  "demo_failing = \<lparr>rr_score = (\<lambda>q cs s. (([], Some (Failed ''down'')), s))\<rparr>"

lemma demo_semantic:
  "SearchWithRerank mem_pebble ascii_tables demo_srt [] demo_retrieval ''q'' 1 ModeSemantic None
     (Some demo_failing) (\<lambda>c. c) (NewFTS, ()) = (Inr ([Hit ''good'' (1 / 2)], True), NewFTS, ())"
  by (simp add: SearchWithRerank_def attemptRerank_def Search_def semantic_def demo_retrieval_def
      SetFilter_def NewRetrieval_def filterHits_def CollapseByDoc_def demo_failing_def Let_def)

theorem search_respects_filter_witness:
  "\<exists>hits st'. SearchWithRerank mem_pebble ascii_tables demo_srt [] demo_retrieval ''q'' 1 ModeSemantic None
       (Some demo_failing) (\<lambda>c. c) (NewFTS, ()) = (Inr (hits, True), st') \<and>
     ids hits = [''good''] \<and> list_all (\<lambda>h. ChunkID h \<noteq> ''bad'') hits"
proof -
  have "list_all (\<lambda>h. ChunkID h \<noteq> ''bad'') [Hit ''good'' (1 / 2)]"
    using search_respects_filter [OF demo_srt _ demo_semantic]
    by (simp add: demo_retrieval_def SetFilter_def NewRetrieval_def)
  then show ?thesis
    unfolding demo_semantic by (simp add: ids_def)
qed

text \<open>A failed rerank degrades to exactly the plain search. Without retries, when
  \<open>SearchWithRerank\<close> reports a failed rerank its hits are those that \<open>Search\<close> with the same \<open>k\<close>
  returns, in the same order, although the rerank asked for a larger pool.\<close>

theorem rerank_failure_is_plain_search:
  assumes "0 < k" and "\<not> retryRerank r"
    and "SearchWithRerank P u srt d r query k mode docOf (Some rr) chunkText st = (Inr (hits, True), st')"
  shows "fst (Search P u d r query k mode docOf st) = Inr hits"
proof -
  let ?pool = "if poolSize r < k then k else poolSize r"
  obtain fail st1 where
    "attemptRerank P u srt d r query k mode docOf rr chunkText ?pool st = (Inr (hits, Some fail), st1)"
    by (cases rule: SearchWithRerank_attempt [OF assms(3) refl]) (use assms(2) in auto)
  then show ?thesis
    by (rule failed_rerank_hits [OF assms(1), rotated]) simp
qed

theorem rerank_failure_is_plain_search_witness:
  "fst (Search mem_pebble ascii_tables [] demo_retrieval ''q'' 1 ModeSemantic None (NewFTS, ())) =
   Inr [Hit ''good'' (1 / 2)]"
  using rerank_failure_is_plain_search [OF _ _ demo_semantic]
  by (simp add: demo_retrieval_def SetFilter_def NewRetrieval_def)

text \<open>The rerank retry presents no new candidates outside hybrid mode. The comment of
  \<open>SearchWithRerank\<close> has the retry run "against a larger candidate pool", but \<open>attemptRerank\<close> passes
  the pool only to the collapse: the index is asked for \<open>poolSize\<close> candidates again, so in keyword
  and semantic mode the search behind the retry returns the list that was just rejected.\<close>

theorem rerank_retry_same_candidates:
  assumes "mode \<noteq> ModeHybrid" and "0 < poolSize r" and "poolSize r \<le> pool" and "pool \<le> retryPool"
    and "\<And>v. int (length (r_vec r v (poolSize r))) \<le> poolSize r"
  shows "Search P u d r query retryPool mode docOf st = Search P u d r query pool mode docOf st"
proof -
  have filt: "int (length (filterHits r hs)) \<le> poolSize r" if "int (length hs) \<le> poolSize r" for hs
  proof (cases "keep r")
    case None
    then show ?thesis using that by (simp add: filterHits_def)
  next
    case (Some kp)
    then show ?thesis
      using that length_filter_le [of "\<lambda>h. kp (ChunkID h)" hs]
      unfolding filterHits_def Some option.case by linarith
  qed
  have same: "CollapseByDoc (filterHits r hs) retryPool docOf = CollapseByDoc (filterHits r hs) pool docOf"
    if "int (length hs) \<le> poolSize r" for hs
    using filt [OF that] assms(3,4) by (simp add: CollapseByDoc_enough)
  obtain f s where st: "st = (f, s)" by (cases st)
  have fts: "int (length (fst (FTS_Search P u d (r_ws r) query (poolSize r) f))) \<le> poolSize r"
    using FTS_Search_length [OF assms(2)] by (metis prod.collapse)
  have sem: "int (length hs) \<le> poolSize r" if "semantic r query s = (Inr hs, s')" for hs s'
    using that assms(2,5) by (auto simp: semantic_def split: option.splits sum.splits list.splits prod.splits)
  show ?thesis
    using assms(1) same fts sem
    by (cases mode) (auto simp: Search_def st split: prod.splits sum.splits)
qed

theorem rerank_retry_same_candidates_witness:
  "Search mem_pebble ascii_tables [] demo_retrieval ''q'' 120 ModeSemantic None (NewFTS, ()) =
   Search mem_pebble ascii_tables [] demo_retrieval ''q'' 60 ModeSemantic None (NewFTS, ())"
  by (rule rerank_retry_same_candidates) (auto simp: demo_retrieval_def SetFilter_def NewRetrieval_def)

text \<open>Reciprocal rank fusion respects agreement. If a chunk precedes another in every list in
  which the other occurs, and the other occurs somewhere, both are in the fused list and the first
  is ranked strictly above the second.\<close>

theorem rrf_agreement:
  assumes "0 \<le> k" and "\<forall>l \<in> set lsts. distinct (ids l) \<and> ranks_above c c' l"
    and "\<exists>l \<in> set lsts. c' \<in> set (ids l)"
  shows "\<exists>h \<in> set (ReciprocalRankFusionN lsts k). \<exists>h' \<in> set (ReciprocalRankFusionN lsts k).
    ChunkID h = c \<and> ChunkID h' = c' \<and> h < h'"
proof -
  have "\<exists>l \<in> set lsts. c \<in> set (ids l)"
  proof -
    obtain l where "l \<in> set lsts" "c' \<in> set (ids l)"
      using assms(3) by blast
    then obtain j where l: "l \<in> set lsts" "j < length l" "ChunkID (l ! j) = c'"
      by (auto simp: ids_def in_set_conv_nth)
    then obtain i where "i < j" "ChunkID (l ! i) = c"
      using assms(2) by (auto simp: ranks_above_def)
    then have "c \<in> set (ids l)"
      using l(2) unfolding ids_def set_map by (metis image_eqI nth_mem order.strict_trans)
    then show ?thesis
      using l(1) by blast
  qed
  then have "c \<in> set (ids (ReciprocalRankFusionN lsts k))" "c' \<in> set (ids (ReciprocalRankFusionN lsts k))"
    using assms(3) unfolding ids_RRF by blast+
  then obtain h h' where h: "h \<in> set (ReciprocalRankFusionN lsts k)" "ChunkID h = c"
    and h': "h' \<in> set (ReciprocalRankFusionN lsts k)" "ChunkID h' = c'"
    unfolding ids_def by auto
  have "Score h' < Score h"
    using rrf_score_above [OF assms] RRF_facts [of lsts k] h h' by auto
  then have "h < h'"
    by (simp add: less_hit_def)
  then show ?thesis
    using h h' by blast
qed

theorem rrf_agreement_witness:
  "\<exists>h \<in> set (ReciprocalRankFusionN [[Hit ''a'' 9, Hit ''b'' 8], [Hit ''a'' 3, Hit ''c'' 2]] 60).
   \<exists>h' \<in> set (ReciprocalRankFusionN [[Hit ''a'' 9, Hit ''b'' 8], [Hit ''a'' 3, Hit ''c'' 2]] 60).
     ChunkID h = ''a'' \<and> ChunkID h' = ''b'' \<and> h < h'"
  by (rule rrf_agreement) (auto simp: ids_def ranks_above_def less_Suc_eq)

text \<open>Collapsing keeps the best hit of every document. From a ranked list \<open>CollapseByDoc\<close> keeps a
  ranked list with at most one hit per document; a kept hit is the best of its document; and a
  document is missing only when \<open>k\<close> documents with better hits are kept.\<close>

theorem collapse_best_per_doc:
  assumes "sorted hits" and "out = CollapseByDoc hits k (Some doc)"
  shows "sorted out \<and> distinct (map (\<lambda>h. doc (ChunkID h)) out) \<and>
    (\<forall>h \<in> set out. \<forall>h' \<in> set hits. doc (ChunkID h') = doc (ChunkID h) \<longrightarrow> h \<le> h') \<and>
    (\<forall>h' \<in> set hits. doc (ChunkID h') \<notin> (\<lambda>h. doc (ChunkID h)) ` set out \<longrightarrow>
       0 < k \<and> length out = nat k \<and> (\<forall>h \<in> set out. h \<le> h'))"
proof -
  let ?fs = "firsts doc {} hits"
  have out: "out = topk k ?fs"
    by (simp add: assms(2) CollapseByDoc_eq)
  note sorted = sorted_firsts [OF assms(1), of doc "{}"]
  have "distinct (map (\<lambda>h. doc (ChunkID h)) out)"
    using CollapseByDoc_facts(2) [of "Some doc" hits k] by (simp add: assms(2) one_per_doc_def)
  moreover have "h \<le> h'" if "h \<in> set out" "h' \<in> set hits" "doc (ChunkID h') = doc (ChunkID h)" for h h'
    using firsts_best [OF assms(1) that(2) _ that(3), of "{}"] that(1) set_topk [of k ?fs] out by blast
  moreover have "0 < k \<and> length out = nat k \<and> (\<forall>h \<in> set out. h \<le> h')"
    if h': "h' \<in> set hits" "doc (ChunkID h') \<notin> (\<lambda>h. doc (ChunkID h)) ` set out" for h'
  proof -
    obtain g where g: "g \<in> set ?fs" "doc (ChunkID g) = doc (ChunkID h')"
      using firsts_covers [OF h'(1), of doc "{}"] by auto
    then have cut: "g \<notin> set out"
      using h'(2) by (metis image_eqI)
    then have "0 < k \<and> k < int (length ?fs)"
      using g(1) by (auto simp: out topk_def split: if_splits)
    then have "0 < k \<and> length out = nat k"
      by (auto simp: out topk_def)
    moreover have "h \<le> h'" if "h \<in> set out" for h
    proof -
      have "h \<le> g"
        using topk_best [OF sorted _ g(1), of h k] that cut out by blast
      also have "g \<le> h'"
        using firsts_best [OF assms(1) h'(1) g(1)] g(2) by simp
      finally show ?thesis .
    qed
    ultimately show ?thesis by blast
  qed
  ultimately show ?thesis
    using sorted_topk [OF sorted, of k] out by blast
qed

theorem collapse_best_per_doc_witness:
  "CollapseByDoc [Hit ''d1a'' 3, Hit ''d1b'' 2, Hit ''d2a'' 1] 2 (Some (take 2)) = [Hit ''d1a'' 3, Hit ''d2a'' 1] \<and>
   Hit ''d1a'' 3 \<le> Hit ''d1b'' 2"
proof -
  have out: "[Hit ''d1a'' 3, Hit ''d2a'' 1] = CollapseByDoc [Hit ''d1a'' 3, Hit ''d1b'' 2, Hit ''d2a'' 1] 2 (Some (take 2))"
    by (simp add: CollapseByDoc_def)
  have "sorted [Hit ''d1a'' 3, Hit ''d1b'' 2, Hit ''d2a'' 1]"
    by (simp add: less_eq_hit_def less_hit_def)
  from collapse_best_per_doc [OF this out]
  have "\<forall>h \<in> set [Hit ''d1a'' 3, Hit ''d2a'' 1]. \<forall>h' \<in> set [Hit ''d1a'' 3, Hit ''d1b'' 2, Hit ''d2a'' 1].
      take 2 (ChunkID h') = take 2 (ChunkID h) \<longrightarrow> h \<le> h'"
    by blast
  then have "Hit ''d1a'' 3 \<le> Hit ''d1b'' 2"
    by simp
  then show ?thesis
    using out by metis
qed

end
