(* ===== verification/Chunker.thy ===== *)
theory Chunker
  imports Utf8
begin

text \<open>
  The chunk splitter: \<open>internal/chunk/chunk.go\<close> and \<open>internal/chunk/sentences.go\<close>. Offsets are
  byte offsets. The token heuristics \<open>math.Ceil(float64(words) * 1.3)\<close> and
  \<open>math.Floor(float64(tokens) / 1.3)\<close> are written as integer arithmetic: at multiples of 10 and
  13 the product and the quotient are exact after rounding, and elsewhere they are at least one
  tenth away from an integer.
\<close>

record segment =
  seg_Text :: string
  StartCharIdx :: nat
  EndCharIdx :: nat
  TokenCount :: nat

record splitter =
  sp_Size :: int
  sp_Overlap :: int
  sp_MinTokens :: int

definition NewSplitter :: "int \<Rightarrow> int \<Rightarrow> splitter" where
  "NewSplitter sz overlap =
     \<lparr>sp_Size = (if sz \<le> 0 then 512 else sz),
      sp_Overlap = (if overlap < 0 then 0 else overlap), sp_MinTokens = 50\<rparr>"

definition EstimateTokens :: "string \<Rightarrow> nat" where
  "EstimateTokens s =
     (let words = length (Fields s) in if words = 0 then 0 else (13 * words + 9) div 10)"

definition wordsForTokens :: "int \<Rightarrow> nat" where
  "wordsForTokens tokens = (if tokens \<le> 0 then 0 else nat (10 * tokens div 13))"

section \<open>Words\<close>

definition sentenceEnd :: "nat \<Rightarrow> bool" where
  "sentenceEnd r \<longleftrightarrow> r \<in> {0x2E, 0x21, 0x3F, 0x3002, 0xFF01, 0xFF1F}"

definition endsSentence :: "string \<Rightarrow> bool" where
  "endsSentence word = (if word = [] then False else sentenceEnd (fst (DecodeLastRune word)))"

definition hasParagraphBreak :: "string \<Rightarrow> bool" where
  "hasParagraphBreak ws \<longleftrightarrow> 2 \<le> count_list ws (CHR 0x0A)"

definition isSpaceByte :: "char \<Rightarrow> bool" where
  "isSpaceByte b \<longleftrightarrow> b = CHR 0x20 \<or> b = CHR 0x0A \<or> b = CHR 0x0D \<or> b = CHR 0x09"

record wordSpan =
  w_text :: string
  w_start :: nat
  w_end :: nat
  sentEnd :: bool
  paraEnd :: bool

definition mark_last :: "(wordSpan \<Rightarrow> wordSpan) \<Rightarrow> wordSpan list \<Rightarrow> wordSpan list" where
  "mark_last g out = (if out = [] then out else butlast out @ [g (last out)])"

lemma shorter_rest:
  assumes "dropWhile isSpaceByte s \<noteq> []"
  shows "length (dropWhile (\<lambda>b. \<not> isSpaceByte b) (dropWhile isSpaceByte s)) < length s"
proof -
  obtain x xs where s1: "dropWhile isSpaceByte s = x # xs"
    using assms by (cases "dropWhile isSpaceByte s") auto
  then have "\<not> isSpaceByte x"
    using hd_dropWhile [OF assms] by simp
  then have "length (dropWhile (\<lambda>b. \<not> isSpaceByte b) (x # xs)) < length (x # xs)"
    using length_dropWhile_le [of "\<lambda>b. \<not> isSpaceByte b" xs] by simp
  also have "length (x # xs) \<le> length s"
    using length_dropWhile_le [of isSpaceByte s] s1 by simp
  finally show ?thesis by (simp add: s1)
qed

text \<open>The loop, at byte offset \<open>i\<close> with the rest \<open>s\<close> of the text.\<close>

function tok_loop :: "nat \<Rightarrow> string \<Rightarrow> wordSpan list \<Rightarrow> wordSpan list" where
  "tok_loop i s out =
     (let ws = takeWhile isSpaceByte s;
          s1 = dropWhile isSpaceByte s;
          start = i + length ws
      in if s1 = [] then out
         else
           let word = takeWhile (\<lambda>b. \<not> isSpaceByte b) s1;
               s2 = dropWhile (\<lambda>b. \<not> isSpaceByte b) s1;
               w = \<lparr>w_text = word, w_start = start, w_end = start + length word,
                    sentEnd = endsSentence word, paraEnd = False\<rparr>;
               out' = (if hasParagraphBreak ws then mark_last (sentEnd_update (\<lambda>_. True) \<circ> paraEnd_update (\<lambda>_. True)) out
                       else out)
           in tok_loop (start + length word) s2 (out' @ [w]))"
  by pat_completeness auto
termination
  by (relation "measure (\<lambda>(i, s, out). length s)") (auto simp: shorter_rest)

declare tok_loop.simps [simp del]

definition tokenizeWords :: "string \<Rightarrow> wordSpan list" where
  "tokenizeWords s = mark_last (sentEnd_update (\<lambda>_. True)) (tok_loop 0 s [])"

section \<open>Splitting\<close>

definition buildSegment :: "wordSpan list \<Rightarrow> segment" where
  "buildSegment words =
     (let text = Join (map w_text words) '' '' in
      \<lparr>seg_Text = text, StartCharIdx = w_start (hd words), EndCharIdx = w_end (last words),
       TokenCount = EstimateTokens text\<rparr>)"

text \<open>Where the chunk that starts at word \<open>i\<close> ends, and whether a paragraph was flushed.\<close>

definition chunk_end :: "wordSpan list \<Rightarrow> nat \<Rightarrow> nat \<Rightarrow> nat \<Rightarrow> nat \<times> bool" where
  "chunk_end words perChunk minFlush i =
     (let e = min (i + perChunk) (length words) in
      case find (\<lambda>k. paraEnd (words ! k) \<and> minFlush \<le> k - i + 1) [i..<e] of
        Some k \<Rightarrow> (k + 1, True)
      | None \<Rightarrow>
          let half = (if i + perChunk div 2 \<le> i then i + 1 else i + perChunk div 2)
          in case find (\<lambda>k. sentEnd (words ! k)) (rev [half..<e]) of
               Some k \<Rightarrow> (k + 1, False)
             | None \<Rightarrow> (e, False))"

definition next_start :: "nat \<Rightarrow> nat \<Rightarrow> nat \<Rightarrow> bool \<Rightarrow> nat" where
  "next_start overlapWords i e flushed =
     (let nxt = (if flushed then int e
                 else if int e - int overlapWords \<le> int i then int e else int e - int overlapWords)
      in if nxt \<le> int i then i + 1 else nat nxt)"

text \<open>The index ranges of the segments, from word \<open>i\<close> on.\<close>

function split_windows :: "wordSpan list \<Rightarrow> nat \<Rightarrow> nat \<Rightarrow> nat \<Rightarrow> nat \<Rightarrow> (nat \<times> nat) list" where
  "split_windows words perChunk overlapWords minFlush i =
     (if length words \<le> i then []
      else if length words - i \<le> perChunk then [(i, min (i + perChunk) (length words))]
      else
        let (e, flushed) = chunk_end words perChunk minFlush i
        in (i, e) #
           (if length words \<le> e then []
            else split_windows words perChunk overlapWords minFlush (next_start overlapWords i e flushed)))"
  by pat_completeness auto
termination
proof (relation "measure (\<lambda>(words, pc, ov, mf, i). length words - i)")
  fix words :: "wordSpan list" and pc ov mf i e :: nat and x flushed
  assume "\<not> length words \<le> i"
  moreover have "i < next_start ov i e flushed"
    by (auto simp: next_start_def Let_def)
  ultimately show "((words, pc, ov, mf, next_start ov i e flushed), words, pc, ov, mf, i)
      \<in> measure (\<lambda>(words, pc, ov, mf, i). length words - i)"
    by simp
qed simp

declare split_windows.simps [simp del]

definition slice :: "wordSpan list \<Rightarrow> nat \<times> nat \<Rightarrow> wordSpan list" where
  "slice words w = take (snd w - fst w) (drop (fst w) words)"

definition merge_tail :: "int \<Rightarrow> segment list \<Rightarrow> segment list" where
  "merge_tail minTokens segs =
     (if 2 \<le> length segs \<and> int (TokenCount (last segs)) < minTokens then
        let final = last segs;
            prev = segs ! (length segs - 2);
            text = TrimSpace (seg_Text prev @ '' '' @ seg_Text final)
        in take (length segs - 2) segs @
           [prev\<lparr>seg_Text := text, EndCharIdx := EndCharIdx final, TokenCount := EstimateTokens text\<rparr>]
      else segs)"

definition split_params :: "splitter \<Rightarrow> nat \<times> nat \<times> nat" where
  "split_params s =
     (let pc = wordsForTokens (sp_Size s);
          perChunk = (if pc < 1 then 1 else pc);
          ov = wordsForTokens (sp_Overlap s);
          overlapWords = (if perChunk \<le> ov then perChunk div 4 else ov)
      in (perChunk, overlapWords, wordsForTokens (sp_MinTokens s)))"

definition Split :: "splitter \<Rightarrow> string \<Rightarrow> segment list" where
  "Split s text =
     (let words = tokenizeWords text in
      if words = [] then []
      else
        let (perChunk, overlapWords, minFlush) = split_params s;
            segs = map (\<lambda>w. buildSegment (slice words w)) (split_windows words perChunk overlapWords minFlush 0)
        in merge_tail (sp_MinTokens s) segs)"

section \<open>The words are the text\<close>

text \<open>
  A list of spans cut out of \<open>s\<close>: in order, disjoint, each equal to the text at its offsets,
  without white space inside.
\<close>

definition span_of :: "string \<Rightarrow> wordSpan \<Rightarrow> bool" where
  "span_of s w \<longleftrightarrow> w_text w \<noteq> [] \<and> (\<forall>b \<in> set (w_text w). \<not> isSpaceByte b) \<and>
     w_end w = w_start w + length (w_text w) \<and> w_end w \<le> length s \<and>
     take (length (w_text w)) (drop (w_start w) s) = w_text w"

definition ordered :: "wordSpan list \<Rightarrow> bool" where
  "ordered ws \<longleftrightarrow> sorted_wrt (\<lambda>v w. w_end v \<le> w_start w) ws"

lemma span_of_update [simp]:
  "span_of s (sentEnd_update g w) = span_of s w" "span_of s (paraEnd_update g w) = span_of s w"
  by (simp_all add: span_of_def)

lemma mark_last_map:
  assumes "\<And>w. w_text (g w) = w_text w" "\<And>w. w_start (g w) = w_start w" "\<And>w. w_end (g w) = w_end w"
  shows "map w_text (mark_last g ws) = map w_text ws" "map w_start (mark_last g ws) = map w_start ws"
    "map w_end (mark_last g ws) = map w_end ws"
  using assms by (cases ws rule: rev_cases; simp add: mark_last_def)+

lemma mark_last_span:
  assumes "\<And>w. span_of s (g w) = span_of s w"
  shows "(\<forall>w \<in> set (mark_last g ws). span_of s w) = (\<forall>w \<in> set ws. span_of s w)"
  using assms by (cases ws rule: rev_cases) (auto simp: mark_last_def)

lemma ordered_map:
  assumes "map w_start ws = map w_start vs" and "map w_end ws = map w_end vs"
  shows "ordered ws = ordered vs"
proof -
  have len: "length ws = length vs"
    using assms(1) by (metis length_map)
  have "w_start (ws ! i) = w_start (vs ! i) \<and> w_end (ws ! i) = w_end (vs ! i)" if "i < length ws" for i
    using assms that len by (metis nth_map)
  then show ?thesis
    using len by (simp add: ordered_def sorted_wrt_iff_nth_less)
qed

definition tok_inv :: "string \<Rightarrow> nat \<Rightarrow> string \<Rightarrow> wordSpan list \<Rightarrow> bool" where
  "tok_inv s0 i s out \<longleftrightarrow> s = drop i s0 \<and> i \<le> length s0 \<and> (\<forall>w \<in> set out. span_of s0 w \<and> w_end w \<le> i) \<and>
     ordered out \<and> concat (map w_text out) = filter (\<lambda>b. \<not> isSpaceByte b) (take i s0)"

lemma filter_all_space: "\<forall>b \<in> set xs. isSpaceByte b \<Longrightarrow> filter (\<lambda>b. \<not> isSpaceByte b) xs = []"
  by (simp add: filter_empty_conv)

lemma tok_loop_inv:
  assumes "tok_inv s0 i s out"
  shows "\<exists>i'. tok_inv s0 i' (drop i' s0) (tok_loop i s out) \<and> (\<forall>b \<in> set (drop i' s0). isSpaceByte b)"
  using assms
proof (induction i s out rule: tok_loop.induct)
  case (1 i s out)
  define ws where "ws = takeWhile isSpaceByte s"
  define s1 where "s1 = dropWhile isSpaceByte s"
  define word where "word = takeWhile (\<lambda>b. \<not> isSpaceByte b) s1"
  define s2 where "s2 = dropWhile (\<lambda>b. \<not> isSpaceByte b) s1"
  define start where "start = i + length ws"
  define w where "w = \<lparr>w_text = word, w_start = start, w_end = start + length word,
    sentEnd = endsSentence word, paraEnd = False\<rparr>"
  define g :: "wordSpan \<Rightarrow> wordSpan" where "g = (sentEnd_update (\<lambda>_. True) \<circ> paraEnd_update (\<lambda>_. True))"
  define out' where "out' = (if hasParagraphBreak ws then mark_last g out else out)"
  have eq: "tok_loop i s out = (if s1 = [] then out else tok_loop (start + length word) s2 (out' @ [w]))"
    by (simp add: tok_loop.simps [of i s out] Let_def ws_def s1_def word_def s2_def start_def w_def out'_def g_def)
  have inv: "s = drop i s0" "i \<le> length s0" "\<forall>w \<in> set out. span_of s0 w \<and> w_end w \<le> i" "ordered out"
    "concat (map w_text out) = filter (\<lambda>b. \<not> isSpaceByte b) (take i s0)"
    using 1(2) by (simp_all add: tok_inv_def)
  show ?case
  proof (cases "s1 = []")
    case True
    then have "\<forall>b \<in> set s. isSpaceByte b"
      by (auto simp: s1_def dropWhile_eq_Nil_conv)
    moreover have "tok_loop i s out = out"
      using True eq by simp
    ultimately show ?thesis
      using 1(2) inv(1) by (metis (no_types))
  next
    case False
    have s_split: "s = ws @ word @ s2"
      by (simp add: ws_def word_def s2_def) (simp add: s1_def)
    have s0_split: "s0 = take i s0 @ ws @ word @ s2"
      using inv(1) s_split by (metis append_take_drop_id)
    have ti: "length (take i s0) = i"
      using inv(2) by simp
    have "word \<noteq> []"
      using False hd_dropWhile [of isSpaceByte s] by (cases s1) (auto simp: word_def s1_def)
    have cut: "take (length word) (drop start s0) = word"
    proof -
      have "s0 = (take i s0 @ ws) @ word @ s2" "length (take i s0 @ ws) = start"
        using s0_split ti by (simp_all add: start_def)
      then have "drop start s0 = word @ s2"
        by (metis append_eq_conv_conj)
      then show ?thesis by simp
    qed
    have rest: "s2 = drop (start + length word) s0" "start + length word \<le> length s0"
      "take (start + length word) s0 = take i s0 @ ws @ word"
    proof -
      have len: "length (take i s0 @ ws @ word) = start + length word"
        by (simp only: length_append ti start_def add.assoc)
      have split: "s0 = (take i s0 @ ws @ word) @ s2"
        using s0_split by simp
      show "s2 = drop (start + length word) s0" "take (start + length word) s0 = take i s0 @ ws @ word"
        using split len by (metis append_eq_conv_conj)+
      show "start + length word \<le> length s0"
        using split len by (metis le_add1 length_append)
    qed
    have span: "span_of s0 w"
      using \<open>word \<noteq> []\<close> cut rest(2) by (auto simp: span_of_def w_def word_def dest: set_takeWhileD)
    have g: "w_text (g v) = w_text v" "w_start (g v) = w_start v" "w_end (g v) = w_end v"
      "span_of s0 (g v) = span_of s0 v" for v
      by (simp_all add: g_def)
    have maps: "map w_text out' = map w_text out" "map w_start out' = map w_start out"
      "map w_end out' = map w_end out"
      unfolding out'_def using mark_last_map [of g out] g by auto
    have spans': "\<forall>v \<in> set out'. span_of s0 v"
      unfolding out'_def using inv(3) mark_last_span [of s0 g out] g(4) by auto
    have "set (map w_end out') = set (map w_end out)"
      by (simp only: maps)
    then have ends: "\<forall>v \<in> set out'. w_end v \<le> i"
      using inv(3) by (force simp: image_iff)
    have ord: "ordered (out' @ [w])"
      using ordered_map [OF maps(2,3)] inv(4) ends
      by (auto simp: ordered_def sorted_wrt_append w_def start_def)
    have "filter (\<lambda>b. \<not> isSpaceByte b) ws = []" "filter (\<lambda>b. \<not> isSpaceByte b) word = word"
      by (auto simp: ws_def word_def filter_empty_conv filter_id_conv dest: set_takeWhileD)
    then have texts: "concat (map w_text (out' @ [w])) =
        filter (\<lambda>b. \<not> isSpaceByte b) (take (start + length word) s0)"
      using inv(5) maps(1) by (simp add: rest(3) w_def)
    have "tok_inv s0 (start + length word) s2 (out' @ [w])"
      using rest(1,2) spans' ends span ord texts
      by (auto simp: tok_inv_def w_def start_def)
    then have "\<exists>i'. tok_inv s0 i' (drop i' s0) (tok_loop (start + length word) s2 (out' @ [w])) \<and>
        (\<forall>b \<in> set (drop i' s0). isSpaceByte b)"
      using 1(1) [OF ws_def s1_def start_def False word_def s2_def w_def out'_def [unfolded g_def]] by blast
    then show ?thesis
      using False by (simp add: eq)
  qed
qed

lemma tokenizeWords_spans:
  "(\<forall>w \<in> set (tokenizeWords s). span_of s w) \<and> ordered (tokenizeWords s) \<and>
   concat (map w_text (tokenizeWords s)) = filter (\<lambda>b. \<not> isSpaceByte b) s"
proof -
  let ?out = "tok_loop 0 s []"
  have "tok_inv s 0 s []"
    by (simp add: tok_inv_def ordered_def)
  from tok_loop_inv [OF this] obtain i where inv: "tok_inv s i (drop i s) ?out"
    and space: "\<forall>b \<in> set (drop i s). isSpaceByte b"
    by blast
  have "filter (\<lambda>b. \<not> isSpaceByte b) s =
      filter (\<lambda>b. \<not> isSpaceByte b) (take i s) @ filter (\<lambda>b. \<not> isSpaceByte b) (drop i s)"
    by (metis append_take_drop_id filter_append)
  then have "concat (map w_text ?out) = filter (\<lambda>b. \<not> isSpaceByte b) s"
    using inv filter_all_space [OF space] by (simp add: tok_inv_def)
  moreover note maps = mark_last_map [of "sentEnd_update (\<lambda>_. True)" ?out]
  ultimately show ?thesis
    using inv ordered_map [OF maps(2,3)] maps(1) mark_last_span [of s "sentEnd_update (\<lambda>_. True)" ?out]
    by (simp add: tokenizeWords_def tok_inv_def)
qed

section \<open>The windows cover the words\<close>

lemma chunk_end_bounds:
  assumes "chunk_end words pc mf i = (e, flushed)" and "i + pc < length words" and "0 < pc"
  shows "i < e \<and> e \<le> i + pc"
  using assms by (auto simp: chunk_end_def Let_def find_Some_iff split: option.splits)
    (auto simp: find_Some_iff rev_nth split: if_splits)

lemma next_start_bounds: "i < e \<Longrightarrow> i < next_start ov i e flushed \<and> next_start ov i e flushed \<le> e"
  by (auto simp: next_start_def Let_def)

definition windows_ok :: "nat \<Rightarrow> nat \<Rightarrow> nat \<Rightarrow> (nat \<times> nat) list \<Rightarrow> bool" where
  "windows_ok n pc i ws \<longleftrightarrow> ws \<noteq> [] \<and> fst (hd ws) = i \<and> snd (last ws) = n \<and>
     (\<forall>w \<in> set ws. i \<le> fst w \<and> fst w < snd w \<and> snd w \<le> n \<and> snd w - fst w \<le> pc) \<and>
     sorted_wrt (\<lambda>v w. fst v < fst w) ws \<and>
     (\<forall>j. i \<le> j \<and> j < n \<longrightarrow> (\<exists>w \<in> set ws. fst w \<le> j \<and> j < snd w))"

lemma windows_ok_single: "i < n \<Longrightarrow> n - i \<le> pc \<Longrightarrow> windows_ok n pc i [(i, n)]"
  by (auto simp: windows_ok_def)

lemma windows_ok_Cons:
  assumes "windows_ok n pc i' ws" and "i < i'" and "i' \<le> e" and "e \<le> n" and "e - i \<le> pc"
  shows "windows_ok n pc i ((i, e) # ws)"
proof -
  have "\<exists>w \<in> set ((i, e) # ws). fst w \<le> j \<and> j < snd w" if "i \<le> j" "j < n" for j
  proof (cases "j < i'")
    case True
    then show ?thesis using that assms(3) by auto
  next
    case False
    then show ?thesis using that assms(1) by (auto simp: windows_ok_def)
  qed
  moreover have "\<forall>w \<in> set ws. i < fst w"
    using assms(1,2) by (force simp: windows_ok_def)
  ultimately show ?thesis
    using assms by (auto simp: windows_ok_def less_imp_le)
qed

lemma split_windows_ok:
  "i < length words \<Longrightarrow> 0 < pc \<Longrightarrow> windows_ok (length words) pc i (split_windows words pc ov mf i)"
proof (induction words pc ov mf i rule: split_windows.induct)
  case (1 words pc ov mf i)
  show ?case
  proof (cases "length words - i \<le> pc")
    case True
    then show ?thesis
      using 1(2) windows_ok_single [of i "length words" pc] by (simp add: split_windows.simps [of words pc ov mf i])
  next
    case False
    obtain e flushed where e: "chunk_end words pc mf i = (e, flushed)"
      by (cases "chunk_end words pc mf i")
    have b: "i < e" "e \<le> i + pc"
      using chunk_end_bounds [OF e] 1(2,3) False by auto
    note nx = next_start_bounds [OF b(1), of ov flushed]
    have "\<not> length words \<le> e"
      using b False by linarith
    then have "windows_ok (length words) pc (next_start ov i e flushed)
        (split_windows words pc ov mf (next_start ov i e flushed))"
      using 1(1) [OF _ False e [symmetric] refl] 1(2,3) nx by simp
    then have "windows_ok (length words) pc i
        ((i, e) # split_windows words pc ov mf (next_start ov i e flushed))"
      using nx b \<open>\<not> length words \<le> e\<close> by (intro windows_ok_Cons) auto
    then show ?thesis
      using 1(2) False e \<open>\<not> length words \<le> e\<close> by (simp add: split_windows.simps [of words pc ov mf i])
  qed
qed

section \<open>The segments cover the text\<close>

lemma slice_ends:
  assumes "a < b" and "b \<le> length words"
  shows "slice words (a, b) \<noteq> []" and "hd (slice words (a, b)) = words ! a"
    and "last (slice words (a, b)) = words ! (b - 1)"
proof -
  have len: "length (slice words (a, b)) = b - a"
    using assms by (simp add: slice_def)
  then show "slice words (a, b) \<noteq> []"
    using assms by auto
  then show "hd (slice words (a, b)) = words ! a" "last (slice words (a, b)) = words ! (b - 1)"
    using assms len by (simp_all add: hd_conv_nth last_conv_nth) (simp_all add: slice_def)
qed

definition covers :: "wordSpan \<Rightarrow> segment \<Rightarrow> bool" where
  "covers w seg \<longleftrightarrow> StartCharIdx seg \<le> w_start w \<and> w_end w \<le> EndCharIdx seg"

definition segs_ok :: "wordSpan list \<Rightarrow> nat \<Rightarrow> segment list \<Rightarrow> bool" where
  "segs_ok words n segs \<longleftrightarrow>
     (\<forall>w \<in> set words. \<exists>seg \<in> set segs. covers w seg) \<and>
     (\<forall>seg \<in> set segs. StartCharIdx seg < EndCharIdx seg \<and> EndCharIdx seg \<le> n) \<and>
     sorted_wrt (\<lambda>v w. StartCharIdx v < StartCharIdx w) segs \<and>
     (\<forall>seg \<in> set segs. EndCharIdx seg \<le> EndCharIdx (last segs))"

lemma ordered_nth:
  assumes "ordered words" and "i < j" and "j < length words" and "\<forall>w \<in> set words. w_start w < w_end w"
  shows "w_start (words ! i) < w_start (words ! j)" and "w_end (words ! i) < w_end (words ! j)"
proof -
  have "w_end (words ! i) \<le> w_start (words ! j)"
    using assms(1-3) by (simp add: ordered_def sorted_wrt_iff_nth_less)
  moreover have "w_start (words ! i) < w_end (words ! i)" "w_start (words ! j) < w_end (words ! j)"
    using assms(2-4) by auto
  ultimately show "w_start (words ! i) < w_start (words ! j)" "w_end (words ! i) < w_end (words ! j)"
    by auto
qed

lemma ordered_nth_le:
  assumes "ordered words" and "i \<le> j" and "j < length words" and "\<forall>w \<in> set words. w_start w < w_end w"
  shows "w_start (words ! i) \<le> w_start (words ! j)" and "w_end (words ! i) \<le> w_end (words ! j)"
  using ordered_nth [OF assms(1) _ assms(3,4), of i] assms(2) by (cases "i = j"; force)+

lemma windows_segs_ok:
  assumes "windows_ok (length words) pc 0 ws" and "ordered words"
    and "\<forall>w \<in> set words. w_start w < w_end w \<and> w_end w \<le> n"
  shows "segs_ok words n (map (\<lambda>w. buildSegment (slice words w)) ws)"
proof -
  let ?seg = "\<lambda>w. buildSegment (slice words w)"
  have win: "\<forall>w \<in> set ws. fst w < snd w \<and> snd w \<le> length words"
    using assms(1) by (simp add: windows_ok_def)
  have pos: "\<forall>w \<in> set words. w_start w < w_end w"
    using assms(3) by blast
  have seg: "StartCharIdx (?seg w) = w_start (words ! fst w)" "EndCharIdx (?seg w) = w_end (words ! (snd w - 1))"
    if "w \<in> set ws" for w
    using slice_ends [of "fst w" "snd w" words] win that by (simp_all add: buildSegment_def Let_def)
  note le = ordered_nth_le [OF assms(2) _ _ pos] and less = ordered_nth [OF assms(2) _ _ pos]
  have "\<exists>s \<in> set (map ?seg ws). covers v s" if v: "v \<in> set words" for v
  proof -
    obtain j where j: "j < length words" "v = words ! j"
      using v by (metis in_set_conv_nth)
    then obtain w where w: "w \<in> set ws" "fst w \<le> j" "j < snd w"
      using assms(1) by (auto simp: windows_ok_def)
    have "covers v (?seg w)"
      using seg [OF w(1)] le(1) [OF w(2) j(1)] le(2) [of j "snd w - 1"] w win j(2)
      by (force simp: covers_def)
    then show ?thesis using w(1) by auto
  qed
  moreover have "StartCharIdx s < EndCharIdx s \<and> EndCharIdx s \<le> n" if s_in: "s \<in> set (map ?seg ws)" for s
  proof -
    obtain w where w: "w \<in> set ws" "s = ?seg w"
      using s_in by auto
    then have b: "fst w \<le> snd w - 1" "snd w - 1 < length words"
      using win by force+
    have "w_start (words ! fst w) < w_end (words ! fst w)"
      using pos b by (metis nth_mem order.strict_trans1)
    also have "\<dots> \<le> w_end (words ! (snd w - 1))"
      using le(2) [OF b] .
    finally show ?thesis
      using seg [OF w(1)] w(2) assms(3) nth_mem [OF b(2)] by simp
  qed
  moreover have "sorted_wrt (\<lambda>v w. StartCharIdx v < StartCharIdx w) (map ?seg ws)"
  proof -
    have "sorted_wrt (\<lambda>v w. fst v < fst w) ws"
      using assms(1) by (simp add: windows_ok_def)
    then show ?thesis
      unfolding sorted_wrt_map
    proof (rule sorted_wrt_mono_rel [rotated])
      fix v w
      assume vw: "v \<in> set ws" "w \<in> set ws" "fst v < fst w"
      then have "fst w < length words"
        using win by force
      then show "StartCharIdx (?seg v) < StartCharIdx (?seg w)"
        using seg(1) vw less(1) by simp
    qed
  qed
  moreover have "EndCharIdx s \<le> EndCharIdx (last (map ?seg ws))" if s_in: "s \<in> set (map ?seg ws)" for s
  proof -
    obtain w where w: "w \<in> set ws" "s = ?seg w"
      using s_in by auto
    have l: "last ws \<in> set ws" "snd (last ws) = length words" "ws \<noteq> []"
      using assms(1) by (auto simp: windows_ok_def)
    have "snd w - 1 \<le> length words - 1" "length words - 1 < length words"
      using win w(1) by force+
    then have "w_end (words ! (snd w - 1)) \<le> w_end (words ! (length words - 1))"
      by (rule le(2))
    then show ?thesis
      using seg(2) [OF w(1)] seg(2) [OF l(1)] l(2,3) w(2) by (simp add: last_map)
  qed
  ultimately show ?thesis
    unfolding segs_ok_def by blast
qed

lemma merge_tail_segs_ok:
  assumes "segs_ok words n segs"
  shows "segs_ok words n (merge_tail mt segs)"
proof (cases "2 \<le> length segs \<and> int (TokenCount (last segs)) < mt")
  case False
  then show ?thesis using assms unfolding merge_tail_def by (simp only: if_False)
next
  case True
  define front where "front = take (length segs - 2) segs"
  obtain p l where segs: "segs = front @ [p, l]"
  proof -
    obtain xs l where xs: "segs = xs @ [l]"
      using True by (cases segs rule: rev_cases) auto
    then obtain ys p where "xs = ys @ [p]"
      using True by (cases xs rule: rev_cases) auto
    with xs have "segs = front @ [p, l]"
      by (simp add: front_def)
    then show thesis by (rule that)
  qed
  obtain t where m: "merge_tail mt segs = front @ [p\<lparr>seg_Text := t, EndCharIdx := EndCharIdx l, TokenCount := EstimateTokens t\<rparr>]"
    using True by (simp add: merge_tail_def Let_def segs nth_append)
  have ok: "\<forall>w \<in> set words. \<exists>seg \<in> set segs. covers w seg"
    "\<forall>seg \<in> set segs. StartCharIdx seg < EndCharIdx seg \<and> EndCharIdx seg \<le> n"
    "sorted_wrt (\<lambda>v w. StartCharIdx v < StartCharIdx w) segs" "\<forall>seg \<in> set segs. EndCharIdx seg \<le> EndCharIdx l"
    using assms by (simp_all add: segs_ok_def segs)
  let ?q = "p\<lparr>seg_Text := t, EndCharIdx := EndCharIdx l, TokenCount := EstimateTokens t\<rparr>"
  have pl: "StartCharIdx p < StartCharIdx l" "EndCharIdx p \<le> EndCharIdx l"
    using ok(3,4) by (auto simp: segs sorted_wrt_append)
  have "covers w ?q" if "covers w p \<or> covers w l" for w
    using that pl by (auto simp: covers_def)
  then have "\<forall>w \<in> set words. \<exists>seg \<in> set (front @ [?q]). covers w seg"
    using ok(1) by (fastforce simp: segs)
  moreover have "StartCharIdx ?q < EndCharIdx ?q \<and> EndCharIdx ?q \<le> n"
    using ok(2) pl by (auto simp: segs)
  ultimately have "segs_ok words n (front @ [?q])"
    using ok(2-4) by (auto simp: segs_ok_def segs sorted_wrt_append)
  then show ?thesis
    by (simp only: m)
qed

section \<open>The text of a segment\<close>

lemma split_windows_hd: "split_windows words pc ov mf i \<noteq> [] \<Longrightarrow> fst (hd (split_windows words pc ov mf i)) = i"
  by (subst split_windows.simps, subst (asm) split_windows.simps) (auto split: if_splits prod.splits)

text \<open>A window starts inside or right behind the one before it.\<close>

lemma split_windows_touch:
  "0 < pc \<Longrightarrow> successively (\<lambda>v w. fst w \<le> snd v) (split_windows words pc ov mf i)"
proof (induction words pc ov mf i rule: split_windows.induct)
  case (1 words pc ov mf i)
  obtain e flushed where e: "chunk_end words pc mf i = (e, flushed)"
    by (cases "chunk_end words pc mf i")
  let ?rest = "split_windows words pc ov mf (next_start ov i e flushed)"
  have cons: "successively (\<lambda>v w. fst w \<le> snd v) ((i, e) # ?rest)"
    if "i < length words" "\<not> length words - i \<le> pc" "\<not> length words \<le> e"
  proof -
    have "i < e"
      using chunk_end_bounds [OF e] 1(2) that by simp
    moreover have "successively (\<lambda>v w. fst w \<le> snd v) ?rest"
      using 1(1) [OF _ that(2) e [symmetric] refl that(3) 1(2)] that(1) by simp
    ultimately show ?thesis
      using next_start_bounds split_windows_hd [of words pc ov mf "next_start ov i e flushed"]
      by (cases ?rest) auto
  qed
  have "split_windows words pc ov mf i =
      (if length words \<le> i then []
       else if length words - i \<le> pc then [(i, min (i + pc) (length words))]
       else (i, e) # (if length words \<le> e then [] else ?rest))"
    by (subst split_windows.simps) (simp add: e)
  then show ?case
    using cons by simp
qed

text \<open>
  A segment is the words from \<open>a\<close> to before \<open>b\<close>: its range is theirs, and its text is the words
  joined by single blanks (\<open>word_text\<close>). A merged segment is two runs of words that overlap or
  touch, from \<open>a\<close> to before \<open>d\<close> and from \<open>c\<close> to before \<open>b\<close>: the words they share are in its text
  twice.
\<close>

definition word_text :: "wordSpan list \<Rightarrow> nat \<Rightarrow> nat \<Rightarrow> string" where
  "word_text words a b = Join (map w_text (slice words (a, b))) '' ''"

definition seg_range :: "wordSpan list \<Rightarrow> nat \<Rightarrow> nat \<Rightarrow> segment \<Rightarrow> bool" where
  "seg_range words a b seg \<longleftrightarrow> a < b \<and> b \<le> length words \<and>
     StartCharIdx seg = w_start (words ! a) \<and> EndCharIdx seg = w_end (words ! (b - 1)) \<and>
     TokenCount seg = EstimateTokens (seg_Text seg)"

definition merged_text :: "wordSpan list \<Rightarrow> nat \<Rightarrow> nat \<Rightarrow> string \<Rightarrow> bool" where
  "merged_text words a b s \<longleftrightarrow> (\<exists>c d. a < c \<and> c \<le> d \<and> d \<le> b \<and>
     s = TrimSpace (word_text words a d @ '' '' @ word_text words c b))"

lemma buildSegment_range:
  assumes "a < b" and "b \<le> length words"
  shows "seg_range words a b (buildSegment (slice words (a, b)))"
    and "seg_Text (buildSegment (slice words (a, b))) = word_text words a b"
  using slice_ends [OF assms] assms by (simp_all add: seg_range_def buildSegment_def word_text_def Let_def)

lemma merge_tail_texts:
  assumes "windows_ok (length words) pc 0 ws" and "successively (\<lambda>v w. fst w \<le> snd v) ws"
    and "segs = merge_tail mt (map (\<lambda>w. buildSegment (slice words w)) ws)" and "seg \<in> set segs"
  shows "\<exists>a b. seg_range words a b seg \<and>
    (seg_Text seg = word_text words a b \<or> seg = last segs \<and> merged_text words a b (seg_Text seg))"
proof -
  let ?build = "\<lambda>w. buildSegment (slice words w)"
  have win: "fst w < snd w \<and> snd w \<le> length words" if "w \<in> set ws" for w
    using assms(1) that by (simp add: windows_ok_def)
  have cut: "\<exists>a b. seg_range words a b s \<and> seg_Text s = word_text words a b" if s_in: "s \<in> ?build ` set ws" for s
  proof -
    obtain w where "w \<in> set ws" "s = ?build w"
      using s_in by blast
    then have w: "w \<in> set ws" "s = ?build (fst w, snd w)"
      by simp_all
    show ?thesis
      using buildSegment_range [of "fst w" "snd w" words] win [OF w(1)] unfolding w(2) by blast
  qed
  show ?thesis
  proof (cases "2 \<le> length ws \<and> int (TokenCount (last (map ?build ws))) < mt")
    case False
    then have "segs = map ?build ws"
      unfolding assms(3) merge_tail_def length_map by (rule if_not_P)
    then show ?thesis
      using cut [of seg] assms(4) by (metis (no_types) set_map)
  next
    case True
    obtain front p l where ws: "ws = front @ [p, l]"
    proof -
      obtain xs l where xs: "ws = xs @ [l]" "xs \<noteq> []"
        using True by (cases ws rule: rev_cases) fastforce+
      then have "ws = butlast xs @ [last xs, l]"
        by simp
      then show thesis
        by (rule that)
    qed
    define t where "t = TrimSpace (seg_Text (?build p) @ '' '' @ seg_Text (?build l))"
    define q where "q = (?build p)\<lparr>seg_Text := t, EndCharIdx := EndCharIdx (?build l), TokenCount := EstimateTokens t\<rparr>"
    have segs: "segs = map ?build front @ [q]"
      using True by (simp add: assms(3) merge_tail_def Let_def ws nth_append q_def t_def)
    have pl: "fst p < snd p" "fst l < snd l" "snd l \<le> length words" "snd p \<le> length words"
      using win [of p] win [of l] by (simp_all add: ws)
    have "fst p < fst l" "snd l = length words"
      using assms(1) by (auto simp: windows_ok_def ws sorted_wrt_append)
    moreover have "fst l \<le> snd p"
      using assms(2) by (simp add: ws successively_append_iff)
    moreover note b = buildSegment_range [OF pl(1,4), simplified] buildSegment_range [OF pl(2,3), simplified]
    ultimately have "seg_range words (fst p) (snd l) q" "merged_text words (fst p) (snd l) (seg_Text q)"
      using pl by (auto simp: seg_range_def merged_text_def q_def t_def)
    then show ?thesis
      using cut [of seg] assms(4) by (auto simp: segs ws)
  qed
qed

section \<open>Properties\<close>

text \<open>The tokenizer loses nothing. The words of a text are its maximal runs without white space:
  each is the text at its byte offsets, they are disjoint and in order, and together they are the
  text without its white space.\<close>

theorem words_are_the_text:
  "(\<forall>w \<in> set (tokenizeWords s). w_text w \<noteq> [] \<and> w_end w = w_start w + length (w_text w) \<and>
      take (length (w_text w)) (drop (w_start w) s) = w_text w) \<and>
    sorted_wrt (\<lambda>v w. w_end v \<le> w_start w) (tokenizeWords s) \<and>
    concat (map w_text (tokenizeWords s)) = filter (\<lambda>b. \<not> isSpaceByte b) s"
  using tokenizeWords_spans [of s] by (auto simp: span_of_def ordered_def)

theorem words_are_the_text_witness:
  "concat (map w_text (tokenizeWords ''a b'')) = ''ab''"
  using words_are_the_text [of "''a b''"] by (simp add: isSpaceByte_def)

text \<open>C8: chunking covers the document, and every segment is the text it stands for. For every size
  and overlap, \<open>Split\<close> terminates and every word of the text lies inside a segment; the segments
  are non-empty ranges of the text with strictly increasing starts. Each segment covers a run of
  words and its text is these words, each the bytes of the document at its offsets, joined by
  single blanks; only the last segment may instead be a merged one, whose text is that of two
  overlapping or adjacent runs (with the shared words twice). The token count is that of the
  segment's text.\<close>

theorem split_covers_text:
  "(\<forall>w \<in> set (tokenizeWords doc). \<exists>seg \<in> set (Split sp doc).
      StartCharIdx seg \<le> w_start w \<and> w_end w \<le> EndCharIdx seg) \<and>
   (\<forall>seg \<in> set (Split sp doc). StartCharIdx seg < EndCharIdx seg \<and> EndCharIdx seg \<le> length doc) \<and>
   sorted_wrt (\<lambda>v w. StartCharIdx v < StartCharIdx w) (Split sp doc) \<and>
   (\<forall>seg \<in> set (Split sp doc). \<exists>a b. seg_range (tokenizeWords doc) a b seg \<and>
      (seg_Text seg = word_text (tokenizeWords doc) a b \<or>
       seg = last (Split sp doc) \<and> merged_text (tokenizeWords doc) a b (seg_Text seg))) \<and>
   (\<forall>w \<in> set (tokenizeWords doc). take (length (w_text w)) (drop (w_start w) doc) = w_text w)"
proof (cases "tokenizeWords doc = []")
  case True
  then show ?thesis by (simp add: Split_def)
next
  case False
  let ?ws = "tokenizeWords doc"
  obtain pc ov mf where par: "split_params sp = (pc, ov, mf)"
    by (cases "split_params sp")
  then have "0 < pc"
    by (auto simp: split_params_def Let_def split: if_splits)
  have split: "Split sp doc = merge_tail (sp_MinTokens sp)
      (map (\<lambda>w. buildSegment (slice ?ws w)) (split_windows ?ws pc ov mf 0))"
    using False by (simp add: Split_def Let_def par)
  have win: "windows_ok (length ?ws) pc 0 (split_windows ?ws pc ov mf 0)"
    using False \<open>0 < pc\<close> by (intro split_windows_ok) auto
  moreover have spans: "\<forall>w \<in> set ?ws. w_start w < w_end w \<and> w_end w \<le> length doc"
    using tokenizeWords_spans [of doc] by (auto simp: span_of_def)
  ultimately have "segs_ok ?ws (length doc)
      (map (\<lambda>w. buildSegment (slice ?ws w)) (split_windows ?ws pc ov mf 0))"
    using tokenizeWords_spans [of doc] by (intro windows_segs_ok) auto
  then have "segs_ok ?ws (length doc) (Split sp doc)"
    using merge_tail_segs_ok by (simp add: split)
  moreover note merge_tail_texts [OF win split_windows_touch [OF \<open>0 < pc\<close>] split]
  moreover have "\<forall>w \<in> set ?ws. take (length (w_text w)) (drop (w_start w) doc) = w_text w"
    using tokenizeWords_spans [of doc] by (simp add: span_of_def)
  ultimately show ?thesis
    by (simp add: segs_ok_def covers_def)
qed

theorem split_covers_text_witness:
  "\<exists>seg \<in> set (Split (NewSplitter 13 4) ''a''). StartCharIdx seg \<le> 0 \<and> 1 \<le> EndCharIdx seg"
proof -
  have "tokenizeWords ''a'' = [\<lparr>w_text = ''a'', w_start = 0, w_end = 1, sentEnd = True, paraEnd = False\<rparr>]"
    by (simp add: tokenizeWords_def tok_loop.simps isSpaceByte_def mark_last_def Let_def hasParagraphBreak_def)
  then show ?thesis
    using split_covers_text [of "''a''" "NewSplitter 13 4"] by simp
qed

end
