(* ===== verification/Model.thy ===== *)
theory Model
  imports Complex_Main Go_Strings
begin

text \<open>
  The data model, \<open>internal/model/model.go\<close> and \<open>verdict.go\<close>: documents, chunks and their
  sidecars, and the content-addressed identities. Times are nanoseconds (\<open>int\<close>); a pointer that
  may be nil is an option. A value of a \<open>map[string]any\<close> is a \<open>meta_val\<close>: the dynamic types the
  code asserts, and \<open>MOther\<close> for all others. SHA-256 is the parameter \<open>sha\<close> and \<open>fmt\<close>'s verb
  \<open>%v\<close> the parameter \<open>fmt_v\<close>.
\<close>

section \<open>Sidecars\<close>

datatype poison_level = PoisonClean | PoisonSuspicious | PoisonQuarantine | PoisonReleased

definition Quarantined :: "poison_level \<Rightarrow> bool" where
  "Quarantined l \<longleftrightarrow> l = PoisonSuspicious \<or> l = PoisonQuarantine"

record poison_signals =
  Repetition :: real
  Stuffing :: real
  Instruction :: real

record poison_verdict =
  pv_Level :: poison_level
  pv_Score :: real
  pv_Signals :: poison_signals
  pv_MatchedPhrases :: "string list"

record near_dup_info =
  Siblings :: "string list"
  Similarity :: real

record caption_info =
  cap_Model :: string
  cap_GeneratedAt :: int
  cap_Status :: string
  cap_ImagePages :: "int list"

record enrich_info =
  en_Tags :: "string list"
  en_Summary :: string
  en_Model :: string
  en_GeneratedAt :: int
  en_Status :: string

definition EnrichStatusDone :: string where "EnrichStatusDone = ''enriched''"
definition EnrichStatusFailed :: string where "EnrichStatusFailed = ''failed''"
definition EnrichStatusNothing :: string where "EnrichStatusNothing = ''nothing-to-enrich''"

section \<open>Metadata\<close>

record heading_span =
  hs_Offset :: int
  hs_Level :: int
  hs_Text :: string

record wikilink_span =
  wl_Offset :: int
  wl_Target :: string

record image_ref =
  im_PageNr :: int
  im_FileType :: string
  im_Bytes :: bytes

datatype meta_val =
    MString string
  | MStrings "string list"
  | MList "meta_val list"
  | MFloat real
  | MInt int
  | MHeadings "heading_span list"
  | MWikilinks "wikilink_span list"
  | MImages "image_ref list"
  | MOffsets "(int \<times> int) list"
  | MOther string

type_synonym metadata = "(string \<times> meta_val) list"

text \<open>A Go map with keys visited in some order; a key occurs once. Lookup and deletion.\<close>

definition meta_delete :: "string \<Rightarrow> metadata \<Rightarrow> metadata" where
  "meta_delete k m = filter (\<lambda>kv. fst kv \<noteq> k) m"

lemma meta_delete_lookup [simp]: "map_of (meta_delete k m) = (map_of m)(k := None)"
  by (induction m) (auto simp: meta_delete_def)

section \<open>Documents and chunks\<close>

record document =
  d_ID :: string
  d_SourceID :: string
  d_FilePath :: string
  d_FileName :: string
  d_FileType :: string
  d_MimeType :: string
  d_ContentHash :: string
  d_Metadata :: metadata
  d_ChunkCount :: int
  d_FileSize :: int
  d_IngestedAt :: int
  d_UpdatedAt :: int
  d_Status :: string
  d_Enrichment :: "enrich_info option"

record chunk =
  c_ID :: string
  c_DocumentID :: string
  c_Content :: string
  c_ChunkIndex :: int
  c_TotalChunks :: int
  c_StartCharIdx :: int
  c_EndCharIdx :: int
  c_PageNumber :: int
  c_PreviousChunkID :: string
  c_NextChunkID :: string
  c_TokenCount :: int
  c_CreatedAt :: int
  c_Poisoning :: "poison_verdict option"
  c_SectionContext :: "string list"
  c_SectionLevel :: int
  c_ExtractionMethod :: string
  c_ExtractionQuality :: real
  c_ContentHash :: string
  c_Wikilinks :: "string list"
  c_NearDup :: "near_dup_info option"
  c_Caption :: "caption_info option"
  c_Kind :: string

section \<open>Identities\<close>

text \<open>What \<open>GenerateID\<close> writes to the hash, piece after piece and without separators.\<close>

definition id_input :: "(meta_val \<Rightarrow> string) \<Rightarrow> string \<Rightarrow> string \<Rightarrow> metadata \<Rightarrow> string" where
  "id_input fmt_v content mimeType meta =
     content @ mimeType @
     concat (map (\<lambda>k. k @ ''='' @ fmt_v (the (map_of meta k))) (sort (map fst meta)))"

definition GenerateID ::
    "(bytes \<Rightarrow> bytes) \<Rightarrow> (meta_val \<Rightarrow> string) \<Rightarrow> string \<Rightarrow> string \<Rightarrow> metadata \<Rightarrow> string" where
  "GenerateID sha fmt_v content mimeType meta =
     hex_of_bytes (sha (str_bytes (id_input fmt_v content mimeType meta)))"

definition ContentHash :: "(bytes \<Rightarrow> bytes) \<Rightarrow> bytes \<Rightarrow> string" where
  "ContentHash sha raw = hex_of_bytes (sha raw)"

text \<open>The map order does not matter.\<close>

lemma GenerateID_order_independent:
  assumes "distinct (map fst meta)" and "map_of meta = map_of meta'" and "distinct (map fst meta')"
  shows "GenerateID sha fmt_v content mimeType meta = GenerateID sha fmt_v content mimeType meta'"
proof -
  have "set (map fst meta) = set (map fst meta')"
    using assms(2) by (metis dom_map_of_conv_image_fst list.set_map)
  then have "sort (map fst meta) = sort (map fst meta')"
    using assms(1,3) by (intro sorted_distinct_set_unique) auto
  then show ?thesis
    by (simp add: GenerateID_def id_input_def assms(2))
qed

section \<open>JSON\<close>

text \<open>
  \<open>encoding/json\<close> on a type of the model: \<open>cd_marshal\<close> fails on values JSON cannot express (NaN,
  infinities), \<open>cd_unmarshal\<close> on ill-formed text. \<open>codec_on X\<close> is what the code relies on: values
  of \<open>X\<close> are read back as they were written. JSON replaces ill-formed UTF-8 by U+FFFD, so \<open>X\<close> holds
  at most the values whose strings are UTF-8.
\<close>

record 'a codec =
  cd_marshal :: "'a \<Rightarrow> bytes option"
  cd_unmarshal :: "bytes \<Rightarrow> 'a option"

definition codec_on :: "'a set \<Rightarrow> 'a codec \<Rightarrow> bool" where
  "codec_on X C \<longleftrightarrow> (\<forall>x \<in> X. \<forall>bs. cd_marshal C x = Some bs \<longrightarrow> cd_unmarshal C bs = Some x)"

lemma codec_onD: "codec_on X C \<Longrightarrow> x \<in> X \<Longrightarrow> cd_marshal C x = Some bs \<Longrightarrow> cd_unmarshal C bs = Some x"
  by (simp add: codec_on_def)

text \<open>The bytes of \<open>b, _ := json.Marshal(x)\<close>: nil on an error.\<close>

definition marshal_or_nil :: "'a codec \<Rightarrow> 'a \<Rightarrow> bytes" where
  "marshal_or_nil C x = (case cd_marshal C x of Some bs \<Rightarrow> bs | None \<Rightarrow> [])"

section \<open>Zero values\<close>

definition blank_chunk :: chunk where
  "blank_chunk =
     \<lparr>c_ID = [], c_DocumentID = [], c_Content = [], c_ChunkIndex = 0, c_TotalChunks = 0,
      c_StartCharIdx = 0, c_EndCharIdx = 0, c_PageNumber = 0, c_PreviousChunkID = [],
      c_NextChunkID = [], c_TokenCount = 0, c_CreatedAt = 0, c_Poisoning = None,
      c_SectionContext = [], c_SectionLevel = 0, c_ExtractionMethod = [], c_ExtractionQuality = 0,
      c_ContentHash = [], c_Wikilinks = [], c_NearDup = None, c_Caption = None, c_Kind = []\<rparr>"

definition blank_document :: document where
  "blank_document =
     \<lparr>d_ID = [], d_SourceID = [], d_FilePath = [], d_FileName = [], d_FileType = [], d_MimeType = [],
      d_ContentHash = [], d_Metadata = [], d_ChunkCount = 0, d_FileSize = 0, d_IngestedAt = 0,
      d_UpdatedAt = 0, d_Status = [], d_Enrichment = None\<rparr>"

end
