(* ===== verification/Migrate.thy ===== *)
theory Migrate
  imports Model Vault_Registry
begin

text \<open>
  Schema migrations, \<open>internal/storage/migrate\<close>: the runner of \<open>migrate.go\<close>, the steps v1 to v4 and
  the merge of the legacy per-vault stores. A step's \<open>Up\<close> maps the store to an error or nil and the
  store it leaves. A crash is the store left by a prefix of the durable commits.
\<close>

section \<open>The runner\<close>

record 'db migration =
  m_version :: "64 word"
  m_description :: string
  m_up :: "'db \<Rightarrow> go_error option \<times> 'db"

definition schemaVersionKey :: bytes where
  "schemaVersionKey = 0xFF # str_bytes ''schema_ver''"

definition ExpectedVersion :: "64 word" where
  "ExpectedVersion = 4"

definition readVersion :: "'db pebble_ops \<Rightarrow> 'db \<Rightarrow> 64 word gres" where
  "readVersion P d =
     (case pb_get P d schemaVersionKey of
        Inl e \<Rightarrow> Inl e
      | Inr None \<Rightarrow> Inr 0
      | Inr (Some val) \<Rightarrow>
          if length val \<noteq> 8 then Inl (CorruptSchemaVersion (length val))
          else Inr (word_of_nat (be_value val)))"

definition writeVersion :: "'db pebble_ops \<Rightarrow> 'db \<Rightarrow> 64 word \<Rightarrow> 'db gres" where
  "writeVersion P d v = pb_commit P d [KSet schemaVersionKey (be_bytes 8 (unat v))]"

text \<open>The registry check on the sorted list: it starts at 1 and has no gaps or duplicates.\<close>

fun gap_check :: "'db migration list \<Rightarrow> go_error option" where
  "gap_check (m # m' # ms) =
     (if m_version m' \<noteq> m_version m + 1
      then Some (MigrationsNotContiguous (unat (m_version m)) (unat (m_version m')))
      else gap_check (m' # ms))"
| "gap_check ms = None"

definition registry_check :: "'db migration list \<Rightarrow> go_error option" where
  "registry_check sorted_ms =
     (case sorted_ms of
        [] \<Rightarrow> None
      | m # ms \<Rightarrow>
          if m_version m \<noteq> 1 then Some (MigrationsNotFromOne (unat (m_version m)))
          else gap_check (m # ms))"

text \<open>The loop returns the count of applied steps, the error and the store.\<close>

fun run_loop :: "'db pebble_ops \<Rightarrow> 64 word \<Rightarrow> 64 word \<Rightarrow> 'db migration list \<Rightarrow> nat \<Rightarrow> 'db \<Rightarrow>
    nat \<times> go_error option \<times> 'db" where
  "run_loop P current expected [] applied d = (applied, None, d)"
| "run_loop P current expected (m # ms) applied d =
     (if m_version m \<le> current \<or> expected < m_version m
      then run_loop P current expected ms applied d
      else case m_up m d of
             (Some e, d') \<Rightarrow> (applied, Some (MigrationFailed (unat (m_version m)) e), d')
           | (None, d') \<Rightarrow>
               (case writeVersion P d' (m_version m) of
                  Inl e \<Rightarrow> (applied, Some (PersistVersionFailed (unat (m_version m)) e), d')
                | Inr d'' \<Rightarrow> run_loop P current expected ms (applied + 1) d''))"

definition Run :: "'db pebble_ops \<Rightarrow> 'db \<Rightarrow> 64 word \<Rightarrow> 'db migration list \<Rightarrow>
    nat \<times> go_error option \<times> 'db" where
  "Run P d expected ms =
     (let sorted_ms = sort_key m_version ms
      in case registry_check sorted_ms of
           Some e \<Rightarrow> (0, Some e, d)
         | None \<Rightarrow>
             (case readVersion P d of
                Inl e \<Rightarrow> (0, Some (ReadVersionFailed e), d)
              | Inr current \<Rightarrow>
                  if expected < current then (0, Some (StoreTooNew (unat current) (unat expected)), d)
                  else run_loop P current expected sorted_ms 0 d))"

section \<open>The steps v1, v2, v3\<close>

definition v1Bootstrap :: "'db \<Rightarrow> go_error option \<times> 'db" where
  "v1Bootstrap d = (None, d)"

definition v3RegisterAuthPrefixes :: "'db \<Rightarrow> go_error option \<times> 'db" where
  "v3RegisterAuthPrefixes d = (None, d)"

text \<open>\<open>v2ContentHash\<close>: one batch with the records that parse, their content hash filled in.\<close>

definition rehash :: "(bytes \<Rightarrow> bytes) \<Rightarrow> chunk codec \<Rightarrow> bytes \<Rightarrow> bytes option" where
  "rehash sha C val =
     (case cd_unmarshal C val of
        None \<Rightarrow> None
      | Some c \<Rightarrow> cd_marshal C (c\<lparr>c_ContentHash := ContentHash sha (str_bytes (c_Content c))\<rparr>))"

definition v2_ops :: "(bytes \<Rightarrow> bytes) \<Rightarrow> chunk codec \<Rightarrow> (bytes \<times> bytes) list \<Rightarrow> kv_op list" where
  "v2_ops sha C kvs =
     concat (map (\<lambda>(k, v). case rehash sha C v of None \<Rightarrow> [] | Some v' \<Rightarrow> [KSet k v']) kvs)"

definition v2ContentHash :: "'db pebble_ops \<Rightarrow> (bytes \<Rightarrow> bytes) \<Rightarrow> chunk codec \<Rightarrow>
    'db \<Rightarrow> go_error option \<times> 'db" where
  "v2ContentHash P sha C d =
     (case pb_iter P d (Some [PrefixChunk]) (Some [PrefixChunk + 1]) of
        Inl e \<Rightarrow> (Some e, d)
      | Inr (kvs, Some e) \<Rightarrow> (Some e, d)
      | Inr (kvs, None) \<Rightarrow>
          (case pb_commit P d (v2_ops sha C kvs) of Inl e \<Rightarrow> (Some e, d) | Inr d' \<Rightarrow> (None, d')))"

section \<open>The merge of legacy stores, v4\<close>

definition migrateBatchSize :: nat where
  "migrateBatchSize = 4096"

record vault_stats =
  vs_Vault :: string
  vs_Widened :: nat
  vs_SkippedGlobal :: nat

definition widen :: "ws \<Rightarrow> bytes \<Rightarrow> bytes" where
  "widen ws srcKey = hd srcKey # ws @ tl srcKey"

text \<open>
  The copy loop: \<open>batch\<close> is the pending batch (newest first), \<open>pending\<close> its length. A failed flush
  ends the copy with the store as it is.
\<close>

fun copy_loop :: "'db pebble_ops \<Rightarrow> ws \<Rightarrow> (bytes \<times> bytes) list \<Rightarrow> kv_op list \<Rightarrow> nat \<Rightarrow>
    vault_stats \<Rightarrow> 'db \<Rightarrow> (kv_op list \<times> vault_stats) gres \<times> 'db" where
  "copy_loop P ws [] batch pending stats d = (Inr (batch, stats), d)"
| "copy_loop P ws ((k, v) # kvs) batch pending stats d =
     (if length k < 1 then copy_loop P ws kvs batch pending stats d
      else if hd k \<notin> set VaultScopedKinds
      then copy_loop P ws kvs batch pending (stats\<lparr>vs_SkippedGlobal := vs_SkippedGlobal stats + 1\<rparr>) d
      else
        let batch' = KSet (widen ws k) v # batch;
            stats' = stats\<lparr>vs_Widened := vs_Widened stats + 1\<rparr>
        in if pending + 1 \<ge> migrateBatchSize
           then (case pb_commit P d (rev batch') of
                   Inl e \<Rightarrow> (Inl e, d)
                 | Inr d' \<Rightarrow> copy_loop P ws kvs [] 0 stats' d')
           else copy_loop P ws kvs batch' (pending + 1) stats' d)"

definition RewriteLegacyVault :: "'db pebble_ops \<Rightarrow> siphash \<Rightarrow> 'db \<Rightarrow> 'db \<Rightarrow> string \<Rightarrow>
    vault_stats gres \<times> 'db" where
  "RewriteLegacyVault P sip unified legacy vaultName =
     (let ws = VaultPrefix sip vaultName;
          stats = \<lparr>vs_Vault = vaultName, vs_Widened = 0, vs_SkippedGlobal = 0\<rparr>
      in case pb_get P unified (VaultMetaKey ws) of
           Inr (Some _) \<Rightarrow> (Inr (stats\<lparr>vs_Vault := vaultName @ '' (already migrated)''\<rparr>), unified)
         | _ \<Rightarrow>
             (case pb_commit P unified [KSet (VaultMetaKey ws) (str_bytes vaultName),
                       KSet (VaultNameIndexKey sip vaultName) ws] of
                Inl e \<Rightarrow> (Inl e, unified)
              | Inr d1 \<Rightarrow>
                  (case pb_iter P legacy None None of
                     Inl e \<Rightarrow> (Inl e, d1)
                   | Inr (kvs, err) \<Rightarrow>
                       (case copy_loop P ws kvs [] 0 stats d1 of
                          (Inl e, d2) \<Rightarrow> (Inl e, d2)
                        | (Inr (batch, stats'), d2) \<Rightarrow>
                            (case err of
                               Some e \<Rightarrow> (Inl e, d2)
                             | None \<Rightarrow>
                                 if batch = [] then (Inr stats', d2)
                                 else (case pb_commit P d2 (rev batch) of
                                         Inl e \<Rightarrow> (Inl e, d2)
                                       | Inr d3 \<Rightarrow> (Inr stats', d3)))))))"

section \<open>Legacy directories\<close>

text \<open>
  The legacy root as the operating system shows it: \<open>fs_readdir\<close> is \<open>os.ReadDir\<close> (\<open>None\<close>: it does
  not exist), the entries in the order of their names; a directory holds a store under
  \<open>data\<close> or not. Opening, closing and renaming may fail, by name.
\<close>

datatype 'db fs_entry = FFile | FDir "'db option"

type_synonym 'db fs_dir = "(string \<times> 'db fs_entry) list"

record legacy_io =
  io_open :: "string \<Rightarrow> go_error option"
  io_close :: "string \<Rightarrow> go_error option"
  io_rename :: "string \<Rightarrow> go_error option"

text \<open>\<open>filepath.Ext\<close>: the suffix from the last dot of the last path element.\<close>

definition Ext :: "string \<Rightarrow> string" where
  "Ext path =
     (let r = rev path; t = takeWhile (\<lambda>c. c \<noteq> CHR ''.'' \<and> c \<noteq> CHR ''/'') r
      in case drop (length t) r of
           [] \<Rightarrow> []
         | c # _ \<Rightarrow> if c = CHR ''.'' then CHR ''.'' # rev t else [])"

definition legacyCandidates :: "string \<Rightarrow> 'db fs_dir option gres \<Rightarrow> (string \<times> 'db) list gres" where
  "legacyCandidates lroot dir =
     (if lroot = [] then Inl NoLegacyVaults
      else case dir of
             Inl e \<Rightarrow> Inl e
           | Inr None \<Rightarrow> Inl NoLegacyVaults
           | Inr (Some es) \<Rightarrow>
               let cands = concat (map (\<lambda>(name, e).
                     case e of
                       FFile \<Rightarrow> []
                     | FDir data \<Rightarrow>
                         if Ext name = ''.prev'' \<or> name = ''.DS_Store'' then []
                         else case data of None \<Rightarrow> [] | Some db \<Rightarrow> [(name, db)]) es)
               in if cands = [] then Inl NoLegacyVaults else Inr cands)"

definition archive_dir :: "string \<Rightarrow> 'db fs_dir \<Rightarrow> 'db fs_dir" where
  "archive_dir name es =
     map (\<lambda>(n, e). if n = name then (name @ ''.prev'', e) else (n, e))
       (filter (\<lambda>(n, e). n \<noteq> name @ ''.prev'') es)"

record merge_report =
  mr_Vaults :: "vault_stats list"
  mr_Archived :: "string list"

fun mergeLegacyCandidates :: "'db pebble_ops \<Rightarrow> siphash \<Rightarrow> legacy_io \<Rightarrow> (string \<times> 'db) list \<Rightarrow>
    merge_report \<Rightarrow> 'db \<times> 'db fs_dir \<Rightarrow> merge_report gres \<times> 'db \<times> 'db fs_dir" where
  "mergeLegacyCandidates P sip io [] report (d, es) = (Inr report, d, es)"
| "mergeLegacyCandidates P sip io ((name, legacy) # cands) report (d, es) =
     (case io_open io name of
        Some e \<Rightarrow> (Inl e, d, es)
      | None \<Rightarrow>
          (let (res, d') = RewriteLegacyVault P sip d legacy name
           in case io_close io name of
                Some e \<Rightarrow> (Inl e, d', es)
              | None \<Rightarrow>
                  (case res of
                     Inl e \<Rightarrow> (Inl e, d', es)
                   | Inr stats \<Rightarrow>
                       (case io_rename io name of
                          Some e \<Rightarrow> (Inl e, d', filter (\<lambda>(n, e). n \<noteq> name @ ''.prev'') es)
                        | None \<Rightarrow>
                            mergeLegacyCandidates P sip io cands
                              \<lparr>mr_Vaults = mr_Vaults report @ [stats],
                               mr_Archived = mr_Archived report @ [name @ ''.prev'']\<rparr>
                              (d', archive_dir name es)))))"

definition mergeLegacy :: "'db pebble_ops \<Rightarrow> siphash \<Rightarrow> legacy_io \<Rightarrow> string \<Rightarrow>
    'db fs_dir option gres \<Rightarrow> 'db \<Rightarrow> merge_report gres \<times> 'db \<times> 'db fs_dir option gres" where
  "mergeLegacy P sip io lroot dir d =
     (case legacyCandidates lroot dir of
        Inl e \<Rightarrow> (Inl e, d, dir)
      | Inr cands \<Rightarrow>
          (case dir of
             Inr (Some es) \<Rightarrow>
               let (r, d', es') = mergeLegacyCandidates P sip io cands
                     \<lparr>mr_Vaults = [], mr_Archived = []\<rparr> (d, es)
               in (r, d', Inr (Some es'))
           | _ \<Rightarrow> (Inl NoLegacyVaults, d, dir)))"

definition v4MultiVault :: "'db pebble_ops \<Rightarrow> siphash \<Rightarrow> legacy_io \<Rightarrow> string \<Rightarrow>
    'db fs_dir option gres \<Rightarrow> 'db \<Rightarrow> go_error option \<times> 'db" where
  "v4MultiVault P sip io lroot dir d =
     (case mergeLegacy P sip io lroot dir d of
        (Inr report, d', _) \<Rightarrow> (None, d')
      | (Inl e, d', _) \<Rightarrow> (if e = NoLegacyVaults then None else Some e, d'))"

definition defaultMigrations :: "'db pebble_ops \<Rightarrow> (bytes \<Rightarrow> bytes) \<Rightarrow> chunk codec \<Rightarrow> siphash \<Rightarrow>
    legacy_io \<Rightarrow> string \<Rightarrow> 'db fs_dir option gres \<Rightarrow> 'db migration list" where
  "defaultMigrations P sha C sip io lroot dir =
     [\<lparr>m_version = 1, m_description = ''introduce schema-version key (v0 to v1 bootstrap)'',
        m_up = v1Bootstrap\<rparr>,
      \<lparr>m_version = 2, m_description = ''backfill per-chunk ContentHash sidecar (spec 043 / BL-010)'',
        m_up = v2ContentHash P sha C\<rparr>,
      \<lparr>m_version = 3, m_description = ''reserve auth key-space prefixes (spec 045)'',
        m_up = v3RegisterAuthPrefixes\<rparr>,
      \<lparr>m_version = 4, m_description = ''multi-vault unified-store key-widening (spec 052)'',
        m_up = v4MultiVault P sip io lroot dir\<rparr>]"

definition RunMigrations :: "'db pebble_ops \<Rightarrow> (bytes \<Rightarrow> bytes) \<Rightarrow> chunk codec \<Rightarrow> siphash \<Rightarrow>
    legacy_io \<Rightarrow> string \<Rightarrow> 'db fs_dir option gres \<Rightarrow> 'db \<Rightarrow> go_error option \<times> 'db" where
  "RunMigrations P sha C sip io lroot dir d =
     (let (applied, err, d') = Run P d ExpectedVersion (defaultMigrations P sha C sip io lroot dir)
      in (err, d'))"

section \<open>What the runner does\<close>

text \<open>\<open>implements m U\<close>: the step succeeds on every store and changes the contents by \<open>U\<close>.\<close>

definition implements :: "('db \<Rightarrow> contents) \<Rightarrow> 'db migration \<Rightarrow> (contents \<Rightarrow> contents) \<Rightarrow> bool" where
  "implements view m U \<longleftrightarrow> (\<forall>d. \<exists>d'. m_up m d = (None, d') \<and> view d' = U (view d))"

text \<open>A valid registry holds the versions 1 to n, whatever the order of registration.\<close>

lemma gap_check_versions:
  assumes "gap_check (m # ms) = None" and "sorted (map m_version (m # ms))" and "i < length (m # ms)"
  shows "unat (m_version ((m # ms) ! i)) = unat (m_version m) + i"
  using assms
proof (induction ms arbitrary: m i)
  case (Cons m' ms)
  have step: "m_version m' = m_version m + 1" and rest: "gap_check (m' # ms) = None"
    using Cons.prems(1) by (auto split: if_splits)
  have "m_version m \<le> m_version m'"
    using Cons.prems(2) by simp
  have "1 + m_version m \<noteq> 0"
  proof
    assume zero: "1 + m_version m = 0"
    then have "m_version m \<le> 0"
      using \<open>m_version m \<le> m_version m'\<close> by (simp add: step add.commute)
    then show False
      using zero by simp
  qed
  then have suc: "unat (m_version m') = unat (m_version m) + 1"
    using unatSuc [of "m_version m"] by (auto simp: step add.commute)
  show ?case
  proof (cases i)
    case (Suc j)
    then show ?thesis
      using Cons.IH [of m' j] rest Cons.prems suc by simp
  qed simp
qed simp

lemma registry_check_versions:
  assumes "registry_check (sort_key m_version ms) = None" and "i < length ms"
  shows "unat (m_version (sort_key m_version ms ! i)) = i + 1"
proof -
  obtain m rest where S: "sort_key m_version ms = m # rest"
    using assms(2) by (metis length_sort list.exhaust list.size(3) less_nat_zero_code)
  have "m_version m = 1" and "gap_check (m # rest) = None"
    using assms(1) by (auto simp: registry_check_def S split: if_splits)
  moreover have "sorted (map m_version (m # rest))"
    using sorted_sort_key [of m_version ms] by (simp only: S)
  moreover have "i < length (m # rest)"
    using assms(2) by (metis S length_sort)
  ultimately show ?thesis
    using gap_check_versions [of m rest i] by (simp add: S)
qed

lemma filter_numbered:
  assumes "\<forall>i < length S. f (S ! i) = i + (1 :: nat)"
  shows "filter (\<lambda>m. c < f m \<and> f m \<le> e) S = drop c (take e S)"
  using assms
proof (induction S rule: rev_induct)
  case (snoc m S)
  then have "f m = length S + 1" and "\<forall>i < length S. f (S ! i) = i + 1"
    by (auto simp: nth_append split: if_splits)
  with snoc.IH show ?case
    by (cases "length S < e"; cases "c \<le> length S") auto
qed simp

definition step_effect ::
    "('db migration \<Rightarrow> contents \<Rightarrow> contents) \<Rightarrow> 'db migration \<Rightarrow> contents \<Rightarrow> contents" where
  "step_effect U m c = (U m c)(schemaVersionKey \<mapsto> be_bytes 8 (unat (m_version m)))"

context pebble
begin

lemma run_loop_effect:
  assumes "reliable P" and "\<forall>m \<in> set ms. implements view m (U m)"
  shows "\<exists>d'. run_loop P cur expected ms n d =
      (n + length (filter (\<lambda>m. \<not> (m_version m \<le> cur \<or> expected < m_version m)) ms), None, d') \<and>
    view d' = fold (step_effect U) (filter (\<lambda>m. \<not> (m_version m \<le> cur \<or> expected < m_version m)) ms) (view d)"
  using assms(2)
proof (induction ms arbitrary: n d)
  case (Cons m ms)
  show ?case
  proof (cases "m_version m \<le> cur \<or> expected < m_version m")
    case True
    then show ?thesis
      using Cons.IH [of n d] Cons.prems by auto
  next
    case False
    obtain d1 where d1: "m_up m d = (None, d1)" "view d1 = U m (view d)"
      using Cons.prems unfolding implements_def by (metis list.set_intros(1))
    obtain d2 where d2: "writeVersion P d1 (m_version m) = Inr d2"
      "view d2 = (view d1)(schemaVersionKey \<mapsto> be_bytes 8 (unat (m_version m)))"
      by (rule reliable_commitE [OF assms(1), of d1 "[KSet schemaVersionKey (be_bytes 8 (unat (m_version m)))]"])
        (simp add: writeVersion_def)
    obtain d' where "run_loop P cur expected ms (n + 1) d2 =
        (n + 1 + length (filter (\<lambda>m. \<not> (m_version m \<le> cur \<or> expected < m_version m)) ms), None, d')"
      "view d' = fold (step_effect U) (filter (\<lambda>m. \<not> (m_version m \<le> cur \<or> expected < m_version m)) ms) (view d2)"
      using Cons.IH [of "n + 1" d2] Cons.prems by auto
    moreover have "view d2 = step_effect U m (view d)"
      by (simp add: d2(2) d1(2) step_effect_def)
    ultimately show ?thesis
      using False d1(1) d2(1) by simp
  qed
qed simp

text \<open>A valid run applies the steps after the store's version up to the expected one, in order.\<close>

lemma Run_effect:
  assumes "reliable P" and "\<forall>m \<in> set ms. implements view m (U m)"
    and "registry_check (sort_key m_version ms) = None"
    and "readVersion P d = Inr cur" and "cur \<le> expected"
  shows "\<exists>n d'. Run P d expected ms = (n, None, d') \<and>
    view d' = fold (step_effect U)
      (drop (unat cur) (take (unat expected) (sort_key m_version ms))) (view d)"
proof -
  let ?S = "sort_key m_version ms"
  have num: "\<forall>i < length ?S. unat (m_version (?S ! i)) = i + 1"
    using registry_check_versions [OF assms(3)] by simp
  have "filter (\<lambda>m. \<not> (m_version m \<le> cur \<or> expected < m_version m)) ?S =
      drop (unat cur) (take (unat expected) ?S)"
    unfolding filter_numbered [OF num, symmetric]
    by (rule arg_cong [where f = "\<lambda>q. filter q ?S"]) (auto simp: word_less_nat_alt word_le_nat_alt)
  then show ?thesis
    using run_loop_effect [OF assms(1), of ?S U cur expected 0 d] assms(2-5)
    by (auto simp: Run_def Let_def)
qed

lemma Run_success:
  assumes "Run P d expected ms = (n, None, d')"
  obtains cur where "readVersion P d = Inr cur" and "cur \<le> expected"
    and "registry_check (sort_key m_version ms) = None"
  using assms by (auto simp: Run_def Let_def split: option.splits sum.splits if_splits)

lemma readVersion_view:
  assumes "reliable P" and "view d schemaVersionKey = Some (be_bytes 8 (unat (v :: 64 word)))"
  shows "readVersion P d = Inr v"
proof -
  have "unat v < 256 ^ 8"
    using unsigned_less [of v] by simp
  then show ?thesis
    using assms by (simp add: readVersion_def reliable_get)
qed

lemma readVersion_cong:
  assumes "reliable P" and "view d schemaVersionKey = view d' schemaVersionKey"
  shows "readVersion P d = readVersion P d'"
  using assms by (simp add: readVersion_def reliable_get)

text \<open>After a run up to version \<open>k\<close> of the registry the store is at version \<open>k\<close>.\<close>

lemma Run_version:
  assumes "reliable P" and "\<forall>m \<in> set ms. implements view m (U m)"
    and "Run P d k ms = (n, None, d')" and "unat k \<le> length ms"
  shows "readVersion P d' = Inr k"
proof -
  let ?S = "sort_key m_version ms"
  obtain cur where cur: "readVersion P d = Inr cur" "cur \<le> k" "registry_check ?S = None"
    using Run_success [OF assms(3)] .
  have view': "view d' = fold (step_effect U) (drop (unat cur) (take (unat k) ?S)) (view d)"
    using Run_effect [OF assms(1,2) cur(3,1,2)] assms(3) by auto
  show ?thesis
  proof (cases "cur = k")
    case True
    then show ?thesis
      using cur(1) view' readVersion_cong [OF assms(1), of d' d] by simp
  next
    case False
    then have lt: "unat cur < unat k"
      using cur(2) by (simp add: word_le_nat_alt word_unat_eq_iff le_neq_implies_less)
    define j where "j = unat k - 1"
    have j: "unat k = Suc j" "j < length ?S" "unat cur \<le> j"
      using lt assms(4) by (auto simp: j_def)
    have "drop (unat cur) (take (unat k) ?S) = drop (unat cur) (take j ?S) @ [?S ! j]"
      using j by (simp add: take_Suc_conv_app_nth)
    then have "view d' schemaVersionKey = Some (be_bytes 8 (unat (m_version (?S ! j))))"
      by (simp add: view' step_effect_def)
    moreover have "m_version (?S ! j) = k"
      using registry_check_versions [OF cur(3)] j by (simp add: word_unat_eq_iff)
    ultimately show ?thesis
      using readVersion_view [OF assms(1)] by simp
  qed
qed

end


section \<open>The content-hash backfill\<close>

lemma apply_set_ops:
  assumes "distinct (map fst kvs)"
  shows "apply_batch (concat (map (\<lambda>(k, v). case f v of None \<Rightarrow> [] | Some v' \<Rightarrow> [KSet k v']) kvs)) m k =
    (case map_of kvs k of
       None \<Rightarrow> m k
     | Some v \<Rightarrow> (case f v of None \<Rightarrow> m k | Some v' \<Rightarrow> Some v'))"
  using assms
proof (induction kvs arbitrary: m)
  case (Cons kv kvs)
  obtain k1 v1 where kv: "kv = (k1, v1)"
    by (cases kv)
  have "map_of kvs k1 = None"
    using Cons.prems by (simp add: kv map_of_eq_None_iff)
  then show ?case
    using Cons by (cases "k = k1") (auto simp: kv split: option.split)
qed simp

definition v2_contents :: "(bytes \<Rightarrow> bytes) \<Rightarrow> chunk codec \<Rightarrow> contents \<Rightarrow> contents" where
  "v2_contents sha C m k =
     (case m k of
        None \<Rightarrow> None
      | Some v \<Rightarrow>
          if k \<noteq> [] \<and> hd k = PrefixChunk then (case rehash sha C v of None \<Rightarrow> Some v | Some v' \<Rightarrow> Some v')
          else Some v)"

lemma in_chunk_range: "in_range [PrefixChunk] [PrefixChunk + 1] k \<longleftrightarrow> k \<noteq> [] \<and> hd k = PrefixChunk"
proof (cases k)
  case (Cons b rest)
  have "b < 0x04 \<longleftrightarrow> b < 0x03 \<or> b = 0x03"
    by (auto simp: word_less_nat_alt word_unat_eq_iff)
  then show ?thesis
    using Cons by (auto simp: in_range_def prefix_defs)
qed (simp add: in_range_def)

context pebble
begin

lemma v2_effect:
  assumes "reliable P"
  shows "\<exists>d'. v2ContentHash P sha C d = (None, d') \<and> view d' = v2_contents sha C (view d)"
proof -
  obtain kvs where kvs: "pb_iter P d (Some [PrefixChunk]) (Some [PrefixChunk + 1]) = Inr (kvs, None)"
    and dist: "distinct (map fst kvs)"
    by (rule reliable_iterE [OF assms])
  obtain d' where d': "pb_commit P d (v2_ops sha C kvs) = Inr d'"
    "view d' = apply_batch (v2_ops sha C kvs) (view d)"
    by (rule reliable_commitE [OF assms])
  have "view d' k = v2_contents sha C (view d) k" for k
    unfolding d'(2) v2_ops_def apply_set_ops [OF dist] iter_map_of [OF kvs]
    by (auto simp: v2_contents_def in_chunk_range split: option.splits)
  then show ?thesis
    using kvs d'(1) by (auto simp: v2ContentHash_def)
qed

end

section \<open>Properties of the runner\<close>

text \<open>C9: migrations survive a crash between a step and its version record. Let the store have been
  migrated up to version \<open>k\<close> and let the step \<open>k + 1\<close> have run when the process died, before the
  version key was advanced. The next open succeeds, whatever the order of registration, and ends
  with the contents of a run that was never interrupted, provided the steps are idempotent and
  leave the version key alone.\<close>

theorem migration_crash_replay:
  assumes "pebble P view" and "reliable P"
    and "\<forall>m \<in> set ms. implements view m (U m)"
    and "\<forall>m \<in> set ms. \<forall>c. U m (U m c) = U m c \<and> U m c schemaVersionKey = c schemaVersionKey"
    and "Run P d k ms = (n, None, before)"
    and "m \<in> set ms" and "m_version m = k + 1" and "k + 1 \<le> expected"
    and "m_up m before = (None, crashed)"
  shows "\<exists>n1 n2 replayed straight.
    Run P crashed expected ms = (n1, None, replayed) \<and>
    Run P d expected ms = (n2, None, straight) \<and> view replayed = view straight"
proof -
  let ?S = "sort_key m_version ms"
  obtain cur where cur: "readVersion P d = Inr cur" "cur \<le> k" and reg: "registry_check ?S = None"
    using pebble.Run_success [OF assms(1,5)] .
  obtain i where i: "i < length ms" "?S ! i = m"
    using assms(6) by (metis in_set_conv_nth length_sort set_sort)
  have "unat (k + 1) = Suc i"
    using registry_check_versions [OF reg i(1)] i(2) assms(7) by simp
  then have "1 + k \<noteq> 0" and k1: "unat (1 + k) = Suc i"
    by (auto simp: add.commute)
  then have k: "unat k = i" "unat (k + 1) = Suc i"
    using unatSuc [of k] by (auto simp: add.commute)
  have le: "k \<le> expected"
    using assms(8) k by (simp add: word_le_nat_alt)
  have vb: "view before = fold (step_effect U) (drop (unat cur) (take i ?S)) (view d)"
    using pebble.Run_effect [OF assms(1-3) reg cur] assms(5) k by auto
  have vc: "view crashed = U m (view before)"
    using assms(3,6,9) unfolding implements_def by (metis prod.inject)
  have "readVersion P before = Inr k"
    using pebble.Run_version [OF assms(1-3,5)] k i by simp
  then have "readVersion P crashed = Inr k"
    using pebble.readVersion_cong [OF assms(1,2), of crashed before] assms(4,6) by (simp add: vc)
  then obtain n1 replayed where r: "Run P crashed expected ms = (n1, None, replayed)"
    "view replayed = fold (step_effect U) (drop i (take (unat expected) ?S)) (view crashed)"
    using pebble.Run_effect [OF assms(1-3) reg \<open>readVersion P crashed = Inr k\<close> le] k by auto
  obtain n2 straight where s: "Run P d expected ms = (n2, None, straight)"
    "view straight = fold (step_effect U) (drop (unat cur) (take (unat expected) ?S)) (view d)"
    using pebble.Run_effect [OF assms(1-3) reg cur(1) order_trans [OF cur(2) le]] by auto
  have ci: "unat cur \<le> i" and ie: "Suc i \<le> unat expected"
    using cur(2) assms(8) k by (simp_all add: word_le_nat_alt)
  have "take (unat expected) ?S = take i ?S @ drop i (take (unat expected) ?S)"
    using ie by (metis append_take_drop_id min.absorb1 Suc_leD take_take)
  then have "drop (unat cur) (take (unat expected) ?S) =
      drop (unat cur) (take i ?S) @ drop i (take (unat expected) ?S)"
    using ci i(1) by (metis (no_types, lifting) diff_is_0_eq drop_0 drop_append length_sort length_take
        less_imp_le_nat min.absorb2)
  then have vs: "view straight = fold (step_effect U) (drop i (take (unat expected) ?S)) (view before)"
    by (simp add: s(2) vb)
  have "drop i (take (unat expected) ?S) = m # drop (Suc i) (take (unat expected) ?S)"
    using i ie by (metis Cons_nth_drop_Suc length_sort length_take min_less_iff_conj nth_take Suc_le_eq)
  then have "view replayed = view straight"
    using assms(4,6) unfolding vs r(2) vc by (simp add: step_effect_def)
  then show ?thesis
    using r(1) s(1) by blast
qed


text \<open>A codec that keeps the content hash only, and the steps of the repository over it.\<close>

definition hash_codec :: "chunk codec" where
  "hash_codec =
     \<lparr>cd_marshal = (\<lambda>c. Some (str_bytes (c_ContentHash c))),
      cd_unmarshal = (\<lambda>v. Some (blank_chunk\<lparr>c_ContentHash := bytes_str v\<rparr>))\<rparr>"

definition demo_sha :: "bytes \<Rightarrow> bytes" where
  "demo_sha _ = [7]"

lemma rehash_hash_codec: "rehash demo_sha hash_codec v = Some (str_bytes ''07'')"
proof -
  have "char_of (48 :: nat) = CHR ''0''" "char_of (55 :: nat) = CHR ''7''"
    by code_simp+
  then show ?thesis
    by (simp add: rehash_def hash_codec_def ContentHash_def demo_sha_def hex_of_bytes_def hex_digit_def)
qed

definition demo_steps :: "(bytes \<times> bytes) list migration list" where
  "demo_steps =
     [\<lparr>m_version = 2, m_description = ''hash'', m_up = v2ContentHash mem_pebble demo_sha hash_codec\<rparr>,
      \<lparr>m_version = 1, m_description = ''boot'', m_up = v1Bootstrap\<rparr>]"

definition demo_effect :: "(bytes \<times> bytes) list migration \<Rightarrow> contents \<Rightarrow> contents" where
  "demo_effect m c = (if m_version m = 2 then v2_contents demo_sha hash_codec c else c)"

lemma demo_steps_implement: "\<forall>m \<in> set demo_steps. implements map_of m (demo_effect m)"
  using mem.v2_effect [OF reliable_mem]
  by (auto simp: demo_steps_def demo_effect_def implements_def v1Bootstrap_def)

lemma demo_effect_idem: "demo_effect m (demo_effect m c) = demo_effect m c"
  "demo_effect m c schemaVersionKey = c schemaVersionKey"
  by (auto simp: demo_effect_def v2_contents_def rehash_hash_codec schemaVersionKey_def prefix_defs
      fun_eq_iff split: option.split)

theorem migration_crash_replay_witness:
  "\<exists>n1 n2 replayed straight crashed.
     v2ContentHash mem_pebble demo_sha hash_codec [(schemaVersionKey, be_bytes 8 1), ([3, 9], [])] =
       (None, crashed) \<and>
     Run mem_pebble crashed 2 demo_steps = (n1, None, replayed) \<and>
     Run mem_pebble [([3, 9], [])] 2 demo_steps = (n2, None, straight) \<and>
     map_of replayed = map_of straight"
proof -
  have run1: "Run mem_pebble [([3, 9], [])] 1 demo_steps =
      (1, None, [(schemaVersionKey, be_bytes 8 1), ([3, 9], [])])"
    by (simp add: Run_def demo_steps_def registry_check_def readVersion_def mem_pebble_def
        v1Bootstrap_def writeVersion_def schemaVersionKey_def str_bytes_def sort_key_def word_le_nat_alt)
  obtain crashed where up: "v2ContentHash mem_pebble demo_sha hash_codec
      [(schemaVersionKey, be_bytes 8 1), ([3, 9], [])] = (None, crashed)"
    using mem.v2_effect [OF reliable_mem] by blast
  show ?thesis
    using migration_crash_replay [OF mem.pebble_axioms reliable_mem demo_steps_implement _ run1,
        of "demo_steps ! 0" 2 crashed] demo_effect_idem up
    by (auto simp: demo_steps_def)
qed

text \<open>The backfill of content hashes (\<open>v2\<close>). The step succeeds; afterwards every chunk record
  that could be read is the old record with its content hash filled in, no other key has
  changed, and a second run changes nothing.\<close>

theorem v2_backfills_hashes:
  assumes "pebble P view" and "reliable P" and "codec_on X C"
    and "\<forall>k v c. view d k = Some v \<and> cd_unmarshal C v = Some c \<longrightarrow>
      c\<lparr>c_ContentHash := ContentHash sha (str_bytes (c_Content c))\<rparr> \<in> X"
    and "\<forall>x \<in> X. cd_marshal C x \<noteq> None"
  shows "\<exists>d'. v2ContentHash P sha C d = (None, d') \<and>
    (\<forall>k v c. hd k = PrefixChunk \<and> k \<noteq> [] \<and> view d k = Some v \<and> cd_unmarshal C v = Some c \<longrightarrow>
       (\<exists>v'. view d' k = Some v' \<and>
          cd_unmarshal C v' = Some (c\<lparr>c_ContentHash := ContentHash sha (str_bytes (c_Content c))\<rparr>))) \<and>
    (\<forall>k. k = [] \<or> hd k \<noteq> PrefixChunk \<longrightarrow> view d' k = view d k) \<and>
    (\<forall>d'' e. v2ContentHash P sha C d' = (e, d'') \<longrightarrow> e = None \<and> view d'' = view d')"
proof -
  obtain d' where d': "v2ContentHash P sha C d = (None, d')" "view d' = v2_contents sha C (view d)"
    using pebble.v2_effect [OF assms(1,2)] by blast
  have hashed: "\<exists>v'. rehash sha C v = Some v' \<and>
      cd_unmarshal C v' = Some (c\<lparr>c_ContentHash := ContentHash sha (str_bytes (c_Content c))\<rparr>)"
    if stored: "view d k = Some v" "cd_unmarshal C v = Some c" for k v c
  proof -
    let ?c = "c\<lparr>c_ContentHash := ContentHash sha (str_bytes (c_Content c))\<rparr>"
    have X: "?c \<in> X"
      using assms(4) stored by blast
    then obtain v' where "cd_marshal C ?c = Some v'"
      using assms(5) by blast
    then show ?thesis
      using codec_onD [OF assms(3) X] stored(2) by (auto simp: rehash_def)
  qed
  have again: "rehash sha C v' = Some v'" if stored: "view d k = Some v" "rehash sha C v = Some v'" for k v v'
  proof -
    obtain c where "cd_unmarshal C v = Some c"
      using stored(2) by (auto simp: rehash_def split: option.splits)
    then show ?thesis
      using hashed [OF stored(1)] stored(2) by (fastforce simp: rehash_def)
  qed
  have "v2_contents sha C (view d') k = view d' k" for k
    unfolding d'(2) using again by (auto simp: v2_contents_def split: option.splits)
  then have "v2_contents sha C (view d') = view d'"
    by (rule ext)
  then have idem: "e = None \<and> view d'' = view d'" if "v2ContentHash P sha C d' = (e, d'')" for e d''
    using pebble.v2_effect [OF assms(1,2), of sha C d'] that by simp
  have recs: "\<exists>v'. view d' k = Some v' \<and>
      cd_unmarshal C v' = Some (c\<lparr>c_ContentHash := ContentHash sha (str_bytes (c_Content c))\<rparr>)"
    if "hd k = PrefixChunk \<and> k \<noteq> [] \<and> view d k = Some v \<and> cd_unmarshal C v = Some c" for k v c
    using hashed [of k v c] that by (auto simp: d'(2) v2_contents_def)
  have others: "view d' k = view d k" if "k = [] \<or> hd k \<noteq> PrefixChunk" for k
    using that by (auto simp: d'(2) v2_contents_def split: option.split)
  show ?thesis
    by (intro exI [of _ d'] conjI allI impI d'(1) others idem [THEN conjunct1] idem [THEN conjunct2])
      (erule recs)+
qed


theorem v2_backfills_hashes_witness:
  "\<exists>d'. v2ContentHash mem_pebble demo_sha hash_codec [([3, 9], []), ([4], [1])] = (None, d') \<and>
     (\<exists>v. map_of d' [3, 9] = Some v \<and>
        cd_unmarshal hash_codec v = Some (blank_chunk\<lparr>c_ContentHash := ''07''\<rparr>)) \<and>
     map_of d' [4] = Some [1]"
proof -
  have ok: "codec_on {c. \<exists>h. c = blank_chunk\<lparr>c_ContentHash := h\<rparr>} hash_codec"
    by (auto simp: codec_on_def hash_codec_def blank_chunk_def)
  have sha: "ContentHash demo_sha bs = ''07''" for bs
    using rehash_hash_codec [of "[]"] by (simp add: rehash_def hash_codec_def ContentHash_def demo_sha_def)
  obtain d' where d': "v2ContentHash mem_pebble demo_sha hash_codec [([3, 9], []), ([4], [1])] = (None, d')"
    and recs: "\<forall>k v c. hd k = PrefixChunk \<and> k \<noteq> [] \<and> map_of [([3, 9], []), ([4], [1])] k = Some v \<and>
      cd_unmarshal hash_codec v = Some c \<longrightarrow> (\<exists>v'. map_of d' k = Some v' \<and> cd_unmarshal hash_codec v' =
        Some (c\<lparr>c_ContentHash := ContentHash demo_sha (str_bytes (c_Content c))\<rparr>))"
    and rest: "\<forall>k. k = [] \<or> hd k \<noteq> PrefixChunk \<longrightarrow> map_of d' k = map_of [([3, 9], []), ([4], [1])] k"
    using v2_backfills_hashes [OF mem.pebble_axioms reliable_mem ok, of "[([3, 9], []), ([4], [1])]" demo_sha]
    by (auto simp: hash_codec_def blank_chunk_def)
  have "\<exists>v. map_of d' [3, 9] = Some v \<and>
      cd_unmarshal hash_codec v = Some (blank_chunk\<lparr>c_ContentHash := ''07''\<rparr>)"
    using recs [rule_format, of "[3, 9]" "[]" blank_chunk]
    by (simp add: hash_codec_def prefix_defs blank_chunk_def sha bytes_str_def)
  moreover have "map_of d' [4] = Some [1]"
    using rest [rule_format, of "[4]"] by (simp add: prefix_defs)
  ultimately show ?thesis
    using d' by blast
qed

section \<open>The merge of a legacy store\<close>

definition widen_ops :: "ws \<Rightarrow> (bytes \<times> bytes) list \<Rightarrow> kv_op list" where
  "widen_ops ws kvs =
     map (\<lambda>(k, v). KSet (widen ws k) v)
       (filter (\<lambda>(k, v). 1 \<le> length k \<and> hd k \<in> set VaultScopedKinds) kvs)"

lemma widen_ops_simps [simp]:
  "widen_ops ws [] = []"
  "widen_ops ws ((k, v) # kvs) =
     (if 1 \<le> length k \<and> hd k \<in> set VaultScopedKinds then KSet (widen ws k) v # widen_ops ws kvs
      else widen_ops ws kvs)"
  by (simp_all add: widen_ops_def)

context pebble
begin

lemma copy_loop_effect:
  assumes "reliable P"
  shows "\<exists>batch' stats' d'. copy_loop P ws kvs batch pending stats d = (Inr (batch', stats'), d') \<and>
    apply_batch (rev batch') (view d') = apply_batch (rev batch @ widen_ops ws kvs) (view d) \<and>
    vs_Widened stats' = vs_Widened stats + length (widen_ops ws kvs) \<and> vs_Vault stats' = vs_Vault stats"
proof (induction kvs arbitrary: batch pending stats d)
  case (Cons kv kvs)
  obtain k v where kv: "kv = (k, v)"
    by (cases kv)
  show ?case
  proof (cases "1 \<le> length k \<and> hd k \<in> set VaultScopedKinds")
    case False
    then show ?thesis
      using Cons.IH [of batch pending stats d]
        Cons.IH [of batch pending "stats\<lparr>vs_SkippedGlobal := vs_SkippedGlobal stats + 1\<rparr>" d]
      by (cases "length k < 1") (auto simp: kv)
  next
    case True
    then have k: "k \<noteq> []" "hd k \<in> set VaultScopedKinds"
      by auto
    let ?batch = "KSet (widen ws k) v # batch"
    let ?stats = "stats\<lparr>vs_Widened := vs_Widened stats + 1\<rparr>"
    obtain d1 where d1: "pb_commit P d (rev ?batch) = Inr d1" "view d1 = apply_batch (rev ?batch) (view d)"
      by (rule reliable_commitE [OF assms])
    show ?thesis
    proof (cases "migrateBatchSize \<le> pending + 1")
      case flush: True
      obtain batch' stats' d' where "copy_loop P ws kvs [] 0 ?stats d1 = (Inr (batch', stats'), d')"
        "apply_batch (rev batch') (view d') = apply_batch (rev [] @ widen_ops ws kvs) (view d1)"
        "vs_Widened stats' = vs_Widened ?stats + length (widen_ops ws kvs)" "vs_Vault stats' = vs_Vault ?stats"
        using Cons.IH [of "[]" 0 ?stats d1] by blast
      then show ?thesis
        using k flush d1 by (simp add: kv Let_def Suc_le_eq)
    next
      case False
      obtain batch' stats' d' where
        "copy_loop P ws kvs ?batch (pending + 1) ?stats d = (Inr (batch', stats'), d')"
        "apply_batch (rev batch') (view d') = apply_batch (rev ?batch @ widen_ops ws kvs) (view d)"
        "vs_Widened stats' = vs_Widened ?stats + length (widen_ops ws kvs)" "vs_Vault stats' = vs_Vault ?stats"
        using Cons.IH [of ?batch "pending + 1" ?stats d] by blast
      then show ?thesis
        using k False by (simp add: kv Let_def Suc_le_eq)
    qed
  qed
qed simp

lemma Rewrite_effect:
  assumes "reliable P" and "ws = VaultPrefix sip name" and "view d (VaultMetaKey ws) = None"
  shows "\<exists>kvs stats d'. pb_iter P legacy None None = Inr (kvs, None) \<and>
    RewriteLegacyVault P sip d legacy name = (Inr stats, d') \<and>
    vs_Vault stats = name \<and> vs_Widened stats = length (widen_ops ws kvs) \<and>
    view d' = apply_batch (widen_ops ws kvs)
      ((view d)(VaultMetaKey ws \<mapsto> str_bytes name, VaultNameIndexKey sip name \<mapsto> ws))"
proof -
  obtain kvs where kvs: "pb_iter P legacy None None = Inr (kvs, None)"
    by (rule reliable_iterE [OF assms(1)])
  let ?stats = "\<lparr>vs_Vault = name, vs_Widened = 0, vs_SkippedGlobal = 0\<rparr>"
  obtain d1 where d1: "pb_commit P d [KSet (VaultMetaKey ws) (str_bytes name), KSet (VaultNameIndexKey sip name) ws] = Inr d1"
    "view d1 = (view d)(VaultMetaKey ws \<mapsto> str_bytes name, VaultNameIndexKey sip name \<mapsto> ws)"
    by (rule reliable_commitE [OF assms(1), of d "[KSet (VaultMetaKey ws) (str_bytes name), KSet (VaultNameIndexKey sip name) ws]"]) simp
  obtain batch stats d2 where c: "copy_loop P ws kvs [] 0 ?stats d1 = (Inr (batch, stats), d2)"
    "apply_batch (rev batch) (view d2) = apply_batch (widen_ops ws kvs) (view d1)"
    "vs_Widened stats = length (widen_ops ws kvs)" "vs_Vault stats = name"
    using copy_loop_effect [OF assms(1), of ws kvs "[]" 0 ?stats d1] by auto
  obtain d3 where d3: "pb_commit P d2 (rev batch) = Inr d3" "view d3 = apply_batch (rev batch) (view d2)"
    by (rule reliable_commitE [OF assms(1)])
  show ?thesis
  proof (cases "batch = []")
    case True
    then show ?thesis
      using kvs c d1 reliable_get [OF assms(1), of d] assms(2,3)
      by (auto simp: RewriteLegacyVault_def Let_def)
  next
    case False
    then show ?thesis
      using kvs c d1 d3 reliable_get [OF assms(1), of d] assms(2,3)
      by (auto simp: RewriteLegacyVault_def Let_def)
  qed
qed

end

lemma widen_eq: "k \<noteq> [] \<Longrightarrow> widen ws k = vaultScoped (hd k) ws (tl k)"
  by (simp add: widen_def vaultScoped_def)

lemma widen_ops_apply:
  assumes "distinct (map fst kvs)" and "is_ws ws"
  shows "apply_batch (widen_ops ws kvs) m key =
    (case key of
       [] \<Rightarrow> m key
     | kind # rest \<Rightarrow>
         if kind \<in> set VaultScopedKinds \<and> 8 \<le> length rest \<and> take 8 rest = ws
         then (case map_of kvs (kind # drop 8 rest) of Some v \<Rightarrow> Some v | None \<Rightarrow> m key)
         else m key)"
  using assms(1)
proof (induction kvs arbitrary: m)
  case Nil
  show ?case by (simp split: list.split)
next
  case (Cons kv kvs)
  obtain k v where kv: "kv = (k, v)"
    by (cases kv)
  have none: "map_of kvs k = None" and IH: "distinct (map fst kvs)"
    using Cons.prems by (auto simp: kv map_of_eq_None_iff)
  have key: "key = widen ws k \<longleftrightarrow>
      (\<exists>rest. key = hd k # rest \<and> 8 \<le> length rest \<and> take 8 rest = ws \<and> drop 8 rest = tl k)" if "k \<noteq> []"
  proof -
    have "rest = ws @ tl k \<longleftrightarrow> 8 \<le> length rest \<and> take 8 rest = ws \<and> drop 8 rest = tl k" for rest
      using assms(2) by (metis append_eq_conv_conj append_take_drop_id is_ws_def length_append le_add1)
    then show ?thesis
      by (auto simp: widen_def)
  qed
  show ?case
  proof (cases "k \<noteq> [] \<and> hd k \<in> set VaultScopedKinds")
    case False
    have "map_of ((k, v) # kvs) (kind # r) = map_of kvs (kind # r)" if "kind \<in> set VaultScopedKinds" for kind r
      using False that by auto
    then show ?thesis
      using False Cons.IH [OF IH, of m] by (auto simp: kv Suc_le_eq split: list.splits)
  next
    case True
    then obtain kind tail where k: "k = kind # tail"
      by (cases k) auto
    define m' where "m' = m(widen ws k \<mapsto> v)"
    have "apply_batch (widen_ops ws (kv # kvs)) m key = apply_batch (widen_ops ws kvs) m' key"
      using True by (simp add: kv k m'_def)
    moreover have "m' key = (if key = widen ws k then Some v else m key)"
      by (simp add: m'_def)
    ultimately show ?thesis
      unfolding Cons.IH [OF IH, of m'] using True key none
      by (auto simp: kv k split: list.split option.split)
  qed
qed


section \<open>Properties of the merge\<close>

text \<open>The widening of a legacy store is exact. For a vault that is not yet in the unified store,
  \<open>RewriteLegacyVault\<close> succeeds and registers it; a scoped key of the vault's prefix then holds the
  value of the flat legacy key, every other key of the unified store, of any other vault or kind,
  is as before, and the report counts the copied keys.\<close>

theorem legacy_rewrite_exact:
  assumes "pebble P view" and "reliable P" and "ws = VaultPrefix sip name"
    and "view d (VaultMetaKey ws) = None"
  shows "\<exists>stats d'. RewriteLegacyVault P sip d legacy name = (Inr stats, d') \<and>
    (\<forall>kind payload. kind \<in> set VaultScopedKinds \<longrightarrow>
       view d' (vaultScoped kind ws payload) =
         (case view legacy (kind # payload) of
            Some v \<Rightarrow> Some v | None \<Rightarrow> view d (vaultScoped kind ws payload))) \<and>
    view d' (VaultMetaKey ws) = Some (str_bytes name) \<and>
    view d' (VaultNameIndexKey sip name) = Some ws \<and>
    (\<forall>key. (\<forall>kind payload. kind \<in> set VaultScopedKinds \<longrightarrow> key \<noteq> vaultScoped kind ws payload) \<and>
       key \<noteq> VaultMetaKey ws \<and> key \<noteq> VaultNameIndexKey sip name \<longrightarrow> view d' key = view d key) \<and>
    vs_Widened stats = card {k. k \<noteq> [] \<and> hd k \<in> set VaultScopedKinds \<and> view legacy k \<noteq> None}"
proof -
  have ws: "is_ws ws"
    by (simp add: assms(3))
  obtain kvs stats d' where kvs: "pb_iter P legacy None None = Inr (kvs, None)"
    and run: "RewriteLegacyVault P sip d legacy name = (Inr stats, d')"
    and cnt: "vs_Widened stats = length (widen_ops ws kvs)"
    and view': "view d' = apply_batch (widen_ops ws kvs)
      ((view d)(VaultMetaKey ws \<mapsto> str_bytes name, VaultNameIndexKey sip name \<mapsto> ws))"
    using pebble.Rewrite_effect [OF assms(1-4), of legacy] by blast
  have leg: "map_of kvs k = view legacy k" for k
    using pebble.iter_map_of [OF assms(1) kvs, of k] by (simp add: in_bounds_def)
  have dist: "distinct (map fst kvs)"
    using pebble.iter_view [OF assms(1) kvs] by (auto simp: strict_sorted_iff)
  note at = widen_ops_apply [OF dist ws, of "(view d)(VaultMetaKey ws \<mapsto> str_bytes name, VaultNameIndexKey sip name \<mapsto> ws)",
      folded view', unfolded leg]
  have not_scoped: "0x1A \<notin> set VaultScopedKinds" "0x1B \<notin> set VaultScopedKinds"
    by (simp_all add: VaultScopedKinds_def)
  have scoped: "view d' (vaultScoped kind ws payload) =
      (case view legacy (kind # payload) of Some v \<Rightarrow> Some v | None \<Rightarrow> view d (vaultScoped kind ws payload))"
    if "kind \<in> set VaultScopedKinds" for kind payload
    using that ws not_scoped
    by (auto simp: at vaultScoped_def is_ws_def VaultMetaKey_def VaultNameIndexKey_def split: option.split)
  have meta: "view d' (VaultMetaKey ws) = Some (str_bytes name)"
    "view d' (VaultNameIndexKey sip name) = Some ws"
    using not_scoped by (simp_all add: at VaultMetaKey_def VaultNameIndexKey_def)
  have other: "view d' key = view d key"
    if key: "(\<forall>kind payload. kind \<in> set VaultScopedKinds \<longrightarrow> key \<noteq> vaultScoped kind ws payload) \<and>
      key \<noteq> VaultMetaKey ws \<and> key \<noteq> VaultNameIndexKey sip name" for key
  proof (cases key)
    case (Cons kind rest)
    then have "\<not> (kind \<in> set VaultScopedKinds \<and> 8 \<le> length rest \<and> take 8 rest = ws)"
      using key unfolding vaultScoped_def by (metis append_take_drop_id)
    then show ?thesis
      using key by (auto simp: at Cons)
  qed (use key in \<open>simp add: at\<close>)
  have "length (widen_ops ws kvs) =
      card (fst ` set (filter (\<lambda>(k, v). 1 \<le> length k \<and> hd k \<in> set VaultScopedKinds) kvs))"
    using distinct_card [OF distinct_map_filter [OF dist, of "\<lambda>(k, v). 1 \<le> length k \<and> hd k \<in> set VaultScopedKinds"]]
    by (simp add: widen_ops_def)
  moreover have "fst ` set (filter (\<lambda>(k, v). 1 \<le> length k \<and> hd k \<in> set VaultScopedKinds) kvs) =
      {k. k \<noteq> [] \<and> hd k \<in> set VaultScopedKinds \<and> view legacy k \<noteq> None}"
    using pebble.iter_view [OF assms(1) kvs] by (force simp: in_bounds_def Suc_le_eq)
  ultimately show ?thesis
    using run scoped meta other cnt by (intro exI [of _ stats] exI [of _ d'] conjI allI impI) auto
qed

theorem legacy_rewrite_exact_witness:
  "\<exists>stats d'. RewriteLegacyVault mem_pebble demo_sip [] [([2, 9], [1]), ([9, 9], [2])] ''a'' = (Inr stats, d') \<and>
     map_of d' (vaultScoped 2 (VaultPrefix demo_sip ''a'') [9]) = Some [1]"
  using legacy_rewrite_exact [OF mem.pebble_axioms reliable_mem refl, of "[]" demo_sip "''a''" "[([2, 9], [1]), ([9, 9], [2])]"]
  by (force simp: VaultScopedKinds_def)

text \<open>C10: an interrupted merge is not resumed but lost. \<open>RewriteLegacyVault\<close> registers the vault before
  it copies the keys, and a registered vault counts as already migrated. Whenever a merge fails
  (or the process dies) after the registration, the replay that the comment promises does nothing:
  it succeeds, copies no key, and the caller goes on to archive the legacy store.\<close>

theorem interrupted_merge_is_lost:
  assumes "pebble P view" and "reliable P" and "view d (VaultMetaKey (VaultPrefix sip name)) \<noteq> None"
    and "io_open io name = None" and "io_close io name = None" and "io_rename io name = None"
  shows "mergeLegacyCandidates P sip io [(name, legacy)] report (d, es) =
    (Inr \<lparr>mr_Vaults = mr_Vaults report @ [\<lparr>vs_Vault = name @ '' (already migrated)'', vs_Widened = 0,
                                            vs_SkippedGlobal = 0\<rparr>],
          mr_Archived = mr_Archived report @ [name @ ''.prev'']\<rparr>, d, archive_dir name es)"
  using assms pebble.reliable_get [OF assms(1,2), of d "VaultMetaKey (VaultPrefix sip name)"]
  by (auto simp: RewriteLegacyVault_def Let_def)

text \<open>The witness: a store whose second commit fails. The vault ends up registered without its document,
  the merge is retried on a healthy disk and reports success.\<close>

definition full_disk :: "(bytes \<times> bytes) list pebble_ops" where
  "full_disk = mem_pebble\<lparr>pb_commit := (\<lambda>d ops.
     if d = [] then pb_commit mem_pebble d ops else Inl (PebbleError ''no space''))\<rparr>"

definition fine_io :: legacy_io where
  "fine_io = \<lparr>io_open = (\<lambda>_. None), io_close = (\<lambda>_. None), io_rename = (\<lambda>_. None)\<rparr>"

theorem interrupted_merge_is_lost_witness:
  "\<exists>e d. mergeLegacyCandidates full_disk demo_sip fine_io [(''a'', [([2, 9], [1])])]
       \<lparr>mr_Vaults = [], mr_Archived = []\<rparr> ([], [(''a'', FDir (Some [([2, 9], [1])]))]) =
       (Inl e, d, [(''a'', FDir (Some [([2, 9], [1])]))]) \<and>
     map_of d (DocumentKey (VaultPrefix demo_sip ''a'') [char_of_byte 9]) = None \<and>
     mergeLegacyCandidates mem_pebble demo_sip fine_io [(''a'', [([2, 9], [1])])]
       \<lparr>mr_Vaults = [], mr_Archived = []\<rparr> (d, [(''a'', FDir (Some [([2, 9], [1])]))]) =
       (Inr \<lparr>mr_Vaults = [\<lparr>vs_Vault = ''a (already migrated)'', vs_Widened = 0, vs_SkippedGlobal = 0\<rparr>],
             mr_Archived = [''a.prev'']\<rparr>, d, [(''a.prev'', FDir (Some [([2, 9], [1])]))])"
proof -
  let ?ws = "VaultPrefix demo_sip ''a''"
  let ?d = "[(VaultNameIndexKey demo_sip ''a'', ?ws), (VaultMetaKey ?ws, str_bytes ''a'')]"
  have fail: "mergeLegacyCandidates full_disk demo_sip fine_io [(''a'', [([2, 9], [1])])]
       \<lparr>mr_Vaults = [], mr_Archived = []\<rparr> ([], [(''a'', FDir (Some [([2, 9], [1])]))]) =
       (Inl (PebbleError ''no space''), ?d, [(''a'', FDir (Some [([2, 9], [1])]))])"
    by (simp add: fine_io_def full_disk_def RewriteLegacyVault_def mem_pebble_def Let_def
        mem_entries_def in_bounds_def VaultScopedKinds_def migrateBatchSize_def)
  have "map_of ?d (DocumentKey ?ws [char_of_byte 9]) = None"
    by (simp add: DocumentKey_def vaultScopedString_def vaultScoped_def VaultMetaKey_def VaultNameIndexKey_def)
  moreover have "mergeLegacyCandidates mem_pebble demo_sip fine_io [(''a'', [([2, 9], [1])])]
       \<lparr>mr_Vaults = [], mr_Archived = []\<rparr> (?d, [(''a'', FDir (Some [([2, 9], [1])]))]) =
       (Inr \<lparr>mr_Vaults = [\<lparr>vs_Vault = ''a (already migrated)'', vs_Widened = 0, vs_SkippedGlobal = 0\<rparr>],
             mr_Archived = [''a.prev'']\<rparr>, ?d, [(''a.prev'', FDir (Some [([2, 9], [1])]))])"
    using interrupted_merge_is_lost [OF mem.pebble_axioms reliable_mem, of ?d demo_sip "''a''" fine_io]
    by (simp add: fine_io_def archive_dir_def)
  ultimately show ?thesis
    using fail by blast
qed

end
