(* ===== verification/Breaker.thy ===== *)
theory Breaker
  imports Prelude
begin

text \<open>
  The circuit breaker, \<open>internal/embedproc/circuit.go\<close>; \<open>internal/caption/circuit.go\<close>,
  \<open>internal/enrich/circuit.go\<close> and \<open>internal/bridge/muninn/circuit.go\<close> are the same code with
  another error text. Times are nanoseconds. \<open>time.Since\<close> reads a monotonic clock.
\<close>

section \<open>Operations\<close>

datatype br_state = StClosed | StOpen | StHalfOpen

record breaker =
  br_st :: br_state
  br_fails :: nat
  br_lastFail :: int
  br_maxFails :: nat
  br_resetAfter :: int
  br_halfOpenUsed :: bool

definition ErrCircuitOpen :: go_error where
  "ErrCircuitOpen = Failed ''circuit breaker open''"

definition newBreaker :: breaker where
  "newBreaker =
     \<lparr>br_st = StClosed, br_fails = 0, br_lastFail = 0, br_maxFails = 5,
      br_resetAfter = 30000000000, br_halfOpenUsed = False\<rparr>"

definition br_allow :: "int \<Rightarrow> breaker \<Rightarrow> go_error option \<times> breaker" where
  "br_allow now b =
     (case br_st b of
        StClosed \<Rightarrow> (None, b)
      | StOpen \<Rightarrow>
          if now - br_lastFail b \<ge> br_resetAfter b
          then (None, b\<lparr>br_st := StHalfOpen, br_halfOpenUsed := True\<rparr>)
          else (Some ErrCircuitOpen, b)
      | StHalfOpen \<Rightarrow>
          if br_halfOpenUsed b then (Some ErrCircuitOpen, b)
          else (None, b\<lparr>br_halfOpenUsed := True\<rparr>))"

definition br_ok :: "breaker \<Rightarrow> breaker" where
  "br_ok b = b\<lparr>br_fails := 0, br_st := StClosed, br_halfOpenUsed := False\<rparr>"

definition br_fail :: "int \<Rightarrow> breaker \<Rightarrow> breaker" where
  "br_fail now b =
     (let b' = b\<lparr>br_fails := br_fails b + 1, br_lastFail := now\<rparr>
      in if br_st b' = StHalfOpen \<or> br_maxFails b' \<le> br_fails b'
         then b'\<lparr>br_fails := 0, br_st := StOpen, br_halfOpenUsed := False\<rparr>
         else b')"

text \<open>
  A guarded call, the shape of \<open>Enrich\<close> and \<open>Caption\<close>: every error of the call counts as a failure
  of the backend, whatever it says.
\<close>

definition guarded :: "int \<Rightarrow> ('s \<Rightarrow> 'a gres \<times> 's) \<Rightarrow> breaker \<times> 's \<Rightarrow> 'a gres \<times> breaker \<times> 's" where
  "guarded now call bs =
     (let (b, s) = bs
      in case br_allow now b of
           (Some e, b') \<Rightarrow> (Inl e, b', s)
         | (None, b') \<Rightarrow>
             (let (res, s') = call s
              in (res, (case res of Inl e \<Rightarrow> br_fail now b' | Inr x \<Rightarrow> br_ok b'), s')))"

section \<open>Runs\<close>

text \<open>
  An event at a time: a caller asks, or reports the outcome of a call it was let through for.
  Callers run concurrently, so outcomes of earlier calls may arrive at any moment.
\<close>

datatype br_event = BAllow int | BOk | BFail int

fun br_apply :: "br_event \<Rightarrow> breaker \<Rightarrow> breaker" where
  "br_apply (BAllow t) b = snd (br_allow t b)"
| "br_apply BOk b = br_ok b"
| "br_apply (BFail t) b = br_fail t b"

inductive br_step :: "breaker \<Rightarrow> breaker \<Rightarrow> bool" where
  step: "br_step b (br_apply ev b)"

inductive_cases br_stepE: "br_step b b'"

text \<open>What holds in every reachable state.\<close>

definition br_inv :: "breaker \<Rightarrow> bool" where
  "br_inv b \<longleftrightarrow> br_maxFails b = 5 \<and> br_resetAfter b = 30000000000 \<and>
     (br_st b = StClosed \<longrightarrow> br_fails b < 5) \<and>
     (br_st b = StHalfOpen \<longleftrightarrow> br_halfOpenUsed b) \<and> br_fails b < 5"

lemmas breaker_defs = br_allow_def br_ok_def br_fail_def Let_def

lemma br_inv_new: "br_inv newBreaker"
  by (simp add: br_inv_def newBreaker_def)

lemma br_inv_apply: "br_inv b \<Longrightarrow> br_inv (br_apply ev b)"
  by (cases ev; cases "br_st b") (auto simp: breaker_defs br_inv_def)

lemma br_reachable_inv:
  assumes "br_step\<^sup>*\<^sup>* newBreaker b"
  shows "br_inv b"
  using assms
  by (induction rule: rtranclp_induct) (auto intro: br_inv_new br_inv_apply elim: br_stepE)

text \<open>How many callers a breaker lets through while no outcome is reported.\<close>

fun admitted :: "int list \<Rightarrow> breaker \<Rightarrow> nat" where
  "admitted [] b = 0"
| "admitted (t # ts) b = (case br_allow t b of (r, b') \<Rightarrow> (if r = None then 1 else 0) + admitted ts b')"

lemma admitted_half_open: "br_st b = StHalfOpen \<Longrightarrow> br_halfOpenUsed b \<Longrightarrow> admitted ts b = 0"
  by (induction ts) (auto simp: br_allow_def)

lemma admitted_open:
  assumes "br_st b = StOpen"
  shows "admitted ts b = (if \<exists>t \<in> set ts. br_resetAfter b \<le> t - br_lastFail b then 1 else 0)"
  using assms by (induction ts) (auto simp: br_allow_def admitted_half_open)

text \<open>Failures in a row.\<close>

fun fail_run :: "int list \<Rightarrow> breaker \<Rightarrow> breaker" where
  "fail_run [] b = b"
| "fail_run (t # ts) b = fail_run ts (br_fail t b)"

lemma fail_run_closed:
  assumes "br_st b = StClosed" and "br_fails b + length ts < br_maxFails b"
  shows "br_st (fail_run ts b) = StClosed \<and> br_fails (fail_run ts b) = br_fails b + length ts"
  using assms
proof (induction ts arbitrary: b)
  case (Cons t ts)
  then have "br_st (br_fail t b) = StClosed" "br_fails (br_fail t b) = br_fails b + 1"
    "br_maxFails (br_fail t b) = br_maxFails b"
    by (auto simp: breaker_defs)
  then show ?case
    using Cons.IH [of "br_fail t b"] Cons.prems by simp
qed simp

lemma fail_run_append: "fail_run (ts @ us) b = fail_run us (fail_run ts b)"
  by (induction ts arbitrary: b) auto

lemma fail_run_config [simp]:
  "br_maxFails (fail_run ts b) = br_maxFails b" "br_resetAfter (fail_run ts b) = br_resetAfter b"
  by (induction ts arbitrary: b) (auto simp: breaker_defs)

text \<open>Guarded calls one after the other.\<close>

fun guarded_run :: "(int \<times> ('s \<Rightarrow> 'a gres \<times> 's)) list \<Rightarrow> breaker \<times> 's \<Rightarrow> breaker \<times> 's" where
  "guarded_run [] bs = bs"
| "guarded_run ((t, call) # calls) bs = guarded_run calls (snd (guarded t call bs))"

lemma guarded_failing:
  assumes "br_st b = StClosed" and "fst (call s) = Inl e"
  shows "snd (guarded t call (b, s)) = (br_fail t b, snd (call s))"
  using assms by (auto simp: guarded_def br_allow_def split: prod.splits)

text \<open>As many failures as allowed, whatever the errors, open the breaker.\<close>

lemma failing_calls_open:
  assumes "br_st b = StClosed" and "br_fails b + length calls = br_maxFails b" and "calls \<noteq> []"
    and "\<forall>(t, call) \<in> set calls. \<forall>s. \<exists>e. fst (call s) = Inl e"
  shows "\<exists>b' s'. guarded_run calls (b, s) = (b', s') \<and> br_st b' = StOpen \<and>
    br_lastFail b' = fst (last calls) \<and> br_resetAfter b' = br_resetAfter b"
  using assms
proof (induction calls arbitrary: b s)
  case (Cons tc calls)
  obtain t call where tc: "tc = (t, call)"
    by (cases tc)
  have "\<forall>s. \<exists>e. fst (call s) = Inl e"
    using Cons.prems(4) by (simp add: tc)
  then obtain e where "fst (call s) = Inl e"
    by blast
  then have step: "snd (guarded t call (b, s)) = (br_fail t b, snd (call s))"
    by (rule guarded_failing [OF Cons.prems(1)])
  show ?case
  proof (cases "calls = []")
    case True
    then show ?thesis
      using Cons.prems step by (auto simp: tc breaker_defs)
  next
    case False
    then have "br_st (br_fail t b) = StClosed" "br_fails (br_fail t b) + length calls = br_maxFails (br_fail t b)"
      "br_resetAfter (br_fail t b) = br_resetAfter b"
      using Cons.prems(1,2) by (cases calls; auto simp: breaker_defs)+
    then show ?thesis
      using Cons.IH [of "br_fail t b" "snd (call s)"] Cons.prems(4) False step by (simp add: tc)
  qed
qed simp

section \<open>Properties\<close>

text \<open>C11: a down backend is left alone. In every reachable state: an open breaker lets at most one
  caller through, whatever the number of callers, until an outcome is reported, and none before
  the reset time; and a half-open breaker, whose probe is out, lets nobody through.\<close>

theorem breaker_single_probe:
  assumes "br_step\<^sup>*\<^sup>* newBreaker b" and "br_st b \<noteq> StClosed"
  shows "admitted ts b \<le> 1 \<and>
    (br_st b = StOpen \<and> (\<forall>t \<in> set ts. t < br_lastFail b + 30000000000) \<longrightarrow> admitted ts b = 0) \<and>
    (br_st b = StHalfOpen \<longrightarrow> admitted ts b = 0)"
proof -
  have inv: "br_inv b"
    using br_reachable_inv [OF assms(1)] .
  show ?thesis
  proof (cases "br_st b")
    case StClosed
    then show ?thesis using assms(2) by simp
  next
    case StOpen
    have "br_resetAfter b = 30000000000"
      using inv by (simp add: br_inv_def)
    then have reset: "br_resetAfter b \<le> t - br_lastFail b \<longleftrightarrow> \<not> t < br_lastFail b + 30000000000" for t
      by linarith
    show ?thesis
      unfolding admitted_open [OF StOpen] reset by (auto simp: StOpen)
  next
    case StHalfOpen
    then show ?thesis
      using inv by (simp add: admitted_half_open br_inv_def)
  qed
qed

theorem breaker_single_probe_witness:
  "admitted [5, 30000000100, 90000000000] (fail_run [1, 2, 3, 4, 5] newBreaker) \<le> 1"
proof -
  have "br_step\<^sup>*\<^sup>* b (fail_run ts b)" for ts b
  proof (induction ts arbitrary: b)
    case (Cons t ts)
    have "br_step b (br_fail t b)"
      using br_step.step [of b "BFail t"] by simp
    then show ?case
      using Cons by (auto intro: converse_rtranclp_into_rtranclp)
  qed simp
  moreover have "br_st (fail_run [1, 2, 3, 4, 5] newBreaker) \<noteq> StClosed"
    by (simp add: newBreaker_def breaker_defs)
  ultimately show ?thesis
    using breaker_single_probe by blast
qed

end
