(* ===== verification/Enrich.thy ===== *)
theory Enrich
  imports Breaker Go_Strings Utf8
begin

text \<open>
  Document enrichment, \<open>internal/enrich/ollama.go\<close> and \<open>enrich.go\<close>: the guarded call of the model
  and the clean-up of its answer. The HTTP exchange is the parameter \<open>post\<close> (model, prompt); the
  JSON decoders and the regular expression \<open>(?s)\{.*\}\<close> are parameters too.
\<close>

definition ErrNothingToEnrich :: go_error where
  "ErrNothingToEnrich = Failed ''enrich: nothing to enrich''"

definition WrapPermanent :: "go_error \<Rightarrow> go_error" where
  "WrapPermanent e = Permanent e"

fun IsPermanent :: "go_error \<Rightarrow> bool" where
  "IsPermanent (Permanent e) = True"
| "IsPermanent _ = False"

fun IsNothing :: "go_error \<Rightarrow> bool" where
  "IsNothing (Permanent e) = IsNothing e"
| "IsNothing e = (e = ErrNothingToEnrich)"

definition maxDocChars :: nat where
  "maxDocChars = 4000"

text \<open>The answer of the server: an error of the transport, or a status and a body.\<close>

datatype http_result = HttpErr go_error | HttpResp int string

record enrich_json =
  ej_response :: "string \<Rightarrow> string gres"
  ej_out :: "string \<Rightarrow> (string list \<times> string) gres"
  ej_object :: "string \<Rightarrow> string"

definition parseEnrichJSON :: "enrich_json \<Rightarrow> string \<Rightarrow> (string list \<times> string) gres" where
  "parseEnrichJSON J s =
     (let s = TrimSpace s
      in if s = [] then Inl (Failed ''empty response'')
         else case ej_out J s of
                Inr out \<Rightarrow> Inr out
              | Inl e \<Rightarrow>
                  (let m = ej_object J s
                   in if m = [] then Inl (Failed ''no JSON object in response'') else ej_out J m))"

text \<open>The clean-up of one tag, and the loop with its set of tags seen and its cap.\<close>

definition trim_set :: "string \<Rightarrow> string \<Rightarrow> string" where
  "trim_set cutset s =
     rev (dropWhile (\<lambda>c. c \<in> set cutset) (rev (dropWhile (\<lambda>c. c \<in> set cutset) s)))"

definition clean_tag :: "unicode \<Rightarrow> string \<Rightarrow> string" where
  "clean_tag u t =
     trim_set '',.;:/()[]''
       (map (\<lambda>c. if c = CHR '' '' then CHR ''-'' else c) (ToLower u (TrimSpace t)))"

fun normalize_loop :: "unicode \<Rightarrow> string list \<Rightarrow> string set \<Rightarrow> string list \<Rightarrow> string list" where
  "normalize_loop u [] seen out = out"
| "normalize_loop u (t # ts) seen out =
     (let t = clean_tag u t
      in if t = [] \<or> t \<in> seen \<or> 5 \<le> length out then normalize_loop u ts seen out
         else normalize_loop u ts (insert t seen) (out @ [t]))"

definition normalizeTags :: "unicode \<Rightarrow> string list \<Rightarrow> string list" where
  "normalizeTags u ts = normalize_loop u ts {} []"

type_synonym 's post = "string \<Rightarrow> string \<Rightarrow> 's \<Rightarrow> http_result \<times> 's"

definition generate :: "unicode \<Rightarrow> enrich_json \<Rightarrow> string \<Rightarrow> 's post \<Rightarrow> string \<Rightarrow> string \<Rightarrow> 's \<Rightarrow>
    (string list \<times> string) gres \<times> 's" where
  "generate u J enrichPrompt post model docText s =
     (let docText = TrimSpace docText
      in if docText = [] then (Inl ErrNothingToEnrich, s)
         else
           let docText = take maxDocChars docText;
               (resp, s') = post model (enrichPrompt @ [CHR 0x0A, CHR 0x0A] @ ''--- DOCUMENT ---'' @ [CHR 0x0A] @ docText) s
           in (case resp of
                 HttpErr e \<Rightarrow> Inl e
               | HttpResp status body \<Rightarrow>
                   if status \<ge> 500 then Inl (Failed ''ollama returned a server error'')
                   else if status \<noteq> 200 then Inl (WrapPermanent (Failed ''ollama returned an error''))
                   else case ej_response J body of
                          Inl e \<Rightarrow> Inl (WrapPermanent e)
                        | Inr txt \<Rightarrow>
                            (case parseEnrichJSON J txt of
                               Inl e \<Rightarrow> Inl (WrapPermanent e)
                             | Inr (tags, summary) \<Rightarrow>
                                 if tags = [] \<and> TrimSpace summary = [] then Inl ErrNothingToEnrich
                                 else Inr (normalizeTags u tags, TrimSpace summary)), s'))"

definition Enrich :: "unicode \<Rightarrow> enrich_json \<Rightarrow> string \<Rightarrow> 's post \<Rightarrow> string \<Rightarrow> int \<Rightarrow> string \<Rightarrow> breaker \<times> 's \<Rightarrow>
    (string list \<times> string) gres \<times> breaker \<times> 's" where
  "Enrich u J enrichPrompt post model now docText = guarded now (generate u J enrichPrompt post model docText)"

fun Enrich_all :: "unicode \<Rightarrow> enrich_json \<Rightarrow> string \<Rightarrow> 's post \<Rightarrow> string \<Rightarrow> (int \<times> string) list \<Rightarrow>
    breaker \<times> 's \<Rightarrow> breaker \<times> 's" where
  "Enrich_all u J pr post model [] bs = bs"
| "Enrich_all u J pr post model ((now, doc) # docs) bs =
     Enrich_all u J pr post model docs (snd (Enrich u J pr post model now doc bs))"

lemma Enrich_all_run:
  "Enrich_all u J pr post model docs bs =
   guarded_run (map (\<lambda>(now, doc). (now, generate u J pr post model doc)) docs) bs"
proof (induction docs arbitrary: bs)
  case (Cons d docs)
  show ?case
    by (cases d) (simp add: Enrich_def Cons.IH)
qed simp

section \<open>Tags\<close>

lemma normalize_loop_inv:
  assumes "set out \<subseteq> seen" and "distinct out" and "length out \<le> 5" and "[] \<notin> set out"
    and "set out \<subseteq> clean_tag u ` A" and "set ts \<subseteq> A"
  shows "let r = normalize_loop u ts seen out in
    distinct r \<and> length r \<le> 5 \<and> [] \<notin> set r \<and> set r \<subseteq> clean_tag u ` A"
  using assms
proof (induction u ts seen out rule: normalize_loop.induct)
  case (2 u t ts seen out)
  let ?t = "clean_tag u t"
  show ?case
  proof (cases "?t = [] \<or> ?t \<in> seen \<or> 5 \<le> length out")
    case True
    then show ?thesis
      using 2(1) [OF refl True] 2(3-) by (auto simp: Let_def)
  next
    case False
    have "set (out @ [?t]) \<subseteq> insert ?t seen" "distinct (out @ [?t])" "length (out @ [?t]) \<le> 5"
      "[] \<notin> set (out @ [?t])" "set (out @ [?t]) \<subseteq> clean_tag u ` A" "set ts \<subseteq> A"
      using False 2(3-) by auto
    from 2(2) [OF refl False this] show ?thesis
      using False by (simp add: Let_def)
  qed
qed (simp add: Let_def)

section \<open>Properties\<close>

text \<open>The tags of a document are few, clean and distinct: at most five, none empty, no repetition,
  none with white space or listed punctuation at its ends, and each the cleaned form of a tag
  the model gave.\<close>

theorem tags_bounded:
  "distinct (normalizeTags u ts) \<and> length (normalizeTags u ts) \<le> 5 \<and> [] \<notin> set (normalizeTags u ts) \<and>
   set (normalizeTags u ts) \<subseteq> clean_tag u ` set ts"
  using normalize_loop_inv [of "[]" "{}" u "set ts" ts] by (simp add: normalizeTags_def Let_def)

text \<open>Empty documents switch enrichment off. Every error of the model call counts against the
  circuit breaker, also "nothing to enrich", which is decided before the model is asked. After
  five blank documents in a row every document is refused for thirty seconds, however healthy the
  model.\<close>

theorem blank_documents_open_breaker:
  assumes "length docs = 5" and "\<forall>(now, doc) \<in> set docs. TrimSpace doc = []"
    and "later < fst (last docs) + 30000000000"
  shows "\<exists>b'. Enrich u J pr post model later doc (Enrich_all u J pr post model docs (newBreaker, s)) =
    (Inl ErrCircuitOpen, b', snd (Enrich_all u J pr post model docs (newBreaker, s)))"
proof -
  let ?calls = "map (\<lambda>(now, doc). (now, generate u J pr post model doc)) docs"
  obtain b' s' where run: "guarded_run ?calls (newBreaker, s) = (b', s')" "br_st b' = StOpen"
    "br_lastFail b' = fst (last ?calls)" "br_resetAfter b' = br_resetAfter newBreaker"
    using failing_calls_open [of newBreaker ?calls s] assms(1,2)
    by (force simp: newBreaker_def generate_def)
  have "docs \<noteq> []"
    using assms(1) by auto
  then have "fst (last ?calls) = fst (last docs)"
    by (simp add: last_map split: prod.split)
  then show ?thesis
    using run assms(3) by (simp add: Enrich_all_run Enrich_def guarded_def br_allow_def newBreaker_def)
qed

theorem blank_documents_open_breaker_witness:
  "\<exists>b'. Enrich ascii_tables \<lparr>ej_response = Inr, ej_out = (\<lambda>s. Inr ([s], s)), ej_object = (\<lambda>s. s)\<rparr> ''''
     (\<lambda>m p s. (HttpResp 200 ''{}'', s)) ''m'' 6 ''text''
     (Enrich_all ascii_tables \<lparr>ej_response = Inr, ej_out = (\<lambda>s. Inr ([s], s)), ej_object = (\<lambda>s. s)\<rparr> ''''
       (\<lambda>m p s. (HttpResp 200 ''{}'', s)) ''m'' [(1, ''''), (2, ''''), (3, ''''), (4, ''''), (5, '''')] (newBreaker, ())) =
   (Inl ErrCircuitOpen, b', ())"
proof -
  have "TrimSpace '''' = ''''"
    by code_simp
  then show ?thesis
    using blank_documents_open_breaker [of "[(1, ''''), (2, ''''), (3, ''''), (4, ''''), (5, '''')]" 6
        ascii_tables "\<lparr>ej_response = Inr, ej_out = (\<lambda>s. Inr ([s], s)), ej_object = (\<lambda>s. s)\<rparr>" "''''"
        "\<lambda>m p s. (HttpResp 200 ''{}'', s)" "''m''" "''text''" "()"]
    by (simp del: Enrich_all.simps)
qed

end
