(* ===== verification/Bridge.thy ===== *)
theory Bridge
  imports Breaker Model
begin

text \<open>
  The bridge to MuninnDB, \<open>internal/bridge/muninn\<close>: the mapping of chunks to write parameters
  (\<open>mapper.go\<close>, \<open>concept.go\<close>) and the worker pool (\<open>processor.go\<close>). Several workers run at
  once; a step is one critical section of one of them: a \<open>Submit\<close>, the dequeuing of a job with
  the breaker's answer, one batch written, or a job given up on shutdown. The RPC is an input of the
  step; the rate limiter and the semaphore only delay steps.
\<close>

section \<open>The mapping\<close>

record association =
  as_TargetID :: string
  as_RelType :: "32 word"
  as_Weight :: real
  as_Confidence :: real

record write_params =
  wp_Concept :: string
  wp_Content :: string
  wp_Vault :: string
  wp_Stability :: real
  wp_Confidence :: real
  wp_IdempotentID :: string
  wp_UpsertMode :: bool
  wp_TypeLabel :: string
  wp_MemoryType :: "32 word"
  wp_Embedding :: "real list"
  wp_Associations :: "association list"
  wp_Tags :: "string list"

definition withPosition :: "string \<Rightarrow> chunk \<Rightarrow> string" where
  "withPosition label c =
     (let l = TrimSpace label; l = (if l = [] then ''untitled'' else l)
      in if c_TotalChunks c \<le> 1 then l
         else l @ '' ['' @ Itoa (c_ChunkIndex c + 1) @ ''/'' @ Itoa (c_TotalChunks c) @ '']'')"

definition cleanHeading :: "string \<Rightarrow> string" where
  "cleanHeading s = TrimSpace (dropWhile (\<lambda>c. c = CHR ''#'') (TrimSpace s))"

definition leafHeading :: "chunk \<Rightarrow> string" where
  "leafHeading c = (if c_SectionContext c = [] then [] else cleanHeading (last (c_SectionContext c)))"

definition looksLikeFilename :: "string \<Rightarrow> bool" where
  "looksLikeFilename s \<longleftrightarrow> CHR ''.'' \<in> set s \<and> CHR '' '' \<notin> set s \<and> CHR 0x09 \<notin> set s"

definition docTitle :: "document \<Rightarrow> string" where
  "docTitle doc =
     (case map_of (d_Metadata doc) ''title'' of
        None \<Rightarrow> []
      | Some v \<Rightarrow>
          let t = TrimSpace (case v of MString s \<Rightarrow> s | _ \<Rightarrow> [])
          in if t = [] \<or> looksLikeFilename t then [] else t)"

text \<open>\<open>strings.LastIndexAny\<close> with a set of single bytes; \<open>None\<close> is -1.\<close>

definition last_index :: "char set \<Rightarrow> string \<Rightarrow> nat option" where
  "last_index cs s =
     (if set s \<inter> cs = {} then None
      else Some (length s - 1 - length (takeWhile (\<lambda>c. c \<notin> cs) (rev s))))"

definition fileStem :: "string \<Rightarrow> string" where
  "fileStem name =
     (if name = [] then []
      else
        let name = (case last_index {CHR ''.''} name of
                      Some i \<Rightarrow> if 0 < i then take i name else name | None \<Rightarrow> name)
        in map (\<lambda>c. if c = CHR ''_'' then CHR '' '' else c)
             (map (\<lambda>c. if c = CHR ''-'' then CHR '' '' else c) (TrimSpace name)))"

definition ellipsis :: string where
  "ellipsis = [CHR 0xE2, CHR 0x80, CHR 0xA6]"

definition snippet :: "string \<Rightarrow> nat \<Rightarrow> string" where
  "snippet s n =
     (let s = TrimSpace s
      in if length s \<le> n then s
         else
           let cut = (case last_index {CHR '' '', CHR 0x09, CHR 0x0A} (take n s) of
                        Some i \<Rightarrow> if i \<le> 0 then n else i | None \<Rightarrow> n)
           in take cut s @ ellipsis)"

definition concept :: "chunk \<Rightarrow> document \<Rightarrow> string" where
  "concept c doc =
     (if leafHeading c \<noteq> [] then withPosition (leafHeading c) c
      else if docTitle doc \<noteq> [] then withPosition (docTitle doc) c
      else if fileStem (d_FileName doc) \<noteq> [] then withPosition (fileStem (d_FileName doc)) c
      else withPosition (snippet (c_Content c) 60) c)"

record mapper =
  mp_SourceVault :: string
  mp_TargetVault :: string

definition mapper_tags :: "mapper \<Rightarrow> chunk \<Rightarrow> document \<Rightarrow> string list" where
  "mapper_tags m c doc =
     [''go-rag'', mp_SourceVault m, d_FileType doc] @
     (if 0 < c_ExtractionQuality c \<and> c_ExtractionQuality c < 1 / 2 then [''low-quality''] else [])"

definition mapper_Map :: "mapper \<Rightarrow> chunk \<Rightarrow> document \<Rightarrow> write_params" where
  "mapper_Map m c doc =
     \<lparr>wp_Concept = concept c doc, wp_Content = c_Content c, wp_Vault = mp_TargetVault m,
      wp_Stability = 30, wp_Confidence = 1, wp_IdempotentID = ''chunk:'' @ c_ID c,
      wp_UpsertMode = True, wp_TypeLabel = ''go-rag-chunk'', wp_MemoryType = 0, wp_Embedding = [],
      wp_Associations = [],
      wp_Tags = mapper_tags m c doc\<rparr>"

definition mapper_MapAll :: "mapper \<Rightarrow> chunk list \<Rightarrow> document \<Rightarrow> write_params list" where
  "mapper_MapAll m chunks doc = map (\<lambda>c. mapper_Map m c doc) chunks"

section \<open>The pool\<close>

datatype sync_mode = ModeChangeEvent | ModeBackfill

record promotion_job =
  pj_Vault :: string
  pj_Items :: "write_params list"
  pj_Mode :: sync_mode

record proc_config =
  pc_Workers :: int
  pc_MaxInFlight :: int
  pc_RatePerSec :: int
  pc_BatchSize :: int
  pc_QueueDepth :: int

text \<open>\<open>pr_inflight\<close>: the jobs the workers hold, with the items not yet written.\<close>

record bridge_proc =
  pr_queue :: "promotion_job list"
  pr_depth :: nat
  pr_br :: breaker
  pr_batchSize :: nat
  pr_inflight :: "write_params list list"
  pr_promoted :: int
  pr_skipped :: int
  pr_failed :: int
  pr_closed :: bool

definition NewProcessor :: "proc_config \<Rightarrow> bridge_proc" where
  "NewProcessor cfg =
     \<lparr>pr_queue = [], pr_depth = (if pc_QueueDepth cfg \<le> 0 then 10000 else nat (pc_QueueDepth cfg)),
      pr_br = newBreaker,
      pr_batchSize = (if pc_BatchSize cfg \<le> 0 \<or> 50 < pc_BatchSize cfg then 50 else nat (pc_BatchSize cfg)),
      pr_inflight = [], pr_promoted = 0, pr_skipped = 0, pr_failed = 0, pr_closed = False\<rparr>"

definition proc_skip :: "nat \<Rightarrow> bridge_proc \<Rightarrow> bridge_proc" where
  "proc_skip n p = p\<lparr>pr_skipped := pr_skipped p + int n\<rparr>"

definition proc_Submit :: "promotion_job \<Rightarrow> bridge_proc \<Rightarrow> bridge_proc" where
  "proc_Submit job p =
     (if pr_closed p then proc_skip (length (pj_Items job)) p
      else if length (pr_queue p) < pr_depth p then p\<lparr>pr_queue := pr_queue p @ [job]\<rparr>
      else proc_skip (length (pj_Items job)) p)"

text \<open>A worker takes a job: it is skipped if the breaker refuses.\<close>

definition worker_take :: "int \<Rightarrow> bridge_proc \<Rightarrow> bridge_proc" where
  "worker_take now p =
     (case pr_queue p of
        [] \<Rightarrow> p
      | job # rest \<Rightarrow>
          (case br_allow now (pr_br p) of
             (Some e, b) \<Rightarrow> proc_skip (length (pj_Items job)) (p\<lparr>pr_queue := rest, pr_br := b\<rparr>)
           | (None, b) \<Rightarrow>
               p\<lparr>pr_queue := rest, pr_br := b,
                 pr_inflight := (if pj_Items job = [] then pr_inflight p
                                 else pj_Items job # pr_inflight p)\<rparr>))"

text \<open>
  The RPC answers with an error or with one result per item it processed, an ID and an error text.
  The worker at position \<open>i\<close> has written its next batch and goes on with the rest.
\<close>

type_synonym write_result = "string \<times> string"

definition item_failures :: "write_result list \<Rightarrow> nat" where
  "item_failures rs = length (filter (\<lambda>(rid, err). rid = [] \<and> err \<noteq> []) rs)"

definition go_on :: "nat \<Rightarrow> write_params list \<Rightarrow> bridge_proc \<Rightarrow> bridge_proc" where
  "go_on i rest p =
     p\<lparr>pr_inflight := take i (pr_inflight p) @ (if rest = [] then [] else [rest]) @ drop (i + 1) (pr_inflight p)\<rparr>"

definition promote_batch :: "int \<Rightarrow> nat \<Rightarrow> write_result list gres \<Rightarrow> bridge_proc \<Rightarrow> bridge_proc" where
  "promote_batch now i res p =
     (let items = pr_inflight p ! i;
          batch = take (pr_batchSize p) items;
          p' = go_on i (drop (pr_batchSize p) items) p
      in case res of
           Inl e \<Rightarrow> p'\<lparr>pr_br := br_fail now (pr_br p), pr_failed := pr_failed p + int (length batch)\<rparr>
         | Inr results \<Rightarrow>
             (let failed = int (item_failures results)
              in p'\<lparr>pr_br := br_ok (pr_br p),
                    pr_promoted := pr_promoted p + (int (length batch) - failed),
                    pr_failed := (if 0 < failed then pr_failed p + failed else pr_failed p)\<rparr>))"

text \<open>A cancelled worker leaves the rest of its job.\<close>

definition promote_cancel :: "nat \<Rightarrow> bridge_proc \<Rightarrow> bridge_proc" where
  "promote_cancel i p = proc_skip (length (pr_inflight p ! i)) (go_on i [] p)"

definition proc_Stop :: "bridge_proc \<Rightarrow> bridge_proc" where
  "proc_Stop p = p\<lparr>pr_closed := True\<rparr>"

text \<open>The runs, with the number of items ever submitted.\<close>

inductive proc_step :: "nat \<times> bridge_proc \<Rightarrow> nat \<times> bridge_proc \<Rightarrow> bool" where
  submit: "proc_step (n, p) (n + length (pj_Items job), proc_Submit job p)"
| take: "proc_step (n, p) (n, worker_take now p)"
| batch: "i < length (pr_inflight p) \<Longrightarrow> proc_step (n, p) (n, promote_batch now i res p)"
| cancel: "i < length (pr_inflight p) \<Longrightarrow> proc_step (n, p) (n, promote_cancel i p)"
| stop: "proc_step (n, p) (n, proc_Stop p)"

inductive_cases proc_stepE: "proc_step (n, p) s"

section \<open>Accounting\<close>

definition waiting :: "bridge_proc \<Rightarrow> nat" where
  "waiting p = sum_list (map (length \<circ> pj_Items) (pr_queue p)) + sum_list (map length (pr_inflight p))"

definition proc_inv :: "nat \<Rightarrow> bridge_proc \<Rightarrow> bool" where
  "proc_inv n p \<longleftrightarrow>
     pr_promoted p + pr_skipped p + pr_failed p + int (waiting p) = int n \<and>
     length (pr_queue p) \<le> pr_depth p \<and> 0 < pr_batchSize p \<and> pr_batchSize p \<le> 50 \<and>
     [] \<notin> set (pr_inflight p)"

lemma sum_list_split:
  "i < length xs \<Longrightarrow> sum_list (map f xs) = sum_list (map f (take i xs)) + f (xs ! i) + sum_list (map f (drop (i + 1) xs))"
  for f :: "'a \<Rightarrow> nat"
  using id_take_nth_drop [of i xs] by (metis Suc_eq_plus1 add.assoc list.simps(9) map_append sum_list.Cons sum_list.append)

lemma waiting_go_on:
  assumes "i < length (pr_inflight p)"
  shows "waiting (go_on i rest p) + length (pr_inflight p ! i) = waiting p + length rest"
  using sum_list_split [OF assms, of length] by (simp add: waiting_def go_on_def)

lemma go_on_other [simp]:
  "pr_queue (go_on i rest p) = pr_queue p" "pr_depth (go_on i rest p) = pr_depth p"
  "pr_batchSize (go_on i rest p) = pr_batchSize p" "pr_promoted (go_on i rest p) = pr_promoted p"
  "pr_skipped (go_on i rest p) = pr_skipped p" "pr_failed (go_on i rest p) = pr_failed p"
  by (simp_all add: go_on_def)

lemma go_on_nonempty: "[] \<notin> set (pr_inflight p) \<Longrightarrow> [] \<notin> set (pr_inflight (go_on i rest p))"
  by (auto simp: go_on_def dest: in_set_takeD in_set_dropD)

lemma proc_inv_new: "proc_inv 0 (NewProcessor cfg)"
  by (auto simp: proc_inv_def NewProcessor_def waiting_def)

lemma proc_inv_step:
  assumes "proc_step (n, p) (n', p')" and "proc_inv n p"
  shows "proc_inv n' p'"
  using assms(1)
proof cases
  case (submit job)
  then show ?thesis
    using assms(2) by (auto simp: proc_inv_def proc_Submit_def proc_skip_def waiting_def)
next
  case (take now)
  then show ?thesis
    using assms(2)
    by (cases "pr_queue p")
      (auto simp: proc_inv_def worker_take_def proc_skip_def waiting_def split: prod.split option.split)
next
  case (batch i now res)
  let ?rest = "drop (pr_batchSize p) (pr_inflight p ! i)"
  have "waiting (go_on i ?rest p) + length (take (pr_batchSize p) (pr_inflight p ! i)) = waiting p"
    using waiting_go_on [OF batch(3), of ?rest] by simp
  moreover have "waiting (promote_batch now i res p) = waiting (go_on i ?rest p)"
    by (auto simp: promote_batch_def Let_def waiting_def split: sum.split)
  moreover have "pr_promoted (promote_batch now i res p) + pr_failed (promote_batch now i res p) =
      pr_promoted p + pr_failed p + int (length (take (pr_batchSize p) (pr_inflight p ! i)))"
    by (auto simp: promote_batch_def Let_def split: sum.split)
  moreover have "pr_skipped (promote_batch now i res p) = pr_skipped p" "pr_queue (promote_batch now i res p) = pr_queue p"
    "pr_depth (promote_batch now i res p) = pr_depth p" "pr_batchSize (promote_batch now i res p) = pr_batchSize p"
    "pr_inflight (promote_batch now i res p) = pr_inflight (go_on i ?rest p)"
    by (auto simp: promote_batch_def Let_def split: sum.split)
  ultimately show ?thesis
    using assms(2) go_on_nonempty [of p i ?rest] batch(1,2) by (simp add: proc_inv_def)
next
  case (cancel i)
  then show ?thesis
    using assms(2) waiting_go_on [OF cancel(3), of "[]"] go_on_nonempty [of p i "[]"]
    by (auto simp: proc_inv_def promote_cancel_def proc_skip_def waiting_def)
next
  case stop
  then show ?thesis
    using assms(2) by (simp add: proc_inv_def proc_Stop_def waiting_def)
qed

lemma proc_reachable_inv:
  assumes "proc_step\<^sup>*\<^sup>* (0, NewProcessor cfg) s"
  shows "proc_inv (fst s) (snd s)"
  using assms
proof (induction rule: rtranclp_induct)
  case (step s s')
  then show ?case
    using proc_inv_step by (metis prod.collapse)
qed (simp add: proc_inv_new)

section \<open>Properties\<close>

text \<open>C14: no item is lost or counted twice. In every reachable state of the pool, with any interleaving
  of submissions, workers, failures and shutdown, the promoted, skipped and failed items and those
  still waiting add up to the items submitted; the queue stays within its depth; and once nothing
  waits every submitted item has been accounted for.\<close>

theorem bridge_accounts_for_every_item:
  assumes "proc_step\<^sup>*\<^sup>* (0, NewProcessor cfg) (n, p)"
  shows "pr_promoted p + pr_skipped p + pr_failed p + int (waiting p) = int n \<and>
    length (pr_queue p) \<le> pr_depth p \<and>
    (pr_queue p = [] \<and> pr_inflight p = [] \<longrightarrow> pr_promoted p + pr_skipped p + pr_failed p = int n)"
  using proc_reachable_inv [OF assms] by (auto simp: proc_inv_def waiting_def)

text \<open>A job of two items in batches of one: the first write fails, the second succeeds.\<close>

definition demo_cfg :: proc_config where
  "demo_cfg = \<lparr>pc_Workers = 1, pc_MaxInFlight = 1, pc_RatePerSec = 0, pc_BatchSize = 1, pc_QueueDepth = 1\<rparr>"

definition demo_job :: promotion_job where
  "demo_job = \<lparr>pj_Vault = ''v'', pj_Items = mapper_MapAll \<lparr>mp_SourceVault = ''s'', mp_TargetVault = ''v''\<rparr> [blank_chunk, blank_chunk] blank_document, pj_Mode = ModeChangeEvent\<rparr>"

definition demo_end :: bridge_proc where
  "demo_end = promote_batch 3 0 (Inr [(''x'', '''')]) (promote_batch 2 0 (Inl (Failed ''rpc''))
     (worker_take 1 (proc_Submit demo_job (NewProcessor demo_cfg))))"

theorem bridge_accounts_for_every_item_witness:
  "pr_promoted demo_end + pr_skipped demo_end + pr_failed demo_end + int (waiting demo_end) = 2 \<and>
   pr_promoted demo_end = 1 \<and> pr_failed demo_end = 1"
proof -
  let ?p1 = "proc_Submit demo_job (NewProcessor demo_cfg)"
  let ?p2 = "worker_take 1 ?p1"
  let ?p3 = "promote_batch 2 0 (Inl (Failed ''rpc'')) ?p2"
  have p1: "proc_step (0, NewProcessor demo_cfg) (2, ?p1)"
    using proc_step.submit [of 0 "NewProcessor demo_cfg" demo_job] by (simp add: demo_job_def mapper_MapAll_def numeral_2_eq_2)
  have p2: "proc_step (2, ?p1) (2, ?p2)"
    by (rule proc_step.take)
  have "0 < length (pr_inflight ?p2)" "0 < length (pr_inflight ?p3)"
    by (simp_all add: worker_take_def proc_Submit_def NewProcessor_def demo_cfg_def demo_job_def
        br_allow_def newBreaker_def promote_batch_def go_on_def numeral_2_eq_2 mapper_MapAll_def)
  then have "proc_step (2, ?p2) (2, ?p3)" "proc_step (2, ?p3) (2, demo_end)"
    unfolding demo_end_def by (auto intro: proc_step.batch)
  with p1 p2 have "proc_step\<^sup>*\<^sup>* (0, NewProcessor demo_cfg) (2, demo_end)"
    by (meson converse_rtranclp_into_rtranclp rtranclp.rtrancl_refl)
  from bridge_accounts_for_every_item [OF this] show ?thesis
    by (simp add: demo_end_def worker_take_def proc_Submit_def NewProcessor_def demo_cfg_def demo_job_def
        br_allow_def newBreaker_def promote_batch_def go_on_def numeral_2_eq_2 mapper_MapAll_def item_failures_def waiting_def)
qed

end
