(* ===== verification/Prefixer.thy ===== *)
theory Prefixer
  imports Go_Strings Utf8
begin

text \<open>
  Instruction prefixes, \<open>internal/embed/prefix.go\<close>: which text is put before a query or a passage
  for a given embedding model, and the label stored with each vector.
\<close>

datatype role = RoleQuery | RoleDocument

datatype prefix_mode = ModeAuto | ModeOn | ModeOff

definition ParsePrefixMode :: "string \<Rightarrow> prefix_mode gres" where
  "ParsePrefixMode s =
     (if s = '''' \<or> s = ''auto'' then Inr ModeAuto
      else if s = ''on'' then Inr ModeOn
      else if s = ''off'' then Inr ModeOff
      else Inl (Failed ''invalid embedding_prefix mode''))"

record convention =
  cv_name :: string
  cv_query :: string
  cv_document :: string

definition no_convention :: convention where
  "no_convention = \<lparr>cv_name = [], cv_query = [], cv_document = []\<rparr>"

definition defaultConventions :: "(string \<times> convention) list" where
  "defaultConventions =
     [(''nomic-embed-text'', \<lparr>cv_name = ''nomic'', cv_query = ''search_query: '', cv_document = ''search_document: ''\<rparr>),
      (''nomic-embed'', \<lparr>cv_name = ''nomic'', cv_query = ''search_query: '', cv_document = ''search_document: ''\<rparr>),
      (''multilingual-e5'', \<lparr>cv_name = ''e5'', cv_query = ''query: '', cv_document = ''passage: ''\<rparr>),
      (''e5-'', \<lparr>cv_name = ''e5'', cv_query = ''query: '', cv_document = ''passage: ''\<rparr>),
      (''bge-'', \<lparr>cv_name = ''bge'', cv_query = ''Represent this sentence for searching relevant passages: '',
                  cv_document = ''''\<rparr>)]"

text \<open>\<open>strings.Contains\<close>.\<close>

definition contains :: "string \<Rightarrow> string \<Rightarrow> bool" where
  "contains s sub \<longleftrightarrow> list_ex (\<lambda>i. has_prefix (drop i s) sub) [0..<length s + 1]"

definition lookupConvention :: "unicode \<Rightarrow> string \<Rightarrow> convention" where
  "lookupConvention u model =
     (case find (\<lambda>(m, c). contains (ToLower u model) m) defaultConventions of
        Some (_, c) \<Rightarrow> c | None \<Rightarrow> no_convention)"

record prefixer =
  px_model :: string
  px_mode :: prefix_mode
  px_queryPrefix :: string
  px_docPrefix :: string

definition NewPrefixer :: "string \<Rightarrow> prefix_mode \<Rightarrow> string \<Rightarrow> string \<Rightarrow> prefixer" where
  "NewPrefixer model mode queryOverride docOverride =
     \<lparr>px_model = model, px_mode = mode, px_queryPrefix = queryOverride, px_docPrefix = docOverride\<rparr>"

definition px_resolve :: "unicode \<Rightarrow> prefixer \<Rightarrow> convention" where
  "px_resolve u p =
     (let mapConv = (if px_mode p \<noteq> ModeOff then lookupConvention u (px_model p) else no_convention)
      in \<lparr>cv_name = (if px_queryPrefix p \<noteq> [] \<or> px_docPrefix p \<noteq> [] then ''custom'' else cv_name mapConv),
          cv_query = (if px_queryPrefix p \<noteq> [] then px_queryPrefix p else cv_query mapConv),
          cv_document = (if px_docPrefix p \<noteq> [] then px_docPrefix p else cv_document mapConv)\<rparr>)"

definition ForRole :: "unicode \<Rightarrow> prefixer \<Rightarrow> role \<Rightarrow> string" where
  "ForRole u p r =
     (case r of RoleQuery \<Rightarrow> cv_query (px_resolve u p) | RoleDocument \<Rightarrow> cv_document (px_resolve u p))"

definition Convention :: "unicode \<Rightarrow> prefixer \<Rightarrow> string" where
  "Convention u p = cv_name (px_resolve u p)"

definition Active :: "unicode \<Rightarrow> prefixer \<Rightarrow> role \<Rightarrow> bool" where
  "Active u p r \<longleftrightarrow> ForRole u p r \<noteq> []"

definition Prepend :: "string \<Rightarrow> string \<Rightarrow> string" where
  "Prepend prefix s = (if prefix = [] then s else if has_prefix s prefix then s else prefix @ s)"

definition px_Apply :: "unicode \<Rightarrow> prefixer \<Rightarrow> role \<Rightarrow> string \<Rightarrow> string" where
  "px_Apply u p r s = Prepend (ForRole u p r) s"

definition ApplyAll :: "unicode \<Rightarrow> prefixer \<Rightarrow> role \<Rightarrow> string list \<Rightarrow> string list" where
  "ApplyAll u p r texts = (let pre = ForRole u p r in if pre = [] then texts else map (Prepend pre) texts)"

text \<open>\<open>Config.Prefixer\<close>: a mode that does not parse falls back to auto.\<close>

definition config_Prefixer :: "string \<Rightarrow> string \<Rightarrow> string \<Rightarrow> string \<Rightarrow> prefixer" where
  "config_Prefixer model modeText queryPrefix docPrefix =
     NewPrefixer model (case ParsePrefixMode modeText of Inr m \<Rightarrow> m | Inl _ \<Rightarrow> ModeAuto) queryPrefix docPrefix"

section \<open>Lemmas\<close>

lemma length_ApplyAll [simp]: "length (ApplyAll u p r texts) = length texts"
  by (simp add: ApplyAll_def Let_def)

lemma ApplyAll_map: "ApplyAll u p r texts = map (px_Apply u p r) texts"
  by (auto simp: ApplyAll_def px_Apply_def Prepend_def Let_def intro: map_idI [symmetric])

lemma has_prefix_append [simp]: "has_prefix (p @ s) p"
  by (simp add: has_prefix_def)

lemma Prepend_idem: "Prepend pre (Prepend pre s) = Prepend pre s"
  by (simp add: Prepend_def)

text \<open>Prefixing a prefixed text changes nothing, so a corpus re-embedded from prefixed texts agrees.\<close>

lemma ApplyAll_idem: "ApplyAll u p r (ApplyAll u p r texts) = ApplyAll u p r texts"
  by (simp add: ApplyAll_map px_Apply_def Prepend_idem)

text \<open>Switched off and without overrides nothing is prefixed and the label is the legacy one.\<close>

lemma ModeOff_plain:
  "ApplyAll u (NewPrefixer model ModeOff [] []) r texts = texts \<and>
   Convention u (NewPrefixer model ModeOff [] []) = []"
  by (cases r)
    (simp_all add: ApplyAll_def ForRole_def Convention_def px_resolve_def NewPrefixer_def no_convention_def Let_def)

end
