(* ===== verification/Embed_Processor.thy ===== *)
theory Embed_Processor
  imports Breaker Model Prefixer Indexes Vector_Index
begin

text \<open>
  The background embedder, \<open>internal/embedproc/processor.go\<close>. One goroutine drains the durable queue
  \<open>0x14\<close> of all vaults in batches: it reads the chunks, embeds them in one call behind the circuit
  breaker, stores the vectors, adds them to the vector index it was given and removes the queue
  records. The embedder is a parameter; \<open>None\<close> in its answer is a nil vector.
\<close>

definition maxBatch :: nat where
  "maxBatch = 32"

record embedRecord =
  er_Model :: string
  er_Convention :: string
  er_Vector :: "real list"

text \<open>The handles of a \<open>Processor\<close>: the codecs stand for \<open>encoding/json\<close> on the three record types.\<close>

type_synonym 's embedder = "string list \<Rightarrow> 's \<Rightarrow> real list option list gres \<times> 's"

record ('db, 's) embed_env =
  ee_P :: "'db pebble_ops"
  ee_item :: "EmbedQueueItem codec"
  ee_chunk :: "chunk codec"
  ee_rec :: "embedRecord codec"
  ee_embed :: "'s embedder"
  ee_model :: string
  ee_conv :: string
  ee_prefix :: "string list \<Rightarrow> string list"

text \<open>
  The state: the store, the shared vector index, the breaker, the vaults reported to \<open>onChange\<close>
  (newest first) and the state of the embedder.
\<close>

record ('db, 's) embed_state =
  es_db :: 'db
  es_vec :: vector
  es_br :: breaker
  es_changes :: "ws list"
  es_emb :: 's

record pendingChunk =
  pc_ws :: ws
  pc_id :: string
  pc_text :: string

section \<open>One pass over the queue\<close>

text \<open>
  What the callback does with a queue record: skip it, drop it (its chunk is gone), reuse a stored
  vector, or embed the text. A read error counts as "not there", as in the code.
\<close>

datatype queue_action = QSkip | QOrphan | QReuse "real list" | QEmbed string

definition queue_action :: "('db, 's) embed_env \<Rightarrow> 'db \<Rightarrow> bytes \<Rightarrow> bytes \<Rightarrow> queue_action" where
  "queue_action E d key val =
     (let ws = take 8 (drop 1 key); chunkID = bytes_str (drop 9 key)
      in case cd_unmarshal (ee_item E) val of
           None \<Rightarrow> QSkip
         | Some item \<Rightarrow>
             if eq_Status item = EmbedQueueFailed then QSkip
             else case DB_Get (ee_P E) d (ChunkKey ws chunkID) of
                    Inr (Some raw) \<Rightarrow>
                      (case cd_unmarshal (ee_chunk E) raw of
                         None \<Rightarrow> QSkip
                       | Some c \<Rightarrow>
                           (case DB_Get (ee_P E) d (EmbeddingKey ws chunkID) of
                              Inr (Some embRaw) \<Rightarrow>
                                (case cd_unmarshal (ee_rec E) embRaw of
                                   Some r \<Rightarrow> if 0 < length (er_Vector r) then QReuse (er_Vector r)
                                             else QEmbed (c_Content c)
                                 | None \<Rightarrow> QEmbed (c_Content c))
                            | _ \<Rightarrow> QEmbed (c_Content c)))
                  | _ \<Rightarrow> QOrphan)"

definition set_or :: "'db pebble_ops \<Rightarrow> 'db \<Rightarrow> bytes \<Rightarrow> bytes \<Rightarrow> 'db" where
  "set_or P d k v = (case DB_Set P d k v of Inr d' \<Rightarrow> d' | Inl _ \<Rightarrow> d)"

definition dequeue :: "'db pebble_ops \<Rightarrow> 'db \<Rightarrow> ws \<Rightarrow> string \<Rightarrow> 'db" where
  "dequeue P d ws chunkID = (case DeleteEmbedQueue P d ws chunkID of Inr d' \<Rightarrow> d' | Inl _ \<Rightarrow> d)"

definition collect_cb :: "('db, 's) embed_env \<Rightarrow> bytes \<Rightarrow> bytes \<Rightarrow>
    ('db, 's) embed_state \<times> pendingChunk list \<Rightarrow> (('db, 's) embed_state \<times> pendingChunk list) \<times> bool" where
  "collect_cb E key val sb =
     (let (st, batch) = sb; ws = take 8 (drop 1 key); chunkID = bytes_str (drop 9 key)
      in if maxBatch \<le> length batch then ((st, batch), False)
         else case queue_action E (es_db st) key val of
                QSkip \<Rightarrow> ((st, batch), True)
              | QOrphan \<Rightarrow> ((st\<lparr>es_db := dequeue (ee_P E) (es_db st) ws chunkID\<rparr>, batch), True)
              | QReuse v \<Rightarrow>
                  ((st\<lparr>es_vec := Vec_Add chunkID v (es_vec st),
                       es_db := dequeue (ee_P E) (es_db st) ws chunkID,
                       es_changes := ws # es_changes st\<rparr>, batch), True)
              | QEmbed txt \<Rightarrow>
                  ((st, batch @ [\<lparr>pc_ws = ws, pc_id = chunkID, pc_text = txt\<rparr>]), True))"

definition collect_pass :: "('db, 's) embed_env \<Rightarrow> ('db, 's) embed_state \<Rightarrow>
    ('db, 's) embed_state \<times> pendingChunk list" where
  "collect_pass E st =
     fst (DB_RangeScan (ee_P E) (es_db st) [PrefixEmbedQueue] [PrefixEmbedQueue + 1] (collect_cb E) (st, []))"

section \<open>Embedding a batch\<close>

text \<open>
  The fallback, one text at a time. If none succeeds the failure is the embedder's and everything
  stays pending; otherwise the failed ones are marked so for good.
\<close>

fun embed_each :: "'s embedder \<Rightarrow> string list \<Rightarrow> 's \<Rightarrow> real list option list \<times> nat \<times> 's" where
  "embed_each em [] s = ([], 0, s)"
| "embed_each em (t # ts) s =
     (let (res, s1) = em [t] s;
          (v, n) = (case res of
                      Inl e \<Rightarrow> (None, 0)
                    | Inr [] \<Rightarrow> (None, 0)
                    | Inr (r # rs) \<Rightarrow> (r, 1));
          (vs, m, s2) = embed_each em ts s1
      in (v # vs, n + m, s2))"

fun mark_failed :: "('db, 's) embed_env \<Rightarrow> pendingChunk list \<Rightarrow> real list option list \<Rightarrow> 'db \<Rightarrow> 'db" where
  "mark_failed E (it # its) (v # vs) d =
     mark_failed E its vs
       (if v \<noteq> None then d
        else case PutEmbedQueue (ee_P E) d (pc_ws it) (pc_id it)
               (marshal_or_nil (ee_item E) \<lparr>eq_Model = ee_model E, eq_Status = EmbedQueueFailed, eq_Attempts = 0\<rparr>) of
               Inr d' \<Rightarrow> d' | Inl _ \<Rightarrow> d)"
| "mark_failed E _ _ d = d"

definition embedOneByOne :: "('db, 's) embed_env \<Rightarrow> string list \<Rightarrow> pendingChunk list \<Rightarrow>
    ('db, 's) embed_state \<Rightarrow> real list option list \<times> ('db, 's) embed_state" where
  "embedOneByOne E texts batch st =
     (let (vecs, succeeded, s') = embed_each (ee_embed E) texts (es_emb st);
          st' = st\<lparr>es_emb := s'\<rparr>
      in if succeeded = 0 then (vecs, st')
         else (vecs, st'\<lparr>es_db := mark_failed E batch vecs (es_db st')\<rparr>))"

text \<open>Storing the vectors. Items beyond the answer, or with a nil vector, are left.\<close>

fun scatter :: "('db, 's) embed_env \<Rightarrow> pendingChunk list \<Rightarrow> real list option list \<Rightarrow>
    ('db, 's) embed_state \<Rightarrow> ('db, 's) embed_state" where
  "scatter E (it # its) (v # vs) st =
     scatter E its vs
       (case v of
          None \<Rightarrow> st
        | Some w \<Rightarrow>
            (let d1 = set_or (ee_P E) (es_db st) (EmbeddingKey (pc_ws it) (pc_id it))
                        (marshal_or_nil (ee_rec E) \<lparr>er_Model = ee_model E, er_Convention = ee_conv E, er_Vector = w\<rparr>)
             in st\<lparr>es_db := dequeue (ee_P E) d1 (pc_ws it) (pc_id it),
                   es_vec := Vec_Add (pc_id it) w (es_vec st)\<rparr>))"
| "scatter E _ _ st = st"

text \<open>The vaults to report, each once (the order of a Go map).\<close>

definition touched :: "pendingChunk list \<Rightarrow> real list option list \<Rightarrow> ws list" where
  "touched batch vecs = remdups (map (pc_ws \<circ> fst) (filter (\<lambda>(it, v). v \<noteq> None) (zip batch vecs)))"

text \<open>
  One round of the drain loop at time \<open>now\<close>; the second component says whether it goes round again.
\<close>

definition process_round :: "('db, 's) embed_env \<Rightarrow> int \<Rightarrow> ('db, 's) embed_state \<Rightarrow>
    ('db, 's) embed_state \<times> bool" where
  "process_round E now st =
     (let (st, batch) = collect_pass E st
      in if batch = [] then (st, False)
         else
           let texts = ee_prefix E (map pc_text batch);
               (refused, b) = br_allow now (es_br st);
               st = st\<lparr>es_br := b\<rparr>
           in if refused \<noteq> None then (st, False)
              else
                let (res, s') = ee_embed E texts (es_emb st);
                    st = st\<lparr>es_emb := s'\<rparr>;
                    (vecs, st) = (case res of
                       Inl e \<Rightarrow> embedOneByOne E texts batch (st\<lparr>es_br := br_fail now (es_br st)\<rparr>)
                     | Inr vecs \<Rightarrow> (vecs, st\<lparr>es_br := br_ok (es_br st)\<rparr>));
                    st = scatter E batch vecs st
                in (st\<lparr>es_changes := touched batch vecs @ es_changes st\<rparr>, True))"

text \<open>
  \<open>processBatch\<close> with fuel: \<open>None\<close> means it has not returned after so many rounds. \<open>clk i\<close> is the
  time of round \<open>i\<close>.
\<close>

fun processBatch :: "nat \<Rightarrow> ('db, 's) embed_env \<Rightarrow> (nat \<Rightarrow> int) \<Rightarrow> ('db, 's) embed_state \<Rightarrow>
    ('db, 's) embed_state option" where
  "processBatch 0 E clk st = None"
| "processBatch (Suc n) E clk st =
     (let (st', again) = process_round E (clk 0) st
      in if again then processBatch n E (\<lambda>i. clk (Suc i)) st' else Some st')"

section \<open>A pass, on the contents\<close>

text \<open>A queue key \<open>0x14 # r\<close> belongs to the chunk \<open>0x03 # r\<close> and the embedding \<open>0x04 # r\<close>.\<close>

abbreviation q_ws :: "bytes \<Rightarrow> ws" where "q_ws r \<equiv> take 8 r"
abbreviation q_id :: "bytes \<Rightarrow> string" where "q_id r \<equiv> bytes_str (drop 8 r)"

lemma queue_keys [simp]:
  "ChunkKey (q_ws r) (q_id r) = 0x03 # r" "EmbeddingKey (q_ws r) (q_id r) = 0x04 # r"
  "EmbedQueueKey (q_ws r) (q_id r) = 0x14 # r"
  by (simp_all add: scoped_key_defs vaultScopedString_def vaultScoped_def)

definition qaction :: "('db, 's) embed_env \<Rightarrow> contents \<Rightarrow> bytes \<Rightarrow> bytes \<Rightarrow> queue_action" where
  "qaction E m r val =
     (case cd_unmarshal (ee_item E) val of
        None \<Rightarrow> QSkip
      | Some item \<Rightarrow>
          if eq_Status item = EmbedQueueFailed then QSkip
          else case m (0x03 # r) of
                 None \<Rightarrow> QOrphan
               | Some raw \<Rightarrow>
                   (case cd_unmarshal (ee_chunk E) raw of
                      None \<Rightarrow> QSkip
                    | Some c \<Rightarrow>
                        (case Option.bind (m (0x04 # r)) (cd_unmarshal (ee_rec E)) of
                           None \<Rightarrow> QEmbed (c_Content c)
                         | Some e \<Rightarrow> if 0 < length (er_Vector e) then QReuse (er_Vector e)
                                     else QEmbed (c_Content c))))"

lemma qaction_cong:
  assumes "m (0x03 # r) = m' (0x03 # r)" and "m (0x04 # r) = m' (0x04 # r)"
  shows "qaction E m r v = qaction E m' r v"
  unfolding qaction_def assms ..

lemma queue_action_view:
  assumes "pebble (ee_P E) view" and "reliable (ee_P E)"
  shows "queue_action E d (0x14 # r) val = qaction E (view d) r val"
  using pebble.reliable_Get [OF assms, of d]
  by (auto simp: queue_action_def qaction_def Let_def split: option.split)

definition embed_items :: "('db, 's) embed_env \<Rightarrow> contents \<Rightarrow> (bytes \<times> bytes) list \<Rightarrow> pendingChunk list" where
  "embed_items E m kvs =
     concat (map (\<lambda>(k, v). case qaction E m (tl k) v of
                   QEmbed t \<Rightarrow> [\<lparr>pc_ws = q_ws (tl k), pc_id = q_id (tl k), pc_text = t\<rparr>] | _ \<Rightarrow> []) kvs)"

definition drops :: "queue_action \<Rightarrow> bool" where
  "drops a \<longleftrightarrow> (case a of QOrphan \<Rightarrow> True | QReuse w \<Rightarrow> True | _ \<Rightarrow> False)"

lemma drops_simps [simp]: "drops QOrphan" "drops (QReuse w)" "\<not> drops QSkip" "\<not> drops (QEmbed t)"
  by (simp_all add: drops_def)

definition in_vec :: "('db, 's) embed_state \<Rightarrow> string \<Rightarrow> bool" where
  "in_vec st i \<longleftrightarrow> map_of (vec_chunks (es_vec st)) i \<noteq> None"

lemma in_vec_simps [simp]:
  "in_vec (st\<lparr>es_db := x\<rparr>) i = in_vec st i" "in_vec (st\<lparr>es_br := b\<rparr>) i = in_vec st i"
  "in_vec (st\<lparr>es_emb := s\<rparr>) i = in_vec st i" "in_vec (st\<lparr>es_changes := c\<rparr>) i = in_vec st i"
  by (simp_all add: in_vec_def)

lemma in_vec_Add [simp]: "in_vec (st\<lparr>es_vec := Vec_Add j w (es_vec st)\<rparr>) i \<longleftrightarrow> i = j \<or> in_vec st i"
  by (auto simp: in_vec_def Vec_Add_def map_of_put_entry)

lemma dequeue_view:
  assumes "pebble P view" and "reliable P"
  shows "view (dequeue P d (q_ws r) (q_id r)) = (view d)(0x14 # r := None)"
proof -
  obtain d' where "pb_commit P d [KDelete (0x14 # r)] = Inr d'" "view d' = apply_batch [KDelete (0x14 # r)] (view d)"
    by (rule pebble.reliable_commitE [OF assms])
  then show ?thesis
    by (simp add: dequeue_def DeleteEmbedQueue_def DB_Delete_def)
qed

text \<open>What the callback loop does, against the contents \<open>m0\<close> at its start.\<close>

lemma collect_loop:
  assumes "pebble (ee_P E) view" and "reliable (ee_P E)"
    and "\<forall>kv \<in> set kvs. \<exists>r. fst kv = 0x14 # r"
    and "\<forall>r. view (es_db st) (0x03 # r) = m0 (0x03 # r) \<and> view (es_db st) (0x04 # r) = m0 (0x04 # r)"
  shows "\<exists>pre post st' batch' c. kvs = pre @ post \<and>
    scan_loop (\<lambda>_. True) (collect_cb E) kvs (st, batch) = ((st', batch'), c) \<and>
    (post \<noteq> [] \<longrightarrow> maxBatch \<le> length batch') \<and>
    es_br st' = es_br st \<and> es_emb st' = es_emb st \<and> batch' = batch @ embed_items E m0 pre \<and>
    view (es_db st') = (\<lambda>k. if \<exists>v. (k, v) \<in> set pre \<and> drops (qaction E m0 (tl k) v) then None
                           else view (es_db st) k) \<and>
    (\<forall>i. in_vec st i \<longrightarrow> in_vec st' i) \<and>
    (\<forall>k v w. (k, v) \<in> set pre \<and> qaction E m0 (tl k) v = QReuse w \<longrightarrow> in_vec st' (q_id (tl k)))"
  using assms(3,4)
proof (induction kvs arbitrary: st batch)
  case Nil
  then show ?case by (auto simp: embed_items_def)
next
  case (Cons kv kvs)
  obtain r v where kv: "kv = (0x14 # r, v)"
    using Cons.prems(1) by (cases kv) auto
  show ?case
  proof (cases "maxBatch \<le> length batch")
    case True
    then have "scan_loop (\<lambda>_. True) (collect_cb E) (kv # kvs) (st, batch) = ((st, batch), False)"
      by (simp add: kv collect_cb_def)
    then show ?thesis
      using True by (intro exI [of _ "[]"] exI [of _ "kv # kvs"] exI [of _ st] exI [of _ batch] exI [of _ False])
        (simp add: embed_items_def)
  next
    case False
    have act: "queue_action E (es_db st) (0x14 # r) v = qaction E m0 r v"
      by (rule trans [OF queue_action_view [OF assms(1,2)] qaction_cong]) (simp_all add: Cons.prems(2))
    define st1 where "st1 = (case qaction E m0 r v of
        QOrphan \<Rightarrow> st\<lparr>es_db := dequeue (ee_P E) (es_db st) (q_ws r) (q_id r)\<rparr>
      | QReuse w \<Rightarrow> st\<lparr>es_vec := Vec_Add (q_id r) w (es_vec st),
            es_db := dequeue (ee_P E) (es_db st) (q_ws r) (q_id r), es_changes := q_ws r # es_changes st\<rparr>
      | _ \<Rightarrow> st)"
    have cb: "collect_cb E (0x14 # r) v (st, batch) = ((st1, batch @ embed_items E m0 [kv]), True)"
      using False by (auto simp: collect_cb_def act st1_def embed_items_def kv Let_def split: queue_action.split)
    have v1: "view (es_db st1) = (\<lambda>k. if k = 0x14 # r \<and> drops (qaction E m0 r v) then None else view (es_db st) k)"
      by (auto simp: st1_def dequeue_view [OF assms(1,2)] fun_eq_iff split: queue_action.split)
    have agree: "\<forall>r. view (es_db st1) (0x03 # r) = m0 (0x03 # r) \<and> view (es_db st1) (0x04 # r) = m0 (0x04 # r)"
      using Cons.prems(2) by (simp add: v1)
    have vec1: "in_vec st i \<Longrightarrow> in_vec st1 i" "qaction E m0 r v = QReuse w \<Longrightarrow> in_vec st1 (q_id r)" for i w
      by (auto simp: st1_def in_vec_def Vec_Add_def map_of_put_entry split: queue_action.split)
    have same: "es_br st1 = es_br st" "es_emb st1 = es_emb st"
      by (auto simp: st1_def split: queue_action.split)
    have rest: "\<forall>kv \<in> set kvs. \<exists>r. fst kv = 0x14 # r"
      using Cons.prems(1) by simp
    obtain pre post st' batch' c where IH: "kvs = pre @ post"
      "scan_loop (\<lambda>_. True) (collect_cb E) kvs (st1, batch @ embed_items E m0 [kv]) = ((st', batch'), c)"
      "post \<noteq> [] \<longrightarrow> maxBatch \<le> length batch'" "es_br st' = es_br st1" "es_emb st' = es_emb st1"
      "batch' = (batch @ embed_items E m0 [kv]) @ embed_items E m0 pre"
      "view (es_db st') = (\<lambda>k. if \<exists>v. (k, v) \<in> set pre \<and> drops (qaction E m0 (tl k) v) then None
                           else view (es_db st1) k)"
      "\<forall>i. in_vec st1 i \<longrightarrow> in_vec st' i"
      "\<forall>k v w. (k, v) \<in> set pre \<and> qaction E m0 (tl k) v = QReuse w \<longrightarrow> in_vec st' (q_id (tl k))"
      using Cons.IH [OF rest agree, of "batch @ embed_items E m0 [kv]"] by (elim exE conjE) (rule that)
    have "scan_loop (\<lambda>_. True) (collect_cb E) (kv # kvs) (st, batch) = ((st', batch'), c)"
      using IH(2) by (simp add: kv cb)
    moreover have "batch' = batch @ embed_items E m0 (kv # pre)"
      using IH(6) by (simp add: embed_items_def)
    moreover have "view (es_db st') = (\<lambda>k. if \<exists>v. (k, v) \<in> set (kv # pre) \<and> drops (qaction E m0 (tl k) v) then None
        else view (es_db st) k)"
      unfolding IH(7) v1 by (auto simp: kv fun_eq_iff)
    moreover have "\<forall>k v w. (k, v) \<in> set (kv # pre) \<and> qaction E m0 (tl k) v = QReuse w \<longrightarrow> in_vec st' (q_id (tl k))"
      using IH(8,9) vec1(2) by (auto simp: kv)
    ultimately show ?thesis
      using IH(1,3,4,5,8) vec1(1) same
      by (intro exI [of _ "kv # pre"] exI [of _ post] exI [of _ st'] exI [of _ batch'] exI [of _ c]) auto
  qed
qed

text \<open>The chunk of a pending item, as the tail its three keys share.\<close>

definition pc_rest :: "pendingChunk \<Rightarrow> bytes" where
  "pc_rest it = pc_ws it @ str_bytes (pc_id it)"

lemma pc_rest_keys [simp]:
  "EmbeddingKey (pc_ws it) (pc_id it) = 0x04 # pc_rest it"
  "EmbedQueueKey (pc_ws it) (pc_id it) = 0x14 # pc_rest it"
  by (simp_all add: scoped_key_defs vaultScopedString_def vaultScoped_def pc_rest_def)

lemma pc_rest_mk [simp]: "pc_rest \<lparr>pc_ws = q_ws r, pc_id = q_id r, pc_text = t\<rparr> = r"
  by (simp add: pc_rest_def)

lemma embed_items_iff:
  "it \<in> set (embed_items E m kvs) \<longleftrightarrow>
     (\<exists>k v t. (k, v) \<in> set kvs \<and> qaction E m (tl k) v = QEmbed t \<and>
        it = \<lparr>pc_ws = q_ws (tl k), pc_id = q_id (tl k), pc_text = t\<rparr>)"
proof -
  have one: "x \<in> set (case a of QEmbed t \<Rightarrow> [f t] | _ \<Rightarrow> []) \<longleftrightarrow> (\<exists>t. a = QEmbed t \<and> x = f t)"
    for x :: pendingChunk and a f
    by (cases a) auto
  show ?thesis
    unfolding embed_items_def set_concat set_map split_def image_image UN_iff one
    by (metis fst_conv snd_conv surjective_pairing)
qed

lemma queue_range: "in_range [0x14] [0x15] k \<longleftrightarrow> (\<exists>r. k = 0x14 # (r :: bytes))"
proof (cases k)
  case (Cons b r)
  have "b < 0x15 \<longleftrightarrow> b \<le> (0x14 :: byte)"
    by (auto simp: word_less_nat_alt word_le_nat_alt)
  then have "b = 0x14 \<longleftrightarrow> 0x14 \<le> b \<and> b < 0x15"
    by (meson antisym order_refl)
  then show ?thesis
    by (auto simp: Cons in_range_def)
qed (simp add: in_range_def)

text \<open>
  One pass at the store \<open>m\<close>: a queue record is skipped, dropped, or put in the batch; if one was
  not looked at the batch is full.
\<close>

lemma collect_pass_effect:
  fixes st :: "('db, 's) embed_state"
  assumes "pebble (ee_P E) view" and "reliable (ee_P E)"
  obtains st' batch where "collect_pass E st = (st', batch)"
    and "es_br st' = es_br st" and "es_emb st' = es_emb st"
    and "\<And>k. hd k \<noteq> 0x14 \<or> k = [] \<Longrightarrow> view (es_db st') k = view (es_db st) k"
    and "\<And>r. view (es_db st) (0x14 # r) = None \<Longrightarrow> view (es_db st') (0x14 # r) = None"
    and "\<And>i. in_vec st i \<Longrightarrow> in_vec st' i"
    and "\<And>it. it \<in> set batch \<Longrightarrow> \<exists>v. view (es_db st) (0x14 # pc_rest it) = Some v \<and>
          qaction E (view (es_db st)) (pc_rest it) v = QEmbed (pc_text it) \<and> q_id (pc_rest it) = pc_id it"
    and "\<And>r v. view (es_db st) (0x14 # r) = Some v \<Longrightarrow>
          view (es_db st') (0x14 # r) = None \<and> drops (qaction E (view (es_db st)) r v) \<and>
            (\<forall>w. qaction E (view (es_db st)) r v = QReuse w \<longrightarrow> in_vec st' (q_id r)) \<or>
          view (es_db st') (0x14 # r) = Some v \<and>
            (maxBatch \<le> length batch \<or> qaction E (view (es_db st)) r v = QSkip \<or>
             (\<exists>it \<in> set batch. pc_rest it = r))"
proof -
  let ?m = "view (es_db st)"
  obtain kvs where kvs: "pb_iter (ee_P E) (es_db st) (Some [0x14]) (Some [0x15]) = Inr (kvs, None)"
    and dist: "distinct (map fst kvs)"
    and set: "set kvs = {(k, v). in_bounds (Some [0x14]) (Some [0x15]) k \<and> ?m k = Some v}"
    by (rule pebble.reliable_iterE [OF assms])
  have mem: "(k, v) \<in> set kvs \<longleftrightarrow> (\<exists>r. k = 0x14 # r) \<and> ?m k = Some v" for k v
    by (simp add: set queue_range)
  have heads: "\<forall>kv \<in> set kvs. \<exists>r. fst kv = 0x14 # r"
    using mem by auto
  have agree: "\<forall>r. ?m (0x03 # r) = ?m (0x03 # r) \<and> ?m (0x04 # r) = ?m (0x04 # r)"
    by simp
  obtain pre post st' batch c where run: "kvs = pre @ post"
      "scan_loop (\<lambda>_. True) (collect_cb E) kvs (st, []) = ((st', batch), c)"
      "post \<noteq> [] \<longrightarrow> maxBatch \<le> length batch" "es_br st' = es_br st" "es_emb st' = es_emb st"
      "batch = [] @ embed_items E ?m pre"
      "view (es_db st') = (\<lambda>k. if \<exists>v. (k, v) \<in> set pre \<and> drops (qaction E ?m (tl k) v) then None else ?m k)"
      "\<forall>i. in_vec st i \<longrightarrow> in_vec st' i"
      "\<forall>k v w. (k, v) \<in> set pre \<and> qaction E ?m (tl k) v = QReuse w \<longrightarrow> in_vec st' (q_id (tl k))"
    using collect_loop [OF assms heads agree, of "[]"] by (elim exE conjE) (rule that)
  have pre: "\<And>k v. (k, v) \<in> set pre \<Longrightarrow> (\<exists>r. k = 0x14 # r) \<and> ?m k = Some v"
    unfolding mem [symmetric] run(1) by simp
  show thesis
  proof (rule that)
    show "collect_pass E st = (st', batch)"
      by (simp add: collect_pass_def DB_RangeScan_def PrefixEmbedQueue_def kvs run(2))
    show "view (es_db st') k = ?m k" if "hd k \<noteq> 0x14 \<or> k = []" for k
      using that by (auto simp: run(7) dest: pre)
    show "view (es_db st') (0x14 # r) = None" if "?m (0x14 # r) = None" for r
      using that by (simp add: run(7))
    show "\<exists>v. ?m (0x14 # pc_rest it) = Some v \<and> qaction E ?m (pc_rest it) v = QEmbed (pc_text it) \<and>
        q_id (pc_rest it) = pc_id it" if "it \<in> set batch" for it
      using that pre unfolding run(6) append_Nil embed_items_iff by fastforce
    show "view (es_db st') (0x14 # r) = None \<and> drops (qaction E ?m r v) \<and>
            (\<forall>w. qaction E ?m r v = QReuse w \<longrightarrow> in_vec st' (q_id r)) \<or>
          view (es_db st') (0x14 # r) = Some v \<and>
            (maxBatch \<le> length batch \<or> qaction E ?m r v = QSkip \<or> (\<exists>it \<in> set batch. pc_rest it = r))"
      if h: "?m (0x14 # r) = Some v" for r v
    proof (cases "(0x14 # r, v) \<in> set pre")
      case True
      have drop: "view (es_db st') (0x14 # r) = (if drops (qaction E ?m r v) then None else Some v)"
      proof -
        have "va = v" if "(0x14 # r, va) \<in> set pre" for va
          using pre [OF that] h by simp
        then have "(\<exists>va. (0x14 # r, va) \<in> set pre \<and> drops (qaction E ?m r va)) \<longleftrightarrow> drops (qaction E ?m r v)"
          using True by metis
        then show ?thesis by (simp add: run(7) h)
      qed
      show ?thesis
      proof (cases "qaction E ?m r v")
        case (QEmbed t)
        then have "\<lparr>pc_ws = q_ws r, pc_id = q_id r, pc_text = t\<rparr> \<in> set batch"
          using True unfolding run(6) append_Nil embed_items_iff by fastforce
        then have "\<exists>it \<in> set batch. pc_rest it = r"
          using pc_rest_mk by blast
        then show ?thesis using drop QEmbed by simp
      next
        case (QReuse w)
        then have "in_vec st' (q_id r)" using run(9) True by fastforce
        then show ?thesis using drop QReuse by simp
      qed (use drop in simp_all)
    next
      case False
      then have "post \<noteq> []" using h mem run(1) by fastforce
      moreover have "view (es_db st') (0x14 # r) = Some v"
        using False h pre by (fastforce simp: run(7))
      ultimately show ?thesis using run(3) by simp
    qed
  qed (use run in simp_all)
qed

text \<open>Storing the vectors of a batch, all of them present.\<close>

lemma set_or_view:
  assumes "pebble P view" and "reliable P"
  shows "view (set_or P d k v) = (view d)(k \<mapsto> v)"
proof -
  obtain d' where "pb_commit P d [KSet k v] = Inr d'" "view d' = apply_batch [KSet k v] (view d)"
    by (rule pebble.reliable_commitE [OF assms])
  then show ?thesis
    by (simp add: set_or_def DB_Set_def)
qed

lemma dequeue_item_view:
  assumes "pebble P view" and "reliable P"
  shows "view (dequeue P d (pc_ws it) (pc_id it)) = (view d)(0x14 # pc_rest it := None)"
proof -
  obtain d' where "pb_commit P d [KDelete (0x14 # pc_rest it)] = Inr d'"
      "view d' = apply_batch [KDelete (0x14 # pc_rest it)] (view d)"
    by (rule pebble.reliable_commitE [OF assms])
  then show ?thesis
    by (simp add: dequeue_def DeleteEmbedQueue_def DB_Delete_def)
qed

lemma scatter_effect:
  assumes "pebble (ee_P E) view" and "reliable (ee_P E)" and "length ws = length its"
  shows "es_br (scatter E its (map Some ws) st) = es_br st"
    and "es_emb (scatter E its (map Some ws) st) = es_emb st"
    and "in_vec (scatter E its (map Some ws) st) i \<longleftrightarrow> in_vec st i \<or> (\<exists>it \<in> set its. pc_id it = i)"
    and "view (es_db (scatter E its (map Some ws) st)) (0x14 # r) =
           (if \<exists>it \<in> set its. pc_rest it = r then None else view (es_db st) (0x14 # r))"
    and "view (es_db st) (0x04 # r) \<noteq> None \<or> (\<exists>it \<in> set its. pc_rest it = r) \<Longrightarrow>
           view (es_db (scatter E its (map Some ws) st)) (0x04 # r) \<noteq> None"
    and "\<not> (\<exists>it \<in> set its. pc_rest it = r) \<Longrightarrow>
           view (es_db (scatter E its (map Some ws) st)) (0x04 # r) = view (es_db st) (0x04 # r)"
    and "b \<noteq> 0x14 \<Longrightarrow> b \<noteq> 0x04 \<Longrightarrow>
           view (es_db (scatter E its (map Some ws) st)) (b # r) = view (es_db st) (b # r)"
  using assms(3)
proof (induction its ws arbitrary: st rule: list_induct2')
  case (4 it its w ws)
  { case 1 then show ?case using 4 by (simp add: Let_def) }
  { case 2 then show ?case using 4 by (simp add: Let_def) }
  { case 3 then show ?case using 4 by (auto simp: Let_def in_vec_def Vec_Add_def map_of_put_entry) }
  { case 4 then show ?case using "4.IH"(4)
      by (auto simp: Let_def set_or_view [OF assms(1,2)] dequeue_item_view [OF assms(1,2)]) }
  { case 5 then show ?case using "4.IH"(5)
      by (auto simp: Let_def set_or_view [OF assms(1,2)] dequeue_item_view [OF assms(1,2)]) }
  { case 6 then show ?case using "4.IH"(6)
      by (auto simp: Let_def set_or_view [OF assms(1,2)] dequeue_item_view [OF assms(1,2)]) }
  { case 7 then show ?case using "4.IH"(7)
      by (auto simp: Let_def set_or_view [OF assms(1,2)] dequeue_item_view [OF assms(1,2)]) }
qed simp_all

section \<open>Draining\<close>

text \<open>
  An embedder that answers: a vector for each text, and no error. What it means that a record found
  with action \<open>a\<close> has been dealt with, and what no round undoes.
\<close>

definition well_embeds :: "'s embedder \<Rightarrow> bool" where
  "well_embeds em \<longleftrightarrow> (\<forall>ts s. \<exists>ws s'. em ts s = (Inr (map Some ws), s') \<and> length ws = length ts)"

definition settled :: "('db \<Rightarrow> contents) \<Rightarrow> ('db, 's) embed_state \<Rightarrow> bytes \<Rightarrow> queue_action \<Rightarrow> bool" where
  "settled view st r a \<longleftrightarrow> view (es_db st) (0x14 # r) = None \<and>
     (a \<noteq> QOrphan \<longrightarrow> view (es_db st) (0x04 # r) \<noteq> None \<and> in_vec st (q_id r))"

definition kept :: "('db \<Rightarrow> contents) \<Rightarrow> ('db, 's) embed_state \<Rightarrow> ('db, 's) embed_state \<Rightarrow> bool" where
  "kept view st st' \<longleftrightarrow>
     (\<forall>r. view (es_db st) (0x14 # r) = None \<longrightarrow> view (es_db st') (0x14 # r) = None) \<and>
     (\<forall>r. view (es_db st) (0x04 # r) \<noteq> None \<longrightarrow> view (es_db st') (0x04 # r) \<noteq> None) \<and>
     (\<forall>i. in_vec st i \<longrightarrow> in_vec st' i)"

lemma kept_settled: "kept view st st' \<Longrightarrow> settled view st r a \<Longrightarrow> settled view st' r a"
  unfolding kept_def settled_def by blast

lemma kept_trans: "kept view st st' \<Longrightarrow> kept view st' st'' \<Longrightarrow> kept view st st''"
  unfolding kept_def by blast

lemma qaction_stored: "qaction E m r v = QReuse w \<Longrightarrow> m (0x04 # r) \<noteq> None"
  by (cases "m (0x04 # r)") (auto simp: qaction_def split: option.splits if_splits)

definition pending :: "('db, 's) embed_env \<Rightarrow> contents \<Rightarrow> bytes set" where
  "pending E m = {r. \<exists>v. m (0x14 # r) = Some v \<and> qaction E m r v \<noteq> QSkip}"

lemma finite_pending:
  assumes "pebble (ee_P E) view" and "reliable (ee_P E)"
  shows "finite (pending E (view d))"
proof -
  obtain kvs where "pb_iter (ee_P E) d None None = Inr (kvs, None)"
    and "set kvs = {(k, v). in_bounds None None k \<and> view d k = Some v}"
    by (rule pebble.reliable_iterE [OF assms])
  then have "(#) 0x14 ` pending E (view d) \<subseteq> fst ` set kvs"
    by (force simp: pending_def in_bounds_def)
  then show ?thesis
    by (meson finite_imageD finite_set finite_imageI finite_subset inj_on_Cons1)
qed

lemma round_effect:
  fixes st :: "('db, 's) embed_state"
  assumes env: "pebble (ee_P E) view" "reliable (ee_P E)"
    and em: "well_embeds (ee_embed E)" "\<And>ts. length (ee_prefix E ts) = length ts"
    and br: "br_st (es_br st) = StClosed"
  obtains st' again where "process_round E now st = (st', again)" and "br_st (es_br st') = StClosed"
    and "kept view st st'"
    and "\<And>r v. view (es_db st) (0x14 # r) = Some v \<Longrightarrow>
          settled view st' r (qaction E (view (es_db st)) r v) \<and> qaction E (view (es_db st)) r v \<noteq> QSkip \<or>
          view (es_db st') (0x14 # r) = Some v \<and>
            qaction E (view (es_db st')) r v = qaction E (view (es_db st)) r v \<and>
            (again \<or> qaction E (view (es_db st)) r v = QSkip)"
    and "again \<Longrightarrow> \<exists>r \<in> pending E (view (es_db st)). view (es_db st') (0x14 # r) = None"
proof -
  let ?m = "view (es_db st)"
  obtain st1 batch where c: "collect_pass E st = (st1, batch)"
    and same: "es_br st1 = es_br st" "es_emb st1 = es_emb st"
    and other: "\<And>k. hd k \<noteq> 0x14 \<or> k = [] \<Longrightarrow> view (es_db st1) k = ?m k"
    and gone: "\<And>r. ?m (0x14 # r) = None \<Longrightarrow> view (es_db st1) (0x14 # r) = None"
    and vec: "\<And>i. in_vec st i \<Longrightarrow> in_vec st1 i"
    and items: "\<And>it. it \<in> set batch \<Longrightarrow> \<exists>v. ?m (0x14 # pc_rest it) = Some v \<and>
          qaction E ?m (pc_rest it) v = QEmbed (pc_text it) \<and> q_id (pc_rest it) = pc_id it"
    and recs: "\<And>r v. ?m (0x14 # r) = Some v \<Longrightarrow>
          view (es_db st1) (0x14 # r) = None \<and> drops (qaction E ?m r v) \<and>
            (\<forall>w. qaction E ?m r v = QReuse w \<longrightarrow> in_vec st1 (q_id r)) \<or>
          view (es_db st1) (0x14 # r) = Some v \<and>
            (maxBatch \<le> length batch \<or> qaction E ?m r v = QSkip \<or> (\<exists>it \<in> set batch. pc_rest it = r))"
    by (rule collect_pass_effect [OF env]) (rule that)
  have o3: "view (es_db st1) (0x03 # r) = ?m (0x03 # r)" and o4: "view (es_db st1) (0x04 # r) = ?m (0x04 # r)" for r
    using other by simp_all
  have drop: "settled view st1 r (qaction E ?m r v) \<and> qaction E ?m r v \<noteq> QSkip"
    if "view (es_db st1) (0x14 # r) = None" "drops (qaction E ?m r v)"
      "\<forall>w. qaction E ?m r v = QReuse w \<longrightarrow> in_vec st1 (q_id r)" for r v
    using that qaction_stored [of E ?m r v] by (cases "qaction E ?m r v") (auto simp: settled_def o4)
  have kept1: "kept view st st1"
    unfolding kept_def using gone o4 vec by simp
  show thesis
  proof (cases "batch = []")
    case True
    show thesis
    proof (rule that [of st1 False])
      show "process_round E now st = (st1, False)"
        by (simp add: process_round_def c True)
      fix r v assume h: "?m (0x14 # r) = Some v"
      have "qaction E (view (es_db st1)) r v = qaction E ?m r v"
        by (rule qaction_cong) (simp_all add: o3 o4)
      then show "settled view st1 r (qaction E ?m r v) \<and> qaction E ?m r v \<noteq> QSkip \<or>
          view (es_db st1) (0x14 # r) = Some v \<and> qaction E (view (es_db st1)) r v = qaction E ?m r v \<and>
            (False \<or> qaction E ?m r v = QSkip)"
        using recs [OF h] drop [of r v] by (auto simp: True maxBatch_def)
    qed (use same br kept1 in simp_all)
  next
    case False
    obtain ws s' where em1: "ee_embed E (ee_prefix E (map pc_text batch)) (es_emb st1) = (Inr (map Some ws), s')"
      and len: "length ws = length batch"
      using em unfolding well_embeds_def by (metis length_map)
    define st2 where "st2 = st1\<lparr>es_emb := s', es_br := br_ok (es_br st1)\<rparr>"
    define st3 where "st3 = scatter E batch (map Some ws) st2"
    define st4 where "st4 = st3\<lparr>es_changes := touched batch (map Some ws) @ es_changes st3\<rparr>"
    have run: "process_round E now st = (st4, True)"
      using br by (simp add: process_round_def c False em1 [unfolded same] br_allow_def same st4_def st3_def st2_def Let_def)
    note eff = scatter_effect [OF env len, where st = st2, folded st3_def]
    have st2: "es_db st2 = es_db st1" "in_vec st2 i \<longleftrightarrow> in_vec st1 i" for i
      by (simp_all add: st2_def in_vec_def)
    have st4: "es_db st4 = es_db st3" "in_vec st4 i \<longleftrightarrow> in_vec st3 i" for i
      by (simp_all add: st4_def in_vec_def)
    have kept2: "kept view st1 st4"
      unfolding kept_def st4 using eff(3,4,5) by (simp add: st2)
    show thesis
    proof (rule that [of st4 True])
      show "br_st (es_br st4) = StClosed"
        by (simp add: st4_def eff(1) st2_def br_ok_def)
      show "kept view st st4" by (rule kept_trans [OF kept1 kept2])
      fix r v assume h: "?m (0x14 # r) = Some v"
      show "settled view st4 r (qaction E ?m r v) \<and> qaction E ?m r v \<noteq> QSkip \<or>
          view (es_db st4) (0x14 # r) = Some v \<and> qaction E (view (es_db st4)) r v = qaction E ?m r v \<and>
            (True \<or> qaction E ?m r v = QSkip)"
      proof (cases "\<exists>it \<in> set batch. pc_rest it = r")
        case True
        then have "settled view st4 r (qaction E ?m r v)"
          unfolding settled_def st4 using eff(3,4,5) items by fastforce
        moreover have "qaction E ?m r v \<noteq> QSkip"
          using True items h by fastforce
        ultimately show ?thesis by simp
      next
        case F: False
        have "qaction E (view (es_db st4)) r v = qaction E ?m r v"
          by (rule qaction_cong) (use eff(6,7) F in \<open>simp_all add: st4 st2 o3 o4\<close>)
        moreover have "view (es_db st4) (0x14 # r) = view (es_db st1) (0x14 # r)"
          using eff(4) F by (simp add: st4 st2)
        ultimately show ?thesis
          using recs [OF h] drop [of r v] kept_settled [OF kept2] by auto
      qed
    next
      assume True
      obtain it where it: "it \<in> set batch" using False by (cases batch) auto
      then have "pc_rest it \<in> pending E ?m"
        using items by (fastforce simp: pending_def)
      moreover have "view (es_db st4) (0x14 # pc_rest it) = None"
        using eff(4) it by (auto simp: st4)
      ultimately show "\<exists>r \<in> pending E ?m. view (es_db st4) (0x14 # r) = None" by blast
    qed (rule run)
  qed
qed

text \<open>Each round deals with a pending record, or is the last one.\<close>

lemma rounds_drain:
  assumes "pebble (ee_P E) view" and "reliable (ee_P E)"
    and "well_embeds (ee_embed E)" and "\<And>ts. length (ee_prefix E ts) = length ts"
    and "card (pending E (view (es_db st))) < n" and "br_st (es_br st) = StClosed"
  shows "\<exists>st'. processBatch n E clk st = Some st' \<and> kept view st st' \<and>
      (\<forall>r v. view (es_db st) (0x14 # r) = Some v \<and> qaction E (view (es_db st)) r v \<noteq> QSkip \<longrightarrow>
         settled view st' r (qaction E (view (es_db st)) r v))"
  using assms(5,6)
proof (induction n arbitrary: clk st)
  case (Suc n)
  let ?m = "view (es_db st)"
  obtain st1 again where r1: "process_round E (clk 0) st = (st1, again)" "br_st (es_br st1) = StClosed"
    "kept view st st1"
    and recs: "\<And>r v. ?m (0x14 # r) = Some v \<Longrightarrow>
        settled view st1 r (qaction E ?m r v) \<and> qaction E ?m r v \<noteq> QSkip \<or>
        view (es_db st1) (0x14 # r) = Some v \<and> qaction E (view (es_db st1)) r v = qaction E ?m r v \<and>
          (again \<or> qaction E ?m r v = QSkip)"
    and prog: "again \<Longrightarrow> \<exists>r \<in> pending E ?m. view (es_db st1) (0x14 # r) = None"
    by (rule round_effect [OF assms(1-4) Suc.prems(2), of "clk 0"]) (rule that)
  show ?case
  proof (cases again)
    case False
    then show ?thesis using r1 recs by fastforce
  next
    case True
    have "pending E (view (es_db st1)) \<subseteq> pending E ?m"
    proof
      fix r assume "r \<in> pending E (view (es_db st1))"
      then obtain v where v: "view (es_db st1) (0x14 # r) = Some v" "qaction E (view (es_db st1)) r v \<noteq> QSkip"
        by (auto simp: pending_def)
      then obtain v0 where v0: "?m (0x14 # r) = Some v0"
        using r1(3) unfolding kept_def by (cases "?m (0x14 # r)") auto
      then show "r \<in> pending E ?m"
        using recs [OF v0] v by (auto simp: pending_def settled_def)
    qed
    moreover obtain r where r: "r \<in> pending E ?m" "view (es_db st1) (0x14 # r) = None"
      using prog True by blast
    then have "r \<notin> pending E (view (es_db st1))"
      by (simp add: pending_def)
    ultimately have "pending E (view (es_db st1)) \<subset> pending E ?m"
      using r(1) by blast
    then have "card (pending E (view (es_db st1))) < n"
      using psubset_card_mono [OF finite_pending [OF assms(1,2), of "es_db st"]] Suc.prems(1)
      by (meson less_Suc_eq_le order_less_le_trans)
    then obtain st' where st': "processBatch n E (\<lambda>i. clk (Suc i)) st1 = Some st'" "kept view st1 st'"
      and IH: "\<And>r v. view (es_db st1) (0x14 # r) = Some v \<Longrightarrow> qaction E (view (es_db st1)) r v \<noteq> QSkip \<Longrightarrow>
          settled view st' r (qaction E (view (es_db st1)) r v)"
      using Suc.IH [OF _ r1(2), of "\<lambda>i. clk (Suc i)"] by blast
    have "settled view st' r (qaction E ?m r v)"
      if "?m (0x14 # r) = Some v" "qaction E ?m r v \<noteq> QSkip" for r v
      using recs [OF that(1)] that(2) kept_settled [OF st'(2)] IH [of r v] by auto
    then show ?thesis
      using r1(1) True st' kept_trans [OF r1(3) st'(2)] by auto
  qed
qed simp

text \<open>C12: with a reachable embedder the queue drains. Each round either ends the pass or deals with a
  record, so after at most one round more than there are pending records \<open>processBatch\<close> returns;
  then every record that was pending is gone from the queue, and unless its chunk was gone too, its
  vector is stored and in the vector index.
\<close>

theorem embed_queue_drains:
  assumes "pebble (ee_P E) view" and "reliable (ee_P E)"
    and "well_embeds (ee_embed E)" and "\<And>ts. length (ee_prefix E ts) = length ts"
    and "br_st (es_br st) = StClosed"
  shows "\<exists>st'. processBatch (Suc (card (pending E (view (es_db st))))) E clk st = Some st' \<and>
    (\<forall>r v. view (es_db st) (0x14 # r) = Some v \<and> qaction E (view (es_db st)) r v \<noteq> QSkip \<longrightarrow>
       view (es_db st') (0x14 # r) = None \<and>
       (view (es_db st) (0x03 # r) \<noteq> None \<longrightarrow>
          view (es_db st') (0x04 # r) \<noteq> None \<and> in_vec st' (q_id r)))"
proof -
  from rounds_drain [OF assms(1-4) lessI assms(5), of clk]
  obtain st' where st': "processBatch (Suc (card (pending E (view (es_db st))))) E clk st = Some st'"
      "kept view st st'"
      "\<forall>r v. view (es_db st) (0x14 # r) = Some v \<and> qaction E (view (es_db st)) r v \<noteq> QSkip \<longrightarrow>
         settled view st' r (qaction E (view (es_db st)) r v)"
    by (elim exE conjE) (rule that)
  have "view (es_db st) (0x03 # r) \<noteq> None \<Longrightarrow> qaction E (view (es_db st)) r v \<noteq> QOrphan" for r v
    by (auto simp: qaction_def split: option.splits)
  then show ?thesis
    using st'(3) by (intro exI [of _ st'] conjI st'(1)) (simp add: settled_def, blast)
qed

text \<open>
  A small instance: one pending chunk, an embedder that answers with one-dimensional vectors, and
  codecs that read every record alike.
\<close>

definition demo_env :: "unit embedder \<Rightarrow> ((bytes \<times> bytes) list, unit) embed_env" where
  "demo_env em =
     \<lparr>ee_P = mem_pebble,
      ee_item = \<lparr>cd_marshal = (\<lambda>x. Some []),
        cd_unmarshal = (\<lambda>b. Some \<lparr>eq_Model = [], eq_Status = EmbedQueuePending, eq_Attempts = 0\<rparr>)\<rparr>,
      ee_chunk = \<lparr>cd_marshal = (\<lambda>x. Some []), cd_unmarshal = (\<lambda>b. Some blank_chunk)\<rparr>,
      ee_rec = \<lparr>cd_marshal = (\<lambda>x. Some []), cd_unmarshal = (\<lambda>b. None)\<rparr>,
      ee_embed = em, ee_model = ''m'', ee_conv = [], ee_prefix = (\<lambda>ts. ts)\<rparr>"

definition demo_queue :: "((bytes \<times> bytes) list, unit) embed_state" where
  "demo_queue =
     \<lparr>es_db = [(0x03 # replicate 8 1 @ [0x63], []), (0x14 # replicate 8 1 @ [0x63], [])],
      es_vec = NewVector, es_br = newBreaker, es_changes = [], es_emb = ()\<rparr>"

definition ones :: "unit embedder" where
  "ones ts s = (Inr (map (\<lambda>t. Some [1]) ts), s)"

lemma demo_queue_action:
  "map_of (es_db demo_queue) (0x14 # replicate 8 1 @ [0x63]) = Some []"
  "qaction (demo_env em) (map_of (es_db demo_queue)) (replicate 8 1 @ [0x63]) [] = QEmbed []"
  "map_of (es_db demo_queue) (0x03 # replicate 8 1 @ [0x63]) = Some []"
  by (simp_all add: demo_queue_def demo_env_def qaction_def EmbedQueuePending_def EmbedQueueFailed_def
      blank_chunk_def)

lemma demo_env_store: "pebble (ee_P (demo_env em)) map_of" "reliable (ee_P (demo_env em))"
    "ee_embed (demo_env em) = em" "length (ee_prefix (demo_env em) ts) = length ts"
    "br_st (es_br demo_queue) = StClosed"
  by (simp_all add: demo_env_def mem.pebble_axioms demo_queue_def newBreaker_def)

theorem embed_queue_drains_witness:
  "\<exists>st'. processBatch (Suc (card (pending (demo_env ones) (map_of (es_db demo_queue))))) (demo_env ones) (\<lambda>i. 0)
       demo_queue = Some st' \<and>
     map_of (es_db st') (0x14 # replicate 8 1 @ [0x63]) = None \<and>
     map_of (es_db st') (0x04 # replicate 8 1 @ [0x63]) \<noteq> None \<and> in_vec st' ''c''"
proof -
  have "\<exists>ws. map (\<lambda>t. Some [1 :: real]) ts = map Some ws \<and> length ws = length ts" for ts :: "string list"
    by (rule exI [of _ "map (\<lambda>t. [1]) ts"]) simp
  then have em: "well_embeds (ee_embed (demo_env ones))"
    unfolding demo_env_store well_embeds_def ones_def by simp
  have "bytes_str (drop 8 (replicate 8 1 @ [0x63])) = ''c''"
    by code_simp
  then show ?thesis
    using embed_queue_drains [OF demo_env_store(1,2) em demo_env_store(4,5), of "\<lambda>i. 0"]
      demo_queue_action(1,3) demo_queue_action(2) [of ones] by fastforce
qed

lemma scatter_nothing: "set vs \<subseteq> {None} \<Longrightarrow> scatter E its vs st = st"
  by (induction E its vs st rule: scatter.induct) auto

text \<open>C13: an embedder that answers without an error but without vectors (fewer vectors than texts, or
  none: the adapters do not check the count) keeps \<open>processBatch\<close> from ever returning while there
  is a chunk to embed: the breaker takes the answer as a success, nothing leaves the queue and the
  next round starts at once, with no pause.
\<close>

theorem empty_answers_livelock:
  assumes "pebble (ee_P E) view" and "reliable (ee_P E)"
    and "\<And>ts s. \<exists>vs s'. ee_embed E ts s = (Inr vs, s') \<and> set vs \<subseteq> {None}"
    and "br_st (es_br st) = StClosed"
    and "view (es_db st) (0x14 # r) = Some v" and "qaction E (view (es_db st)) r v = QEmbed t"
  shows "processBatch n E clk st = None"
  using assms(4-6)
proof (induction n arbitrary: clk st)
  case (Suc n)
  let ?m = "view (es_db st)"
  obtain st1 batch where c: "collect_pass E st = (st1, batch)"
    and same: "es_br st1 = es_br st" "es_emb st1 = es_emb st"
    and other: "\<And>k. hd k \<noteq> 0x14 \<or> k = [] \<Longrightarrow> view (es_db st1) k = ?m k"
    and recs: "\<And>r v. ?m (0x14 # r) = Some v \<Longrightarrow>
          view (es_db st1) (0x14 # r) = None \<and> drops (qaction E ?m r v) \<and>
            (\<forall>w. qaction E ?m r v = QReuse w \<longrightarrow> in_vec st1 (q_id r)) \<or>
          view (es_db st1) (0x14 # r) = Some v \<and>
            (maxBatch \<le> length batch \<or> qaction E ?m r v = QSkip \<or> (\<exists>it \<in> set batch. pc_rest it = r))"
    by (rule collect_pass_effect [OF assms(1,2)]) (rule that)
  have stays: "view (es_db st1) (0x14 # r) = Some v" and "batch \<noteq> []"
    using recs [OF Suc.prems(2)] Suc.prems(3) by (auto simp: maxBatch_def)
  obtain vs s' where em: "ee_embed E (ee_prefix E (map pc_text batch)) (es_emb st1) = (Inr vs, s')"
    and vs: "set vs \<subseteq> {None}"
    using assms(3) by blast
  define st2 where "st2 = st1\<lparr>es_emb := s', es_br := br_ok (es_br st1)\<rparr>"
  define st3 where "st3 = st2\<lparr>es_changes := touched batch vs @ es_changes st2\<rparr>"
  have "process_round E (clk 0) st = (st3, True)"
    using Suc.prems(1) \<open>batch \<noteq> []\<close>
    by (simp add: process_round_def c em [unfolded same] br_allow_def same st3_def st2_def Let_def
        scatter_nothing [OF vs])
  moreover have "processBatch n E (\<lambda>i. clk (Suc i)) st3 = None"
  proof (rule Suc.IH)
    show "br_st (es_br st3) = StClosed"
      by (simp add: st3_def st2_def br_ok_def)
    show "view (es_db st3) (0x14 # r) = Some v"
      using stays by (simp add: st3_def st2_def)
    have "qaction E (view (es_db st3)) r v = qaction E ?m r v"
      by (rule qaction_cong) (simp_all add: st3_def st2_def other)
    then show "qaction E (view (es_db st3)) r v = QEmbed t"
      using Suc.prems(3) by simp
  qed
  ultimately show ?case by simp
qed simp

theorem empty_answers_livelock_witness:
  "processBatch 1000 (demo_env (\<lambda>ts s. (Inr [], s))) (\<lambda>i. 0) demo_queue = None"
  by (rule empty_answers_livelock [OF demo_env_store(1,2) _ demo_env_store(5) demo_queue_action(1,2)])
    (simp add: demo_env_store)

end
