(* ===== verification/Redact.thy ===== *)
theory Redact
  imports Utf8 Go_Strings "HOL-Library.Multiset" "HOL-Library.Product_Lexorder"
begin

text \<open>
  Redaction of secrets before chunking, \<open>internal/redact/redact.go\<close> and \<open>patterns.go\<close>. Text is a
  byte string. Go's \<open>regexp\<close> is modelled by a backtracking matcher that lists the ends of a match
  in order of preference; the built-in patterns only use ASCII classes, so bytes and runes give the
  same matches. The parser of custom expressions is not modelled: a custom pattern is any \<open>rx\<close>.
  \<open>sort.Slice\<close> is not stable: it is a parameter.
\<close>

section \<open>Regular expressions\<close>

datatype rx =
    RLit string
  | RCls "(char \<times> char) list"
  | RAny
  | RBound
  | RSeq rx rx
  | RRep rx nat "nat option" bool

definition upper_digit :: "(char \<times> char) list" where
  "upper_digit = [(CHR ''0'', CHR ''9''), (CHR ''A'', CHR ''Z'')]"

definition alnum :: "(char \<times> char) list" where
  "alnum = (CHR ''a'', CHR ''z'') # upper_digit"

text \<open>Classes of \<open>\w\<close> and the characters a pattern adds to it.\<close>

definition word_class :: "string \<Rightarrow> (char \<times> char) list" where
  "word_class extra = (CHR ''_'', CHR ''_'') # alnum @ map (\<lambda>c. (c, c)) extra"

definition in_class :: "(char \<times> char) list \<Rightarrow> char \<Rightarrow> bool" where
  "in_class rs c \<longleftrightarrow> (\<exists>(lo, hi) \<in> set rs. lo \<le> c \<and> c \<le> hi)"

abbreviation is_word :: "char \<Rightarrow> bool" where
  "is_word \<equiv> in_class (word_class [])"

definition word_bound :: "string \<Rightarrow> nat \<Rightarrow> bool" where
  "word_bound s i \<longleftrightarrow> (0 < i \<and> is_word (s ! (i - 1))) \<noteq> (i < length s \<and> is_word (s ! i))"

text \<open>Repetition between \<open>lo\<close> and \<open>hi\<close> times; an optional round that matches nothing is not taken.\<close>

fun rep_ends :: "nat \<Rightarrow> (nat \<Rightarrow> nat list) \<Rightarrow> nat \<Rightarrow> nat option \<Rightarrow> bool \<Rightarrow> nat \<Rightarrow> nat list" where
  "rep_ends 0 step lo hi greedy i = (if lo = 0 then [i] else [])"
| "rep_ends (Suc n) step lo hi greedy i =
     (let more = (if hi = Some 0 then []
                  else concat (map (\<lambda>j. if j = i \<and> lo = 0 then []
                                        else rep_ends n step (lo - 1) (map_option (\<lambda>h. h - 1) hi) greedy j) (step i)));
          stop = (if lo = 0 then [i] else [])
      in if greedy then more @ stop else stop @ more)"

primrec rx_ends :: "rx \<Rightarrow> string \<Rightarrow> nat \<Rightarrow> nat list" where
  "rx_ends (RLit w) s i = (if take (length w) (drop i s) = w then [i + length w] else [])"
| "rx_ends (RCls rs) s i =
     (if i < length s \<and> in_class rs (s ! i) then [i + 1] else [])"
| "rx_ends RAny s i = (if i < length s then [i + 1] else [])"
| "rx_ends RBound s i = (if word_bound s i then [i] else [])"
| "rx_ends (RSeq r1 r2) s i = concat (map (rx_ends r2 s) (rx_ends r1 s i))"
| "rx_ends (RRep r lo hi greedy) s i = rep_ends (lo + (length s - i) + 1) (rx_ends r s) lo hi greedy i"

text \<open>The first match at or after \<open>i\<close>.\<close>

definition rx_find :: "rx \<Rightarrow> string \<Rightarrow> nat \<Rightarrow> (nat \<times> nat) option" where
  "rx_find r s i =
     (case filter (\<lambda>j. rx_ends r s j \<noteq> []) [i ..< length s + 1] of
        [] \<Rightarrow> None | j # js \<Rightarrow> Some (j, hd (rx_ends r s j)))"

text \<open>
  \<open>FindAll\<close>: successive matches, an empty one right after a match is dropped. The position grows
  in every round, so \<open>length s + 1\<close> rounds are enough.
\<close>

fun find_all :: "nat \<Rightarrow> rx \<Rightarrow> string \<Rightarrow> nat \<Rightarrow> nat option \<Rightarrow> (nat \<times> nat) list" where
  "find_all 0 r s i prev = []"
| "find_all (Suc n) r s i prev =
     (case rx_find r s i of
        None \<Rightarrow> []
      | Some (lo, hi) \<Rightarrow>
          (let empty_here = (hi = i);
               next_pos = (if empty_here then i + max 1 (snd (DecodeRune (drop i s))) else hi);
               rest = find_all n r s next_pos (Some hi)
           in if empty_here \<and> prev = Some lo then rest else (lo, hi) # rest))"

definition FindAll :: "rx \<Rightarrow> string \<Rightarrow> (nat \<times> nat) list" where
  "FindAll r s = find_all (length s + 1) r s 0 None"

section \<open>Patterns\<close>

record pattern =
  pt_Type :: string
  pt_re :: rx
  credit :: bool

definition digit_class :: rx where
  "digit_class = RCls [(CHR ''0'', CHR ''9'')]"

definition plus :: "rx \<Rightarrow> rx" where
  "plus r = RRep r 1 None True"

definition times_n :: "nat \<Rightarrow> rx \<Rightarrow> rx" where
  "times_n n r = RRep r n (Some n) True"

fun seq :: "rx list \<Rightarrow> rx" where
  "seq [] = RLit []"
| "seq [r] = r"
| "seq (r # rs) = RSeq r (seq rs)"

definition key_line :: "string \<Rightarrow> rx" where
  "key_line w =
     seq [RLit (''-----'' @ w @ '' ''), RRep (RCls [(CHR ''A'', CHR ''Z''), (CHR '' '', CHR '' '')]) 0 None True,
          RLit ''PRIVATE KEY-----'']"

definition builtinPatterns :: "pattern list" where
  "builtinPatterns =
     [\<lparr>pt_Type = ''aws-key'', pt_re = seq [RLit ''AKIA'', times_n 16 (RCls upper_digit)], credit = False\<rparr>,
      \<lparr>pt_Type = ''github-token'',
       pt_re = seq [RLit ''gh'', RCls (map (\<lambda>c. (c, c)) ''opsu''), RLit ''_'', times_n 36 (RCls alnum)],
       credit = False\<rparr>,
      \<lparr>pt_Type = ''private-key'', pt_re = seq [key_line ''BEGIN'', RRep RAny 0 None False, key_line ''END''],
       credit = False\<rparr>,
      \<lparr>pt_Type = ''ssn'',
       pt_re = seq [RBound, times_n 3 digit_class, RLit ''-'', times_n 2 digit_class, RLit ''-'',
                    times_n 4 digit_class, RBound],
       credit = False\<rparr>,
      \<lparr>pt_Type = ''email'',
       pt_re = seq [plus (RCls (word_class ''.+-'')), RLit ''@'', plus (RCls (word_class ''-'')), RLit ''.'',
                    plus (RCls (word_class ''.-''))],
       credit = False\<rparr>,
      \<lparr>pt_Type = ''credit-card'',
       pt_re = seq [RBound,
                    RRep (RSeq digit_class (RRep (RCls [(CHR '' '', CHR '' ''), (CHR ''-'', CHR ''-'')]) 0 (Some 1) True))
                      13 (Some 19) True,
                    RBound],
       credit = True\<rparr>]"

text \<open>The sort of the patterns by type: \<open>sort.Slice\<close> with the comparison \<open>lt\<close>.\<close>

definition slice_sorts :: "('a \<Rightarrow> 'a \<Rightarrow> bool) \<Rightarrow> ('a list \<Rightarrow> 'a list) \<Rightarrow> bool" where
  "slice_sorts lt f \<longleftrightarrow> (\<forall>xs. mset (f xs) = mset xs \<and> sorted_wrt (\<lambda>a b. \<not> lt b a) (f xs))"

definition DefaultPatterns :: "(pattern list \<Rightarrow> pattern list) \<Rightarrow> pattern list \<Rightarrow> pattern list" where
  "DefaultPatterns srt custom = srt (builtinPatterns @ custom)"

text \<open>
  The patterns file: a type, a tab and an expression per line. \<open>compile\<close> stands for
  \<open>regexp.Compile\<close>: the expression or the text of its error. The error of the file itself ends the load.
\<close>

fun indexByte :: "string \<Rightarrow> char \<Rightarrow> nat option" where
  "indexByte [] b = None"
| "indexByte (c # cs) b = (if c = b then Some 0 else map_option Suc (indexByte cs b))"

definition patternError :: "string \<Rightarrow> string \<Rightarrow> go_error" where
  "patternError typ err = Failed (''redact: bad pattern '' @ typ @ '': '' @ err)"

fun custom_lines :: "(string \<Rightarrow> string + rx) \<Rightarrow> string list \<Rightarrow> pattern list \<Rightarrow> pattern list gres" where
  "custom_lines compile [] out = Inr out"
| "custom_lines compile (line # ls) out =
     (if line = [] \<or> hd line = CHR ''#'' then custom_lines compile ls out
      else case indexByte line (CHR 0x09) of
             None \<Rightarrow> custom_lines compile ls out
           | Some tab \<Rightarrow>
               (case compile (drop (tab + 1) line) of
                  Inl err \<Rightarrow> Inl (patternError (take tab line) err)
                | Inr re \<Rightarrow>
                    custom_lines compile ls (out @ [\<lparr>pt_Type = take tab line, pt_re = re, credit = False\<rparr>])))"

definition LoadCustom :: "(string \<Rightarrow> string + rx) \<Rightarrow> (string \<Rightarrow> string list gres) \<Rightarrow> string \<Rightarrow> pattern list gres" where
  "LoadCustom compile read path =
     (if path = [] then Inr []
      else case read path of Inl e \<Rightarrow> Inl e | Inr ls \<Rightarrow> custom_lines compile ls [])"

section \<open>Redaction\<close>

text \<open>The checksum runs over the digits; \<open>i\<close> is the index of the next one.\<close>

definition digits_of :: "string \<Rightarrow> nat list" where
  "digits_of s = map (\<lambda>c. of_char c - 48) (filter (\<lambda>c. CHR ''0'' \<le> c \<and> c \<le> CHR ''9'') s)"

fun luhn_sum :: "nat \<Rightarrow> nat \<Rightarrow> nat list \<Rightarrow> nat" where
  "luhn_sum parity i [] = 0"
| "luhn_sum parity i (d # ds) =
     (let d' = (if i mod 2 = parity then (if 9 < d * 2 then d * 2 - 9 else d * 2) else d)
      in d' + luhn_sum parity (i + 1) ds)"

definition luhnValid :: "string \<Rightarrow> bool" where
  "luhnValid s =
     (let digits = digits_of s
      in if length digits < 13 \<or> 19 < length digits then False
         else luhn_sum (length digits mod 2) 0 digits mod 10 = 0)"

definition placeholder :: "string \<Rightarrow> string" where
  "placeholder typ = ''[REDACTED:'' @ typ @ '']''"

record edit =
  e_Pos :: int
  RemovedLen :: int
  InsertedLen :: int

record cand =
  cd_start :: nat
  cd_end :: nat
  cd_typ :: string

definition slice :: "string \<Rightarrow> nat \<Rightarrow> nat \<Rightarrow> string" where
  "slice s lo hi = take (hi - lo) (drop lo s)"

definition candidates :: "pattern list \<Rightarrow> string \<Rightarrow> cand list" where
  "candidates pats s =
     concat (map (\<lambda>p.
       map (\<lambda>(lo, hi). \<lparr>cd_start = lo, cd_end = hi, cd_typ = pt_Type p\<rparr>)
         (filter (\<lambda>(lo, hi). \<not> (credit p \<and> \<not> luhnValid (slice s lo hi))) (FindAll (pt_re p) s))) pats)"

definition cand_less :: "cand \<Rightarrow> cand \<Rightarrow> bool" where
  "cand_less a b =
     (if cd_start a \<noteq> cd_start b then cd_start a < cd_start b else cd_end a < cd_end b)"

definition edit_of :: "cand \<Rightarrow> edit" where
  "edit_of c =
     \<lparr>e_Pos = int (cd_start c), RemovedLen = int (cd_end c) - int (cd_start c),
      InsertedLen = int (length (placeholder (cd_typ c)))\<rparr>"

text \<open>The pass over the sorted matches: the text written, the counts, the edits and the end of the last match.\<close>

fun redact_loop :: "string \<Rightarrow> cand list \<Rightarrow> string \<Rightarrow> string list \<Rightarrow> edit list \<Rightarrow> nat \<Rightarrow> string \<times> string list \<times> edit list" where
  "redact_loop s [] b typs edits prev = (b @ drop prev s, typs, edits)"
| "redact_loop s (c # cs) b typs edits prev =
     (if cd_start c < prev then redact_loop s cs b typs edits prev
      else redact_loop s cs (b @ slice s prev (cd_start c) @ placeholder (cd_typ c)) (typs @ [cd_typ c])
             (edits @ [edit_of c]) (cd_end c))"

text \<open>The counts of a run, sorted by type: the types are the keys of the map.\<close>

record finding =
  f_Type :: string
  f_Count :: nat

definition toFindings :: "string list \<Rightarrow> finding list" where
  "toFindings typs = map (\<lambda>t. \<lparr>f_Type = t, f_Count = count_list typs t\<rparr>) (sort (remdups typs))"

definition ApplyWithEdits ::
    "(cand list \<Rightarrow> cand list) \<Rightarrow> pattern list \<Rightarrow> string \<Rightarrow> string \<times> finding list \<times> edit list" where
  "ApplyWithEdits srt pats s =
     (if pats = [] then (s, [], [])
      else let (red, typs, edits) = redact_loop s (srt (candidates pats s)) [] [] [] 0
           in (red, toFindings typs, edits))"

definition Apply :: "(cand list \<Rightarrow> cand list) \<Rightarrow> pattern list \<Rightarrow> string \<Rightarrow> string \<times> finding list" where
  "Apply srt pats s = (let (red, fs, edits) = ApplyWithEdits srt pats s in (red, fs))"

definition RenderFindings :: "finding list \<Rightarrow> string" where
  "RenderFindings fs = Join (map (\<lambda>f. f_Type f @ ''='' @ Itoa (int (f_Count f))) fs) '', ''"

fun TranslateOffset :: "int \<Rightarrow> edit list \<Rightarrow> int" where
  "TranslateOffset off [] = off"
| "TranslateOffset off (e # es) =
     (if e_Pos e < off then TranslateOffset (off + (InsertedLen e - RemovedLen e)) es else off)"

section \<open>Matches lie in the text\<close>

lemma rep_ends_bounds:
  assumes "\<And>i j. i \<le> n \<Longrightarrow> j \<in> set (step i) \<Longrightarrow> i \<le> j \<and> j \<le> n" and "i \<le> n"
    and "j \<in> set (rep_ends k step lo hi g i)"
  shows "i \<le> j \<and> j \<le> n"
  using assms(2,3)
proof (induction k arbitrary: lo hi i)
  case (Suc k)
  have "j = i \<or> (\<exists>m \<in> set (step i). j \<in> set (rep_ends k step (lo - 1) (map_option (\<lambda>h. h - 1) hi) g m))"
    using Suc.prems(2) by (auto simp: Let_def split: if_splits)
  then show ?case
  proof
    assume "\<exists>m \<in> set (step i). j \<in> set (rep_ends k step (lo - 1) (map_option (\<lambda>h. h - 1) hi) g m)"
    then obtain m where "m \<in> set (step i)" and "j \<in> set (rep_ends k step (lo - 1) (map_option (\<lambda>h. h - 1) hi) g m)"
      by blast
    then show ?case
      using Suc.IH [of m] assms(1) [OF Suc.prems(1)] by fastforce
  qed (use Suc.prems(1) in simp)
qed (simp split: if_splits)

lemma rx_ends_bounds: "i \<le> length s \<Longrightarrow> j \<in> set (rx_ends r s i) \<Longrightarrow> i \<le> j \<and> j \<le> length s"
proof (induction r arbitrary: i j)
  case (RLit w)
  then have "length (take (length w) (drop i s)) = length w"
    by (metis empty_iff empty_set rx_ends.simps(1))
  then show ?case using RLit by (auto split: if_splits)
next
  case (RSeq r1 r2)
  from RSeq.prems(2) obtain m where m: "m \<in> set (rx_ends r1 s i)" "j \<in> set (rx_ends r2 s m)"
    by auto
  have "i \<le> m \<and> m \<le> length s" by (rule RSeq.IH(1) [OF RSeq.prems(1) m(1)])
  moreover from this have "m \<le> j \<and> j \<le> length s" by (intro RSeq.IH(2) [OF _ m(2)]) simp
  ultimately show ?case by simp
next
  case (RRep r lo hi g)
  show ?case
    by (rule rep_ends_bounds [OF RRep.IH RRep.prems(1)]) (use RRep.prems(2) in \<open>simp_all del: rep_ends.simps\<close>)
qed (auto split: if_splits)

lemma rx_find_bounds: "rx_find r s i = Some (lo, hi) \<Longrightarrow> i \<le> lo \<and> lo \<le> hi \<and> hi \<le> length s"
proof -
  assume h: "rx_find r s i = Some (lo, hi)"
  then obtain js where js: "filter (\<lambda>j. rx_ends r s j \<noteq> []) [i ..< length s + 1] = lo # js"
      and hi: "hi = hd (rx_ends r s lo)"
    by (auto simp: rx_find_def split: list.splits)
  have "lo \<in> set (filter (\<lambda>j. rx_ends r s j \<noteq> []) [i ..< length s + 1])"
    by (simp only: js) simp
  then show ?thesis
    using rx_ends_bounds [of lo s hi r] hi by auto
qed

lemma find_all_bounds: "(lo, hi) \<in> set (find_all n r s i prev) \<Longrightarrow> lo \<le> hi \<and> hi \<le> length s"
proof (induction n arbitrary: i prev)
  case (Suc n)
  then show ?case
    by (cases "rx_find r s i") (auto simp: Let_def dest: rx_find_bounds split: if_splits prod.splits)
qed simp

lemma candidate_bounds: "c \<in> set (candidates pats s) \<Longrightarrow> cd_start c \<le> cd_end c \<and> cd_end c \<le> length s"
  by (auto simp: candidates_def FindAll_def simp del: find_all.simps dest: find_all_bounds)

lemma edit_of_simps [simp]:
  "e_Pos (edit_of c) = int (cd_start c)" "RemovedLen (edit_of c) = int (cd_end c) - int (cd_start c)"
  "InsertedLen (edit_of c) = int (length (placeholder (cd_typ c)))"
  by (simp_all add: edit_of_def)

lemma length_slice: "hi \<le> length s \<Longrightarrow> length (slice s lo hi) = hi - lo"
  by (simp add: slice_def)

text \<open>The rounds of \<open>FindAll\<close> are enough: more of them find nothing else.\<close>

lemma find_all_enough: "length s + 1 \<le> n + i \<Longrightarrow> find_all (n + k) r s i prev = find_all n r s i prev"
proof (induction n arbitrary: i prev)
  case 0
  then have "rx_find r s i = None"
    by (simp add: rx_find_def)
  then show ?case
    by (cases k) simp_all
next
  case (Suc n)
  show ?case
  proof (cases "rx_find r s i")
    case (Some m)
    then obtain lo hi where m: "rx_find r s i = Some (lo, hi)" "i \<le> hi"
      using rx_find_bounds [of r s i] by (cases m) fastforce
    have "find_all (n + k) r s j prev' = find_all n r s j prev'" if "i < j" for j prev'
      using Suc.prems that by (intro Suc.IH) simp
    then show ?thesis
      using m by (simp add: Let_def)
  qed simp
qed

section \<open>What a pass does\<close>

text \<open>The matches a pass replaces, and the text it writes from \<open>prev\<close> on.\<close>

fun accepted :: "cand list \<Rightarrow> nat \<Rightarrow> cand list" where
  "accepted [] prev = []"
| "accepted (c # cs) prev = (if cd_start c < prev then accepted cs prev else c # accepted cs (cd_end c))"

fun render :: "string \<Rightarrow> nat \<Rightarrow> cand list \<Rightarrow> string" where
  "render s prev [] = drop prev s"
| "render s prev (c # cs) = slice s prev (cd_start c) @ placeholder (cd_typ c) @ render s (cd_end c) cs"

lemma redact_loop_eq:
  "redact_loop s cs b typs edits prev =
     (b @ render s prev (accepted cs prev), typs @ map cd_typ (accepted cs prev), edits @ map edit_of (accepted cs prev))"
  by (induction s cs b typs edits prev rule: redact_loop.induct) auto

lemma ApplyWithEdits_eq:
  assumes "pats \<noteq> []"
  shows "ApplyWithEdits srt pats s =
    (let as = accepted (srt (candidates pats s)) 0 in (render s 0 as, toFindings (map cd_typ as), map edit_of as))"
  using assms by (simp add: ApplyWithEdits_def redact_loop_eq Let_def)

text \<open>Replaced matches follow one another and are not empty.\<close>

fun chain :: "nat \<Rightarrow> nat \<Rightarrow> cand list \<Rightarrow> bool" where
  "chain n prev [] = (prev \<le> n)"
| "chain n prev (c # cs) = (prev \<le> cd_start c \<and> cd_start c < cd_end c \<and> chain n (cd_end c) cs)"

lemma chain_le: "chain n prev cs \<Longrightarrow> prev \<le> n"
  by (induction cs arbitrary: prev) force+

lemma chain_accepted:
  "prev \<le> n \<Longrightarrow> \<forall>c \<in> set cs. cd_start c < cd_end c \<and> cd_end c \<le> n \<Longrightarrow> chain n prev (accepted cs prev)"
  by (induction cs arbitrary: prev) auto

text \<open>The position of an offset of the text in the redacted text, by the edits that begin before it.\<close>

definition shifted :: "int \<Rightarrow> edit list \<Rightarrow> int" where
  "shifted off es = off + sum_list (map (\<lambda>e. InsertedLen e - RemovedLen e) (filter (\<lambda>e. e_Pos e < off) es))"

definition covered :: "int \<Rightarrow> edit \<Rightarrow> bool" where
  "covered i e \<longleftrightarrow> e_Pos e \<le> i \<and> i < e_Pos e + RemovedLen e"

lemma shifted_Cons:
  "shifted off (e # es) = (if e_Pos e < off then InsertedLen e - RemovedLen e else 0) + shifted off es"
  by (simp add: shifted_def)

lemma shifted_chain_none:
  "chain n prev cs \<Longrightarrow> i \<le> prev \<Longrightarrow> shifted (int i) (map edit_of cs) = int i"
proof (induction cs arbitrary: prev)
  case (Cons c cs)
  then have "shifted (int i) (map edit_of cs) = int i"
    by (intro Cons.IH [of "cd_end c"]) auto
  then show ?case
    using Cons.prems by (simp add: shifted_Cons)
qed (simp add: shifted_def)

lemma render_kept:
  assumes "chain (length s) prev cs" and "prev \<le> i" and "i < length s"
    and "\<forall>c \<in> set cs. \<not> covered (int i) (edit_of c)"
  shows "int prev \<le> shifted (int i) (map edit_of cs) \<and>
    nat (shifted (int i) (map edit_of cs) - int prev) < length (render s prev cs) \<and>
    render s prev cs ! nat (shifted (int i) (map edit_of cs) - int prev) = s ! i"
  using assms
proof (induction cs arbitrary: prev)
  case Nil
  then show ?case by (auto simp: shifted_def nat_diff_distrib)
next
  case (Cons c cs)
  let ?sh = "shifted (int i) (map edit_of cs)"
  have len: "cd_end c \<le> length s"
    using Cons.prems(1) chain_le by auto
  show ?case
  proof (cases "i < cd_start c")
    case True
    have "?sh = int i"
      by (rule shifted_chain_none [of "length s" "cd_end c"]) (use Cons.prems(1) True in auto)
    then have "shifted (int i) (map edit_of (c # cs)) = int i"
      using True by (simp add: shifted_Cons)
    moreover have "i - prev < length (slice s prev (cd_start c))" "slice s prev (cd_start c) ! (i - prev) = s ! i"
      using True Cons.prems(1,2) len by (auto simp: slice_def)
    ultimately show ?thesis
      using Cons.prems(2) by (simp add: nth_append nat_diff_distrib)
  next
    case False
    then have i: "cd_end c \<le> i"
      using Cons.prems(4) by (auto simp: covered_def)
    have IH: "int (cd_end c) \<le> ?sh" "nat (?sh - int (cd_end c)) < length (render s (cd_end c) cs)"
        "render s (cd_end c) cs ! nat (?sh - int (cd_end c)) = s ! i"
      using Cons.IH [of "cd_end c"] Cons.prems i by auto
    let ?pre = "slice s prev (cd_start c) @ placeholder (cd_typ c)"
    have "length ?pre = (cd_start c - prev) + length (placeholder (cd_typ c))"
      using Cons.prems(1) len by (simp add: length_slice)
    moreover have "shifted (int i) (map edit_of (c # cs)) =
        int (length (placeholder (cd_typ c))) - (int (cd_end c) - int (cd_start c)) + ?sh"
      using Cons.prems(1) i by (simp add: shifted_Cons)
    ultimately have "nat (shifted (int i) (map edit_of (c # cs)) - int prev) = length ?pre + nat (?sh - int (cd_end c))"
        "int prev \<le> shifted (int i) (map edit_of (c # cs))"
      using Cons.prems(1) IH(1) by auto
    then show ?thesis
      using IH(2,3) by (simp add: nth_append)
  qed
qed

text \<open>The placeholder of a replaced match stands where the match began, shifted by the edits before it.\<close>

lemma chain_start: "chain n prev cs \<Longrightarrow> c \<in> set cs \<Longrightarrow> prev \<le> cd_start c"
  by (induction cs arbitrary: prev) force+

lemma slice_append: "slice (xs @ ys) (length xs + k) (length xs + k + n) = slice ys k (k + n)"
  by (simp add: slice_def)

lemma render_replaced:
  assumes "chain (length s) prev cs" and "c \<in> set cs"
  shows "int prev \<le> shifted (int (cd_start c)) (map edit_of cs) \<and>
    slice (render s prev cs) (nat (shifted (int (cd_start c)) (map edit_of cs) - int prev))
      (nat (shifted (int (cd_start c)) (map edit_of cs) - int prev) + length (placeholder (cd_typ c))) =
    placeholder (cd_typ c)"
  using assms
proof (induction cs arbitrary: prev)
  case (Cons a cs)
  let ?sh = "shifted (int (cd_start c)) (map edit_of cs)"
  have a: "prev \<le> cd_start a" "cd_start a < cd_end a" "chain (length s) (cd_end a) cs"
    using Cons.prems(1) by auto
  have len: "length (slice s prev (cd_start a)) = cd_start a - prev"
    using a chain_le [OF a(3)] by (simp add: length_slice)
  show ?case
  proof (cases "c = a")
    case True
    have "?sh = int (cd_start a)"
      using shifted_chain_none [OF a(3), of "cd_start a"] a(2) True by simp
    then have "shifted (int (cd_start c)) (map edit_of (a # cs)) = int (cd_start a)"
      using True by (simp add: shifted_Cons)
    then show ?thesis
      using a(1) len True by (simp add: slice_def nat_diff_distrib)
  next
    case False
    then have c: "c \<in> set cs"
      using Cons.prems(2) by simp
    note IH = Cons.IH [OF a(3) c]
    have "cd_end a \<le> cd_start c"
      using chain_start [OF a(3) c] .
    then have "shifted (int (cd_start c)) (map edit_of (a # cs)) =
        int (length (placeholder (cd_typ a))) - (int (cd_end a) - int (cd_start a)) + ?sh"
      using a(2) by (simp add: shifted_Cons)
    moreover define pre where "pre = slice s prev (cd_start a) @ placeholder (cd_typ a)"
    moreover define k where "k = nat (?sh - int (cd_end a))"
    ultimately have pos: "nat (shifted (int (cd_start c)) (map edit_of (a # cs)) - int prev) = length pre + k"
      "int prev \<le> shifted (int (cd_start c)) (map edit_of (a # cs))"
      using a IH len by auto
    have "render s prev (a # cs) = pre @ render s (cd_end a) cs"
      by (simp add: pre_def)
    then show ?thesis
      using IH pos(2) unfolding pos(1) by (simp only: slice_append k_def simp_thms)
  qed
qed simp

lemma set_accepted: "set (accepted cs prev) \<subseteq> set cs"
  by (induction cs arbitrary: prev) auto

lemma accepted_covers:
  "sorted_wrt (\<lambda>a b. \<not> cand_less b a) cs \<Longrightarrow> c \<in> set cs \<Longrightarrow> cd_start c < cd_end c \<Longrightarrow>
   prev \<le> cd_start c \<Longrightarrow> \<exists>a \<in> set (accepted cs prev). cd_start a \<le> cd_start c \<and> cd_start c < cd_end a"
proof (induction cs arbitrary: prev)
  case (Cons a cs)
  show ?case
  proof (cases "c = a")
    case True
    then show ?thesis using Cons.prems by auto
  next
    case False
    then have "cd_start a \<le> cd_start c"
      using Cons.prems(1,2) by (auto simp: cand_less_def split: if_splits)
    then show ?thesis
      using Cons.IH [of prev] Cons.IH [of "cd_end a"] Cons.prems False
      by (cases "cd_start c < cd_end a") (auto simp: not_less)
  qed
qed simp

section \<open>Properties\<close>

text \<open>
  What an edit says: a match \<open>c\<close> is one of the edits, and the placeholder of its type stands in the
  redacted text at the start of the match, shifted by the edits that begin before it.
\<close>

definition replaced_by :: "edit list \<Rightarrow> string \<Rightarrow> cand \<Rightarrow> bool" where
  "replaced_by edits red c \<longleftrightarrow> edit_of c \<in> set edits \<and> 0 \<le> shifted (int (cd_start c)) edits \<and>
     slice red (nat (shifted (int (cd_start c)) edits))
       (nat (shifted (int (cd_start c)) edits) + length (placeholder (cd_typ c))) = placeholder (cd_typ c)"

text \<open>C18: redaction is exact. For patterns that do not match the empty string, the edits are the
  ranges of some of the matches (\<open>as\<close>; a credit card counts with a valid checksum), non-empty, in
  order and disjoint (\<open>chain\<close>), and the redacted text is the text with each of these ranges
  replaced by \<open>[REDACTED:type]\<close> (\<open>render\<close>); the findings count them by type. Every match begins
  inside a replaced range, each placeholder stands at the start of its match shifted by the edits
  before it, and so does every byte outside the replaced ranges.\<close>

theorem redaction_edits_exact:
  assumes "slice_sorts cand_less srt" and "pats \<noteq> []"
    and "\<forall>p \<in> set pats. \<forall>(lo, hi) \<in> set (FindAll (pt_re p) s). lo < hi"
    and "ApplyWithEdits srt pats s = (red, fs, edits)"
  shows "(\<exists>as. edits = map edit_of as \<and> set as \<subseteq> set (candidates pats s) \<and> chain (length s) 0 as \<and>
      red = render s 0 as \<and> fs = toFindings (map cd_typ as) \<and> (\<forall>c \<in> set as. replaced_by edits red c)) \<and>
    (\<forall>c \<in> set (candidates pats s). \<exists>e \<in> set edits. covered (int (cd_start c)) e) \<and>
    (\<forall>i < length s. (\<forall>e \<in> set edits. \<not> covered (int i) e) \<longrightarrow>
       0 \<le> shifted (int i) edits \<and> nat (shifted (int i) edits) < length red \<and>
       red ! nat (shifted (int i) edits) = s ! i)"
proof -
  let ?as = "accepted (srt (candidates pats s)) 0"
  have srt: "set (srt cs) = set cs" "sorted_wrt (\<lambda>a b. \<not> cand_less b a) (srt cs)" for cs
    using assms(1) unfolding slice_sorts_def by (metis set_mset_mset)+
  have red: "red = render s 0 ?as" and edits: "edits = map edit_of ?as"
    using assms(4) by (simp_all add: ApplyWithEdits_eq [OF assms(2)] Let_def)
  have proper: "cd_start c < cd_end c \<and> cd_end c \<le> length s" if "c \<in> set (candidates pats s)" for c
  proof
    show "cd_start c < cd_end c"
      using that assms(3) unfolding candidates_def by fastforce
  qed (use candidate_bounds [OF that] in simp)
  have chain: "chain (length s) 0 ?as"
    by (rule chain_accepted) (use proper srt in auto)
  then have kept: "0 \<le> shifted (int i) edits \<and> nat (shifted (int i) edits) < length red \<and>
      red ! nat (shifted (int i) edits) = s ! i"
    if "i < length s" "\<forall>e \<in> set edits. \<not> covered (int i) e" for i
    using render_kept [of s 0 ?as i] that by (simp add: red edits)
  have "\<exists>e \<in> set edits. covered (int (cd_start c)) e" if c: "c \<in> set (candidates pats s)" for c
    using accepted_covers [OF srt(2), of c _ 0] c proper [OF c] srt(1) by (auto simp: edits covered_def)
  moreover have "replaced_by edits red c" if "c \<in> set ?as" for c
    using render_replaced [OF chain that] that by (auto simp: replaced_by_def red edits)
  moreover have "set ?as \<subseteq> set (candidates pats s)" "fs = toFindings (map cd_typ ?as)"
    using set_accepted srt(1) assms(4) by (fastforce, simp add: ApplyWithEdits_eq [OF assms(2)] Let_def)
  ultimately show ?thesis
    using kept chain red edits by blast
qed

definition sort_cands :: "cand list \<Rightarrow> cand list" where
  "sort_cands = sort_key (\<lambda>c. (cd_start c, cd_end c))"

lemma sort_cands: "slice_sorts cand_less sort_cands"
proof -
  have "(\<not> cand_less b a) = ((cd_start a, cd_end a) \<le> (cd_start b, cd_end b))" for a b :: cand
    by (auto simp: cand_less_def)
  then show ?thesis
    using sorted_sort_key [of "\<lambda>c :: cand. (cd_start c, cd_end c)"]
    by (simp add: slice_sorts_def sort_cands_def sorted_map)
qed

definition demo_email :: "pattern list" where
  "demo_email = filter (\<lambda>p. pt_Type p = ''email'') builtinPatterns"

lemma demo_email_run:
  "demo_email \<noteq> []" "list_all (\<lambda>p. FindAll (pt_re p) ''to a@b.cc x'' = [(3, 9)]) demo_email"
  "ApplyWithEdits sort_cands demo_email ''to a@b.cc x'' =
     (''to [REDACTED:email] x'', [\<lparr>f_Type = ''email'', f_Count = 1\<rparr>],
      [\<lparr>e_Pos = 3, RemovedLen = 6, InsertedLen = 16\<rparr>])"
  by code_simp+

theorem redaction_edits_exact_witness:
  "''to [REDACTED:email] x'' ! nat (shifted 10 [\<lparr>e_Pos = 3, RemovedLen = 6, InsertedLen = 16\<rparr>]) =
     ''to a@b.cc x'' ! 10"
proof -
  have pos: "\<forall>p \<in> set demo_email. \<forall>(lo, hi) \<in> set (FindAll (pt_re p) ''to a@b.cc x''). lo < hi"
    using demo_email_run(2) by (auto simp: list_all_iff)
  have "(10 :: nat) < length ''to a@b.cc x''"
    by simp
  then show ?thesis
    using redaction_edits_exact [OF sort_cands demo_email_run(1) pos demo_email_run(3)]
    by (auto simp: covered_def simp del: nth_Cons_numeral dest: spec [of _ "10 :: nat"])
qed

text \<open>\<open>TranslateOffset\<close> compares the offset already shifted by the earlier edits with positions of
  the original text. When the first edit shortens the text, an edit that lies before the offset can
  lie behind the shifted one: it is not applied, and the result is off by its length difference.\<close>

theorem translate_offset_loses_edits:
  assumes "e_Pos e1 < off" and "e_Pos e2 < off"
    and "off + (InsertedLen e1 - RemovedLen e1) \<le> e_Pos e2"
  shows "TranslateOffset off (e1 # e2 # es) = shifted off [e1, e2] - (InsertedLen e2 - RemovedLen e2)"
  using assms by (simp add: shifted_def)

text \<open>
  A private key of 63 bytes at offset 4, an e-mail address of 15 bytes at 70, a heading at 100: it
  stands at 60 in the redacted text, and is looked for at 59.
\<close>

theorem translate_offset_loses_edits_witness:
  "let edits = [\<lparr>e_Pos = 4, RemovedLen = 63, InsertedLen = 22\<rparr>, \<lparr>e_Pos = 70, RemovedLen = 15, InsertedLen = 16\<rparr>]
   in shifted 100 edits = 60 \<and> TranslateOffset 100 edits = 59"
  using translate_offset_loses_edits
    [of "\<lparr>e_Pos = 4, RemovedLen = 63, InsertedLen = 22\<rparr>" 100 "\<lparr>e_Pos = 70, RemovedLen = 15, InsertedLen = 16\<rparr>" "[]"]
  by (simp add: shifted_def)

end
