(* ===== verification/Sections.thy ===== *)
theory Sections
  imports Model Redact
begin

text \<open>
  The pure parts of ingestion: the heading breadcrumb and the wikilinks of a chunk
  (\<open>internal/pipeline/section.go\<close>), and the difference of two chunk sets by content
  (\<open>internal/pipeline/delta.go\<close>, with the event types of \<open>internal/events/bus.go\<close>).
\<close>

section \<open>Breadcrumbs\<close>

record mark =
  mk_off :: int
  mk_level :: int
  mk_text :: string

definition marks_of :: "heading_span list \<Rightarrow> edit list \<Rightarrow> mark list" where
  "marks_of spans edits =
     map (\<lambda>sp. \<lparr>mk_off = TranslateOffset (hs_Offset sp) edits, mk_level = hs_Level sp, mk_text = hs_Text sp\<rparr>) spans"

text \<open>The stack has its top first: \<open>pop_deeper\<close> is the inner loop, \<open>replay\<close> the outer one.\<close>

fun pop_deeper :: "int \<Rightarrow> mark list \<Rightarrow> mark list" where
  "pop_deeper level [] = []"
| "pop_deeper level (m # stack) = (if level \<le> mk_level m then pop_deeper level stack else m # stack)"

fun replay :: "int \<Rightarrow> mark list \<Rightarrow> mark list \<Rightarrow> mark list" where
  "replay startIdx [] stack = stack"
| "replay startIdx (m # ms) stack =
     (if startIdx < mk_off m then stack
      else replay startIdx ms (m # pop_deeper (mk_level m) stack))"

definition resolveBreadcrumb ::
    "(mark list \<Rightarrow> mark list) \<Rightarrow> heading_span list \<Rightarrow> int \<Rightarrow> edit list \<Rightarrow> string list \<times> int" where
  "resolveBreadcrumb srt spans startIdx edits =
     (if spans = [] then ([], 0)
      else case replay startIdx (srt (marks_of spans edits)) [] of
             [] \<Rightarrow> ([], 0)
           | leaf # anc \<Rightarrow> (map mk_text (rev (leaf # anc)), mk_level leaf))"

fun wikilink_loop :: "wikilink_span list \<Rightarrow> int \<Rightarrow> int \<Rightarrow> edit list \<Rightarrow> string set \<Rightarrow> string list \<Rightarrow> string list" where
  "wikilink_loop [] startIdx endIdx edits seen out = out"
| "wikilink_loop (sp # sps) startIdx endIdx edits seen out =
     (let off = TranslateOffset (wl_Offset sp) edits
      in if off < startIdx \<or> endIdx \<le> off \<or> wl_Target sp \<in> seen
         then wikilink_loop sps startIdx endIdx edits seen out
         else wikilink_loop sps startIdx endIdx edits (insert (wl_Target sp) seen) (out @ [wl_Target sp]))"

definition resolveWikilinks :: "wikilink_span list \<Rightarrow> int \<Rightarrow> int \<Rightarrow> edit list \<Rightarrow> string list" where
  "resolveWikilinks wspans startIdx endIdx edits =
     (if wspans = [] then [] else wikilink_loop wspans startIdx endIdx edits {} [])"

section \<open>Differences of chunk sets\<close>

datatype event_type = EventIngested | EventEmbedded | EventReingested | EventDeleted
datatype chunk_change = ChangeAdded | ChangeRemoved | ChangeUnchanged

record chunk_delta =
  cdl_Change :: chunk_change
  NewChunkID :: string
  PrevChunkID :: string

text \<open>
  A bucket per content hash, in the order of first occurrence: Go visits its map in some order, of
  which this is one. A chunk without a hash gets a bucket of its own.
\<close>

type_synonym buckets = "(string \<times> string list) list"

definition hash_key :: "chunk \<Rightarrow> string" where
  "hash_key c = (if c_ContentHash c = [] then CHR 0x00 # c_ID c else c_ContentHash c)"

fun add_bucket :: "string \<Rightarrow> string \<Rightarrow> buckets \<Rightarrow> buckets" where
  "add_bucket h cid [] = [(h, [cid])]"
| "add_bucket h cid ((h', ids) # bs) = (if h = h' then (h', ids @ [cid]) # bs else (h', ids) # add_bucket h cid bs)"

definition bucketByHash :: "chunk list \<Rightarrow> buckets" where
  "bucketByHash chunks = fold (\<lambda>c bs. add_bucket (hash_key c) (c_ID c) bs) chunks []"

definition bucket :: "buckets \<Rightarrow> string \<Rightarrow> string list" where
  "bucket bs h = (case map_of bs h of Some ids \<Rightarrow> ids | None \<Rightarrow> [])"

definition pair_bucket :: "string list \<Rightarrow> string list \<Rightarrow> chunk_delta list" where
  "pair_bucket ob nb =
     (let u = min (length ob) (length nb)
      in map (\<lambda>(prev_id, new_id). \<lparr>cdl_Change = ChangeUnchanged, NewChunkID = new_id, PrevChunkID = prev_id\<rparr>)
           (zip (take u ob) (take u nb)) @
         map (\<lambda>i. \<lparr>cdl_Change = ChangeRemoved, NewChunkID = [], PrevChunkID = i\<rparr>) (drop u ob))"

text \<open>The deltas and the pairs put into the map \<open>remap\<close>, in the order of the writes.\<close>

fun diff_loop :: "buckets \<Rightarrow> buckets \<Rightarrow> chunk_delta list \<times> (string \<times> string) list \<Rightarrow>
    buckets \<times> chunk_delta list \<times> (string \<times> string) list" where
  "diff_loop [] newBuckets (deltas, remap) = (newBuckets, deltas, remap)"
| "diff_loop ((h, ob) # obs) newBuckets (deltas, remap) =
     (let nb = bucket newBuckets h
      in diff_loop obs (filter (\<lambda>b. fst b \<noteq> h) newBuckets)
           (deltas @ pair_bucket ob nb, remap @ zip ob nb))"

definition diffChunks :: "chunk list \<Rightarrow> chunk list \<Rightarrow> chunk_delta list \<times> (string \<times> string) list" where
  "diffChunks old_chunks newChunks =
     (let (rest, deltas, remap) = diff_loop (bucketByHash old_chunks) (bucketByHash newChunks) ([], [])
      in (deltas @ concat (map (\<lambda>(h, nb). map (\<lambda>i. \<lparr>cdl_Change = ChangeAdded, NewChunkID = i, PrevChunkID = []\<rparr>) nb) rest),
          remap))"

section \<open>The heading chain\<close>

text \<open>The headings still open at the end of a list: those that no later heading of the same or a
  higher rank closes.\<close>

fun open_marks :: "mark list \<Rightarrow> mark list" where
  "open_marks [] = []"
| "open_marks (m # ms) =
     (if \<exists>m' \<in> set ms. mk_level m' \<le> mk_level m then open_marks ms else m # open_marks ms)"

lemma open_marks_sub: "set (open_marks ms) \<subseteq> set ms"
  by (induction ms) auto

lemma open_marks_levels: "sorted_wrt (\<lambda>a b. mk_level a < mk_level b) (open_marks ms)"
  by (induction ms) (use open_marks_sub in force)+

lemma pop_deeper_filter:
  "sorted_wrt (\<lambda>a b. mk_level b < mk_level a) stack \<Longrightarrow> pop_deeper l stack = filter (\<lambda>m. mk_level m < l) stack"
proof (induction stack)
  case (Cons m stack)
  show ?case
  proof (cases "l \<le> mk_level m")
    case False
    then have "filter (\<lambda>m. mk_level m < l) stack = stack"
      using Cons.prems by (intro filter_True) auto
    then show ?thesis using False by simp
  qed (use Cons in simp)
qed simp

lemma replay_open:
  assumes "sorted_wrt (\<lambda>a b. mk_level b < mk_level a) stack" and "sorted (map mk_off ms)"
  shows "rev (replay start ms stack) =
    filter (\<lambda>m. \<forall>m' \<in> set ms. mk_off m' \<le> start \<longrightarrow> mk_level m < mk_level m') (rev stack) @
    open_marks (filter (\<lambda>m. mk_off m \<le> start) ms)"
  using assms
proof (induction ms arbitrary: stack)
  case (Cons m ms)
  show ?case
  proof (cases "start < mk_off m")
    case True
    then have "\<forall>m' \<in> set (m # ms). \<not> mk_off m' \<le> start"
      using Cons.prems(2) by auto
    then show ?thesis using True by (simp add: filter_True)
  next
    case False
    let ?stack = "m # filter (\<lambda>x. mk_level x < mk_level m) stack"
    have "sorted_wrt (\<lambda>a b. mk_level b < mk_level a) ?stack"
      using Cons.prems(1) by (simp add: sorted_wrt_filter)
    then have "rev (replay start ms ?stack) =
        filter (\<lambda>m. \<forall>m' \<in> set ms. mk_off m' \<le> start \<longrightarrow> mk_level m < mk_level m') (rev ?stack) @
        open_marks (filter (\<lambda>m. mk_off m \<le> start) ms)"
      using Cons.IH Cons.prems(2) by simp
    then show ?thesis
      using False
      by (auto simp: pop_deeper_filter [OF Cons.prems(1)] rev_filter [symmetric] not_less conj_commute
          intro!: filter_cong)
  qed
qed simp

text \<open>C19: the breadcrumb is the chain of the headings in force. It lists the headings at or before the
  position that no later one at or before it of the same or a higher rank has closed, in the order of
  the text; their levels increase strictly, and the level returned is that of the last one, 0 if
  there is none.\<close>

theorem breadcrumb_is_open_chain:
  assumes "slice_sorts (\<lambda>a b. mk_off a < mk_off b) srt"
  shows "let chain = open_marks (filter (\<lambda>m. mk_off m \<le> start) (srt (marks_of spans edits)))
    in resolveBreadcrumb srt spans start edits =
         (map mk_text chain, if chain = [] then 0 else mk_level (last chain)) \<and>
       sorted_wrt (\<lambda>a b. mk_level a < mk_level b) chain"
proof -
  let ?ms = "srt (marks_of spans edits)"
  have "sorted_wrt (\<lambda>a b. \<not> mk_off b < mk_off a) ?ms" and mset: "mset ?ms = mset (marks_of spans edits)"
    using assms unfolding slice_sorts_def by blast+
  then have "sorted (map mk_off ?ms)"
    by (simp add: sorted_map not_less)
  then have chain: "rev (replay start ?ms []) = open_marks (filter (\<lambda>m. mk_off m \<le> start) ?ms)"
    using replay_open [of "[]" ?ms start] by simp
  have "?ms = []" if "spans = []"
    using mset that by (simp add: marks_of_def)
  then have "resolveBreadcrumb srt spans start edits =
      (let chain = rev (replay start ?ms []) in (map mk_text chain, if chain = [] then 0 else mk_level (last chain)))"
    by (cases "replay start ?ms []") (auto simp: resolveBreadcrumb_def Let_def)
  then show ?thesis
    unfolding chain Let_def using open_marks_levels by simp
qed

text \<open>Four headings, of which the second H2 closes the H3 and H2 before it.\<close>

definition demo_spans :: "heading_span list" where
  "demo_spans = map (\<lambda>(i, l, t). \<lparr>hs_Offset = i, hs_Level = l, hs_Text = t\<rparr>)
     [(0, 1, ''A''), (10, 2, ''B''), (20, 3, ''C''), (30, 2, ''D''), (40, 1, ''E'')]"

lemma sort_marks: "slice_sorts (\<lambda>a b. mk_off a < mk_off b) (sort_key mk_off :: mark list \<Rightarrow> mark list)"
  unfolding slice_sorts_def not_less
  using sorted_sort_key [of "mk_off :: mark \<Rightarrow> int"] by (simp add: sorted_map)

theorem breadcrumb_is_open_chain_witness:
  "resolveBreadcrumb (sort_key mk_off) demo_spans 35 [] = ([''A'', ''D''], 2)"
proof -
  have "open_marks (filter (\<lambda>m. mk_off m \<le> 35) (sort_key mk_off (marks_of demo_spans []))) =
      [\<lparr>mk_off = 0, mk_level = 1, mk_text = ''A''\<rparr>, \<lparr>mk_off = 30, mk_level = 2, mk_text = ''D''\<rparr>]"
    by code_simp
  then show ?thesis
    using breadcrumb_is_open_chain [OF sort_marks, of 35 demo_spans "[]"] by (simp add: Let_def)
qed

section \<open>What the difference says\<close>

lemma bucket_add: "bucket (add_bucket h cid bs) h' = bucket bs h' @ (if h = h' then [cid] else [])"
  by (induction bs) (auto simp: bucket_def)

lemma keys_add: "fst ` set (add_bucket h cid bs) = insert h (fst ` set bs)"
proof (induction bs)
  case (Cons b bs)
  then show ?case by (cases b) (simp add: insert_commute)
qed simp

lemma distinct_add: "distinct (map fst bs) \<Longrightarrow> distinct (map fst (add_bucket h cid bs))"
  by (induction bs) (auto simp: keys_add)

lemma mset_add: "mset (concat (map snd (add_bucket h cid bs))) = add_mset cid (mset (concat (map snd bs)))"
  by (induction bs) auto

lemma bucketByHash_snoc: "bucketByHash (cs @ [c]) = add_bucket (hash_key c) (c_ID c) (bucketByHash cs)"
  by (simp add: bucketByHash_def)

lemma bucketByHash_facts:
  "bucket (bucketByHash cs) h = map c_ID (filter (\<lambda>c. hash_key c = h) cs)"
  "distinct (map fst (bucketByHash cs))" "fst ` set (bucketByHash cs) = hash_key ` set cs"
  "mset (concat (map snd (bucketByHash cs))) = mset (map c_ID cs)"
proof (induction cs rule: rev_induct)
  case Nil
  { case 1 then show ?case by (simp add: bucketByHash_def bucket_def) }
  { case 2 then show ?case by (simp add: bucketByHash_def) }
  { case 3 then show ?case by (simp add: bucketByHash_def) }
  { case 4 then show ?case by (simp add: bucketByHash_def) }
next
  case (snoc c cs)
  { case 1 then show ?case by (simp add: bucketByHash_snoc bucket_add snoc.IH(1)) }
  { case 2 then show ?case unfolding bucketByHash_snoc by (rule distinct_add [OF snoc.IH(2)]) }
  { case 3 then show ?case unfolding bucketByHash_snoc keys_add snoc.IH(3) by simp }
  { case 4 then show ?case unfolding bucketByHash_snoc mset_add snoc.IH(4) by simp }
qed

lemma bucket_mem: "distinct (map fst bs) \<Longrightarrow> (h, ids) \<in> set bs \<Longrightarrow> bucket bs h = ids"
  by (simp add: bucket_def)

lemma bucket_filter_neq: "h' \<noteq> h \<Longrightarrow> bucket (filter (\<lambda>b. fst b \<noteq> h) bs) h' = bucket bs h'"
  by (induction bs) (auto simp: bucket_def)

lemma bucket_rest:
  "h \<notin> fst ` set obs \<Longrightarrow> map (\<lambda>(h', ob). f ob (bucket (filter (\<lambda>b. fst b \<noteq> h) nbs) h')) obs =
     map (\<lambda>(h', ob). f ob (bucket nbs h')) obs"
  by (intro map_cong refl) (auto simp: image_iff bucket_filter_neq)

lemma diff_loop_eq:
  "distinct (map fst obs) \<Longrightarrow> diff_loop obs nbs (deltas, remap) =
     (filter (\<lambda>b. fst b \<notin> fst ` set obs) nbs,
      deltas @ concat (map (\<lambda>(h, ob). pair_bucket ob (bucket nbs h)) obs),
      remap @ concat (map (\<lambda>(h, ob). zip ob (bucket nbs h)) obs))"
proof (induction obs arbitrary: nbs deltas remap)
  case (Cons b obs)
  obtain h ob where b: "b = (h, ob)" by (cases b)
  then have "h \<notin> fst ` set obs" using Cons.prems by simp
  then show ?case
    using Cons.IH Cons.prems
    by (simp add: b Let_def conj_commute bucket_rest [where f = pair_bucket] bucket_rest [where f = zip]
        del: map_eq_conv)
qed simp

abbreviation unchanged :: "chunk_delta list \<Rightarrow> chunk_delta list" where
  "unchanged \<equiv> filter (\<lambda>d. cdl_Change d = ChangeUnchanged)"

lemma pair_bucket_old: "map PrevChunkID (filter (\<lambda>d. cdl_Change d \<noteq> ChangeAdded) (pair_bucket ob nb)) = ob"
  by (simp add: pair_bucket_def Let_def filter_map comp_def split_def map_fst_zip_take [unfolded split_def])

lemma pair_bucket_unchanged:
  "unchanged (pair_bucket ob nb) =
     map (\<lambda>(p, n). \<lparr>cdl_Change = ChangeUnchanged, NewChunkID = n, PrevChunkID = p\<rparr>) (zip ob nb)"
  by (simp add: pair_bucket_def Let_def filter_map comp_def split_def take_zip [symmetric])

lemma pair_bucket_new: "filter (\<lambda>d. cdl_Change d \<noteq> ChangeRemoved) (pair_bucket ob nb) = unchanged (pair_bucket ob nb)"
  by (simp add: pair_bucket_def Let_def filter_map comp_def split_def)

definition occurs :: "chunk list \<Rightarrow> string \<Rightarrow> nat" where
  "occurs cs h = length (filter (\<lambda>c. hash_key c = h) cs)"

lemma occurs_none: "h \<notin> hash_key ` set cs \<Longrightarrow> occurs cs h = 0"
  by (auto simp: occurs_def filter_empty_conv)

lemma length_bucket: "length (bucket (bucketByHash cs) h) = occurs cs h"
  by (simp add: bucketByHash_facts(1) occurs_def)

text \<open>The deltas as a whole: the pairs of the old buckets, then the new chunks of the other buckets.\<close>

lemma diffChunks_eq:
  fixes old_chunks newChunks
  defines "Bo \<equiv> bucketByHash old_chunks" and "Bn \<equiv> bucketByHash newChunks"
  shows "diffChunks old_chunks newChunks =
    (concat (map (\<lambda>(h, ob). pair_bucket ob (bucket Bn h)) Bo) @
     concat (map (\<lambda>(h, nb). map (\<lambda>i. \<lparr>cdl_Change = ChangeAdded, NewChunkID = i, PrevChunkID = []\<rparr>) nb)
       (filter (\<lambda>b. fst b \<notin> hash_key ` set old_chunks) Bn)),
     concat (map (\<lambda>(h, ob). zip ob (bucket Bn h)) Bo))"
  using diff_loop_eq [OF bucketByHash_facts(2) [of old_chunks], of Bn "[]" "[]"]
  by (simp add: diffChunks_def Let_def Bo_def Bn_def bucketByHash_facts(3))

lemma sum_buckets:
  "sum_list (map (\<lambda>(h, ids). g h (length ids)) (bucketByHash cs)) = (\<Sum>h \<in> hash_key ` set cs. g h (occurs cs h))"
  for g :: "string \<Rightarrow> nat \<Rightarrow> nat"
proof -
  have "map (\<lambda>(h, ids). g h (length ids)) (bucketByHash cs) = map (\<lambda>h. g h (occurs cs h)) (map fst (bucketByHash cs))"
    using bucket_mem [OF bucketByHash_facts(2)] by (auto simp: length_bucket [symmetric])
  then show ?thesis
    by (simp add: sum_list_distinct_conv_sum_set [OF bucketByHash_facts(2)] bucketByHash_facts(3) del: map_map)
qed

lemma if_not: "(if \<not> P then x else y) = (if P then y else x)"
  by simp

lemma matched_count:
  "length (concat (map (\<lambda>(h, ob). zip ob (bucket (bucketByHash newChunks) h)) (bucketByHash old_chunks))) =
     (\<Sum>h \<in> hash_key ` set old_chunks. min (occurs old_chunks h) (occurs newChunks h))"
  using sum_buckets [of "\<lambda>h n. min n (occurs newChunks h)" old_chunks]
  by (simp add: length_concat comp_def split_def length_bucket)

text \<open>The difference accounts for every old chunk. Each old chunk is in exactly one delta, unchanged
  or removed; the unchanged pairs join chunks of the same content, as many of each content as both
  sides have; and the remap is exactly these pairs.\<close>

theorem diff_accounts_for_old:
  "let (deltas, remap) = diffChunks old_chunks newChunks in
     mset (map PrevChunkID (filter (\<lambda>d. cdl_Change d \<noteq> ChangeAdded) deltas)) = mset (map c_ID old_chunks) \<and>
     length (unchanged deltas) = (\<Sum>h \<in> hash_key ` set old_chunks. min (occurs old_chunks h) (occurs newChunks h)) \<and>
     (\<forall>d \<in> set (unchanged deltas). \<exists>c \<in> set old_chunks. \<exists>c' \<in> set newChunks.
        hash_key c = hash_key c' \<and> c_ID c = PrevChunkID d \<and> c_ID c' = NewChunkID d) \<and>
     remap = map (\<lambda>d. (PrevChunkID d, NewChunkID d)) (unchanged deltas)"
proof -
  let ?Bo = "bucketByHash old_chunks" and ?Bn = "bucketByHash newChunks"
  let ?pairs = "concat (map (\<lambda>(h, ob). zip ob (bucket ?Bn h)) ?Bo)"
  obtain deltas remap where d: "diffChunks old_chunks newChunks = (deltas, remap)"
    by fastforce
  note eq = d [unfolded diffChunks_eq, symmetric, unfolded prod.inject]
  have un: "unchanged deltas = map (\<lambda>(p, n). \<lparr>cdl_Change = ChangeUnchanged, NewChunkID = n, PrevChunkID = p\<rparr>) ?pairs"
    by (simp add: eq filter_concat map_concat comp_def split_def pair_bucket_unchanged [unfolded split_def] filter_map)
  have olds: "map PrevChunkID (filter (\<lambda>d. cdl_Change d \<noteq> ChangeAdded) deltas) = concat (map snd ?Bo)"
    by (simp add: eq filter_concat map_concat comp_def split_def pair_bucket_old filter_map)
  have same: "\<exists>c \<in> set old_chunks. \<exists>c' \<in> set newChunks. hash_key c = hash_key c' \<and> c_ID c = p \<and> c_ID c' = n"
    if pn: "(p, n) \<in> set ?pairs" for p n
  proof -
    obtain h ob where h: "(h, ob) \<in> set ?Bo" "(p, n) \<in> set (zip ob (bucket ?Bn h))"
      using pn by auto
    then have "p \<in> set (bucket ?Bo h)" "n \<in> set (bucket ?Bn h)"
      using bucket_mem [OF bucketByHash_facts(2) h(1)] by (auto dest: set_zip_leftD set_zip_rightD)
    then obtain c c' where "c \<in> set old_chunks" "hash_key c = h" "c_ID c = p"
        "c' \<in> set newChunks" "hash_key c' = h" "c_ID c' = n"
      unfolding bucketByHash_facts(1) by auto
    then show ?thesis by (intro bexI [of _ c] bexI [of _ c']) simp_all
  qed
  have "mset (map PrevChunkID (filter (\<lambda>d. cdl_Change d \<noteq> ChangeAdded) deltas)) = mset (map c_ID old_chunks)"
    unfolding olds by (rule bucketByHash_facts(4))
  moreover have "length (unchanged deltas) = (\<Sum>h \<in> hash_key ` set old_chunks. min (occurs old_chunks h) (occurs newChunks h))"
    unfolding un length_map by (rule matched_count)
  moreover have "remap = map (\<lambda>d. (PrevChunkID d, NewChunkID d)) (unchanged deltas)"
    unfolding un by (simp add: eq comp_def split_def)
  moreover have "\<forall>d \<in> set (unchanged deltas). \<exists>c \<in> set old_chunks. \<exists>c' \<in> set newChunks.
        hash_key c = hash_key c' \<and> c_ID c = PrevChunkID d \<and> c_ID c' = NewChunkID d"
    unfolding un using same by fastforce
  ultimately show ?thesis unfolding d by simp
qed

definition demo_chunk :: "string \<Rightarrow> string \<Rightarrow> chunk" where
  "demo_chunk cid h = blank_chunk\<lparr>c_ID := cid, c_ContentHash := h\<rparr>"

theorem diff_accounts_for_old_witness:
  "snd (diffChunks [demo_chunk ''a'' ''x'', demo_chunk ''b'' ''y''] [demo_chunk ''c'' ''x'']) = [(''a'', ''c'')]"
proof -
  have "unchanged (fst (diffChunks [demo_chunk ''a'' ''x'', demo_chunk ''b'' ''y''] [demo_chunk ''c'' ''x''])) =
      [\<lparr>cdl_Change = ChangeUnchanged, NewChunkID = ''c'', PrevChunkID = ''a''\<rparr>]"
    by code_simp
  then show ?thesis
    using diff_accounts_for_old [of "[demo_chunk ''a'' ''x'', demo_chunk ''b'' ''y'']" "[demo_chunk ''c'' ''x'']"]
    by (simp add: split_def Let_def)
qed

text \<open>New duplicates are lost. When a text that the old version had comes back more often than
  before, the surplus new chunks get no delta at all, neither added nor unchanged: there are fewer
  deltas with a new chunk than new chunks.\<close>

theorem diff_loses_surplus:
  assumes "0 < occurs old_chunks h" and "occurs old_chunks h < occurs newChunks h"
  shows "length (filter (\<lambda>d. cdl_Change d \<noteq> ChangeRemoved) (fst (diffChunks old_chunks newChunks))) < length newChunks"
proof -
  let ?Ho = "hash_key ` set old_chunks" and ?Hn = "hash_key ` set newChunks"
  let ?Bn = "bucketByHash newChunks"
  have rest: "length (concat (map snd (filter (\<lambda>b. fst b \<notin> ?Ho) ?Bn))) = (\<Sum>h \<in> ?Hn. if h \<in> ?Ho then 0 else occurs newChunks h)"
    using sum_buckets [of "\<lambda>h n. if h \<in> ?Ho then 0 else n" newChunks]
    by (simp add: length_concat comp_def split_def sum_list_map_filter' if_not)
  have all: "length newChunks = (\<Sum>h \<in> ?Hn. occurs newChunks h)"
    using sum_buckets [of "\<lambda>h n. n" newChunks] arg_cong [OF bucketByHash_facts(4) [of newChunks], of size]
    by (simp add: length_concat comp_def split_def)
  have "length (filter (\<lambda>d. cdl_Change d \<noteq> ChangeRemoved) (fst (diffChunks old_chunks newChunks))) =
      (\<Sum>h \<in> ?Ho. min (occurs old_chunks h) (occurs newChunks h)) + (\<Sum>h \<in> ?Hn. if h \<in> ?Ho then 0 else occurs newChunks h)"
    unfolding matched_count [symmetric] rest [symmetric]
    by (simp add: diffChunks_eq filter_concat map_concat comp_def split_def pair_bucket_new pair_bucket_unchanged
        filter_map length_concat)
  also have "(\<Sum>h \<in> ?Ho. min (occurs old_chunks h) (occurs newChunks h)) =
      (\<Sum>h \<in> ?Hn. if h \<in> ?Ho then min (occurs old_chunks h) (occurs newChunks h) else 0)"
  proof -
    have "(\<Sum>h \<in> ?Ho. min (occurs old_chunks h) (occurs newChunks h)) =
        (\<Sum>h \<in> ?Ho \<inter> ?Hn. min (occurs old_chunks h) (occurs newChunks h))"
      by (rule sum.mono_neutral_right) (auto simp: occurs_none)
    also have "\<dots> = (\<Sum>h \<in> ?Hn. if h \<in> ?Ho then min (occurs old_chunks h) (occurs newChunks h) else 0)"
      unfolding Int_commute [of ?Ho] by (rule sum.inter_restrict) simp
    finally show ?thesis .
  qed
  finally have count: "length (filter (\<lambda>d. cdl_Change d \<noteq> ChangeRemoved) (fst (diffChunks old_chunks newChunks))) =
      (\<Sum>h \<in> ?Hn. if h \<in> ?Ho then min (occurs old_chunks h) (occurs newChunks h) else occurs newChunks h)"
    by (simp add: sum.distrib [symmetric] if_distrib cong: if_cong)
  have h: "h \<in> ?Hn" "h \<in> ?Ho"
    using assms occurs_none [of h newChunks] occurs_none [of h old_chunks] by auto
  show ?thesis
    unfolding count all
  proof (rule sum_strict_mono_ex1)
    show "\<exists>x \<in> ?Hn. (if x \<in> ?Ho then min (occurs old_chunks x) (occurs newChunks x) else occurs newChunks x) < occurs newChunks x"
      using h assms by (intro bexI [of _ h]) simp_all
  qed simp_all
qed

theorem diff_loses_surplus_witness:
  "length (filter (\<lambda>d. cdl_Change d \<noteq> ChangeRemoved)
     (fst (diffChunks [demo_chunk ''a'' ''x''] [demo_chunk ''c'' ''x'', demo_chunk ''d'' ''x'']))) < 2"
proof -
  have "0 < occurs [demo_chunk ''a'' ''x''] ''x''"
    "occurs [demo_chunk ''a'' ''x''] ''x'' < occurs [demo_chunk ''c'' ''x'', demo_chunk ''d'' ''x''] ''x''"
    by code_simp+
  then show ?thesis
    using diff_loses_surplus [of "[demo_chunk ''a'' ''x'']" "''x''" "[demo_chunk ''c'' ''x'', demo_chunk ''d'' ''x'']"]
    by simp
qed

end
