(* ===== verification/Pipeline.thy ===== *)
theory Pipeline
  imports Sections Chunker Fts Vector_Index Indexes
begin

text \<open>
  Ingestion, \<open>internal/pipeline/pipeline.go\<close>, \<open>reingest.go\<close>, \<open>delete.go\<close> and the store updates of
  \<open>workers.go\<close>. The readers of the file types, SHA-256, the detector, JSON and the file system are
  parameters. The callbacks of the engine are logs in the state: the vaults reported to \<open>OnChange\<close>,
  the events given to \<open>OnEvent\<close>, and the jobs sent to the workers. Operations of one document are
  serialised by its lock and document records by the pipeline's mutex, so each operation is one step.
\<close>

section \<open>Names of files\<close>

definition StatusPending :: string where "StatusPending = ''pending''"
definition StatusEmbedded :: string where "StatusEmbedded = ''embedded''"
definition StatusError :: string where "StatusError = ''error''"

text \<open>\<open>filepath.Ext\<close>, \<open>Base\<close> and \<open>Clean\<close> for slash-separated paths.\<close>

definition path_Ext :: "string \<Rightarrow> string" where
  "path_Ext path =
     (let tail = rev (takeWhile (\<lambda>c. c \<noteq> CHR ''/'') (rev path));
          after = rev (takeWhile (\<lambda>c. c \<noteq> CHR ''.'') (rev tail))
      in if CHR ''.'' \<in> set tail then CHR ''.'' # after else [])"

definition path_Base :: "string \<Rightarrow> string" where
  "path_Base path =
     (if path = [] then ''.''
      else let p = rev (dropWhile (\<lambda>c. c = CHR ''/'') (rev path))
           in if p = [] then ''/'' else rev (takeWhile (\<lambda>c. c \<noteq> CHR ''/'') (rev p)))"

fun clean_step :: "bool \<Rightarrow> string list \<Rightarrow> string \<Rightarrow> string list" where
  "clean_step rooted out elem =
     (if elem = [] \<or> elem = ''.'' then out
      else if elem = ''..'' then
        (if out \<noteq> [] \<and> last out \<noteq> ''..'' then butlast out else if rooted then out else out @ [elem])
      else out @ [elem])"

definition path_Clean :: "string \<Rightarrow> string" where
  "path_Clean path =
     (let rooted = (path \<noteq> [] \<and> hd path = CHR ''/'');
          p = (if rooted then ''/'' else []) @ Join (foldl (clean_step rooted) [] (Split1 CHR ''/'' path)) ''/''
      in if p = [] then ''.'' else p)"

definition extType :: "string \<Rightarrow> string" where
  "extType ext =
     (if ext = ''.pdf'' then ''pdf''
      else if ext \<in> {''.txt'', ''.log'', ''.csv''} then ''text''
      else if ext \<in> {''.md'', ''.markdown''} then ''markdown''
      else if ext = ''.docx'' then ''docx''
      else if ext \<in> {''.jpg'', ''.jpeg''} then ''jpeg''
      else if ext = ''.png'' then ''png''
      else ''unknown'')"

definition mimeType :: "string \<Rightarrow> string" where
  "mimeType ext =
     (if ext = ''.pdf'' then ''application/pdf''
      else if ext \<in> {''.txt'', ''.log'', ''.csv''} then ''text/plain''
      else if ext \<in> {''.md'', ''.markdown''} then ''text/markdown''
      else if ext = ''.docx'' then ''application/vnd.openxmlformats-officedocument.wordprocessingml.document''
      else if ext \<in> {''.jpg'', ''.jpeg''} then ''image/jpeg''
      else if ext = ''.png'' then ''image/png''
      else ''application/octet-stream'')"

text \<open>\<open>filepath.Match\<close> is the parameter \<open>fmatch\<close>: \<open>None\<close> for a malformed pattern.\<close>

definition matchGlob :: "(string \<Rightarrow> string \<Rightarrow> bool option) \<Rightarrow> string \<Rightarrow> string \<Rightarrow> bool" where
  "matchGlob fmatch name glob = (if glob = [] \<or> glob = ''*'' then True else fmatch glob name = Some True)"

section \<open>State\<close>

record doc_event =
  ev_Type :: event_type
  ev_DocumentID :: string
  ev_SourcePath :: string
  ev_After :: document
  ev_Deltas :: "chunk_delta list"

record job =
  jb_ws :: ws
  jb_docID :: string
  jb_doc :: document
  jb_chunks :: "chunk list"
  jb_images :: "image_ref list"
  jb_mimeType :: string
  jb_spans :: "heading_span list"
  jb_pageOffsets :: "(int \<times> int) list"

record reingestCapture =
  rc_chunks :: "chunk list"
  rc_embeds :: "(string \<times> bytes) list"

type_synonym reader_fn = "bytes \<Rightarrow> string \<Rightarrow> (string \<times> metadata) gres"

record 'db pipe_env =
  pe_P :: "'db pebble_ops"
  pe_doc :: "document codec"
  pe_chunk :: "chunk codec"
  pe_item :: "EmbedQueueItem codec"
  pe_verdict :: "poison_verdict codec"
  pe_embModel :: "bytes \<Rightarrow> string option"
  pe_unicode :: unicode
  pe_splitter :: splitter
  pe_model :: string
  pe_reader :: "string \<Rightarrow> reader_fn option"
  pe_sha :: "bytes \<Rightarrow> bytes"
  pe_fmt :: "meta_val \<Rightarrow> string"
  pe_sort :: "mark list \<Rightarrow> mark list"
  pe_detector :: "(string \<Rightarrow> poison_verdict) option"
  pe_redact :: "(string \<Rightarrow> string \<times> finding list \<times> edit list) option"
  pe_nearDupK :: int

record 'db pipe_state =
  ps_db :: 'db
  ps_fts :: fts
  ps_vec :: vector
  ps_changes :: "ws list"
  ps_events :: "doc_event list"
  ps_jobs :: "job list"
  ps_reingest :: "string \<rightharpoonup> reingestCapture"
  ps_reingestDocs :: "string set"

section \<open>Storing\<close>

text \<open>Synchronous writes in order, up to the first error.\<close>

fun set_seq :: "'db pebble_ops \<Rightarrow> (bytes \<times> bytes) list \<Rightarrow> 'db \<Rightarrow> go_error option \<times> 'db" where
  "set_seq P [] d = (None, d)"
| "set_seq P ((k, v) # kvs) d =
     (case DB_Set P d k v of Inl e \<Rightarrow> (Some e, d) | Inr d' \<Rightarrow> set_seq P kvs d')"

definition pending_item :: "'db pipe_env \<Rightarrow> bytes" where
  "pending_item E =
     marshal_or_nil (pe_item E) \<lparr>eq_Model = pe_model E, eq_Status = EmbedQueuePending, eq_Attempts = 0\<rparr>"

definition store_writes :: "'db pipe_env \<Rightarrow> ws \<Rightarrow> document \<Rightarrow> chunk list \<Rightarrow> string \<Rightarrow> (bytes \<times> bytes) list" where
  "store_writes E ws doc chunks contentHash =
     [(DocumentKey ws (d_ID doc), marshal_or_nil (pe_doc E) doc),
      (ContentHashKey ws contentHash, str_bytes (d_ID doc)),
      (PathDocKey ws (d_FilePath doc), str_bytes (d_ID doc))] @
     concat (map (\<lambda>c. [(ChunkKey ws (c_ID c), marshal_or_nil (pe_chunk E) c),
                       (EmbedQueueKey ws (c_ID c), pending_item E)]) chunks)"

definition storeDocument :: "'db pipe_env \<Rightarrow> ws \<Rightarrow> document \<Rightarrow> chunk list \<Rightarrow> string \<Rightarrow> 'db \<Rightarrow>
    go_error option \<times> 'db" where
  "storeDocument E ws doc chunks contentHash d = set_seq (pe_P E) (store_writes E ws doc chunks contentHash) d"

definition CountDocuments :: "'db pebble_ops \<Rightarrow> 'db \<Rightarrow> ws \<Rightarrow> nat" where
  "CountDocuments P d ws =
     (case VaultKindRange PrefixDocument ws of
        Inl e \<Rightarrow> 0
      | Inr (lower, upper) \<Rightarrow> fst (DB_RangeScan P d lower upper (\<lambda>k v n. (n + 1, True)) 0))"

section \<open>Deleting\<close>

text \<open>The chunk records of a document, in key order.\<close>

definition chunksOfDoc :: "'db pebble_ops \<Rightarrow> chunk codec \<Rightarrow> 'db \<Rightarrow> ws \<Rightarrow> string \<Rightarrow> chunk list" where
  "chunksOfDoc P C d ws docID =
     (case VaultKindRange PrefixChunk ws of
        Inl e \<Rightarrow> []
      | Inr (lower, upper) \<Rightarrow>
          fst (DB_RangeScan P d lower upper
            (\<lambda>k val acc. (acc @ (case cd_unmarshal C val of
                 Some c \<Rightarrow> if c_DocumentID c = docID then [c] else [] | None \<Rightarrow> []), True)) []))"

definition del_or :: "'db pebble_ops \<Rightarrow> 'db \<Rightarrow> bytes \<Rightarrow> 'db" where
  "del_or P d k = (case DB_Delete P d k of Inr d' \<Rightarrow> d' | Inl e \<Rightarrow> d)"

definition delete_chunk :: "'db pipe_env \<Rightarrow> ws \<Rightarrow> chunk \<Rightarrow> 'db pipe_state \<Rightarrow> 'db pipe_state" where
  "delete_chunk E ws ch st =
     (let P = pe_P E;
          d1 = del_or P (ps_db st) (ChunkKey ws (c_ID ch));
          d2 = del_or P d1 (EmbeddingKey ws (c_ID ch));
          d3 = (case DeleteQuarantine P d2 ws (c_ID ch) of Inr d' \<Rightarrow> d' | Inl e \<Rightarrow> d2);
          (d4, f) = FTS_Delete P (pe_unicode E) ws (c_ID ch) (c_Content ch) (d3, ps_fts st)
      in st\<lparr>ps_db := d4, ps_fts := f, ps_vec := Vec_Delete (c_ID ch) (ps_vec st)\<rparr>)"

definition indexChanged :: "ws \<Rightarrow> 'db pipe_state \<Rightarrow> 'db pipe_state" where
  "indexChanged ws st = st\<lparr>ps_changes := ps_changes st @ [ws]\<rparr>"

text \<open>The part under the pipeline's mutex: the document record, its two indexes and the event.\<close>

definition delete_record :: "'db pipe_env \<Rightarrow> ws \<Rightarrow> string \<Rightarrow> 'db pipe_state \<Rightarrow> go_error option \<times> 'db pipe_state" where
  "delete_record E ws docID st =
     (let P = pe_P E;
          suppressDeleted = docID \<in> ps_reingestDocs st;
          st1 = st\<lparr>ps_reingestDocs := ps_reingestDocs st - {docID}\<rparr>;
          found = (case DB_Get P (ps_db st1) (DocumentKey ws docID) of
                     Inr (Some raw) \<Rightarrow> cd_unmarshal (pe_doc E) raw | _ \<Rightarrow> None);
          st2 = (case found of
                   None \<Rightarrow> st1
                 | Some dc \<Rightarrow> st1\<lparr>ps_db := del_or P (del_or P (ps_db st1) (ContentHashKey ws (d_ContentHash dc)))
                                            (PathDocKey ws (d_FilePath dc))\<rparr>)
      in case DB_Delete P (ps_db st2) (DocumentKey ws docID) of
           Inl e \<Rightarrow> (Some e, st2)
         | Inr d' \<Rightarrow>
             (None, (case found of
                None \<Rightarrow> st2\<lparr>ps_db := d'\<rparr>
              | Some dc \<Rightarrow>
                  if suppressDeleted then st2\<lparr>ps_db := d'\<rparr>
                  else st2\<lparr>ps_db := d', ps_events := ps_events st2 @
                         [\<lparr>ev_Type = EventDeleted, ev_DocumentID = docID, ev_SourcePath = d_FilePath dc,
                           ev_After = blank_document, ev_Deltas = []\<rparr>]\<rparr>)))"

definition deleteDocLocked :: "'db pipe_env \<Rightarrow> ws \<Rightarrow> string \<Rightarrow> 'db pipe_state \<Rightarrow> go_error option \<times> 'db pipe_state" where
  "deleteDocLocked E ws docID st =
     (case VaultKindRange PrefixChunk ws of
        Inl e \<Rightarrow> (Some e, st)
      | Inr bounds \<Rightarrow>
          (let chunks = chunksOfDoc (pe_P E) (pe_chunk E) (ps_db st) ws docID;
               st1 = fold (delete_chunk E ws) chunks st;
               st2 = (if chunks \<noteq> [] then indexChanged ws st1 else st1)
           in delete_record E ws docID st2))"

section \<open>Re-ingestion\<close>

definition captureReingest :: "'db pipe_env \<Rightarrow> ws \<Rightarrow> string \<Rightarrow> string \<Rightarrow> 'db pipe_state \<Rightarrow> 'db pipe_state" where
  "captureReingest E ws path docID st =
     (let chunks = chunksOfDoc (pe_P E) (pe_chunk E) (ps_db st) ws docID;
          embeds = concat (map (\<lambda>c. case DB_Get (pe_P E) (ps_db st) (EmbeddingKey ws (c_ID c)) of
                                       Inr (Some raw) \<Rightarrow> [(c_ID c, raw)] | _ \<Rightarrow> []) chunks)
      in st\<lparr>ps_reingest := (ps_reingest st)(path_Clean path \<mapsto> \<lparr>rc_chunks = chunks, rc_embeds = embeds\<rparr>),
            ps_reingestDocs := insert docID (ps_reingestDocs st)\<rparr>)"

definition takeReingest :: "string \<Rightarrow> 'db pipe_state \<Rightarrow> reingestCapture option \<times> 'db pipe_state" where
  "takeReingest path st =
     (ps_reingest st (path_Clean path), st\<lparr>ps_reingest := (ps_reingest st)(path_Clean path := None)\<rparr>)"

text \<open>An embedding is kept if it was made by the model in use; its convention is not looked at.\<close>

definition preserveEmbeds :: "'db pipe_env \<Rightarrow> ws \<Rightarrow> (string \<times> bytes) list \<Rightarrow> (string \<times> string) list \<Rightarrow> 'db \<Rightarrow> 'db" where
  "preserveEmbeds E ws oldEmbeds remap d =
     fold (\<lambda>(oldCID, newCID) d.
       case map_of oldEmbeds oldCID of
         None \<Rightarrow> d
       | Some raw \<Rightarrow>
           if pe_embModel E raw \<noteq> Some (pe_model E) then d
           else case DB_Set (pe_P E) d (EmbeddingKey ws newCID) raw of Inr d' \<Rightarrow> d' | Inl e \<Rightarrow> d) remap d"

definition add_event :: "doc_event \<Rightarrow> 'db pipe_state \<Rightarrow> 'db pipe_state" where
  "add_event ev st = st\<lparr>ps_events := ps_events st @ [ev]\<rparr>"

definition reingestEarlyReturn :: "reingestCapture option \<Rightarrow> string \<Rightarrow> 'db pipe_state \<Rightarrow> 'db pipe_state" where
  "reingestEarlyReturn capt path st =
     (case capt of
        None \<Rightarrow> st
      | Some cp \<Rightarrow>
          (case rc_chunks cp of
             [] \<Rightarrow> st
           | c0 # cs \<Rightarrow>
               add_event \<lparr>ev_Type = EventReingested, ev_DocumentID = c_DocumentID c0, ev_SourcePath = path,
                 ev_After = blank_document,
                 ev_Deltas = map (\<lambda>c. \<lparr>cdl_Change = ChangeRemoved, NewChunkID = [], PrevChunkID = c_ID c\<rparr>) (c0 # cs)\<rparr> st))"

section \<open>One file\<close>

text \<open>What the reader left in the metadata for the pipeline, and the metadata without it.\<close>

record sidecar =
  sd_spans :: "heading_span list"
  sd_wspans :: "wikilink_span list"
  sd_images :: "image_ref list"
  sd_pages :: "(int \<times> int) list"
  sd_method :: string
  sd_quality :: real

definition take_sidecar :: "metadata \<Rightarrow> sidecar \<times> metadata" where
  "take_sidecar m =
     (\<lparr>sd_spans = (case map_of m ''heading_spans'' of Some (MHeadings x) \<Rightarrow> x | _ \<Rightarrow> []),
       sd_wspans = (case map_of m ''wikilink_spans'' of Some (MWikilinks x) \<Rightarrow> x | _ \<Rightarrow> []),
       sd_images = (case map_of m ''images'' of Some (MImages x) \<Rightarrow> x | _ \<Rightarrow> []),
       sd_pages = (case map_of m ''page_offsets'' of Some (MOffsets x) \<Rightarrow> x | _ \<Rightarrow> []),
       sd_method = (case map_of m ''extraction_method'' of Some (MString v) \<Rightarrow> if v \<noteq> [] then v else ''native'' | _ \<Rightarrow> ''native''),
       sd_quality = (case map_of m ''extraction_quality'' of Some (MFloat v) \<Rightarrow> v | _ \<Rightarrow> 1)\<rparr>,
      fold meta_delete [''heading_spans'', ''wikilink_spans'', ''images'', ''page_offsets'',
        ''extraction_method'', ''extraction_quality''] m)"

definition make_chunk :: "'db pipe_env \<Rightarrow> int \<Rightarrow> document \<Rightarrow> sidecar \<Rightarrow> edit list \<Rightarrow> nat \<Rightarrow> nat \<times> segment \<Rightarrow> chunk" where
  "make_chunk E now doc sd edits n i_s =
     (let (i, s) = i_s;
          (bc, level) = resolveBreadcrumb (pe_sort E) (sd_spans sd) (int (StartCharIdx s)) edits
      in blank_chunk\<lparr>
           c_ID := GenerateID (pe_sha E) (pe_fmt E) (seg_Text s) (d_MimeType doc)
                     [(''doc'', MString (d_ID doc)), (''idx'', MInt (int i))],
           c_DocumentID := d_ID doc, c_Content := seg_Text s, c_ChunkIndex := int i, c_TotalChunks := int n,
           c_StartCharIdx := int (StartCharIdx s), c_EndCharIdx := int (EndCharIdx s),
           c_TokenCount := int (TokenCount s), c_CreatedAt := now,
           c_SectionContext := bc, c_SectionLevel := level,
           c_ExtractionMethod := sd_method sd, c_ExtractionQuality := sd_quality sd,
           c_ContentHash := ContentHash (pe_sha E) (str_bytes (seg_Text s)),
           c_Wikilinks := resolveWikilinks (sd_wspans sd) (int (StartCharIdx s)) (int (EndCharIdx s)) edits\<rparr>)"

text \<open>The linked list of the chunks of a document, and the verdicts.\<close>

definition link_chunks :: "chunk list \<Rightarrow> chunk list" where
  "link_chunks cs =
     map (\<lambda>(i, c). c\<lparr>c_PreviousChunkID := (if 0 < i then c_ID (cs ! (i - 1)) else c_PreviousChunkID c),
                     c_NextChunkID := (if i + 1 < length cs then c_ID (cs ! (i + 1)) else c_NextChunkID c)\<rparr>)
       (enumerate 0 cs)"

definition score_chunks :: "'db pipe_env \<Rightarrow> chunk list \<Rightarrow> chunk list" where
  "score_chunks E cs =
     (case pe_detector E of
        None \<Rightarrow> cs | Some score \<Rightarrow> map (\<lambda>c. c\<lparr>c_Poisoning := Some (score (c_Content c))\<rparr>) cs)"

text \<open>The document and the chunks made of a file: \<open>raw\<close> its bytes, \<open>content\<close> and \<open>meta\<close> the reader's answer.\<close>

definition build_document :: "'db pipe_env \<Rightarrow> int \<Rightarrow> string \<Rightarrow> bytes \<Rightarrow> string \<Rightarrow> metadata \<Rightarrow>
    document \<times> chunk list \<times> sidecar" where
  "build_document E now path raw content meta =
     (let ext = ToLower (pe_unicode E) (path_Ext path);
          (sd, m) = take_sidecar meta;
          docID = GenerateID (pe_sha E) (pe_fmt E) content (mimeType ext) m;
          (content', edits) = (case pe_redact E of
             None \<Rightarrow> (content, []) | Some red \<Rightarrow> (let (t, fs, es) = red content in (t, es)));
          doc = blank_document\<lparr>d_ID := docID, d_FilePath := path, d_FileName := path_Base path,
            d_FileType := extType ext, d_MimeType := mimeType ext,
            d_ContentHash := ContentHash (pe_sha E) raw, d_Metadata := m,
            d_FileSize := int (length raw), d_IngestedAt := now, d_UpdatedAt := now, d_Status := StatusPending\<rparr>;
          segs = Split (pe_splitter E) content';
          chunks = link_chunks (map (make_chunk E now doc sd edits (length segs)) (enumerate 0 segs))
      in (doc\<lparr>d_ChunkCount := int (length chunks)\<rparr>, score_chunks E chunks, sd))"

text \<open>What follows the durable store: the event, the kept embeddings, the job.\<close>

definition publish_ingest :: "'db pipe_env \<Rightarrow> ws \<Rightarrow> string \<Rightarrow> reingestCapture option \<Rightarrow> document \<Rightarrow> chunk list \<Rightarrow>
    sidecar \<Rightarrow> 'db pipe_state \<Rightarrow> 'db pipe_state" where
  "publish_ingest E ws path capt doc chunks sd st =
     (let st1 = (case capt of
            Some cp \<Rightarrow>
              (let (deltas, remap) = diffChunks (rc_chunks cp) chunks
               in add_event \<lparr>ev_Type = EventReingested, ev_DocumentID = d_ID doc, ev_SourcePath = path,
                    ev_After = doc, ev_Deltas = deltas\<rparr>
                    (st\<lparr>ps_db := preserveEmbeds E ws (rc_embeds cp) remap (ps_db st)\<rparr>))
          | None \<Rightarrow>
              add_event \<lparr>ev_Type = EventIngested, ev_DocumentID = d_ID doc, ev_SourcePath = path,
                ev_After = doc, ev_Deltas = []\<rparr> st)
      in st1\<lparr>ps_jobs := ps_jobs st1 @
           [\<lparr>jb_ws = ws, jb_docID = d_ID doc, jb_doc = doc, jb_chunks = chunks, jb_images = sd_images sd,
             jb_mimeType = d_MimeType doc, jb_spans = sd_spans sd, jb_pageOffsets = sd_pages sd\<rparr>]\<rparr>)"

definition processFile :: "'db pipe_env \<Rightarrow> int \<Rightarrow> ws \<Rightarrow> string \<Rightarrow> bytes gres \<Rightarrow> 'db pipe_state \<Rightarrow>
    (string \<times> go_error option) \<times> 'db pipe_state" where
  "processFile E now ws path file st =
     (let (capt, st) = takeReingest path st
      in case file of
           Inl e \<Rightarrow> ((''ERROR'', Some e), reingestEarlyReturn capt path st)
         | Inr raw \<Rightarrow>
             (let ch = ContentHash (pe_sha E) raw
              in case DB_Get (pe_P E) (ps_db st) (ContentHashKey ws ch) of
                   Inr (Some v) \<Rightarrow> ((''SKIPPED'', None), reingestEarlyReturn capt path st)
                 | _ \<Rightarrow>
                     (case pe_reader E (ToLower (pe_unicode E) (path_Ext path)) of
                        None \<Rightarrow> ((''UNSUPPORTED'', None), reingestEarlyReturn capt path st)
                      | Some rd \<Rightarrow>
                          (case rd raw path of
                             Inl e \<Rightarrow> ((''ERROR'', Some e), reingestEarlyReturn capt path st)
                           | Inr (content, meta) \<Rightarrow>
                               (let (doc, chunks, sd) = build_document E now path raw content meta
                                in case storeDocument E ws doc chunks ch (ps_db st) of
                                     (Some e, d) \<Rightarrow> ((''ERROR'', Some e), st\<lparr>ps_db := d\<rparr>)
                                   | (None, d) \<Rightarrow>
                                       ((''NEW'', None), publish_ingest E ws path capt doc chunks sd (st\<lparr>ps_db := d\<rparr>)))))))"

text \<open>
  A walk over the files below a root, given in its order with what reading each gives. A directory
  entry or error of the walk is not a file: \<open>None\<close> counts as an error.
\<close>

record ingest_result =
  res_New :: nat
  res_Skipped :: nat
  res_Unsupported :: nat
  res_Errors :: nat

definition count_status :: "string \<Rightarrow> ingest_result \<Rightarrow> ingest_result" where
  "count_status st r =
     (if st = ''NEW'' then r\<lparr>res_New := res_New r + 1\<rparr>
      else if st = ''SKIPPED'' then r\<lparr>res_Skipped := res_Skipped r + 1\<rparr>
      else if st = ''UNSUPPORTED'' then r\<lparr>res_Unsupported := res_Unsupported r + 1\<rparr>
      else if st = ''ERROR'' then r\<lparr>res_Errors := res_Errors r + 1\<rparr>
      else r)"

fun ingest_walk :: "'db pipe_env \<Rightarrow> (string \<Rightarrow> string \<Rightarrow> bool option) \<Rightarrow> int \<Rightarrow> ws \<Rightarrow> string \<Rightarrow>
    (string \<times> bytes gres) option list \<Rightarrow> ingest_result \<Rightarrow> 'db pipe_state \<Rightarrow> ingest_result \<times> 'db pipe_state" where
  "ingest_walk E fmatch now ws glob [] r st = (r, st)"
| "ingest_walk E fmatch now ws glob (None # fs) r st =
     ingest_walk E fmatch now ws glob fs (r\<lparr>res_Errors := res_Errors r + 1\<rparr>) st"
| "ingest_walk E fmatch now ws glob (Some (path, file) # fs) r st =
     (if \<not> matchGlob fmatch (path_Base path) glob then ingest_walk E fmatch now ws glob fs r st
      else let ((status, e), st') = processFile E now ws path file st
           in ingest_walk E fmatch now ws glob fs (count_status status r) st')"

definition Ingest :: "'db pipe_env \<Rightarrow> (string \<Rightarrow> string \<Rightarrow> bool option) \<Rightarrow> int \<Rightarrow> ws \<Rightarrow> string \<Rightarrow>
    (string \<times> bytes gres) option list \<Rightarrow> 'db pipe_state \<Rightarrow> ingest_result \<times> 'db pipe_state" where
  "Ingest E fmatch now ws glob files st =
     ingest_walk E fmatch now ws glob files
       \<lparr>res_New = 0, res_Skipped = 0, res_Unsupported = 0, res_Errors = 0\<rparr> st"

text \<open>\<open>ReingestPath\<close> on the vault prefix \<open>ws\<close> it resolves, always that of the vault named default.\<close>

definition ReingestPath :: "'db pipe_env \<Rightarrow> (string \<Rightarrow> string \<Rightarrow> bool option) \<Rightarrow> int \<Rightarrow> ws \<Rightarrow> string \<Rightarrow> string \<Rightarrow>
    (string \<times> bytes gres) option list \<Rightarrow> 'db pipe_state \<Rightarrow> go_error option \<times> 'db pipe_state" where
  "ReingestPath E fmatch now ws path docID files st =
     (case deleteDocLocked E ws docID (captureReingest E ws path docID st) of
        (Some e, st') \<Rightarrow> (Some e, st')
      | (None, st') \<Rightarrow> (None, snd (Ingest E fmatch now ws ''*'' files st')))"

section \<open>Effects on the contents\<close>

lemma set_seq_effect:
  assumes "pebble P view" and "reliable P"
  shows "\<exists>d'. set_seq P kvs d = (None, d') \<and> (\<forall>k. k \<in> fst ` set kvs \<or> view d k \<noteq> None \<longrightarrow> view d' k \<noteq> None) \<and>
    (\<forall>k. k \<notin> fst ` set kvs \<longrightarrow> view d' k = view d k)"
proof (induction kvs arbitrary: d)
  case (Cons kv kvs)
  obtain k v where kv: "kv = (k, v)" by (cases kv)
  obtain d1 where d1: "pb_commit P d [KSet k v] = Inr d1" "view d1 = apply_batch [KSet k v] (view d)"
    by (rule pebble.reliable_commitE [OF assms])
  obtain d' where "set_seq P kvs d1 = (None, d')" "\<forall>k. k \<in> fst ` set kvs \<or> view d1 k \<noteq> None \<longrightarrow> view d' k \<noteq> None"
      "\<forall>k. k \<notin> fst ` set kvs \<longrightarrow> view d' k = view d1 k"
    using Cons.IH [of d1] by blast
  then show ?case
    by (intro exI [of _ d']) (auto simp: kv DB_Set_def d1)
qed simp

lemma del_or_view:
  assumes "pebble P view" and "reliable P"
  shows "view (del_or P d k) = (view d)(k := None)"
proof -
  obtain d' where "pb_commit P d [KDelete k] = Inr d'" "view d' = apply_batch [KDelete k] (view d)"
    by (rule pebble.reliable_commitE [OF assms])
  then show ?thesis by (simp add: del_or_def DB_Delete_def)
qed

text \<open>The full-text index only writes its own three kinds of keys.\<close>

definition fts_kind :: "bytes \<Rightarrow> bool" where
  "fts_kind k \<longleftrightarrow> k \<noteq> [] \<and> hd k \<in> {0x05, 0x07, 0x08}"

definition op_key :: "kv_op \<Rightarrow> bytes option" where
  "op_key op = (case op of KSet k v \<Rightarrow> Some k | KDelete k \<Rightarrow> Some k | KDeleteRange l h \<Rightarrow> None)"

lemma apply_batch_other:
  "\<forall>op \<in> set ops. \<exists>k'. op_key op = Some k' \<and> k' \<noteq> k \<Longrightarrow> apply_batch ops m k = m k"
proof (induction ops arbitrary: m)
  case (Cons op ops)
  then show ?case by (cases op) (auto simp: op_key_def)
qed simp

lemma FTS_Delete_other:
  assumes "pebble P view" and "reliable P" and "\<not> fts_kind k"
  shows "view (fst (FTS_Delete P u ws cid content (d, f))) k = view d k"
proof (cases "pb_get P d (FTSIndexedKey ws cid)")
  case (Inr found)
  show ?thesis
  proof (cases found)
    case (Some val)
    have kinds: "FTSPostingKey ws t cid \<noteq> k" "FTSIndexedKey ws cid \<noteq> k" "FTSGlobalStatsKey ws \<noteq> k" for t
      using assms(3) by (auto simp: fts_kind_def FTSPostingKey_def FTSIndexedKey_def vaultScopedString_def
          vaultScoped_def FTSGlobalStatsKey_def)
    have other: "view (commit_ignored P d (writeStats ws (map (\<lambda>t. KDelete (FTSPostingKey ws t cid)) ts @
        [KDelete (FTSIndexedKey ws cid)]) s)) k = view d k" for ts s
    proof -
      let ?ops = "writeStats ws (map (\<lambda>t. KDelete (FTSPostingKey ws t cid)) ts @ [KDelete (FTSIndexedKey ws cid)]) s"
      obtain d' where "pb_commit P d ?ops = Inr d'" "view d' = apply_batch ?ops (view d)"
        by (rule pebble.reliable_commitE [OF assms(1,2)])
      moreover have "apply_batch ?ops (view d) k = view d k"
        by (rule apply_batch_other) (auto simp: writeStats_def op_key_def kinds)
      ultimately show ?thesis by (simp add: commit_ignored_def)
    qed
    then show ?thesis by (simp add: FTS_Delete_def Inr Some Let_def)
  qed (simp add: FTS_Delete_def Inr)
qed (simp add: FTS_Delete_def)

definition chunk_keys :: "ws \<Rightarrow> chunk \<Rightarrow> bytes set" where
  "chunk_keys ws c = {ChunkKey ws (c_ID c), EmbeddingKey ws (c_ID c), QuarantineKey ws (c_ID c)}"

lemma not_fts_kind [simp]:
  "\<not> fts_kind (ChunkKey ws i)" "\<not> fts_kind (EmbeddingKey ws i)" "\<not> fts_kind (QuarantineKey ws i)"
  "\<not> fts_kind (DocumentKey ws i)" "\<not> fts_kind (ContentHashKey ws i)" "\<not> fts_kind (PathDocKey ws i)"
  by (simp_all add: fts_kind_def scoped_key_defs vaultScopedString_def vaultScoped_def)

lemma delete_chunk_effect:
  assumes "pebble (pe_P E) view" and "reliable (pe_P E)"
  shows "\<not> fts_kind k \<Longrightarrow> view (ps_db (delete_chunk E ws c st)) k =
           (if k \<in> chunk_keys ws c then None else view (ps_db st) k)"
    and "ps_vec (delete_chunk E ws c st) = Vec_Delete (c_ID c) (ps_vec st)"
    and "ps_events (delete_chunk E ws c st) = ps_events st"
    and "ps_reingestDocs (delete_chunk E ws c st) = ps_reingestDocs st"
proof -
  have quar: "(case DeleteQuarantine (pe_P E) d ws i of Inr d' \<Rightarrow> d' | Inl e \<Rightarrow> d) = del_or (pe_P E) d (QuarantineKey ws i)"
    for d i by (simp add: DeleteQuarantine_def del_or_def)
  note view = FTS_Delete_other [OF assms] del_or_view [OF assms]
  show "\<not> fts_kind k \<Longrightarrow> view (ps_db (delete_chunk E ws c st)) k = (if k \<in> chunk_keys ws c then None else view (ps_db st) k)"
    using view(1) [of k "pe_unicode E" ws "c_ID c" "c_Content c"
        "del_or (pe_P E) (del_or (pe_P E) (del_or (pe_P E) (ps_db st) (ChunkKey ws (c_ID c))) (EmbeddingKey ws (c_ID c)))
           (QuarantineKey ws (c_ID c))" "ps_fts st"]
    by (auto simp: delete_chunk_def Let_def quar view(2) chunk_keys_def split: prod.split)
qed (simp_all add: delete_chunk_def Let_def split: prod.split)

lemma delete_chunks_effect:
  assumes "pebble (pe_P E) view" and "reliable (pe_P E)"
  shows "\<not> fts_kind k \<Longrightarrow> view (ps_db (fold (delete_chunk E ws) cs st)) k =
           (if \<exists>c \<in> set cs. k \<in> chunk_keys ws c then None else view (ps_db st) k)"
    and "map_of (vec_chunks (ps_vec (fold (delete_chunk E ws) cs st))) i =
           (if \<exists>c \<in> set cs. c_ID c = i then None else map_of (vec_chunks (ps_vec st)) i)"
    and "ps_events (fold (delete_chunk E ws) cs st) = ps_events st"
    and "ps_reingestDocs (fold (delete_chunk E ws) cs st) = ps_reingestDocs st"
  by (induction cs arbitrary: st)
    (auto simp: delete_chunk_effect [OF assms] Vec_Delete_def map_of_filter_neq)

lemma chunksOfDoc_set:
  assumes "pebble P view" and "reliable P" and "VaultKindRange PrefixChunk ws = Inr (lower, upper)"
  shows "set (chunksOfDoc P C d ws docID) =
    {c. \<exists>k val. in_range lower upper k \<and> view d k = Some val \<and> cd_unmarshal C val = Some c \<and> c_DocumentID c = docID}"
proof -
  obtain kvs where kvs: "pb_iter P d (Some lower) (Some upper) = Inr (kvs, None)"
    and set: "set kvs = {(k, v). in_bounds (Some lower) (Some upper) k \<and> view d k = Some v}"
    by (rule pebble.reliable_iterE [OF assms(1,2)])
  have "chunksOfDoc P C d ws docID =
      concat (map (\<lambda>(k, val). case cd_unmarshal C val of
                 Some c \<Rightarrow> if c_DocumentID c = docID then [c] else [] | None \<Rightarrow> []) kvs)"
    by (simp add: chunksOfDoc_def assms(3) DB_RangeScan_def kvs scan_loop_collect)
  then show ?thesis
    by (auto simp: set split: option.splits if_splits)
qed

lemma preserveEmbeds_keeps:
  assumes "pebble (pe_P E) view" and "reliable (pe_P E)" and "view d k \<noteq> None"
  shows "view (preserveEmbeds E ws embeds remap d) k \<noteq> None"
  using assms(3)
proof (induction remap arbitrary: d)
  case (Cons r remap)
  have set: "view (case DB_Set (pe_P E) d key raw of Inr d' \<Rightarrow> d' | Inl e \<Rightarrow> d) k \<noteq> None" for key raw
  proof -
    obtain d' where "pb_commit (pe_P E) d [KSet key raw] = Inr d'" "view d' = apply_batch [KSet key raw] (view d)"
      by (rule pebble.reliable_commitE [OF assms(1,2)])
    then show ?thesis using Cons.prems by (simp add: DB_Set_def)
  qed
  then show ?case
    using Cons.IH Cons.prems by (cases r) (auto simp: preserveEmbeds_def split: option.split)
qed (simp add: preserveEmbeds_def)

lemma chunk_range_head:
  assumes "VaultKindRange PrefixChunk ws = Inr (lower, upper)" and "in_range lower upper k"
  shows "\<exists>r. k = 0x03 # r"
proof -
  obtain wsPlus where "lower = 0x03 # ws" "upper = 0x03 # wsPlus"
    using assms(1) by (auto simp: VaultKindRange_def kindWSPrefix_def PrefixChunk_def gbind_Inr_iff)
  then show ?thesis
    using assms(2) by (cases k) (auto simp: in_range_def)
qed

text \<open>The event of a deletion: none without a readable record or during a re-ingestion.\<close>

definition deletion_events :: "string \<Rightarrow> bool \<Rightarrow> document option \<Rightarrow> doc_event list" where
  "deletion_events docID suppressed found =
     (case found of
        Some dc \<Rightarrow> if suppressed then []
                   else [\<lparr>ev_Type = EventDeleted, ev_DocumentID = docID, ev_SourcePath = d_FilePath dc,
                          ev_After = blank_document, ev_Deltas = []\<rparr>]
      | None \<Rightarrow> [])"

lemma delete_record_effect:
  assumes "pebble (pe_P E) view" and "reliable (pe_P E)"
  obtains st' where "delete_record E ws docID st = (None, st')"
    and "view (ps_db st') (DocumentKey ws docID) = None" and "ps_vec st' = ps_vec st"
    and "\<And>k. k \<noteq> DocumentKey ws docID \<Longrightarrow> k \<notin> range (ContentHashKey ws) \<union> range (PathDocKey ws) \<Longrightarrow>
           view (ps_db st') k = view (ps_db st) k"
    and "ps_events st' = ps_events st @
      deletion_events docID (docID \<in> ps_reingestDocs st)
        (Option.bind (view (ps_db st) (DocumentKey ws docID)) (cd_unmarshal (pe_doc E)))"
proof -
  let ?P = "pe_P E"
  have del: "\<exists>d'. DB_Delete ?P d k = Inr d' \<and> view d' = (view d)(k := None)" for d k
  proof -
    obtain d' where "pb_commit ?P d [KDelete k] = Inr d'" "view d' = apply_batch [KDelete k] (view d)"
      by (rule pebble.reliable_commitE [OF assms])
    then show ?thesis by (intro exI [of _ d']) (simp add: DB_Delete_def)
  qed
  note get = pebble.reliable_Get [OF assms]
  have docKey: "DocumentKey ws docID \<notin> range (ContentHashKey ws) \<union> range (PathDocKey ws)"
    by (auto simp: scoped_key_defs vaultScopedString_def vaultScoped_def)
  show thesis
  proof (cases "Option.bind (view (ps_db st) (DocumentKey ws docID)) (cd_unmarshal (pe_doc E))")
    case None
    then have found: "(case view (ps_db st) (DocumentKey ws docID) of None \<Rightarrow> None | Some raw \<Rightarrow> cd_unmarshal (pe_doc E) raw) = None"
      by (cases "view (ps_db st) (DocumentKey ws docID)") auto
    obtain d' where "DB_Delete ?P (ps_db st) (DocumentKey ws docID) = Inr d'" "view d' = (view (ps_db st))(DocumentKey ws docID := None)"
      using del by blast
    then show thesis
      using None found by (intro that [of "st\<lparr>ps_reingestDocs := ps_reingestDocs st - {docID}, ps_db := d'\<rparr>"])
        (auto simp: delete_record_def deletion_events_def Let_def get split: option.splits)
  next
    case (Some dc)
    then obtain raw where raw: "view (ps_db st) (DocumentKey ws docID) = Some raw" "cd_unmarshal (pe_doc E) raw = Some dc"
      by (cases "view (ps_db st) (DocumentKey ws docID)") auto
    let ?d = "del_or ?P (del_or ?P (ps_db st) (ContentHashKey ws (d_ContentHash dc))) (PathDocKey ws (d_FilePath dc))"
    obtain d' where d': "DB_Delete ?P ?d (DocumentKey ws docID) = Inr d'" "view d' = (view ?d)(DocumentKey ws docID := None)"
      using del by blast
    show thesis
    proof (rule that)
      show "delete_record E ws docID st =
          (None, (if docID \<in> ps_reingestDocs st then st\<lparr>ps_reingestDocs := ps_reingestDocs st - {docID}, ps_db := d'\<rparr>
            else st\<lparr>ps_reingestDocs := ps_reingestDocs st - {docID}, ps_db := d',
              ps_events := ps_events st @ [\<lparr>ev_Type = EventDeleted, ev_DocumentID = docID, ev_SourcePath = d_FilePath dc,
                ev_After = blank_document, ev_Deltas = []\<rparr>]\<rparr>))"
        by (simp add: delete_record_def Let_def get raw d'(1))
    qed (use Some in \<open>auto simp: d'(2) del_or_view [OF assms] deletion_events_def\<close>)
  qed
qed

section \<open>Properties\<close>

text \<open>C15: deleting a document is exact. Where every chunk record stands under its own key,
  \<open>deleteDocLocked\<close> succeeds and leaves no chunk of the document, no document record, and for each of
  its chunks no embedding, quarantine entry or vector; apart from the full-text postings and the
  content-hash and path indexes every other key keeps its value, so the fingerprints and queue records
  of the chunks stay behind; and DELETED is published once, unless the document had no record or is
  being re-ingested.\<close>

theorem delete_doc_exact:
  assumes "pebble (pe_P E) view" and "reliable (pe_P E)"
    and "VaultKindRange PrefixChunk ws = Inr (lower, upper)"
    and "\<forall>k val c. in_range lower upper k \<and> view (ps_db st) k = Some val \<and> cd_unmarshal (pe_chunk E) val = Some c \<longrightarrow>
           k = ChunkKey ws (c_ID c)"
  shows "\<exists>st'. deleteDocLocked E ws docID st = (None, st') \<and>
    chunksOfDoc (pe_P E) (pe_chunk E) (ps_db st') ws docID = [] \<and>
    view (ps_db st') (DocumentKey ws docID) = None \<and>
    (\<forall>c \<in> set (chunksOfDoc (pe_P E) (pe_chunk E) (ps_db st) ws docID).
       view (ps_db st') (EmbeddingKey ws (c_ID c)) = None \<and> view (ps_db st') (QuarantineKey ws (c_ID c)) = None \<and>
       map_of (vec_chunks (ps_vec st')) (c_ID c) = None) \<and>
    (\<forall>k. \<not> fts_kind k \<and> k \<noteq> DocumentKey ws docID \<and> k \<notin> range (ContentHashKey ws) \<union> range (PathDocKey ws) \<and>
       (\<forall>c \<in> set (chunksOfDoc (pe_P E) (pe_chunk E) (ps_db st) ws docID). k \<notin> chunk_keys ws c) \<longrightarrow>
       view (ps_db st') k = view (ps_db st) k) \<and>
    ps_events st' = ps_events st @
      deletion_events docID (docID \<in> ps_reingestDocs st)
        (Option.bind (view (ps_db st) (DocumentKey ws docID)) (cd_unmarshal (pe_doc E)))"
proof -
  let ?cs = "chunksOfDoc (pe_P E) (pe_chunk E) (ps_db st) ws docID"
  define st1 where "st1 = fold (delete_chunk E ws) ?cs st"
  define st2 where "st2 = (if ?cs \<noteq> [] then indexChanged ws st1 else st1)"
  have same: "ps_db st2 = ps_db st1" "ps_vec st2 = ps_vec st1" "ps_events st2 = ps_events st" "ps_reingestDocs st2 = ps_reingestDocs st"
    by (simp_all add: st2_def indexChanged_def st1_def delete_chunks_effect [OF assms(1,2)])
  note eff = delete_chunks_effect [OF assms(1,2), where ws = ws and cs = ?cs and st = st, folded st1_def]
  have doc2: "view (ps_db st1) (DocumentKey ws docID) = view (ps_db st) (DocumentKey ws docID)"
    by (subst eff(1), simp) (auto simp: chunk_keys_def scoped_key_defs vaultScopedString_def vaultScoped_def)
  obtain st' where st': "delete_record E ws docID st2 = (None, st')"
      "view (ps_db st') (DocumentKey ws docID) = None" "ps_vec st' = ps_vec st2"
    and other: "\<And>k. k \<noteq> DocumentKey ws docID \<Longrightarrow> k \<notin> range (ContentHashKey ws) \<union> range (PathDocKey ws) \<Longrightarrow>
           view (ps_db st') k = view (ps_db st1) k"
    and ev: "ps_events st' = ps_events st @
      deletion_events docID (docID \<in> ps_reingestDocs st)
        (Option.bind (view (ps_db st) (DocumentKey ws docID)) (cd_unmarshal (pe_doc E)))"
    by (rule delete_record_effect [OF assms(1,2), of ws docID st2]) (rule that, simp_all add: same doc2)
  have keys: "k \<noteq> DocumentKey ws docID \<and> k \<notin> range (ContentHashKey ws) \<union> range (PathDocKey ws)" if "k \<in> chunk_keys ws c" for k c
    using that by (auto simp: chunk_keys_def scoped_key_defs vaultScopedString_def vaultScoped_def)
  have gone: "view (ps_db st') k = None" if "c \<in> set ?cs" "k \<in> chunk_keys ws c" for c k
    using other [of k] keys [OF that(2)] eff(1) [of k] that by (auto simp: chunk_keys_def)
  have run: "deleteDocLocked E ws docID st = (None, st')"
    unfolding deleteDocLocked_def assms(3) Let_def using st'(1) [unfolded st2_def st1_def] by simp
  have "\<not> (in_range lower upper k \<and> view (ps_db st') k = Some val \<and> cd_unmarshal (pe_chunk E) val = Some c \<and> c_DocumentID c = docID)"
    for k val c
  proof
    assume h: "in_range lower upper k \<and> view (ps_db st') k = Some val \<and> cd_unmarshal (pe_chunk E) val = Some c \<and> c_DocumentID c = docID"
    then obtain r where r: "k = 0x03 # r"
      using chunk_range_head [OF assms(3)] by blast
    then have "k \<noteq> DocumentKey ws docID" "k \<notin> range (ContentHashKey ws) \<union> range (PathDocKey ws)" "\<not> fts_kind k"
      by (auto simp: scoped_key_defs vaultScopedString_def vaultScoped_def fts_kind_def)
    then have "view (ps_db st) k = Some val" and away: "\<forall>c \<in> set ?cs. k \<notin> chunk_keys ws c"
      using other [of k] eff(1) [of k] h by (auto split: if_splits)
    then have "k = ChunkKey ws (c_ID c)" and "c \<in> set ?cs"
      using h assms(4) chunksOfDoc_set [OF assms(1-3), of "pe_chunk E" "ps_db st" docID] by blast+
    then show False
      using away by (auto simp: chunk_keys_def)
  qed
  then have none: "chunksOfDoc (pe_P E) (pe_chunk E) (ps_db st') ws docID = []"
    unfolding set_empty [symmetric] chunksOfDoc_set [OF assms(1-3)] by blast
  show ?thesis
    using run st'(2) none gone ev other eff same
    by (intro exI [of _ st'] conjI) (auto simp: chunk_keys_def st'(3))
qed

text \<open>A small instance: chunk records read as one chunk, document records as one document.\<close>

definition demo_pipe :: "(bytes \<times> bytes) list pipe_env" where
  "demo_pipe =
     \<lparr>pe_P = mem_pebble,
      pe_doc = \<lparr>cd_marshal = (\<lambda>x. Some []), cd_unmarshal = (\<lambda>b. Some blank_document)\<rparr>,
      pe_chunk = \<lparr>cd_marshal = (\<lambda>x. Some []), cd_unmarshal = (\<lambda>b. Some (blank_chunk\<lparr>c_ID := ''c'', c_DocumentID := ''d''\<rparr>))\<rparr>,
      pe_item = \<lparr>cd_marshal = (\<lambda>x. Some []), cd_unmarshal = (\<lambda>b. None)\<rparr>,
      pe_verdict = \<lparr>cd_marshal = (\<lambda>x. Some []), cd_unmarshal = (\<lambda>b. None)\<rparr>,
      pe_embModel = (\<lambda>b. None), pe_unicode = ascii_tables, pe_splitter = NewSplitter 512 0, pe_model = ''m'',
      pe_reader = (\<lambda>ext. Some (\<lambda>raw path. Inr (bytes_str raw, []))),
      pe_sha = (\<lambda>b. take 4 b), pe_fmt = (\<lambda>v. []), pe_sort = sort_key mk_off, pe_detector = None, pe_redact = None,
      pe_nearDupK = 0\<rparr>"

definition demo_state :: "(bytes \<times> bytes) list \<Rightarrow> (bytes \<times> bytes) list pipe_state" where
  "demo_state d =
     \<lparr>ps_db = d, ps_fts = NewFTS, ps_vec = NewVector, ps_changes = [], ps_events = [], ps_jobs = [],
      ps_reingest = Map.empty, ps_reingestDocs = {}\<rparr>"

lemma demo_pipe_store: "pebble (pe_P demo_pipe) map_of" "reliable (pe_P demo_pipe)"
  by (simp_all add: demo_pipe_def mem.pebble_axioms)

theorem delete_doc_exact_witness:
  "\<exists>st'. deleteDocLocked demo_pipe (replicate 8 1) ''d''
       (demo_state [(ChunkKey (replicate 8 1) ''c'', []), (DocumentKey (replicate 8 1) ''d'', [])]) = (None, st') \<and>
     map_of (ps_db st') (DocumentKey (replicate 8 1) ''d'') = None \<and>
     chunksOfDoc mem_pebble (pe_chunk demo_pipe) (ps_db st') (replicate 8 1) ''d'' = [] \<and>
     map ev_Type (ps_events st') = [EventDeleted]"
proof -
  let ?ws = "replicate 8 1 :: ws"
  let ?st = "demo_state [(ChunkKey ?ws ''c'', []), (DocumentKey ?ws ''d'', [])]"
  have range: "VaultKindRange PrefixChunk ?ws = Inr ([3, 1, 1, 1, 1, 1, 1, 1, 1], [3, 1, 1, 1, 1, 1, 1, 1, 2])"
    by code_simp
  have own: "\<forall>k val c. in_range [3, 1, 1, 1, 1, 1, 1, 1, 1] [3, 1, 1, 1, 1, 1, 1, 1, 2] k \<and>
      map_of (ps_db ?st) k = Some val \<and> cd_unmarshal (pe_chunk demo_pipe) val = Some c \<longrightarrow> k = ChunkKey ?ws (c_ID c)"
    using chunk_range_head [OF range, of "DocumentKey ?ws ''d''"]
    by (auto simp: demo_state_def demo_pipe_def DocumentKey_def vaultScopedString_def vaultScoped_def split: if_splits)
  have doc: "Option.bind (map_of (ps_db ?st) (DocumentKey ?ws ''d'')) (cd_unmarshal (pe_doc demo_pipe)) = Some blank_document"
    by (simp add: demo_state_def demo_pipe_def scoped_key_defs vaultScopedString_def vaultScoped_def)
  have "map ev_Type (ps_events ?st @ deletion_events ''d'' (''d'' \<in> ps_reingestDocs ?st) (Some blank_document)) = [EventDeleted]"
    by (simp add: demo_state_def deletion_events_def)
  then show ?thesis
    using delete_doc_exact [OF demo_pipe_store range own, where docID = "''d''", unfolded doc]
    by (elim exE conjE) (intro exI conjI, assumption, assumption, simp_all add: demo_pipe_def)
qed

text \<open>C16: ingestion is idempotent by content. Once a file has been ingested, the same bytes under any
  path, unless that path is being re-ingested, are skipped and nothing changes.\<close>

theorem ingest_idempotent:
  assumes "pebble (pe_P E) view" and "reliable (pe_P E)"
    and "processFile E now ws path (Inr raw) st = ((''NEW'', None), st1)"
    and "ps_reingest st1 (path_Clean path2) = None"
  shows "processFile E now2 ws path2 (Inr raw) st1 = ((''SKIPPED'', None), st1)"
proof -
  let ?key = "ContentHashKey ws (ContentHash (pe_sha E) raw)"
  obtain capt st0 doc chunks sd d where
    d: "storeDocument E ws doc chunks (ContentHash (pe_sha E) raw) (ps_db st0) = (None, d)"
    and st1: "st1 = publish_ingest E ws path capt doc chunks sd (st0\<lparr>ps_db := d\<rparr>)"
    using assms(3) by (auto simp: processFile_def Let_def split: prod.splits sum.splits option.splits)
  have "view d ?key \<noteq> None"
    using d set_seq_effect [OF assms(1,2), of "store_writes E ws doc chunks (ContentHash (pe_sha E) raw)" "ps_db st0"]
    by (auto simp: storeDocument_def store_writes_def)
  then have "view (ps_db st1) ?key \<noteq> None"
    using preserveEmbeds_keeps [OF assms(1,2), of d ?key ws]
    unfolding st1 by (auto simp: publish_ingest_def Let_def add_event_def split: option.splits prod.splits)
  then obtain v where "DB_Get (pe_P E) (ps_db st1) ?key = Inr (Some v)"
    using pebble.reliable_Get [OF assms(1,2)] by auto
  moreover have "takeReingest path2 st1 = (None, st1)"
    using assms(4) by (simp add: takeReingest_def fun_upd_idem)
  ultimately show ?thesis
    by (simp add: processFile_def reingestEarlyReturn_def)
qed

theorem ingest_idempotent_witness:
  "\<exists>st1. processFile demo_pipe 0 (replicate 8 1) ''a'' (Inr []) (demo_state []) = ((''NEW'', None), st1) \<and>
     processFile demo_pipe 5 (replicate 8 1) ''b'' (Inr []) st1 = ((''SKIPPED'', None), st1)"
proof -
  let ?r = "processFile demo_pipe 0 (replicate 8 1) ''a'' (Inr []) (demo_state [])"
  have "fst ?r = (''NEW'', None) \<and> ps_reingest (snd ?r) (path_Clean ''b'') = None"
    by code_simp
  then have r: "?r = ((''NEW'', None), snd ?r)" and none: "ps_reingest (snd ?r) (path_Clean ''b'') = None"
    by (metis prod.collapse, simp)
  from ingest_idempotent [OF demo_pipe_store r none] show ?thesis
    using r by blast
qed

end
