(* ===== verification/Near_Dup.thy ===== *)
theory Near_Dup
  imports Indexes Utf8 "HOL-Library.Multiset"
begin

text \<open>
  Fingerprints of near duplicates, \<open>internal/near/simhash.go\<close>: SimHash over the lower-case words of a
  text. SHA-256 is the parameter \<open>sha\<close>, of which the first eight bytes are used.
\<close>

definition hash64 :: "(bytes \<Rightarrow> bytes) \<Rightarrow> string \<Rightarrow> 64 word" where
  "hash64 sha s = be_uint64 (sha (str_bytes s))"

text \<open>One word votes on every bit; the counters \<open>v\<close> are a list of 64.\<close>

definition vote :: "64 word \<Rightarrow> int list \<Rightarrow> int list" where
  "vote h v = map (\<lambda>(i, x). if bit h i then x + 1 else x - 1) (enumerate 0 v)"

definition SimHash :: "(bytes \<Rightarrow> bytes) \<Rightarrow> unicode \<Rightarrow> string \<Rightarrow> 64 word" where
  "SimHash sha u text =
     (let tokens = Fields (ToLower u text);
          v = fold (\<lambda>tok. vote (hash64 sha tok)) tokens (replicate 64 0)
      in fold (\<lambda>i fp. if 0 < v ! i then set_bit i fp else fp) [0 ..< 64] 0)"

definition OnesCount64 :: "64 word \<Rightarrow> nat" where
  "OnesCount64 w = length (filter (bit w) [0 ..< 64])"

definition HammingNear :: "64 word \<Rightarrow> 64 word \<Rightarrow> int \<Rightarrow> bool" where
  "HammingNear a b k \<longleftrightarrow> int (OnesCount64 (xor a b)) \<le> k"

lemma nth_vote: "i < length v \<Longrightarrow> vote h v ! i = (if bit h i then v ! i + 1 else v ! i - 1)"
  by (simp add: vote_def nth_enumerate_eq)

lemma length_vote [simp]: "length (vote h v) = length v"
  by (simp add: vote_def)

lemma vote_commute: "vote h (vote h' v) = vote h' (vote h v)"
  by (rule nth_equalityI) (simp_all add: nth_vote)

text \<open>The fingerprint is that of a bag of words.\<close>

lemma SimHash_bag:
  assumes "mset (Fields (ToLower u s)) = mset (Fields (ToLower u t))"
  shows "SimHash sha u s = SimHash sha u t"
proof -
  have "fold (\<lambda>tok. vote (hash64 sha tok)) (Fields (ToLower u s)) (replicate 64 0) =
      fold (\<lambda>tok. vote (hash64 sha tok)) (Fields (ToLower u t)) (replicate 64 0)"
    by (rule fun_cong [OF fold_multiset_equiv]) (simp_all add: fun_eq_iff vote_commute assms)
  then show ?thesis
    by (simp add: SimHash_def Let_def)
qed

lemma HammingNear_same: "HammingNear a a k \<longleftrightarrow> 0 \<le> k"
  by (simp add: HammingNear_def OnesCount64_def)

lemma HammingNear_commute: "HammingNear a b k = HammingNear b a k"
  by (simp add: HammingNear_def xor.commute)

end
