(* ===== verification/Config.thy ===== *)
theory Config
  imports Complex_Main Go_Strings Prefixer
begin

text \<open>
  The configuration, \<open>internal/config/config.go\<close>: its defaults, the resolution of absent values,
  validation, the JSON file with the environment over it, and access by key. A decoded JSON object
  is a map; the text form of JSON and of floating-point numbers, URLs and name resolution belong to
  Go's library and are parameters. An error keeps the key it is about, not the whole message.
\<close>

section \<open>The record\<close>

record config =
  cf_OllamaURL :: string
  cf_EmbeddingModel :: string
  cf_EmbeddingPrefix :: string
  cf_EmbeddingQueryPrefix :: string
  cf_EmbeddingDocPrefix :: string
  cf_WatchDirs :: "string list"
  cf_ChunkSize :: int
  cf_ChunkOverlap :: int
  cf_DBPath :: string
  cf_FileGlob :: string
  cf_PollIntervalSec :: int
  cf_MCPAddr :: string
  cf_MCPToken :: string
  cf_RerankModel :: string
  cf_RerankCandidates :: int
  cf_RerankRetryOnFailure :: bool
  cf_RRFK :: int
  cf_QueryCacheEnabled :: bool
  cf_QueryCacheResults :: int
  cf_QueryCacheEmbeddings :: int
  cf_PoolSize :: int
  cf_AdaptiveDepthEnabled :: bool
  cf_EnrichmentEnabled :: bool
  cf_EnrichmentModel :: string
  cf_CaptioningEnabled :: bool
  cf_CaptioningModel :: string
  cf_CaptioningProvider :: string
  cf_CaptioningEndpoint :: string
  cf_CaptioningAPIKey :: string
  cf_EmbeddingProvider :: string
  cf_EmbeddingEndpoint :: string
  cf_EmbeddingAPIKey :: string
  cf_EnrichmentProvider :: string
  cf_EnrichmentEndpoint :: string
  cf_EnrichmentAPIKey :: string
  cf_RerankProvider :: string
  cf_RerankEndpoint :: string
  cf_RerankAPIKey :: string
  cf_PoisoningEnabled :: bool
  cf_PoisoningThresholdSuspicious :: real
  cf_PoisoningThresholdQuarantine :: real
  cf_PoisoningPhraseList :: string
  cf_MetricsEnabled :: bool
  cf_OTelExport :: string
  cf_OTelEndpoint :: string
  cf_AuditLogEnabled :: bool
  cf_AuditLogMaxBytes :: int
  cf_AuditPath :: string
  cf_PIIRedactEnabled :: bool
  cf_PIIPatterns :: string
  cf_NearDupHamming :: int
  cf_BridgeEnabled :: bool
  cf_BridgeEndpoint :: string
  cf_BridgeSourceVault :: string
  cf_BridgeTargetVault :: string
  cf_BridgeMaxInFlight :: int
  cf_BridgeRatePerSec :: int
  cf_BridgeWorkers :: int
  cf_BridgeBatchSize :: int
  cf_BridgeConnectTimeoutMs :: int
  cf_BridgeRequestTimeoutMs :: int
  cf_BridgeBackfillAutoOnEnable :: bool
  cf_BridgeAllowExternal :: bool

definition DefaultRRFK :: int where "DefaultRRFK = 60"
definition DefaultPoolSize :: int where "DefaultPoolSize = 60"
definition DefaultQueryCacheResults :: int where "DefaultQueryCacheResults = 256"
definition DefaultQueryCacheEmbeddings :: int where "DefaultQueryCacheEmbeddings = 512"
definition DefaultPoisonThresholdSuspicious :: real where "DefaultPoisonThresholdSuspicious = 40 / 100"
definition DefaultPoisonThresholdQuarantine :: real where "DefaultPoisonThresholdQuarantine = 70 / 100"
definition DefaultNearDupHamming :: int where "DefaultNearDupHamming = 3"
definition DefaultOTelExport :: string where "DefaultOTelExport = ''stdout''"
definition DefaultAuditLogMaxBytes :: int where "DefaultAuditLogMaxBytes = 16 * 2 ^ 20"
definition DefaultBridgeEndpoint :: string where "DefaultBridgeEndpoint = ''127.0.0.1:8477''"
definition DefaultBridgeSourceVault :: string where "DefaultBridgeSourceVault = ''default''"
definition DefaultBridgeTargetVault :: string where "DefaultBridgeTargetVault = ''go-rag''"
definition DefaultBridgeMaxInFlight :: int where "DefaultBridgeMaxInFlight = 8"
definition DefaultBridgeWorkers :: int where "DefaultBridgeWorkers = 4"
definition DefaultBridgeBatchSize :: int where "DefaultBridgeBatchSize = 50"
definition DefaultBridgeConnectMs :: int where "DefaultBridgeConnectMs = 5000"
definition DefaultBridgeRequestMs :: int where "DefaultBridgeRequestMs = 30000"

definition Default :: config where
  "Default =
     \<lparr>cf_OllamaURL = ''http://localhost:11434'',
      cf_EmbeddingModel = [],
      cf_EmbeddingPrefix = ''auto'',
      cf_EmbeddingQueryPrefix = [],
      cf_EmbeddingDocPrefix = [],
      cf_WatchDirs = [''.''],
      cf_ChunkSize = 512,
      cf_ChunkOverlap = 50,
      cf_DBPath = ''./.go-rag'',
      cf_FileGlob = ''*'',
      cf_PollIntervalSec = 60,
      cf_MCPAddr = ''127.0.0.1:7878'',
      cf_MCPToken = [],
      cf_RerankModel = [],
      cf_RerankCandidates = 20,
      cf_RerankRetryOnFailure = False,
      cf_RRFK = 60,
      cf_QueryCacheEnabled = True,
      cf_QueryCacheResults = DefaultQueryCacheResults,
      cf_QueryCacheEmbeddings = DefaultQueryCacheEmbeddings,
      cf_PoolSize = DefaultPoolSize,
      cf_AdaptiveDepthEnabled = False,
      cf_EnrichmentEnabled = False,
      cf_EnrichmentModel = [],
      cf_CaptioningEnabled = False,
      cf_CaptioningModel = [],
      cf_CaptioningProvider = [],
      cf_CaptioningEndpoint = [],
      cf_CaptioningAPIKey = [],
      cf_EmbeddingProvider = [],
      cf_EmbeddingEndpoint = [],
      cf_EmbeddingAPIKey = [],
      cf_EnrichmentProvider = [],
      cf_EnrichmentEndpoint = [],
      cf_EnrichmentAPIKey = [],
      cf_RerankProvider = [],
      cf_RerankEndpoint = [],
      cf_RerankAPIKey = [],
      cf_PoisoningEnabled = True,
      cf_PoisoningThresholdSuspicious = DefaultPoisonThresholdSuspicious,
      cf_PoisoningThresholdQuarantine = DefaultPoisonThresholdQuarantine,
      cf_PoisoningPhraseList = [],
      cf_MetricsEnabled = True,
      cf_OTelExport = DefaultOTelExport,
      cf_OTelEndpoint = [],
      cf_AuditLogEnabled = True,
      cf_AuditLogMaxBytes = DefaultAuditLogMaxBytes,
      cf_AuditPath = [],
      cf_PIIRedactEnabled = False,
      cf_PIIPatterns = [],
      cf_NearDupHamming = DefaultNearDupHamming,
      cf_BridgeEnabled = False,
      cf_BridgeEndpoint = [],
      cf_BridgeSourceVault = [],
      cf_BridgeTargetVault = [],
      cf_BridgeMaxInFlight = 0,
      cf_BridgeRatePerSec = 0,
      cf_BridgeWorkers = 0,
      cf_BridgeBatchSize = 0,
      cf_BridgeConnectTimeoutMs = 0,
      cf_BridgeRequestTimeoutMs = 0,
      cf_BridgeBackfillAutoOnEnable = False,
      cf_BridgeAllowExternal = False\<rparr>"

section \<open>Effective values\<close>

text \<open>An absent or empty value stands for the default.\<close>

definition or_default :: "string \<Rightarrow> string \<Rightarrow> string" where
  "or_default s dflt = (if s = [] then dflt else s)"

definition positive_or :: "'a :: linordered_idom \<Rightarrow> 'a \<Rightarrow> 'a" where
  "positive_or x dflt = (if 0 < x then x else dflt)"

definition EffectiveMetricsEnabled :: "config \<Rightarrow> bool" where
  "EffectiveMetricsEnabled c = cf_MetricsEnabled c"
definition EffectiveOTelExport :: "config \<Rightarrow> string" where
  "EffectiveOTelExport c = or_default (cf_OTelExport c) DefaultOTelExport"
definition EffectiveAuditLogEnabled :: "config \<Rightarrow> bool" where
  "EffectiveAuditLogEnabled c = cf_AuditLogEnabled c"
definition EffectiveAuditLogMaxBytes :: "config \<Rightarrow> int" where
  "EffectiveAuditLogMaxBytes c = positive_or (cf_AuditLogMaxBytes c) DefaultAuditLogMaxBytes"
definition EffectiveRRFK :: "config \<Rightarrow> int" where
  "EffectiveRRFK c = positive_or (cf_RRFK c) DefaultRRFK"
definition EffectivePoolSize :: "config \<Rightarrow> int" where
  "EffectivePoolSize c = positive_or (cf_PoolSize c) DefaultPoolSize"
definition EffectiveAdaptiveDepthEnabled :: "config \<Rightarrow> bool" where
  "EffectiveAdaptiveDepthEnabled c = cf_AdaptiveDepthEnabled c"
definition EffectivePoisoningEnabled :: "config \<Rightarrow> bool" where
  "EffectivePoisoningEnabled c = cf_PoisoningEnabled c"
definition EffectiveEnrichmentEnabled :: "config \<Rightarrow> bool" where
  "EffectiveEnrichmentEnabled c = cf_EnrichmentEnabled c"
definition EffectiveCaptioningEnabled :: "config \<Rightarrow> bool" where
  "EffectiveCaptioningEnabled c = cf_CaptioningEnabled c"
definition EffectivePoisonThresholdSuspicious :: "config \<Rightarrow> real" where
  "EffectivePoisonThresholdSuspicious c = positive_or (cf_PoisoningThresholdSuspicious c) DefaultPoisonThresholdSuspicious"
definition EffectivePoisonThresholdQuarantine :: "config \<Rightarrow> real" where
  "EffectivePoisonThresholdQuarantine c = positive_or (cf_PoisoningThresholdQuarantine c) DefaultPoisonThresholdQuarantine"
definition EffectiveNearDupHamming :: "config \<Rightarrow> int" where
  "EffectiveNearDupHamming c = positive_or (cf_NearDupHamming c) DefaultNearDupHamming"

definition EffectiveBridgeEnabled :: "config \<Rightarrow> bool" where
  "EffectiveBridgeEnabled c = cf_BridgeEnabled c"
definition EffectiveBridgeEndpoint :: "config \<Rightarrow> string" where
  "EffectiveBridgeEndpoint c = or_default (cf_BridgeEndpoint c) DefaultBridgeEndpoint"
definition EffectiveBridgeSourceVault :: "config \<Rightarrow> string" where
  "EffectiveBridgeSourceVault c = or_default (cf_BridgeSourceVault c) DefaultBridgeSourceVault"
definition EffectiveBridgeTargetVault :: "config \<Rightarrow> string" where
  "EffectiveBridgeTargetVault c = or_default (cf_BridgeTargetVault c) DefaultBridgeTargetVault"
definition EffectiveBridgeMaxInFlight :: "config \<Rightarrow> int" where
  "EffectiveBridgeMaxInFlight c = positive_or (cf_BridgeMaxInFlight c) DefaultBridgeMaxInFlight"
definition EffectiveBridgeWorkers :: "config \<Rightarrow> int" where
  "EffectiveBridgeWorkers c = positive_or (cf_BridgeWorkers c) DefaultBridgeWorkers"
definition EffectiveBridgeBatchSize :: "config \<Rightarrow> int" where
  "EffectiveBridgeBatchSize c =
     (let n = positive_or (cf_BridgeBatchSize c) DefaultBridgeBatchSize
      in if DefaultBridgeBatchSize < n then DefaultBridgeBatchSize else n)"
definition EffectiveBridgeConnectTimeoutMs :: "config \<Rightarrow> int" where
  "EffectiveBridgeConnectTimeoutMs c = positive_or (cf_BridgeConnectTimeoutMs c) DefaultBridgeConnectMs"
definition EffectiveBridgeRequestTimeoutMs :: "config \<Rightarrow> int" where
  "EffectiveBridgeRequestTimeoutMs c = positive_or (cf_BridgeRequestTimeoutMs c) DefaultBridgeRequestMs"

section \<open>Validation\<close>

text \<open>
  \<open>net/url\<close> and \<open>net\<close>: the scheme and host of a URL, the host and port of an address, whether a
  text is an IP address (and a loopback one), the addresses of a host name.
\<close>

record net_ops =
  url_Parse :: "string \<Rightarrow> (string \<times> string) option"
  SplitHostPort :: "string \<Rightarrow> (string \<times> string) option"
  ParseIP :: "string \<Rightarrow> bool option"
  LookupHost :: "string \<Rightarrow> string list option"

definition isLoopbackAddr :: "net_ops \<Rightarrow> string \<Rightarrow> bool" where
  "isLoopbackAddr N addr =
     (case SplitHostPort N addr of
        None \<Rightarrow> False
      | Some (host, port) \<Rightarrow>
          if host = [] then False
          else case ParseIP N host of
                 Some loopback \<Rightarrow> loopback
               | None \<Rightarrow>
                   (case LookupHost N host of
                      None \<Rightarrow> False
                    | Some ips \<Rightarrow> ips \<noteq> [] \<and> list_all (\<lambda>s. ParseIP N s = Some True) ips))"

text \<open>The checks in their order; the first that fails is reported.\<close>

fun first_failed :: "(bool \<times> string) list \<Rightarrow> go_error option" where
  "first_failed [] = None"
| "first_failed ((bad, msg) # cs) = (if bad then Some (Failed msg) else first_failed cs)"

definition Validate :: "net_ops \<Rightarrow> config \<Rightarrow> go_error option" where
  "Validate N c = first_failed
     [(case url_Parse N (cf_OllamaURL c) of None \<Rightarrow> True | Some (scheme, host) \<Rightarrow> scheme = [] \<or> host = [], ''ollama_url''),
      (cf_ChunkSize c \<le> 0, ''chunk_size''),
      (cf_ChunkOverlap c < 0, ''chunk_overlap''),
      (cf_PollIntervalSec c \<le> 0, ''poll_interval_secs''),
      (cf_RRFK c < 0, ''rrf_k''),
      (cf_PoolSize c < 0, ''pool_size''),
      (cf_QueryCacheResults c < 0, ''query_cache_results''),
      (cf_QueryCacheEmbeddings c < 0, ''query_cache_embeddings''),
      (cf_PoisoningThresholdSuspicious c < 0 \<or> 1 < cf_PoisoningThresholdSuspicious c, ''poisoning_threshold_suspicious''),
      (cf_PoisoningThresholdQuarantine c < 0 \<or> 1 < cf_PoisoningThresholdQuarantine c, ''poisoning_threshold_quarantine''),
      (cf_NearDupHamming c < 0, ''near_dup_hamming''),
      (EffectivePoisonThresholdQuarantine c < EffectivePoisonThresholdSuspicious c, ''poisoning_threshold_suspicious''),
      (EffectiveOTelExport c \<notin> {''none'', ''stdout'', ''otlp''}, ''otel_export''),
      (EffectiveOTelExport c = ''otlp'' \<and> cf_OTelEndpoint c = [], ''otel_endpoint''),
      (cf_AuditLogMaxBytes c < 0, ''audit_log_max_bytes''),
      (cf_MCPAddr c \<noteq> [] \<and> SplitHostPort N (cf_MCPAddr c) = None, ''mcp_addr''),
      (EffectiveBridgeEnabled c \<and> \<not> cf_BridgeAllowExternal c \<and> \<not> isLoopbackAddr N (EffectiveBridgeEndpoint c),
       ''bridge_endpoint''),
      (EffectiveBridgeEnabled c \<and> (cf_BridgeWorkers c < 0 \<or> 64 < cf_BridgeWorkers c), ''bridge_workers'')]"

section \<open>Numbers and truth values\<close>

text \<open>\<open>strconv.Atoi\<close> on a 64-bit machine and \<open>strconv.ParseBool\<close>.\<close>

definition is_digit :: "char \<Rightarrow> bool" where
  "is_digit c \<longleftrightarrow> CHR ''0'' \<le> c \<and> c \<le> CHR ''9''"

definition digits_value :: "string \<Rightarrow> int" where
  "digits_value s = foldl (\<lambda>n c. 10 * n + (of_char c - 48)) 0 s"

definition Atoi :: "string \<Rightarrow> int option" where
  "Atoi s =
     (let neg = (s \<noteq> [] \<and> hd s = CHR ''-'');
          ds = (if s \<noteq> [] \<and> hd s \<in> {CHR ''-'', CHR ''+''} then tl s else s);
          n = (if neg then - digits_value ds else digits_value ds)
      in if ds \<noteq> [] \<and> list_all is_digit ds \<and> - (2 ^ 63) \<le> n \<and> n < 2 ^ 63 then Some n else None)"

definition ParseBool :: "string \<Rightarrow> bool option" where
  "ParseBool s =
     (if s \<in> set [''1'', ''t'', ''T'', ''TRUE'', ''true'', ''True''] then Some True
      else if s \<in> set [''0'', ''f'', ''F'', ''FALSE'', ''false'', ''False''] then Some False
      else None)"

section \<open>The file\<close>

datatype json =
  JNull | JBool bool | JInt int | JReal real | JStr string | JArr "json list" | JObj

datatype field_kind = KStr | KInt | KBool | KReal | KStrs

text \<open>What \<open>encoding/json\<close> accepts for a field of a type; null leaves the zero value.\<close>

definition has_kind :: "field_kind \<Rightarrow> json \<Rightarrow> bool" where
  "has_kind k v =
     (case v of
        JNull \<Rightarrow> True
      | JBool _ \<Rightarrow> k = KBool
      | JInt n \<Rightarrow> k = KInt \<and> - (2 ^ 63) \<le> n \<and> n < 2 ^ 63 \<or> k = KReal
      | JReal _ \<Rightarrow> k = KReal
      | JStr _ \<Rightarrow> k = KStr
      | JArr vs \<Rightarrow> k = KStrs \<and> list_all (\<lambda>v. case v of JStr _ \<Rightarrow> True | JNull \<Rightarrow> True | _ \<Rightarrow> False) vs
      | JObj \<Rightarrow> False)"

definition get_str :: "json option \<Rightarrow> string" where
  "get_str v = (case v of Some (JStr s) \<Rightarrow> s | _ \<Rightarrow> [])"
definition get_int :: "json option \<Rightarrow> int" where
  "get_int v = (case v of Some (JInt n) \<Rightarrow> n | _ \<Rightarrow> 0)"
definition get_bool :: "json option \<Rightarrow> bool" where
  "get_bool v = (case v of Some (JBool b) \<Rightarrow> b | _ \<Rightarrow> False)"
definition get_real :: "json option \<Rightarrow> real" where
  "get_real v = (case v of Some (JReal x) \<Rightarrow> x | Some (JInt n) \<Rightarrow> real_of_int n | _ \<Rightarrow> 0)"
definition get_strs :: "json option \<Rightarrow> string list" where
  "get_strs v = (case v of Some (JArr vs) \<Rightarrow> map (\<lambda>v. get_str (Some v)) vs | _ \<Rightarrow> [])"

text \<open>The fields with their keys and types, and the record made of an object.\<close>

definition config_fields :: "(string \<times> field_kind) list" where
  "config_fields =
     [(''ollama_url'', KStr),
      (''embedding_model'', KStr),
      (''embedding_prefix'', KStr),
      (''embedding_query_prefix'', KStr),
      (''embedding_doc_prefix'', KStr),
      (''watch_dirs'', KStrs),
      (''chunk_size'', KInt),
      (''chunk_overlap'', KInt),
      (''db_path'', KStr),
      (''file_glob'', KStr),
      (''poll_interval_secs'', KInt),
      (''mcp_addr'', KStr),
      (''mcp_token'', KStr),
      (''rerank_model'', KStr),
      (''rerank_candidates'', KInt),
      (''rerank_retry_on_failure'', KBool),
      (''rrf_k'', KInt),
      (''query_cache_enabled'', KBool),
      (''query_cache_results'', KInt),
      (''query_cache_embeddings'', KInt),
      (''pool_size'', KInt),
      (''adaptive_depth_enabled'', KBool),
      (''enrichment_enabled'', KBool),
      (''enrichment_model'', KStr),
      (''captioning_enabled'', KBool),
      (''captioning_model'', KStr),
      (''captioning_provider'', KStr),
      (''captioning_endpoint'', KStr),
      (''captioning_api_key'', KStr),
      (''embedding_provider'', KStr),
      (''embedding_endpoint'', KStr),
      (''embedding_api_key'', KStr),
      (''enrichment_provider'', KStr),
      (''enrichment_endpoint'', KStr),
      (''enrichment_api_key'', KStr),
      (''rerank_provider'', KStr),
      (''rerank_endpoint'', KStr),
      (''rerank_api_key'', KStr),
      (''poisoning_enabled'', KBool),
      (''poisoning_threshold_suspicious'', KReal),
      (''poisoning_threshold_quarantine'', KReal),
      (''poisoning_phrase_list'', KStr),
      (''metrics_enabled'', KBool),
      (''otel_export'', KStr),
      (''otel_endpoint'', KStr),
      (''audit_log_enabled'', KBool),
      (''audit_log_max_bytes'', KInt),
      (''audit_path'', KStr),
      (''pii_redact_enabled'', KBool),
      (''pii_patterns'', KStr),
      (''near_dup_hamming'', KInt),
      (''bridge_enabled'', KBool),
      (''bridge_endpoint'', KStr),
      (''bridge_source_vault'', KStr),
      (''bridge_target_vault'', KStr),
      (''bridge_max_in_flight'', KInt),
      (''bridge_rate_per_sec'', KInt),
      (''bridge_workers'', KInt),
      (''bridge_batch_size'', KInt),
      (''bridge_connect_timeout_ms'', KInt),
      (''bridge_request_timeout_ms'', KInt),
      (''bridge_backfill_auto_on_enable'', KBool),
      (''bridge_allow_external'', KBool)]"

definition config_unmarshal :: "(string \<rightharpoonup> json) \<Rightarrow> config gres" where
  "config_unmarshal m =
     (if list_all (\<lambda>(key, kind). case m key of None \<Rightarrow> True | Some v \<Rightarrow> has_kind kind v) config_fields
      then Inr
        \<lparr>cf_OllamaURL = get_str (m ''ollama_url''),
         cf_EmbeddingModel = get_str (m ''embedding_model''),
         cf_EmbeddingPrefix = get_str (m ''embedding_prefix''),
         cf_EmbeddingQueryPrefix = get_str (m ''embedding_query_prefix''),
         cf_EmbeddingDocPrefix = get_str (m ''embedding_doc_prefix''),
         cf_WatchDirs = get_strs (m ''watch_dirs''),
         cf_ChunkSize = get_int (m ''chunk_size''),
         cf_ChunkOverlap = get_int (m ''chunk_overlap''),
         cf_DBPath = get_str (m ''db_path''),
         cf_FileGlob = get_str (m ''file_glob''),
         cf_PollIntervalSec = get_int (m ''poll_interval_secs''),
         cf_MCPAddr = get_str (m ''mcp_addr''),
         cf_MCPToken = get_str (m ''mcp_token''),
         cf_RerankModel = get_str (m ''rerank_model''),
         cf_RerankCandidates = get_int (m ''rerank_candidates''),
         cf_RerankRetryOnFailure = get_bool (m ''rerank_retry_on_failure''),
         cf_RRFK = get_int (m ''rrf_k''),
         cf_QueryCacheEnabled = get_bool (m ''query_cache_enabled''),
         cf_QueryCacheResults = get_int (m ''query_cache_results''),
         cf_QueryCacheEmbeddings = get_int (m ''query_cache_embeddings''),
         cf_PoolSize = get_int (m ''pool_size''),
         cf_AdaptiveDepthEnabled = get_bool (m ''adaptive_depth_enabled''),
         cf_EnrichmentEnabled = get_bool (m ''enrichment_enabled''),
         cf_EnrichmentModel = get_str (m ''enrichment_model''),
         cf_CaptioningEnabled = get_bool (m ''captioning_enabled''),
         cf_CaptioningModel = get_str (m ''captioning_model''),
         cf_CaptioningProvider = get_str (m ''captioning_provider''),
         cf_CaptioningEndpoint = get_str (m ''captioning_endpoint''),
         cf_CaptioningAPIKey = get_str (m ''captioning_api_key''),
         cf_EmbeddingProvider = get_str (m ''embedding_provider''),
         cf_EmbeddingEndpoint = get_str (m ''embedding_endpoint''),
         cf_EmbeddingAPIKey = get_str (m ''embedding_api_key''),
         cf_EnrichmentProvider = get_str (m ''enrichment_provider''),
         cf_EnrichmentEndpoint = get_str (m ''enrichment_endpoint''),
         cf_EnrichmentAPIKey = get_str (m ''enrichment_api_key''),
         cf_RerankProvider = get_str (m ''rerank_provider''),
         cf_RerankEndpoint = get_str (m ''rerank_endpoint''),
         cf_RerankAPIKey = get_str (m ''rerank_api_key''),
         cf_PoisoningEnabled = get_bool (m ''poisoning_enabled''),
         cf_PoisoningThresholdSuspicious = get_real (m ''poisoning_threshold_suspicious''),
         cf_PoisoningThresholdQuarantine = get_real (m ''poisoning_threshold_quarantine''),
         cf_PoisoningPhraseList = get_str (m ''poisoning_phrase_list''),
         cf_MetricsEnabled = get_bool (m ''metrics_enabled''),
         cf_OTelExport = get_str (m ''otel_export''),
         cf_OTelEndpoint = get_str (m ''otel_endpoint''),
         cf_AuditLogEnabled = get_bool (m ''audit_log_enabled''),
         cf_AuditLogMaxBytes = get_int (m ''audit_log_max_bytes''),
         cf_AuditPath = get_str (m ''audit_path''),
         cf_PIIRedactEnabled = get_bool (m ''pii_redact_enabled''),
         cf_PIIPatterns = get_str (m ''pii_patterns''),
         cf_NearDupHamming = get_int (m ''near_dup_hamming''),
         cf_BridgeEnabled = get_bool (m ''bridge_enabled''),
         cf_BridgeEndpoint = get_str (m ''bridge_endpoint''),
         cf_BridgeSourceVault = get_str (m ''bridge_source_vault''),
         cf_BridgeTargetVault = get_str (m ''bridge_target_vault''),
         cf_BridgeMaxInFlight = get_int (m ''bridge_max_in_flight''),
         cf_BridgeRatePerSec = get_int (m ''bridge_rate_per_sec''),
         cf_BridgeWorkers = get_int (m ''bridge_workers''),
         cf_BridgeBatchSize = get_int (m ''bridge_batch_size''),
         cf_BridgeConnectTimeoutMs = get_int (m ''bridge_connect_timeout_ms''),
         cf_BridgeRequestTimeoutMs = get_int (m ''bridge_request_timeout_ms''),
         cf_BridgeBackfillAutoOnEnable = get_bool (m ''bridge_backfill_auto_on_enable''),
         cf_BridgeAllowExternal = get_bool (m ''bridge_allow_external'')\<rparr>
      else Inl (Failed ''parse config''))"

text \<open>
  The object a configuration is written as: the fields in their order, each with whether its value is
  left out (\<open>omitempty\<close> and zero).
\<close>

definition config_entries :: "config \<Rightarrow> (string \<times> bool \<times> json) list" where
  "config_entries c =
     [(''ollama_url'', False, JStr (cf_OllamaURL c)),
      (''embedding_model'', cf_EmbeddingModel c = [], JStr (cf_EmbeddingModel c)),
      (''embedding_prefix'', cf_EmbeddingPrefix c = [], JStr (cf_EmbeddingPrefix c)),
      (''embedding_query_prefix'', cf_EmbeddingQueryPrefix c = [], JStr (cf_EmbeddingQueryPrefix c)),
      (''embedding_doc_prefix'', cf_EmbeddingDocPrefix c = [], JStr (cf_EmbeddingDocPrefix c)),
      (''watch_dirs'', False, JArr (map JStr (cf_WatchDirs c))),
      (''chunk_size'', False, JInt (cf_ChunkSize c)),
      (''chunk_overlap'', False, JInt (cf_ChunkOverlap c)),
      (''db_path'', False, JStr (cf_DBPath c)),
      (''file_glob'', False, JStr (cf_FileGlob c)),
      (''poll_interval_secs'', False, JInt (cf_PollIntervalSec c)),
      (''mcp_addr'', False, JStr (cf_MCPAddr c)),
      (''mcp_token'', cf_MCPToken c = [], JStr (cf_MCPToken c)),
      (''rerank_model'', cf_RerankModel c = [], JStr (cf_RerankModel c)),
      (''rerank_candidates'', cf_RerankCandidates c = 0, JInt (cf_RerankCandidates c)),
      (''rerank_retry_on_failure'', \<not> cf_RerankRetryOnFailure c, JBool (cf_RerankRetryOnFailure c)),
      (''rrf_k'', cf_RRFK c = 0, JInt (cf_RRFK c)),
      (''query_cache_enabled'', \<not> cf_QueryCacheEnabled c, JBool (cf_QueryCacheEnabled c)),
      (''query_cache_results'', cf_QueryCacheResults c = 0, JInt (cf_QueryCacheResults c)),
      (''query_cache_embeddings'', cf_QueryCacheEmbeddings c = 0, JInt (cf_QueryCacheEmbeddings c)),
      (''pool_size'', cf_PoolSize c = 0, JInt (cf_PoolSize c)),
      (''adaptive_depth_enabled'', \<not> cf_AdaptiveDepthEnabled c, JBool (cf_AdaptiveDepthEnabled c)),
      (''enrichment_enabled'', \<not> cf_EnrichmentEnabled c, JBool (cf_EnrichmentEnabled c)),
      (''enrichment_model'', cf_EnrichmentModel c = [], JStr (cf_EnrichmentModel c)),
      (''captioning_enabled'', \<not> cf_CaptioningEnabled c, JBool (cf_CaptioningEnabled c)),
      (''captioning_model'', cf_CaptioningModel c = [], JStr (cf_CaptioningModel c)),
      (''captioning_provider'', cf_CaptioningProvider c = [], JStr (cf_CaptioningProvider c)),
      (''captioning_endpoint'', cf_CaptioningEndpoint c = [], JStr (cf_CaptioningEndpoint c)),
      (''captioning_api_key'', cf_CaptioningAPIKey c = [], JStr (cf_CaptioningAPIKey c)),
      (''embedding_provider'', cf_EmbeddingProvider c = [], JStr (cf_EmbeddingProvider c)),
      (''embedding_endpoint'', cf_EmbeddingEndpoint c = [], JStr (cf_EmbeddingEndpoint c)),
      (''embedding_api_key'', cf_EmbeddingAPIKey c = [], JStr (cf_EmbeddingAPIKey c)),
      (''enrichment_provider'', cf_EnrichmentProvider c = [], JStr (cf_EnrichmentProvider c)),
      (''enrichment_endpoint'', cf_EnrichmentEndpoint c = [], JStr (cf_EnrichmentEndpoint c)),
      (''enrichment_api_key'', cf_EnrichmentAPIKey c = [], JStr (cf_EnrichmentAPIKey c)),
      (''rerank_provider'', cf_RerankProvider c = [], JStr (cf_RerankProvider c)),
      (''rerank_endpoint'', cf_RerankEndpoint c = [], JStr (cf_RerankEndpoint c)),
      (''rerank_api_key'', cf_RerankAPIKey c = [], JStr (cf_RerankAPIKey c)),
      (''poisoning_enabled'', \<not> cf_PoisoningEnabled c, JBool (cf_PoisoningEnabled c)),
      (''poisoning_threshold_suspicious'', cf_PoisoningThresholdSuspicious c = 0, JReal (cf_PoisoningThresholdSuspicious c)),
      (''poisoning_threshold_quarantine'', cf_PoisoningThresholdQuarantine c = 0, JReal (cf_PoisoningThresholdQuarantine c)),
      (''poisoning_phrase_list'', cf_PoisoningPhraseList c = [], JStr (cf_PoisoningPhraseList c)),
      (''metrics_enabled'', \<not> cf_MetricsEnabled c, JBool (cf_MetricsEnabled c)),
      (''otel_export'', cf_OTelExport c = [], JStr (cf_OTelExport c)),
      (''otel_endpoint'', cf_OTelEndpoint c = [], JStr (cf_OTelEndpoint c)),
      (''audit_log_enabled'', \<not> cf_AuditLogEnabled c, JBool (cf_AuditLogEnabled c)),
      (''audit_log_max_bytes'', cf_AuditLogMaxBytes c = 0, JInt (cf_AuditLogMaxBytes c)),
      (''audit_path'', cf_AuditPath c = [], JStr (cf_AuditPath c)),
      (''pii_redact_enabled'', \<not> cf_PIIRedactEnabled c, JBool (cf_PIIRedactEnabled c)),
      (''pii_patterns'', cf_PIIPatterns c = [], JStr (cf_PIIPatterns c)),
      (''near_dup_hamming'', cf_NearDupHamming c = 0, JInt (cf_NearDupHamming c)),
      (''bridge_enabled'', \<not> cf_BridgeEnabled c, JBool (cf_BridgeEnabled c)),
      (''bridge_endpoint'', cf_BridgeEndpoint c = [], JStr (cf_BridgeEndpoint c)),
      (''bridge_source_vault'', cf_BridgeSourceVault c = [], JStr (cf_BridgeSourceVault c)),
      (''bridge_target_vault'', cf_BridgeTargetVault c = [], JStr (cf_BridgeTargetVault c)),
      (''bridge_max_in_flight'', cf_BridgeMaxInFlight c = 0, JInt (cf_BridgeMaxInFlight c)),
      (''bridge_rate_per_sec'', cf_BridgeRatePerSec c = 0, JInt (cf_BridgeRatePerSec c)),
      (''bridge_workers'', cf_BridgeWorkers c = 0, JInt (cf_BridgeWorkers c)),
      (''bridge_batch_size'', cf_BridgeBatchSize c = 0, JInt (cf_BridgeBatchSize c)),
      (''bridge_connect_timeout_ms'', cf_BridgeConnectTimeoutMs c = 0, JInt (cf_BridgeConnectTimeoutMs c)),
      (''bridge_request_timeout_ms'', cf_BridgeRequestTimeoutMs c = 0, JInt (cf_BridgeRequestTimeoutMs c)),
      (''bridge_backfill_auto_on_enable'', \<not> cf_BridgeBackfillAutoOnEnable c, JBool (cf_BridgeBackfillAutoOnEnable c)),
      (''bridge_allow_external'', \<not> cf_BridgeAllowExternal c, JBool (cf_BridgeAllowExternal c))]"

definition config_marshal :: "config \<Rightarrow> (string \<times> json) list" where
  "config_marshal c = map (\<lambda>(key, zero, v). (key, v)) (filter (\<lambda>(key, zero, v). \<not> zero) (config_entries c))"

section \<open>The environment\<close>

text \<open>A variable that is unset or empty, or does not parse, leaves the value of the file.\<close>

definition env_str :: "(string \<Rightarrow> string) \<Rightarrow> string \<Rightarrow> (string \<Rightarrow> config \<Rightarrow> config) \<Rightarrow> config \<Rightarrow> config" where
  "env_str env var upd c = (if env var \<noteq> [] then upd (env var) c else c)"

definition env_int :: "(string \<Rightarrow> string) \<Rightarrow> string \<Rightarrow> (int \<Rightarrow> config \<Rightarrow> config) \<Rightarrow> config \<Rightarrow> config" where
  "env_int env var upd c =
     (if env var \<noteq> [] then (case Atoi (env var) of Some n \<Rightarrow> upd n c | None \<Rightarrow> c) else c)"

definition env_bool :: "(string \<Rightarrow> string) \<Rightarrow> string \<Rightarrow> (bool \<Rightarrow> config \<Rightarrow> config) \<Rightarrow> config \<Rightarrow> config" where
  "env_bool env var upd c =
     (if env var \<noteq> [] then (case ParseBool (env var) of Some b \<Rightarrow> upd b c | None \<Rightarrow> c) else c)"

definition env_dirs :: "(string \<Rightarrow> string) \<Rightarrow> string \<Rightarrow> (string list \<Rightarrow> config \<Rightarrow> config) \<Rightarrow> config \<Rightarrow> config" where
  "env_dirs env var upd c =
     (if env var \<noteq> []
      then let dirs = filter (\<lambda>d. d \<noteq> []) (map TrimSpace (Split1 CHR '','' (env var)))
           in if dirs \<noteq> [] then upd dirs c else c
      else c)"

definition ApplyEnvOverrides :: "(string \<Rightarrow> string) \<Rightarrow> config \<Rightarrow> config" where
  "ApplyEnvOverrides env c =
     fold (\<lambda>f. f)
       [env_str env ''GO_RAG_OLLAMA_URL'' (\<lambda>v c. c\<lparr>cf_OllamaURL := v\<rparr>),
        env_str env ''GO_RAG_EMBEDDING_MODEL'' (\<lambda>v c. c\<lparr>cf_EmbeddingModel := v\<rparr>),
        env_str env ''GO_RAG_EMBEDDING_PROVIDER'' (\<lambda>v c. c\<lparr>cf_EmbeddingProvider := v\<rparr>),
        env_str env ''GO_RAG_RERANK_MODEL'' (\<lambda>v c. c\<lparr>cf_RerankModel := v\<rparr>),
        env_str env ''GO_RAG_ENRICHMENT_MODEL'' (\<lambda>v c. c\<lparr>cf_EnrichmentModel := v\<rparr>),
        env_str env ''GO_RAG_MCP_ADDR'' (\<lambda>v c. c\<lparr>cf_MCPAddr := v\<rparr>),
        env_str env ''GO_RAG_MCP_TOKEN'' (\<lambda>v c. c\<lparr>cf_MCPToken := v\<rparr>),
        env_str env ''GO_RAG_DB_PATH'' (\<lambda>v c. c\<lparr>cf_DBPath := v\<rparr>),
        env_dirs env ''GO_RAG_WATCH_DIRS'' (\<lambda>ds c. c\<lparr>cf_WatchDirs := ds\<rparr>),
        env_int env ''GO_RAG_CHUNK_SIZE'' (\<lambda>n c. c\<lparr>cf_ChunkSize := n\<rparr>),
        env_int env ''GO_RAG_CHUNK_OVERLAP'' (\<lambda>n c. c\<lparr>cf_ChunkOverlap := n\<rparr>),
        env_int env ''GO_RAG_POLL_INTERVAL_SECS'' (\<lambda>n c. c\<lparr>cf_PollIntervalSec := n\<rparr>),
        env_bool env ''GO_RAG_ENRICHMENT_ENABLED'' (\<lambda>b c. c\<lparr>cf_EnrichmentEnabled := b\<rparr>),
        env_bool env ''GO_RAG_CAPTIONING_ENABLED'' (\<lambda>b c. c\<lparr>cf_CaptioningEnabled := b\<rparr>),
        env_bool env ''GO_RAG_METRICS_ENABLED'' (\<lambda>b c. c\<lparr>cf_MetricsEnabled := b\<rparr>),
        env_bool env ''GO_RAG_AUDIT_LOG_ENABLED'' (\<lambda>b c. c\<lparr>cf_AuditLogEnabled := b\<rparr>),
        env_bool env ''GO_RAG_POISONING_ENABLED'' (\<lambda>b c. c\<lparr>cf_PoisoningEnabled := b\<rparr>)] c"

section \<open>Loading and saving\<close>

text \<open>
  \<open>parse\<close> decodes the text of a JSON object, \<open>print\<close> writes one, \<open>fmt_v\<close> is the verb \<open>%v\<close>. A key
  that is absent from the file stands for its default where the zero value would mean something else.
\<close>

definition absent_default :: "(string \<rightharpoonup> json) \<Rightarrow> string \<Rightarrow> (config \<Rightarrow> config) \<Rightarrow> config \<Rightarrow> config" where
  "absent_default raw key upd c = (if raw key = None then upd c else c)"

definition Load :: "(bytes \<Rightarrow> (string \<rightharpoonup> json) option) \<Rightarrow> (json \<Rightarrow> string) \<Rightarrow> (string \<Rightarrow> string) \<Rightarrow> bytes gres \<Rightarrow> config gres" where
  "Load parse fmt_v env file =
     (case file of
        Inl e \<Rightarrow> Inl e
      | Inr data \<Rightarrow>
          (case parse data of
             None \<Rightarrow> Inl (Failed ''parse config'')
           | Some raw \<Rightarrow>
               (case config_unmarshal raw of
                  Inl e \<Rightarrow> Inl e
                | Inr c \<Rightarrow>
                    (let c1 = (if cf_EmbeddingModel c = []
                               then case raw ''ollama_model'' of Some v \<Rightarrow> c\<lparr>cf_EmbeddingModel := fmt_v v\<rparr> | None \<Rightarrow> c
                               else c)
                     in Inr (ApplyEnvOverrides env
                          (fold (\<lambda>f. f)
                            [absent_default raw ''query_cache_enabled'' (\<lambda>c. c\<lparr>cf_QueryCacheEnabled := True\<rparr>),
                             absent_default raw ''query_cache_results'' (\<lambda>c. c\<lparr>cf_QueryCacheResults := DefaultQueryCacheResults\<rparr>),
                             absent_default raw ''query_cache_embeddings''
                               (\<lambda>c. c\<lparr>cf_QueryCacheEmbeddings := DefaultQueryCacheEmbeddings\<rparr>),
                             absent_default raw ''poisoning_enabled'' (\<lambda>c. c\<lparr>cf_PoisoningEnabled := True\<rparr>),
                             absent_default raw ''metrics_enabled'' (\<lambda>c. c\<lparr>cf_MetricsEnabled := True\<rparr>),
                             absent_default raw ''audit_log_enabled'' (\<lambda>c. c\<lparr>cf_AuditLogEnabled := True\<rparr>)] c1))))))"

definition Save :: "((string \<times> json) list \<Rightarrow> bytes option) \<Rightarrow> config \<Rightarrow> bytes option" where
  "Save print c = print (config_marshal c)"

section \<open>Access by key\<close>

text \<open>\<open>ff\<close> is \<open>strconv.FormatFloat\<close> with the shortest text, \<open>pf\<close> is \<open>strconv.ParseFloat\<close>.\<close>

definition config_Get :: "(real \<Rightarrow> string) \<Rightarrow> config \<Rightarrow> string \<Rightarrow> string option" where
  "config_Get ff c key =
     (if key = ''ollama_url'' then Some (cf_OllamaURL c)
      else if key = ''embedding_model'' then Some (cf_EmbeddingModel c)
      else if key = ''embedding_prefix'' then Some (if cf_EmbeddingPrefix c = [] then ''auto'' else cf_EmbeddingPrefix c)
      else if key = ''embedding_query_prefix'' then Some (cf_EmbeddingQueryPrefix c)
      else if key = ''embedding_doc_prefix'' then Some (cf_EmbeddingDocPrefix c)
      else if key = ''db_path'' then Some (cf_DBPath c)
      else if key = ''file_glob'' then Some (cf_FileGlob c)
      else if key = ''chunk_size'' then Some (Itoa (cf_ChunkSize c))
      else if key = ''chunk_overlap'' then Some (Itoa (cf_ChunkOverlap c))
      else if key = ''poll_interval_secs'' then Some (Itoa (cf_PollIntervalSec c))
      else if key = ''mcp_addr'' then Some (cf_MCPAddr c)
      else if key = ''mcp_token'' then Some (cf_MCPToken c)
      else if key = ''rerank_model'' then Some (cf_RerankModel c)
      else if key = ''rerank_candidates'' then Some (Itoa (cf_RerankCandidates c))
      else if key = ''rerank_retry_on_failure'' then Some (FormatBool (cf_RerankRetryOnFailure c))
      else if key = ''rrf_k'' then Some (Itoa (EffectiveRRFK c))
      else if key = ''pool_size'' then Some (Itoa (EffectivePoolSize c))
      else if key = ''adaptive_depth_enabled'' then Some (FormatBool (EffectiveAdaptiveDepthEnabled c))
      else if key = ''query_cache_enabled'' then Some (FormatBool (cf_QueryCacheEnabled c))
      else if key = ''query_cache_results'' then Some (Itoa (cf_QueryCacheResults c))
      else if key = ''query_cache_embeddings'' then Some (Itoa (cf_QueryCacheEmbeddings c))
      else if key = ''poisoning_enabled'' then Some (FormatBool (EffectivePoisoningEnabled c))
      else if key = ''poisoning_threshold_suspicious'' then Some (ff (EffectivePoisonThresholdSuspicious c))
      else if key = ''poisoning_threshold_quarantine'' then Some (ff (EffectivePoisonThresholdQuarantine c))
      else if key = ''poisoning_phrase_list'' then Some (cf_PoisoningPhraseList c)
      else if key = ''metrics_enabled'' then Some (FormatBool (EffectiveMetricsEnabled c))
      else if key = ''otel_export'' then Some (EffectiveOTelExport c)
      else if key = ''otel_endpoint'' then Some (cf_OTelEndpoint c)
      else if key = ''audit_log_enabled'' then Some (FormatBool (EffectiveAuditLogEnabled c))
      else if key = ''audit_log_max_bytes'' then Some (Itoa (EffectiveAuditLogMaxBytes c))
      else if key = ''audit_path'' then Some (cf_AuditPath c)
      else if key = ''pii_redact_enabled'' then Some (FormatBool (cf_PIIRedactEnabled c))
      else if key = ''pii_patterns'' then Some (cf_PIIPatterns c)
      else None)"

definition invalid :: "string \<Rightarrow> go_error" where
  "invalid key = Failed (''invalid '' @ key)"

definition set_int :: "string \<Rightarrow> string \<Rightarrow> int \<Rightarrow> (int \<Rightarrow> config) \<Rightarrow> config gres" where
  "set_int key val least upd =
     (case Atoi val of None \<Rightarrow> Inl (invalid key) | Some n \<Rightarrow> if n < least then Inl (invalid key) else Inr (upd n))"

definition set_bool :: "string \<Rightarrow> string \<Rightarrow> (bool \<Rightarrow> config) \<Rightarrow> config gres" where
  "set_bool key val upd = (case ParseBool val of None \<Rightarrow> Inl (invalid key) | Some b \<Rightarrow> Inr (upd b))"

text \<open>
  \<open>pf\<close> is \<open>strconv.ParseFloat\<close> on the texts that stand for a number. Numbers are real: the text
  \<open>nan\<close>, which the code also parses and which passes both comparisons (\<open>f < 0 || f > 1\<close> is false
  for it), has no value here and is outside the model.
\<close>

definition set_unit :: "(string \<Rightarrow> real option) \<Rightarrow> string \<Rightarrow> string \<Rightarrow> (real \<Rightarrow> config) \<Rightarrow> config gres" where
  "set_unit pf key val upd =
     (case pf val of None \<Rightarrow> Inl (invalid key) | Some f \<Rightarrow> if f < 0 \<or> 1 < f then Inl (invalid key) else Inr (upd f))"

definition set_choice :: "string \<Rightarrow> string list \<Rightarrow> string \<Rightarrow> (string \<Rightarrow> config) \<Rightarrow> config gres" where
  "set_choice key choices val upd = (if val \<in> set choices then Inr (upd val) else Inl (invalid key))"

definition validatePrefixString :: "string \<Rightarrow> go_error option" where
  "validatePrefixString s =
     (if list_ex (\<lambda>c. c < CHR 0x20) s then Some (Failed ''invalid prefix'') else None)"

definition set_prefix :: "string \<Rightarrow> (string \<Rightarrow> config) \<Rightarrow> config gres" where
  "set_prefix val upd = (case validatePrefixString val of Some e \<Rightarrow> Inl e | None \<Rightarrow> Inr (upd val))"

definition config_Set :: "(string \<Rightarrow> real option) \<Rightarrow> string \<Rightarrow> string \<Rightarrow> config \<Rightarrow> config gres" where
  "config_Set pf key val c =
     (if key = ''ollama_url'' then Inr (c\<lparr>cf_OllamaURL := val\<rparr>)
      else if key = ''embedding_model'' then Inr (c\<lparr>cf_EmbeddingModel := val\<rparr>)
      else if key = ''embedding_prefix'' then set_choice key [[], ''auto'', ''on'', ''off''] val (\<lambda>x. c\<lparr>cf_EmbeddingPrefix := x\<rparr>)
      else if key = ''embedding_query_prefix'' then set_prefix val (\<lambda>x. c\<lparr>cf_EmbeddingQueryPrefix := x\<rparr>)
      else if key = ''embedding_doc_prefix'' then set_prefix val (\<lambda>x. c\<lparr>cf_EmbeddingDocPrefix := x\<rparr>)
      else if key = ''db_path'' then Inr (c\<lparr>cf_DBPath := val\<rparr>)
      else if key = ''file_glob'' then Inr (c\<lparr>cf_FileGlob := val\<rparr>)
      else if key = ''chunk_size'' then set_int key val 1 (\<lambda>x. c\<lparr>cf_ChunkSize := x\<rparr>)
      else if key = ''chunk_overlap'' then set_int key val 0 (\<lambda>x. c\<lparr>cf_ChunkOverlap := x\<rparr>)
      else if key = ''poll_interval_secs'' then set_int key val 1 (\<lambda>x. c\<lparr>cf_PollIntervalSec := x\<rparr>)
      else if key = ''mcp_addr'' then Inr (c\<lparr>cf_MCPAddr := val\<rparr>)
      else if key = ''mcp_token'' then Inr (c\<lparr>cf_MCPToken := val\<rparr>)
      else if key = ''rerank_model'' then Inr (c\<lparr>cf_RerankModel := val\<rparr>)
      else if key = ''rerank_candidates'' then set_int key val 1 (\<lambda>x. c\<lparr>cf_RerankCandidates := x\<rparr>)
      else if key = ''rerank_retry_on_failure'' then set_bool key val (\<lambda>x. c\<lparr>cf_RerankRetryOnFailure := x\<rparr>)
      else if key = ''rrf_k'' then set_int key val 0 (\<lambda>x. c\<lparr>cf_RRFK := x\<rparr>)
      else if key = ''pool_size'' then set_int key val 0 (\<lambda>x. c\<lparr>cf_PoolSize := x\<rparr>)
      else if key = ''adaptive_depth_enabled'' then set_bool key val (\<lambda>x. c\<lparr>cf_AdaptiveDepthEnabled := x\<rparr>)
      else if key = ''query_cache_enabled'' then set_bool key val (\<lambda>x. c\<lparr>cf_QueryCacheEnabled := x\<rparr>)
      else if key = ''query_cache_results'' then set_int key val 0 (\<lambda>x. c\<lparr>cf_QueryCacheResults := x\<rparr>)
      else if key = ''query_cache_embeddings'' then set_int key val 0 (\<lambda>x. c\<lparr>cf_QueryCacheEmbeddings := x\<rparr>)
      else if key = ''poisoning_enabled'' then set_bool key val (\<lambda>x. c\<lparr>cf_PoisoningEnabled := x\<rparr>)
      else if key = ''poisoning_threshold_suspicious'' then set_unit pf key val (\<lambda>x. c\<lparr>cf_PoisoningThresholdSuspicious := x\<rparr>)
      else if key = ''poisoning_threshold_quarantine'' then set_unit pf key val (\<lambda>x. c\<lparr>cf_PoisoningThresholdQuarantine := x\<rparr>)
      else if key = ''poisoning_phrase_list'' then Inr (c\<lparr>cf_PoisoningPhraseList := val\<rparr>)
      else if key = ''metrics_enabled'' then set_bool key val (\<lambda>x. c\<lparr>cf_MetricsEnabled := x\<rparr>)
      else if key = ''otel_export'' then set_choice key [[], ''none'', ''stdout'', ''otlp''] val (\<lambda>x. c\<lparr>cf_OTelExport := x\<rparr>)
      else if key = ''otel_endpoint'' then Inr (c\<lparr>cf_OTelEndpoint := val\<rparr>)
      else if key = ''audit_log_enabled'' then set_bool key val (\<lambda>x. c\<lparr>cf_AuditLogEnabled := x\<rparr>)
      else if key = ''audit_log_max_bytes'' then set_int key val 0 (\<lambda>x. c\<lparr>cf_AuditLogMaxBytes := x\<rparr>)
      else if key = ''audit_path'' then Inr (c\<lparr>cf_AuditPath := val\<rparr>)
      else if key = ''pii_redact_enabled'' then set_bool key val (\<lambda>x. c\<lparr>cf_PIIRedactEnabled := x\<rparr>)
      else if key = ''pii_patterns'' then Inr (c\<lparr>cf_PIIPatterns := val\<rparr>)
      else Inl (Failed (''unknown config key: '' @ key)))"

definition Config_Prefixer :: "config \<Rightarrow> prefixer" where
  "Config_Prefixer c =
     config_Prefixer (cf_EmbeddingModel c) (cf_EmbeddingPrefix c) (cf_EmbeddingQueryPrefix c) (cf_EmbeddingDocPrefix c)"


section \<open>What the keys mean\<close>

text \<open>
  The contract of the keys as a table: the type of a key and the value shown for an absent one. A
  text is shown as it was given, a number and a truth value in their canonical form.
\<close>

datatype key_kind = TextKey string | NumKey int | BoolKey | UnitKey real

definition key_table :: "(string \<times> key_kind) list" where
  "key_table =
     [(''ollama_url'', TextKey []),
      (''embedding_model'', TextKey []),
      (''embedding_prefix'', TextKey ''auto''),
      (''embedding_query_prefix'', TextKey []),
      (''embedding_doc_prefix'', TextKey []),
      (''db_path'', TextKey []),
      (''file_glob'', TextKey []),
      (''chunk_size'', NumKey 0),
      (''chunk_overlap'', NumKey 0),
      (''poll_interval_secs'', NumKey 0),
      (''mcp_addr'', TextKey []),
      (''mcp_token'', TextKey []),
      (''rerank_model'', TextKey []),
      (''rerank_candidates'', NumKey 0),
      (''rerank_retry_on_failure'', BoolKey),
      (''rrf_k'', NumKey DefaultRRFK),
      (''pool_size'', NumKey DefaultPoolSize),
      (''adaptive_depth_enabled'', BoolKey),
      (''query_cache_enabled'', BoolKey),
      (''query_cache_results'', NumKey 0),
      (''query_cache_embeddings'', NumKey 0),
      (''poisoning_enabled'', BoolKey),
      (''poisoning_threshold_suspicious'', UnitKey DefaultPoisonThresholdSuspicious),
      (''poisoning_threshold_quarantine'', UnitKey DefaultPoisonThresholdQuarantine),
      (''poisoning_phrase_list'', TextKey []),
      (''metrics_enabled'', BoolKey),
      (''otel_export'', TextKey DefaultOTelExport),
      (''otel_endpoint'', TextKey []),
      (''audit_log_enabled'', BoolKey),
      (''audit_log_max_bytes'', NumKey DefaultAuditLogMaxBytes),
      (''audit_path'', TextKey []),
      (''pii_redact_enabled'', BoolKey),
      (''pii_patterns'', TextKey [])]"

definition shown :: "(real \<Rightarrow> string) \<Rightarrow> (string \<Rightarrow> real option) \<Rightarrow> key_kind \<Rightarrow> string \<Rightarrow> string" where
  "shown ff pf kind val =
     (case kind of
        TextKey dflt \<Rightarrow> or_default val dflt
      | NumKey dflt \<Rightarrow> (case Atoi val of Some n \<Rightarrow> Itoa (if n = 0 then dflt else n) | None \<Rightarrow> [])
      | BoolKey \<Rightarrow> (case ParseBool val of Some b \<Rightarrow> FormatBool b | None \<Rightarrow> [])
      | UnitKey dflt \<Rightarrow> (case pf val of Some x \<Rightarrow> ff (positive_or x dflt) | None \<Rightarrow> []))"

text \<open>
  The values a key accepts, as a second table: any text, one of a few, a text without control
  characters, an integer that is not below a bound, a truth value, a number between 0 and 1.
\<close>

datatype key_check = AnyText | OneOf "string list" | NoControl | AtLeast int | Truth | InUnit

definition key_checks :: "(string \<times> key_check) list" where
  "key_checks =
     [(''ollama_url'', AnyText),
      (''embedding_model'', AnyText),
      (''embedding_prefix'', OneOf [[], ''auto'', ''on'', ''off'']),
      (''embedding_query_prefix'', NoControl),
      (''embedding_doc_prefix'', NoControl),
      (''db_path'', AnyText),
      (''file_glob'', AnyText),
      (''chunk_size'', AtLeast 1),
      (''chunk_overlap'', AtLeast 0),
      (''poll_interval_secs'', AtLeast 1),
      (''mcp_addr'', AnyText),
      (''mcp_token'', AnyText),
      (''rerank_model'', AnyText),
      (''rerank_candidates'', AtLeast 1),
      (''rerank_retry_on_failure'', Truth),
      (''rrf_k'', AtLeast 0),
      (''pool_size'', AtLeast 0),
      (''adaptive_depth_enabled'', Truth),
      (''query_cache_enabled'', Truth),
      (''query_cache_results'', AtLeast 0),
      (''query_cache_embeddings'', AtLeast 0),
      (''poisoning_enabled'', Truth),
      (''poisoning_threshold_suspicious'', InUnit),
      (''poisoning_threshold_quarantine'', InUnit),
      (''poisoning_phrase_list'', AnyText),
      (''metrics_enabled'', Truth),
      (''otel_export'', OneOf [[], ''none'', ''stdout'', ''otlp'']),
      (''otel_endpoint'', AnyText),
      (''audit_log_enabled'', Truth),
      (''audit_log_max_bytes'', AtLeast 0),
      (''audit_path'', AnyText),
      (''pii_redact_enabled'', Truth),
      (''pii_patterns'', AnyText)]"

definition passes :: "(string \<Rightarrow> real option) \<Rightarrow> key_check \<Rightarrow> string \<Rightarrow> bool" where
  "passes pf chk val =
     (case chk of
        AnyText \<Rightarrow> True
      | OneOf choices \<Rightarrow> val \<in> set choices
      | NoControl \<Rightarrow> list_all (\<lambda>c. CHR 0x20 \<le> c) val
      | AtLeast least \<Rightarrow> (case Atoi val of Some n \<Rightarrow> least \<le> n | None \<Rightarrow> False)
      | Truth \<Rightarrow> ParseBool val \<noteq> None
      | InUnit \<Rightarrow> (case pf val of Some x \<Rightarrow> 0 \<le> x \<and> x \<le> 1 | None \<Rightarrow> False))"

definition accepts :: "(string \<Rightarrow> real option) \<Rightarrow> string \<Rightarrow> string \<Rightarrow> bool" where
  "accepts pf key val = (case map_of key_checks key of Some chk \<Rightarrow> passes pf chk val | None \<Rightarrow> False)"

lemma if_eqE:
  assumes "(if P then a else b) = x" and "P \<Longrightarrow> a = x \<Longrightarrow> R" and "\<not> P \<Longrightarrow> b = x \<Longrightarrow> R"
  shows R
  using assms by (auto split: if_splits)

lemma set_int_Inr: "set_int key val least upd = Inr c \<longleftrightarrow> (\<exists>n. Atoi val = Some n \<and> least \<le> n \<and> c = upd n)"
  by (auto simp: set_int_def split: option.splits)

lemma set_bool_Inr: "set_bool key val upd = Inr c \<longleftrightarrow> (\<exists>b. ParseBool val = Some b \<and> c = upd b)"
  by (auto simp: set_bool_def split: option.splits)

lemma set_unit_Inr: "set_unit pf key val upd = Inr c \<longleftrightarrow> (\<exists>x. pf val = Some x \<and> 0 \<le> x \<and> x \<le> 1 \<and> c = upd x)"
  by (auto simp: set_unit_def split: option.splits)

lemma set_choice_Inr: "set_choice key choices val upd = Inr c \<longleftrightarrow> val \<in> set choices \<and> c = upd val"
  by (auto simp: set_choice_def)

lemma set_prefix_Inr: "set_prefix val upd = Inr c \<longleftrightarrow> validatePrefixString val = None \<and> c = upd val"
  by (auto simp: set_prefix_def split: option.splits)

lemmas set_Inr = set_int_Inr set_bool_Inr set_unit_Inr set_choice_Inr set_prefix_Inr

lemma set_Inl:
  "set_int key val least upd1 = Inl e \<longleftrightarrow> \<not> passes pf (AtLeast least) val \<and> e = invalid key"
  "set_bool key val upd2 = Inl e \<longleftrightarrow> \<not> passes pf Truth val \<and> e = invalid key"
  "set_unit pf key val upd3 = Inl e \<longleftrightarrow> \<not> passes pf InUnit val \<and> e = invalid key"
  "set_choice key choices val upd4 = Inl e \<longleftrightarrow> \<not> passes pf (OneOf choices) val \<and> e = invalid key"
  "set_prefix val upd5 = Inl e \<longleftrightarrow> \<not> passes pf NoControl val \<and> e = Failed ''invalid prefix''"
  by (auto simp: set_int_def set_bool_def set_unit_def set_choice_def set_prefix_def validatePrefixString_def
      passes_def list_ex_iff list_all_iff not_less not_le split: option.split)

lemma set_passes:
  "set_int key val least upd1 = Inr c \<Longrightarrow> passes pf (AtLeast least) val"
  "set_bool key val upd2 = Inr c \<Longrightarrow> passes pf Truth val"
  "set_unit pf key val upd3 = Inr c \<Longrightarrow> passes pf InUnit val"
  "set_choice key choices val upd4 = Inr c \<Longrightarrow> passes pf (OneOf choices) val"
  "set_prefix val upd5 = Inr c \<Longrightarrow> passes pf NoControl val"
  by (auto simp: set_Inr validatePrefixString_def passes_def list_ex_iff list_all_iff not_less split: if_splits)

text \<open>\<open>Set\<close> succeeds exactly on the values the key accepts.\<close>

lemma accepts_checks: "list_all (\<lambda>(k, chk). accepts pf k val = passes pf chk val) key_checks"
proof -
  have "distinct (map fst key_checks)"
    by code_simp
  then show ?thesis
    by (auto simp: list_all_iff accepts_def)
qed

lemma unknown_key: "key \<notin> fst ` set key_checks \<Longrightarrow> \<not> accepts pf key val"
  by (auto simp: accepts_def map_of_eq_None_iff [symmetric])

lemmas accepts_key = accepts_checks [unfolded key_checks_def list.pred_inject prod.case simp_thms]

lemma Set_accepts:
  assumes "config_Set pf key val c = Inr c'"
  shows "accepts pf key val"
  using assms unfolding config_Set_def
  by (elim if_eqE) (simp_all add: accepts_key passes_def [of pf AnyText] set_passes [where pf = pf])

lemma Set_rejects:
  assumes "config_Set pf key val c = Inl e"
  shows "\<not> accepts pf key val"
  using assms unfolding config_Set_def
  by (elim if_eqE) (simp_all add: accepts_key set_Inl [where pf = pf], simp add: unknown_key key_checks_def)

lemmas effective_defs = EffectiveMetricsEnabled_def EffectiveOTelExport_def EffectiveAuditLogEnabled_def
  EffectiveAuditLogMaxBytes_def EffectiveRRFK_def EffectivePoolSize_def EffectiveAdaptiveDepthEnabled_def
  EffectivePoisoningEnabled_def EffectivePoisonThresholdSuspicious_def EffectivePoisonThresholdQuarantine_def

lemma Set_shows:
  assumes "config_Set pf key val c = Inr c'"
  shows "\<exists>kind. map_of key_table key = Some kind \<and> config_Get ff c' key = Some (shown ff pf kind val)"
  using assms unfolding config_Set_def
  by (elim if_eqE)
    (auto simp: set_Inr key_table_def config_Get_def shown_def effective_defs or_default_def positive_or_def)

lemma Set_frame:
  assumes "config_Set pf key val c = Inr c'" and "k \<noteq> key"
  shows "config_Get ff c' k = config_Get ff c k"
  using assms(1) unfolding config_Set_def
  by (elim if_eqE)
    (use assms(2) in \<open>clarsimp simp: set_Inr; simp add: config_Get_def effective_defs cong: if_cong split del: if_split\<close>)+


section \<open>Saving and loading\<close>

lemma map_of_entries:
  "distinct (map fst xs) \<Longrightarrow> map_of (map (\<lambda>(k, z, v). (k, v)) (filter (\<lambda>(k, z, v). \<not> z) xs)) k =
     (case map_of xs k of Some (z, v) \<Rightarrow> if z then None else Some v | None \<Rightarrow> None)"
proof (induction xs)
  case (Cons x xs)
  obtain key z v where x: "x = (key, z, v)" by (cases x)
  have "map_of xs key = None"
    using Cons.prems by (simp add: x map_of_eq_None_iff)
  then show ?case
    using Cons by (auto simp: x)
qed simp

lemma config_keys_distinct: "distinct (map fst (config_entries c))"
proof -
  have "map fst (config_entries c) = map fst (config_entries Default)"
    by (simp add: config_entries_def)
  moreover have "distinct (map fst (config_entries Default))"
    unfolding config_entries_def list.map fst_conv by code_simp
  ultimately show ?thesis by simp
qed

lemma marshal_map:
  "map_of (config_marshal c) k =
     (case map_of (config_entries c) k of Some (z, v) \<Rightarrow> if z then None else Some v | None \<Rightarrow> None)"
  by (simp add: config_marshal_def map_of_entries [OF config_keys_distinct])

text \<open>The integers of a configuration are 64-bit ones.\<close>

definition int64_fields :: "config \<Rightarrow> bool" where
  "int64_fields c \<longleftrightarrow> list_all (\<lambda>n. - (2 ^ 63) \<le> n \<and> n < 2 ^ 63)
     [cf_ChunkSize c,
      cf_ChunkOverlap c,
      cf_PollIntervalSec c,
      cf_RerankCandidates c,
      cf_RRFK c,
      cf_QueryCacheResults c,
      cf_QueryCacheEmbeddings c,
      cf_PoolSize c,
      cf_AuditLogMaxBytes c,
      cf_NearDupHamming c,
      cf_BridgeMaxInFlight c,
      cf_BridgeRatePerSec c,
      cf_BridgeWorkers c,
      cf_BridgeBatchSize c,
      cf_BridgeConnectTimeoutMs c,
      cf_BridgeRequestTimeoutMs c]"

lemma get_simps [simp]:
  "get_str (Some (JStr s)) = s" "get_str None = []"
  "get_int (Some (JInt n)) = n" "get_int None = 0"
  "get_bool (Some (JBool b)) = b" "get_bool None = False"
  "get_real (Some (JReal x)) = x" "get_real None = 0"
  "get_strs (Some (JArr (map JStr ss))) = ss"
  by (simp_all add: get_str_def get_int_def get_bool_def get_real_def get_strs_def comp_def)

lemma has_kind_simps [simp]:
  "has_kind KStr (JStr s)" "has_kind KBool (JBool b)" "has_kind KReal (JReal x)"
  "has_kind KInt (JInt n) \<longleftrightarrow> - (2 ^ 63) \<le> n \<and> n < 2 ^ 63" "has_kind KStrs (JArr (map JStr ss))"
  by (simp_all add: has_kind_def list_all_iff)

lemma get_unless [simp]:
  "get_str (if s = [] then None else Some (JStr s)) = s"
  "get_int (if n = 0 then None else Some (JInt n)) = n"
  "get_bool (if \<not> b then None else Some (JBool b)) = b"
  "get_real (if x = 0 then None else Some (JReal x)) = x"
  by auto

lemma typed_unless [simp]:
  "(case (if z then None else Some v) of None \<Rightarrow> True | Some v \<Rightarrow> has_kind kind v) \<longleftrightarrow> z \<or> has_kind kind v"
  by simp

lemma marshal_lookup:
  "map_of (config_marshal c) ''ollama_url'' = Some (JStr (cf_OllamaURL c))"
  "map_of (config_marshal c) ''embedding_model'' = (if cf_EmbeddingModel c = [] then None else Some (JStr (cf_EmbeddingModel c)))"
  "map_of (config_marshal c) ''embedding_prefix'' = (if cf_EmbeddingPrefix c = [] then None else Some (JStr (cf_EmbeddingPrefix c)))"
  "map_of (config_marshal c) ''embedding_query_prefix'' = (if cf_EmbeddingQueryPrefix c = [] then None else Some (JStr (cf_EmbeddingQueryPrefix c)))"
  "map_of (config_marshal c) ''embedding_doc_prefix'' = (if cf_EmbeddingDocPrefix c = [] then None else Some (JStr (cf_EmbeddingDocPrefix c)))"
  "map_of (config_marshal c) ''watch_dirs'' = Some (JArr (map JStr (cf_WatchDirs c)))"
  "map_of (config_marshal c) ''chunk_size'' = Some (JInt (cf_ChunkSize c))"
  "map_of (config_marshal c) ''chunk_overlap'' = Some (JInt (cf_ChunkOverlap c))"
  "map_of (config_marshal c) ''db_path'' = Some (JStr (cf_DBPath c))"
  "map_of (config_marshal c) ''file_glob'' = Some (JStr (cf_FileGlob c))"
  "map_of (config_marshal c) ''poll_interval_secs'' = Some (JInt (cf_PollIntervalSec c))"
  "map_of (config_marshal c) ''mcp_addr'' = Some (JStr (cf_MCPAddr c))"
  "map_of (config_marshal c) ''mcp_token'' = (if cf_MCPToken c = [] then None else Some (JStr (cf_MCPToken c)))"
  "map_of (config_marshal c) ''rerank_model'' = (if cf_RerankModel c = [] then None else Some (JStr (cf_RerankModel c)))"
  "map_of (config_marshal c) ''rerank_candidates'' = (if cf_RerankCandidates c = 0 then None else Some (JInt (cf_RerankCandidates c)))"
  "map_of (config_marshal c) ''rerank_retry_on_failure'' = (if \<not> cf_RerankRetryOnFailure c then None else Some (JBool (cf_RerankRetryOnFailure c)))"
  "map_of (config_marshal c) ''rrf_k'' = (if cf_RRFK c = 0 then None else Some (JInt (cf_RRFK c)))"
  "map_of (config_marshal c) ''query_cache_enabled'' = (if \<not> cf_QueryCacheEnabled c then None else Some (JBool (cf_QueryCacheEnabled c)))"
  "map_of (config_marshal c) ''query_cache_results'' = (if cf_QueryCacheResults c = 0 then None else Some (JInt (cf_QueryCacheResults c)))"
  "map_of (config_marshal c) ''query_cache_embeddings'' = (if cf_QueryCacheEmbeddings c = 0 then None else Some (JInt (cf_QueryCacheEmbeddings c)))"
  "map_of (config_marshal c) ''pool_size'' = (if cf_PoolSize c = 0 then None else Some (JInt (cf_PoolSize c)))"
  "map_of (config_marshal c) ''adaptive_depth_enabled'' = (if \<not> cf_AdaptiveDepthEnabled c then None else Some (JBool (cf_AdaptiveDepthEnabled c)))"
  "map_of (config_marshal c) ''enrichment_enabled'' = (if \<not> cf_EnrichmentEnabled c then None else Some (JBool (cf_EnrichmentEnabled c)))"
  "map_of (config_marshal c) ''enrichment_model'' = (if cf_EnrichmentModel c = [] then None else Some (JStr (cf_EnrichmentModel c)))"
  "map_of (config_marshal c) ''captioning_enabled'' = (if \<not> cf_CaptioningEnabled c then None else Some (JBool (cf_CaptioningEnabled c)))"
  "map_of (config_marshal c) ''captioning_model'' = (if cf_CaptioningModel c = [] then None else Some (JStr (cf_CaptioningModel c)))"
  "map_of (config_marshal c) ''captioning_provider'' = (if cf_CaptioningProvider c = [] then None else Some (JStr (cf_CaptioningProvider c)))"
  "map_of (config_marshal c) ''captioning_endpoint'' = (if cf_CaptioningEndpoint c = [] then None else Some (JStr (cf_CaptioningEndpoint c)))"
  "map_of (config_marshal c) ''captioning_api_key'' = (if cf_CaptioningAPIKey c = [] then None else Some (JStr (cf_CaptioningAPIKey c)))"
  "map_of (config_marshal c) ''embedding_provider'' = (if cf_EmbeddingProvider c = [] then None else Some (JStr (cf_EmbeddingProvider c)))"
  "map_of (config_marshal c) ''embedding_endpoint'' = (if cf_EmbeddingEndpoint c = [] then None else Some (JStr (cf_EmbeddingEndpoint c)))"
  "map_of (config_marshal c) ''embedding_api_key'' = (if cf_EmbeddingAPIKey c = [] then None else Some (JStr (cf_EmbeddingAPIKey c)))"
  "map_of (config_marshal c) ''enrichment_provider'' = (if cf_EnrichmentProvider c = [] then None else Some (JStr (cf_EnrichmentProvider c)))"
  "map_of (config_marshal c) ''enrichment_endpoint'' = (if cf_EnrichmentEndpoint c = [] then None else Some (JStr (cf_EnrichmentEndpoint c)))"
  "map_of (config_marshal c) ''enrichment_api_key'' = (if cf_EnrichmentAPIKey c = [] then None else Some (JStr (cf_EnrichmentAPIKey c)))"
  "map_of (config_marshal c) ''rerank_provider'' = (if cf_RerankProvider c = [] then None else Some (JStr (cf_RerankProvider c)))"
  "map_of (config_marshal c) ''rerank_endpoint'' = (if cf_RerankEndpoint c = [] then None else Some (JStr (cf_RerankEndpoint c)))"
  "map_of (config_marshal c) ''rerank_api_key'' = (if cf_RerankAPIKey c = [] then None else Some (JStr (cf_RerankAPIKey c)))"
  "map_of (config_marshal c) ''poisoning_enabled'' = (if \<not> cf_PoisoningEnabled c then None else Some (JBool (cf_PoisoningEnabled c)))"
  "map_of (config_marshal c) ''poisoning_threshold_suspicious'' = (if cf_PoisoningThresholdSuspicious c = 0 then None else Some (JReal (cf_PoisoningThresholdSuspicious c)))"
  "map_of (config_marshal c) ''poisoning_threshold_quarantine'' = (if cf_PoisoningThresholdQuarantine c = 0 then None else Some (JReal (cf_PoisoningThresholdQuarantine c)))"
  "map_of (config_marshal c) ''poisoning_phrase_list'' = (if cf_PoisoningPhraseList c = [] then None else Some (JStr (cf_PoisoningPhraseList c)))"
  "map_of (config_marshal c) ''metrics_enabled'' = (if \<not> cf_MetricsEnabled c then None else Some (JBool (cf_MetricsEnabled c)))"
  "map_of (config_marshal c) ''otel_export'' = (if cf_OTelExport c = [] then None else Some (JStr (cf_OTelExport c)))"
  "map_of (config_marshal c) ''otel_endpoint'' = (if cf_OTelEndpoint c = [] then None else Some (JStr (cf_OTelEndpoint c)))"
  "map_of (config_marshal c) ''audit_log_enabled'' = (if \<not> cf_AuditLogEnabled c then None else Some (JBool (cf_AuditLogEnabled c)))"
  "map_of (config_marshal c) ''audit_log_max_bytes'' = (if cf_AuditLogMaxBytes c = 0 then None else Some (JInt (cf_AuditLogMaxBytes c)))"
  "map_of (config_marshal c) ''audit_path'' = (if cf_AuditPath c = [] then None else Some (JStr (cf_AuditPath c)))"
  "map_of (config_marshal c) ''pii_redact_enabled'' = (if \<not> cf_PIIRedactEnabled c then None else Some (JBool (cf_PIIRedactEnabled c)))"
  "map_of (config_marshal c) ''pii_patterns'' = (if cf_PIIPatterns c = [] then None else Some (JStr (cf_PIIPatterns c)))"
  "map_of (config_marshal c) ''near_dup_hamming'' = (if cf_NearDupHamming c = 0 then None else Some (JInt (cf_NearDupHamming c)))"
  "map_of (config_marshal c) ''bridge_enabled'' = (if \<not> cf_BridgeEnabled c then None else Some (JBool (cf_BridgeEnabled c)))"
  "map_of (config_marshal c) ''bridge_endpoint'' = (if cf_BridgeEndpoint c = [] then None else Some (JStr (cf_BridgeEndpoint c)))"
  "map_of (config_marshal c) ''bridge_source_vault'' = (if cf_BridgeSourceVault c = [] then None else Some (JStr (cf_BridgeSourceVault c)))"
  "map_of (config_marshal c) ''bridge_target_vault'' = (if cf_BridgeTargetVault c = [] then None else Some (JStr (cf_BridgeTargetVault c)))"
  "map_of (config_marshal c) ''bridge_max_in_flight'' = (if cf_BridgeMaxInFlight c = 0 then None else Some (JInt (cf_BridgeMaxInFlight c)))"
  "map_of (config_marshal c) ''bridge_rate_per_sec'' = (if cf_BridgeRatePerSec c = 0 then None else Some (JInt (cf_BridgeRatePerSec c)))"
  "map_of (config_marshal c) ''bridge_workers'' = (if cf_BridgeWorkers c = 0 then None else Some (JInt (cf_BridgeWorkers c)))"
  "map_of (config_marshal c) ''bridge_batch_size'' = (if cf_BridgeBatchSize c = 0 then None else Some (JInt (cf_BridgeBatchSize c)))"
  "map_of (config_marshal c) ''bridge_connect_timeout_ms'' = (if cf_BridgeConnectTimeoutMs c = 0 then None else Some (JInt (cf_BridgeConnectTimeoutMs c)))"
  "map_of (config_marshal c) ''bridge_request_timeout_ms'' = (if cf_BridgeRequestTimeoutMs c = 0 then None else Some (JInt (cf_BridgeRequestTimeoutMs c)))"
  "map_of (config_marshal c) ''bridge_backfill_auto_on_enable'' = (if \<not> cf_BridgeBackfillAutoOnEnable c then None else Some (JBool (cf_BridgeBackfillAutoOnEnable c)))"
  "map_of (config_marshal c) ''bridge_allow_external'' = (if \<not> cf_BridgeAllowExternal c then None else Some (JBool (cf_BridgeAllowExternal c)))"
  by (simp_all add: marshal_map config_entries_def split del: if_split)

lemma unmarshal_marshal:
  assumes "int64_fields c"
  shows "config_unmarshal (map_of (config_marshal c)) = Inr c"
proof -
  have typed: "list_all (\<lambda>(key, kind). case map_of (config_marshal c) key of None \<Rightarrow> True | Some v \<Rightarrow> has_kind kind v) config_fields"
    using assms unfolding int64_fields_def
    by (simp add: config_fields_def marshal_lookup split del: if_split)
  show ?thesis
    unfolding config_unmarshal_def if_P [OF typed] marshal_lookup by simp
qed


lemma ApplyEnv_unset:
  assumes "\<forall>var. env var = []"
  shows "ApplyEnvOverrides env c = c"
  using assms by (simp add: ApplyEnvOverrides_def env_str_def env_int_def env_bool_def env_dirs_def)

section \<open>Properties\<close>



text \<open>C21: what survives a restart. Saving a configuration and loading it with no variable set gives it
  back except for six fields: a switch that was turned off is on again and a cache of capacity 0 has
  its default capacity, because \<open>omitempty\<close> drops exactly the values that an absent key does not
  stand for. Poisoning detection, the audit log, metrics and the caches cannot be turned off.\<close>

theorem config_save_load:
  assumes "int64_fields c" and "Save print c = Some data"
    and "parse data = Some (map_of (config_marshal c))" and "\<forall>var. env var = []"
  shows "Load parse fmt_v env (Inr data) = Inr (c\<lparr>
    cf_QueryCacheEnabled := True,
    cf_QueryCacheResults := (if cf_QueryCacheResults c = 0 then DefaultQueryCacheResults else cf_QueryCacheResults c),
    cf_QueryCacheEmbeddings := (if cf_QueryCacheEmbeddings c = 0 then DefaultQueryCacheEmbeddings else cf_QueryCacheEmbeddings c),
    cf_PoisoningEnabled := True, cf_MetricsEnabled := True, cf_AuditLogEnabled := True\<rparr>)"
proof -
  have "map_of (config_entries c) ''ollama_model'' = None"
    by (simp add: config_entries_def)
  then have legacy: "map_of (config_marshal c) ''ollama_model'' = None"
    by (simp add: marshal_map)
  show ?thesis
    by (simp add: Load_def assms(3) unmarshal_marshal [OF assms(1)] legacy ApplyEnv_unset [OF assms(4)] absent_default_def
        marshal_lookup)
qed

definition demo_off :: config where
  "demo_off = Default\<lparr>cf_PoisoningEnabled := False, cf_AuditLogEnabled := False, cf_QueryCacheResults := 0\<rparr>"

theorem config_save_load_witness:
  "cf_PoisoningEnabled demo_off = False \<and>
   (case Load (\<lambda>data. Some (map_of (config_marshal demo_off))) (\<lambda>v. []) (\<lambda>var. []) (Inr []) of
      Inr c \<Rightarrow> cf_PoisoningEnabled c \<and> cf_AuditLogEnabled c \<and> cf_QueryCacheResults c = 256 | Inl e \<Rightarrow> False)"
proof -
  have "int64_fields demo_off"
    by (simp add: int64_fields_def demo_off_def Default_def DefaultQueryCacheEmbeddings_def DefaultPoolSize_def
        DefaultAuditLogMaxBytes_def DefaultNearDupHamming_def DefaultQueryCacheResults_def)
  moreover have "Save (\<lambda>kvs. Some []) demo_off = Some []"
    by (simp add: Save_def)
  ultimately show ?thesis
    using config_save_load [of demo_off "\<lambda>kvs. Some []" "[]" "\<lambda>data. Some (map_of (config_marshal demo_off))" "\<lambda>var. []" "\<lambda>v. []"]
    by (simp add: demo_off_def Default_def DefaultQueryCacheResults_def)
qed

end
