(* ===== verification/Workers.thy ===== *)
theory Workers
  imports Pipeline Near_Dup Enrich Embed_Processor Config
begin

text \<open>
  The work after the acknowledgement, \<open>internal/pipeline/workers.go\<close>, and what rebuilds a corpus:
  \<open>reprocess.go\<close> and \<open>load.go\<close>. A job is indexed, clustered, captioned, enriched, promoted and
  marked, in this order. The captioner and the enricher call model servers: functions that also
  change a state \<open>'s\<close> of the outside world. Jobs run on two workers; each step here is atomic because
  chunk records belong to one document and document records are under the pipeline's mutex.
\<close>

record 's captioner =
  cpt_Model :: string
  cpt_Caption :: "bytes \<Rightarrow> string \<Rightarrow> 's \<Rightarrow> string gres \<times> 's"

record 's enricher =
  enr_Model :: string
  enr_Enrich :: "string \<Rightarrow> 's \<Rightarrow> (string list \<times> string) gres \<times> 's"

record ('db, 's) work_env =
  we_pipe :: "'db pipe_env"
  we_caption :: "(string \<times> string) codec"
  we_captioner :: "'s captioner option"
  we_enricher :: "'s enricher option"
  we_promote :: bool

record ('db, 's) work_state =
  wk_ps :: "'db pipe_state"
  wk_out :: 's
  wk_promoted :: "(document \<times> chunk list) list"

definition ErrNothingToCaption :: go_error where
  "ErrNothingToCaption = Failed ''caption: nothing to caption''"

abbreviation set_db :: "'db \<Rightarrow> 'db pipe_state \<Rightarrow> 'db pipe_state" where
  "set_db d st \<equiv> st\<lparr>ps_db := d\<rparr>"

section \<open>Near duplicates\<close>

definition minNearDupTokens :: int where
  "minNearDupTokens = 8"

definition put_fingerprint :: "'db pipe_env \<Rightarrow> ws \<Rightarrow> chunk \<Rightarrow> 'db \<Rightarrow> 'db" where
  "put_fingerprint E ws c d =
     (if c_TokenCount c < minNearDupTokens then d
      else case PutNearDup (pe_P E) d ws (c_ID c) (SimHash (pe_sha E) (pe_unicode E) (c_Content c)) of
             Inr d' \<Rightarrow> d' | Inl e \<Rightarrow> d)"

text \<open>The scan for siblings: their identifiers and the best similarity so far.\<close>

definition sibling_cb :: "string \<Rightarrow> 64 word \<Rightarrow> int \<Rightarrow> string \<Rightarrow> 64 word \<Rightarrow> string list \<times> real \<Rightarrow> (string list \<times> real) \<times> bool" where
  "sibling_cb cid fp k otherID otherFP acc =
     (if otherID = cid then (acc, True)
      else if HammingNear fp otherFP k then
        (let (siblings, best) = acc; sim = 1 - real (OnesCount64 (xor fp otherFP)) / 64
         in ((siblings @ [otherID], if best < sim then sim else best), True))
      else (acc, True))"

definition attach_siblings :: "'db pipe_env \<Rightarrow> ws \<Rightarrow> int \<Rightarrow> chunk \<Rightarrow> 'db \<Rightarrow> 'db" where
  "attach_siblings E ws k c d =
     (if c_TokenCount c < minNearDupTokens then d
      else case GetNearDup (pe_P E) d ws (c_ID c) of
             None \<Rightarrow> d
           | Some fp \<Rightarrow>
               (let (siblings, best) = fst (ScanNearDup (pe_P E) d ws (sibling_cb (c_ID c) fp k) ([], 0))
                in if siblings = [] then d
                   else case DB_Get (pe_P E) d (ChunkKey ws (c_ID c)) of
                          Inr (Some raw) \<Rightarrow>
                            (case cd_unmarshal (pe_chunk E) raw of
                               None \<Rightarrow> d
                             | Some stored \<Rightarrow>
                                 (case cd_marshal (pe_chunk E)
                                     (stored\<lparr>c_NearDup := Some \<lparr>Siblings = siblings, Similarity = best\<rparr>\<rparr>) of
                                    None \<Rightarrow> d
                                  | Some cj \<Rightarrow> set_or (pe_P E) d (ChunkKey ws (c_ID c)) cj))
                        | _ \<Rightarrow> d))"

definition clusterNearDup :: "'db pipe_env \<Rightarrow> ws \<Rightarrow> chunk list \<Rightarrow> int \<Rightarrow> 'db \<Rightarrow> 'db" where
  "clusterNearDup E ws chunks k d =
     fold (attach_siblings E ws k) chunks (fold (put_fingerprint E ws) chunks d)"

section \<open>Document records\<close>

text \<open>Read, change, write back: nothing happens without a readable record.\<close>

definition modify_document :: "'db pipe_env \<Rightarrow> ws \<Rightarrow> string \<Rightarrow> (document \<Rightarrow> document) \<Rightarrow> 'db \<Rightarrow> document option \<times> 'db" where
  "modify_document E ws docID f d =
     (case DB_Get (pe_P E) d (DocumentKey ws docID) of
        Inr (Some raw) \<Rightarrow>
          (case cd_unmarshal (pe_doc E) raw of
             None \<Rightarrow> (None, d)
           | Some doc \<Rightarrow> (Some (f doc), set_or (pe_P E) d (DocumentKey ws docID) (marshal_or_nil (pe_doc E) (f doc))))
      | _ \<Rightarrow> (None, d))"

definition setEnrichment :: "'db pipe_env \<Rightarrow> ws \<Rightarrow> string \<Rightarrow> enrich_info \<Rightarrow> 'db pipe_state \<Rightarrow> 'db pipe_state" where
  "setEnrichment E ws docID info st =
     set_db (snd (modify_document E ws docID (\<lambda>doc. doc\<lparr>d_Enrichment := Some info\<rparr>) (ps_db st))) st"

definition markStatus :: "'db pipe_env \<Rightarrow> int \<Rightarrow> ws \<Rightarrow> string \<Rightarrow> string \<Rightarrow> 'db pipe_state \<Rightarrow> 'db pipe_state" where
  "markStatus E now ws docID status st =
     (case modify_document E ws docID (\<lambda>doc. doc\<lparr>d_Status := status, d_UpdatedAt := now\<rparr>) (ps_db st) of
        (None, d) \<Rightarrow> set_db d st
      | (Some doc, d) \<Rightarrow>
          (if status = StatusEmbedded
           then add_event \<lparr>ev_Type = EventEmbedded, ev_DocumentID = docID, ev_SourcePath = d_FilePath doc,
                  ev_After = doc, ev_Deltas = []\<rparr> (set_db d st)
           else set_db d st))"

section \<open>Enrichment\<close>

fun enrich_text :: "string \<Rightarrow> chunk list \<Rightarrow> string" where
  "enrich_text b [] = b"
| "enrich_text b (c # cs) =
     (let b' = b @ c_Content c @ [CHR 0x0A] in if 8000 < length b' then b' else enrich_text b' cs)"

definition enrichDocument :: "('db, 's) work_env \<Rightarrow> int \<Rightarrow> ws \<Rightarrow> string \<Rightarrow> chunk list \<Rightarrow> string \<Rightarrow>
    ('db, 's) work_state \<Rightarrow> ('db, 's) work_state" where
  "enrichDocument W now ws docID chunks captions w =
     (case we_enricher W of
        None \<Rightarrow> w
      | Some en \<Rightarrow>
          (let b = enrich_text (if captions \<noteq> [] then captions @ [CHR 0x0A] else []) chunks;
               (res, s) = enr_Enrich en b (wk_out w);
               info = (\<lambda>tags summary status. \<lparr>en_Tags = tags, en_Summary = summary, en_Model = enr_Model en,
                         en_GeneratedAt = now, en_Status = status\<rparr>);
               put = (\<lambda>i. w\<lparr>wk_out := s, wk_ps := setEnrichment (we_pipe W) ws docID i (wk_ps w)\<rparr>)
           in case res of
                Inr (tags, summary) \<Rightarrow> put (info tags summary EnrichStatusDone)
              | Inl e \<Rightarrow>
                  (if IsNothing e then put (info [] [] EnrichStatusNothing)
                   else if IsPermanent e then put (info [] [] EnrichStatusFailed)
                   else w\<lparr>wk_out := s\<rparr>)))"

section \<open>Captions\<close>

definition caption_line :: "int \<Rightarrow> string \<Rightarrow> string" where
  "caption_line page t = ''Figure on page '' @ Itoa page @ '': '' @ t"

text \<open>The images in turn: a cached caption of the same model, or a call. A transient error gives up.\<close>

fun caption_loop :: "('db, 's) work_env \<Rightarrow> 's captioner \<Rightarrow> ws \<Rightarrow> image_ref list \<Rightarrow> (string \<times> int) list \<Rightarrow>
    'db \<times> 's \<Rightarrow> (string \<times> int) list option \<times> 'db \<times> 's" where
  "caption_loop W cp ws [] ls ds = (Some ls, ds)"
| "caption_loop W cp ws (img # imgs) ls (d, s) =
     (let E = we_pipe W;
          key = ImageCaptionKey ws (hex_of_bytes (pe_sha E (im_Bytes img)));
          cached = (case DB_Get (pe_P E) d key of
                      Inr (Some raw) \<Rightarrow>
                        (case cd_unmarshal (we_caption W) raw of
                           Some (c, m) \<Rightarrow> if m = cpt_Model cp \<and> c \<noteq> [] then Some c else None
                         | None \<Rightarrow> None)
                    | _ \<Rightarrow> None)
      in case cached of
           Some c \<Rightarrow> caption_loop W cp ws imgs (ls @ [(caption_line (im_PageNr img) c, im_PageNr img)]) (d, s)
         | None \<Rightarrow>
             (case cpt_Caption cp (im_Bytes img) (''page '' @ Itoa (im_PageNr img) @ '', '' @ im_FileType img) s of
                (Inr c, s') \<Rightarrow>
                  (let t = TrimSpace c
                   in if t = [] then caption_loop W cp ws imgs ls (d, s')
                      else caption_loop W cp ws imgs (ls @ [(caption_line (im_PageNr img) t, im_PageNr img)])
                             (set_or (pe_P E) d key (marshal_or_nil (we_caption W) (t, cpt_Model cp)), s'))
              | (Inl e, s') \<Rightarrow>
                  (if e = ErrNothingToCaption \<or> IsPermanent e then caption_loop W cp ws imgs ls (d, s')
                   else (None, d, s'))))"

definition caption_chunk :: "'db pipe_env \<Rightarrow> int \<Rightarrow> string \<Rightarrow> job \<Rightarrow> string \<Rightarrow> int list \<Rightarrow> chunk" where
  "caption_chunk E now model j captionsText pages =
     (let n = length (jb_chunks j);
          (ctx, level) =
            (if jb_spans j \<noteq> [] \<and> jb_pageOffsets j \<noteq> [] \<and> jb_images j \<noteq> []
             then (case map_of (jb_pageOffsets j) (im_PageNr (hd (jb_images j))) of
                     Some off \<Rightarrow> resolveBreadcrumb (pe_sort E) (jb_spans j) off []
                   | None \<Rightarrow> ([], 0))
             else ([], 0))
      in blank_chunk\<lparr>
           c_ID := GenerateID (pe_sha E) (pe_fmt E) captionsText (jb_mimeType j)
             [(''doc'', MString (jb_docID j)), (''idx'', MInt (int n)), (''kind'', MString ''caption'')],
           c_DocumentID := jb_docID j, c_Content := captionsText,
           c_ContentHash := ContentHash (pe_sha E) (str_bytes captionsText),
           c_ChunkIndex := int n, c_TotalChunks := int n + 1, c_CreatedAt := now, c_Kind := ''caption'',
           c_Caption := Some \<lparr>cap_Model = model, cap_GeneratedAt = now, cap_Status = ''done'', cap_ImagePages = pages\<rparr>,
           c_PreviousChunkID := (if 0 < n then c_ID (jb_chunks j ! (n - 1)) else []),
           c_SectionContext := ctx, c_SectionLevel := level\<rparr>)"

text \<open>The last chunk of the document points at the caption.\<close>

definition link_caption :: "'db pipe_env \<Rightarrow> ws \<Rightarrow> chunk list \<Rightarrow> string \<Rightarrow> 'db \<Rightarrow> 'db" where
  "link_caption E ws chunks captionID d =
     (if chunks = [] then d
      else case DB_Get (pe_P E) d (ChunkKey ws (c_ID (last chunks))) of
             Inr (Some raw) \<Rightarrow>
               (case cd_unmarshal (pe_chunk E) raw of
                  None \<Rightarrow> d
                | Some lc \<Rightarrow>
                    (case cd_marshal (pe_chunk E) (lc\<lparr>c_NextChunkID := captionID\<rparr>) of
                       None \<Rightarrow> d | Some lj \<Rightarrow> set_or (pe_P E) d (ChunkKey ws (c_ID (last chunks))) lj))
           | _ \<Rightarrow> d)"

definition bump_count :: "'db pipe_env \<Rightarrow> int \<Rightarrow> ws \<Rightarrow> string \<Rightarrow> 'db \<Rightarrow> 'db" where
  "bump_count E now ws docID d =
     (case DB_Get (pe_P E) d (DocumentKey ws docID) of
        Inr (Some raw) \<Rightarrow>
          (case cd_unmarshal (pe_doc E) raw of
             None \<Rightarrow> d
           | Some doc \<Rightarrow>
               (case cd_marshal (pe_doc E) (doc\<lparr>d_ChunkCount := d_ChunkCount doc + 1, d_UpdatedAt := now\<rparr>) of
                  None \<Rightarrow> d | Some dj \<Rightarrow> set_or (pe_P E) d (DocumentKey ws docID) dj))
      | _ \<Rightarrow> d)"

definition captionImages :: "('db, 's) work_env \<Rightarrow> int \<Rightarrow> job \<Rightarrow> ('db, 's) work_state \<Rightarrow> string \<times> ('db, 's) work_state" where
  "captionImages W now j w =
     (case we_captioner W of
        None \<Rightarrow> ([], w)
      | Some cp \<Rightarrow>
          if jb_images j = [] then ([], w)
          else
            (let E = we_pipe W; ws = jb_ws j; st = wk_ps w;
                 (ls, d, s) = caption_loop W cp ws (jb_images j) [] (ps_db st, wk_out w);
                 w1 = w\<lparr>wk_out := s, wk_ps := set_db d st\<rparr>
             in case ls of
                  None \<Rightarrow> ([], w1)
                | Some [] \<Rightarrow> ([], w1)
                | Some (l # rest) \<Rightarrow>
                    (let text = Join (map fst (l # rest)) [CHR 0x0A];
                         cc = caption_chunk E now (cpt_Model cp) j text (map snd (l # rest))
                     in case DB_Set (pe_P E) d (ChunkKey ws (c_ID cc)) (marshal_or_nil (pe_chunk E) cc) of
                          Inl e \<Rightarrow> ([], w1)
                        | Inr d1 \<Rightarrow>
                            (let d2 = set_or (pe_P E) d1 (EmbedQueueKey ws (c_ID cc)) (pending_item E);
                                 (d3, f) = FTS_Index (pe_P E) (pe_unicode E) ws (c_ID cc) [(''body'', text)] (d2, ps_fts st);
                                 d4 = link_caption E ws (jb_chunks j) (c_ID cc) d3;
                                 d5 = bump_count E now ws (jb_docID j) d4
                             in (text, w1\<lparr>wk_ps := indexChanged ws (st\<lparr>ps_db := d5, ps_fts := f\<rparr>)\<rparr>)))))"

section \<open>A job\<close>

definition index_chunk :: "'db pipe_env \<Rightarrow> ws \<Rightarrow> chunk \<Rightarrow> 'db pipe_state \<Rightarrow> 'db pipe_state" where
  "index_chunk E ws c st =
     (let (d, f) = FTS_Index (pe_P E) (pe_unicode E) ws (c_ID c) [(''body'', c_Content c)] (ps_db st, ps_fts st);
          d' = (case c_Poisoning c of
                  Some v \<Rightarrow>
                    (if Quarantined (pv_Level v)
                     then case cd_marshal (pe_verdict E) v of
                            Some vj \<Rightarrow> (case PutQuarantine (pe_P E) d ws (c_ID c) vj of Inr d' \<Rightarrow> d' | Inl e \<Rightarrow> d)
                          | None \<Rightarrow> d
                     else d)
                | None \<Rightarrow> d)
      in st\<lparr>ps_db := d', ps_fts := f\<rparr>)"

definition processJob :: "('db, 's) work_env \<Rightarrow> int \<Rightarrow> job \<Rightarrow> ('db, 's) work_state \<Rightarrow> ('db, 's) work_state" where
  "processJob W now j w =
     (let E = we_pipe W; ws = jb_ws j;
          st1 = indexChanged ws (fold (index_chunk E ws) (jb_chunks j) (wk_ps w));
          k = (if pe_nearDupK E \<le> 0 then DefaultNearDupHamming else pe_nearDupK E);
          w1 = w\<lparr>wk_ps := set_db (clusterNearDup E ws (jb_chunks j) k (ps_db st1)) st1\<rparr>;
          (captions, w2) = captionImages W now j w1;
          w3 = enrichDocument W now ws (jb_docID j) (jb_chunks j) captions w2;
          w4 = (if we_promote W then w3\<lparr>wk_promoted := wk_promoted w3 @ [(jb_doc j, jb_chunks j)]\<rparr> else w3)
      in w4\<lparr>wk_ps := markStatus E now ws (jb_docID j) StatusEmbedded (wk_ps w4)\<rparr>)"

section \<open>Reprocessing\<close>

definition isUnder :: "string \<Rightarrow> string \<Rightarrow> bool" where
  "isUnder path rootdir =
     (let p = path_Clean path; r = path_Clean rootdir
      in if r = ''.'' \<or> r = ''/'' then True
         else if p = r then True
         else hasPrefix p (r @ ''/''))"

text \<open>Both take the prefix of the vault named default; the results of deletions are dropped.\<close>

definition drop_document :: "'db pipe_env \<Rightarrow> ws \<Rightarrow> string \<Rightarrow> string \<Rightarrow> 'db pipe_state \<Rightarrow> 'db pipe_state" where
  "drop_document E ws path docID st = snd (deleteDocLocked E ws docID (captureReingest E ws path docID st))"

definition Reprocess :: "'db pipe_env \<Rightarrow> (string \<Rightarrow> string \<Rightarrow> bool option) \<Rightarrow> int \<Rightarrow> ws \<Rightarrow> string \<Rightarrow> string \<Rightarrow>
    (string \<times> bytes gres) option list \<Rightarrow> 'db pipe_state \<Rightarrow> ingest_result gres \<times> 'db pipe_state" where
  "Reprocess E fmatch now ws rootdir glob files st =
     (case VaultKindRange 0x0C ws of
        Inl e \<Rightarrow> (Inl e, st)
      | Inr (lower, upper) \<Rightarrow>
          (let st1 = fst (DB_RangeScan (pe_P E) (ps_db st) lower upper
                 (\<lambda>key val st. (let path = path_Clean (bytes_str (drop 9 key))
                    in if \<not> isUnder path (path_Clean rootdir) then st
                       else drop_document E ws path (bytes_str val) st, True)) st);
               (r, st2) = Ingest E fmatch now ws glob files st1
           in (Inr r, st2)))"

text \<open>\<open>read\<close> gives the file of a path, as the walk over that single path finds it.\<close>

definition add_result :: "ingest_result \<Rightarrow> ingest_result \<Rightarrow> ingest_result" where
  "add_result r res =
     res\<lparr>res_New := res_New res + res_New r, res_Skipped := res_Skipped res + res_Skipped r,
         res_Errors := res_Errors res + res_Errors r\<rparr>"

definition ReprocessAll :: "'db pipe_env \<Rightarrow> (string \<Rightarrow> string \<Rightarrow> bool option) \<Rightarrow> int \<Rightarrow> ws \<Rightarrow>
    (string \<Rightarrow> (string \<times> bytes gres) option list) \<Rightarrow> 'db pipe_state \<Rightarrow> ingest_result gres \<times> 'db pipe_state" where
  "ReprocessAll E fmatch now ws read st =
     (case VaultKindRange 0x0C ws of
        Inl e \<Rightarrow> (Inl e, st)
      | Inr (lower, upper) \<Rightarrow>
          (let entries = fst (DB_RangeScan (pe_P E) (ps_db st) lower upper
                 (\<lambda>key val acc. (acc @ [(path_Clean (bytes_str (drop 9 key)), bytes_str val)], True)) []);
               st1 = fold (\<lambda>(path, docID). drop_document E ws path docID) entries st;
               (res, st2) = fold (\<lambda>(path, docID) (res, st).
                   let (r, st') = Ingest E fmatch now ws ''*'' (read path) st in (add_result r res, st'))
                 entries (\<lparr>res_New = 0, res_Skipped = 0, res_Unsupported = 0, res_Errors = 0\<rparr>, st1)
           in (Inr res, st2)))"

section \<open>Loading\<close>

text \<open>
  The embedding record as \<open>load.go\<close> declares it, where \<open>None\<close> is a nil slice: a record without a
  vector. The vectors of a vault are stored in such records, or as bare lists in old databases
  (codec \<open>L\<close>); a record that does not decode or has no vector is tried as a bare list.
\<close>

record storedEmbedding =
  se_Model :: string
  se_Convention :: string
  se_Vector :: "real list option"

definition load_vector :: "storedEmbedding codec \<Rightarrow> real list codec \<Rightarrow> bytes \<Rightarrow> bytes \<Rightarrow> vector \<Rightarrow> vector" where
  "load_vector C L key val v =
     (let chunkID = bytes_str (drop 9 key);
          legacy = (case cd_unmarshal L val of Some w \<Rightarrow> Vec_Add chunkID w v | None \<Rightarrow> v)
      in case cd_unmarshal C val of
           Some se \<Rightarrow> (case se_Vector se of Some w \<Rightarrow> Vec_Add chunkID w v | None \<Rightarrow> legacy)
         | None \<Rightarrow> legacy)"

definition LoadIndex :: "'db pebble_ops \<Rightarrow> unicode \<Rightarrow> chunk codec \<Rightarrow> storedEmbedding codec \<Rightarrow> real list codec \<Rightarrow>
    ws \<Rightarrow> 'db \<Rightarrow> fts \<times> vector \<times> 'db" where
  "LoadIndex P u C R L ws d =
     (let d' = (if HasPostings P d ws then d
                else MigrateFromChunks P u d ws
                  (case VaultKindRange PrefixChunk ws of
                     Inl e \<Rightarrow> []
                   | Inr (lower, upper) \<Rightarrow>
                       fst (DB_RangeScan P d lower upper
                         (\<lambda>k val acc. (acc @ (case cd_unmarshal C val of Some c \<Rightarrow> [(c_ID c, c_Content c)] | None \<Rightarrow> []), True)) [])));
          v = (case VaultKindRange PrefixEmbedding ws of
                 Inl e \<Rightarrow> NewVector
               | Inr (lower, upper) \<Rightarrow>
                   fst (DB_RangeScan P d' lower upper (\<lambda>k val v. (load_vector R L k val v, True)) NewVector))
      in (NewFTS, v, d'))"

text \<open>The Go map of counters is the list of its entries. Records without a model are not counted.\<close>

definition EmbeddingModelStats :: "'db pebble_ops \<Rightarrow> storedEmbedding codec \<Rightarrow> ws \<Rightarrow> 'db \<Rightarrow> (string \<times> int) list" where
  "EmbeddingModelStats P R ws d =
     (case VaultKindRange PrefixEmbedding ws of
        Inl e \<Rightarrow> []
      | Inr (lower, upper) \<Rightarrow>
          fst (DB_RangeScan P d lower upper
            (\<lambda>k val m. (case cd_unmarshal R val of
               Some se \<Rightarrow> if se_Model se \<noteq> [] then bump (se_Model se) 1 m else m
             | None \<Rightarrow> m, True)) []))"

section \<open>What a job writes\<close>

lemma FTS_Index_effect:
  assumes "pebble P view" and "reliable P"
  shows "\<not> fts_kind k \<Longrightarrow> view (fst (FTS_Index P u ws c flds (d, f))) k = view d k"
    and "view d (FTSIndexedKey ws i) \<noteq> None \<Longrightarrow> view (fst (FTS_Index P u ws c flds (d, f))) (FTSIndexedKey ws i) \<noteq> None"
    and "field_updates u flds \<noteq> [] \<Longrightarrow> view (fst (FTS_Index P u ws c flds (d, f))) (FTSIndexedKey ws c) \<noteq> None"
    and "i \<noteq> c \<Longrightarrow> view (fst (FTS_Index P u ws c flds (d, f))) (FTSIndexedKey ws i) = view d (FTSIndexedKey ws i)"
proof -
  let ?r = "view (fst (FTS_Index P u ws c flds (d, f)))"
  have kinds: "FTSIndexedKey ws i \<noteq> FTSPostingKey ws t c" "FTSIndexedKey ws i \<noteq> FTSGlobalStatsKey ws"
    "FTSIndexedKey ws i = FTSIndexedKey ws j \<longleftrightarrow> i = j" for t i j
    by (simp_all add: FTSPostingKey_def FTSIndexedKey_def vaultScopedString_def vaultScoped_def FTSGlobalStatsKey_def)
  have "(\<not> fts_kind k \<longrightarrow> ?r k = view d k) \<and> (view d (FTSIndexedKey ws i) \<noteq> None \<longrightarrow> ?r (FTSIndexedKey ws i) \<noteq> None) \<and>
      (field_updates u flds \<noteq> [] \<longrightarrow> ?r (FTSIndexedKey ws c) \<noteq> None) \<and>
      (i \<noteq> c \<longrightarrow> ?r (FTSIndexedKey ws i) = view d (FTSIndexedKey ws i))"
  proof (cases "view d (FTSIndexedKey ws c)")
    case None
    have other: "index_effect u ws c flds st m k = m k" if "\<not> fts_kind k" for st m
      using that by (intro index_effect_other) (auto simp: fts_kind_def FTSPostingKey_def FTSIndexedKey_def
          vaultScopedString_def vaultScoped_def FTSGlobalStatsKey_def)
    have marker: "index_effect u ws c flds st m (FTSIndexedKey ws i) = m (FTSIndexedKey ws i)" if "i \<noteq> c" for st m
      using that by (intro index_effect_other) (simp_all add: kinds)
    show ?thesis
      unfolding pebble.Index_view [OF assms None]
      by (cases "i = c") (auto simp: other marker index_effect_indexed None)
  next
    case (Some val)
    then have "FTS_Index P u ws c flds (d, f) = (d, f)"
      using pebble.reliable_get [OF assms, of d "FTSIndexedKey ws c"] by (simp add: FTS_Index_def)
    then show ?thesis
      using Some by simp
  qed
  then show "\<not> fts_kind k \<Longrightarrow> ?r k = view d k"
    and "view d (FTSIndexedKey ws i) \<noteq> None \<Longrightarrow> ?r (FTSIndexedKey ws i) \<noteq> None"
    and "field_updates u flds \<noteq> [] \<Longrightarrow> ?r (FTSIndexedKey ws c) \<noteq> None"
    and "i \<noteq> c \<Longrightarrow> ?r (FTSIndexedKey ws i) = view d (FTSIndexedKey ws i)"
    by blast+
qed

text \<open>The keys of documents, chunks and index markers, which the other writes of a job do not touch.\<close>

lemma job_keys [simp]:
  "QuarantineKey ws i \<noteq> DocumentKey ws j" "QuarantineKey ws i \<noteq> ChunkKey ws j" "QuarantineKey ws i \<noteq> FTSIndexedKey ws j"
  "NearDupKey ws i \<noteq> DocumentKey ws j" "NearDupKey ws i \<noteq> ChunkKey ws j" "NearDupKey ws i \<noteq> FTSIndexedKey ws j"
  "ChunkKey ws i \<noteq> DocumentKey ws j" "ChunkKey ws i \<noteq> FTSIndexedKey ws j" "ChunkKey ws i = ChunkKey ws j \<longleftrightarrow> i = j"
  by (simp_all add: scoped_key_defs FTSIndexedKey_def vaultScopedString_def vaultScoped_def)

lemma PutQuarantine_or_view:
  assumes "pebble P view" and "reliable P"
  shows "view (case PutQuarantine P d ws i v of Inr d' \<Rightarrow> d' | Inl e \<Rightarrow> d) = (view d)(QuarantineKey ws i \<mapsto> v)"
  using set_or_view [OF assms, of d "QuarantineKey ws i" v] by (simp add: PutQuarantine_def set_or_def)

lemma index_chunk_effect:
  assumes "pebble (pe_P E) view" and "reliable (pe_P E)"
  shows "k \<in> range (DocumentKey ws) \<union> range (ChunkKey ws) \<Longrightarrow> view (ps_db (index_chunk E ws c st)) k = view (ps_db st) k"
    and "view (ps_db st) (FTSIndexedKey ws i) \<noteq> None \<or> i = c_ID c \<and> Tokenize (pe_unicode E) (c_Content c) \<noteq> [] \<Longrightarrow>
           view (ps_db (index_chunk E ws c st)) (FTSIndexedKey ws i) \<noteq> None"
    and "ps_events (index_chunk E ws c st) = ps_events st"
proof -
  obtain d f where df: "FTS_Index (pe_P E) (pe_unicode E) ws (c_ID c) [(''body'', c_Content c)] (ps_db st, ps_fts st) = (d, f)"
    by (cases "FTS_Index (pe_P E) (pe_unicode E) ws (c_ID c) [(''body'', c_Content c)] (ps_db st, ps_fts st)")
  have q: "view (ps_db (index_chunk E ws c st)) k = view d k" if "\<And>i. QuarantineKey ws i \<noteq> k" for k
    using that by (auto simp: index_chunk_def df PutQuarantine_or_view [OF assms] split: option.split)
  note eff = FTS_Index_effect [OF assms, where u = "pe_unicode E" and ws = ws and c = "c_ID c" and
      flds = "[(''body'', c_Content c)]" and d = "ps_db st" and f = "ps_fts st", unfolded df fst_conv]
  show "k \<in> range (DocumentKey ws) \<union> range (ChunkKey ws) \<Longrightarrow> view (ps_db (index_chunk E ws c st)) k = view (ps_db st) k"
    using q [of k] eff(1) [of k] by auto
  have "view d (FTSIndexedKey ws i) \<noteq> None"
    if "view (ps_db st) (FTSIndexedKey ws i) \<noteq> None \<or> i = c_ID c \<and> Tokenize (pe_unicode E) (c_Content c) \<noteq> []"
    using that eff(2,3) by (auto simp: body_field)
  then show "view (ps_db st) (FTSIndexedKey ws i) \<noteq> None \<or> i = c_ID c \<and> Tokenize (pe_unicode E) (c_Content c) \<noteq> [] \<Longrightarrow>
           view (ps_db (index_chunk E ws c st)) (FTSIndexedKey ws i) \<noteq> None"
    using q [of "FTSIndexedKey ws i"] by fastforce
qed (simp add: index_chunk_def split: prod.split)

lemma index_chunks_effect:
  assumes "pebble (pe_P E) view" and "reliable (pe_P E)"
  shows "k \<in> range (DocumentKey ws) \<union> range (ChunkKey ws) \<Longrightarrow>
           view (ps_db (fold (index_chunk E ws) cs st)) k = view (ps_db st) k"
    and "view (ps_db st) (FTSIndexedKey ws i) \<noteq> None \<or>
           (\<exists>c \<in> set cs. c_ID c = i \<and> Tokenize (pe_unicode E) (c_Content c) \<noteq> []) \<Longrightarrow>
           view (ps_db (fold (index_chunk E ws) cs st)) (FTSIndexedKey ws i) \<noteq> None"
    and "ps_events (fold (index_chunk E ws) cs st) = ps_events st"
proof -
  show "k \<in> range (DocumentKey ws) \<union> range (ChunkKey ws) \<Longrightarrow>
      view (ps_db (fold (index_chunk E ws) cs st)) k = view (ps_db st) k"
    by (induction cs arbitrary: st) (simp_all add: index_chunk_effect(1) [OF assms])
  show "ps_events (fold (index_chunk E ws) cs st) = ps_events st"
    by (induction cs arbitrary: st) (simp_all add: index_chunk_effect(3) [OF assms])
  show "view (ps_db st) (FTSIndexedKey ws i) \<noteq> None \<or>
      (\<exists>c \<in> set cs. c_ID c = i \<and> Tokenize (pe_unicode E) (c_Content c) \<noteq> []) \<Longrightarrow>
      view (ps_db (fold (index_chunk E ws) cs st)) (FTSIndexedKey ws i) \<noteq> None"
  proof (induction cs arbitrary: st)
    case (Cons c cs)
    then have "view (ps_db (index_chunk E ws c st)) (FTSIndexedKey ws i) \<noteq> None \<or>
        (\<exists>c \<in> set cs. c_ID c = i \<and> Tokenize (pe_unicode E) (c_Content c) \<noteq> [])"
      using index_chunk_effect(2) [OF assms, of st ws i c] by auto
    then show ?case
      using Cons.IH [of "index_chunk E ws c st"] by simp
  qed simp
qed

text \<open>Indexing a chunk that is not marked writes a posting for each of its terms and removes none.\<close>

lemma apply_sets_dom:
  "\<lbrakk>\<forall>op \<in> set ops. \<exists>k v. op = KSet k v; m k \<noteq> None \<or> (\<exists>v. KSet k v \<in> set ops)\<rbrakk> \<Longrightarrow> apply_batch ops m k \<noteq> None"
proof (induction ops arbitrary: m)
  case (Cons op ops)
  obtain k' v' where op: "op = KSet k' v'"
    using Cons.prems(1) by auto
  have "apply_batch ops (m(k' \<mapsto> v')) k \<noteq> None"
    using Cons.prems by (intro Cons.IH) (auto simp: op)
  then show ?case
    by (simp add: op)
qed simp

lemma index_effect_dom:
  "m k \<noteq> None \<or> (\<exists>t \<in> fst ` set (field_updates u flds). k = FTSPostingKey ws t c) \<Longrightarrow>
   index_effect u ws c flds st m k \<noteq> None"
  unfolding index_effect_def
proof (rule apply_sets_dom)
  assume "m k \<noteq> None \<or> (\<exists>t \<in> fst ` set (field_updates u flds). k = FTSPostingKey ws t c)"
  moreover have "\<exists>v. KSet (FTSPostingKey ws t c) v \<in> set (posting_ops ws c n (term_counts u flds))"
    if "t \<in> fst ` set (field_updates u flds)" for t n
    using that bump_all_keys [of t "field_updates u flds"] by (force simp: posting_ops_def term_counts_def)
  ultimately show "m k \<noteq> None \<or> (\<exists>v. KSet k v \<in> set (writeStats ws (posting_ops ws c (doc_len u flds) (term_counts u flds) @
      [KSet (FTSIndexedKey ws c) (le_bytes 2 (doc_len u flds))])
      \<lparr>gs_N = gs_N st + 1, gs_TotalLen = gs_TotalLen st + word_of_nat (doc_len u flds)\<rparr>))"
    by (auto simp: writeStats_def)
qed (auto simp: writeStats_def posting_ops_def)

lemma index_chunk_postings:
  assumes "pebble (pe_P E) view" and "reliable (pe_P E)"
  shows "view (ps_db st) (FTSPostingKey ws t i) \<noteq> None \<or>
      i = c_ID c \<and> view (ps_db st) (FTSIndexedKey ws i) = None \<and> t \<in> set (Tokenize (pe_unicode E) (c_Content c)) \<Longrightarrow>
      view (ps_db (index_chunk E ws c st)) (FTSPostingKey ws t i) \<noteq> None"
    and "i \<noteq> c_ID c \<Longrightarrow>
      view (ps_db (index_chunk E ws c st)) (FTSIndexedKey ws i) = view (ps_db st) (FTSIndexedKey ws i)"
proof -
  let ?flds = "[(''body'', c_Content c)]"
  obtain d f where df: "FTS_Index (pe_P E) (pe_unicode E) ws (c_ID c) ?flds (ps_db st, ps_fts st) = (d, f)"
    by (cases "FTS_Index (pe_P E) (pe_unicode E) ws (c_ID c) ?flds (ps_db st, ps_fts st)")
  have q: "view (ps_db (index_chunk E ws c st)) k = view d k" if "\<And>i. QuarantineKey ws i \<noteq> k" for k
    using that by (auto simp: index_chunk_def df PutQuarantine_or_view [OF assms] split: option.split)
  have keys: "QuarantineKey ws j \<noteq> FTSPostingKey ws t i" "QuarantineKey ws j \<noteq> FTSIndexedKey ws i" for j
    by (simp_all add: QuarantineKey_def FTSPostingKey_def FTSIndexedKey_def vaultScopedString_def vaultScoped_def)
  have body: "fst ` set (field_updates (pe_unicode E) ?flds) = set (Tokenize (pe_unicode E) (c_Content c))"
    by (simp add: body_field image_image)
  show "view (ps_db (index_chunk E ws c st)) (FTSPostingKey ws t i) \<noteq> None"
    if prem: "view (ps_db st) (FTSPostingKey ws t i) \<noteq> None \<or>
      i = c_ID c \<and> view (ps_db st) (FTSIndexedKey ws i) = None \<and> t \<in> set (Tokenize (pe_unicode E) (c_Content c))"
  proof -
    have "view d (FTSPostingKey ws t i) \<noteq> None"
    proof (cases "view (ps_db st) (FTSIndexedKey ws (c_ID c))")
      case None
      have "index_effect (pe_unicode E) ws (c_ID c) ?flds gs (view (ps_db st)) (FTSPostingKey ws t i) \<noteq> None" for gs
        by (rule index_effect_dom) (use prem in \<open>unfold body, blast\<close>)
      moreover have "view (ps_db st) (FTSPostingKey ws t i) \<noteq> None" if "field_updates (pe_unicode E) ?flds = []"
        using prem that by (auto simp: body_field)
      ultimately show ?thesis
        using pebble.Index_view [OF assms None, of "pe_unicode E" ?flds "ps_fts st"] by (simp add: df split: if_splits)
    next
      case (Some val)
      then have "d = ps_db st"
        using df pebble.reliable_get [OF assms, of "ps_db st" "FTSIndexedKey ws (c_ID c)"] by (simp add: FTS_Index_def)
      then show ?thesis
        using prem Some by auto
    qed
    then show ?thesis
      using q [of "FTSPostingKey ws t i"] keys(1) by simp
  qed
  show "view (ps_db (index_chunk E ws c st)) (FTSIndexedKey ws i) = view (ps_db st) (FTSIndexedKey ws i)"
    if "i \<noteq> c_ID c"
    using q [of "FTSIndexedKey ws i"] keys(2) that FTS_Index_effect(4) [OF assms, of i "c_ID c" "pe_unicode E" ws ?flds "ps_db st" "ps_fts st"]
    by (simp add: df)
qed

lemma index_chunks_postings:
  assumes "pebble (pe_P E) view" and "reliable (pe_P E)"
  shows "\<lbrakk>distinct (map c_ID cs); \<forall>c \<in> set cs. view (ps_db st) (FTSIndexedKey ws (c_ID c)) = None;
      c \<in> set cs; t \<in> set (Tokenize (pe_unicode E) (c_Content c))\<rbrakk> \<Longrightarrow>
    view (ps_db (fold (index_chunk E ws) cs st)) (FTSPostingKey ws t (c_ID c)) \<noteq> None"
proof (induction cs arbitrary: st)
  case (Cons c' cs)
  have keep: "view (ps_db (fold (index_chunk E ws) cs st)) (FTSPostingKey ws t i) \<noteq> None"
    if "view (ps_db st) (FTSPostingKey ws t i) \<noteq> None" for st i
    using that by (induction cs arbitrary: st) (simp_all add: index_chunk_postings(1) [OF assms] del: not_None_eq)
  show ?case
  proof (cases "c = c'")
    case True
    then show ?thesis
      using Cons.prems keep index_chunk_postings(1) [OF assms, of st ws t "c_ID c" c] by simp
  next
    case False
    then have c: "c \<in> set cs"
      using Cons.prems(3) by simp
    have "view (ps_db (index_chunk E ws c' st)) (FTSIndexedKey ws (c_ID b)) = None" if b: "b \<in> set cs" for b
    proof -
      have "c_ID b \<noteq> c_ID c'"
        using imageI [OF b, of c_ID] Cons.prems(1) by (auto simp del: image_eqI)
      then show ?thesis
        using b Cons.prems(2) by (simp add: index_chunk_postings(2) [OF assms])
    qed
    then show ?thesis
      using Cons.IH [of "index_chunk E ws c' st"] Cons.prems(1,4) c by simp
  qed
qed simp

text \<open>Clustering writes fingerprints and existing chunk records only.\<close>

lemma clusterNearDup_effect:
  assumes "pebble (pe_P E) view" and "reliable (pe_P E)"
  shows "view (clusterNearDup E ws cs n d) (DocumentKey ws i) = view d (DocumentKey ws i)"
    and "view (clusterNearDup E ws cs n d) (FTSIndexedKey ws i) = view d (FTSIndexedKey ws i)"
    and "view d (ChunkKey ws i) = None \<Longrightarrow> view (clusterNearDup E ws cs n d) (ChunkKey ws i) = None"
    and "view (clusterNearDup E ws cs n d) (FTSPostingKey ws t i) = view d (FTSPostingKey ws t i)"
proof -
  have put: "view (put_fingerprint E ws c d) k = view d k" if "k \<notin> range (NearDupKey ws)" for c d k
    using that set_or_view [OF assms, of d "NearDupKey ws (c_ID c)"]
    by (auto simp: put_fingerprint_def PutNearDup_def set_or_def)
  have puts: "view (fold (put_fingerprint E ws) cs d) k = view d k" if "k \<notin> range (NearDupKey ws)" for cs d k
    using that by (induction cs arbitrary: d) (simp_all add: put)
  have att: "view (attach_siblings E ws n c d) k = view d k" if "k \<notin> range (ChunkKey ws)" for c d k
    using that by (auto simp: attach_siblings_def set_or_view [OF assms] Let_def split: option.split sum.split prod.split)
  have atts: "view (fold (attach_siblings E ws n) cs d) k = view d k" if "k \<notin> range (ChunkKey ws)" for cs d k
    using that by (induction cs arbitrary: d) (simp_all add: att)
  have none: "view (attach_siblings E ws n c d) (ChunkKey ws i) = None" if "view d (ChunkKey ws i) = None" for c d
    using that pebble.reliable_Get [OF assms, of d "ChunkKey ws (c_ID c)"]
    by (auto simp: attach_siblings_def set_or_view [OF assms] Let_def split: option.split sum.split prod.split)
  have nones: "view (fold (attach_siblings E ws n) cs d) (ChunkKey ws i) = None" if "view d (ChunkKey ws i) = None" for cs d
    using that by (induction cs arbitrary: d) (simp_all add: none)
  have away: "DocumentKey ws i \<notin> range (NearDupKey ws)" "DocumentKey ws i \<notin> range (ChunkKey ws)"
    "FTSIndexedKey ws i \<notin> range (NearDupKey ws)" "FTSIndexedKey ws i \<notin> range (ChunkKey ws)" "ChunkKey ws i \<notin> range (NearDupKey ws)"
    "FTSPostingKey ws t i \<notin> range (NearDupKey ws)" "FTSPostingKey ws t i \<notin> range (ChunkKey ws)"
    by (auto simp: scoped_key_defs FTSIndexedKey_def FTSPostingKey_def vaultScopedString_def vaultScoped_def)
  show "view (clusterNearDup E ws cs n d) (DocumentKey ws i) = view d (DocumentKey ws i)"
    and "view (clusterNearDup E ws cs n d) (FTSIndexedKey ws i) = view d (FTSIndexedKey ws i)"
    and "view d (ChunkKey ws i) = None \<Longrightarrow> view (clusterNearDup E ws cs n d) (ChunkKey ws i) = None"
    and "view (clusterNearDup E ws cs n d) (FTSPostingKey ws t i) = view d (FTSPostingKey ws t i)"
    by (simp_all add: clusterNearDup_def puts atts nones away)
qed

text \<open>Without a readable record neither the status nor the enrichment is written.\<close>

lemma modify_document_none:
  assumes "pebble (pe_P E) view" and "reliable (pe_P E)" and "view d (DocumentKey ws i) = None"
  shows "modify_document E ws i f d = (None, d)"
  by (simp add: modify_document_def pebble.reliable_Get [OF assms(1,2)] assms(3))

lemma enrichDocument_none:
  assumes "pebble (pe_P (we_pipe W)) view" and "reliable (pe_P (we_pipe W))"
    and "view (ps_db (wk_ps w)) (DocumentKey ws i) = None"
  shows "wk_ps (enrichDocument W now ws i cs captions w) = wk_ps w"
  by (simp add: enrichDocument_def setEnrichment_def modify_document_none [OF assms] Let_def split: option.split prod.split sum.split)

text \<open>C17: a job that runs after its document was deleted. The chunks it carries have distinct IDs
  and, as \<open>DeleteDoc\<close> leaves them, neither a record nor an index marker; the job captions nothing
  (no captioner is bound or it has no images: otherwise \<open>captionImages\<close> stores a new caption chunk
  of the deleted document as well). It brings back neither the document record nor a chunk record
  and publishes nothing, but every chunk is marked as indexed again and has a posting for each of
  its terms, so searches return chunks that no longer exist.\<close>

theorem late_job_after_delete:
  assumes "pebble (pe_P (we_pipe W)) view" and "reliable (pe_P (we_pipe W))"
    and "we_captioner W = None \<or> jb_images j = []" and "distinct (map c_ID (jb_chunks j))"
    and "view (ps_db (wk_ps w)) (DocumentKey (jb_ws j) (jb_docID j)) = None"
    and "list_all (\<lambda>c. view (ps_db (wk_ps w)) (ChunkKey (jb_ws j) (c_ID c)) = None) (jb_chunks j)"
    and "list_all (\<lambda>c. view (ps_db (wk_ps w)) (FTSIndexedKey (jb_ws j) (c_ID c)) = None) (jb_chunks j)"
  shows "view (ps_db (wk_ps (processJob W now j w))) (DocumentKey (jb_ws j) (jb_docID j)) = None \<and>
    list_all (\<lambda>c. view (ps_db (wk_ps (processJob W now j w))) (ChunkKey (jb_ws j) (c_ID c)) = None) (jb_chunks j) \<and>
    ps_events (wk_ps (processJob W now j w)) = ps_events (wk_ps w) \<and>
    list_all (\<lambda>c. Tokenize (pe_unicode (we_pipe W)) (c_Content c) \<noteq> [] \<longrightarrow>
      view (ps_db (wk_ps (processJob W now j w))) (FTSIndexedKey (jb_ws j) (c_ID c)) \<noteq> None) (jb_chunks j) \<and>
    list_all (\<lambda>c. \<forall>t \<in> set (Tokenize (pe_unicode (we_pipe W)) (c_Content c)).
      view (ps_db (wk_ps (processJob W now j w))) (FTSPostingKey (jb_ws j) t (c_ID c)) \<noteq> None) (jb_chunks j)"
proof -
  let ?E = "we_pipe W" and ?ws = "jb_ws j"
  let ?n = "if pe_nearDupK ?E \<le> 0 then DefaultNearDupHamming else pe_nearDupK ?E"
  define st1 where "st1 = indexChanged ?ws (fold (index_chunk ?E ?ws) (jb_chunks j) (wk_ps w))"
  define st2 where "st2 = set_db (clusterNearDup ?E ?ws (jb_chunks j) ?n (ps_db st1)) st1"
  have db1: "ps_db st1 = ps_db (fold (index_chunk ?E ?ws) (jb_chunks j) (wk_ps w))"
    by (simp add: st1_def indexChanged_def)
  have doc: "view (ps_db st2) (DocumentKey ?ws (jb_docID j)) = None"
    by (simp add: st2_def clusterNearDup_effect(1) [OF assms(1,2)] db1 index_chunks_effect(1) [OF assms(1,2)] assms(5))
  have events: "ps_events st2 = ps_events (wk_ps w)"
    by (simp add: st2_def st1_def indexChanged_def index_chunks_effect(3) [OF assms(1,2)])
  have "wk_ps (enrichDocument W now ?ws (jb_docID j) (jb_chunks j) [] (w\<lparr>wk_ps := st2\<rparr>)) = st2"
    by (simp add: enrichDocument_none [OF assms(1,2)] doc)
  moreover have captions: "captionImages W now j w' = ([], w')" for w'
    using assms(3) by (auto simp: captionImages_def split: option.split)
  moreover have "markStatus ?E now ?ws (jb_docID j) StatusEmbedded st2 = st2"
    by (simp add: markStatus_def modify_document_none [OF assms(1,2) doc])
  ultimately have run: "wk_ps (processJob W now j w) = st2"
    unfolding processJob_def captions Let_def prod.case st1_def [symmetric] st2_def [symmetric] by simp
  have "view (ps_db st2) (ChunkKey ?ws (c_ID c)) = None" if "c \<in> set (jb_chunks j)" for c
    using assms(6) that
    by (auto simp: st2_def db1 list_all_iff intro!: clusterNearDup_effect(3) [OF assms(1,2)]
        simp: index_chunks_effect(1) [OF assms(1,2)])
  moreover have "view (ps_db st2) (FTSIndexedKey ?ws (c_ID c)) \<noteq> None"
    if "c \<in> set (jb_chunks j)" "Tokenize (pe_unicode ?E) (c_Content c) \<noteq> []" for c
    using index_chunks_effect(2) [OF assms(1,2), of "wk_ps w" ?ws "c_ID c" "jb_chunks j"] that
    by (auto simp: st2_def db1 clusterNearDup_effect(2) [OF assms(1,2)])
  moreover have "view (ps_db st2) (FTSPostingKey ?ws t (c_ID c)) \<noteq> None"
    if "c \<in> set (jb_chunks j)" "t \<in> set (Tokenize (pe_unicode ?E) (c_Content c))" for c t
    using index_chunks_postings [OF assms(1,2,4) _ that] assms(7)
    by (simp add: st2_def db1 clusterNearDup_effect(4) [OF assms(1,2)] list_all_iff)
  ultimately show ?thesis
    unfolding run using doc events by (simp add: list_all_iff)
qed

definition demo_worker :: "((bytes \<times> bytes) list, unit) work_env" where
  "demo_worker = \<lparr>we_pipe = demo_pipe, we_caption = \<lparr>cd_marshal = (\<lambda>x. None), cd_unmarshal = (\<lambda>b. None)\<rparr>,
     we_captioner = None, we_enricher = None, we_promote = False\<rparr>"

definition demo_job :: job where
  "demo_job = \<lparr>jb_ws = replicate 8 1, jb_docID = ''d'', jb_doc = blank_document,
     jb_chunks = [blank_chunk\<lparr>c_ID := ''c'', c_Content := ''zz''\<rparr>], jb_images = [], jb_mimeType = [],
     jb_spans = [], jb_pageOffsets = []\<rparr>"

theorem late_job_after_delete_witness:
  "map_of (ps_db (wk_ps (processJob demo_worker 0 demo_job \<lparr>wk_ps = demo_state [], wk_out = (), wk_promoted = []\<rparr>)))
     (FTSPostingKey (replicate 8 1) ''zz'' ''c'') \<noteq> None \<and>
   map_of (ps_db (wk_ps (processJob demo_worker 0 demo_job \<lparr>wk_ps = demo_state [], wk_out = (), wk_promoted = []\<rparr>)))
     (FTSIndexedKey (replicate 8 1) ''c'') \<noteq> None \<and>
   map_of (ps_db (wk_ps (processJob demo_worker 0 demo_job \<lparr>wk_ps = demo_state [], wk_out = (), wk_promoted = []\<rparr>)))
     (ChunkKey (replicate 8 1) ''c'') = None"
proof -
  let ?w = "\<lparr>wk_ps = demo_state [], wk_out = (), wk_promoted = []\<rparr> :: ((bytes \<times> bytes) list, unit) work_state"
  have words: "Tokenize (pe_unicode (we_pipe demo_worker)) ''zz'' = [''zz'']"
    by (simp add: demo_worker_def demo_pipe_def tokenize_eval)
  have job: "jb_ws demo_job = replicate 8 1" "jb_chunks demo_job = [blank_chunk\<lparr>c_ID := ''c'', c_Content := ''zz''\<rparr>]"
    and worker: "we_captioner demo_worker = None" "we_pipe demo_worker = demo_pipe"
    and db: "ps_db (wk_ps ?w) = []"
    by (simp_all add: demo_job_def demo_worker_def demo_state_def)
  have store: "pebble (pe_P (we_pipe demo_worker)) map_of" "reliable (pe_P (we_pipe demo_worker))"
    unfolding worker by (rule demo_pipe_store)+
  have gone: "map_of (ps_db (wk_ps ?w)) (DocumentKey (jb_ws demo_job) (jb_docID demo_job)) = None"
    "list_all (\<lambda>c. map_of (ps_db (wk_ps ?w)) (ChunkKey (jb_ws demo_job) (c_ID c)) = None) (jb_chunks demo_job)"
    "list_all (\<lambda>c. map_of (ps_db (wk_ps ?w)) (FTSIndexedKey (jb_ws demo_job) (c_ID c)) = None) (jb_chunks demo_job)"
    unfolding db by (simp_all add: list_all_iff)
  have dist: "distinct (map c_ID (jb_chunks demo_job))"
    by (simp add: job)
  show ?thesis
    using late_job_after_delete [OF store disjI1 [OF worker(1)] dist gone, where now = 0] words
    unfolding job by simp
qed

section \<open>Reprocessing with a pattern\<close>

lemma VaultKindRange_kinds:
  "VaultKindRange kind ws = Inr b \<Longrightarrow> \<exists>b'. VaultKindRange kind' ws = Inr b'"
  by (auto simp: VaultKindRange_def gbind_Inr_iff)

text \<open>Of the document records a deletion removes the one it names.\<close>

lemma drop_document_records:
  assumes "pebble (pe_P E) view" and "reliable (pe_P E)" and "VaultKindRange PrefixChunk ws = Inr b"
  shows "view (ps_db (drop_document E ws path docID st)) (DocumentKey ws i) =
    (if i = docID then None else view (ps_db st) (DocumentKey ws i))"
proof -
  let ?st0 = "captureReingest E ws path docID st"
  let ?cs = "chunksOfDoc (pe_P E) (pe_chunk E) (ps_db ?st0) ws docID"
  let ?st1 = "fold (delete_chunk E ws) ?cs ?st0"
  let ?st2 = "if ?cs \<noteq> [] then indexChanged ws ?st1 else ?st1"
  have away: "DocumentKey ws i \<notin> chunk_keys ws c" "DocumentKey ws i \<notin> range (ContentHashKey ws) \<union> range (PathDocKey ws)" for c
    by (auto simp: chunk_keys_def scoped_key_defs vaultScopedString_def vaultScoped_def)
  have same: "DocumentKey ws i = DocumentKey ws docID \<longleftrightarrow> i = docID"
    by (simp add: DocumentKey_def vaultScopedString_def vaultScoped_def)
  have before: "view (ps_db ?st2) (DocumentKey ws i) = view (ps_db st) (DocumentKey ws i)"
    using away(1) by (simp add: delete_chunks_effect [OF assms(1,2)] indexChanged_def captureReingest_def Let_def)
  obtain st' where st': "delete_record E ws docID ?st2 = (None, st')" "view (ps_db st') (DocumentKey ws docID) = None"
      and other: "\<And>k. k \<noteq> DocumentKey ws docID \<Longrightarrow> k \<notin> range (ContentHashKey ws) \<union> range (PathDocKey ws) \<Longrightarrow>
           view (ps_db st') k = view (ps_db ?st2) k"
    by (rule delete_record_effect [OF assms(1,2), of ws docID ?st2]) (rule that)
  have "drop_document E ws path docID st = st'"
    by (simp add: drop_document_def deleteDocLocked_def assms(3) Let_def st'(1) del: if_split)
  then show ?thesis
    using st'(2) other [of "DocumentKey ws i"] away(2) before same by auto
qed

lemma ingest_nothing_matches:
  "list_all (\<lambda>f. \<exists>path file. f = Some (path, file) \<and> \<not> matchGlob fmatch (path_Base path) glob) files \<Longrightarrow>
     ingest_walk E fmatch now ws glob files r st = (r, st)"
  by (induction files) auto

text \<open>Reprocessing with a pattern loses documents. \<open>Reprocess\<close> first deletes every document
  recorded under the root, whatever its name, and then ingests only the files that match the pattern.
  If none does it reports success with nothing done, and exactly the documents that the path index
  records under the root have lost their record.\<close>

theorem reprocess_drops_unmatched:
  assumes "pebble (pe_P E) view" and "reliable (pe_P E)" and "VaultKindRange 0x0C ws = Inr (lower, upper)"
    and "list_all (\<lambda>f. \<exists>path file. f = Some (path, file) \<and> \<not> matchGlob fmatch (path_Base path) glob) files"
  shows "\<exists>st'. Reprocess E fmatch now ws rootdir glob files st =
      (Inr \<lparr>res_New = 0, res_Skipped = 0, res_Unsupported = 0, res_Errors = 0\<rparr>, st') \<and>
    (\<forall>i. view (ps_db st') (DocumentKey ws i) =
       (if \<exists>k val. in_range lower upper k \<and> view (ps_db st) k = Some val \<and> bytes_str val = i \<and>
             isUnder (path_Clean (bytes_str (drop 9 k))) (path_Clean rootdir)
        then None else view (ps_db st) (DocumentKey ws i)))"
proof -
  let ?under = "\<lambda>k. isUnder (path_Clean (bytes_str (drop 9 k))) (path_Clean rootdir)"
  define cb where "cb = (\<lambda>key val st. (let path = path_Clean (bytes_str (drop 9 key))
                    in if \<not> isUnder path (path_Clean rootdir) then st
                       else drop_document E ws path (bytes_str val) st, True))"
  obtain b where chunk_range: "VaultKindRange PrefixChunk ws = Inr b"
    using VaultKindRange_kinds [OF assms(3)] by blast
  obtain kvs where kvs: "pb_iter (pe_P E) (ps_db st) (Some lower) (Some upper) = Inr (kvs, None)"
    and set: "set kvs = {(k, v). in_bounds (Some lower) (Some upper) k \<and> view (ps_db st) k = Some v}"
    by (rule pebble.reliable_iterE [OF assms(1,2)])
  have loop: "\<exists>st'. scan_loop (\<lambda>_. True) cb kvs st = (st', True) \<and>
      (\<forall>i. view (ps_db st') (DocumentKey ws i) =
        (if \<exists>(k, val) \<in> set kvs. bytes_str val = i \<and> ?under k then None else view (ps_db st) (DocumentKey ws i)))" for kvs st
  proof (induction kvs arbitrary: st)
    case (Cons kv kvs)
    obtain k val where kv: "kv = (k, val)" by (cases kv)
    obtain st' where "scan_loop (\<lambda>_. True) cb kvs (fst (cb k val st)) = (st', True)"
      "\<forall>i. view (ps_db st') (DocumentKey ws i) = (if \<exists>(k, val) \<in> set kvs. bytes_str val = i \<and> ?under k then None
         else view (ps_db (fst (cb k val st))) (DocumentKey ws i))"
      using Cons.IH by blast
    then show ?case
      by (intro exI [of _ st']) (auto simp: kv cb_def Let_def drop_document_records [OF assms(1,2) chunk_range])
  qed simp
  then obtain st' where st': "scan_loop (\<lambda>_. True) cb kvs st = (st', True)"
    "\<forall>i. view (ps_db st') (DocumentKey ws i) =
        (if \<exists>(k, val) \<in> set kvs. bytes_str val = i \<and> ?under k then None else view (ps_db st) (DocumentKey ws i))"
    by blast
  have "Reprocess E fmatch now ws rootdir glob files st =
      (Inr \<lparr>res_New = 0, res_Skipped = 0, res_Unsupported = 0, res_Errors = 0\<rparr>, st')"
    by (simp add: Reprocess_def assms(3) DB_RangeScan_def kvs Let_def Ingest_def
        st'(1) [unfolded cb_def Let_def] ingest_nothing_matches [OF assms(4)])
  then show ?thesis
    using st'(2) by (intro exI [of _ st']) (simp add: set split_beta)
qed

theorem reprocess_drops_unmatched_witness:
  "\<exists>st'. Reprocess demo_pipe (\<lambda>p s. Some False) 0 (replicate 8 1) ''.'' ''z'' [Some (''a'', Inr [])]
       (demo_state [(PathDocKey (replicate 8 1) ''a'', str_bytes ''d''), (DocumentKey (replicate 8 1) ''d'', [])]) =
      (Inr \<lparr>res_New = 0, res_Skipped = 0, res_Unsupported = 0, res_Errors = 0\<rparr>, st') \<and>
     map_of (ps_db st') (DocumentKey (replicate 8 1) ''d'') = None"
proof -
  let ?ws = "replicate 8 1 :: ws"
  let ?st = "demo_state [(PathDocKey ?ws ''a'', str_bytes ''d''), (DocumentKey ?ws ''d'', [])]"
  have range: "VaultKindRange 0x0C ?ws = Inr ([12, 1, 1, 1, 1, 1, 1, 1, 1], [12, 1, 1, 1, 1, 1, 1, 1, 2])"
    by code_simp
  have files: "list_all (\<lambda>f. \<exists>path file. f = Some (path, file) \<and> \<not> matchGlob (\<lambda>p s. Some False) (path_Base path) ''z'')
      [Some (''a'', Inr [])]"
    by (simp add: matchGlob_def)
  have here: "in_range [12, 1, 1, 1, 1, 1, 1, 1, 1] [12, 1, 1, 1, 1, 1, 1, 1, 2] (PathDocKey ?ws ''a'')"
    "bytes_str (str_bytes ''d'') = ''d''" "isUnder (path_Clean (bytes_str (drop 9 (PathDocKey ?ws ''a'')))) (path_Clean ''.'')"
    by code_simp+
  have stored: "map_of (ps_db ?st) (PathDocKey ?ws ''a'') = Some (str_bytes ''d'')"
    by (simp add: demo_state_def)
  obtain st' where st': "Reprocess demo_pipe (\<lambda>p s. Some False) 0 ?ws ''.'' ''z'' [Some (''a'', Inr [])] ?st =
      (Inr \<lparr>res_New = 0, res_Skipped = 0, res_Unsupported = 0, res_Errors = 0\<rparr>, st')"
    and docs: "\<And>i. map_of (ps_db st') (DocumentKey ?ws i) =
      (if \<exists>k val. in_range [12, 1, 1, 1, 1, 1, 1, 1, 1] [12, 1, 1, 1, 1, 1, 1, 1, 2] k \<and> map_of (ps_db ?st) k = Some val \<and>
             bytes_str val = i \<and> isUnder (path_Clean (bytes_str (drop 9 k))) (path_Clean ''.'')
        then None else map_of (ps_db ?st) (DocumentKey ?ws i))"
    using reprocess_drops_unmatched [OF demo_pipe_store range files, of 0 "''.''" ?st] by blast
  have "map_of (ps_db st') (DocumentKey ?ws ''d'') = None"
    unfolding docs by (rule if_P) (use here stored in blast)
  then show ?thesis
    using st' by blast
qed

end
