(* ===== verification/Query_Cache.thy ===== *)
theory Query_Cache
  imports Complex_Main Lru Keys Prefixer "HOL-Library.List_Lexorder" "HOL-Library.Char_ord"
begin

text \<open>
  The keys of the query caches, \<open>internal/engine/cache.go\<close>. A result key is the FNV-1a digest of all
  inputs of a query, each followed by a NUL byte; an embedding key is readable text. The caches
  themselves are in \<open>Lru\<close>. \<open>strconv.FormatFloat\<close> is the parameter \<open>ff\<close>.
\<close>

section \<open>The result key\<close>

record cacheKey =
  ck_Query :: string
  ck_Mode :: string
  ck_K :: int
  ck_Threshold :: real
  ck_RRFK :: int
  ck_FilterSource :: string
  ck_FilterType :: string
  ck_FilterTags :: "string list"
  ck_ContextWindow :: int
  ck_RerankEnabled :: bool
  ck_RerankModel :: string
  ck_IncludeQuarantined :: bool
  ck_EffK :: int
  ck_EffPool :: int
  ck_Epoch :: "64 word"
  ck_WS :: ws
  ck_Vaults :: string

definition fnv1a_step :: "64 word \<Rightarrow> byte \<Rightarrow> 64 word" where
  "fnv1a_step h b = xor h (ucast b) * 1099511628211"

definition fnv1a :: "bytes \<Rightarrow> 64 word" where
  "fnv1a bs = foldl fnv1a_step 14695981039346656037 bs"

text \<open>\<open>strconv.FormatUint\<close> in base 16 and base 10.\<close>

fun hex_digits :: "nat \<Rightarrow> string" where
  "hex_digits n = (if n < 16 then [hex_digit n] else hex_digits (n div 16) @ [hex_digit (n mod 16)])"

declare hex_digits.simps [simp del]

definition FormatUint10 :: "64 word \<Rightarrow> string" where
  "FormatUint10 w = nat_digits (unat w)"

definition sorted_tags :: "cacheKey \<Rightarrow> string list" where
  "sorted_tags k = (if sorted (ck_FilterTags k) then ck_FilterTags k else sort (ck_FilterTags k))"

definition key_fields :: "(real \<Rightarrow> string) \<Rightarrow> cacheKey \<Rightarrow> string list" where
  "key_fields ff k =
     [ck_Query k, ck_Mode k, Itoa (ck_K k), ff (ck_Threshold k), Itoa (ck_RRFK k),
      ck_FilterSource k, ck_FilterType k] @ sorted_tags k @
     [Itoa (ck_ContextWindow k), FormatBool (ck_IncludeQuarantined k), FormatBool (ck_RerankEnabled k),
      ck_RerankModel k, Itoa (ck_EffK k), Itoa (ck_EffPool k), FormatUint10 (ck_Epoch k),
      bytes_str (ck_WS k), ck_Vaults k]"

definition terminated :: "string \<Rightarrow> string" where
  "terminated s = s @ [CHR 0x00]"

definition key_text :: "(real \<Rightarrow> string) \<Rightarrow> cacheKey \<Rightarrow> string" where
  "key_text ff k = concat (map terminated (key_fields ff k))"

definition cacheKey_hash :: "(real \<Rightarrow> string) \<Rightarrow> cacheKey \<Rightarrow> string" where
  "cacheKey_hash ff k = hex_digits (unat (fnv1a (str_bytes (key_text ff k))))"

section \<open>The embedding key\<close>

definition embedFingerprint :: "unicode \<Rightarrow> string \<Rightarrow> int \<Rightarrow> prefixer \<Rightarrow> string" where
  "embedFingerprint u model dims pre = model @ ''|'' @ Itoa dims @ ''|'' @ Convention u pre"

definition embedCacheKey :: "ws \<Rightarrow> string \<Rightarrow> string \<Rightarrow> string" where
  "embedCacheKey ws profileFP s = bytes_str ws @ [CHR 0x00] @ profileFP @ [CHR 0x00] @ s"

section \<open>Numbers are written without loss\<close>

lemma hd_nat_digits: "nat_digits n \<noteq> [] \<and> set (nat_digits n) \<subseteq> char_of ` {48 ..< 58 :: nat}"
proof (induction n rule: nat_digits.induct)
  case (1 n)
  then show ?case
    by (subst (1 2) nat_digits.simps) (auto simp: image_iff Bex_def)
qed

lemma digit_chars:
  "CHR ''-'' \<notin> set (nat_digits n)" "CHR 0x00 \<notin> set (nat_digits n)"
proof -
  have *: "c \<in> set (nat_digits n) \<Longrightarrow> 48 \<le> (of_char c :: nat)" for c
    using hd_nat_digits [of n] by (fastforce simp: of_char_of)
  show "CHR ''-'' \<notin> set (nat_digits n)" "CHR 0x00 \<notin> set (nat_digits n)"
    using * [of "CHR ''-''"] * [of "CHR 0x00"] by auto
qed

lemma Itoa_inject [simp]: "Itoa a = Itoa b \<longleftrightarrow> a = b"
proof -
  have minus: "CHR ''-'' # nat_digits m \<noteq> nat_digits n" for m n
    using digit_chars(1) [of n] by (metis list.set_intros(1))
  show ?thesis
    using minus [of "nat (- a)" "nat b"] minus [of "nat (- b)" "nat a"]
    by (cases "a < 0"; cases "b < 0") (simp_all add: Itoa_def nat_digits_inject eq_nat_nat_iff)
qed

lemma NUL_free_simps [simp]:
  "CHR 0x00 \<notin> set (Itoa i)" "CHR 0x00 \<notin> set (FormatUint10 w)" "CHR 0x00 \<notin> set (FormatBool b)"
  using digit_chars(2) by (simp_all add: Itoa_def FormatUint10_def FormatBool_def)

lemma FormatUint10_inject [simp]: "FormatUint10 v = FormatUint10 w \<longleftrightarrow> v = w"
  by (simp add: FormatUint10_def nat_digits_inject word_unat_eq_iff)

section \<open>The text of a key determines the key\<close>

lemma terminated_split:
  assumes "CHR 0x00 \<notin> set s" "CHR 0x00 \<notin> set t" "terminated s @ x = terminated t @ y"
  shows "s = t \<and> x = y"
proof -
  have "takeWhile (\<lambda>c. c \<noteq> CHR 0x00) (terminated r @ z) = r" if "CHR 0x00 \<notin> set r" for r z
    using that by (induction r) (auto simp: terminated_def)
  then have "s = t" using assms by metis
  then show ?thesis using assms(3) by simp
qed

lemma terminated_inject:
  assumes "list_all (\<lambda>s. CHR 0x00 \<notin> set s) ss" "list_all (\<lambda>s. CHR 0x00 \<notin> set s) ts"
    and "concat (map terminated ss) = concat (map terminated ts)"
  shows "ss = ts"
  using assms
proof (induction ss arbitrary: ts)
  case Nil
  then show ?case by (cases ts) (simp_all add: terminated_def)
next
  case (Cons s ss)
  then obtain t ts' where ts: "ts = t # ts'" by (cases ts) (simp_all add: terminated_def)
  then have "s = t \<and> concat (map terminated ss) = concat (map terminated ts')"
    using Cons.prems by (intro terminated_split) simp_all
  then show ?case using Cons ts by simp
qed

text \<open>A key of a query over one vault whose texts hold no NUL byte.\<close>

definition plain_key :: "cacheKey \<Rightarrow> bool" where
  "plain_key k \<longleftrightarrow> ck_Vaults k = [] \<and> is_ws (ck_WS k) \<and>
     list_all (\<lambda>s. CHR 0x00 \<notin> set s)
       ([ck_Query k, ck_Mode k, ck_FilterSource k, ck_FilterType k, ck_RerankModel k] @ ck_FilterTags k)"

definition same_query :: "cacheKey \<Rightarrow> cacheKey \<Rightarrow> bool" where
  "same_query k k' \<longleftrightarrow> k\<lparr>ck_FilterTags := sort (ck_FilterTags k)\<rparr> = k'\<lparr>ck_FilterTags := sort (ck_FilterTags k')\<rparr>"

lemma sorted_tags_eq: "sorted_tags k = sort (ck_FilterTags k)"
  by (simp add: sorted_tags_def sorted_sort_id)

definition head_fields :: "(real \<Rightarrow> string) \<Rightarrow> cacheKey \<Rightarrow> string list" where
  "head_fields ff k =
     [ck_Query k, ck_Mode k, Itoa (ck_K k), ff (ck_Threshold k), Itoa (ck_RRFK k),
      ck_FilterSource k, ck_FilterType k] @ sorted_tags k @
     [Itoa (ck_ContextWindow k), FormatBool (ck_IncludeQuarantined k), FormatBool (ck_RerankEnabled k),
      ck_RerankModel k, Itoa (ck_EffK k), Itoa (ck_EffPool k), FormatUint10 (ck_Epoch k)]"

lemma key_text_split:
  "plain_key k \<Longrightarrow> key_text ff k =
     concat (map terminated (head_fields ff k)) @ bytes_str (ck_WS k) @ [CHR 0x00, CHR 0x00]"
  by (simp add: key_text_def key_fields_def head_fields_def plain_key_def terminated_def)

lemma head_fields_NUL_free:
  assumes "plain_key k" and "CHR 0x00 \<notin> set (ff (ck_Threshold k))"
  shows "list_all (\<lambda>s. CHR 0x00 \<notin> set s) (head_fields ff k)"
  using assms by (simp add: head_fields_def plain_key_def sorted_tags_eq list_all_iff)

lemma head_fields_inject:
  assumes "head_fields ff k = head_fields ff k'" and "ff (ck_Threshold k) = ff (ck_Threshold k') \<Longrightarrow> ck_Threshold k = ck_Threshold k'"
    and "ck_WS k = ck_WS k'" and "ck_Vaults k = ck_Vaults k'"
  shows "same_query k k'"
proof -
  have "length (sorted_tags k) = length (sorted_tags k')"
    using arg_cong [OF assms(1), of length] by (simp add: head_fields_def)
  then have "sort (ck_FilterTags k) = sort (ck_FilterTags k')"
    using assms(1) by (simp add: head_fields_def sorted_tags_eq)
  then show ?thesis
    using assms by (simp add: same_query_def head_fields_def sorted_tags_eq FormatBool_inject)
qed

lemma key_text_sorted: "key_text ff (k\<lparr>ck_FilterTags := sort (ck_FilterTags k)\<rparr>) = key_text ff k"
  by (simp add: key_text_def key_fields_def sorted_tags_eq sorted_sort_id)

text \<open>The result key is unambiguous. For queries over one vault whose texts hold no NUL byte the text
  that is hashed determines every field, up to the order of the tags, provided that
  \<open>FormatFloat\<close> writes different thresholds differently and without NUL bytes: two queries have
  the same text exactly when they agree in every input the key records.\<close>

theorem cache_key_exact:
  assumes "plain_key k" and "plain_key k'"
    and "inj_on ff {ck_Threshold k, ck_Threshold k'}"
    and "CHR 0x00 \<notin> set (ff (ck_Threshold k))" and "CHR 0x00 \<notin> set (ff (ck_Threshold k'))"
  shows "key_text ff k = key_text ff k' \<longleftrightarrow> same_query k k'"
proof
  have ws: "length (bytes_str (ck_WS k)) = 8" "length (bytes_str (ck_WS k')) = 8"
    using assms(1,2) by (simp_all add: plain_key_def is_ws_def bytes_str_def)
  assume "key_text ff k = key_text ff k'"
  then have eq: "concat (map terminated (head_fields ff k)) = concat (map terminated (head_fields ff k'))"
    "bytes_str (ck_WS k) = bytes_str (ck_WS k')"
    using ws by (simp_all add: key_text_split assms(1,2))
  have "head_fields ff k = head_fields ff k'"
    using eq(1) by (rule terminated_inject [rotated 2]) (simp_all add: head_fields_NUL_free assms)
  moreover have "ck_WS k = ck_WS k'"
    using eq(2) by (metis str_bytes_bytes_str)
  moreover have "ff (ck_Threshold k) = ff (ck_Threshold k') \<Longrightarrow> ck_Threshold k = ck_Threshold k'"
    using assms(3) by (rule inj_onD) simp_all
  moreover have "ck_Vaults k = ck_Vaults k'"
    using assms(1,2) by (simp add: plain_key_def)
  ultimately show "same_query k k'"
    by (intro head_fields_inject)
next
  assume "same_query k k'"
  then show "key_text ff k = key_text ff k'"
    unfolding same_query_def by (metis key_text_sorted)
qed

definition demo_key :: "string list \<Rightarrow> cacheKey" where
  "demo_key tags =
     \<lparr>ck_Query = ''q'', ck_Mode = [], ck_K = 5, ck_Threshold = 1 / 2, ck_RRFK = 60, ck_FilterSource = [],
      ck_FilterType = [], ck_FilterTags = tags, ck_ContextWindow = 0, ck_RerankEnabled = False,
      ck_RerankModel = [], ck_IncludeQuarantined = False, ck_EffK = 5, ck_EffPool = 60, ck_Epoch = 3,
      ck_WS = replicate 8 0, ck_Vaults = []\<rparr>"

theorem cache_key_exact_witness:
  "key_text (\<lambda>_. ''0.5'') (demo_key [''b'', ''a'']) = key_text (\<lambda>_. ''0.5'') (demo_key [''a'', ''b''])"
proof -
  have "key_text (\<lambda>_. ''0.5'') (demo_key [''b'', ''a'']) = key_text (\<lambda>_. ''0.5'') (demo_key [''a'', ''b''])
    \<longleftrightarrow> same_query (demo_key [''b'', ''a'']) (demo_key [''a'', ''b''])"
    by (rule cache_key_exact) (simp_all add: plain_key_def demo_key_def is_ws_def)
  then show ?thesis
    by (simp add: same_query_def demo_key_def)
qed

end
