(* ===== verification/Engine.thy ===== *)
theory Engine
  imports Retrieval Vault_Registry Query_Cache Workers
begin

text \<open>
  The state of the engine and its helpers: \<open>internal/engine/engine.go\<close>, \<open>types.go\<close>, \<open>epoch.go\<close>,
  \<open>helpers.go\<close>, \<open>neardup.go\<close> and \<open>embedding_profile.go\<close>. What an engine is built over and never
  changes (store operations, configuration, JSON, the model servers) is the record \<open>engine_env\<close>; the
  state of the model servers and of the world is a value of type \<open>'s\<close>. The two caches hold pointers
  in the code; what they point to is never written again, so they are values here. A Go panic is the
  error \<open>Failed ''panic: index out of range''\<close>.
\<close>

section \<open>Requests and results\<close>

record query_request =
  rq_Query :: string
  rq_K :: int
  rq_Mode :: string
  rq_NoRerank :: bool
  rq_Threshold :: real
  rq_RRFK :: int
  rq_PoolSize :: int
  rq_Filter :: "query_filter option"
  rq_ContextWindow :: int
  rq_NoCache :: bool
  rq_IncludeQuarantined :: bool
  rq_Dedup :: bool
  rq_Vaults :: "string list"

record context_chunk =
  cx_ChunkID :: string
  cx_Content :: string
  cx_Direction :: string

record query_hit =
  qh_ChunkID :: string
  qh_DocumentID :: string
  qh_Score :: real
  qh_Content :: string
  qh_FilePath :: string
  qh_Page :: int
  qh_ChunkIndex :: int
  qh_Preview :: string
  qh_Context :: "context_chunk list"
  qh_Poisoning :: "poison_verdict option"
  qh_SectionContext :: "string list"
  qh_SectionLevel :: int
  qh_ExtractionMethod :: string
  qh_ExtractionQuality :: real
  qh_NearDup :: "near_dup_info option"
  qh_Summary :: string
  qh_EnrichmentStatus :: string
  qh_Wikilinks :: "string list"

record query_result =
  qr_Hits :: "query_hit list"
  qr_RerankFailed :: bool
  qr_EffectiveK :: int
  qr_EffectivePool :: int
  qr_EffectiveMode :: string

definition NewFilter :: "string \<Rightarrow> string \<Rightarrow> string list \<Rightarrow> query_filter option" where
  "NewFilter source ftype tags =
     (let f = \<lparr>flt_Source = source, flt_Type = ftype, flt_Tags = tags\<rparr>
      in if Filter_Empty f then None else Some f)"

section \<open>State\<close>

record ('db, 's) engine_env =
  ge_P :: "'db pebble_ops"
  ge_sip :: siphash
  ge_u :: unicode
  ge_cfg :: config
  ge_doc :: "document codec"
  ge_chunk :: "chunk codec"
  ge_record :: "embedRecord codec"
  ge_stored :: "storedEmbedding codec"
  ge_vector :: "real list codec"
  ge_model :: string
  ge_dims :: "'s \<Rightarrow> int"
  ge_embed :: "'s embed_fn"
  ge_rerank :: "'s reranker"
  ge_glob :: "string \<Rightarrow> string \<Rightarrow> bool gres"
  ge_fold :: "string \<Rightarrow> string \<Rightarrow> bool"
  ge_sort :: scored_sort
  ge_float :: "real \<Rightarrow> string"
  ge_sha :: "bytes \<Rightarrow> bytes"

record ('db, 's) engine =
  en_db :: "'db vdb"
  en_fts :: "ws \<rightharpoonup> fts"
  en_vec :: "ws \<rightharpoonup> vector"
  en_epoch :: "ws \<rightharpoonup> 64 word"
  en_results :: "(string, query_result) lru"
  en_embeds :: "(string, real list) lru"
  en_queries :: "64 word"
  en_fetched :: "64 word"
  en_keptSum :: "64 word"
  en_saturated :: "64 word"
  en_ext :: 's

definition newQueryCaches :: "config \<Rightarrow> (string, query_result) lru \<times> (string, real list) lru" where
  "newQueryCaches cfg =
     (if cf_QueryCacheEnabled cfg then (NewLRU (cf_QueryCacheResults cfg), NewLRU (cf_QueryCacheEmbeddings cfg))
      else (NewLRU 0, NewLRU 0))"

definition NewWithDB :: "config \<Rightarrow> 'db vdb \<Rightarrow> 's \<Rightarrow> ('db, 's) engine" where
  "NewWithDB cfg d s =
     (case newQueryCaches cfg of (rc, ec) \<Rightarrow>
       \<lparr>en_db = d, en_fts = Map.empty, en_vec = Map.empty, en_epoch = Map.empty, en_results = rc,
        en_embeds = ec, en_queries = 0, en_fetched = 0, en_keptSum = 0, en_saturated = 0, en_ext = s\<rparr>)"

text \<open>The rule-based classifier when adaptive depth is on; 0 is no recommendation.\<close>

definition newClassifier :: "config \<Rightarrow> (string \<Rightarrow> int) option" where
  "newClassifier cfg = (if EffectiveAdaptiveDepthEnabled cfg then Some Classify else None)"

definition resolve_ws :: "('db, 's) engine_env \<Rightarrow> string \<Rightarrow> ('db, 's) engine \<Rightarrow> ws \<times> ('db, 's) engine" where
  "resolve_ws E vault e =
     (case ResolveVaultPrefix (ge_P E) (ge_sip E) (en_db e) vault of (ws, d) \<Rightarrow> (ws, e\<lparr>en_db := d\<rparr>))"

definition engine_indexes ::
    "('db, 's) engine_env \<Rightarrow> ws \<Rightarrow> ('db, 's) engine \<Rightarrow> (fts \<times> vector) \<times> ('db, 's) engine" where
  "engine_indexes E ws e =
     (case (en_fts e ws, en_vec e ws) of
        (Some f, Some v) \<Rightarrow> ((f, v), e)
      | _ \<Rightarrow>
          (case LoadIndex (ge_P E) (ge_u E) (ge_chunk E) (ge_stored E) (ge_vector E) ws (pdb (en_db e)) of
             (f, v, d) \<Rightarrow>
               ((f, v), e\<lparr>en_db := (en_db e)\<lparr>pdb := d\<rparr>, en_fts := (en_fts e)(ws \<mapsto> f), en_vec := (en_vec e)(ws \<mapsto> v)\<rparr>)))"

definition markIndexChanged :: "ws \<Rightarrow> ('db, 's) engine \<Rightarrow> ('db, 's) engine" where
  "markIndexChanged ws e =
     e\<lparr>en_epoch := (en_epoch e)(ws \<mapsto> (case en_epoch e ws of None \<Rightarrow> 0 | Some n \<Rightarrow> n) + 1)\<rparr>"

definition indexEpoch :: "('db, 's) engine \<Rightarrow> ws \<Rightarrow> 64 word" where
  "indexEpoch e ws = (case en_epoch e ws of None \<Rightarrow> 0 | Some n \<Rightarrow> n)"

definition flushCaches :: "('db, 's) engine \<Rightarrow> ('db, 's) engine" where
  "flushCaches e = e\<lparr>en_results := LRU_Flush (en_results e), en_embeds := LRU_Flush (en_embeds e)\<rparr>"

text \<open>\<open>Close\<close> as far as queries see it: the indexes are dropped and the caches flushed.\<close>

definition engine_Close :: "('db, 's) engine \<Rightarrow> ('db, 's) engine" where
  "engine_Close e = flushCaches (e\<lparr>en_fts := Map.empty, en_vec := Map.empty\<rparr>)"

section \<open>Lookups\<close>

definition countPrefix :: "'db pebble_ops \<Rightarrow> 'db \<Rightarrow> ws \<Rightarrow> byte \<Rightarrow> nat" where
  "countPrefix P d ws kind =
     (case VaultKindRange kind ws of
        Inl e \<Rightarrow> 0
      | Inr (lower, upper) \<Rightarrow> fst (DB_RangeScan P d lower upper (\<lambda>k v n. (n + 1, True)) 0))"

definition docOf :: "'db pebble_ops \<Rightarrow> chunk codec \<Rightarrow> 'db \<Rightarrow> ws \<Rightarrow> string \<Rightarrow> string" where
  "docOf P C d ws =
     (case VaultKindRange PrefixChunk ws of
        Inl e \<Rightarrow> (\<lambda>_. [])
      | Inr (lower, upper) \<Rightarrow>
          fst (DB_RangeScan P d lower upper
            (\<lambda>k v m. (case cd_unmarshal C v of Some c \<Rightarrow> m(c_ID c := c_DocumentID c) | None \<Rightarrow> m, True)) (\<lambda>_. [])))"

definition lookupChunk :: "'db pebble_ops \<Rightarrow> chunk codec \<Rightarrow> 'db \<Rightarrow> ws \<Rightarrow> string \<Rightarrow> chunk option" where
  "lookupChunk P C d ws chunkID =
     (case DB_Get P d (ChunkKey ws chunkID) of Inr (Some raw) \<Rightarrow> cd_unmarshal C raw | _ \<Rightarrow> None)"

definition lookupDoc :: "'db pebble_ops \<Rightarrow> document codec \<Rightarrow> 'db \<Rightarrow> ws \<Rightarrow> string \<Rightarrow> document option" where
  "lookupDoc P D d ws docID =
     (case DB_Get P d (DocumentKey ws docID) of Inr (Some raw) \<Rightarrow> cd_unmarshal D raw | _ \<Rightarrow> None)"

text \<open>The ellipsis is one character of three bytes.\<close>

definition preview :: "string \<Rightarrow> nat \<Rightarrow> string" where
  "preview s n =
     (let s1 = map (\<lambda>c. if c = CHR 0x0A then CHR '' '' else c) s
      in if n < length s1 then take n s1 @ [CHR 0xE2, CHR 0x80, CHR 0xA6] else s1)"

definition listsSibling :: "near_dup_info option \<Rightarrow> string \<Rightarrow> bool" where
  "listsSibling nd chunkID = (case nd of None \<Rightarrow> False | Some i \<Rightarrow> chunkID \<in> set (Siblings i))"

definition tagsFromMetadata :: "metadata \<Rightarrow> string list" where
  "tagsFromMetadata m =
     (case map_of m ''tags'' of
        Some (MStrings ss) \<Rightarrow> ss
      | Some (MList vs) \<Rightarrow> concat (map (\<lambda>v. case v of MString s \<Rightarrow> [s] | _ \<Rightarrow> []) vs)
      | Some (MString s) \<Rightarrow> Split1 (CHR '','') s
      | _ \<Rightarrow> [])"

definition tagsForDoc :: "metadata \<Rightarrow> enrich_info option \<Rightarrow> string list" where
  "tagsForDoc meta enrichment =
     tagsFromMetadata meta @ (case enrichment of None \<Rightarrow> [] | Some i \<Rightarrow> en_Tags i)"

section \<open>The embedding profile\<close>

text \<open>A Go map of counters is the list of its entries in the order they were made.\<close>

record embedding_profile =
  ep_MajorityModel :: string
  ep_MajorityDim :: int
  ep_MajorityConvention :: string
  ep_ModelCounts :: "(string \<times> int) list"
  ep_DimCounts :: "(int \<times> int) list"
  ep_ConventionCounts :: "(string \<times> int) list"
  ep_Total :: int
  ep_Consistent :: bool

definition blank_profile :: embedding_profile where
  "blank_profile =
     \<lparr>ep_MajorityModel = [], ep_MajorityDim = 0, ep_MajorityConvention = [], ep_ModelCounts = [],
      ep_DimCounts = [], ep_ConventionCounts = [], ep_Total = 0, ep_Consistent = True\<rparr>"

text \<open>\<open>majorityString\<close> and \<open>majorityInt\<close> differ in the type of the keys and in its zero value.\<close>

definition majority_step :: "('k \<times> int) list \<Rightarrow> 'k \<times> int \<Rightarrow> 'k \<Rightarrow> 'k \<times> int" where
  "majority_step m b k = (let n = the (map_of m k) in if snd b < n then (k, n) else b)"

definition majority :: "'k :: linorder \<Rightarrow> ('k \<times> int) list \<Rightarrow> 'k" where
  "majority zero m = fst (foldl (majority_step m) (zero, - 1) (sort (map fst m)))"

definition majorityString :: "(string \<times> int) list \<Rightarrow> string" where
  "majorityString m = majority [] m"

definition majorityInt :: "(int \<times> int) list \<Rightarrow> int" where
  "majorityInt m = majority 0 m"

definition profile_cb :: "embedRecord codec \<Rightarrow> bytes \<Rightarrow> embedding_profile \<Rightarrow> embedding_profile" where
  "profile_cb R val p =
     (case cd_unmarshal R val of
        None \<Rightarrow> p
      | Some se \<Rightarrow>
          p\<lparr>ep_Total := ep_Total p + 1,
            ep_ModelCounts := bump (er_Model se) 1 (ep_ModelCounts p),
            ep_DimCounts := bump (int (length (er_Vector se))) 1 (ep_DimCounts p),
            ep_ConventionCounts := bump (er_Convention se) 1 (ep_ConventionCounts p)\<rparr>)"

definition CorpusProfile :: "'db pebble_ops \<Rightarrow> embedRecord codec \<Rightarrow> ws \<Rightarrow> 'db \<Rightarrow> embedding_profile" where
  "CorpusProfile P R ws d =
     (case VaultKindRange PrefixEmbedding ws of
        Inl e \<Rightarrow> blank_profile
      | Inr (lower, upper) \<Rightarrow>
          (let p = fst (DB_RangeScan P d lower upper (\<lambda>k v p. (profile_cb R v p, True)) blank_profile)
           in if ep_Total p = 0 then p
              else p\<lparr>ep_MajorityModel := majorityString (ep_ModelCounts p),
                     ep_MajorityDim := majorityInt (ep_DimCounts p),
                     ep_MajorityConvention := majorityString (ep_ConventionCounts p),
                     ep_Consistent := length (ep_ModelCounts p) \<le> 1 \<and> length (ep_DimCounts p) \<le> 1 \<and>
                       length (ep_ConventionCounts p) \<le> 1\<rparr>))"

section \<open>Scans and lookups\<close>

lemma scan_loop_fold:
  "scan_loop (\<lambda>_. True) (\<lambda>k v s. (f k v s, True)) kvs s = (fold (\<lambda>(k, v). f k v) kvs s, True)"
  by (induction kvs arbitrary: s) auto

context pebble
begin

text \<open>The entries of one kind in one vault, in the order of their identifiers.\<close>

lemma scoped_scan:
  assumes "reliable P" and "is_ws ws" and "long_keys kind (view d)" and "VaultKindRange kind ws = Inr (lower, upper)"
  obtains es where
    "\<And>f s. DB_RangeScan P d lower upper (\<lambda>k v s. (f k v s, True)) s =
       (fold (\<lambda>(i, v). f (vaultScopedString kind ws i) v) es s, None)"
    and "distinct (map fst es)" and "sorted_wrt (<) (map (str_bytes \<circ> fst) es)"
    and "\<And>i v. (i, v) \<in> set es \<longleftrightarrow> view d (vaultScopedString kind ws i) = Some v"
proof -
  obtain kvs where iter: "pb_iter P d (Some lower) (Some upper) = Inr (kvs, None)"
    and sorted: "sorted_wrt (<) (map fst kvs)"
    and set: "set kvs = {(k, v). in_range lower upper k \<and> view d k = Some v}"
    by (rule reliable_iterE [OF assms(1), of d "Some lower" "Some upper", unfolded in_bounds_range])
  define es where "es = map (\<lambda>(k, v). (bytes_str (drop 9 k), v)) kvs"
  have head: "hd k = kind \<and> k \<noteq> []" if "in_range lower upper k" for k
    using that assms(4)
    by (cases k) (auto simp: VaultKindRange_def kindWSPrefix_def gbind_Inr_iff in_range_Cons, auto simp: in_range_def)
  have shape: "k = vaultScopedString kind ws (bytes_str (drop 9 k))" if kv: "(k, v) \<in> set kvs" for k v
  proof -
    have k: "in_range lower upper k" "k \<in> dom (view d)"
      using kv set by auto
    then have "9 \<le> length k"
      using head [OF k(1)] assms(3) by (cases k) (auto simp: long_keys_def)
    then obtain p where "k = vaultScoped kind ws p"
      using VaultKindRange_members [OF assms(2,4) k(1)] by blast
    then show ?thesis
      by (simp add: vaultScopedString_def vaultScoped_drop9 [OF assms(2)])
  qed
  have kvs: "kvs = map (\<lambda>(i, v). (vaultScopedString kind ws i, v)) es"
  proof -
    have "(case (case kv of (k, v) \<Rightarrow> (bytes_str (drop 9 k), v)) of (i, v) \<Rightarrow> (vaultScopedString kind ws i, v)) = kv"
      if "kv \<in> set kvs" for kv
      using shape [of "fst kv" "snd kv"] that by (cases kv) (simp only: prod.case fst_conv snd_conv prod.sel)
    then show ?thesis
      unfolding es_def map_map by (intro map_idI [symmetric]) simp
  qed
  have order: "vaultScopedString kind ws i < vaultScopedString kind ws j \<longleftrightarrow> str_bytes i < str_bytes j" for i j
    by (simp add: vaultScopedString_def vaultScoped_def)
  have keys: "map fst kvs = map (vaultScopedString kind ws \<circ> fst) es"
    unfolding kvs by (simp add: comp_def case_prod_unfold)
  then have sorted': "sorted_wrt (<) (map (str_bytes \<circ> fst) es)"
    using sorted by (simp add: sorted_wrt_map order)
  show thesis
  proof (rule that [of es])
    show "DB_RangeScan P d lower upper (\<lambda>k v s. (f k v s, True)) s =
        (fold (\<lambda>(i, v). f (vaultScopedString kind ws i) v) es s, None)" for f s
      by (simp add: DB_RangeScan_def iter scan_loop_fold Let_def kvs fold_map comp_def case_prod_unfold)
    have "distinct (map str_bytes (map fst es))"
      using sorted' strict_sorted_iff by (metis map_map)
    then show "distinct (map fst es)"
      by (simp only: distinct_map)
    show "sorted_wrt (<) (map (str_bytes \<circ> fst) es)" by (fact sorted')
    show "(i, v) \<in> set es \<longleftrightarrow> view d (vaultScopedString kind ws i) = Some v" for i v
    proof -
      have "(i, v) \<in> set es \<longleftrightarrow> (vaultScopedString kind ws i, v) \<in> set kvs"
        unfolding kvs by (auto simp: vaultScopedString_def vaultScoped_def)
      then show ?thesis
        using VaultKindRange_vaultScoped [OF assms(2,2,4)] by (simp add: set vaultScopedString_def)
    qed
  qed
qed

lemma lookupChunk_view:
  "reliable P \<Longrightarrow> lookupChunk P C d ws cid = Option.bind (view d (ChunkKey ws cid)) (cd_unmarshal C)"
  by (simp add: lookupChunk_def reliable_Get split: option.split)

lemma lookupDoc_view:
  "reliable P \<Longrightarrow> lookupDoc P D d ws cid = Option.bind (view d (DocumentKey ws cid)) (cd_unmarshal D)"
  by (simp add: lookupDoc_def reliable_Get split: option.split)

end

text \<open>Chunk records stand under their own ids.\<close>

definition ids_match :: "chunk codec \<Rightarrow> contents \<Rightarrow> ws \<Rightarrow> bool" where
  "ids_match C m ws \<longleftrightarrow> long_keys PrefixChunk m \<and>
     (\<forall>cid raw c. m (ChunkKey ws cid) = Some raw \<longrightarrow> cd_unmarshal C raw = Some c \<longrightarrow> c_ID c = cid)"

lemma docOf_fold:
  assumes "\<forall>(k, v) \<in> set kvs. \<forall>c. cd_unmarshal C v = Some c \<longrightarrow> c_ID c = cid \<longrightarrow> c_DocumentID c = x"
    and "m cid = x \<or> (\<exists>(k, v) \<in> set kvs. \<exists>c. cd_unmarshal C v = Some c \<and> c_ID c = cid)"
  shows "fold (\<lambda>(k, v) m. case cd_unmarshal C v of Some c \<Rightarrow> m(c_ID c := c_DocumentID c) | None \<Rightarrow> m) kvs m cid = x"
  using assms
proof (induction kvs arbitrary: m)
  case (Cons kv kvs)
  show ?case
  proof (cases "cd_unmarshal C (snd kv)")
    case None
    then show ?thesis using Cons by (cases kv) auto
  next
    case (Some c)
    then show ?thesis
      using Cons.prems by (cases kv) (auto intro!: Cons.IH)
  qed
qed simp

lemma docOf_lookup:
  assumes "pebble P view" and "reliable P" and "ids_match C (view d) ws" and "is_ws ws"
    and "VaultKindRange PrefixChunk ws = Inr (lower, upper)"
    and "lookupChunk P C d ws cid = Some c"
  shows "docOf P C d ws cid = c_DocumentID c"
proof -
  have key: "vaultScopedString PrefixChunk ws i = ChunkKey ws i" for i
    by (simp add: ChunkKey_def PrefixChunk_def)
  obtain es where scan: "\<And>f s. DB_RangeScan P d lower upper (\<lambda>k v s. (f k v s, True)) (s :: string \<Rightarrow> string) =
       (fold (\<lambda>(i, v). f (ChunkKey ws i) v) es s, None)"
    and set: "\<And>i v. (i, v) \<in> set es \<longleftrightarrow> view d (ChunkKey ws i) = Some v"
    by (rule pebble.scoped_scan [OF assms(1,2,4) _ assms(5), unfolded key]) (use assms(3) in \<open>auto simp: ids_match_def\<close>)
  have ids: "c_ID x = i" if "(i, v) \<in> set es" "cd_unmarshal C v = Some x" for i v x
    using that assms(3) unfolding set ids_match_def by blast
  obtain raw where raw: "view d (ChunkKey ws cid) = Some raw" "cd_unmarshal C raw = Some c"
    using assms(6) by (auto simp: pebble.lookupChunk_view [OF assms(1,2)] split: Option.bind_splits)
  then have "(cid, raw) \<in> set es" by (simp add: set)
  moreover have "x = c" if "(i, v) \<in> set es" "cd_unmarshal C v = Some x" "c_ID x = cid" for i v x
    using ids [OF that(1,2)] that raw by (simp add: set)
  ultimately have "fold (\<lambda>(k, v) m. case cd_unmarshal C v of Some c \<Rightarrow> m(c_ID c := c_DocumentID c) | None \<Rightarrow> m) es (\<lambda>_. []) cid = c_DocumentID c"
    using raw(2) ids by (intro docOf_fold) blast+
  then show ?thesis
    by (simp add: docOf_def assms(5) scan)
qed

section \<open>The profile counts the records\<close>

text \<open>The most frequent value; among equally frequent ones the least.\<close>

definition plurality :: "'k :: linorder list \<Rightarrow> 'k \<Rightarrow> bool" where
  "plurality xs x \<longleftrightarrow> x \<in> set xs \<and>
     (\<forall>y \<in> set xs. count_list xs y < count_list xs x \<or> count_list xs y = count_list xs x \<and> x \<le> y)"

lemma plurality_unique: "plurality xs x \<Longrightarrow> plurality xs y \<Longrightarrow> x = y"
  unfolding plurality_def by (metis less_asym less_irrefl order_antisym)

lemma plurality_mset: "mset xs = mset ys \<Longrightarrow> plurality xs = plurality ys"
  unfolding plurality_def fun_eq_iff by (metis count_mset set_mset_mset)

abbreviation counts :: "'k list \<Rightarrow> ('k \<times> int) list" where
  "counts xs \<equiv> bump_all (map (\<lambda>x. (x, 1)) xs) []"

lemma counts_facts:
  "set (map fst (counts xs)) = set xs" "distinct (map fst (counts xs))"
  "x \<in> set xs \<Longrightarrow> map_of (counts xs) x = Some (int (count_list xs x))"
proof -
  show keys: "set (map fst (counts xs)) = set xs"
    by (simp add: keys_bump_all image_image)
  show "distinct (map fst (counts xs))"
    by (rule distinct_bump_all) simp
  have "tally x (map (\<lambda>x. (x, 1)) xs) = int (count_list xs x)"
    by (induction xs) auto
  then show "x \<in> set xs \<Longrightarrow> map_of (counts xs) x = Some (int (count_list xs x))"
    by (simp add: map_of_bump_all image_image)
qed

lemma majority_fold:
  fixes m :: "('k :: linorder \<times> int) list"
  assumes "sorted ks"
  defines "c \<equiv> \<lambda>k. the (map_of m k)"
  shows "\<exists>b' n'. foldl (majority_step m) (b, n) ks = (b', n') \<and>
    ((n' = n \<and> b' = b \<and> (\<forall>k \<in> set ks. c k \<le> n)) \<or>
     (n < n' \<and> b' \<in> set ks \<and> c b' = n' \<and> (\<forall>k \<in> set ks. c k < n' \<or> c k = n' \<and> b' \<le> k)))"
  using assms(1)
proof (induction ks arbitrary: b n)
  case (Cons k ks)
  let ?b = "if n < c k then (k, c k) else (b, n)"
  obtain b' n' where r: "foldl (majority_step m) ?b ks = (b', n')"
    "(n' = snd ?b \<and> b' = fst ?b \<and> (\<forall>k \<in> set ks. c k \<le> snd ?b)) \<or>
     (snd ?b < n' \<and> b' \<in> set ks \<and> c b' = n' \<and> (\<forall>k \<in> set ks. c k < n' \<or> c k = n' \<and> b' \<le> k))"
    using Cons.IH [of "fst ?b" "snd ?b"] Cons.prems by auto
  have "foldl (majority_step m) (b, n) (k # ks) = (b', n')"
    using r(1) by (simp add: majority_step_def c_def Let_def split: if_splits)
  moreover have "\<forall>x \<in> set ks. k \<le> x" using Cons.prems by simp
  ultimately show ?case
    using r(2) by (intro exI [of _ b'] exI [of _ n'] conjI) (auto split: if_splits)
qed simp

lemma majority_plurality:
  assumes "xs \<noteq> []"
  shows "plurality xs (majority zero (counts xs))"
proof -
  let ?ks = "sort (map fst (counts xs))"
  obtain b n where r: "foldl (majority_step (counts xs)) (zero, - 1) ?ks = (b, n)"
    "(n = - 1 \<and> b = zero \<and> (\<forall>k \<in> set ?ks. the (map_of (counts xs) k) \<le> - 1)) \<or>
     (- 1 < n \<and> b \<in> set ?ks \<and> the (map_of (counts xs) b) = n \<and>
      (\<forall>k \<in> set ?ks. the (map_of (counts xs) k) < n \<or> the (map_of (counts xs) k) = n \<and> b \<le> k))"
    using majority_fold [of ?ks "counts xs" zero "- 1"] by auto
  have ks: "set ?ks = set xs" using counts_facts(1) [of xs] by simp
  obtain x where "x \<in> set xs" using assms by (cases xs) auto
  then have "b \<in> set xs \<and> (\<forall>k \<in> set xs. count_list xs k < count_list xs b \<or> count_list xs k = count_list xs b \<and> b \<le> k)"
    using r(2) counts_facts(3) [of _ xs] unfolding ks by fastforce
  then show ?thesis
    by (simp add: plurality_def majority_def r(1))
qed

text \<open>The profile of a list of records, in the order of the scan.\<close>

abbreviation add_record :: "embedRecord \<Rightarrow> embedding_profile \<Rightarrow> embedding_profile" where
  "add_record se p \<equiv>
     p\<lparr>ep_Total := ep_Total p + 1,
       ep_ModelCounts := bump (er_Model se) 1 (ep_ModelCounts p),
       ep_DimCounts := bump (int (length (er_Vector se))) 1 (ep_DimCounts p),
       ep_ConventionCounts := bump (er_Convention se) 1 (ep_ConventionCounts p)\<rparr>"

lemma add_records:
  "ep_Total (fold add_record rs p) = ep_Total p + int (length rs)"
  "ep_ModelCounts (fold add_record rs p) = bump_all (map (\<lambda>x. (x, 1)) (map er_Model rs)) (ep_ModelCounts p)"
  "ep_DimCounts (fold add_record rs p) = bump_all (map (\<lambda>x. (x, 1)) (map (\<lambda>r. int (length (er_Vector r))) rs)) (ep_DimCounts p)"
  "ep_ConventionCounts (fold add_record rs p) = bump_all (map (\<lambda>x. (x, 1)) (map er_Convention rs)) (ep_ConventionCounts p)"
  by (induction rs arbitrary: p) simp_all

definition decode_all :: "'a codec \<Rightarrow> ('i \<times> bytes) list \<Rightarrow> 'a list" where
  "decode_all R es = concat (map (\<lambda>(i, v). case cd_unmarshal R v of None \<Rightarrow> [] | Some r \<Rightarrow> [r]) es)"

lemma profile_cb_fold: "fold (\<lambda>(i, v). profile_cb R v) es p = fold add_record (decode_all R es) p"
  by (induction es arbitrary: p) (auto simp: profile_cb_def decode_all_def split: option.split)

lemma length_counts: "length (counts xs) = card (set xs)"
  by (metis counts_facts(1,2) distinct_card length_map)

lemma CorpusProfile_facts:
  assumes "pebble P view" and "reliable P" and "is_ws ws" and "long_keys PrefixEmbedding (view d)"
    and "VaultKindRange PrefixEmbedding ws = Inr (lower, upper)"
    and "distinct (map fst es)" and "set es = {(i, v). view d (EmbeddingKey ws i) = Some v}"
  shows "ep_Total (CorpusProfile P R ws d) = int (length (decode_all R es))"
    and "decode_all R es \<noteq> [] \<Longrightarrow>
      plurality (map er_Model (decode_all R es)) (ep_MajorityModel (CorpusProfile P R ws d)) \<and>
      plurality (map (\<lambda>r. int (length (er_Vector r))) (decode_all R es)) (ep_MajorityDim (CorpusProfile P R ws d)) \<and>
      plurality (map er_Convention (decode_all R es)) (ep_MajorityConvention (CorpusProfile P R ws d))"
    and "length (ep_ConventionCounts (CorpusProfile P R ws d)) = card (er_Convention ` set (decode_all R es))"
proof -
  have key: "vaultScopedString PrefixEmbedding ws i = EmbeddingKey ws i" for i
    by (simp add: EmbeddingKey_def PrefixEmbedding_def)
  obtain fs where scan: "\<And>f s. DB_RangeScan P d lower upper (\<lambda>k v s. (f k v s, True)) (s :: embedding_profile) =
       (fold (\<lambda>(i, v). f (EmbeddingKey ws i) v) fs s, None)"
    and fs: "distinct (map fst fs)" "\<And>i v. (i, v) \<in> set fs \<longleftrightarrow> view d (EmbeddingKey ws i) = Some v"
    by (rule pebble.scoped_scan [OF assms(1,2,3,4,5), unfolded key]) (use that in blast)
  have "mset fs = mset es"
    using assms(6,7) fs by (intro set_eq_iff_mset_eq_distinct [THEN iffD1]) (auto simp: distinct_map)
  then have "mset (decode_all R fs) = mset (decode_all R es)"
    by (simp add: decode_all_def mset_concat flip: sum_mset_sum_list)
  then have perm: "mset (map f (decode_all R fs)) = mset (map f (decode_all R es))" for f :: "embedRecord \<Rightarrow> 'b"
    by simp
  let ?p = "fold add_record (decode_all R fs) blank_profile"
  have p: "CorpusProfile P R ws d = (if ep_Total ?p = 0 then ?p
      else ?p\<lparr>ep_MajorityModel := majorityString (ep_ModelCounts ?p), ep_MajorityDim := majorityInt (ep_DimCounts ?p),
        ep_MajorityConvention := majorityString (ep_ConventionCounts ?p),
        ep_Consistent := length (ep_ModelCounts ?p) \<le> 1 \<and> length (ep_DimCounts ?p) \<le> 1 \<and> length (ep_ConventionCounts ?p) \<le> 1\<rparr>)"
    by (simp add: CorpusProfile_def assms(5) scan profile_cb_fold Let_def)
  have len: "length (decode_all R fs) = length (decode_all R es)"
    using perm [of id] by (metis list.map_id mset_eq_length)
  show "ep_Total (CorpusProfile P R ws d) = int (length (decode_all R es))"
    by (simp add: p add_records blank_profile_def len)
  show "length (ep_ConventionCounts (CorpusProfile P R ws d)) = card (er_Convention ` set (decode_all R es))"
  proof -
    have "set (map er_Convention (decode_all R fs)) = set (map er_Convention (decode_all R es))"
      using perm by (rule mset_eq_setD)
    then show ?thesis
      using length_counts [of "map er_Convention (decode_all R fs)"] len
      by (auto simp: p add_records blank_profile_def)
  qed
  assume "decode_all R es \<noteq> []"
  then have "decode_all R fs \<noteq> []" using len by auto
  then show "plurality (map er_Model (decode_all R es)) (ep_MajorityModel (CorpusProfile P R ws d)) \<and>
      plurality (map (\<lambda>r. int (length (er_Vector r))) (decode_all R es)) (ep_MajorityDim (CorpusProfile P R ws d)) \<and>
      plurality (map er_Convention (decode_all R es)) (ep_MajorityConvention (CorpusProfile P R ws d))"
    unfolding plurality_mset [OF perm [symmetric]]
    by (simp add: p add_records blank_profile_def majorityString_def majorityInt_def majority_plurality del: map_map list.map_comp)
qed

section \<open>A concrete engine\<close>

text \<open>Three linked chunks, of which two are near duplicates, over the in-memory store.\<close>

definition demo_part :: "string \<Rightarrow> chunk" where
  "demo_part i = blank_chunk
     \<lparr>c_ID := i, c_DocumentID := ''d'' @ i, c_Content := ''text '' @ i,
      c_PreviousChunkID := (if i = ''b'' then ''a'' else if i = ''c'' then ''b'' else []),
      c_NextChunkID := (if i = ''a'' then ''b'' else if i = ''b'' then ''c'' else []),
      c_NearDup := (if i = ''a'' then Some \<lparr>Siblings = [''b''], Similarity = 1\<rparr> else None)\<rparr>"

definition demo_engine_env :: "((bytes \<times> bytes) list, unit) engine_env" where
  "demo_engine_env =
     \<lparr>ge_P = mem_pebble, ge_sip = demo_sip, ge_u = ascii_tables, ge_cfg = Default\<lparr>cf_EmbeddingPrefix := ''off''\<rparr>,
      ge_doc = \<lparr>cd_marshal = (\<lambda>x. Some (str_bytes (d_ID x))),
                cd_unmarshal = (\<lambda>b. Some (blank_document\<lparr>d_ID := bytes_str b, d_FilePath := ''/'' @ bytes_str b\<rparr>))\<rparr>,
      ge_chunk = \<lparr>cd_marshal = (\<lambda>x. Some (str_bytes (c_ID x))), cd_unmarshal = (\<lambda>b. Some (demo_part (bytes_str b)))\<rparr>,
      ge_record = \<lparr>cd_marshal = (\<lambda>x. Some []),
                   cd_unmarshal = (\<lambda>b. Some \<lparr>er_Model = bytes_str b, er_Convention = [], er_Vector = [1]\<rparr>)\<rparr>,
      ge_stored = \<lparr>cd_marshal = (\<lambda>x. Some []),
                   cd_unmarshal = (\<lambda>b. Some \<lparr>se_Model = bytes_str b, se_Convention = [], se_Vector = Some [1]\<rparr>)\<rparr>,
      ge_vector = \<lparr>cd_marshal = (\<lambda>x. Some []), cd_unmarshal = (\<lambda>b. None)\<rparr>,
      ge_model = ''m'', ge_dims = (\<lambda>_. 1), ge_embed = (\<lambda>ts s. (Inr (map (\<lambda>_. [1]) ts), s)),
      ge_rerank = \<lparr>rr_score = (\<lambda>q ts s. ((map (\<lambda>_. 1) ts, None), s))\<rparr>,
      ge_glob = (\<lambda>p f. Inr False), ge_fold = (=), ge_sort = demo_srt,
      ge_float = (\<lambda>_. ''0''), ge_sha = (\<lambda>b. take 8 (b @ replicate 8 0))\<rparr>"

abbreviation demo_vault :: ws where
  "demo_vault \<equiv> [0, 0, 0, 0, 0, 0, 0, 97]"

definition demo_data :: "(bytes \<times> bytes) list" where
  "demo_data =
     [(ChunkKey demo_vault ''a'', str_bytes ''a''), (ChunkKey demo_vault ''b'', str_bytes ''b''),
      (ChunkKey demo_vault ''c'', str_bytes ''c''), (DocumentKey demo_vault ''da'', str_bytes ''da''),
      (EmbeddingKey demo_vault ''a'', str_bytes ''m''), (EmbeddingKey demo_vault ''b'', str_bytes ''m'')]"

text \<open>An engine whose index of vault \<open>a\<close> has been seeded.\<close>

definition demo_engine :: "((bytes \<times> bytes) list, unit) engine" where
  "demo_engine =
     (NewWithDB Default \<lparr>pdb = demo_data, vaultPrefixCache = newVaultCache 10, vaultNameWritten = {}\<rparr> ())
       \<lparr>en_fts := [demo_vault \<mapsto> NewFTS], en_vec := [demo_vault \<mapsto> Vec_Add ''b'' [1] (Vec_Add ''a'' [1] NewVector)]\<rparr>"

lemma demo_store [simp]: "pebble (ge_P demo_engine_env) map_of" "reliable (ge_P demo_engine_env)"
  by (simp_all add: demo_engine_env_def mem.pebble_axioms)

end
