(* ===== verification/Engine_Query.thy ===== *)
theory Engine_Query
  imports Engine "HOL-Library.Sublist"
begin

text \<open>
  Queries over one vault: \<open>internal/engine/query.go\<close> and \<open>resultKey\<close> of \<open>cache.go\<close>. \<open>Query\<close> runs in three
  parts, as other operations can run between them: resolving the request and looking at the cache, computing,
  and storing the result. Audit log, metrics and spans are left out.
\<close>

section \<open>The request\<close>

definition resultKey :: "('db, 's) engine_env \<Rightarrow> query_request \<Rightarrow> int \<Rightarrow> int \<Rightarrow> int \<Rightarrow> 64 word \<Rightarrow> ws \<Rightarrow> string" where
  "resultKey E req effRRFK effK effPool epoch ws =
     (let rerank = cf_RerankModel (ge_cfg E) \<noteq> [] \<and> \<not> rq_NoRerank req in
      cacheKey_hash (ge_float E)
        \<lparr>ck_Query = rq_Query req, ck_Mode = rq_Mode req, ck_K = rq_K req, ck_Threshold = rq_Threshold req,
         ck_RRFK = effRRFK,
         ck_FilterSource = (case rq_Filter req of None \<Rightarrow> [] | Some f \<Rightarrow> flt_Source f),
         ck_FilterType = (case rq_Filter req of None \<Rightarrow> [] | Some f \<Rightarrow> flt_Type f),
         ck_FilterTags = (case rq_Filter req of None \<Rightarrow> [] | Some f \<Rightarrow> flt_Tags f),
         ck_ContextWindow = rq_ContextWindow req,
         ck_RerankEnabled = rerank, ck_RerankModel = (if rerank then cf_RerankModel (ge_cfg E) else []),
         ck_IncludeQuarantined = rq_IncludeQuarantined req, ck_EffK = effK, ck_EffPool = effPool,
         ck_Epoch = epoch, ck_WS = ws, ck_Vaults = Join (sort (rq_Vaults req)) [CHR 0x00]\<rparr>)"

text \<open>A request with its effective depth, fusion constant, pool and mode.\<close>

record resolved =
  rs_req :: query_request
  rs_effK :: int
  rs_effRRFK :: int
  rs_effPool :: int
  rs_effMode :: string

definition resolve_K :: "config \<Rightarrow> query_request \<Rightarrow> int \<times> bool" where
  "resolve_K cfg req =
     (let (k, classified) =
        (if 0 < rq_K req then (rq_K req, False)
         else (case newClassifier cfg of
                 None \<Rightarrow> (5, False)
               | Some classify \<Rightarrow> (let rec = classify (rq_Query req) in if 0 < rec then (rec, True) else (5, False))))
      in (if 100 < k then 100 else k, classified))"

definition resolve_request :: "('db, 's) engine_env \<Rightarrow> query_request \<Rightarrow> resolved gres" where
  "resolve_request E req0 =
     (case Transform (ge_u E) (rq_Query req0) of
        Inl e \<Rightarrow> Inl (ErrInvalid ''query'')
      | Inr [] \<Rightarrow> Inl (ErrInvalid ''transformer returned no queries'')
      | Inr (q # _) \<Rightarrow>
          (if q = [] then Inl (ErrInvalid ''query is required'')
           else
             let cfg = ge_cfg E; req = req0\<lparr>rq_Query := q\<rparr>; (effK, classified) = resolve_K cfg req
             in Inr
               \<lparr>rs_req = req\<lparr>rq_K := effK\<rparr>, rs_effK = effK,
                rs_effRRFK = (if 0 < rq_RRFK req then rq_RRFK req else EffectiveRRFK cfg),
                rs_effPool =
                  (if 0 < rq_PoolSize req then rq_PoolSize req
                   else if classified then EffectivePoolFor effK PoolSlack PoolFloor (EffectivePoolSize cfg)
                   else EffectivePoolSize cfg),
                rs_effMode = (if rq_Mode req = [] then ''hybrid'' else rq_Mode req)\<rparr>))"

section \<open>Guards and embedding\<close>

definition checkEmbeddingMismatch ::
    "('db, 's) engine_env \<Rightarrow> string \<Rightarrow> embedding_profile \<Rightarrow> 's \<Rightarrow> go_error option \<times> 's" where
  "checkEmbeddingMismatch E query prof s =
     (let qConv = Convention (ge_u E) (Config_Prefixer (ge_cfg E)) in
      if ep_Total prof = 0 then (None, s)
      else if 1 < length (ep_ConventionCounts prof) then (Some (ErrEmbeddingMismatch ''mixed conventions''), s)
      else if qConv \<noteq> ep_MajorityConvention prof then (Some (ErrEmbeddingMismatch ''convention''), s)
      else
        let (qDim, s') =
          (if ge_dims E s = 0 then
             (case ge_embed E [query] s of
                (Inr (v # _), s') \<Rightarrow> (int (length v), s')
              | (_, s') \<Rightarrow> (0, s'))
           else (ge_dims E s, s))
        in if ge_model E \<noteq> ep_MajorityModel prof \<or> (qDim \<noteq> 0 \<and> qDim \<noteq> ep_MajorityDim prof)
           then (Some (ErrEmbeddingMismatch ''model''), s') else (None, s'))"

text \<open>Cached vectors keep their place, the others are taken from the answer in order and cached.\<close>

fun embed_lookup :: "(string \<Rightarrow> string) \<Rightarrow> string list \<Rightarrow> (string, real list) lru \<Rightarrow>
    real list option list \<times> (string, real list) lru" where
  "embed_lookup key [] c = ([], c)"
| "embed_lookup key (t # ts) c =
     (let (v, c1) = LRU_Get c (key t); (vs, c2) = embed_lookup key ts c1 in (v # vs, c2))"

fun embed_fill :: "(string \<Rightarrow> string) \<Rightarrow> (string \<times> real list option) list \<Rightarrow> real list list \<Rightarrow>
    (string, real list) lru \<Rightarrow> real list list gres \<times> (string, real list) lru" where
  "embed_fill key [] got c = (Inr [], c)"
| "embed_fill key ((t, Some v) # ss) got c =
     (case embed_fill key ss got c of (Inl e, c') \<Rightarrow> (Inl e, c') | (Inr vs, c') \<Rightarrow> (Inr (v # vs), c'))"
| "embed_fill key ((t, None) # ss) [] c = (Inl (Failed ''panic: index out of range''), c)"
| "embed_fill key ((t, None) # ss) (g # got) c =
     (case embed_fill key ss got (LRU_Put c (key t) g) of
        (Inl e, c') \<Rightarrow> (Inl e, c') | (Inr vs, c') \<Rightarrow> (Inr (g # vs), c'))"

definition queryEmbed :: "('db, 's) engine_env \<Rightarrow> ws \<Rightarrow> ((string, real list) lru \<times> 's) embed_fn" where
  "queryEmbed E ws texts cs =
     (case cs of (c, s) \<Rightarrow>
       (let pre = Config_Prefixer (ge_cfg E); prefixed = ApplyAll (ge_u E) pre RoleQuery texts in
        if \<not> LRU_Enabled c then (case ge_embed E prefixed s of (r, s') \<Rightarrow> (r, (c, s')))
        else
          let key = embedCacheKey ws (embedFingerprint (ge_u E) (ge_model E) (ge_dims E s) pre);
              (slots, c1) = embed_lookup key prefixed c;
              missText = map fst (filter (\<lambda>p. snd p = None) (zip prefixed slots))
          in if missText = [] then (Inr (map the slots), (c1, s))
             else (case ge_embed E missText s of
                     (Inl e, s') \<Rightarrow> (Inl e, (c1, s'))
                   | (Inr got, s') \<Rightarrow>
                       (case embed_fill key (zip prefixed slots) got c1 of (r, c2) \<Rightarrow> (r, (c2, s'))))))"

section \<open>From hits to the answer\<close>

text \<open>The filter of a request over a vault: quarantine by chunk, metadata by document.\<close>

definition query_keep :: "('db, 's) engine_env \<Rightarrow> query_request \<Rightarrow> ws \<Rightarrow> 'db \<Rightarrow> (string \<Rightarrow> bool) option" where
  "query_keep E req ws d =
     (let filterOn = (case rq_Filter req of None \<Rightarrow> False | Some f \<Rightarrow> \<not> Filter_Empty f);
          poisonOn = EffectivePoisoningEnabled (ge_cfg E) \<and> \<not> rq_IncludeQuarantined req
      in if \<not> filterOn \<and> \<not> poisonOn then None
         else Some (\<lambda>chunkID.
           case lookupChunk (ge_P E) (ge_chunk E) d ws chunkID of
             None \<Rightarrow> False
           | Some c \<Rightarrow>
               if poisonOn \<and> (case c_Poisoning c of None \<Rightarrow> False | Some v \<Rightarrow> Quarantined (pv_Level v)) then False
               else if filterOn then
                 (case lookupDoc (ge_P E) (ge_doc E) d ws (c_DocumentID c) of
                    None \<Rightarrow> False
                  | Some doc \<Rightarrow>
                      Filter_Matches (ge_glob E) (ge_fold E) (the (rq_Filter req)) (d_FilePath doc) (d_FileType doc)
                        (tagsForDoc (d_Metadata doc) (d_Enrichment doc)))
               else True))"

definition chunk_content :: "('db, 's) engine_env \<Rightarrow> ws \<Rightarrow> 'db \<Rightarrow> string \<Rightarrow> string" where
  "chunk_content E ws d cid =
     (case lookupChunk (ge_P E) (ge_chunk E) d ws cid of None \<Rightarrow> [] | Some c \<Rightarrow> c_Content c)"

definition query_reranker :: "('db, 's) engine_env \<Rightarrow> query_request \<Rightarrow> 's reranker option" where
  "query_reranker E req =
     (if cf_RerankModel (ge_cfg E) \<noteq> [] \<and> \<not> rq_NoRerank req then Some (ge_rerank E) else None)"

definition build_hit :: "('db, 's) engine_env \<Rightarrow> ws \<Rightarrow> 'db \<Rightarrow> hit \<Rightarrow> query_hit list" where
  "build_hit E ws d h =
     (case lookupChunk (ge_P E) (ge_chunk E) d ws (ChunkID h) of
        None \<Rightarrow> []
      | Some c \<Rightarrow>
          (let doc = lookupDoc (ge_P E) (ge_doc E) d ws (c_DocumentID c);
               enr = (case doc of None \<Rightarrow> None | Some x \<Rightarrow> d_Enrichment x)
           in [\<lparr>qh_ChunkID = ChunkID h, qh_DocumentID = c_DocumentID c, qh_Score = Score h,
                qh_Content = c_Content c,
                qh_FilePath = (case doc of None \<Rightarrow> [] | Some x \<Rightarrow> d_FilePath x),
                qh_Page = c_PageNumber c, qh_ChunkIndex = c_ChunkIndex c, qh_Preview = preview (c_Content c) 160,
                qh_Context = [], qh_Poisoning = c_Poisoning c, qh_SectionContext = c_SectionContext c,
                qh_SectionLevel = c_SectionLevel c, qh_ExtractionMethod = c_ExtractionMethod c,
                qh_ExtractionQuality = c_ExtractionQuality c, qh_NearDup = c_NearDup c,
                qh_Summary = (case enr of None \<Rightarrow> [] | Some i \<Rightarrow> en_Summary i),
                qh_EnrichmentStatus = (case enr of None \<Rightarrow> [] | Some i \<Rightarrow> en_Status i),
                qh_Wikilinks = c_Wikilinks c\<rparr>]))"

definition normalise_scores :: "query_hit list \<Rightarrow> query_hit list" where
  "normalise_scores out =
     (case out of
        [] \<Rightarrow> []
      | h # _ \<Rightarrow> if 0 < qh_Score h then map (\<lambda>x. x\<lparr>qh_Score := qh_Score x / qh_Score h\<rparr>) out else out)"

definition above_threshold :: "real \<Rightarrow> query_hit list \<Rightarrow> query_hit list" where
  "above_threshold t out = (if 0 < t then filter (\<lambda>h. t \<le> qh_Score h) out else out)"

definition near_siblings :: "query_hit \<Rightarrow> query_hit \<Rightarrow> bool" where
  "near_siblings h k \<longleftrightarrow> listsSibling (qh_NearDup h) (qh_ChunkID k) \<or> listsSibling (qh_NearDup k) (qh_ChunkID h)"

fun dedup_loop :: "query_hit list \<Rightarrow> query_hit list \<Rightarrow> query_hit list" where
  "dedup_loop keptHits [] = keptHits"
| "dedup_loop keptHits (h # hs) =
     (if list_ex (near_siblings h) keptHits then dedup_loop keptHits hs else dedup_loop (keptHits @ [h]) hs)"

fun walk_previous :: "(string \<Rightarrow> chunk option) \<Rightarrow> nat \<Rightarrow> string \<Rightarrow> context_chunk list" where
  "walk_previous look 0 cid = []"
| "walk_previous look (Suc n) cid =
     (case look cid of
        None \<Rightarrow> []
      | Some c \<Rightarrow>
          if c_PreviousChunkID c = [] then []
          else (case look (c_PreviousChunkID c) of
                  None \<Rightarrow> []
                | Some prev \<Rightarrow>
                    \<lparr>cx_ChunkID = c_ID prev, cx_Content = c_Content prev, cx_Direction = ''previous''\<rparr> #
                    walk_previous look n (c_ID prev)))"

fun walk_next :: "(string \<Rightarrow> chunk option) \<Rightarrow> nat \<Rightarrow> string \<Rightarrow> context_chunk list" where
  "walk_next look 0 cid = []"
| "walk_next look (Suc n) cid =
     (case look cid of
        None \<Rightarrow> []
      | Some c \<Rightarrow>
          if c_NextChunkID c = [] then []
          else (case look (c_NextChunkID c) of
                  None \<Rightarrow> []
                | Some nxt \<Rightarrow>
                    \<lparr>cx_ChunkID = c_ID nxt, cx_Content = c_Content nxt, cx_Direction = ''next''\<rparr> #
                    walk_next look n (c_ID nxt)))"

definition expandContext :: "('db, 's) engine_env \<Rightarrow> 'db \<Rightarrow> ws \<Rightarrow> string \<Rightarrow> int \<Rightarrow> context_chunk list" where
  "expandContext E d ws chunkID n =
     (let look = lookupChunk (ge_P E) (ge_chunk E) d ws
      in rev (walk_previous look (nat n) chunkID) @ walk_next look (nat n) chunkID)"

text \<open>What is done to the ranked hits: normalise unless reranked, threshold, collapse, add context.\<close>

definition finish_hits :: "query_request \<Rightarrow> bool \<Rightarrow> query_hit list \<Rightarrow> query_hit list" where
  "finish_hits req normalise out =
     (let o1 = (if normalise then normalise_scores out else out);
          o2 = above_threshold (rq_Threshold req) o1
      in if rq_Dedup req then dedup_loop [] o2 else o2)"

definition add_context :: "(string \<Rightarrow> context_chunk list) \<Rightarrow> query_request \<Rightarrow> query_hit list \<Rightarrow> query_hit list" where
  "add_context expand req out =
     (if 0 < rq_ContextWindow req then map (\<lambda>h. h\<lparr>qh_Context := expand (qh_ChunkID h)\<rparr>) out else out)"

definition count_pool :: "int \<Rightarrow> int \<Rightarrow> nat \<Rightarrow> ('db, 's) engine \<Rightarrow> ('db, 's) engine" where
  "count_pool fetched effK n e =
     e\<lparr>en_queries := en_queries e + 1, en_fetched := en_fetched e + word_of_int fetched,
       en_keptSum := en_keptSum e + word_of_nat n,
       en_saturated := en_saturated e + (if int n < effK then 1 else 0)\<rparr>"

section \<open>The query\<close>

definition query_retrieval ::
    "('db, 's) engine_env \<Rightarrow> resolved \<Rightarrow> ws \<Rightarrow> vector \<Rightarrow> 'db \<Rightarrow> ((string, real list) lru \<times> 's) retrieval" where
  "query_retrieval E rs ws vec d =
     (let r0 = NewRetrieval ws (\<lambda>q k. Vec_Query q k vec) (Some (queryEmbed E ws));
          r1 = (if cf_RerankRetryOnFailure (ge_cfg E) then EnableRerankRetry r0 else r0);
          r2 = SetPoolSize (rs_effPool rs) (SetRRFK (rs_effRRFK rs) r1)
      in case query_keep E (rs_req rs) ws d of None \<Rightarrow> r2 | Some kp \<Rightarrow> SetFilter (Some kp) r2)"

text \<open>The reranker works on the outside world; the embedding cache beside it is untouched.\<close>

definition beside :: "'s reranker \<Rightarrow> ('c \<times> 's) reranker" where
  "beside rr = \<lparr>rr_score = (\<lambda>q ts cs. case cs of (c, s) \<Rightarrow> (case rr_score rr q ts s of (r, s') \<Rightarrow> (r, (c, s'))))\<rparr>"

definition query_compute ::
    "('db, 's) engine_env \<Rightarrow> resolved \<Rightarrow> ws \<Rightarrow> ('db, 's) engine \<Rightarrow> query_result gres \<times> ('db, 's) engine" where
  "query_compute E rs ws e0 =
     (case engine_indexes E ws e0 of ((fts, vec), e1) \<Rightarrow>
       (let d = pdb (en_db e1); req = rs_req rs; prof = CorpusProfile (ge_P E) (ge_record E) ws d in
        case checkEmbeddingMismatch E (rq_Query req) prof (en_ext e1) of
          (Some err, s) \<Rightarrow> (Inl err, e1\<lparr>en_ext := s\<rparr>)
        | (None, s) \<Rightarrow>
            (case SearchWithRerank (ge_P E) (ge_u E) (ge_sort E) d (query_retrieval E rs ws vec d) (rq_Query req)
                    (rq_K req) (ParseMode (rq_Mode req)) (Some (docOf (ge_P E) (ge_chunk E) d ws))
                    (map_option beside (query_reranker E req)) (chunk_content E ws d) (fts, (en_embeds e1, s)) of
               (res, (fts', (c', s'))) \<Rightarrow>
                 (let e2 = e1\<lparr>en_fts := (en_fts e1)(ws \<mapsto> fts'), en_embeds := c', en_ext := s'\<rparr> in
                  case res of
                    Inl err \<Rightarrow> (Inl err, e2)
                  | Inr (ranked, rerankFailed) \<Rightarrow>
                      (let out = concat (map (build_hit E ws d) ranked);
                           out1 = finish_hits req (query_reranker E req = None \<or> rerankFailed) out;
                           out2 = add_context (\<lambda>cid. expandContext E d ws cid (rq_ContextWindow req)) req out1
                       in (Inr \<lparr>qr_Hits = out2, qr_RerankFailed = rerankFailed, qr_EffectiveK = rs_effK rs,
                                qr_EffectivePool = rs_effPool rs, qr_EffectiveMode = rs_effMode rs\<rparr>,
                           count_pool (rs_effPool rs) (rs_effK rs) (length out2) e2))))))"

definition query_key :: "('db, 's) engine_env \<Rightarrow> resolved \<Rightarrow> 64 word \<Rightarrow> ws \<Rightarrow> string" where
  "query_key E rs epoch ws = resultKey E (rs_req rs) (rs_effRRFK rs) (rs_effK rs) (rs_effPool rs) epoch ws"

definition query_lookup ::
    "('db, 's) engine_env \<Rightarrow> resolved \<Rightarrow> 64 word \<Rightarrow> ws \<Rightarrow> ('db, 's) engine \<Rightarrow> query_result option \<times> ('db, 's) engine" where
  "query_lookup E rs epoch ws e =
     (if \<not> rq_NoCache (rs_req rs) \<and> LRU_Enabled (en_results e) then
        (case LRU_Get (en_results e) (query_key E rs epoch ws) of (r, c) \<Rightarrow> (r, e\<lparr>en_results := c\<rparr>))
      else (None, e))"

definition query_store ::
    "('db, 's) engine_env \<Rightarrow> resolved \<Rightarrow> 64 word \<Rightarrow> 64 word \<Rightarrow> ws \<Rightarrow> query_result \<Rightarrow> ('db, 's) engine \<Rightarrow> ('db, 's) engine" where
  "query_store E rs keyEpoch nowEpoch ws res e =
     (if LRU_Enabled (en_results e) \<and> \<not> qr_RerankFailed res \<and> nowEpoch = keyEpoch
      then e\<lparr>en_results := LRU_Put (en_results e) (query_key E rs keyEpoch ws) res\<rparr>
      else e)"

section \<open>The context of a hit\<close>

text \<open>The chunk records of one document: they are found under their ids and linked both ways.\<close>

definition linked :: "(string \<Rightarrow> chunk option) \<Rightarrow> chunk list \<Rightarrow> bool" where
  "linked look cs \<longleftrightarrow>
     (\<forall>i < length cs. look (c_ID (cs ! i)) = Some (cs ! i) \<and> c_ID (cs ! i) \<noteq> [] \<and>
        c_PreviousChunkID (cs ! i) = (if i = 0 then [] else c_ID (cs ! (i - 1))) \<and>
        c_NextChunkID (cs ! i) = (if Suc i = length cs then [] else c_ID (cs ! Suc i)))"

definition context_entry :: "string \<Rightarrow> chunk \<Rightarrow> context_chunk" where
  "context_entry dir c = \<lparr>cx_ChunkID = c_ID c, cx_Content = c_Content c, cx_Direction = dir\<rparr>"

lemma linkedD:
  assumes "linked look cs" and "i < length cs"
  shows "look (c_ID (cs ! i)) = Some (cs ! i)" "c_ID (cs ! i) \<noteq> []"
    "c_PreviousChunkID (cs ! i) = (if i = 0 then [] else c_ID (cs ! (i - 1)))"
    "c_NextChunkID (cs ! i) = (if Suc i = length cs then [] else c_ID (cs ! Suc i))"
  using assms by (simp_all add: linked_def)

lemma walk_next_linked:
  assumes "linked look cs" and "i < length cs"
  shows "walk_next look n (c_ID (cs ! i)) = map (context_entry ''next'') (take n (drop (Suc i) cs))"
  using assms(2)
proof (induction n arbitrary: i)
  case (Suc n)
  note i = linkedD [OF assms(1) Suc.prems]
  show ?case
  proof (cases "Suc i = length cs")
    case True
    then show ?thesis by (simp add: i)
  next
    case False
    then have "Suc i < length cs" using Suc.prems by simp
    then show ?thesis
      using linkedD(1,2) [OF assms(1), of "Suc i"] Suc.IH [of "Suc i"] False
      by (simp add: i Cons_nth_drop_Suc [symmetric] context_entry_def)
  qed
qed simp

lemma walk_previous_linked:
  assumes "linked look cs" and "i < length cs"
  shows "walk_previous look n (c_ID (cs ! i)) = map (context_entry ''previous'') (take n (rev (take i cs)))"
  using assms(2)
proof (induction n arbitrary: i)
  case (Suc n)
  note i = linkedD [OF assms(1) Suc.prems]
  show ?case
  proof (cases i)
    case 0
    then show ?thesis using i by simp
  next
    case (Suc j)
    then have "j < length cs" using Suc.prems by simp
    then show ?thesis
      using linkedD(1,2) [OF assms(1), of j] Suc.IH [of j] i Suc
      by (simp add: take_Suc_conv_app_nth context_entry_def)
  qed
qed simp

text \<open>The context of a hit is the text around it. When the chunks of a document are stored under their
  ids and linked in order, \<open>expandContext\<close> with \<open>n\<close> gives the up to \<open>n\<close> chunks before the hit and the
  up to \<open>n\<close> chunks after it, all in document order, and stops at the ends of the document.\<close>

theorem context_window_exact:
  assumes "linked (lookupChunk (ge_P E) (ge_chunk E) d ws) cs" and "i < length cs"
  shows "expandContext E d ws (c_ID (cs ! i)) n =
    map (context_entry ''previous'') (drop (i - nat n) (take i cs)) @
    map (context_entry ''next'') (take (nat n) (drop (Suc i) cs))"
  using walk_previous_linked [OF assms, of "nat n"] walk_next_linked [OF assms, of "nat n"] assms(2)
  by (simp add: expandContext_def take_rev rev_map [symmetric] min_def)

theorem context_window_exact_witness:
  "expandContext demo_engine_env demo_data demo_vault ''b'' 3 =
     [context_entry ''previous'' (demo_part ''a''), context_entry ''next'' (demo_part ''c'')]"
proof -
  let ?cs = "[demo_part ''a'', demo_part ''b'', demo_part ''c'']"
  have look: "lookupChunk (ge_P demo_engine_env) (ge_chunk demo_engine_env) demo_data demo_vault x = Some (demo_part x)"
    if "x \<in> {''a'', ''b'', ''c''}" for x
    using that by (auto simp: lookupChunk_def DB_Get_def demo_engine_env_def mem_pebble_def demo_data_def
        ChunkKey_def vaultScopedString_def vaultScoped_def)
  have "linked (lookupChunk (ge_P demo_engine_env) (ge_chunk demo_engine_env) demo_data demo_vault) ?cs"
    using look [of "''a''"] look [of "''b''"] look [of "''c''"]
    by (simp add: linked_def All_less_Suc numeral_3_eq_3 demo_part_def blank_chunk_def)
  from context_window_exact [OF this, of 1 3] show ?thesis
    by (simp add: demo_part_def)
qed

section \<open>The guard\<close>

text \<open>The dimension the guard compares: the embedder's, or that of a probe.\<close>

definition guard_dim :: "('db, 's) engine_env \<Rightarrow> string \<Rightarrow> 's \<Rightarrow> int" where
  "guard_dim E query s =
     (if ge_dims E s \<noteq> 0 then ge_dims E s
      else case ge_embed E [query] s of (Inr (v # _), _) \<Rightarrow> int (length v) | _ \<Rightarrow> 0)"

lemma check_eq:
  "fst (checkEmbeddingMismatch E query prof s) = None \<longleftrightarrow>
     ep_Total prof = 0 \<or>
     (length (ep_ConventionCounts prof) \<le> 1 \<and>
      Convention (ge_u E) (Config_Prefixer (ge_cfg E)) = ep_MajorityConvention prof \<and>
      ge_model E = ep_MajorityModel prof \<and> (guard_dim E query s = 0 \<or> guard_dim E query s = ep_MajorityDim prof))"
proof (cases "ge_dims E s = 0")
  case True
  obtain r s' where e: "ge_embed E [query] s = (r, s')"
    by (cases "ge_embed E [query] s")
  show ?thesis
  proof (cases r)
    case (Inl err)
    then show ?thesis
      by (simp add: checkEmbeddingMismatch_def guard_dim_def Let_def True e not_less)
  next
    case (Inr vs)
    then show ?thesis
      by (cases vs) (simp_all add: checkEmbeddingMismatch_def guard_dim_def Let_def True e not_less)
  qed
next
  case False
  then show ?thesis
    by (simp add: checkEmbeddingMismatch_def guard_dim_def Let_def not_less)
qed

lemma single_convention:
  assumes "rs \<noteq> []" and "plurality (map f rs) x"
  shows "card (f ` set rs) \<le> 1 \<and> y = x \<longleftrightarrow> (\<forall>r \<in> set rs. f r = y)"
proof
  assume *: "card (f ` set rs) \<le> 1 \<and> y = x"
  have "x \<in> f ` set rs"
    using assms(2) by (simp add: plurality_def)
  then show "\<forall>r \<in> set rs. f r = y"
    using * card_le_Suc0_iff_eq [of "f ` set rs"] by (metis One_nat_def finite_imageI finite_set imageI)
next
  assume all: "\<forall>r \<in> set rs. f r = y"
  then have "f ` set rs = {y}" using assms(1) by (cases rs) auto
  moreover have "x \<in> f ` set rs"
    using assms(2) by (simp add: plurality_def)
  ultimately show "card (f ` set rs) \<le> 1 \<and> y = x" by simp
qed

text \<open>C25: the embedding guard. A query passes exactly when the vault holds no readable embedding record, or
  all records were made under the prefix convention of the configuration and the query's model and
  (when known) dimension are the most frequent ones among the records, with ties broken by the
  order on names and numbers. \<open>es\<close> lists the embedding entries of the vault in any order.\<close>

theorem mismatch_guard_exact:
  assumes "pebble (ge_P E) view" and "reliable (ge_P E)" and "is_ws ws" and "long_keys PrefixEmbedding (view d)"
    and "VaultKindRange PrefixEmbedding ws = Inr (lower, upper)"
    and "distinct (map fst es)" and "set es = {(i, v). view d (EmbeddingKey ws i) = Some v}"
    and "rs = decode_all (ge_record E) es"
  shows "fst (checkEmbeddingMismatch E query (CorpusProfile (ge_P E) (ge_record E) ws d) s) = None \<longleftrightarrow>
    rs = [] \<or>
    ((\<forall>r \<in> set rs. er_Convention r = Convention (ge_u E) (Config_Prefixer (ge_cfg E))) \<and>
     plurality (map er_Model rs) (ge_model E) \<and>
     (guard_dim E query s = 0 \<or> plurality (map (\<lambda>r. int (length (er_Vector r))) rs) (guard_dim E query s)))"
proof (cases "rs = []")
  case False
  note facts = CorpusProfile_facts [OF assms(1-7), of "ge_record E", folded assms(8)]
  note maj = facts(2) [OF False]
  have "ep_Total (CorpusProfile (ge_P E) (ge_record E) ws d) \<noteq> 0"
    using False by (simp add: facts(1))
  moreover have "ge_model E = ep_MajorityModel (CorpusProfile (ge_P E) (ge_record E) ws d) \<longleftrightarrow> plurality (map er_Model rs) (ge_model E)"
    and "x = ep_MajorityDim (CorpusProfile (ge_P E) (ge_record E) ws d) \<longleftrightarrow> plurality (map (\<lambda>r. int (length (er_Vector r))) rs) x" for x
    using maj plurality_unique by metis+
  ultimately show ?thesis
    using single_convention [OF False, of er_Convention _ "Convention (ge_u E) (Config_Prefixer (ge_cfg E))"] maj False
    unfolding check_eq facts(3) by blast
qed (use CorpusProfile_facts(1) [OF assms(1-7), of "ge_record E"] assms(8) in \<open>simp add: check_eq\<close>)

theorem mismatch_guard_exact_witness:
  "fst (checkEmbeddingMismatch demo_engine_env ''q''
     (CorpusProfile (ge_P demo_engine_env) (ge_record demo_engine_env) demo_vault demo_data) ()) = None"
proof -
  let ?es = "[(''b'', str_bytes ''m''), (''a'', str_bytes ''m'')]"
  have range: "VaultKindRange PrefixEmbedding demo_vault = Inr ([4, 0, 0, 0, 0, 0, 0, 0, 97], [4, 0, 0, 0, 0, 0, 0, 0, 98])"
    by code_simp
  have es: "set ?es = {(i, v). map_of demo_data (EmbeddingKey demo_vault i) = Some v}"
    by (auto simp: demo_data_def EmbeddingKey_def ChunkKey_def DocumentKey_def vaultScopedString_def vaultScoped_def split: if_splits)
  have long: "long_keys PrefixEmbedding (map_of demo_data)"
    by (auto simp: long_keys_def demo_data_def PrefixEmbedding_def EmbeddingKey_def ChunkKey_def DocumentKey_def
        vaultScopedString_def vaultScoped_def split: if_splits)
  have rs: "decode_all (ge_record demo_engine_env) ?es = replicate 2 \<lparr>er_Model = ''m'', er_Convention = [], er_Vector = [1]\<rparr>"
    by (simp add: decode_all_def demo_engine_env_def numeral_2_eq_2)
  have off: "Convention (ge_u demo_engine_env) (Config_Prefixer (ge_cfg demo_engine_env)) = []"
    by (simp add: demo_engine_env_def Config_Prefixer_def config_Prefixer_def ParsePrefixMode_def Convention_def
        px_resolve_def NewPrefixer_def no_convention_def Default_def Let_def)
  show ?thesis
    unfolding mismatch_guard_exact [OF demo_store _ long range _ es refl, of "''q''" "()", simplified rs is_ws_def, simplified]
    by (simp add: off plurality_def guard_dim_def, simp add: demo_engine_env_def)
qed

section \<open>Collapsing near duplicates\<close>

lemma near_siblings_sym: "near_siblings h k \<longleftrightarrow> near_siblings k h"
  by (auto simp: near_siblings_def)

lemma dedup_loop_append: "\<exists>more. dedup_loop kept_hits hs = kept_hits @ more \<and> subseq more hs"
proof (induction hs arbitrary: kept_hits)
  case (Cons h hs)
  obtain more where "dedup_loop (kept_hits @ [h]) hs = (kept_hits @ [h]) @ more" "subseq more hs"
    using Cons by blast
  then show ?case
    using Cons [of kept_hits] by auto
qed simp

lemma dedup_loop_pairwise:
  assumes "sorted_wrt (\<lambda>a b. \<not> near_siblings b a) kept_hits"
  shows "sorted_wrt (\<lambda>a b. \<not> near_siblings b a) (dedup_loop kept_hits hs)"
  using assms by (induction hs arbitrary: kept_hits) (auto simp: sorted_wrt_append list_ex_iff)

lemma dedup_loop_covers:
  assumes "h \<in> set hs"
  shows "h \<in> set (dedup_loop kept_hits hs) \<or> (\<exists>k \<in> set (dedup_loop kept_hits hs). near_siblings h k)"
  using assms
proof (induction hs arbitrary: kept_hits)
  case (Cons g hs)
  have sub: "set ks \<subseteq> set (dedup_loop ks hs)" for ks
    using dedup_loop_append [of ks hs] by auto
  show ?case
  proof (cases "h = g")
    case True
    then show ?thesis
      using sub [of kept_hits] sub [of "kept_hits @ [g]"] by (auto simp: list_ex_iff)
  next
    case False
    then show ?thesis using Cons by (cases "list_ex (near_siblings g) kept_hits") auto
  qed
qed simp

end
