(* ===== verification/Cross_Vault.thy ===== *)
theory Cross_Vault
  imports Engine_Query
begin

text \<open>
  Queries over several vaults, \<open>internal/engine/crossvault.go\<close>, and \<open>Query\<close> of \<open>query.go\<close>, which starts
  there when the request names vaults. The vaults are searched in turn, the ranked lists are fused,
  and every chunk is looked up in the vault that first returned it.
\<close>

section \<open>Fan-out\<close>

definition vaultSetWS :: "(bytes \<Rightarrow> bytes) \<Rightarrow> string list \<Rightarrow> ws" where
  "vaultSetWS sha vaults = take 8 (sha (str_bytes (Join (sort vaults) [CHR 0x00])))"

text \<open>The vaults whose embeddings fit the query, in the order of the request.\<close>

fun plan_vaults ::
    "('db, 's) engine_env \<Rightarrow> string \<Rightarrow> string list \<Rightarrow> ('db, 's) engine \<Rightarrow> ws list \<times> ('db, 's) engine" where
  "plan_vaults E query [] e = ([], e)"
| "plan_vaults E query (name # names) e =
     (let (ws, e1) = resolve_ws E name e;
          prof = CorpusProfile (ge_P E) (ge_record E) ws (pdb (en_db e1));
          (err, s) = checkEmbeddingMismatch E query prof (en_ext e1);
          (plans, e2) = plan_vaults E query names (e1\<lparr>en_ext := s\<rparr>)
      in (if err = None then ws # plans else plans, e2))"

definition combinedEpoch :: "('db, 's) engine \<Rightarrow> ws list \<Rightarrow> 64 word" where
  "combinedEpoch e plans = sum_list (map (indexEpoch e) plans)"

definition cross_retrieval ::
    "('db, 's) engine_env \<Rightarrow> resolved \<Rightarrow> ws \<Rightarrow> ws \<Rightarrow> vector \<Rightarrow> 'db \<Rightarrow> ((string, real list) lru \<times> 's) retrieval" where
  "cross_retrieval E rs cacheWS ws vec d =
     (let r = SetPoolSize (rs_effPool rs) (SetRRFK (rs_effRRFK rs)
                (NewRetrieval ws (\<lambda>q k. Vec_Query q k vec) (Some (queryEmbed E cacheWS))))
      in case query_keep E (rs_req rs) ws d of None \<Rightarrow> r | Some kp \<Rightarrow> SetFilter (Some kp) r)"

definition note_vault :: "ws \<Rightarrow> (string \<rightharpoonup> ws) \<Rightarrow> hit \<Rightarrow> string \<rightharpoonup> ws" where
  "note_vault ws m h = (if m (ChunkID h) = None then m(ChunkID h \<mapsto> ws) else m)"

definition vault_of :: "(string \<rightharpoonup> ws) \<Rightarrow> string \<Rightarrow> ws" where
  "vault_of m cid = (case m cid of None \<Rightarrow> replicate 8 0 | Some ws \<Rightarrow> ws)"

fun fan_out ::
    "('db, 's) engine_env \<Rightarrow> resolved \<Rightarrow> ws \<Rightarrow> ws list \<Rightarrow> (string \<rightharpoonup> ws) \<times> hit list list \<Rightarrow> ('db, 's) engine \<Rightarrow>
     ((string \<rightharpoonup> ws) \<times> hit list list) gres \<times> ('db, 's) engine" where
  "fan_out E rs cacheWS [] acc e = (Inr acc, e)"
| "fan_out E rs cacheWS (ws # wss) acc e =
     (case engine_indexes E ws e of ((fts, vec), e1) \<Rightarrow>
       (let d = pdb (en_db e1) in
        case CandidateLists (ge_P E) (ge_u E) d (cross_retrieval E rs cacheWS ws vec d) (rq_Query (rs_req rs))
               (ParseMode (rs_effMode rs)) (fts, (en_embeds e1, en_ext e1)) of
          (res, (fts', (c', s'))) \<Rightarrow>
            (let e2 = e1\<lparr>en_fts := (en_fts e1)(ws \<mapsto> fts'), en_embeds := c', en_ext := s'\<rparr> in
             case res of
               Inl err \<Rightarrow> (Inl err, e2)
             | Inr lsts \<Rightarrow>
                 fan_out E rs cacheWS wss (foldl (note_vault ws) (fst acc) (concat lsts), snd acc @ lsts) e2)))"

section \<open>Merging\<close>

text \<open>The pool after reranking, or cut to the depth, and whether a rerank failed.\<close>

definition cross_rerank ::
    "('db, 's) engine_env \<Rightarrow> resolved \<Rightarrow> (string \<Rightarrow> string) \<Rightarrow> hit list \<Rightarrow> 's \<Rightarrow> (hit list \<times> bool) \<times> 's" where
  "cross_rerank E rs chunkText pool s =
     (let effK = rs_effK rs; cut = (if effK < int (length pool) then take (nat effK) pool else pool) in
      case query_reranker E (rs_req rs) of
        None \<Rightarrow> ((cut, False), s)
      | Some rr \<Rightarrow>
          if pool = [] then ((pool, False), s)
          else
            (case rr_score rr (rq_Query (rs_req rs)) (map (\<lambda>h. chunkText (ChunkID h)) pool) s of
               ((scores, err), s') \<Rightarrow>
                 if err \<noteq> None \<or> length scores \<noteq> length pool then ((cut, True), s')
                 else ((map (\<lambda>(h, sc). Hit (ChunkID h) sc) (take (nat effK) (ge_sort E (zip pool scores))), False), s')))"

definition cross_pool :: "('db, 's) engine_env \<Rightarrow> 'db \<Rightarrow> resolved \<Rightarrow> nat \<Rightarrow> (string \<rightharpoonup> ws) \<Rightarrow> hit list list \<Rightarrow> hit list \<times> int" where
  "cross_pool E d rs n m lsts =
     (let fused = ReciprocalRankFusionN lsts (rs_effRRFK rs);
          crossDocOf = (\<lambda>cid. case lookupChunk (ge_P E) (ge_chunk E) d (vault_of m cid) cid of
                                None \<Rightarrow> [] | Some c \<Rightarrow> c_DocumentID c);
          c1 = int n * rs_effPool rs; c2 = 2 * rs_effPool rs;
          poolCap = (if c2 < c1 then c2 else c1)
      in (CollapseByDoc fused poolCap (Some crossDocOf), poolCap))"

definition cross_compute ::
    "('db, 's) engine_env \<Rightarrow> resolved \<Rightarrow> ws \<Rightarrow> ws list \<Rightarrow> ('db, 's) engine \<Rightarrow> query_result gres \<times> ('db, 's) engine" where
  "cross_compute E rs cacheWS plans e0 =
     (case fan_out E rs cacheWS plans (Map.empty, []) e0 of
        (Inl err, e1) \<Rightarrow> (Inl err, e1)
      | (Inr (m, lsts), e1) \<Rightarrow>
          (let d = pdb (en_db e1); req = rs_req rs;
               (pool, poolCap) = cross_pool E d rs (length plans) m lsts
           in case cross_rerank E rs (\<lambda>cid. chunk_content E (vault_of m cid) d cid) pool (en_ext e1) of
                ((ranked, rerankFailed), s) \<Rightarrow>
                  (let out = concat (map (\<lambda>h. build_hit E (vault_of m (ChunkID h)) d h) ranked);
                       out1 = finish_hits req (query_reranker E req = None \<or> rerankFailed) out;
                       out2 = add_context (\<lambda>cid. expandContext E d (vault_of m cid) cid (rq_ContextWindow req)) req out1
                   in (Inr \<lparr>qr_Hits = out2, qr_RerankFailed = rerankFailed, qr_EffectiveK = rs_effK rs,
                            qr_EffectivePool = rs_effPool rs, qr_EffectiveMode = rs_effMode rs\<rparr>,
                       count_pool poolCap (rs_effK rs) (length out2) (e1\<lparr>en_ext := s\<rparr>)))))"

definition crossVaultQuery ::
    "('db, 's) engine_env \<Rightarrow> resolved \<Rightarrow> ('db, 's) engine \<Rightarrow> query_result gres \<times> ('db, 's) engine" where
  "crossVaultQuery E rs e0 =
     (let cacheWS = vaultSetWS (ge_sha E) (rq_Vaults (rs_req rs));
          (plans, e1) = plan_vaults E (rq_Query (rs_req rs)) (rq_Vaults (rs_req rs)) e0
      in if plans = [] then (Inl (Failed ''cross-vault query: no queryable vaults''), e1)
         else
           let keyEpoch = combinedEpoch e1 plans in
           case query_lookup E rs keyEpoch cacheWS e1 of
             (Some r, e2) \<Rightarrow> (Inr r, e2)
           | (None, e2) \<Rightarrow>
               (case cross_compute E rs cacheWS plans e2 of
                  (Inl err, e3) \<Rightarrow> (Inl err, e3)
                | (Inr res, e3) \<Rightarrow>
                    (Inr res, query_store E rs keyEpoch (combinedEpoch e3 plans) cacheWS res e3)))"

section \<open>Query\<close>

definition Query ::
    "('db, 's) engine_env \<Rightarrow> string \<Rightarrow> query_request \<Rightarrow> ('db, 's) engine \<Rightarrow> query_result gres \<times> ('db, 's) engine" where
  "Query E vault req e0 =
     (let (ws, e1) = resolve_ws E vault e0 in
      case resolve_request E req of
        Inl err \<Rightarrow> (Inl err, e1)
      | Inr rs \<Rightarrow>
          if rq_Vaults (rs_req rs) \<noteq> [] then crossVaultQuery E rs e1
          else
            let keyEpoch = indexEpoch e1 ws in
            case query_lookup E rs keyEpoch ws e1 of
              (Some r, e2) \<Rightarrow> (Inr r, e2)
            | (None, e2) \<Rightarrow>
                (case query_compute E rs ws e2 of
                   (Inl err, e3) \<Rightarrow> (Inl err, e3)
                 | (Inr res, e3) \<Rightarrow> (Inr res, query_store E rs keyEpoch (indexEpoch e3 ws) ws res e3)))"

end
