(* ===== verification/Query_Facts.thy ===== *)
theory Query_Facts
  imports Cross_Vault
begin

text \<open>
  What an answer of \<open>Query\<close> contains (\<open>internal/engine/query.go\<close>): the hits are live chunks that satisfy the
  request, one per document, and their scores are normalised. Then what the result cache serves.
\<close>

section \<open>Ranked lists are sorted\<close>

lemma sorted_Vec_Query [simp]: "sorted (Vec_Query q k v)"
  by (simp add: Vec_Query_def Let_def sorted_topk)

lemma sorted_FTS_Search: "FTS_Search P u d ws query k f = (hs, f') \<Longrightarrow> sorted hs"
  by (auto simp: FTS_Search_def Let_def sorted_topk split: if_splits prod.splits)

lemma sorted_filterHits: "sorted hs \<Longrightarrow> sorted (filterHits r hs)"
  by (auto simp: filterHits_def sorted_wrt_filter split: option.split)

lemma sorted_CollapseByDoc: "sorted hs \<Longrightarrow> sorted (CollapseByDoc hs k dof)"
  by (cases dof) (simp_all add: CollapseByDoc_eq sorted_topk sorted_firsts)

lemma sorted_semantic:
  assumes "\<And>v k. sorted (r_vec r v k)" and "semantic r query s = (Inr hs, s')"
  shows "sorted hs"
  using assms(2) by (auto simp: semantic_def assms(1) split: option.splits prod.splits sum.splits list.splits)

lemma sorted_Search:
  assumes vec: "\<And>v k. sorted (r_vec r v k)"
    and "Search P u d r query k mode dof st = (Inr hs, st')"
  shows "sorted hs"
proof -
  obtain f s where st: "st = (f, s)" by (cases st)
  obtain fh f' where fts: "FTS_Search P u d (r_ws r) query (poolSize r) f = (fh, f')"
    by (cases "FTS_Search P u d (r_ws r) query (poolSize r) f")
  obtain v s' where sem: "semantic r query s = (v, s')"
    by (cases "semantic r query s")
  show ?thesis
  proof (cases mode)
    case ModeHybrid
    then show ?thesis
      using assms(2) by (cases v) (auto simp: Search_def st fts sem Let_def reciprocalRankFusion_def
          ReciprocalRankFusionN_def intro!: sorted_CollapseByDoc)
  next
    case ModeSemantic
    then show ?thesis
      using assms(2) sem
      by (cases v)
        (auto simp: Search_def st intro!: sorted_CollapseByDoc sorted_filterHits intro: sorted_semantic [OF vec])
  next
    case ModeKeyword
    then show ?thesis
      using assms(2) sorted_FTS_Search [OF fts] by (auto simp: Search_def st fts sorted_CollapseByDoc sorted_filterHits)
  qed
qed

lemma sorted_failed_attempt:
  assumes "\<And>v k. sorted (r_vec r v k)"
    and "attemptRerank P u srt d r query k mode dof rr chunkText pool st = (Inr (hs, Some fail), st')"
  shows "sorted hs"
proof -
  obtain res f s where S: "Search P u d r query pool mode dof st = (res, f, s)"
    by (metis prod.collapse)
  then obtain all where res: "res = Inr all" and ne: "all \<noteq> []"
    using assms(2) by (cases res) (auto simp: attemptRerank_def split: if_splits)
  obtain scores err s' where rr: "rr_score rr query (map (\<lambda>h. chunkText (ChunkID h)) all) s = ((scores, err), s')"
    by (metis prod.collapse)
  have "hs = (if k < int (length all) then take (nat k) all else all)"
    using assms(2) ne by (auto simp: attemptRerank_def S res rr Let_def split: if_splits)
  then show ?thesis
    using sorted_Search [OF assms(1) S [unfolded res]] by (simp add: sorted_wrt_take)
qed

lemma sorted_SearchWithRerank:
  assumes "\<And>v k. sorted (r_vec r v k)"
    and "SearchWithRerank P u srt d r query k mode dof reranker chunkText st = (Inr (hs, failed), st')"
    and "reranker = None \<or> failed"
  shows "sorted hs"
proof (cases reranker)
  case None
  obtain res st1 where S: "Search P u d r query k mode dof st = (res, st1)"
    by (metis prod.collapse)
  then show ?thesis
    using assms(2) None sorted_Search [OF assms(1), of P u d query k mode dof st hs st1]
    by (cases res) (auto simp: SearchWithRerank_def)
next
  case (Some rr)
  then have "failed" using assms(3) by simp
  then show ?thesis
    by (cases rule: SearchWithRerank_attempt [OF assms(2) [unfolded Some] refl])
      (auto dest: sorted_failed_attempt [OF assms(1)])
qed

text \<open>The best score first, also when the scores are those of the reranker.\<close>

definition best_first :: "hit list \<Rightarrow> bool" where
  "best_first hs \<longleftrightarrow> sorted_wrt (\<lambda>a b. Score b \<le> Score a) hs"

lemma sorted_best_first: "sorted hs \<Longrightarrow> best_first hs"
  unfolding best_first_def by (erule sorted_wrt_mono_rel [rotated]) (auto simp: less_eq_hit_def less_hit_def)

lemma best_first_attempt:
  assumes "\<And>v k. sorted (r_vec r v k)" and "slice_sort srt"
    and "attemptRerank P u srt d r query k mode dof rr chunkText pool st = (Inr (hs, fail), st')"
  shows "best_first hs"
proof (cases fail)
  case (Some f)
  then show ?thesis
    using sorted_best_first [OF sorted_failed_attempt [OF assms(1) assms(3) [unfolded Some]]] by simp
next
  case None
  obtain res f s where S: "Search P u d r query pool mode dof st = (res, f, s)"
    by (metis prod.collapse)
  then obtain all where res: "res = Inr all"
    using assms(3) by (cases res) (auto simp: attemptRerank_def)
  obtain scores err s' where rr: "rr_score rr query (map (\<lambda>h. chunkText (ChunkID h)) all) s = ((scores, err), s')"
    by (metis prod.collapse)
  have "hs = [] \<or> hs = map (\<lambda>(h, sc). Hit (ChunkID h) sc) (take (nat k) (srt (zip all scores)))"
    using assms(3) None by (auto simp: attemptRerank_def S res rr Let_def split: if_splits)
  moreover have "sorted_wrt (\<lambda>a b. snd b \<le> snd a) (srt (zip all scores))"
    using assms(2) by (simp add: slice_sort_def)
  ultimately show ?thesis
    by (auto simp: best_first_def sorted_wrt_map case_prod_unfold sorted_wrt_take)
qed

lemma best_first_SearchWithRerank:
  assumes "\<And>v k. sorted (r_vec r v k)" and "slice_sort srt"
    and "SearchWithRerank P u srt d r query k mode dof reranker chunkText st = (Inr (hs, failed), st')"
  shows "best_first hs"
proof (cases reranker)
  case None
  then show ?thesis
    using sorted_best_first sorted_SearchWithRerank [OF assms(1,3)] by simp
next
  case (Some rr)
  show ?thesis
    by (cases rule: SearchWithRerank_attempt [OF assms(3) [unfolded Some] refl])
      (auto dest: best_first_attempt [OF assms(1,2)])
qed

section \<open>From ranked hits to the answer\<close>

definition rescale :: "real \<Rightarrow> query_hit \<Rightarrow> query_hit" where
  "rescale t h = h\<lparr>qh_Score := qh_Score h / t\<rparr>"

lemma rescale_simps [simp]:
  "qh_ChunkID (rescale t h) = qh_ChunkID h" "qh_DocumentID (rescale t h) = qh_DocumentID h"
  "qh_Score (rescale t h) = qh_Score h / t" "qh_Content (rescale t h) = qh_Content h"
  "qh_NearDup (rescale t h) = qh_NearDup h" "rescale 1 h = h"
  by (simp_all add: rescale_def)

text \<open>The final list is a part of the ranked one in the same order, with scores divided by a constant.\<close>

definition best_score :: "query_hit list \<Rightarrow> real" where
  "best_score out = (case out of [] \<Rightarrow> 1 | h # _ \<Rightarrow> if 0 < qh_Score h then qh_Score h else 1)"

lemma map_rescale_1 [simp]: "map (rescale 1) out = out"
  by (simp add: map_idI)

lemma normalise_rescale: "normalise_scores out = map (rescale (best_score out)) out"
  by (cases out) (simp_all add: normalise_scores_def best_score_def rescale_def [abs_def])

lemma finish_subseq:
  "subseq (finish_hits req nrm out) (map (rescale (if nrm then best_score out else 1)) out)"
proof -
  have thr: "subseq (above_threshold t xs) xs" for t xs
    by (simp add: above_threshold_def)
  have dd: "subseq (dedup_loop [] xs) xs" for xs
    using dedup_loop_append [of "[]" xs] by auto
  show ?thesis
    using thr dd subseq_order.trans [OF dd thr]
    by (simp add: finish_hits_def normalise_rescale Let_def)
qed

lemma finish_threshold:
  assumes "h \<in> set (finish_hits req nrm out)" and "0 < rq_Threshold req"
  shows "rq_Threshold req \<le> qh_Score h"
proof -
  have sub: "set (dedup_loop [] xs) \<subseteq> set xs" for xs
    using dedup_loop_append [of "[]" xs] by (auto dest: list_emb_set)
  have "h \<in> set (above_threshold (rq_Threshold req) (if nrm then normalise_scores out else out))"
    using assms(1) sub by (auto simp: finish_hits_def Let_def split: if_splits)
  then show ?thesis
    using assms(2) by (simp add: above_threshold_def)
qed

lemma finish_dedup:
  "rq_Dedup req \<Longrightarrow> sorted_wrt (\<lambda>a b. \<not> near_siblings b a) (finish_hits req nrm out)"
  by (simp add: finish_hits_def Let_def dedup_loop_pairwise)

lemma build_hit_Some:
  assumes "lookupChunk (ge_P E) (ge_chunk E) d ws (ChunkID h) = Some c"
  shows "\<exists>x. build_hit E ws d h = [x] \<and> qh_ChunkID x = ChunkID h \<and> qh_DocumentID x = c_DocumentID c \<and>
    qh_Score x = Score h \<and> qh_Content x = c_Content c \<and> qh_NearDup x = c_NearDup c \<and> qh_Poisoning x = c_Poisoning c"
  by (simp add: build_hit_def assms Let_def)

lemma build_hit_None: "lookupChunk (ge_P E) (ge_chunk E) d ws (ChunkID h) = None \<Longrightarrow> build_hit E ws d h = []"
  by (simp add: build_hit_def)

text \<open>A hit of the answer shows the chunk record it names.\<close>

definition shows_chunk :: "('db, 's) engine_env \<Rightarrow> ws \<Rightarrow> 'db \<Rightarrow> query_hit \<Rightarrow> chunk \<Rightarrow> bool" where
  "shows_chunk E ws d h c \<longleftrightarrow>
     lookupChunk (ge_P E) (ge_chunk E) d ws (qh_ChunkID h) = Some c \<and> qh_DocumentID h = c_DocumentID c \<and>
     qh_Content h = c_Content c \<and> qh_NearDup h = c_NearDup c"

lemma shows_chunk_rescale [simp]: "shows_chunk E ws d (rescale t h) c = shows_chunk E ws d h c"
  by (simp add: shows_chunk_def)

lemma built_shows:
  assumes "x \<in> set (concat (map (build_hit E ws d) hs))"
  shows "\<exists>h \<in> set hs. \<exists>c. qh_ChunkID x = ChunkID h \<and> qh_Score x = Score h \<and> shows_chunk E ws d x c"
proof -
  obtain h where h: "h \<in> set hs" "x \<in> set (build_hit E ws d h)"
    using assms by auto
  then obtain c where "lookupChunk (ge_P E) (ge_chunk E) d ws (ChunkID h) = Some c"
    by (cases "lookupChunk (ge_P E) (ge_chunk E) d ws (ChunkID h)") (simp_all add: build_hit_None)
  then show ?thesis
    using h build_hit_Some [of E d ws h c] by (auto simp: shows_chunk_def)
qed

lemma built_documents:
  assumes "\<And>cid c. lookupChunk (ge_P E) (ge_chunk E) d ws cid = Some c \<Longrightarrow> dof cid = c_DocumentID c"
  shows "map qh_DocumentID (concat (map (build_hit E ws d) hs)) =
    map (\<lambda>h. dof (ChunkID h)) (filter (\<lambda>h. lookupChunk (ge_P E) (ge_chunk E) d ws (ChunkID h) \<noteq> None) hs)"
proof (induction hs)
  case (Cons h hs)
  show ?case
  proof (cases "lookupChunk (ge_P E) (ge_chunk E) d ws (ChunkID h)")
    case None
    then show ?thesis using Cons by (simp add: build_hit_None)
  next
    case (Some c)
    then show ?thesis using Cons build_hit_Some [OF Some] assms [OF Some] by auto
  qed
qed simp

lemma built_scores:
  assumes "best_first hs"
  shows "sorted_wrt (\<lambda>a b. qh_Score b \<le> qh_Score a) (concat (map (build_hit E ws d) hs))"
  using assms unfolding best_first_def
proof (induction hs)
  case (Cons h hs)
  have later: "Score g \<le> Score h" if "g \<in> set hs" for g
    using Cons.prems that by simp
  have "\<forall>x \<in> set (concat (map (build_hit E ws d) hs)). qh_Score x \<le> Score h"
    using built_shows [of _ E ws d hs] later by fastforce
  moreover have "\<forall>x \<in> set (build_hit E ws d h). qh_Score x = Score h" "length (build_hit E ws d h) \<le> 1"
    by (cases "lookupChunk (ge_P E) (ge_chunk E) d ws (ChunkID h)"; simp add: build_hit_def Let_def)+
  ultimately show ?case
    using Cons by (cases "build_hit E ws d h") (auto simp: sorted_wrt_append)
qed simp

section \<open>Answers\<close>

text \<open>What a request asks of a chunk: that it is not withheld, and that its document passes the filter.\<close>

definition answers_request :: "('db, 's) engine_env \<Rightarrow> query_request \<Rightarrow> ws \<Rightarrow> 'db \<Rightarrow> chunk \<Rightarrow> bool" where
  "answers_request E req ws d c \<longleftrightarrow>
     (EffectivePoisoningEnabled (ge_cfg E) \<and> \<not> rq_IncludeQuarantined req \<longrightarrow>
        (\<forall>v. c_Poisoning c = Some v \<longrightarrow> \<not> Quarantined (pv_Level v))) \<and>
     (\<forall>f. rq_Filter req = Some f \<longrightarrow> \<not> Filter_Empty f \<longrightarrow>
        (\<exists>doc. lookupDoc (ge_P E) (ge_doc E) d ws (c_DocumentID c) = Some doc \<and>
           Filter_Matches (ge_glob E) (ge_fold E) f (d_FilePath doc) (d_FileType doc)
             (tagsForDoc (d_Metadata doc) (d_Enrichment doc))))"

lemma query_keep_answers:
  assumes "case query_keep E req ws d of None \<Rightarrow> True | Some kp \<Rightarrow> kp cid"
    and "lookupChunk (ge_P E) (ge_chunk E) d ws cid = Some c"
  shows "answers_request E req ws d c"
  using assms(1)
  by (cases "rq_Filter req"; cases "c_Poisoning c"; cases "EffectivePoisoningEnabled (ge_cfg E) \<and> \<not> rq_IncludeQuarantined req";
      cases "lookupDoc (ge_P E) (ge_doc E) d ws (c_DocumentID c)")
    (auto simp: query_keep_def answers_request_def assms(2) Let_def split: if_splits)

lemma kept_query_retrieval:
  "Retrieval.kept (query_retrieval E rs ws vec d) cid \<longleftrightarrow>
     (case query_keep E (rs_req rs) ws d of None \<Rightarrow> True | Some kp \<Rightarrow> kp cid)"
  by (auto simp: Retrieval.kept_def query_retrieval_def SetFilter_def SetPoolSize_def SetRRFK_def EnableRerankRetry_def
      NewRetrieval_def Let_def split: option.split)

lemma vec_query_retrieval: "sorted (r_vec (query_retrieval E rs ws vec d) q k)"
  by (auto simp: query_retrieval_def SetFilter_def SetPoolSize_def SetRRFK_def EnableRerankRetry_def
      NewRetrieval_def Let_def split: option.split)

lemma resolve_request_facts:
  assumes "resolve_request E req = Inr rs"
  shows "0 < rs_effK rs" "rs_effK rs \<le> 100" "rq_K (rs_req rs) = rs_effK rs"
    "rq_Threshold (rs_req rs) = rq_Threshold req" "rq_Dedup (rs_req rs) = rq_Dedup req"
    "rq_Vaults (rs_req rs) = rq_Vaults req" "rq_NoCache (rs_req rs) = rq_NoCache req"
proof -
  obtain q qs where T: "Transform (ge_u E) (rq_Query req) = Inr (q # qs)" "q \<noteq> []"
    using assms by (auto simp: resolve_request_def split: sum.splits list.splits if_splits)
  obtain k c where K: "resolve_K (ge_cfg E) (req\<lparr>rq_Query := q\<rparr>) = (k, c)"
    by (metis prod.collapse)
  then have "0 < k \<and> k \<le> 100"
    by (auto simp: resolve_K_def Let_def split: if_splits option.splits prod.splits)
  then show "0 < rs_effK rs" "rs_effK rs \<le> 100" "rq_K (rs_req rs) = rs_effK rs"
    "rq_Threshold (rs_req rs) = rq_Threshold req" "rq_Dedup (rs_req rs) = rq_Dedup req"
    "rq_Vaults (rs_req rs) = rq_Vaults req" "rq_NoCache (rs_req rs) = rq_NoCache req"
    using assms T K by (auto simp: resolve_request_def Let_def)
qed

text \<open>The steps of \<open>query_compute\<close>.\<close>

lemma query_computeE:
  assumes "query_compute E rs ws e = (Inr res, e')"
  obtains fts vec e1 s hs failed fts' c' s' where
    "engine_indexes E ws e = ((fts, vec), e1)"
    and "checkEmbeddingMismatch E (rq_Query (rs_req rs)) (CorpusProfile (ge_P E) (ge_record E) ws (pdb (en_db e1))) (en_ext e1) = (None, s)"
    and "SearchWithRerank (ge_P E) (ge_u E) (ge_sort E) (pdb (en_db e1)) (query_retrieval E rs ws vec (pdb (en_db e1)))
        (rq_Query (rs_req rs)) (rq_K (rs_req rs)) (ParseMode (rq_Mode (rs_req rs)))
        (Some (docOf (ge_P E) (ge_chunk E) (pdb (en_db e1)) ws)) (map_option beside (query_reranker E (rs_req rs)))
        (chunk_content E ws (pdb (en_db e1))) (fts, (en_embeds e1, s)) = (Inr (hs, failed), (fts', (c', s')))"
    and "pdb (en_db e') = pdb (en_db e1)"
    and "qr_Hits res = add_context (\<lambda>cid. expandContext E (pdb (en_db e1)) ws cid (rq_ContextWindow (rs_req rs))) (rs_req rs)
        (finish_hits (rs_req rs) (query_reranker E (rs_req rs) = None \<or> failed) (concat (map (build_hit E ws (pdb (en_db e1))) hs)))"
    and "qr_RerankFailed res = failed"
proof -
  obtain fts vec e1 where 1: "engine_indexes E ws e = ((fts, vec), e1)"
    by (metis prod.collapse)
  let ?d = "pdb (en_db e1)"
  obtain err s where 2: "checkEmbeddingMismatch E (rq_Query (rs_req rs)) (CorpusProfile (ge_P E) (ge_record E) ws ?d) (en_ext e1) = (err, s)"
    by (metis prod.collapse)
  have none: "err = None"
    using assms by (cases err) (simp_all add: query_compute_def 1 2 Let_def)
  obtain r fts' c' s' where 3: "SearchWithRerank (ge_P E) (ge_u E) (ge_sort E) ?d (query_retrieval E rs ws vec ?d)
        (rq_Query (rs_req rs)) (rq_K (rs_req rs)) (ParseMode (rq_Mode (rs_req rs)))
        (Some (docOf (ge_P E) (ge_chunk E) ?d ws)) (map_option beside (query_reranker E (rs_req rs)))
        (chunk_content E ws ?d) (fts, (en_embeds e1, s)) = (r, (fts', (c', s')))"
    by (metis prod.collapse)
  show thesis
  proof (cases r)
    case (Inl err')
    then show thesis using assms by (simp add: query_compute_def 1 2 none 3 Let_def)
  next
    case (Inr p)
    obtain hs failed where p: "p = (hs, failed)" by (cases p)
    show thesis
      by (rule that [OF 1 2 [unfolded none] 3 [unfolded Inr p]])
        (use assms in \<open>auto simp: query_compute_def 1 2 none 3 Inr p Let_def count_pool_def\<close>)
  qed
qed

lemma distinct_subseq: "subseq xs ys \<Longrightarrow> distinct ys \<Longrightarrow> distinct xs"
  by (induction rule: list_emb.induct) (auto dest: list_emb_set)

lemma add_context_maps:
  "map qh_DocumentID (add_context ex req out) = map qh_DocumentID out"
  "map qh_Score (add_context ex req out) = map qh_Score out"
  "length (add_context ex req out) = length out"
  "h \<in> set (add_context ex req out) \<Longrightarrow> \<exists>g \<in> set out. qh_Score h = qh_Score g \<and> (\<forall>c. shows_chunk E ws d h c = shows_chunk E ws d g c)"
  "sorted_wrt (\<lambda>a b. \<not> near_siblings b a) (add_context ex req out) = sorted_wrt (\<lambda>a b. \<not> near_siblings b a) out"
  by (auto simp: add_context_def comp_def shows_chunk_def sorted_wrt_map near_siblings_def split: if_splits)

text \<open>The three parts of the next property, for any ranked list that the search may return.\<close>

lemma finished_documents:
  assumes "good_hits r k (Some dof) hs" and "0 \<le> k"
    and "\<And>cid c. lookupChunk (ge_P E) (ge_chunk E) d ws cid = Some c \<Longrightarrow> dof cid = c_DocumentID c"
    and "fin = finish_hits req nrm (concat (map (build_hit E ws d) hs))"
  shows "int (length fin) \<le> k" "distinct (map qh_DocumentID fin)"
proof -
  let ?out = "concat (map (build_hit E ws d) hs)"
  have sub: "subseq fin (map (rescale (if nrm then best_score ?out else 1)) ?out)"
    unfolding assms(4) by (rule finish_subseq)
  have "length ?out \<le> length hs"
    by (induction hs) (auto simp: build_hit_def Let_def split: option.split)
  then show "int (length fin) \<le> k"
    using list_emb_length [OF sub] assms(1,2) by (simp add: good_hits_def)
  have "map qh_DocumentID ?out =
      map (\<lambda>h. dof (ChunkID h)) (filter (\<lambda>h. lookupChunk (ge_P E) (ge_chunk E) d ws (ChunkID h) \<noteq> None) hs)"
    by (rule built_documents) (rule assms(3))
  then have "distinct (map qh_DocumentID ?out)"
    using assms(1) by (simp add: good_hits_def one_per_doc_def distinct_map_filter)
  then show "distinct (map qh_DocumentID fin)"
    using subseq_map [OF sub, of qh_DocumentID] by (auto simp: comp_def dest: distinct_subseq)
qed

lemma finished_answers:
  assumes "good_hits (query_retrieval E rs ws vec d) k dof hs"
    and "h \<in> set (finish_hits req nrm (concat (map (build_hit E ws d) hs)))"
  shows "\<exists>c. shows_chunk E ws d h c \<and> answers_request E (rs_req rs) ws d c \<and>
    (0 < rq_Threshold req \<longrightarrow> rq_Threshold req \<le> qh_Score h)"
proof -
  obtain t where "h \<in> set (map (rescale t) (concat (map (build_hit E ws d) hs)))"
    using list_emb_set [OF finish_subseq assms(2)] by metis
  then obtain x where x: "h = rescale t x" "x \<in> set (concat (map (build_hit E ws d) hs))" by auto
  then obtain g c where g: "g \<in> set hs" "qh_ChunkID x = ChunkID g" "shows_chunk E ws d x c"
    using built_shows [OF x(2)] by blast
  have "Retrieval.kept (query_retrieval E rs ws vec d) (ChunkID g)"
    using assms(1) g(1) by (auto simp: good_hits_def ids_def)
  then have "answers_request E (rs_req rs) ws d c"
    using query_keep_answers g(2,3) unfolding kept_query_retrieval shows_chunk_def by metis
  then show ?thesis
    using g(3) x(1) finish_threshold [OF assms(2)] by auto
qed

lemma sorted_wrt_subseq: "subseq xs ys \<Longrightarrow> sorted_wrt R ys \<Longrightarrow> sorted_wrt R xs"
  by (induction rule: list_emb.induct) (auto dest: list_emb_set)

lemma finished_order:
  assumes "best_first hs" and "fin = finish_hits req nrm (concat (map (build_hit E ws d) hs))"
  shows "sorted_wrt (\<lambda>x y. y \<le> x) (map qh_Score fin)"
proof -
  let ?out = "concat (map (build_hit E ws d) hs)"
  define t where "t = (if nrm then best_score ?out else 1)"
  have "0 < t"
    by (auto simp: t_def best_score_def split: list.split)
  then have "sorted_wrt (\<lambda>x y. y \<le> x) (map qh_Score (map (rescale t) ?out))"
    unfolding sorted_wrt_map rescale_simps
    by (intro sorted_wrt_mono_rel [OF _ built_scores [OF assms(1)]]) (simp add: divide_right_mono)
  moreover have "subseq (map qh_Score fin) (map qh_Score (map (rescale t) ?out))"
    unfolding assms(2) t_def by (rule subseq_map [OF finish_subseq])
  ultimately show ?thesis
    using sorted_wrt_subseq by blast
qed

text \<open>A normalised answer starts with the score 1, unless no score was positive.\<close>

lemma finished_best:
  assumes "best_first hs" and "fin = finish_hits req True (concat (map (build_hit E ws d) hs))"
  shows "fin = [] \<or> qh_Score (hd fin) = 1 \<or> (\<forall>h \<in> set fin. qh_Score h \<le> 0)"
proof -
  define out where "out = concat (map (build_hit E ws d) hs)"
  have order: "sorted_wrt (\<lambda>a b. qh_Score b \<le> qh_Score a) out"
    unfolding out_def by (rule built_scores [OF assms(1)])
  define norm where "norm = map (rescale (best_score out)) out"
  have sub: "set fin \<subseteq> set norm"
    using finish_subseq [of req True out] by (auto simp: assms(2) out_def [symmetric] norm_def dest: list_emb_set)
  show ?thesis
  proof (cases "out \<noteq> [] \<and> 0 < qh_Score (hd out)")
    case True
    then obtain r rs where norm: "norm = r # rs" and r: "qh_Score r = 1" "r = rescale (best_score out) (hd out)"
      by (cases out) (auto simp: norm_def best_score_def)
    have le1: "qh_Score h \<le> 1" if "h \<in> set norm" for h
      using that order True by (cases out) (auto simp: norm_def best_score_def)
    define o2 where "o2 = above_threshold (rq_Threshold req) norm"
    have fin: "fin = (if rq_Dedup req then dedup_loop [] o2 else o2)"
      by (simp add: assms(2) out_def [symmetric] finish_hits_def normalise_rescale norm_def o2_def)
    have "o2 = [] \<or> (\<exists>more. o2 = r # more)"
    proof (cases "0 < rq_Threshold req \<and> \<not> rq_Threshold req \<le> 1")
      case True
      then have "o2 = []"
        using le1 by (force simp: o2_def above_threshold_def filter_empty_conv)
      then show ?thesis ..
    next
      case False
      then show ?thesis
        by (auto simp: o2_def above_threshold_def norm r(1))
    qed
    moreover have "\<exists>more'. dedup_loop [] (r # more) = r # more'" for more
      using dedup_loop_append [of "[r]" more] by auto
    ultimately have "fin = [] \<or> (\<exists>more. fin = r # more)"
      unfolding fin by (cases "rq_Dedup req") auto
    then show ?thesis
      using r(1) by auto
  next
    case False
    then have "\<forall>x \<in> set out. qh_Score x \<le> 0" "best_score out = 1"
      using order by (cases out; fastforce simp: best_score_def)+
    then show ?thesis
      using sub by (auto simp: norm_def)
  qed
qed

text \<open>C22: answers are sound. Every hit of a freshly computed answer shows a stored chunk of the vault that is not
  withheld for poisoning and whose document passes the filter of the request; its score reaches
  the threshold; no two hits belong to one document; with \<open>Dedup\<close> no two hits are near duplicates;
  there are at most as many as the effective depth, which is between 1 and 100. The scores come in
  descending order, reranked or not, and without a reranker, or when it failed, they are
  normalised: the first hit has the score 1, unless no score was positive.\<close>

theorem query_answers_sound:
  assumes "pebble (ge_P E) view" and "reliable (ge_P E)" and "slice_sort (ge_sort E)" and "is_ws ws"
    and "VaultKindRange PrefixChunk ws = Inr (lower, upper)" and "ids_match (ge_chunk E) (view (pdb (en_db e'))) ws"
    and "resolve_request E req = Inr rs" and "query_compute E rs ws e = (Inr res, e')"
  shows "int (length (qr_Hits res)) \<le> rs_effK rs \<and> 0 < rs_effK rs \<and> rs_effK rs \<le> 100 \<and>
    distinct (map qh_DocumentID (qr_Hits res)) \<and>
    (\<forall>h \<in> set (qr_Hits res). \<exists>c. shows_chunk E ws (pdb (en_db e')) h c \<and>
       answers_request E (rs_req rs) ws (pdb (en_db e')) c \<and>
       (0 < rq_Threshold req \<longrightarrow> rq_Threshold req \<le> qh_Score h)) \<and>
    (rq_Dedup req \<longrightarrow> sorted_wrt (\<lambda>a b. \<not> near_siblings b a) (qr_Hits res)) \<and>
    sorted_wrt (\<lambda>x y. y \<le> x) (map qh_Score (qr_Hits res)) \<and>
    (query_reranker E (rs_req rs) = None \<or> qr_RerankFailed res \<longrightarrow>
       qr_Hits res = [] \<or> qh_Score (hd (qr_Hits res)) = 1 \<or> (\<forall>h \<in> set (qr_Hits res). qh_Score h \<le> 0))"
proof -
  obtain fts vec e1 s hs failed fts' c' s' where
    "engine_indexes E ws e = ((fts, vec), e1)"
    and "checkEmbeddingMismatch E (rq_Query (rs_req rs)) (CorpusProfile (ge_P E) (ge_record E) ws (pdb (en_db e1))) (en_ext e1) = (None, s)"
    and search: "SearchWithRerank (ge_P E) (ge_u E) (ge_sort E) (pdb (en_db e1)) (query_retrieval E rs ws vec (pdb (en_db e1)))
        (rq_Query (rs_req rs)) (rq_K (rs_req rs)) (ParseMode (rq_Mode (rs_req rs)))
        (Some (docOf (ge_P E) (ge_chunk E) (pdb (en_db e1)) ws)) (map_option beside (query_reranker E (rs_req rs)))
        (chunk_content E ws (pdb (en_db e1))) (fts, (en_embeds e1, s)) = (Inr (hs, failed), (fts', (c', s')))"
    and d: "pdb (en_db e') = pdb (en_db e1)"
    and hits: "qr_Hits res = add_context (\<lambda>cid. expandContext E (pdb (en_db e1)) ws cid (rq_ContextWindow (rs_req rs))) (rs_req rs)
        (finish_hits (rs_req rs) (query_reranker E (rs_req rs) = None \<or> failed) (concat (map (build_hit E ws (pdb (en_db e1))) hs)))"
    and failed: "qr_RerankFailed res = failed"
    by (rule query_computeE [OF assms(8)])
  note rs = resolve_request_facts [OF assms(7)]
  let ?d = "pdb (en_db e')" and ?nrm = "query_reranker E (rs_req rs) = None \<or> failed"
  let ?ex = "\<lambda>cid. expandContext E ?d ws cid (rq_ContextWindow (rs_req rs))"
  define fin where fin: "fin = finish_hits (rs_req rs) ?nrm (concat (map (build_hit E ws ?d) hs))"
  have ctx: "qr_Hits res = add_context ?ex (rs_req rs) fin"
    using hits d fin by simp
  note from_fin = add_context_maps(4) [where E = E and ws = ws and d = ?d and out = fin and req = "rs_req rs" and ex = ?ex, folded ctx]
  have good: "good_hits (query_retrieval E rs ws vec ?d) (rs_effK rs) (Some (docOf (ge_P E) (ge_chunk E) ?d ws)) hs"
    using SearchWithRerank_good [OF assms(3) _ search] rs(1,3) d by simp
  have "0 \<le> rs_effK rs" using rs(1) by simp
  note docs = finished_documents [OF good this docOf_lookup [OF assms(1,2,6,4,5)] fin]
  have "\<exists>c. shows_chunk E ws ?d h c \<and> answers_request E (rs_req rs) ws ?d c \<and>
      (0 < rq_Threshold req \<longrightarrow> rq_Threshold req \<le> qh_Score h)" if "h \<in> set (qr_Hits res)" for h
    using from_fin [OF that] finished_answers [OF good] rs(4) unfolding fin by metis
  moreover have best: "best_first hs"
    by (rule best_first_SearchWithRerank [OF vec_query_retrieval assms(3) search])
  moreover have "qr_Hits res = [] \<or> qh_Score (hd (qr_Hits res)) = 1 \<or> (\<forall>h \<in> set (qr_Hits res). qh_Score h \<le> 0)" if ?nrm
  proof -
    have "fin = finish_hits (rs_req rs) True (concat (map (build_hit E ws ?d) hs))"
      using that by (simp add: fin)
    note first = finished_best [OF best this]
    have "qr_Hits res \<noteq> [] \<Longrightarrow> qh_Score (hd (qr_Hits res)) = qh_Score (hd fin)"
      using add_context_maps(2,3) [of ?ex "rs_req rs" fin] unfolding ctx
      by (metis hd_map length_0_conv)
    then show ?thesis
      using first from_fin by (metis add_context_maps(3) ctx length_0_conv)
  qed
  moreover have "rq_Dedup req \<Longrightarrow> sorted_wrt (\<lambda>a b. \<not> near_siblings b a) (qr_Hits res)"
    unfolding ctx add_context_maps(5) fin using rs(5) by (intro finish_dedup) simp
  ultimately show ?thesis
    using docs rs(1,2) finished_order [OF best fin] unfolding failed ctx add_context_maps(1,2,3) by blast
qed

section \<open>A concrete query\<close>

definition demo_request :: query_request where
  "demo_request =
     \<lparr>rq_Query = ''hi'', rq_K = 5, rq_Mode = ''semantic'', rq_NoRerank = False, rq_Threshold = 0, rq_RRFK = 0,
      rq_PoolSize = 0, rq_Filter = None, rq_ContextWindow = 0, rq_NoCache = False, rq_IncludeQuarantined = False,
      rq_Dedup = False, rq_Vaults = []\<rparr>"

definition demo_resolved :: resolved where
  "demo_resolved = \<lparr>rs_req = demo_request, rs_effK = 5, rs_effRRFK = 60, rs_effPool = 60, rs_effMode = ''semantic''\<rparr>"

lemma demo_resolve: "resolve_request demo_engine_env demo_request = Inr demo_resolved"
proof -
  have "Transform ascii_tables ''hi'' = Inr [''hi'']"
    by code_simp
  then show ?thesis
    by (simp add: resolve_request_def demo_engine_env_def demo_request_def demo_resolved_def resolve_K_def Let_def
        EffectiveRRFK_def EffectivePoolSize_def DefaultRRFK_def DefaultPoolSize_def Default_def positive_or_def)
qed

abbreviation demo_vec :: vector where
  "demo_vec \<equiv> Vec_Add ''b'' [1] (Vec_Add ''a'' [1] NewVector)"

lemma demo_vec_query: "Vec_Query [1] 60 demo_vec = [Hit ''a'' 1, Hit ''b'' 1]"
  by (simp add: Vec_Query_def Vec_Add_def NewVector_def cosine_def topk_def less_eq_hit_def less_hit_def)

lemma demo_lookups:
  "lookupChunk (ge_P demo_engine_env) (ge_chunk demo_engine_env) demo_data demo_vault ''a'' = Some (demo_part ''a'')"
  "lookupChunk (ge_P demo_engine_env) (ge_chunk demo_engine_env) demo_data demo_vault ''b'' = Some (demo_part ''b'')"
  by (simp_all add: lookupChunk_def DB_Get_def demo_engine_env_def mem_pebble_def demo_data_def
        ChunkKey_def vaultScopedString_def vaultScoped_def)

lemma demo_docs:
  "docOf (ge_P demo_engine_env) (ge_chunk demo_engine_env) demo_data demo_vault ''a'' = ''da''"
  "docOf (ge_P demo_engine_env) (ge_chunk demo_engine_env) demo_data demo_vault ''b'' = ''db''"
proof -
  have *: "docOf mem_pebble \<lparr>cd_marshal = (\<lambda>x. Some (str_bytes (c_ID x))), cd_unmarshal = (\<lambda>b. Some (demo_part (bytes_str b)))\<rparr> demo_data demo_vault ''a'' = ''da''"
   "docOf mem_pebble \<lparr>cd_marshal = (\<lambda>x. Some (str_bytes (c_ID x))), cd_unmarshal = (\<lambda>b. Some (demo_part (bytes_str b)))\<rparr> demo_data demo_vault ''b'' = ''db''"
    by code_simp+
  show "docOf (ge_P demo_engine_env) (ge_chunk demo_engine_env) demo_data demo_vault ''a'' = ''da''"
  "docOf (ge_P demo_engine_env) (ge_chunk demo_engine_env) demo_data demo_vault ''b'' = ''db''"
   using * by (simp_all add: demo_engine_env_def)
qed

lemma demo_guard:
  "checkEmbeddingMismatch demo_engine_env q (CorpusProfile (ge_P demo_engine_env) (ge_record demo_engine_env) demo_vault demo_data) () = (None, ())"
proof -
  have "CorpusProfile mem_pebble \<lparr>cd_marshal = (\<lambda>x. Some []), cd_unmarshal = (\<lambda>b. Some \<lparr>er_Model = bytes_str b, er_Convention = [], er_Vector = [1]\<rparr>)\<rparr> demo_vault demo_data =
   \<lparr>ep_MajorityModel = ''m'', ep_MajorityDim = 1, ep_MajorityConvention = [], ep_ModelCounts = [(''m'', 2)],
      ep_DimCounts = [(1, 2)], ep_ConventionCounts = [([], 2)], ep_Total = 2, ep_Consistent = True\<rparr>"
    by code_simp
  then show ?thesis
    by (simp add: checkEmbeddingMismatch_def demo_engine_env_def Config_Prefixer_def config_Prefixer_def ParsePrefixMode_def Convention_def
        px_resolve_def NewPrefixer_def no_convention_def Default_def Let_def)
qed

lemma demo_embed: "\<exists>c'. queryEmbed demo_engine_env demo_vault [''hi''] (NewLRU 512, ()) = (Inr [[1]], (c', ()))"
  by (simp add: queryEmbed_def Let_def LRU_Enabled_def NewLRU_def LRU_Get_def demo_engine_env_def Config_Prefixer_def config_Prefixer_def
     ParsePrefixMode_def Default_def ModeOff_plain)

lemma demo_search:
  "\<exists>c'. SearchWithRerank (ge_P demo_engine_env) (ge_u demo_engine_env) (ge_sort demo_engine_env) demo_data
     (query_retrieval demo_engine_env demo_resolved demo_vault demo_vec demo_data) ''hi'' 5 ModeSemantic
     (Some (docOf (ge_P demo_engine_env) (ge_chunk demo_engine_env) demo_data demo_vault)) None txt
     (NewFTS, (NewLRU 512, ())) = (Inr ([Hit ''a'' 1, Hit ''b'' 1], False), (NewFTS, (c', ())))"
proof -
  let ?r = "query_retrieval demo_engine_env demo_resolved demo_vault demo_vec demo_data"
  have r: "r_embed ?r = Some (queryEmbed demo_engine_env demo_vault)" "poolSize ?r = 60" "r_vec ?r = (\<lambda>q k. Vec_Query q k demo_vec)"
    by (auto simp: query_retrieval_def SetFilter_def SetPoolSize_def SetRRFK_def EnableRerankRetry_def
      NewRetrieval_def Let_def demo_resolved_def split: option.split)
  have keep: "filterHits ?r [Hit ''a'' 1, Hit ''b'' 1] = [Hit ''a'' 1, Hit ''b'' 1]"
    by (auto simp: filterHits_def query_retrieval_def SetFilter_def SetPoolSize_def SetRRFK_def EnableRerankRetry_def query_keep_def
      NewRetrieval_def Let_def demo_resolved_def demo_request_def demo_lookups demo_part_def blank_chunk_def)
  obtain c' where "queryEmbed demo_engine_env demo_vault [''hi''] (NewLRU 512, ()) = (Inr [[1]], (c', ()))"
    using demo_embed by blast
  then show ?thesis
    by (simp add: SearchWithRerank_def Search_def semantic_def r demo_vec_query keep CollapseByDoc_def demo_docs)
qed

lemma demo_compute:
  assumes "en_fts e demo_vault = Some NewFTS" and "en_vec e demo_vault = Some demo_vec"
    and "pdb (en_db e) = demo_data" and "en_embeds e = NewLRU 512"
  shows "\<exists>res e'. query_compute demo_engine_env demo_resolved demo_vault e = (Inr res, e') \<and>
     pdb (en_db e') = demo_data \<and>
     map (\<lambda>h. (qh_ChunkID h, qh_Score h, qh_NearDup h)) (qr_Hits res) =
       [(''a'', 1, Some \<lparr>Siblings = [''b''], Similarity = 1\<rparr>), (''b'', 1, None)] \<and> \<not> qr_RerankFailed res"
proof -
  have idx: "engine_indexes demo_engine_env demo_vault e = ((NewFTS, demo_vec), e)"
    by (simp add: engine_indexes_def assms)
  have e: "en_ext e = ()" by simp
  have rs: "rq_Query (rs_req demo_resolved) = ''hi''" "rq_K (rs_req demo_resolved) = 5"
    "ParseMode (rq_Mode (rs_req demo_resolved)) = ModeSemantic" "query_reranker demo_engine_env (rs_req demo_resolved) = None"
    by (simp_all add: demo_resolved_def demo_request_def ParseMode_def query_reranker_def demo_engine_env_def Default_def)
  obtain c' where search: "SearchWithRerank (ge_P demo_engine_env) (ge_u demo_engine_env) (ge_sort demo_engine_env) demo_data
     (query_retrieval demo_engine_env demo_resolved demo_vault demo_vec demo_data) ''hi'' 5 ModeSemantic
     (Some (docOf (ge_P demo_engine_env) (ge_chunk demo_engine_env) demo_data demo_vault)) None
     (chunk_content demo_engine_env demo_vault demo_data) (NewFTS, (NewLRU 512, ())) =
     (Inr ([Hit ''a'' 1, Hit ''b'' 1], False), (NewFTS, (c', ())))"
    using demo_search by blast
  have a: "build_hit demo_engine_env demo_vault demo_data (Hit ''a'' 1) = [x] \<Longrightarrow>
     qh_ChunkID x = ''a'' \<and> qh_Score x = 1 \<and> qh_NearDup x = Some \<lparr>Siblings = [''b''], Similarity = 1\<rparr>" for x
    by (auto simp: build_hit_def demo_lookups Let_def demo_part_def)
  have b: "build_hit demo_engine_env demo_vault demo_data (Hit ''b'' 1) = [x] \<Longrightarrow>
     qh_ChunkID x = ''b'' \<and> qh_Score x = 1 \<and> qh_NearDup x = None" for x
    by (auto simp: build_hit_def demo_lookups Let_def demo_part_def blank_chunk_def)
  obtain x y where xy: "build_hit demo_engine_env demo_vault demo_data (Hit ''a'' 1) = [x]"
    "build_hit demo_engine_env demo_vault demo_data (Hit ''b'' 1) = [y]"
    by (simp add: build_hit_def demo_lookups Let_def)
  have fin: "finish_hits (rs_req demo_resolved) True [x, y] = [x, y]"
    using a [OF xy(1)] b [OF xy(2)]
    by (simp add: finish_hits_def normalise_rescale best_score_def above_threshold_def demo_resolved_def demo_request_def)
  have ctx: "add_context ex (rs_req demo_resolved) [x, y] = [x, y]" for ex
    by (simp add: add_context_def demo_resolved_def demo_request_def)
  show ?thesis
    using a [OF xy(1)] b [OF xy(2)]
    by (simp add: query_compute_def idx e assms demo_guard rs search xy fin ctx Let_def count_pool_def)
qed

lemma demo_engine_simps:
  "en_fts demo_engine demo_vault = Some NewFTS" "en_vec demo_engine demo_vault = Some demo_vec"
  "pdb (en_db demo_engine) = demo_data" "en_embeds demo_engine = NewLRU 512" "en_results demo_engine = NewLRU 256"
  "en_epoch demo_engine = Map.empty" "vaultPrefixCache (en_db demo_engine) = newVaultCache 10"
  by (simp_all add: demo_engine_def NewWithDB_def newQueryCaches_def Default_def DefaultQueryCacheEmbeddings_def
      DefaultQueryCacheResults_def)

lemma demo_ids: "ids_match (ge_chunk demo_engine_env) (map_of demo_data) demo_vault"
  by (auto simp: ids_match_def long_keys_def demo_data_def PrefixChunk_def EmbeddingKey_def ChunkKey_def DocumentKey_def
        vaultScopedString_def vaultScoped_def demo_engine_env_def demo_part_def blank_chunk_def split: if_splits)

theorem query_answers_sound_witness:
  "\<exists>res e'. query_compute demo_engine_env demo_resolved demo_vault demo_engine = (Inr res, e') \<and>
     map qh_ChunkID (qr_Hits res) = [''a'', ''b''] \<and> distinct (map qh_DocumentID (qr_Hits res))"
proof -
  obtain res e' where c: "query_compute demo_engine_env demo_resolved demo_vault demo_engine = (Inr res, e')"
    and e': "pdb (en_db e') = demo_data"
    and hits: "map (\<lambda>h. (qh_ChunkID h, qh_Score h, qh_NearDup h)) (qr_Hits res) =
       [(''a'', 1, Some \<lparr>Siblings = [''b''], Similarity = 1\<rparr>), (''b'', 1, None)]"
    using demo_compute [OF demo_engine_simps(1-4)] by (elim exE conjE) (rule that; assumption)
  have range: "VaultKindRange PrefixChunk demo_vault = Inr ([3, 0, 0, 0, 0, 0, 0, 0, 97], [3, 0, 0, 0, 0, 0, 0, 0, 98])"
    by code_simp
  have sort: "slice_sort (ge_sort demo_engine_env)"
    by (simp add: demo_engine_env_def demo_srt)
  have "ids_match (ge_chunk demo_engine_env) (map_of (pdb (en_db e'))) demo_vault"
    using demo_ids by (simp add: e')
  from query_answers_sound [OF demo_store sort _ range this demo_resolve c]
  have "distinct (map qh_DocumentID (qr_Hits res))"
    by (simp add: is_ws_def)
  moreover have "map fst (map (\<lambda>h. (qh_ChunkID h, qh_Score h, qh_NearDup h)) (qr_Hits res)) = [''a'', ''b'']"
    by (simp only: hits list.map fst_conv)
  ultimately show ?thesis
    using c by (auto simp: comp_def)
qed

section \<open>What the result cache serves\<close>

lemma LRU_Put_Get:
  assumes "lru_inv c" and "LRU_Enabled c"
  shows "fst (LRU_Get (LRU_Put c k v) k) = Some v"
proof -
  have cap: "0 < cap c" using assms(2) by (simp add: LRU_Enabled_def)
  note put = LRU_Put_refines [OF assms(1) cap, of k v]
  have "fst (LRU_Get (LRU_Put c k v) k) = fst (spec_get k (entries (LRU_Put c k v)))"
    using LRU_Get_refines(1) [OF put(2), of k] cap put(3) by (metis fst_conv)
  also have "\<dots> = Some v"
    using recent_spec_put_same [OF cap] lru_keys_distinct [OF put(2)] unfolding put(1)
    by (intro spec_get_hit) simp_all
  finally show ?thesis .
qed

lemma LRU_Get_Get:
  assumes "lru_inv c" and "LRU_Enabled c" and "fst (LRU_Get c k) = Some v"
  shows "fst (LRU_Get (snd (LRU_Get c k)) k) = Some v"
proof -
  have cap: "0 < cap c" using assms(2) by (simp add: LRU_Enabled_def)
  note get = LRU_Get_refines [OF assms(1) cap, of k]
  have k: "map_of (entries c) k = Some v"
    using get(1) assms(3) by (cases "map_of (entries c) k") auto
  have "fst (LRU_Get (snd (LRU_Get c k)) k) = fst (spec_get k (entries (snd (LRU_Get c k))))"
    using LRU_Get_refines(1) [OF get(2), of k] cap get(3) by (metis fst_conv)
  also have "entries (snd (LRU_Get c k)) = snd (spec_get k (entries c))"
    using get(1) by (metis snd_conv)
  finally show ?thesis
    using k by simp
qed

lemma cap_LRU [simp]: "cap (snd (LRU_Get c k)) = cap c" "LRU_Enabled (snd (LRU_Get c k)) = LRU_Enabled c"
  by (auto simp: LRU_Get_def LRU_Enabled_def MoveToFront_def Let_def split: option.splits)

lemma lru_inv_Get: "lru_inv c \<Longrightarrow> LRU_Enabled c \<Longrightarrow> lru_inv (snd (LRU_Get c k))"
  by (rule LRU_Get_refines(2)) (simp_all add: LRU_Enabled_def)

text \<open>A name just resolved is resolved to the same prefix again, whatever happened to the store.\<close>

lemma resolve_again:
  assumes "lru_inv (vaultPrefixCache (en_db e))" and "0 < cap (vaultPrefixCache (en_db e))"
    and "resolve_ws E vault e = (ws, e1)" and "vaultPrefixCache (en_db e') = vaultPrefixCache (en_db e1)"
  shows "\<exists>c. resolve_ws E vault e' = (ws, e'\<lparr>en_db := (en_db e')\<lparr>vaultPrefixCache := c\<rparr>\<rparr>)"
proof -
  let ?c = "vaultPrefixCache (en_db e)" and ?c1 = "vaultPrefixCache (en_db e1)"
  note get = vaultCache_Get_refines [OF assms(1), of vault]
  have "lru_inv ?c1 \<and> map_of (entries ?c1) vault = Some ws"
  proof (cases "fst (vaultCache_Get ?c vault)")
    case (Some w)
    then have k: "map_of (entries ?c) vault = Some w"
      using get(1) by (cases "map_of (entries ?c) vault") auto
    have "?c1 = snd (vaultCache_Get ?c vault)" "ws = w"
      using assms(3) Some by (auto simp: resolve_ws_def ResolveVaultPrefix_def split: prod.splits)
    moreover have "entries (snd (vaultCache_Get ?c vault)) = snd (spec_get vault (entries ?c))"
      using get(1) by (metis snd_conv)
    ultimately show ?thesis
      using get(2) k by simp
  next
    case None
    then have c1: "?c1 = vaultCache_Add ?c vault ws"
      using assms(3) by (auto simp: resolve_ws_def ResolveVaultPrefix_def Let_def split: prod.splits sum.splits option.splits if_splits)
    note add = vaultCache_Add_refines [OF assms(1), of vault ws]
    have "recent vault ws {} (entries ?c1)"
      unfolding c1 add(1) using assms(2) by (rule recent_spec_put_same)
    then have "(vault, ws) \<in> set (entries ?c1)"
      by (auto simp: recent_def)
    then show ?thesis
      using add(2) lru_keys_distinct [OF add(2)] by (simp add: c1)
  qed
  then have "fst (vaultCache_Get ?c1 vault) = Some ws"
    using vaultCache_Get_refines(1) [of ?c1 vault] by (cases "vaultCache_Get ?c1 vault") simp
  then show ?thesis
    by (auto simp: resolve_ws_def ResolveVaultPrefix_def assms(4) split: prod.splits)
qed

lemma query_compute_frame:
  "en_results (snd (query_compute E rs ws e)) = en_results e" "en_epoch (snd (query_compute E rs ws e)) = en_epoch e"
  "vaultPrefixCache (en_db (snd (query_compute E rs ws e))) = vaultPrefixCache (en_db e)"
proof -
  obtain fts vec e1 where 1: "engine_indexes E ws e = ((fts, vec), e1)"
    by (metis prod.collapse)
  have idx: "en_results e1 = en_results e" "en_epoch e1 = en_epoch e"
    "vaultPrefixCache (en_db e1) = vaultPrefixCache (en_db e)"
    using 1 by (auto simp: engine_indexes_def split: option.splits prod.splits)
  show "en_results (snd (query_compute E rs ws e)) = en_results e" "en_epoch (snd (query_compute E rs ws e)) = en_epoch e"
    "vaultPrefixCache (en_db (snd (query_compute E rs ws e))) = vaultPrefixCache (en_db e)"
    by (simp_all add: query_compute_def 1 idx Let_def count_pool_def split: prod.split option.split sum.split)
qed

text \<open>The parts of the state an answer from the cache leaves alone.\<close>

definition nothing_computed :: "('db, 's) engine \<Rightarrow> ('db, 's) engine \<Rightarrow> bool" where
  "nothing_computed e e' \<longleftrightarrow>
     pdb (en_db e') = pdb (en_db e) \<and> en_fts e' = en_fts e \<and> en_vec e' = en_vec e \<and> en_epoch e' = en_epoch e \<and>
     en_embeds e' = en_embeds e \<and> en_queries e' = en_queries e \<and> en_ext e' = en_ext e"

lemma resolve_request_dedup:
  "resolve_request E (req\<lparr>rq_Dedup := b\<rparr>) = map_sum id (\<lambda>rs. rs\<lparr>rs_req := (rs_req rs)\<lparr>rq_Dedup := b\<rparr>\<rparr>) (resolve_request E req)"
proof -
  have K: "resolve_K cfg (req\<lparr>rq_Dedup := b, rq_Query := q\<rparr>) = resolve_K cfg (req\<lparr>rq_Query := q\<rparr>)" for cfg q
    by (simp add: resolve_K_def split: option.split)
  have swap: "req\<lparr>rq_Dedup := b, rq_Query := q, rq_K := k\<rparr> = req\<lparr>rq_Query := q, rq_K := k, rq_Dedup := b\<rparr>" for q k
    by (cases req) simp
  show ?thesis
    by (simp add: resolve_request_def K swap Let_def case_prod_unfold split: sum.split list.split)
qed

lemma query_key_dedup: "query_key E (rs\<lparr>rs_req := (rs_req rs)\<lparr>rq_Dedup := b\<rparr>\<rparr>) epoch ws = query_key E rs epoch ws"
  by (simp add: query_key_def resultKey_def)

lemma Query_from_cache:
  assumes "resolve_ws E vault e = (ws, e1)" and "resolve_request E req = Inr rs" and "rq_Vaults req = []"
    and "\<not> rq_NoCache req" and "LRU_Enabled (en_results e1)"
    and "fst (LRU_Get (en_results e1) (query_key E rs (indexEpoch e1 ws) ws)) = Some res"
  shows "\<exists>c. Query E vault (req\<lparr>rq_Dedup := b\<rparr>) e = (Inr res, e1\<lparr>en_results := c\<rparr>)"
proof -
  let ?rs = "rs\<lparr>rs_req := (rs_req rs)\<lparr>rq_Dedup := b\<rparr>\<rparr>"
  have rs': "resolve_request E (req\<lparr>rq_Dedup := b\<rparr>) = Inr ?rs"
    by (simp add: resolve_request_dedup assms(2))
  note f = resolve_request_facts [OF assms(2)]
  obtain c where "LRU_Get (en_results e1) (query_key E ?rs (indexEpoch e1 ws) ws) = (Some res, c)"
    using assms(6) unfolding query_key_dedup by (metis prod.collapse)
  then show ?thesis
    using f(6,7) assms(3,4,5) by (auto simp: Query_def assms(1) rs' query_lookup_def Let_def)
qed

text \<open>Whoever is answered leaves the answer in the cache, for the next request and for the one with \<open>Dedup\<close> changed.\<close>

lemma Query_leaves_answer:
  assumes "lru_inv (en_results e)" and "LRU_Enabled (en_results e)"
    and "lru_inv (vaultPrefixCache (en_db e))" and "0 < cap (vaultPrefixCache (en_db e))"
    and "rq_Vaults req = []" and "\<not> rq_NoCache req" and "Query E vault req e = (Inr res, e1)" and "\<not> qr_RerankFailed res"
  shows "\<exists>e2. Query E vault (req\<lparr>rq_Dedup := b\<rparr>) e1 = (Inr res, e2) \<and> nothing_computed e1 e2"
proof -
  obtain ws e0 where ws: "resolve_ws E vault e = (ws, e0)" by (metis prod.collapse)
  have e0: "en_results e0 = en_results e" "en_epoch e0 = en_epoch e"
    using ws by (auto simp: resolve_ws_def split: prod.splits)
  obtain rs where rs: "resolve_request E req = Inr rs"
    using assms(7) by (cases "resolve_request E req") (simp_all add: Query_def ws)
  note f = resolve_request_facts [OF rs]
  let ?key = "query_key E rs (indexEpoch e0 ws) ws"
  obtain hit c where get: "LRU_Get (en_results e0) ?key = (hit, c)" by (metis prod.collapse)
  have c: "lru_inv c" "LRU_Enabled c"
    using lru_inv_Get [of "en_results e0" ?key] assms(1,2) get e0(1) cap_LRU(2) by (metis snd_conv)+
  have run: "Query E vault req e = (case hit of Some r \<Rightarrow> (Inr r, e0\<lparr>en_results := c\<rparr>)
      | None \<Rightarrow> (case query_compute E rs ws (e0\<lparr>en_results := c\<rparr>) of
          (Inl err, e3) \<Rightarrow> (Inl err, e3)
        | (Inr res, e3) \<Rightarrow> (Inr res, query_store E rs (indexEpoch e0 ws) (indexEpoch e3 ws) ws res e3)))"
    using assms(2,5,6) f(6,7) e0 by (simp add: Query_def ws rs query_lookup_def get [unfolded e0(1)] Let_def)
  have "vaultPrefixCache (en_db e1) = vaultPrefixCache (en_db e0) \<and> en_epoch e1 = en_epoch e0 \<and>
      LRU_Enabled (en_results e1) \<and> fst (LRU_Get (en_results e1) ?key) = Some res"
  proof (cases hit)
    case (Some r)
    then have "res = r" "e1 = e0\<lparr>en_results := c\<rparr>"
      using assms(7) unfolding run by simp_all
    then show ?thesis
      using LRU_Get_Get [OF _ _, of "en_results e0" ?key res] get Some assms(1,2) e0 c by simp
  next
    case None
    obtain r e3 where cmp: "query_compute E rs ws (e0\<lparr>en_results := c\<rparr>) = (r, e3)" by (metis prod.collapse)
    note frame = query_compute_frame [of E rs ws "e0\<lparr>en_results := c\<rparr>", unfolded cmp]
    have r: "r = Inr res" "e1 = query_store E rs (indexEpoch e0 ws) (indexEpoch e3 ws) ws res e3"
      using assms(7) unfolding run None by (cases r; simp add: cmp)+
    have "indexEpoch e3 ws = indexEpoch e0 ws"
      using frame(2) by (simp add: indexEpoch_def)
    then have "e1 = e3\<lparr>en_results := LRU_Put c ?key res\<rparr>"
      using r(2) frame(1) c(2) assms(8) by (simp add: query_store_def)
    moreover have "LRU_Enabled (LRU_Put c ?key res)"
      using LRU_Put_refines(3) [OF c(1)] c(2) by (simp add: LRU_Enabled_def)
    ultimately show ?thesis
      using frame LRU_Put_Get [OF c] by simp
  qed
  then have e1: "vaultPrefixCache (en_db e1) = vaultPrefixCache (en_db e0)" "en_epoch e1 = en_epoch e0"
      "LRU_Enabled (en_results e1)" "fst (LRU_Get (en_results e1) ?key) = Some res"
    by blast+
  obtain c' where res2: "resolve_ws E vault e1 = (ws, e1\<lparr>en_db := (en_db e1)\<lparr>vaultPrefixCache := c'\<rparr>\<rparr>)"
    using resolve_again [OF assms(3,4) ws e1(1)] by blast
  have "indexEpoch e1 ws = indexEpoch e0 ws"
    by (simp add: indexEpoch_def e1(2))
  then show ?thesis
    using Query_from_cache [OF res2 rs assms(5,6), of res b] e1(3,4)
    by (auto simp: nothing_computed_def indexEpoch_def)
qed

text \<open>C23: a repeated query costs nothing. With the result cache on, a query over one vault that was answered
  without a failed rerank is answered again, in the state it left, with the same result, and
  neither the store, the indexes, the model servers nor the query counters are touched.\<close>

theorem query_repeat_from_cache:
  assumes "lru_inv (en_results e)" and "LRU_Enabled (en_results e)"
    and "lru_inv (vaultPrefixCache (en_db e))" and "0 < cap (vaultPrefixCache (en_db e))"
    and "rq_Vaults req = []" and "\<not> rq_NoCache req" and "Query E vault req e = (Inr res, e1)" and "\<not> qr_RerankFailed res"
  shows "\<exists>e2. Query E vault req e1 = (Inr res, e2) \<and> nothing_computed e1 e2"
  using Query_leaves_answer [OF assms, of "rq_Dedup req"] by simp

lemma demo_ws:
  "\<exists>e1. resolve_ws demo_engine_env ''a'' demo_engine = (demo_vault, e1) \<and> en_fts e1 = en_fts demo_engine \<and>
     en_vec e1 = en_vec demo_engine \<and> en_results e1 = en_results demo_engine \<and> en_epoch e1 = Map.empty \<and>
     pdb (en_db e1) = demo_data \<and> en_embeds e1 = en_embeds demo_engine"
proof -
  have ws: "VaultPrefix demo_sip ''a'' = demo_vault"
    by code_simp
  show ?thesis
    by (simp add: resolve_ws_def ResolveVaultPrefix_def demo_engine_env_def demo_engine_def NewWithDB_def newQueryCaches_def
        vaultCache_Get_def newVaultCache_def NewLRU_def Default_def mem_pebble_def demo_data_def VaultNameIndexKey_def
        ChunkKey_def DocumentKey_def EmbeddingKey_def vaultScopedString_def vaultScoped_def ws Let_def)
qed

text \<open>The whole query on the concrete engine: two hits that list each other as near duplicates.\<close>

lemma demo_query:
  "\<exists>res e1. Query demo_engine_env ''a'' demo_request demo_engine = (Inr res, e1) \<and> \<not> qr_RerankFailed res \<and>
     (\<exists>h k. qr_Hits res = [h, k] \<and> near_siblings h k)"
proof -
  obtain e1 where e1: "resolve_ws demo_engine_env ''a'' demo_engine = (demo_vault, e1)" "en_fts e1 = en_fts demo_engine"
    "en_vec e1 = en_vec demo_engine" "en_results e1 = en_results demo_engine" "en_epoch e1 = Map.empty"
    "pdb (en_db e1) = demo_data" "en_embeds e1 = en_embeds demo_engine"
    using demo_ws by blast
  have get: "\<exists>c. LRU_Get (NewLRU 256 :: (string, query_result) lru) key = (None, c)" for key
    by (simp add: LRU_Get_def NewLRU_def LRU_Enabled_def)
  obtain c where c: "LRU_Get (en_results e1) (query_key demo_engine_env demo_resolved (indexEpoch e1 demo_vault) demo_vault) = (None, c)"
    using get unfolding e1(4) demo_engine_simps(5) by blast
  obtain res e2 where run: "query_compute demo_engine_env demo_resolved demo_vault (e1\<lparr>en_results := c\<rparr>) = (Inr res, e2)"
    and hits: "map (\<lambda>h. (qh_ChunkID h, qh_Score h, qh_NearDup h)) (qr_Hits res) =
       [(''a'', 1, Some \<lparr>Siblings = [''b''], Similarity = 1\<rparr>), (''b'', 1, None)]"
    and ok: "\<not> qr_RerankFailed res"
    using demo_compute [of "e1\<lparr>en_results := c\<rparr>"] e1 demo_engine_simps(1,2,4) by auto
  have two: "\<exists>h k. qr_Hits res = [h, k] \<and> near_siblings h k"
    using hits by (auto simp: near_siblings_def listsSibling_def)
  have on: "LRU_Enabled (en_results e1)"
    by (simp add: e1(4) demo_engine_simps LRU_Enabled_def NewLRU_def)
  have req: "rs_req demo_resolved = demo_request" "rq_Vaults demo_request = []" "\<not> rq_NoCache demo_request"
    by (simp_all add: demo_resolved_def demo_request_def)
  have "Query demo_engine_env ''a'' demo_request demo_engine =
      (Inr res, query_store demo_engine_env demo_resolved (indexEpoch e1 demo_vault) (indexEpoch e2 demo_vault) demo_vault res e2)"
    using run by (simp add: Query_def e1(1) demo_resolve query_lookup_def on c req Let_def)
  then show ?thesis
    using two ok by blast
qed

lemma demo_caches:
  "lru_inv (en_results demo_engine)" "LRU_Enabled (en_results demo_engine)"
  "lru_inv (vaultPrefixCache (en_db demo_engine))" "0 < cap (vaultPrefixCache (en_db demo_engine))"
  "rq_Vaults demo_request = []" "\<not> rq_NoCache demo_request"
  by (simp_all add: demo_engine_simps newVaultCache_def LRU_Enabled_def NewLRU_def demo_request_def,
      simp_all add: lru_inv_def)

theorem query_repeat_from_cache_witness:
  "\<exists>res e1 e2. Query demo_engine_env ''a'' demo_request demo_engine = (Inr res, e1) \<and> length (qr_Hits res) = 2 \<and>
     Query demo_engine_env ''a'' demo_request e1 = (Inr res, e2) \<and> nothing_computed e1 e2"
proof -
  obtain res e1 h k where q: "Query demo_engine_env ''a'' demo_request demo_engine = (Inr res, e1)" "\<not> qr_RerankFailed res"
    "qr_Hits res = [h, k]"
    using demo_query by blast
  then show ?thesis
    using query_repeat_from_cache [OF demo_caches q(1,2)] by auto
qed

text \<open>C24: \<open>Dedup\<close> is not part of the cache key. After a query without \<open>Dedup\<close> has been answered, the same query
  with \<open>Dedup\<close> gets that very answer from the cache, with its near duplicates.\<close>

theorem dedup_served_undeduped:
  assumes "lru_inv (en_results e)" and "LRU_Enabled (en_results e)"
    and "lru_inv (vaultPrefixCache (en_db e))" and "0 < cap (vaultPrefixCache (en_db e))"
    and "rq_Vaults req = []" and "\<not> rq_NoCache req" and "Query E vault req e = (Inr res, e1)" and "\<not> qr_RerankFailed res"
  shows "fst (Query E vault (req\<lparr>rq_Dedup := True\<rparr>) e1) = Inr res"
  using Query_leaves_answer [OF assms, of True] by auto

theorem dedup_served_undeduped_witness:
  "\<exists>res e1 h k. Query demo_engine_env ''a'' demo_request demo_engine = (Inr res, e1) \<and>
     fst (Query demo_engine_env ''a'' (demo_request\<lparr>rq_Dedup := True\<rparr>) e1) = Inr res \<and>
     qr_Hits res = [h, k] \<and> near_siblings h k"
proof -
  obtain res e1 h k where q: "Query demo_engine_env ''a'' demo_request demo_engine = (Inr res, e1)" "\<not> qr_RerankFailed res"
    "qr_Hits res = [h, k]" "near_siblings h k"
    using demo_query by blast
  then show ?thesis
    using dedup_served_undeduped [OF demo_caches q(1,2)] by auto
qed

end
