(* ===== verification/Vault_Lifecycle.thy ===== *)
theory Vault_Lifecycle
  imports Query_Facts
begin

text \<open>
  Creating, renaming, clearing and deleting vaults: \<open>internal/engine/vault_lifecycle.go\<close>, \<open>delete.go\<close> and
  \<open>ValidateName\<close> of \<open>internal/vault/registry.go\<close>. The ingest pipeline and the background embedder keep
  pointers to the vector index of the vault they were created for; \<open>service\<close> records whether these
  still point to the index that queries read.
\<close>

section \<open>Operations\<close>

text \<open>\<open>ValidateName\<close> looks at runes; bytes outside ASCII are rejected either way.\<close>

definition ValidateName :: "string \<Rightarrow> go_error option" where
  "ValidateName name =
     (if length name < 1 \<or> 64 < length name then Some (Failed ''vault name must be 1-64 characters'')
      else if list_ex (\<lambda>c. c \<notin> set ''abcdefghijklmnopqrstuvwxyz0123456789-'') name
        then Some (Failed ''vault name must be lowercase alphanumeric + hyphens only'')
      else None)"

definition CreateVault :: "('db, 's) engine_env \<Rightarrow> string \<Rightarrow> ('db, 's) engine \<Rightarrow> go_error option \<times> ('db, 's) engine" where
  "CreateVault E name0 e =
     (let name = TrimSpace name0 in
      if ValidateName name \<noteq> None then (Some (ErrInvalid ''name''), e)
      else if VaultNameExists (ge_P E) (ge_sip E) (en_db e) name then (Some (ErrInvalid ''already exists''), e)
      else
        let (ws, e1) = resolve_ws E name e in
        case WriteVaultName (ge_P E) (ge_sip E) (en_db e1) ws name of
          Inl err \<Rightarrow> (Some err, e1)
        | Inr d \<Rightarrow> (None, e1\<lparr>en_db := d\<rparr>))"

definition engine_RenameVault ::
    "('db, 's) engine_env \<Rightarrow> string \<Rightarrow> string \<Rightarrow> ('db, 's) engine \<Rightarrow> go_error option \<times> ('db, 's) engine" where
  "engine_RenameVault E old0 new0 e =
     (let oldName = TrimSpace old0; newName = TrimSpace new0; known = VaultNameExists (ge_P E) (ge_sip E) (en_db e) in
      if oldName = [] \<or> newName = [] then (Some (ErrInvalid ''old and new names are required''), e)
      else if ValidateName newName \<noteq> None then (Some (ErrInvalid ''name''), e)
      else if \<not> known oldName then (Some (ErrNotFound oldName), e)
      else if oldName \<noteq> newName \<and> known newName then (Some (ErrInvalid ''already exists''), e)
      else
        let (ws, e1) = resolve_ws E oldName e in
        case RenameVault (ge_P E) (ge_sip E) (en_db e1) ws oldName newName of
          Inl err \<Rightarrow> (Some err, e1)
        | Inr d \<Rightarrow> (None, e1\<lparr>en_db := d\<rparr>))"

fun clear_kinds :: "'db pebble_ops \<Rightarrow> ws \<Rightarrow> byte list \<Rightarrow> 'db \<Rightarrow> go_error option \<times> 'db" where
  "clear_kinds P ws [] d = (None, d)"
| "clear_kinds P ws (kind # kinds) d =
     (case VaultKindRange kind ws of
        Inl err \<Rightarrow> (Some err, d)
      | Inr (lower, upper) \<Rightarrow>
          (case DB_DeleteRange P d lower upper of
             Inl err \<Rightarrow> (Some err, d)
           | Inr d' \<Rightarrow> clear_kinds P ws kinds d'))"

definition ClearVault :: "('db, 's) engine_env \<Rightarrow> string \<Rightarrow> ('db, 's) engine \<Rightarrow> go_error option \<times> ('db, 's) engine" where
  "ClearVault E vault0 e =
     (let vault = TrimSpace vault0 in
      if vault = [] then (Some (ErrInvalid ''vault name is required''), e)
      else
        let (ws, e1) = resolve_ws E vault e;
            (err, d) = clear_kinds (ge_P E) ws VaultScopedKinds (pdb (en_db e1));
            e2 = e1\<lparr>en_db := (en_db e1)\<lparr>pdb := d\<rparr>\<rparr>
        in case err of
             Some x \<Rightarrow> (Some x, e2)
           | None \<Rightarrow>
               (None, flushCaches (e2
                 \<lparr>en_fts := (en_fts e2)(ws := None), en_vec := (en_vec e2)(ws := None),
                  en_epoch := (if en_epoch e2 ws = None then en_epoch e2 else (en_epoch e2)(ws \<mapsto> 0))\<rparr>)))"

definition DeleteVault :: "('db, 's) engine_env \<Rightarrow> string \<Rightarrow> ('db, 's) engine \<Rightarrow> go_error option \<times> ('db, 's) engine" where
  "DeleteVault E vault0 e =
     (let vault = TrimSpace vault0 in
      if vault = [] then (Some (ErrInvalid ''vault name is required''), e)
      else if vault = ''default'' then (Some (ErrInvalid ''the default vault cannot be deleted''), e)
      else
        case ClearVault E vault e of
          (Some err, e1) \<Rightarrow> (Some err, e1)
        | (None, e1) \<Rightarrow>
            (let (ws, e2) = resolve_ws E vault e1 in
             case DeleteVaultNameOnly (ge_P E) (ge_sip E) (en_db e2) ws vault of
               Inl err \<Rightarrow> (Some err, e2)
             | Inr d \<Rightarrow> (None, e2\<lparr>en_db := d\<rparr>)))"

section \<open>The pipeline beside the engine\<close>

text \<open>\<open>sv_pipe\<close> is empty until the first write. Then it holds the vault of the pipeline and its vector
  index: \<open>None\<close> while that is the one in the engine's map, the detached index afterwards.\<close>

record ('db, 's) service =
  sv_engine :: "('db, 's) engine"
  sv_pipe :: "(ws \<times> vector option) option"

definition service_pipeline :: "('db, 's) engine_env \<Rightarrow> ('db, 's) service \<Rightarrow> go_error option \<times> ('db, 's) service" where
  "service_pipeline E sv =
     (if sv_pipe sv \<noteq> None then (None, sv)
      else if cf_EmbeddingModel (ge_cfg E) = [] then (Some (Failed ''no embedding model configured''), sv)
      else
        let (ws, e1) = resolve_ws E ''default'' (sv_engine sv); (idx, e2) = engine_indexes E ws e1
        in (None, sv\<lparr>sv_engine := e2, sv_pipe := Some (ws, None)\<rparr>))"

definition service_ClearVault :: "('db, 's) engine_env \<Rightarrow> string \<Rightarrow> ('db, 's) service \<Rightarrow> go_error option \<times> ('db, 's) service" where
  "service_ClearVault E vault sv =
     (case ClearVault E vault (sv_engine sv) of
        (Some err, e) \<Rightarrow> (Some err, sv\<lparr>sv_engine := e\<rparr>)
      | (None, e) \<Rightarrow>
          (None, sv\<lparr>sv_engine := e,
             sv_pipe := (case sv_pipe sv of
                Some (ws, None) \<Rightarrow> (if en_vec e ws = None then Some (ws, en_vec (sv_engine sv) ws) else Some (ws, None))
              | p \<Rightarrow> p)\<rparr>))"

text \<open>The background embedder adds a vector to the index it holds.\<close>

definition service_add_vector :: "string \<Rightarrow> real list \<Rightarrow> ('db, 's) service \<Rightarrow> ('db, 's) service" where
  "service_add_vector cid v sv =
     (case sv_pipe sv of
        None \<Rightarrow> sv
      | Some (ws, Some own) \<Rightarrow> sv\<lparr>sv_pipe := Some (ws, Some (Vec_Add cid v own))\<rparr>
      | Some (ws, None) \<Rightarrow>
          sv\<lparr>sv_engine := (sv_engine sv)\<lparr>en_vec := (en_vec (sv_engine sv))
               (ws := map_option (Vec_Add cid v) (en_vec (sv_engine sv) ws))\<rparr>\<rparr>)"

section \<open>What clearing does\<close>

definition in_kind_range :: "byte \<Rightarrow> ws \<Rightarrow> bytes \<Rightarrow> bool" where
  "in_kind_range kind ws k \<longleftrightarrow>
     (case VaultKindRange kind ws of Inl err \<Rightarrow> False | Inr (lower, upper) \<Rightarrow> in_range lower upper k)"

lemma in_kind_range_scoped:
  assumes "is_ws ws" and "is_ws ws'" and "IncrementWSPrefix ws = Inr wsPlus"
  shows "in_kind_range kind ws (vaultScoped kind' ws' p) \<longleftrightarrow> kind' = kind \<and> ws' = ws"
  using VaultKindRange_vaultScoped [OF assms(1,2), of kind]
  by (simp add: in_kind_range_def VaultKindRange_def assms(3))

lemma in_kind_range_head: "in_kind_range kind ws k \<Longrightarrow> k \<noteq> [] \<and> hd k = kind"
  by (cases k) (auto simp: in_kind_range_def VaultKindRange_def kindWSPrefix_def gbind_Inr_iff in_range_Cons in_range_def
      split: sum.splits)

lemma clear_kinds_view:
  assumes "pebble P view" and "reliable P" and "is_ws ws" and "IncrementWSPrefix ws = Inr wsPlus"
  shows "\<exists>d'. clear_kinds P ws kinds d = (None, d') \<and>
    view d' = (\<lambda>k. if \<exists>kind \<in> set kinds. in_kind_range kind ws k then None else view d k)"
proof (induction kinds arbitrary: d)
  case (Cons kind kinds)
  obtain lower upper where range: "VaultKindRange kind ws = Inr (lower, upper)"
    by (simp add: VaultKindRange_def assms(4))
  have less: "lower < upper"
    by (rule VaultKindRange_lower_less_upper [OF assms(3) range])
  have ne: "lower \<noteq> []" "upper \<noteq> []"
    using range by (auto simp: VaultKindRange_def assms(4) kindWSPrefix_def)
  obtain d1 where "pb_commit P d [KDeleteRange lower upper] = Inr d1"
    by (rule pebble.reliable_commitE [OF assms(1,2)])
  then have del: "DB_DeleteRange P d lower upper = Inr d1"
    using less ne by (simp add: DB_DeleteRange_def)
  obtain d' where d': "clear_kinds P ws kinds d1 = (None, d')"
    "view d' = (\<lambda>k. if \<exists>kind \<in> set kinds. in_kind_range kind ws k then None else view d1 k)"
    using Cons by blast
  have "view d1 = (\<lambda>k. if in_kind_range kind ws k then None else view d k)"
    by (simp add: pebble.DB_DeleteRange_view [OF assms(1) del] in_kind_range_def range)
  then show ?case
    using d' by (auto simp: range del fun_eq_iff)
qed simp

text \<open>C26: clearing a vault is exact. With a working store \<open>ClearVault\<close> succeeds; afterwards the vault has no
  key of any vault-scoped kind; every key of another vault, and every key of another kind (the
  registry of names, the configuration, the accounts), is as before; the indexes of the vault are
  evicted and those of other vaults kept; and both caches are empty.\<close>

theorem clear_vault_exact:
  assumes "pebble (ge_P E) view" and "reliable (ge_P E)" and "TrimSpace vault \<noteq> []"
    and "resolve_ws E (TrimSpace vault) e = (ws, e1)" and "is_ws ws" and "IncrementWSPrefix ws = Inr wsPlus"
  shows "\<exists>e'. ClearVault E vault e = (None, e') \<and>
    (\<forall>kind \<in> set VaultScopedKinds. \<forall>p. view (pdb (en_db e')) (vaultScoped kind ws p) = None) \<and>
    (\<forall>kind ws' p. is_ws ws' \<and> ws' \<noteq> ws \<longrightarrow>
       view (pdb (en_db e')) (vaultScoped kind ws' p) = view (pdb (en_db e1)) (vaultScoped kind ws' p)) \<and>
    (\<forall>k. k = [] \<or> hd k \<notin> set VaultScopedKinds \<longrightarrow> view (pdb (en_db e')) k = view (pdb (en_db e1)) k) \<and>
    en_fts e' ws = None \<and> en_vec e' ws = None \<and>
    (\<forall>ws'. ws' \<noteq> ws \<longrightarrow> en_fts e' ws' = en_fts e1 ws' \<and> en_vec e' ws' = en_vec e1 ws') \<and>
    order (en_results e') = [] \<and> order (en_embeds e') = []"
proof -
  obtain d where d: "clear_kinds (ge_P E) ws VaultScopedKinds (pdb (en_db e1)) = (None, d)"
    "view d = (\<lambda>k. if \<exists>kind \<in> set VaultScopedKinds. in_kind_range kind ws k then None else view (pdb (en_db e1)) k)"
    using clear_kinds_view [OF assms(1,2,5,6)] by blast
  have run: "\<exists>e'. ClearVault E vault e = (None, e') \<and> pdb (en_db e') = d \<and> en_fts e' = (en_fts e1)(ws := None) \<and>
      en_vec e' = (en_vec e1)(ws := None) \<and> order (en_results e') = [] \<and> order (en_embeds e') = []"
    by (simp add: ClearVault_def assms(3,4) d(1) flushCaches_def LRU_Flush_def Let_def)
  then obtain e' where e': "ClearVault E vault e = (None, e')" "pdb (en_db e') = d" "en_fts e' = (en_fts e1)(ws := None)"
      "en_vec e' = (en_vec e1)(ws := None)" "order (en_results e') = []" "order (en_embeds e') = []"
    by blast
  show ?thesis
    using e' by (intro exI [of _ e'])
      (auto simp: d(2) in_kind_range_scoped [OF assms(5) _ assms(6)] assms(5) dest: in_kind_range_head)
qed

theorem clear_vault_exact_witness:
  "\<exists>e'. ClearVault demo_engine_env ''a'' demo_engine = (None, e') \<and>
     map_of (pdb (en_db e')) (ChunkKey demo_vault ''a'') = None \<and> en_vec e' demo_vault = None"
proof -
  have ws: "IncrementWSPrefix demo_vault = Inr [0, 0, 0, 0, 0, 0, 0, 98]"
    "TrimSpace ''a'' = ''a''"
    by code_simp+
  obtain e1 where e1: "resolve_ws demo_engine_env ''a'' demo_engine = (demo_vault, e1)"
    using demo_ws by blast
  have "0x03 \<in> set VaultScopedKinds"
    by (simp add: VaultScopedKinds_def)
  then show ?thesis
    using clear_vault_exact [OF demo_store, of "''a''" demo_engine demo_vault e1, unfolded ws(2), OF _ e1 _ ws(1)]
    unfolding ChunkKey_def vaultScopedString_def by (auto simp: is_ws_def)
qed

section \<open>Clearing under a running query\<close>

lemma resolve_ws_cache:
  assumes "lru_inv (vaultPrefixCache (en_db e))" and "resolve_ws E vault e = (ws, e1)"
  shows "lru_inv (vaultPrefixCache (en_db e1))" "cap (vaultPrefixCache (en_db e1)) = cap (vaultPrefixCache (en_db e))"
    "en_results e1 = en_results e" "en_epoch e1 = en_epoch e" "en_fts e1 = en_fts e" "en_vec e1 = en_vec e"
    "pdb (en_db e1) = pdb (en_db e)"
  using assms(2) vaultCache_Get_refines(2,3) [OF assms(1), of vault] vaultCache_Add_refines(2,3) [OF assms(1), of vault]
  by (auto simp: resolve_ws_def ResolveVaultPrefix_def Let_def split: prod.splits option.splits sum.splits if_splits)

lemma lru_inv_Flush: "lru_inv c \<Longrightarrow> lru_inv (LRU_Flush c)"
  by (simp add: lru_inv_def LRU_Flush_def)

lemma ClearVault_effect:
  assumes "ClearVault E vault e = (None, e')" and "lru_inv (vaultPrefixCache (en_db e))"
    and "resolve_ws E (TrimSpace vault) e = (ws, e1)"
  shows "en_results e' = LRU_Flush (en_results e)" "vaultPrefixCache (en_db e') = vaultPrefixCache (en_db e1)"
    "en_epoch e' ws = (if en_epoch e ws = None then None else Some 0)" "en_vec e' ws = None"
    "clear_kinds (ge_P E) ws VaultScopedKinds (pdb (en_db e1)) = (None, pdb (en_db e'))"
  using assms(1) resolve_ws_cache [OF assms(2,3)]
  by (auto simp: ClearVault_def assms(3) Let_def flushCaches_def split: if_splits prod.splits option.splits)

text \<open>C27: a query that runs across a clear brings the deleted content back. \<open>ClearVault\<close> resets the epoch of the
  vault to 0. Let a query have read epoch 0 (no write since the engine was built or the vault was last
  cleared) and have computed its result when the clear runs. The check before the result is
  stored compares 0 with 0 and passes, so the result of the deleted content enters the flushed cache,
  and the next query is answered with it although the vault holds no chunk.\<close>

theorem clear_revives_stale:
  assumes "pebble (ge_P E) view" and "reliable (ge_P E)" and "is_ws ws" and "IncrementWSPrefix ws = Inr wsPlus"
    and "lru_inv (en_results e)" and "LRU_Enabled (en_results e)"
    and "lru_inv (vaultPrefixCache (en_db e))" and "0 < cap (vaultPrefixCache (en_db e))"
    and "TrimSpace vault = vault" and "rq_Vaults req = []" and "\<not> rq_NoCache req"
    and "resolve_ws E vault e = (ws, e1)" and "resolve_request E req = Inr rs" and "indexEpoch e1 ws = 0"
    and "query_compute E rs ws e1 = (Inr res, e2)" and "\<not> qr_RerankFailed res"
    and "ClearVault E vault e2 = (None, e3)"
    and "e4 = query_store E rs (indexEpoch e1 ws) (indexEpoch e3 ws) ws res e3"
  shows "fst (Query E vault req e4) = Inr res \<and>
    (\<forall>p. view (pdb (en_db e4)) (vaultScoped PrefixChunk ws p) = None)"
proof -
  note c1 = resolve_ws_cache [OF assms(7,12)]
  note c2 = query_compute_frame [of E rs ws e1, unfolded assms(15) snd_conv]
  obtain c where ws2: "resolve_ws E vault e2 = (ws, e2\<lparr>en_db := (en_db e2)\<lparr>vaultPrefixCache := c\<rparr>\<rparr>)" (is "_ = (ws, ?e2)")
    using resolve_again [OF assms(7,8,12) c2(3)] by blast
  have inv2: "lru_inv (vaultPrefixCache (en_db e2))" "0 < cap (vaultPrefixCache (en_db e2))"
    using c1(1,2) assms(8) c2(3) by simp_all
  note clear = ClearVault_effect [OF assms(17) inv2(1), unfolded assms(9), OF ws2]
  have ep: "indexEpoch e3 ws = 0"
    using clear(3) c2(2) assms(14) by (simp add: indexEpoch_def split: option.splits if_splits)
  let ?key = "query_key E rs 0 ws"
  have on: "lru_inv (en_results e3)" "LRU_Enabled (en_results e3)"
    using clear(1) c2(1) c1(3) assms(5,6) by (simp_all add: lru_inv_Flush, simp add: LRU_Enabled_def LRU_Flush_def)
  have e4: "e4 = e3\<lparr>en_results := LRU_Put (en_results e3) ?key res\<rparr>"
    using on(2) assms(16) by (simp add: assms(18,14) ep query_store_def)
  obtain c' where ws4: "resolve_ws E vault e4 = (ws, e4\<lparr>en_db := (en_db e4)\<lparr>vaultPrefixCache := c'\<rparr>\<rparr>)"
    using resolve_again [OF inv2 ws2, of e4] clear(2) by (auto simp: e4)
  have "LRU_Enabled (LRU_Put (en_results e3) ?key res)"
    using LRU_Put_refines(3) [OF on(1)] on(2) by (simp add: LRU_Enabled_def)
  then have "\<exists>c. Query E vault (req\<lparr>rq_Dedup := rq_Dedup req\<rparr>) e4 = (Inr res, e4\<lparr>en_db := (en_db e4)\<lparr>vaultPrefixCache := c'\<rparr>\<rparr>\<lparr>en_results := c\<rparr>)"
    using LRU_Put_Get [OF on, of ?key res] ep
    by (intro Query_from_cache [OF ws4 assms(13,10,11)]) (simp_all add: e4 indexEpoch_def)
  then have "fst (Query E vault req e4) = Inr res" by auto
  moreover have "view (pdb (en_db e3)) (vaultScoped PrefixChunk ws p) = None" for p
  proof -
    have "PrefixChunk \<in> set VaultScopedKinds"
      by (simp add: VaultScopedKinds_def PrefixChunk_def)
    then show ?thesis
      using clear_kinds_view [OF assms(1-4), of VaultScopedKinds "pdb (en_db ?e2)"] clear(5)
      by (auto simp: in_kind_range_scoped [OF assms(3,3,4)])
  qed
  ultimately show ?thesis
    by (simp add: e4)
qed

lemma ClearVault_succeeds:
  assumes "pebble (ge_P E) view" and "reliable (ge_P E)" and "TrimSpace vault \<noteq> []"
    and "resolve_ws E (TrimSpace vault) e = (ws, e1)" and "is_ws ws" and "IncrementWSPrefix ws = Inr wsPlus"
  shows "\<exists>e'. ClearVault E vault e = (None, e')"
proof -
  obtain d where "clear_kinds (ge_P E) ws VaultScopedKinds (pdb (en_db e1)) = (None, d)"
    using clear_kinds_view [OF assms(1,2,5,6)] by blast
  then show ?thesis
    by (simp add: ClearVault_def assms(3,4) Let_def)
qed

theorem clear_revives_stale_witness:
  "\<exists>res e2 e3 e4. ClearVault demo_engine_env ''a'' e2 = (None, e3) \<and>
     fst (Query demo_engine_env ''a'' demo_request e4) = Inr res \<and> length (qr_Hits res) = 2 \<and>
     map_of (pdb (en_db e4)) (ChunkKey demo_vault ''a'') = None"
proof -
  have ws: "IncrementWSPrefix demo_vault = Inr [0, 0, 0, 0, 0, 0, 0, 98]" "TrimSpace ''a'' = ''a''"
    by code_simp+
  have isw: "is_ws demo_vault"
    by (simp add: is_ws_def)
  obtain e1 where e1: "resolve_ws demo_engine_env ''a'' demo_engine = (demo_vault, e1)" "en_fts e1 = en_fts demo_engine"
    "en_vec e1 = en_vec demo_engine" "en_epoch e1 = Map.empty"
    "pdb (en_db e1) = demo_data" "en_embeds e1 = en_embeds demo_engine"
    using demo_ws by blast
  obtain res e2 where run: "query_compute demo_engine_env demo_resolved demo_vault e1 = (Inr res, e2)"
    and hits: "map (\<lambda>h. (qh_ChunkID h, qh_Score h, qh_NearDup h)) (qr_Hits res) =
       [(''a'', 1, Some \<lparr>Siblings = [''b''], Similarity = 1\<rparr>), (''b'', 1, None)]"
    and ok: "\<not> qr_RerankFailed res"
    using demo_compute [of e1] e1 demo_engine_simps(1,2,4) by auto
  have two: "length (qr_Hits res) = 2"
    using arg_cong [OF hits, of length] by simp
  note frame = query_compute_frame [of demo_engine_env demo_resolved demo_vault e1, unfolded run snd_conv]
  obtain c where ws2: "resolve_ws demo_engine_env ''a'' e2 = (demo_vault, e2\<lparr>en_db := (en_db e2)\<lparr>vaultPrefixCache := c\<rparr>\<rparr>)"
    using resolve_again [OF demo_caches(3,4) e1(1) frame(3)] by blast
  obtain e3 where e3: "ClearVault demo_engine_env ''a'' e2 = (None, e3)"
    using ClearVault_succeeds [OF demo_store(1,2) _ _ isw ws(1), of "''a''", unfolded ws(2), OF _ ws2] by auto
  have epoch: "indexEpoch e1 demo_vault = 0"
    by (simp add: indexEpoch_def e1(4))
  show ?thesis
    using clear_revives_stale [OF demo_store isw ws(1) demo_caches(1-4) ws(2) demo_caches(5,6) e1(1) demo_resolve epoch run ok e3 refl]
      e3 two unfolding ChunkKey_def vaultScopedString_def PrefixChunk_def by blast
qed

end
