(* ===== verification/Base64.thy ===== *)
theory Base64
  imports Prelude
begin

text \<open>
  \<open>base64.RawURLEncoding\<close> of Go's \<open>encoding/base64\<close>: the URL alphabet without padding. Decoding skips line
  breaks, rejects any other byte outside the alphabet and a single left-over digit, and, as the
  encoding is not strict, ignores the unused low bits of the last digit. Used by the credentials, the
  event cursor and the page tokens.
\<close>

definition b64_digit :: "nat \<Rightarrow> char" where
  "b64_digit n =
     (if n < 26 then char_of (65 + n) else if n < 52 then char_of (71 + n)
      else if n < 62 then char_of (n - 4) else if n = 62 then CHR ''-'' else CHR ''_'')"

definition b64_value :: "char \<Rightarrow> nat option" where
  "b64_value c = find (\<lambda>n. b64_digit n = c) [0 ..< 64]"

fun RawURL_digits :: "bytes \<Rightarrow> nat list" where
  "RawURL_digits [] = []"
| "RawURL_digits [a] = [unat a div 4, unat a mod 4 * 16]"
| "RawURL_digits [a, b] = [unat a div 4, unat a mod 4 * 16 + unat b div 16, unat b mod 16 * 4]"
| "RawURL_digits (a # b # c # rest) =
     [unat a div 4, unat a mod 4 * 16 + unat b div 16, unat b mod 16 * 4 + unat c div 64, unat c mod 64] @ RawURL_digits rest"

definition RawURL_encode :: "bytes \<Rightarrow> string" where
  "RawURL_encode bs = map b64_digit (RawURL_digits bs)"

fun b64_quanta :: "nat list \<Rightarrow> bytes option" where
  "b64_quanta [] = Some []"
| "b64_quanta [p] = None"
| "b64_quanta [p, q] = Some [word_of_nat (p * 4 + q div 16)]"
| "b64_quanta [p, q, r] = Some [word_of_nat (p * 4 + q div 16), word_of_nat (q mod 16 * 16 + r div 4)]"
| "b64_quanta (p # q # r # s # rest) =
     (case b64_quanta rest of
        None \<Rightarrow> None
      | Some bs \<Rightarrow>
          Some (word_of_nat (p * 4 + q div 16) # word_of_nat (q mod 16 * 16 + r div 4) # word_of_nat (r mod 4 * 64 + s) # bs))"

definition RawURL_decode :: "string \<Rightarrow> bytes option" where
  "RawURL_decode s =
     (case those (map b64_value (filter (\<lambda>c. c \<noteq> CHR 0x0A \<and> c \<noteq> CHR 0x0D) s)) of
        None \<Rightarrow> None
      | Some ns \<Rightarrow> b64_quanta ns)"

section \<open>Round trip\<close>

lemma b64_digits_distinct: "distinct (map b64_digit [0 ..< 64])"
  by code_simp

lemma b64_value_digit: "n < 64 \<Longrightarrow> b64_value (b64_digit n) = Some n"
proof -
  assume n: "n < 64"
  have "j < n \<Longrightarrow> map b64_digit [0 ..< 64] ! j \<noteq> map b64_digit [0 ..< 64] ! n" for j
    using n b64_digits_distinct by (subst nth_eq_iff_index_eq) simp_all
  then have "find (\<lambda>m. b64_digit m = b64_digit n) [0 ..< 64] = Some n"
    using n by (auto simp: find_Some_iff intro!: exI [of _ n])
  then show ?thesis by (simp add: b64_value_def)
qed

text \<open>The digits are letters, decimal digits, the hyphen and the underscore.\<close>

lemma b64_digit_chars: "b64_digit n \<notin> {CHR 0x0A, CHR 0x0D, CHR ''.'', CHR 0x1F, CHR ''='', CHR '' ''}"
proof (cases "n < 64")
  case True
  have "list_all (\<lambda>n. b64_digit n \<notin> {CHR 0x0A, CHR 0x0D, CHR ''.'', CHR 0x1F, CHR ''='', CHR '' ''}) [0 ..< 64]"
    by code_simp
  then show ?thesis using True by (simp add: list_all_iff)
qed (simp add: b64_digit_def)

lemma RawURL_digits_less: "n \<in> set (RawURL_digits bs) \<Longrightarrow> n < 64"
proof (induction bs rule: RawURL_digits.induct)
  case (2 a)
  then show ?case using unat_byte_less [of a] by auto
next
  case (3 a b)
  then show ?case using unat_byte_less [of a] unat_byte_less [of b] by auto
next
  case (4 a b c rest)
  then show ?case using unat_byte_less [of a] unat_byte_less [of b] unat_byte_less [of c] by auto
qed simp

lemma byte_div_less: "unat b div 16 < 16" "unat c div 64 < 4" for b c :: byte
  using unat_byte_less [of b] unat_byte_less [of c] by (auto simp: less_mult_imp_div_less)

lemma byte_parts:
  fixes a b c :: byte
  shows "y < 16 \<Longrightarrow> word_of_nat (unat a div 4 * 4 + (unat a mod 4 * 16 + y) div 16) = a"
    "y < 4 \<Longrightarrow> word_of_nat ((x * 16 + unat b div 16) mod 16 * 16 + (unat b mod 16 * 4 + y) div 4) = b"
    "word_of_nat ((x * 4 + unat c div 64) mod 4 * 64 + unat c mod 64) = c"
  using byte_div_less(1) [of b] byte_div_less(2) [of c] by (simp_all add: div_mult_mod_eq)

lemma b64_quanta_digits: "b64_quanta (RawURL_digits bs) = Some bs"
proof (induction bs rule: RawURL_digits.induct)
  case (2 a)
  show ?case using byte_parts(1) [of 0 a] by (simp only: RawURL_digits.simps b64_quanta.simps) simp
next
  case (3 a b)
  show ?case
    using byte_parts(1) [OF byte_div_less(1) [of b], of a] byte_parts(2) [of 0 "unat a mod 4" b]
    by (simp only: RawURL_digits.simps b64_quanta.simps) simp
next
  case (4 a b c rest)
  show ?case
    using byte_parts(1) [OF byte_div_less(1) [of b], of a] byte_parts(2) [OF byte_div_less(2) [of c], of "unat a mod 4" b]
      byte_parts(3) [of "unat b mod 16" c]
    by (simp only: RawURL_digits.simps b64_quanta.simps append.simps 4 option.case)
qed simp

lemma RawURL_roundtrip [simp]: "RawURL_decode (RawURL_encode bs) = Some bs"
proof -
  have "filter (\<lambda>c. c \<noteq> CHR 0x0A \<and> c \<noteq> CHR 0x0D) (RawURL_encode bs) = RawURL_encode bs"
    using b64_digit_chars by (auto simp: RawURL_encode_def filter_id_conv)
  moreover have "those (map b64_value (map b64_digit ns)) = Some ns" if "\<forall>n \<in> set ns. n < 64" for ns
    using that by (induction ns) (simp_all add: b64_value_digit)
  ultimately show ?thesis
    using RawURL_digits_less [of _ bs] by (simp add: RawURL_decode_def RawURL_encode_def b64_quanta_digits)
qed

lemma RawURL_encode_inject [simp]: "RawURL_encode a = RawURL_encode b \<longleftrightarrow> a = b"
  by (metis RawURL_roundtrip option.inject)

lemma RawURL_encode_chars: "c \<in> set (RawURL_encode bs) \<Longrightarrow> c \<notin> {CHR 0x0A, CHR 0x0D, CHR ''.'', CHR 0x1F, CHR ''='', CHR '' ''}"
  using b64_digit_chars by (auto simp: RawURL_encode_def)

lemma length_RawURL_encode: "length (RawURL_encode bs) = (length bs * 4 + 2) div 3"
  by (induction bs rule: RawURL_digits.induct) (simp_all add: RawURL_encode_def)

lemma RawURL_encode_Nil_iff [simp]: "RawURL_encode bs = [] \<longleftrightarrow> bs = []"
  by (cases bs rule: RawURL_digits.cases) (simp_all add: RawURL_encode_def)

end
