(* ===== verification/Event_Bus.thy ===== *)
theory Event_Bus
  imports Pipeline Base64 "HOL-Library.Sublist" "HOL-Library.Multiset"
begin

text \<open>
  The document event bus, \<open>internal/events/bus.go\<close>, and its gRPC stream, \<open>internal/grpc/watch_documents.go\<close>.
  A channel is its buffer, its capacity and whether it is closed; a closed channel can still be drained.
  \<open>Publish\<close> takes its sequence number before the lock, so it is two steps: publishers can overtake each other.
\<close>

section \<open>The bus\<close>

record bus_event = doc_event +
  ev_Seq :: "64 word"
  ev_TimestampMs :: int

record subscriber =
  sub_buf :: "bus_event list"
  sub_cap :: nat
  sub_closed :: bool
  sub_dropped :: "64 word"

text \<open>\<open>bus_subs\<close> are the keys of the map of live subscribers; \<open>bus_chan\<close> holds every channel ever made.\<close>

record bus =
  bus_next :: "64 word"
  bus_subs :: "64 word list"
  bus_chan :: "64 word \<rightharpoonup> subscriber"
  bus_nextSubID :: "64 word"
  bus_closed :: bool

definition DefaultSubscriberBuffer :: int where "DefaultSubscriberBuffer = 64"

definition NewBus :: bus where
  "NewBus = \<lparr>bus_next = 0, bus_subs = [], bus_chan = Map.empty, bus_nextSubID = 0, bus_closed = False\<rparr>"

definition Subscribe :: "int \<Rightarrow> bus \<Rightarrow> 64 word \<times> 64 word \<times> bus" where
  "Subscribe buf0 b =
     (let buf = (if buf0 \<le> 0 then DefaultSubscriberBuffer else buf0);
          subID = bus_nextSubID b + 1;
          sub = \<lparr>sub_buf = [], sub_cap = nat buf, sub_closed = bus_closed b, sub_dropped = 0\<rparr>;
          b1 = b\<lparr>bus_nextSubID := subID, bus_chan := (bus_chan b)(subID \<mapsto> sub)\<rparr>
      in (subID, bus_next b + 1, if bus_closed b then b1 else b1\<lparr>bus_subs := subID # bus_subs b\<rparr>))"

definition close_sub :: "subscriber \<Rightarrow> subscriber" where
  "close_sub s = s\<lparr>sub_closed := True\<rparr>"

definition Unsubscribe :: "64 word \<Rightarrow> bus \<Rightarrow> bus" where
  "Unsubscribe subID b =
     (if subID \<in> set (bus_subs b)
      then b\<lparr>bus_subs := filter (\<lambda>i. i \<noteq> subID) (bus_subs b),
             bus_chan := (bus_chan b)(subID := map_option close_sub (bus_chan b subID))\<rparr>
      else b)"

text \<open>
  A full buffer drops the event for that subscriber. The fan-out of an event to all subscribers is one
  step here. The code only holds the read lock in it, so the fan-outs of two publishers can interleave
  between subscribers: the order in which two events reach one subscriber then need not be the order
  in which they reach another. What a single subscriber sees is the same, each fan-out being one
  non-blocking send to it.
\<close>

definition offer :: "bus_event \<Rightarrow> subscriber \<Rightarrow> subscriber" where
  "offer ev s =
     (if length (sub_buf s) < sub_cap s then s\<lparr>sub_buf := sub_buf s @ [ev]\<rparr>
      else s\<lparr>sub_dropped := sub_dropped s + 1\<rparr>)"

definition assign_seq :: "doc_event \<Rightarrow> int \<Rightarrow> bus \<Rightarrow> bus_event \<times> bus" where
  "assign_seq ev nowMs b =
     (let n = bus_next b + 1
      in (doc_event.extend ev \<lparr>ev_Seq = n, ev_TimestampMs = nowMs\<rparr>, b\<lparr>bus_next := n\<rparr>))"

definition fan_out_event :: "bus_event \<Rightarrow> bus \<Rightarrow> bus" where
  "fan_out_event ev b =
     b\<lparr>bus_chan := (\<lambda>i. if i \<in> set (bus_subs b) then map_option (offer ev) (bus_chan b i) else bus_chan b i)\<rparr>"

definition Publish :: "doc_event \<Rightarrow> int \<Rightarrow> bus \<Rightarrow> bus" where
  "Publish ev nowMs b = (case assign_seq ev nowMs b of (ev', b') \<Rightarrow> fan_out_event ev' b')"

definition bus_Close :: "bus \<Rightarrow> bus" where
  "bus_Close b =
     (if bus_closed b then b
      else b\<lparr>bus_closed := True, bus_subs := [],
             bus_chan := (\<lambda>i. if i \<in> set (bus_subs b) then map_option close_sub (bus_chan b i) else bus_chan b i)\<rparr>)"

definition NextSeq :: "bus \<Rightarrow> 64 word" where
  "NextSeq b = bus_next b + 1"

text \<open>Receiving: \<open>None\<close> blocks, \<open>Some (None, _)\<close> is a closed and drained channel.\<close>

definition receive :: "64 word \<Rightarrow> bus \<Rightarrow> (bus_event option \<times> bus) option" where
  "receive subID b =
     (case bus_chan b subID of
        None \<Rightarrow> None
      | Some s \<Rightarrow>
          (case sub_buf s of
             ev # evs \<Rightarrow> Some (Some ev, b\<lparr>bus_chan := (bus_chan b)(subID \<mapsto> s\<lparr>sub_buf := evs\<rparr>)\<rparr>)
           | [] \<Rightarrow> if sub_closed s then Some (None, b) else None))"

definition EncodeCursor :: "64 word \<Rightarrow> string" where
  "EncodeCursor n = RawURL_encode (le_bytes 8 (unat n))"

definition DecodeCursor :: "string \<Rightarrow> 64 word option" where
  "DecodeCursor s =
     (case RawURL_decode s of
        None \<Rightarrow> None
      | Some bs \<Rightarrow> if length bs \<noteq> 8 then None else Some (word_of_nat (le_value bs)))"

section \<open>The stream\<close>

text \<open>
  The wire form of an event, without the field \<open>After\<close>: the metadata of the document, which the events
  of the model do not carry.
\<close>

record wire_event =
  we_Type :: nat
  we_DocumentId :: string
  we_SourcePath :: string
  we_Cursor :: string
  we_TimestampMs :: int
  we_Deltas :: "(nat \<times> string \<times> string) list"

definition toEventTypePB :: "event_type \<Rightarrow> nat" where
  "toEventTypePB t =
     (case t of EventIngested \<Rightarrow> 0 | EventEmbedded \<Rightarrow> 1 | EventReingested \<Rightarrow> 2 | EventDeleted \<Rightarrow> 3)"

definition toChangeTypePB :: "chunk_change \<Rightarrow> nat" where
  "toChangeTypePB c = (case c of ChangeAdded \<Rightarrow> 0 | ChangeRemoved \<Rightarrow> 1 | ChangeUnchanged \<Rightarrow> 2)"

definition toEventProto :: "bus_event \<Rightarrow> wire_event" where
  "toEventProto ev =
     \<lparr>we_Type = toEventTypePB (ev_Type ev), we_DocumentId = ev_DocumentID ev, we_SourcePath = ev_SourcePath ev,
      we_Cursor = EncodeCursor (ev_Seq ev), we_TimestampMs = ev_TimestampMs ev,
      we_Deltas = map (\<lambda>x. (toChangeTypePB (cdl_Change x), NewChunkID x, PrevChunkID x)) (ev_Deltas ev)\<rparr>"

definition watchSubscriberBuffer :: int where "watchSubscriberBuffer = 64"

definition watch_start :: "string \<Rightarrow> 64 word \<Rightarrow> 64 word" where
  "watch_start cursor nextSeq =
     (if cursor = [] then nextSeq
      else (case DecodeCursor cursor of Some n \<Rightarrow> n + 1 | None \<Rightarrow> nextSeq))"

text \<open>The sender over the events it receives: what it sent, and the error that ended it.\<close>

fun watch_sender :: "64 word \<Rightarrow> (wire_event \<Rightarrow> 's \<Rightarrow> go_error option \<times> 's) \<Rightarrow> bus_event list \<Rightarrow> 's \<Rightarrow>
    wire_event list \<times> go_error option \<times> 's" where
  "watch_sender startSeq send [] s = ([], None, s)"
| "watch_sender startSeq send (ev # evs) s =
     (if ev_Seq ev < startSeq then watch_sender startSeq send evs s
      else (case send (toEventProto ev) s of
              (Some err, s') \<Rightarrow> ([], Some err, s')
            | (None, s') \<Rightarrow>
                (case watch_sender startSeq send evs s' of (sent, r) \<Rightarrow> (toEventProto ev # sent, r))))"

section \<open>Runs\<close>

text \<open>
  A world is a bus, the events whose publishers have a number and wait for the lock, and for every subscriber
  what was offered to it and what it has received.
\<close>

record bus_world =
  bw_bus :: bus
  bw_pending :: "bus_event list"
  bw_offered :: "64 word \<Rightarrow> bus_event list"
  bw_taken :: "64 word \<Rightarrow> bus_event list"

text \<open>Neither counter wraps around in less than \<open>2 ^ 64\<close> steps, which the guards on the counters leave out.\<close>

inductive bus_step :: "bus_world \<Rightarrow> bus_world \<Rightarrow> bool" where
  subscribe: "Subscribe buf (bw_bus w) = (i, nxt, b') \<Longrightarrow> bus_nextSubID (bw_bus w) < - 1 \<Longrightarrow>
     bus_step w (w\<lparr>bw_bus := b'\<rparr>)"
| assign: "assign_seq ev nowMs (bw_bus w) = (ev', b') \<Longrightarrow> bus_next (bw_bus w) < - 1 \<Longrightarrow>
     bus_step w (w\<lparr>bw_bus := b', bw_pending := ev' # bw_pending w\<rparr>)"
| fan_out: "ev \<in> set (bw_pending w) \<Longrightarrow>
     bus_step w (w\<lparr>bw_bus := fan_out_event ev (bw_bus w), bw_pending := remove1 ev (bw_pending w),
       bw_offered := (\<lambda>i. if i \<in> set (bus_subs (bw_bus w)) then bw_offered w i @ [ev] else bw_offered w i)\<rparr>)"
| take_event: "receive i (bw_bus w) = Some (Some ev, b') \<Longrightarrow>
     bus_step w (w\<lparr>bw_bus := b', bw_taken := (bw_taken w)(i := bw_taken w i @ [ev])\<rparr>)"
| unsubscribe: "bus_step w (w\<lparr>bw_bus := Unsubscribe i (bw_bus w)\<rparr>)"
| close: "bus_step w (w\<lparr>bw_bus := bus_Close (bw_bus w)\<rparr>)"

definition start_world :: bus_world where
  "start_world = \<lparr>bw_bus = NewBus, bw_pending = [], bw_offered = (\<lambda>_. []), bw_taken = (\<lambda>_. [])\<rparr>"

definition bus_reachable :: "bus_world \<Rightarrow> bool" where
  "bus_reachable w \<longleftrightarrow> bus_step\<^sup>*\<^sup>* start_world w"

text \<open>The books of one subscriber.\<close>

definition sub_balanced :: "bus_event list \<Rightarrow> bus_event list \<Rightarrow> subscriber \<Rightarrow> bool" where
  "sub_balanced offered taken s \<longleftrightarrow>
     subseq (taken @ sub_buf s) offered \<and> length (sub_buf s) \<le> sub_cap s \<and>
     sub_dropped s = word_of_nat (length offered - length (taken @ sub_buf s))"

definition numbered :: "64 word \<Rightarrow> bus_event list \<Rightarrow> bool" where
  "numbered n evs \<longleftrightarrow> distinct (map ev_Seq evs) \<and> (\<forall>ev \<in> set evs. ev_Seq ev \<le> n)"

definition seqs_ok :: "bus_world \<Rightarrow> bool" where
  "seqs_ok w \<longleftrightarrow> (\<forall>i. numbered (bus_next (bw_bus w)) (bw_offered w i @ bw_pending w))"

definition bus_ok :: "bus_world \<Rightarrow> bool" where
  "bus_ok w \<longleftrightarrow>
     (\<forall>i s. bus_chan (bw_bus w) i = Some s \<longrightarrow>
        i \<le> bus_nextSubID (bw_bus w) \<and> sub_balanced (bw_offered w i) (bw_taken w i) s \<and>
        (sub_closed s \<longleftrightarrow> i \<notin> set (bus_subs (bw_bus w)))) \<and>
     (\<forall>i. bus_chan (bw_bus w) i = None \<longrightarrow>
        i \<notin> set (bus_subs (bw_bus w)) \<and> bw_offered w i = [] \<and> bw_taken w i = []) \<and>
     (bus_closed (bw_bus w) \<longrightarrow> bus_subs (bw_bus w) = [])"

section \<open>The books are kept\<close>

lemma sub_balanced_fresh: "sub_balanced [] [] \<lparr>sub_buf = [], sub_cap = n, sub_closed = c, sub_dropped = 0\<rparr>"
  by (simp add: sub_balanced_def)

lemma sub_balanced_offer:
  assumes "sub_balanced offered taken s"
  shows "sub_balanced (offered @ [ev]) taken (offer ev s)"
proof -
  have len: "length taken + length (sub_buf s) \<le> length offered"
    using assms by (auto simp: sub_balanced_def dest: list_emb_length)
  then have "Suc (length offered) - (length taken + length (sub_buf s)) = Suc (length offered - (length taken + length (sub_buf s)))"
    by (rule Suc_diff_le)
  then show "sub_balanced (offered @ [ev]) taken (offer ev s)"
    using assms list_emb_append_mono [of "(=)" "taken @ sub_buf s" offered "[ev]" "[ev]"]
      list_emb_prefix [of "(=)" "taken @ sub_buf s" offered "[ev]"]
    by (auto simp: sub_balanced_def offer_def add.commute)
qed

lemma sub_closed_offer [simp]: "sub_closed (offer ev s) = sub_closed s"
  by (simp add: offer_def)

lemma sub_balanced_close [simp]: "sub_balanced offered taken (close_sub s) = sub_balanced offered taken s"
  by (simp add: sub_balanced_def close_sub_def)

lemma sub_balanced_take:
  "sub_balanced offered taken s \<Longrightarrow> sub_buf s = ev # evs \<Longrightarrow>
   sub_balanced offered (taken @ [ev]) (s\<lparr>sub_buf := evs\<rparr>)"
  by (simp add: sub_balanced_def)

inductive_cases bus_stepE: "bus_step w w'"

lemma bus_ok_start: "bus_ok start_world" "seqs_ok start_world"
  by (simp_all add: bus_ok_def seqs_ok_def numbered_def start_world_def NewBus_def)

lemma word_Suc_greater: "(n :: 64 word) < - 1 \<Longrightarrow> n < n + 1"
proof -
  assume "n < - 1"
  then have "1 + n \<noteq> 0"
    by (metis add.commute add_eq_0_iff2 less_irrefl minus_equation_iff)
  then show ?thesis
    by (simp add: word_less_nat_alt unatSuc add.commute [of n])
qed

lemma bus_ok_step: "bus_step w w' \<Longrightarrow> bus_ok w \<Longrightarrow> bus_ok w'"
proof (induction rule: bus_step.induct)
  case (subscribe buf w i nxt b')
  let ?n = "bus_nextSubID (bw_bus w) + 1"
  have less: "bus_nextSubID (bw_bus w) < ?n"
    by (rule word_Suc_greater [OF subscribe(2)])
  then have none: "bus_chan (bw_bus w) ?n = None"
    using subscribe(3) unfolding bus_ok_def by (metis leD not_None_eq)
  then have "?n \<notin> set (bus_subs (bw_bus w))" "bw_offered w ?n = []" "bw_taken w ?n = []"
    using subscribe(3) by (simp_all add: bus_ok_def)
  moreover have "x \<le> ?n" if "x \<le> bus_nextSubID (bw_bus w)" for x
    using that less by (meson le_less_trans less_imp_le)
  ultimately show ?case
    using subscribe(1,3) none by (auto simp: bus_ok_def Subscribe_def Let_def sub_balanced_fresh split: if_splits)
next
  case (assign ev nowMs w ev' b')
  then show ?case
    by (auto simp: bus_ok_def assign_seq_def Let_def)
next
  case (fan_out ev w)
  then show ?case
    by (auto simp: bus_ok_def fan_out_event_def sub_balanced_offer split: if_splits)
next
  case (take_event i w ev b')
  then show ?case
    by (auto simp: bus_ok_def receive_def sub_balanced_take split: option.splits list.splits if_splits)
next
  case (unsubscribe w i)
  then show ?case
    by (auto simp: bus_ok_def Unsubscribe_def close_sub_def [abs_def] sub_balanced_def split: if_splits)
next
  case (close w)
  then show ?case
    by (auto simp: bus_ok_def bus_Close_def close_sub_def [abs_def] sub_balanced_def split: if_splits)
qed

lemma numbered_mset:
  assumes "mset evs' \<subseteq># mset evs" and "numbered n evs"
  shows "numbered n evs'"
proof -
  obtain rest where "mset evs = mset (evs' @ rest)"
    using assms(1) by (metis ex_mset mset_append subset_mset.less_eqE)
  then have "mset (map ev_Seq evs) = mset (map ev_Seq (evs' @ rest))" "set evs = set (evs' @ rest)"
    by (metis mset_map, metis set_mset_mset)
  then have "numbered n (evs' @ rest)"
    using assms(2) unfolding numbered_def by (metis mset_eq_imp_distinct_iff)
  then show ?thesis
    by (simp add: numbered_def)
qed

lemma numbered_next:
  assumes "numbered n (xs @ ys)" and "n < - 1" and "ev_Seq ev = n + 1"
  shows "numbered (n + 1) (xs @ ev # ys)"
proof -
  have less: "ev_Seq x < n + 1" if "x \<in> set (xs @ ys)" for x
    using assms(1) that word_Suc_greater [OF assms(2)] by (auto simp: numbered_def intro: le_less_trans)
  then have "n + 1 \<notin> ev_Seq ` set (xs @ ys)" by (metis imageE less_irrefl)
  then show ?thesis
    using assms(1,3) less by (auto simp: numbered_def less_imp_le)
qed

lemma seqs_ok_step: "bus_step w w' \<Longrightarrow> seqs_ok w \<Longrightarrow> seqs_ok w'"
proof (induction rule: bus_step.induct)
  case (subscribe buf w i nxt b')
  then show ?case by (auto simp: seqs_ok_def Subscribe_def Let_def split: if_splits)
next
  case (assign ev nowMs w ev' b')
  have "ev_Seq ev' = bus_next (bw_bus w) + 1" "bus_next b' = bus_next (bw_bus w) + 1"
    using assign(1) by (auto simp: assign_seq_def Let_def doc_event.extend_def)
  then show ?case
    using assign(3) numbered_next [OF _ assign(2), where ev = ev'] by (simp add: seqs_ok_def)
next
  case (fan_out ev w)
  have "mset (bw_offered w i @ ev # remove1 ev (bw_pending w)) = mset (bw_offered w i @ bw_pending w)" for i
    using fan_out(1) by simp
  then have "mset (bw_offered w i @ ev # remove1 ev (bw_pending w)) \<subseteq># mset (bw_offered w i @ bw_pending w)"
    "mset (bw_offered w i @ remove1 ev (bw_pending w)) \<subseteq># mset (bw_offered w i @ bw_pending w)" for i
    by (simp only: subset_mset.order_refl, simp add: diff_subset_eq_self)
  then have "numbered (bus_next (bw_bus w)) (bw_offered w i @ ev # remove1 ev (bw_pending w))"
    "numbered (bus_next (bw_bus w)) (bw_offered w i @ remove1 ev (bw_pending w))" for i
    using fan_out(2) numbered_mset unfolding seqs_ok_def by blast+
  then show ?case
    by (simp add: seqs_ok_def fan_out_event_def)
next
  case (take_event i w ev b')
  then show ?case
    by (auto simp: seqs_ok_def receive_def split: option.splits list.splits if_splits)
next
  case (unsubscribe w i)
  then show ?case by (auto simp: seqs_ok_def Unsubscribe_def)
next
  case (close w)
  then show ?case by (auto simp: seqs_ok_def bus_Close_def)
qed

lemma bus_reachable_ok:
  assumes "bus_reachable w"
  shows "bus_ok w" "seqs_ok w"
proof -
  have "bus_ok w \<and> seqs_ok w"
    using assms [unfolded bus_reachable_def]
    by (induction rule: rtranclp_induct) (auto simp: bus_ok_start intro: bus_ok_step seqs_ok_step)
  then show "bus_ok w" "seqs_ok w" by blast+
qed

text \<open>C28: the books of the bus are kept. However publishers, subscribers and the shutdown interleave: what a
  subscriber has received and still has in its buffer is, in order, a part of what was offered to it,
  with no event twice; its buffer never exceeds its capacity; the dropped counter is the number of
  offered events it will not get; and a channel is closed exactly when it is no longer in the
  map that \<open>Publish\<close> sends to, so nothing is sent on a closed channel.\<close>

theorem bus_accounts:
  assumes "bus_reachable w" and "bus_chan (bw_bus w) i = Some s"
  shows "subseq (bw_taken w i @ sub_buf s) (bw_offered w i) \<and> distinct (map ev_Seq (bw_offered w i)) \<and>
    length (sub_buf s) \<le> sub_cap s \<and>
    sub_dropped s = word_of_nat (length (bw_offered w i) - length (bw_taken w i @ sub_buf s)) \<and>
    (sub_closed s \<longleftrightarrow> i \<notin> set (bus_subs (bw_bus w)))"
  using bus_reachable_ok [OF assms(1)] assms(2) by (simp add: bus_ok_def seqs_ok_def numbered_def sub_balanced_def)

lemma small_word: "(0 :: 64 word) < - 1" "(1 :: 64 word) < - 1"
  by code_simp+

text \<open>A small run: one subscriber with room for one event, two events published, one dropped.\<close>

definition demo_event :: "string \<Rightarrow> doc_event" where
  "demo_event docID =
     \<lparr>ev_Type = EventIngested, ev_DocumentID = docID, ev_SourcePath = [], ev_After = blank_document, ev_Deltas = []\<rparr>"

definition demo_bus :: bus where
  "demo_bus = Publish (demo_event ''b'') 2 (Publish (demo_event ''a'') 1 (snd (snd (Subscribe 1 NewBus))))"

lemma Publish_steps:
  assumes "bus_reachable w" and "bw_pending w = []" and "bus_next (bw_bus w) < - 1"
  shows "\<exists>w'. bus_reachable w' \<and> bw_bus w' = Publish ev nowMs (bw_bus w) \<and> bw_pending w' = [] \<and>
    bw_taken w' = bw_taken w \<and>
    bw_offered w' = (\<lambda>i. if i \<in> set (bus_subs (bw_bus w)) then bw_offered w i @ [fst (assign_seq ev nowMs (bw_bus w))] else bw_offered w i)"
proof -
  obtain ev' b' where a: "assign_seq ev nowMs (bw_bus w) = (ev', b')" by (metis prod.collapse)
  let ?w1 = "w\<lparr>bw_bus := b', bw_pending := ev' # bw_pending w\<rparr>"
  have 1: "bus_step w ?w1" by (rule bus_step.assign [OF a assms(3)])
  have subs: "bus_subs b' = bus_subs (bw_bus w)"
    using a by (auto simp: assign_seq_def Let_def)
  have "bus_step ?w1 (?w1\<lparr>bw_bus := fan_out_event ev' (bw_bus ?w1), bw_pending := remove1 ev' (bw_pending ?w1),
      bw_offered := (\<lambda>i. if i \<in> set (bus_subs (bw_bus ?w1)) then bw_offered ?w1 i @ [ev'] else bw_offered ?w1 i)\<rparr>)" (is "bus_step _ ?w2")
    by (rule bus_step.fan_out) simp
  then have "bus_reachable ?w2"
    using assms(1) 1 unfolding bus_reachable_def by (meson rtranclp.rtrancl_into_rtrancl)
  then show ?thesis
    by (intro exI [of _ ?w2]) (simp add: a Publish_def assms(2) subs fun_eq_iff)
qed

theorem bus_accounts_witness:
  "\<exists>w s. bus_reachable w \<and> bw_bus w = demo_bus \<and> bus_chan demo_bus 1 = Some s \<and>
     length (bw_offered w 1) = 2 \<and> length (sub_buf s) = 1 \<and> sub_dropped s = 1 \<and> \<not> sub_closed s"
proof -
  obtain b0 nxt where sub: "Subscribe 1 NewBus = (1, nxt, b0)" and b0: "bus_next b0 = 0" "bus_subs b0 = [1]"
    by (simp add: Subscribe_def NewBus_def)
  let ?w0 = "start_world\<lparr>bw_bus := b0\<rparr>"
  have "bus_step start_world ?w0"
    by (rule bus_step.subscribe [of 1 _ 1 nxt]) (simp_all add: start_world_def sub, simp add: NewBus_def small_word)
  then have r0: "bus_reachable ?w0" by (simp add: bus_reachable_def r_into_rtranclp)
  obtain w1 where w1: "bus_reachable w1" "bw_bus w1 = Publish (demo_event ''a'') 1 b0" "bw_pending w1 = []"
      "bw_taken w1 1 = []" "length (bw_offered w1 1) = 1"
    using Publish_steps [OF r0, of "demo_event ''a''" 1] by (auto simp: b0 start_world_def small_word)
  have n1: "bus_next (bw_bus w1) = 1" "bus_subs (bw_bus w1) = [1]"
    by (simp_all add: w1(2) Publish_def assign_seq_def fan_out_event_def Let_def b0)
  obtain w2 where w2: "bus_reachable w2" "bw_bus w2 = Publish (demo_event ''b'') 2 (bw_bus w1)" "bw_taken w2 1 = []"
      "length (bw_offered w2 1) = 2"
    using Publish_steps [OF w1(1,3), of "demo_event ''b''" 2] w1(4,5) by (auto simp: n1 small_word)
  have bus: "bw_bus w2 = demo_bus"
    by (simp add: w2(2) w1(2) demo_bus_def sub)
  obtain s where s: "bus_chan demo_bus 1 = Some s" "length (sub_buf s) = 1"
    by (simp add: demo_bus_def Subscribe_def NewBus_def Publish_def assign_seq_def fan_out_event_def offer_def Let_def)
  have "bus_subs demo_bus = [1]"
    unfolding bus [symmetric] w2(2) by (simp add: Publish_def assign_seq_def fan_out_event_def Let_def n1)
  then show ?thesis
    using bus_accounts [OF w2(1), of 1 s] w2 s by (intro exI [of _ w2] exI [of _ s]) (simp add: bus)
qed

section \<open>Cursors\<close>

lemma DecodeCursor_EncodeCursor [simp]: "DecodeCursor (EncodeCursor n) = Some n"
proof -
  have "unat n < 2 ^ LENGTH(64)" by (rule unsigned_less)
  then have "unat n mod 256 ^ 8 = unat n" by simp
  then show ?thesis
    by (simp add: DecodeCursor_def EncodeCursor_def le_value_le_bytes)
qed

lemma watch_sender_filter:
  assumes "\<And>e s. fst (send e s) = None"
  shows "fst (watch_sender startSeq send evs s) = map toEventProto (filter (\<lambda>ev. startSeq \<le> ev_Seq ev) evs) \<and>
    fst (snd (watch_sender startSeq send evs s)) = None"
proof (induction evs arbitrary: s)
  case (Cons ev evs)
  obtain s' where "send (toEventProto ev) s = (None, s')"
    using assms [of "toEventProto ev" s] by (metis prod.collapse)
  then show ?case
    using Cons [of s] Cons [of s'] by (auto simp: case_prod_unfold not_less not_le)
qed simp

text \<open>C29: resuming is exact on a running bus. A client that reconnects with the cursor of an event it has
  received is sent, of the events its new subscription receives, exactly those with a larger sequence
  number, in order; without a cursor it is sent the events published after it subscribed.\<close>

theorem cursor_resume_exact:
  assumes "\<And>e s. fst (send e s) = None" and "ev_Seq seen < - 1"
  shows "fst (watch_sender (watch_start (we_Cursor (toEventProto seen)) nextSeq) send evs s) =
      map toEventProto (filter (\<lambda>ev. ev_Seq seen < ev_Seq ev) evs) \<and>
    fst (watch_sender (watch_start [] nextSeq) send evs s) = map toEventProto (filter (\<lambda>ev. nextSeq \<le> ev_Seq ev) evs)"
proof -
  have "EncodeCursor (ev_Seq seen) \<noteq> []"
    by (simp add: EncodeCursor_def) (metis length_le_bytes list.size(3) zero_neq_numeral)
  moreover have "ev_Seq seen + 1 \<le> n \<longleftrightarrow> ev_Seq seen < n" for n
    using less_le_trans [OF word_Suc_greater [OF assms(2)]] inc_le by blast
  ultimately show ?thesis
    by (simp add: watch_sender_filter [OF assms(1)] watch_start_def toEventProto_def)
qed

theorem cursor_resume_exact_witness:
  "fst (watch_sender (watch_start (EncodeCursor 1) 9) (\<lambda>_ s. (None, s))
     [fst (assign_seq (demo_event ''a'') 5 NewBus), fst (assign_seq (demo_event ''b'') 6 (NewBus\<lparr>bus_next := 1\<rparr>))] ()) =
   [toEventProto (fst (assign_seq (demo_event ''b'') 6 (NewBus\<lparr>bus_next := 1\<rparr>)))]"
proof -
  let ?a = "fst (assign_seq (demo_event ''a'') 5 NewBus)" and ?b = "fst (assign_seq (demo_event ''b'') 6 (NewBus\<lparr>bus_next := 1\<rparr>))"
  have s: "ev_Seq ?a = 1" "ev_Seq ?b = 2"
    by (simp_all add: assign_seq_def doc_event.extend_def NewBus_def Let_def)
  have "we_Cursor (toEventProto ?a) = EncodeCursor 1"
    by (simp add: toEventProto_def s)
  then show ?thesis
    using cursor_resume_exact [of "\<lambda>_ s. (None, s)" ?a 9 "[?a, ?b]" "()"] small_word
    by (simp only: s filter.simps) simp
qed

section \<open>Cursors of an earlier process\<close>

text \<open>Any interleaving of publishers with a client that drains its channel: the bus and what the client received.\<close>

datatype client_op = ClientPublish doc_event int | ClientReceive

fun client_step :: "64 word \<Rightarrow> client_op \<Rightarrow> bus \<times> bus_event list \<Rightarrow> bus \<times> bus_event list" where
  "client_step i (ClientPublish ev ms) (b, taken) = (Publish ev ms b, taken)"
| "client_step i ClientReceive (b, taken) =
     (case receive i b of Some (Some ev, b') \<Rightarrow> (b', taken @ [ev]) | _ \<Rightarrow> (b, taken))"

definition client_run :: "64 word \<Rightarrow> client_op list \<Rightarrow> bus \<Rightarrow> bus \<times> bus_event list" where
  "client_run i ops b = fold (client_step i) ops (b, [])"

fun published :: "client_op list \<Rightarrow> doc_event list" where
  "published [] = []"
| "published (ClientPublish ev ms # ops) = ev # published ops"
| "published (ClientReceive # ops) = published ops"

text \<open>The published events with the numbers a fresh bus gives them: 1, 2 and so on.\<close>

definition numbers_from_1 :: "doc_event list \<Rightarrow> bus_event list \<Rightarrow> bool" where
  "numbers_from_1 evs ns \<longleftrightarrow>
     map (unat \<circ> ev_Seq) ns = [1..<Suc (length evs)] \<and> map ev_DocumentID ns = map ev_DocumentID evs"

definition client_inv :: "64 word \<Rightarrow> doc_event list \<Rightarrow> bus_event list \<Rightarrow> bus \<times> bus_event list \<Rightarrow> bool" where
  "client_inv i evs ns st \<longleftrightarrow> numbers_from_1 evs ns \<and> bus_next (fst st) = word_of_nat (length evs) \<and>
     i \<in> set (bus_subs (fst st)) \<and> (\<exists>s. bus_chan (fst st) i = Some s \<and> sub_balanced ns (snd st) s)"

lemma unat_of_nat_64: "m < 2 ^ 64 \<Longrightarrow> unat (word_of_nat m :: 64 word) = m"
  by (simp add: unsigned_of_nat take_bit_nat_eq_self)

lemma client_inv_publish:
  assumes "client_inv i evs ns (b, taken)" and "length evs < 2 ^ 64 - 1"
  shows "\<exists>ns'. client_inv i (evs @ [ev]) ns' (Publish ev ms b, taken)"
proof -
  obtain s where s: "bus_chan b i = Some s" "sub_balanced ns taken s"
    and b: "numbers_from_1 evs ns" "bus_next b = word_of_nat (length evs)" "i \<in> set (bus_subs b)"
    using assms(1) by (auto simp: client_inv_def)
  define ev' where "ev' = fst (assign_seq ev ms b)"
  have ev': "ev_DocumentID ev' = ev_DocumentID ev" "ev_Seq ev' = word_of_nat (Suc (length evs))"
    by (simp_all add: ev'_def assign_seq_def doc_event.extend_def b(2) Let_def)
  have "unat (ev_Seq ev') = Suc (length evs)"
    unfolding ev'(2) using assms(2) by (intro unat_of_nat_64) simp
  then have "numbers_from_1 (evs @ [ev]) (ns @ [ev'])"
    using b(1) ev'(1) by (simp add: numbers_from_1_def)
  moreover have "Publish ev ms b = fan_out_event ev' (b\<lparr>bus_next := bus_next b + 1\<rparr>)"
    by (simp add: Publish_def ev'_def assign_seq_def Let_def)
  ultimately show ?thesis
    using b(2,3) s(1) sub_balanced_offer [OF s(2), of ev']
    by (intro exI [of _ "ns @ [ev']"]) (simp add: client_inv_def fan_out_event_def)
qed

lemma client_inv_receive:
  assumes "client_inv i evs ns (b, taken)"
  shows "client_inv i evs ns (client_step i ClientReceive (b, taken))"
proof -
  obtain s where s: "bus_chan b i = Some s" "sub_balanced ns taken s"
    using assms by (auto simp: client_inv_def)
  then show ?thesis
    using assms sub_balanced_take [OF s(2)]
    by (cases "sub_buf s") (auto simp: client_inv_def receive_def)
qed

lemma client_run_inv:
  assumes "client_inv i evs ns (b, taken)" and "length evs + length (published ops) < 2 ^ 64"
  shows "\<exists>ns'. client_inv i (evs @ published ops) ns' (fold (client_step i) ops (b, taken))"
  using assms
proof (induction ops arbitrary: evs ns b taken)
  case (Cons op ops)
  show ?case
  proof (cases op)
    case (ClientPublish ev ms)
    obtain ns' where "client_inv i (evs @ [ev]) ns' (Publish ev ms b, taken)"
      using client_inv_publish [OF Cons.prems(1), of ev ms] Cons.prems(2) ClientPublish by auto
    from Cons.IH [OF this] show ?thesis
      using Cons.prems(2) ClientPublish by simp
  next
    case ClientReceive
    obtain b' taken' where st: "client_step i ClientReceive (b, taken) = (b', taken')"
      by (metis prod.collapse)
    have "client_inv i evs ns (b', taken')"
      using client_inv_receive [OF Cons.prems(1)] st by simp
    from Cons.IH [OF this] show ?thesis
      using Cons.prems(2) ClientReceive st by simp
  qed
qed auto

lemma nothing_dropped:
  assumes "sub_balanced ns taken s" and "length ns < 2 ^ 64" and "sub_dropped s = 0"
  shows "taken @ sub_buf s = ns"
proof -
  have sub: "subseq (taken @ sub_buf s) ns"
    using assms(1) by (simp add: sub_balanced_def)
  have "unat (word_of_nat (length ns - length (taken @ sub_buf s)) :: 64 word) =
      length ns - length (taken @ sub_buf s)"
    using assms(2) by (intro unat_of_nat_64) simp
  then have "length ns \<le> length (taken @ sub_buf s)"
    using assms(1,3) by (simp add: sub_balanced_def)
  then show ?thesis
    using sub by (metis le_antisym list_emb_length subseq_same_length)
qed

text \<open>C30: a cursor of an earlier process mutes the stream. Sequence numbers start over with every process. A
  client resumes on a fresh bus with a cursor at position \<open>n\<close> and drains its channel while any number of
  events is published, in any interleaving (the channel holds 64 events; an event that finds it full is
  dropped and counted). What it has received and what waits in its channel are events of the new
  process, all of them if none was dropped. As long as at most \<open>n\<close> events were published the handler
  sends none of those it receives; after that it sends exactly the received ones numbered above \<open>n\<close>:
  the first \<open>n\<close> events of the new process are lost to this client.\<close>

theorem stale_cursor_mutes:
  assumes "Subscribe watchSubscriberBuffer NewBus = (i, nextSeq, b)" and "client_run i ops b = (b', taken)"
    and "length (published ops) < 2 ^ 64" and "n < - 1"
  shows "\<exists>s ns. bus_chan b' i = Some s \<and> numbers_from_1 (published ops) ns \<and> sub_balanced ns taken s \<and>
    (sub_dropped s = 0 \<longrightarrow> taken @ sub_buf s = ns) \<and>
    (length (published ops) \<le> unat n \<longrightarrow>
      watch_sender (watch_start (EncodeCursor n) nextSeq) send taken x = ([], None, x)) \<and>
    ((\<forall>e y. fst (send e y) = None) \<longrightarrow>
      fst (watch_sender (watch_start (EncodeCursor n) nextSeq) send taken x) =
        map toEventProto (filter (\<lambda>ev. unat n < unat (ev_Seq ev)) taken))"
proof -
  have "client_inv i [] [] (b, [])"
    using assms(1) sub_balanced_fresh [of 64 False]
    by (auto simp: Subscribe_def NewBus_def watchSubscriberBuffer_def Let_def client_inv_def numbers_from_1_def)
  from client_run_inv [OF this, of ops] assms(2,3)
  obtain ns where "client_inv i (published ops) ns (b', taken)"
    by (auto simp: client_run_def)
  then obtain s where s: "bus_chan b' i = Some s" "numbers_from_1 (published ops) ns" "sub_balanced ns taken s"
    by (auto simp: client_inv_def)
  have start: "watch_start (EncodeCursor n) nextSeq = n + 1"
    by (simp add: watch_start_def EncodeCursor_def) (metis DecodeCursor_EncodeCursor EncodeCursor_def
      length_le_bytes list.size(3) option.simps(5) zero_neq_numeral)
  have above: "n + 1 \<le> m \<longleftrightarrow> unat n < unat m" for m
    using less_le_trans [OF word_Suc_greater [OF assms(4)]] inc_le word_less_nat_alt by blast
  have seqs: "unat (ev_Seq ev) \<le> length (published ops)" if "ev \<in> set taken" for ev
  proof -
    have "ev \<in> set ns"
      using s(3) that by (auto simp: sub_balanced_def dest: list_emb_set)
    then have "unat (ev_Seq ev) \<in> set (map (unat \<circ> ev_Seq) ns)"
      by simp
    then have "unat (ev_Seq ev) \<in> set [1..<Suc (length (published ops))]"
      using s(2) unfolding numbers_from_1_def by metis
    then show ?thesis
      by (simp only: set_upt atLeastLessThan_iff less_Suc_eq_le)
  qed
  have "watch_sender (n + 1) send evs x = ([], None, x)"
    if "\<forall>ev \<in> set evs. unat (ev_Seq ev) \<le> unat n" for evs
    using that above by (induction evs) (auto simp: not_le [symmetric])
  then have "length (published ops) \<le> unat n \<longrightarrow> watch_sender (n + 1) send taken x = ([], None, x)"
    using seqs by (meson le_trans)
  moreover have "length ns < 2 ^ 64"
    using s(2) assms(3) unfolding numbers_from_1_def by (metis length_map)
  ultimately show ?thesis
    using s nothing_dropped [OF s(3)] watch_sender_filter [of send "n + 1" taken x]
    unfolding start above by blast
qed

theorem stale_cursor_mutes_witness:
  "\<exists>i nextSeq b b' taken. Subscribe watchSubscriberBuffer NewBus = (i, nextSeq, b) \<and>
     client_run i [ClientPublish (demo_event ''a'') 1, ClientReceive] b = (b', taken) \<and>
     map ev_DocumentID taken = [''a''] \<and>
     watch_sender (watch_start (EncodeCursor 1) nextSeq) (\<lambda>_ x. (None, x)) taken () = ([], None, ())"
proof -
  obtain i nextSeq b where sub: "Subscribe watchSubscriberBuffer NewBus = (i, nextSeq, b)"
    by (metis prod.collapse)
  let ?ops = "[ClientPublish (demo_event ''a'') 1, ClientReceive]"
  obtain b' taken where run: "client_run i ?ops b = (b', taken)"
    by (metis prod.collapse)
  have "map ev_DocumentID taken = [''a'']"
    using sub run
    by (auto simp: client_run_def Subscribe_def NewBus_def watchSubscriberBuffer_def Let_def Publish_def
        assign_seq_def fan_out_event_def offer_def receive_def doc_event.extend_def demo_event_def)
  then show ?thesis
    using stale_cursor_mutes [OF sub run, of 1 "\<lambda>_ x. (None, x)" "()"] sub run small_word by auto
qed

end
