(* ===== verification/Auth.thy ===== *)
theory Auth
  imports Pebble_Store Model Base64 Go_Strings Utf8
begin

text \<open>
  Credentials: \<open>internal/auth\<close>. SHA-256 (\<open>au_sha\<close>), bcrypt and JSON are parameters. Random bytes and the clock
  are arguments: \<open>rnd\<close> is the outcome of \<open>randomBytes(32)\<close>, times are nanoseconds. The padding of failed
  lookups against timing attacks has no effect on results and is left out.
\<close>

section \<open>Records and store\<close>

record apikey =
  ak_ID :: string
  ak_Label :: string
  ak_Mode :: string
  ak_CreatedAt :: int
  ak_ExpiresAt :: "int option"
  ak_Enabled :: bool
  ak_LastSeen :: int
  ak_StorageHash :: bytes

record session =
  se_TokenHash :: bytes
  se_User :: string
  se_ExpiresAt :: int
  se_LastSeen :: int
  se_CreatedIP :: string
  se_CreatedAt :: int

record admin_user =
  ad_Username :: string
  ad_PassHash :: bytes
  ad_CreatedAt :: int

record principal =
  pn_Subject :: string
  pn_Mode :: string
  pn_Source :: string

definition ModeRead :: string where "ModeRead = ''read''"
definition ModeWrite :: string where "ModeWrite = ''write''"
definition ModeAdmin :: string where "ModeAdmin = ''admin''"
definition SourceAPIKey :: string where "SourceAPIKey = ''apikey''"
definition SourceSession :: string where "SourceSession = ''session''"
definition SourceBypass :: string where "SourceBypass = ''bypass''"
definition maxBearerLen :: nat where "maxBearerLen = 4096"
definition apikeyPrefix :: string where "apikeyPrefix = ''gorag_''"
definition sessionPrefix :: string where "sessionPrefix = ''gorags_''"
definition DefaultAdminUsername :: string where "DefaultAdminUsername = ''admin''"
definition DefaultSessionTTL :: int where "DefaultSessionTTL = 12 * 3600 * 1000000000"

definition ErrUnknownAPIKey :: go_error where "ErrUnknownAPIKey = Failed ''unknown or disabled api key''"
definition ErrUnknownSession :: go_error where "ErrUnknownSession = Failed ''unknown or expired session''"
definition ErrNoCredential :: go_error where "ErrNoCredential = Failed ''no bearer credential''"
definition ErrUnknownCredential :: go_error where "ErrUnknownCredential = Failed ''invalid bearer credential''"
definition ErrUnknownAdmin :: go_error where "ErrUnknownAdmin = Failed ''unknown admin user''"
definition ErrBadPassword :: go_error where "ErrBadPassword = Failed ''bad password''"

record 'db auth_env =
  au_P :: "'db pebble_ops"
  au_sha :: "bytes \<Rightarrow> bytes"
  au_key :: "apikey codec"
  au_sess :: "session codec"
  au_admin :: "admin_user codec"
  au_bcrypt :: "bytes \<Rightarrow> bytes gres"
  au_bcrypt_ok :: "bytes \<Rightarrow> bytes \<Rightarrow> bool"

definition hash16 :: "'db auth_env \<Rightarrow> bytes \<Rightarrow> bytes" where
  "hash16 A v = take 16 (au_sha A v)"

definition id8 :: "'db auth_env \<Rightarrow> bytes \<Rightarrow> string" where
  "id8 A v = RawURL_encode (take 8 (au_sha A v))"

section \<open>API keys\<close>

definition validMode :: "string \<Rightarrow> bool" where
  "validMode m \<longleftrightarrow> m = ModeRead \<or> m = ModeWrite \<or> m = ModeAdmin"

text \<open>The part behind the last dot.\<close>

definition after_last_dot :: "string \<Rightarrow> string" where
  "after_last_dot s = rev (takeWhile (\<lambda>c. c \<noteq> CHR ''.'') (rev s))"

definition secretBytesFromBearer :: "string \<Rightarrow> bytes option" where
  "secretBytesFromBearer bearer =
     (if length bearer < length apikeyPrefix + 1 \<or> take (length apikeyPrefix) bearer \<noteq> apikeyPrefix then None
      else (case RawURL_decode (after_last_dot (drop (length apikeyPrefix) bearer)) of
              None \<Rightarrow> None
            | Some b \<Rightarrow> if length b \<noteq> 32 then None else Some b))"

definition CreateAPIKey ::
    "'db auth_env \<Rightarrow> bytes gres \<Rightarrow> int \<Rightarrow> string \<Rightarrow> string \<Rightarrow> int option \<Rightarrow> 'db \<Rightarrow> (string \<times> apikey) gres \<times> 'db" where
  "CreateAPIKey A rnd now label mode expiresAt d =
     (if \<not> validMode mode then (Inl (ErrInvalid ''mode''), d)
      else case rnd of
        Inl e \<Rightarrow> (Inl e, d)
      | Inr secret \<Rightarrow>
          (let h = au_sha A secret; storageHash = take 16 h; kid = apikeyPrefix @ RawURL_encode (take 8 h);
               key = \<lparr>ak_ID = kid, ak_Label = label, ak_Mode = mode, ak_CreatedAt = now, ak_ExpiresAt = expiresAt,
                      ak_Enabled = True, ak_LastSeen = 0, ak_StorageHash = storageHash\<rparr>
           in case cd_marshal (au_key A) key of
                None \<Rightarrow> (Inl (Failed ''json''), d)
              | Some val \<Rightarrow>
                  (case DB_SetWithPrefix (au_P A) d PrefixAuthAPIKey storageHash val of
                     Inl e \<Rightarrow> (Inl e, d)
                   | Inr d' \<Rightarrow> (Inr (kid @ ''.'' @ RawURL_encode secret, key), d'))))"

definition usable_key :: "int \<Rightarrow> apikey \<Rightarrow> bool" where
  "usable_key now key \<longleftrightarrow> ak_Enabled key \<and> (case ak_ExpiresAt key of None \<Rightarrow> True | Some t \<Rightarrow> \<not> t < now)"

definition lookup_key :: "'db auth_env \<Rightarrow> int \<Rightarrow> bytes \<Rightarrow> 'db \<Rightarrow> apikey gres" where
  "lookup_key A now storageHash d =
     (case DB_GetWithPrefix (au_P A) d PrefixAuthAPIKey storageHash of
        Inr (Some val) \<Rightarrow>
          (case cd_unmarshal (au_key A) val of
             None \<Rightarrow> Inl ErrUnknownAPIKey
           | Some key \<Rightarrow> if usable_key now key then Inr key else Inl ErrUnknownAPIKey)
      | _ \<Rightarrow> Inl ErrUnknownAPIKey)"

definition ValidateAPIKey :: "'db auth_env \<Rightarrow> int \<Rightarrow> string \<Rightarrow> 'db \<Rightarrow> apikey gres" where
  "ValidateAPIKey A now bearer d =
     (case secretBytesFromBearer bearer of
        None \<Rightarrow> Inl ErrUnknownAPIKey
      | Some secret \<Rightarrow> lookup_key A now (hash16 A secret) d)"

definition ValidateAPIKeyRaw :: "'db auth_env \<Rightarrow> int \<Rightarrow> string \<Rightarrow> 'db \<Rightarrow> apikey gres" where
  "ValidateAPIKeyRaw A now rawSecret d =
     (if rawSecret = [] then Inl ErrUnknownAPIKey else lookup_key A now (hash16 A (str_bytes rawSecret)) d)"

definition ListAPIKeys :: "'db auth_env \<Rightarrow> 'db \<Rightarrow> apikey list \<times> go_error option" where
  "ListAPIKeys A d =
     DB_PrefixScanByte (au_P A) d PrefixAuthAPIKey
       (\<lambda>k val ks. (case cd_unmarshal (au_key A) val of Some key \<Rightarrow> ks @ [key] | None \<Rightarrow> ks, True)) []"

text \<open>The scan for the key with an id stops at the first record that carries it.\<close>

definition find_key :: "'db auth_env \<Rightarrow> string \<Rightarrow> 'db \<Rightarrow> apikey option \<times> go_error option" where
  "find_key A kid d =
     DB_PrefixScanByte (au_P A) d PrefixAuthAPIKey
       (\<lambda>k val r. case cd_unmarshal (au_key A) val of
                    Some key \<Rightarrow> if ak_ID key = kid then (Some key, False) else (r, True)
                  | None \<Rightarrow> (r, True)) None"

definition RevokeAPIKey :: "'db auth_env \<Rightarrow> string \<Rightarrow> 'db \<Rightarrow> go_error option \<times> 'db" where
  "RevokeAPIKey A kid d =
     (case find_key A kid d of
        (_, Some e) \<Rightarrow> (Some e, d)
      | (None, None) \<Rightarrow> (Some ErrUnknownAPIKey, d)
      | (Some key, None) \<Rightarrow>
          (case cd_marshal (au_key A) (key\<lparr>ak_Enabled := False\<rparr>) of
             None \<Rightarrow> (Some (Failed ''json''), d)
           | Some out \<Rightarrow>
               (case DB_SetWithPrefix (au_P A) d PrefixAuthAPIKey (ak_StorageHash key) out of
                  Inl e \<Rightarrow> (Some e, d) | Inr d' \<Rightarrow> (None, d'))))"

definition DeleteAPIKey :: "'db auth_env \<Rightarrow> string \<Rightarrow> 'db \<Rightarrow> go_error option \<times> 'db" where
  "DeleteAPIKey A kid d =
     (case find_key A kid d of
        (_, Some e) \<Rightarrow> (Some e, d)
      | (None, None) \<Rightarrow> (Some ErrUnknownAPIKey, d)
      | (Some key, None) \<Rightarrow>
          (case DB_DeleteWithPrefix (au_P A) d PrefixAuthAPIKey (ak_StorageHash key) of
             Inl e \<Rightarrow> (Some e, d) | Inr d' \<Rightarrow> (None, d')))"

section \<open>Sessions\<close>

definition MintSession ::
    "'db auth_env \<Rightarrow> bytes gres \<Rightarrow> int \<Rightarrow> string \<Rightarrow> string \<Rightarrow> int \<Rightarrow> 'db \<Rightarrow> (string \<times> session) gres \<times> 'db" where
  "MintSession A rnd now user ip ttl0 d =
     (if user = [] then (Inl (Failed ''session user must not be empty''), d)
      else
        let ttl = (if ttl0 = 0 then DefaultSessionTTL else ttl0) in
        case rnd of
          Inl e \<Rightarrow> (Inl e, d)
        | Inr secret \<Rightarrow>
            (let tokenHash = hash16 A secret;
                 sess = \<lparr>se_TokenHash = tokenHash, se_User = user, se_ExpiresAt = now + ttl, se_LastSeen = now,
                         se_CreatedIP = ip, se_CreatedAt = now\<rparr>
             in case cd_marshal (au_sess A) sess of
                  None \<Rightarrow> (Inl (Failed ''json''), d)
                | Some val \<Rightarrow>
                    (case DB_SetWithPrefix (au_P A) d PrefixAuthSession tokenHash val of
                       Inl e \<Rightarrow> (Inl e, d)
                     | Inr d' \<Rightarrow> (Inr (sessionPrefix @ RawURL_encode secret, sess), d'))))"

definition sessionSecretBytes :: "string \<Rightarrow> bytes option" where
  "sessionSecretBytes bearer =
     (if length bearer < length sessionPrefix + 1 \<or> take (length sessionPrefix) bearer \<noteq> sessionPrefix then None
      else RawURL_decode (drop (length sessionPrefix) bearer))"

text \<open>An expired session is deleted; an error of the delete is dropped.\<close>

definition ValidateSession :: "'db auth_env \<Rightarrow> int \<Rightarrow> string \<Rightarrow> 'db \<Rightarrow> session gres \<times> 'db" where
  "ValidateSession A now bearer d =
     (case sessionSecretBytes bearer of
        None \<Rightarrow> (Inl ErrUnknownSession, d)
      | Some secret \<Rightarrow>
          (case DB_GetWithPrefix (au_P A) d PrefixAuthSession (hash16 A secret) of
             Inr (Some val) \<Rightarrow>
               (case cd_unmarshal (au_sess A) val of
                  None \<Rightarrow> (Inl ErrUnknownSession, d)
                | Some sess \<Rightarrow>
                    if se_ExpiresAt sess < now
                    then (Inl ErrUnknownSession,
                          case DB_DeleteWithPrefix (au_P A) d PrefixAuthSession (hash16 A secret) of
                            Inl e \<Rightarrow> d | Inr d' \<Rightarrow> d')
                    else (Inr sess, d))
           | _ \<Rightarrow> (Inl ErrUnknownSession, d)))"

definition RevokeSessionByHash :: "'db auth_env \<Rightarrow> bytes \<Rightarrow> 'db \<Rightarrow> 'db gres" where
  "RevokeSessionByHash A h d = DB_DeleteWithPrefix (au_P A) d PrefixAuthSession h"

definition RevokeSession :: "'db auth_env \<Rightarrow> string \<Rightarrow> 'db \<Rightarrow> 'db gres" where
  "RevokeSession A bearer d =
     (case sessionSecretBytes bearer of
        None \<Rightarrow> Inr d
      | Some secret \<Rightarrow> DB_DeleteWithPrefix (au_P A) d PrefixAuthSession (hash16 A secret))"

definition ListSessions :: "'db auth_env \<Rightarrow> 'db \<Rightarrow> session list \<times> go_error option" where
  "ListSessions A d =
     DB_PrefixScanByte (au_P A) d PrefixAuthSession
       (\<lambda>k val ss. (case cd_unmarshal (au_sess A) val of Some s \<Rightarrow> ss @ [s] | None \<Rightarrow> ss, True)) []"

section \<open>Administrator\<close>

definition admin_name :: "string \<Rightarrow> string" where
  "admin_name username = (if username = [] then DefaultAdminUsername else username)"

definition CreateAdmin :: "'db auth_env \<Rightarrow> int \<Rightarrow> string \<Rightarrow> string \<Rightarrow> 'db \<Rightarrow> admin_user gres \<times> 'db" where
  "CreateAdmin A now username0 password d =
     (let username = admin_name username0 in
      if password = [] then (Inl (Failed ''admin password must not be empty''), d)
      else case au_bcrypt A (str_bytes password) of
        Inl e \<Rightarrow> (Inl e, d)
      | Inr h \<Rightarrow>
          (let adm = \<lparr>ad_Username = username, ad_PassHash = h, ad_CreatedAt = now\<rparr> in
           case cd_marshal (au_admin A) adm of
             None \<Rightarrow> (Inl (Failed ''json''), d)
           | Some val \<Rightarrow>
               (case DB_SetWithPrefix (au_P A) d PrefixAuthAdmin (str_bytes username) val of
                  Inl e \<Rightarrow> (Inl e, d) | Inr d' \<Rightarrow> (Inr adm, d'))))"

definition AdminExists :: "'db auth_env \<Rightarrow> string \<Rightarrow> 'db \<Rightarrow> bool gres" where
  "AdminExists A username d =
     (case DB_GetWithPrefix (au_P A) d PrefixAuthAdmin (str_bytes (admin_name username)) of
        Inl e \<Rightarrow> Inl e | Inr r \<Rightarrow> Inr (r \<noteq> None))"

definition GetAdmin :: "'db auth_env \<Rightarrow> string \<Rightarrow> 'db \<Rightarrow> admin_user gres" where
  "GetAdmin A username d =
     (case DB_GetWithPrefix (au_P A) d PrefixAuthAdmin (str_bytes (admin_name username)) of
        Inl e \<Rightarrow> Inl e
      | Inr None \<Rightarrow> Inl ErrUnknownAdmin
      | Inr (Some val) \<Rightarrow>
          (case cd_unmarshal (au_admin A) val of None \<Rightarrow> Inl (Failed ''json'') | Some a \<Rightarrow> Inr a))"

definition VerifyPassword :: "'db auth_env \<Rightarrow> string \<Rightarrow> string \<Rightarrow> 'db \<Rightarrow> admin_user gres" where
  "VerifyPassword A username password d =
     (case GetAdmin A username d of
        Inl e \<Rightarrow> Inl ErrUnknownAdmin
      | Inr a \<Rightarrow> if au_bcrypt_ok A (ad_PassHash a) (str_bytes password) then Inr a else Inl ErrBadPassword)"

section \<open>Who is calling\<close>

text \<open>\<open>anyKey\<close> stops at the first record of a kind.\<close>

definition anyKey :: "'db auth_env \<Rightarrow> byte \<Rightarrow> 'db \<Rightarrow> bool \<times> go_error option" where
  "anyKey A prefix d = DB_PrefixScanByte (au_P A) d prefix (\<lambda>k v found. (True, False)) False"

text \<open>\<open>None\<close> is a nil store, or one without a database: no credential can be in it.\<close>

definition storesEmpty :: "'db auth_env \<Rightarrow> 'db option \<Rightarrow> bool" where
  "storesEmpty A store =
     (case store of
        None \<Rightarrow> True
      | Some d \<Rightarrow>
          if snd (anyKey A PrefixAuthAPIKey d) \<noteq> None \<or> fst (anyKey A PrefixAuthAPIKey d) then False
          else if snd (anyKey A PrefixAuthAdmin d) \<noteq> None \<or> fst (anyKey A PrefixAuthAdmin d) then False
          else True)"

definition bypassPrincipal :: principal where
  "bypassPrincipal = \<lparr>pn_Subject = ''loopback'', pn_Mode = ModeAdmin, pn_Source = SourceBypass\<rparr>"

text \<open>The session prefix is tested first. A token without either prefix may be an imported legacy token.\<close>

definition key_principal :: "apikey \<Rightarrow> principal" where
  "key_principal key = \<lparr>pn_Subject = ak_ID key, pn_Mode = ak_Mode key, pn_Source = SourceAPIKey\<rparr>"

definition ValidateToken :: "'db auth_env \<Rightarrow> int \<Rightarrow> string \<Rightarrow> 'db \<Rightarrow> principal gres \<times> 'db" where
  "ValidateToken A now token d =
     (if token = [] then (Inl ErrNoCredential, d)
      else if maxBearerLen < length token then (Inl ErrUnknownCredential, d)
      else if has_prefix token sessionPrefix then
        (case ValidateSession A now token d of
           (Inl e, d') \<Rightarrow> (Inl ErrUnknownCredential, d')
         | (Inr sess, d') \<Rightarrow> (Inr \<lparr>pn_Subject = se_User sess, pn_Mode = ModeAdmin, pn_Source = SourceSession\<rparr>, d'))
      else if has_prefix token apikeyPrefix then
        (case ValidateAPIKey A now token d of
           Inl e \<Rightarrow> (Inl ErrUnknownCredential, d) | Inr key \<Rightarrow> (Inr (key_principal key), d))
      else
        (case ValidateAPIKeyRaw A now token d of
           Inl e \<Rightarrow> (Inl ErrUnknownCredential, d) | Inr key \<Rightarrow> (Inr (key_principal key), d)))"

definition ValidateTokenOrBypass :: "'db auth_env \<Rightarrow> int \<Rightarrow> string \<Rightarrow> bool \<Rightarrow> 'db \<Rightarrow> principal gres \<times> 'db" where
  "ValidateTokenOrBypass A now token loopback d =
     (if token \<noteq> [] then ValidateToken A now token d
      else if loopback \<and> storesEmpty A (Some d) then (Inr bypassPrincipal, d)
      else (Inl ErrNoCredential, d))"

text \<open>\<open>strings.EqualFold\<close> with \<open>Bearer\<close>: none of its letters folds to a character outside ASCII.\<close>

definition bearerFromHeader :: "string \<Rightarrow> string" where
  "bearerFromHeader h =
     (let scheme = ''Bearer ''; lower = map (\<lambda>c. ascii_lower (of_char c)) in
      if h = [] \<or> length h < length scheme \<or> lower (take (length scheme) h) \<noteq> lower scheme then []
      else TrimSpace (drop (length scheme) h))"

text \<open>\<open>net.ParseIP\<close> is the parameter \<open>parse_ip\<close>: whether the address is a loopback address, if it is one.\<close>

definition peerHost :: "string \<Rightarrow> string" where
  "peerHost addr =
     (if addr \<noteq> [] \<and> hd addr = CHR ''['' \<and> CHR '']'' \<in> set addr
      then drop 1 (take (length addr - 1 - length (takeWhile (\<lambda>c. c \<noteq> CHR '']'') (rev addr))) addr)
      else if length (filter (\<lambda>c. c = CHR '':'') addr) = 1 then takeWhile (\<lambda>c. c \<noteq> CHR '':'') addr
      else addr)"

definition isLoopback :: "(string \<Rightarrow> bool option) \<Rightarrow> string \<Rightarrow> bool" where
  "isLoopback parse_ip remoteAddr =
     (let host = peerHost remoteAddr in
      if host = [] then False else (case parse_ip host of Some l \<Rightarrow> l | None \<Rightarrow> False))"

definition auth_Validate :: "'db auth_env \<Rightarrow> (string \<Rightarrow> bool option) \<Rightarrow> int \<Rightarrow> string \<Rightarrow> string \<Rightarrow> 'db \<Rightarrow> principal gres \<times> 'db" where
  "auth_Validate A parse_ip now header remoteAddr d =
     ValidateTokenOrBypass A now (bearerFromHeader header) (isLoopback parse_ip remoteAddr) d"

definition ValidateStrict :: "'db auth_env \<Rightarrow> int \<Rightarrow> string \<Rightarrow> 'db \<Rightarrow> principal gres \<times> 'db" where
  "ValidateStrict A now header d = ValidateToken A now (bearerFromHeader header) d"

section \<open>The token of older versions\<close>

definition isASCIISpace :: "char \<Rightarrow> bool" where
  "isASCIISpace c \<longleftrightarrow> c \<in> {CHR '' '', CHR 0x09, CHR 0x0A, CHR 0x0D, CHR 0x0B, CHR 0x0C}"

definition trimSpaceASCII :: "string \<Rightarrow> string" where
  "trimSpaceASCII s = rev (dropWhile isASCIISpace (rev (dropWhile isASCIISpace s)))"

definition importLegacyTokenValue ::
    "'db auth_env \<Rightarrow> int \<Rightarrow> string \<Rightarrow> string \<Rightarrow> 'db \<Rightarrow> bool gres \<times> 'db" where
  "importLegacyTokenValue A now tok label0 d =
     (let label = (if label0 = [] then ''legacy-mcp'' else label0) in
      case anyKey A PrefixAuthAPIKey d of
        (_, Some e) \<Rightarrow> (Inl e, d)
      | (True, None) \<Rightarrow> (Inr False, d)
      | (False, None) \<Rightarrow>
          (let h = hash16 A (str_bytes tok);
               key = \<lparr>ak_ID = apikeyPrefix @ id8 A (str_bytes tok), ak_Label = label, ak_Mode = ModeAdmin,
                      ak_CreatedAt = now, ak_ExpiresAt = Some (now + 90 * 24 * 3600 * 1000000000), ak_Enabled = True,
                      ak_LastSeen = 0, ak_StorageHash = h\<rparr>
           in case cd_marshal (au_key A) key of
                None \<Rightarrow> (Inl (Failed ''json''), d)
              | Some val \<Rightarrow>
                  (case DB_SetWithPrefix (au_P A) d PrefixAuthAPIKey h val of
                     Inl e \<Rightarrow> (Inl e, d) | Inr d' \<Rightarrow> (Inr True, d'))))"

text \<open>The token file: an error of the read, no file, or its contents. It is removed after an import.\<close>

definition ImportLegacyTokenFromFile ::
    "'db auth_env \<Rightarrow> int \<Rightarrow> string option gres \<Rightarrow> string \<Rightarrow> 'db \<Rightarrow> (bool gres \<times> bool) \<times> 'db" where
  "ImportLegacyTokenFromFile A now file label d =
     (case file of
        Inl e \<Rightarrow> ((Inl e, False), d)
      | Inr None \<Rightarrow> ((Inr False, False), d)
      | Inr (Some value) \<Rightarrow>
          (let tok = trimSpaceASCII value in
           if tok = [] then ((Inr False, False), d)
           else (case importLegacyTokenValue A now tok label d of
                   (r, d') \<Rightarrow> ((r, r = Inr True), d'))))"

end
