(* ===== verification/Auth_Facts.thy ===== *)
theory Auth_Facts
  imports Auth
begin

text \<open>
  What credentials achieve: a refinement of the API keys by a table of grants, the life of a session, and the
  loopback bypass.
\<close>

section \<open>Scans of one kind\<close>

text \<open>The records of a kind, in key order.\<close>

definition kind_entries :: "'db pebble_ops \<Rightarrow> 'db \<Rightarrow> byte \<Rightarrow> (bytes \<times> bytes) list" where
  "kind_entries P d p =
     (case pb_iter P d (Some [p]) None of
        Inl e \<Rightarrow> [] | Inr (kvs, e) \<Rightarrow> takeWhile (\<lambda>kv. hasPrefix (fst kv) [p]) kvs)"

lemma hasPrefix_single [simp]: "hasPrefix k [p] \<longleftrightarrow> k \<noteq> [] \<and> hd k = p"
  by (cases k) (auto simp: hasPrefix_def)

lemma scan_loop_guard:
  "fst (scan_loop ok fn kvs s) = fst (scan_loop (\<lambda>_. True) fn (takeWhile (\<lambda>kv. ok (fst kv)) kvs) s)"
  by (induction kvs arbitrary: s) (auto split: prod.split)

lemma past_kind:
  fixes j k :: bytes
  assumes "[p] \<le> j" and "j < k" and "\<not> hasPrefix j [p]"
  shows "\<not> hasPrefix k [p]"
proof -
  obtain a j' where j: "j = a # j'" using assms(1) by (cases j) auto
  then have "p < a" using assms(1,3) by (auto simp: less_le)
  moreover obtain b k' where k: "k = b # k'" using assms(2) by (cases k) auto
  then have "a \<le> b" using assms(2) j by auto
  ultimately show ?thesis using k by auto
qed

lemma takeWhile_sorted_kind:
  fixes p :: byte
  assumes "sorted_wrt (<) (map fst kvs)" and "\<forall>kv \<in> set kvs. [p] \<le> fst kv"
  shows "takeWhile (\<lambda>kv. hasPrefix (fst kv) [p]) kvs = filter (\<lambda>kv. hasPrefix (fst kv) [p]) kvs"
  using assms
proof (induction kvs)
  case (Cons kv kvs)
  show ?case
  proof (cases "hasPrefix (fst kv) [p]")
    case False
    have "\<not> hasPrefix (fst x) [p]" if "x \<in> set kvs" for x
      using past_kind [of p "fst kv" "fst x"] Cons.prems that False by auto
    then show ?thesis using False by (auto simp: filter_empty_conv)
  qed (use Cons in simp)
qed simp

context pebble
begin

lemma DB_PrefixScanByte_entries:
  assumes "reliable P"
  shows "DB_PrefixScanByte P d p fn s = (fst (scan_loop (\<lambda>_. True) fn (kind_entries P d p) s), None)"
proof -
  obtain kvs where "pb_iter P d (Some [p]) None = Inr (kvs, None)"
    using reliable_iterE [OF assms] by metis
  then show ?thesis
    using scan_loop_guard [of "\<lambda>k. hasPrefix k [p]" fn kvs s]
    by (simp add: DB_PrefixScanByte_def DB_PrefixScan_def kind_entries_def case_prod_unfold del: hasPrefix_single)
qed

lemma set_kind_entries:
  assumes "reliable P"
  shows "set (kind_entries P d p) = {(p # k, v) | k v. view d (p # k) = Some v}"
proof -
  obtain kvs where kvs: "pb_iter P d (Some [p]) None = Inr (kvs, None)" "sorted_wrt (<) (map fst kvs)"
    "distinct (map fst kvs)" "set kvs = {(k, v). in_bounds (Some [p]) None k \<and> view d k = Some v}"
    by (rule reliable_iterE [OF assms])
  then have "takeWhile (\<lambda>kv. hasPrefix (fst kv) [p]) kvs = filter (\<lambda>kv. hasPrefix (fst kv) [p]) kvs"
    by (intro takeWhile_sorted_kind) (auto simp: kvs(4) in_bounds_def)
  then have "set (kind_entries P d p) = {kv \<in> set kvs. hasPrefix (fst kv) [p]}"
    by (simp add: kind_entries_def kvs(1) del: hasPrefix_single)
  moreover have "kv \<in> {kv \<in> set kvs. hasPrefix (fst kv) [p]} \<longleftrightarrow> kv \<in> {(p # k, v) | k v. view d (p # k) = Some v}" for kv
    by (cases kv; cases "fst kv") (auto simp: kvs(4) in_bounds_def)
  ultimately show ?thesis
    by blast
qed

end

section \<open>Looking up by id\<close>

lemma scan_find:
  "fst (scan_loop (\<lambda>_. True) (\<lambda>k v r. case f v of Some x \<Rightarrow> if Q x then (Some x, False) else (r, True) | None \<Rightarrow> (r, True)) es None) =
     find Q (List.map_filter (f \<circ> snd) es)"
  by (induction es) (auto simp: map_filter_simps split: option.split)

lemma scan_found:
  "fst (scan_loop (\<lambda>_. True) (\<lambda>k v found. (True, False)) es b) = (b \<or> es \<noteq> [])"
  by (cases es) auto

lemma find_key_find:
  assumes "pebble (au_P A) view" and "reliable (au_P A)"
  shows "find_key A kid d =
    (find (\<lambda>key. ak_ID key = kid) (List.map_filter (cd_unmarshal (au_key A) \<circ> snd) (kind_entries (au_P A) d PrefixAuthAPIKey)), None)"
  by (simp add: find_key_def pebble.DB_PrefixScanByte_entries [OF assms] scan_find)

lemma anyKey_any:
  assumes "pebble (au_P A) view" and "reliable (au_P A)"
  shows "anyKey A p d = (\<exists>k v. view d (p # k) = Some v, None)"
proof -
  have "kind_entries (au_P A) d p \<noteq> [] \<longleftrightarrow> (\<exists>k v. view d (p # k) = Some v)"
  proof -
    have "kind_entries (au_P A) d p \<noteq> [] \<longleftrightarrow> (\<exists>x. x \<in> set (kind_entries (au_P A) d p))"
      by (cases "kind_entries (au_P A) d p") auto
    then show ?thesis
      unfolding pebble.set_kind_entries [OF assms] by auto
  qed
  then show ?thesis
    by (simp add: anyKey_def pebble.DB_PrefixScanByte_entries [OF assms] scan_found)
qed

lemma get_record:
  assumes "pebble (au_P A) view" and "reliable (au_P A)"
  shows "DB_GetWithPrefix (au_P A) d p k = Inr (view d (p # k))"
  by (simp add: DB_GetWithPrefix_def pebble.reliable_Get [OF assms])

section \<open>Grants\<close>

text \<open>The table of grants says, for a secret, its mode, its expiry and whether it is enabled.\<close>

type_synonym grants = "bytes \<rightharpoonup> string \<times> int option \<times> bool"

datatype key_op =
    Mint bytes int string string "int option"
  | Revoke string
  | Remove string

definition key_id :: "'db auth_env \<Rightarrow> bytes \<Rightarrow> string" where
  "key_id A s = apikeyPrefix @ id8 A s"

fun grant_step :: "'db auth_env \<Rightarrow> key_op \<Rightarrow> grants \<Rightarrow> grants" where
  "grant_step A (Mint s now label mode expiresAt) g = (if validMode mode then g(s \<mapsto> (mode, expiresAt, True)) else g)"
| "grant_step A (Revoke kid) g = (\<lambda>s. if key_id A s = kid then map_option (\<lambda>(m, t, b). (m, t, False)) (g s) else g s)"
| "grant_step A (Remove kid) g = (\<lambda>s. if key_id A s = kid then None else g s)"

fun key_step :: "'db auth_env \<Rightarrow> key_op \<Rightarrow> 'db \<Rightarrow> 'db" where
  "key_step A (Mint s now label mode expiresAt) d = snd (CreateAPIKey A (Inr s) now label mode expiresAt d)"
| "key_step A (Revoke kid) d = snd (RevokeAPIKey A kid d)"
| "key_step A (Remove kid) d = snd (DeleteAPIKey A kid d)"

definition minted_key :: "'db auth_env \<Rightarrow> bytes \<Rightarrow> int \<Rightarrow> string \<Rightarrow> string \<Rightarrow> int option \<Rightarrow> apikey" where
  "minted_key A s now label mode expiresAt =
     \<lparr>ak_ID = key_id A s, ak_Label = label, ak_Mode = mode, ak_CreatedAt = now, ak_ExpiresAt = expiresAt,
      ak_Enabled = True, ak_LastSeen = 0, ak_StorageHash = hash16 A s\<rparr>"

text \<open>The keys that JSON carries: all minted ones, also disabled.\<close>

definition key_codec :: "'db auth_env \<Rightarrow> apikey set \<Rightarrow> bool" where
  "key_codec A K \<longleftrightarrow> codec_on K (au_key A) \<and> (\<forall>key \<in> K. cd_marshal (au_key A) key \<noteq> None \<and> key\<lparr>ak_Enabled := False\<rparr> \<in> K)"

lemma key_codecE:
  assumes "key_codec A K" and "key \<in> K"
  obtains val where "cd_marshal (au_key A) key = Some val" and "cd_unmarshal (au_key A) val = Some key"
  using assms by (metis codec_onD key_codec_def not_None_eq)

fun op_ok :: "'db auth_env \<Rightarrow> apikey set \<Rightarrow> bytes set \<Rightarrow> key_op \<Rightarrow> bool" where
  "op_ok A K S (Mint s now label mode expiresAt) \<longleftrightarrow> s \<in> S \<and> minted_key A s now label mode expiresAt \<in> K"
| "op_ok A K S _ \<longleftrightarrow> True"

definition grant_of :: "apikey \<Rightarrow> string \<times> int option \<times> bool" where
  "grant_of key = (ak_Mode key, ak_ExpiresAt key, ak_Enabled key)"

definition stored_key :: "'db auth_env \<Rightarrow> contents \<Rightarrow> bytes \<Rightarrow> apikey option" where
  "stored_key A m h = (case m (PrefixAuthAPIKey # h) of None \<Rightarrow> None | Some val \<Rightarrow> cd_unmarshal (au_key A) val)"

text \<open>The simulation relation: every record is that of a secret of \<open>S\<close>, and the table shows them.\<close>

definition keys_match :: "'db auth_env \<Rightarrow> apikey set \<Rightarrow> bytes set \<Rightarrow> contents \<Rightarrow> grants \<Rightarrow> bool" where
  "keys_match A K S m g \<longleftrightarrow>
     (\<forall>h val. m (PrefixAuthAPIKey # h) = Some val \<longrightarrow>
        (\<exists>s \<in> S. \<exists>key \<in> K. cd_unmarshal (au_key A) val = Some key \<and> h = hash16 A s \<and>
           ak_StorageHash key = h \<and> ak_ID key = key_id A s)) \<and>
     (\<forall>s \<in> S. map_option grant_of (stored_key A m (hash16 A s)) = g s)"

text \<open>Eight bytes of the hash tell the secrets apart.\<close>

definition ids_distinct :: "'db auth_env \<Rightarrow> bytes set \<Rightarrow> bool" where
  "ids_distinct A S \<longleftrightarrow> inj_on (\<lambda>s. take 8 (au_sha A s)) S"

lemma key_id_eq:
  assumes "ids_distinct A S" and "s \<in> S" and "t \<in> S"
  shows "key_id A s = key_id A t \<longleftrightarrow> s = t" "hash16 A s = hash16 A t \<longleftrightarrow> s = t"
proof -
  show "key_id A s = key_id A t \<longleftrightarrow> s = t"
    using assms by (auto simp: key_id_def id8_def ids_distinct_def dest: inj_onD)
  have "take 8 (hash16 A x) = take 8 (au_sha A x)" for x
    by (simp add: hash16_def)
  then show "hash16 A s = hash16 A t \<longleftrightarrow> s = t"
    using assms unfolding ids_distinct_def by (metis inj_onD)
qed

lemma keys_matchE:
  assumes "keys_match A K S m g" and "m (PrefixAuthAPIKey # h) = Some val"
  obtains s key where "s \<in> S" and "key \<in> K" and "cd_unmarshal (au_key A) val = Some key" and "h = hash16 A s"
    and "ak_StorageHash key = h" and "ak_ID key = key_id A s"
  using assms unfolding keys_match_def by blast

lemma keys_match_put:
  assumes "keys_match A K S m g" and "ids_distinct A S" and "s \<in> S" and "key \<in> K"
    and "cd_unmarshal (au_key A) val = Some key" and "ak_StorageHash key = hash16 A s" and "ak_ID key = key_id A s"
  shows "keys_match A K S (m(PrefixAuthAPIKey # hash16 A s \<mapsto> val)) (g(s \<mapsto> grant_of key))"
  using assms key_id_eq(2) [OF assms(2)] unfolding keys_match_def
  by (auto simp: stored_key_def)

lemma keys_match_remove:
  assumes "keys_match A K S m g" and "ids_distinct A S" and "s \<in> S"
  shows "keys_match A K S (m(PrefixAuthAPIKey # hash16 A s := None)) (g(s := None))"
  using assms key_id_eq(2) [OF assms(2)] unfolding keys_match_def
  by (auto simp: stored_key_def)

lemma find_key_match:
  assumes "pebble (au_P A) view" and "reliable (au_P A)" and "keys_match A K S (view d) g" and "ids_distinct A S"
  shows "case fst (find_key A kid d) of
      None \<Rightarrow> \<forall>s \<in> S. key_id A s = kid \<longrightarrow> g s = None
    | Some key \<Rightarrow> \<exists>s \<in> S. key_id A s = kid \<and> key \<in> K \<and> ak_StorageHash key = hash16 A s \<and> ak_ID key = kid \<and>
        g s = Some (grant_of key)"
proof -
  let ?ks = "List.map_filter (cd_unmarshal (au_key A) \<circ> snd) (kind_entries (au_P A) d PrefixAuthAPIKey)"
  have "key \<in> set (List.map_filter f xs) \<longleftrightarrow> (\<exists>x \<in> set xs. f x = Some key)" for key :: apikey and f and xs :: "(bytes \<times> bytes) list"
    by (induction xs) (auto simp: map_filter_simps split: option.split)
  then have mem: "key \<in> set ?ks \<longleftrightarrow> (\<exists>h val. view d (PrefixAuthAPIKey # h) = Some val \<and> cd_unmarshal (au_key A) val = Some key)" for key
    by (simp only: pebble.set_kind_entries [OF assms(1,2)]) auto
  have found: "\<exists>s \<in> S. key \<in> K \<and> ak_StorageHash key = hash16 A s \<and> ak_ID key = key_id A s \<and> g s = Some (grant_of key)"
    if ks: "key \<in> set ?ks" for key
  proof -
    obtain h val where r: "view d (PrefixAuthAPIKey # h) = Some val" "cd_unmarshal (au_key A) val = Some key"
      using ks unfolding mem by (elim exE conjE) (rule that)
    obtain s key' where "s \<in> S" "key' \<in> K" "cd_unmarshal (au_key A) val = Some key'" "h = hash16 A s"
        "ak_StorageHash key' = h" "ak_ID key' = key_id A s"
      by (rule keys_matchE [OF assms(3) r(1)])
    moreover have "key' = key" using calculation(3) r(2) by simp
    moreover have "map_option grant_of (stored_key A (view d) (hash16 A s)) = g s"
      using assms(3) calculation(1) by (simp add: keys_match_def)
    ultimately show ?thesis
      using r by (auto simp: stored_key_def)
  qed
  show ?thesis
  proof (cases "find (\<lambda>key. ak_ID key = kid) ?ks")
    case None
    have "g s = None" if s: "s \<in> S" "key_id A s = kid" for s
    proof (rule ccontr)
      assume "g s \<noteq> None"
      then obtain key where "stored_key A (view d) (hash16 A s) = Some key"
        using assms(3) s(1) unfolding keys_match_def by (cases "stored_key A (view d) (hash16 A s)") auto
      then obtain val where val: "view d (PrefixAuthAPIKey # hash16 A s) = Some val" "cd_unmarshal (au_key A) val = Some key"
        by (auto simp: stored_key_def split: option.splits)
      obtain t key' where t: "t \<in> S" "key' \<in> K" "cd_unmarshal (au_key A) val = Some key'" "hash16 A s = hash16 A t"
          "ak_StorageHash key' = hash16 A s" "ak_ID key' = key_id A t"
        by (rule keys_matchE [OF assms(3) val(1)])
      then have "ak_ID key = kid"
        using key_id_eq(2) [OF assms(4) s(1) t(1)] s val(2) by simp
      moreover have "key \<in> set ?ks" using mem val by blast
      ultimately show False using None by (auto simp: find_None_iff)
    qed
    then show ?thesis by (simp add: find_key_find [OF assms(1,2)] None)
  next
    case (Some key)
    then have "key \<in> set ?ks" "ak_ID key = kid"
      by (auto simp: find_Some_iff)
    then show ?thesis
      using found [of key] by (auto simp: find_key_find [OF assms(1,2)] Some)
  qed
qed

lemma key_step_match:
  assumes "pebble (au_P A) view" and "reliable (au_P A)" and "ids_distinct A S" and "key_codec A K"
    and "keys_match A K S (view d) g" and "op_ok A K S op"
  shows "\<exists>g'. keys_match A K S (view (key_step A op d)) g' \<and> (\<forall>s \<in> S. g' s = grant_step A op g s)"
proof (cases op)
  case (Mint s now label mode expiresAt)
  let ?key = "minted_key A s now label mode expiresAt"
  have key: "?key \<in> K" "s \<in> S" using assms(6) Mint by simp_all
  then obtain val where val: "cd_marshal (au_key A) ?key = Some val" "cd_unmarshal (au_key A) val = Some ?key"
    by (blast intro: key_codecE [OF assms(4)])
  obtain d' where d': "DB_SetWithPrefix (au_P A) d PrefixAuthAPIKey (hash16 A s) val = Inr d'"
      "view d' = (view d)(PrefixAuthAPIKey # hash16 A s \<mapsto> val)"
    using pebble.reliable_commitE [OF assms(1,2), of d "[KSet (PrefixAuthAPIKey # hash16 A s) val]"]
    by (auto simp: DB_SetWithPrefix_def)
  have put: "keys_match A K S (view d') (g(s \<mapsto> grant_of ?key))"
    unfolding d'(2) by (rule keys_match_put [OF assms(5,3) key(2,1) val(2)]) (simp_all add: minted_key_def)
  have "snd (CreateAPIKey A (Inr s) now label mode expiresAt d) = (if validMode mode then d' else d)"
    using val(1) d'(1) by (simp add: CreateAPIKey_def Let_def minted_key_def key_id_def id8_def hash16_def)
  then show ?thesis
    using put assms(5) Mint by (auto simp: grant_of_def minted_key_def)
next
  case (Revoke kid)
  note f = find_key_match [OF assms(1,2,5,3), of kid]
  show ?thesis
  proof (cases "fst (find_key A kid d)")
    case None
    then have "RevokeAPIKey A kid d = (Some ErrUnknownAPIKey, d)"
      by (simp add: RevokeAPIKey_def find_key_find [OF assms(1,2)])
    then show ?thesis
      using f None assms(5) Revoke by (intro exI [of _ g]) auto
  next
    case (Some key)
    then obtain s where s: "s \<in> S" "key_id A s = kid" "key \<in> K" "ak_StorageHash key = hash16 A s" "ak_ID key = kid" "g s = Some (grant_of key)"
      using f by auto
    let ?off = "key\<lparr>ak_Enabled := False\<rparr>"
    have "?off \<in> K" using assms(4) s(3) by (simp add: key_codec_def)
    then obtain val where val: "cd_marshal (au_key A) ?off = Some val" "cd_unmarshal (au_key A) val = Some ?off"
      by (blast intro: key_codecE [OF assms(4)])
    obtain d' where d': "DB_SetWithPrefix (au_P A) d PrefixAuthAPIKey (hash16 A s) val = Inr d'"
        "view d' = (view d)(PrefixAuthAPIKey # hash16 A s \<mapsto> val)"
      using pebble.reliable_commitE [OF assms(1,2), of d "[KSet (PrefixAuthAPIKey # hash16 A s) val]"]
      by (auto simp: DB_SetWithPrefix_def)
    have "keys_match A K S (view d') (g(s \<mapsto> grant_of ?off))"
      unfolding d'(2) by (rule keys_match_put [OF assms(5,3) s(1) \<open>?off \<in> K\<close> val(2)]) (simp_all add: s)
    moreover have "snd (RevokeAPIKey A kid d) = d'"
      using Some val(1) d'(1) s(4) by (simp add: RevokeAPIKey_def find_key_find [OF assms(1,2)])
    ultimately show ?thesis
      using s key_id_eq(1) [OF assms(3)] Revoke by (intro exI [of _ "g(s \<mapsto> grant_of ?off)"]) (auto simp: grant_of_def)
  qed
next
  case (Remove kid)
  note f = find_key_match [OF assms(1,2,5,3), of kid]
  show ?thesis
  proof (cases "fst (find_key A kid d)")
    case None
    then have "DeleteAPIKey A kid d = (Some ErrUnknownAPIKey, d)"
      by (simp add: DeleteAPIKey_def find_key_find [OF assms(1,2)])
    then show ?thesis
      using f None assms(5) Remove by (intro exI [of _ g]) auto
  next
    case (Some key)
    then obtain s where s: "s \<in> S" "key_id A s = kid" "ak_StorageHash key = hash16 A s"
      using f by auto
    obtain d' where d': "DB_DeleteWithPrefix (au_P A) d PrefixAuthAPIKey (hash16 A s) = Inr d'"
        "view d' = (view d)(PrefixAuthAPIKey # hash16 A s := None)"
      using pebble.reliable_commitE [OF assms(1,2), of d "[KDelete (PrefixAuthAPIKey # hash16 A s)]"]
      by (auto simp: DB_DeleteWithPrefix_def)
    have "keys_match A K S (view d') (g(s := None))"
      unfolding d'(2) by (rule keys_match_remove [OF assms(5,3) s(1)])
    moreover have "snd (DeleteAPIKey A kid d) = d'"
      using Some d'(1) s(3) by (simp add: DeleteAPIKey_def find_key_find [OF assms(1,2)])
    ultimately show ?thesis
      using s key_id_eq(1) [OF assms(3)] Remove by (intro exI [of _ "g(s := None)"]) auto
  qed
qed

lemma keys_match_cong:
  assumes "keys_match A K S m g" and "\<forall>s \<in> S. g s = h s"
  shows "keys_match A K S m h"
  using assms unfolding keys_match_def by simp

lemma grant_step_cong: "\<forall>s \<in> S. g s = h s \<Longrightarrow> \<forall>s \<in> S. grant_step A op g s = grant_step A op h s"
  by (cases op) auto

lemma key_steps_match:
  assumes "pebble (au_P A) view" and "reliable (au_P A)" and "ids_distinct A S" and "key_codec A K"
    and "keys_match A K S (view d) g" and "\<forall>op \<in> set ops. op_ok A K S op"
  shows "keys_match A K S (view (fold (key_step A) ops d)) (fold (grant_step A) ops g)"
  using assms(5,6)
proof (induction ops arbitrary: d g)
  case (Cons op ops)
  obtain g' where g': "keys_match A K S (view (key_step A op d)) g'" "\<forall>s \<in> S. g' s = grant_step A op g s"
    using key_step_match [OF assms(1-4) Cons.prems(1)] Cons.prems(2) by (metis list.set_intros(1))
  have "keys_match A K S (view (key_step A op d)) (grant_step A op g)"
    by (rule keys_match_cong [OF g'])
  then show ?case
    using Cons by simp
qed simp

section \<open>Tokens\<close>

lemma prefixes_differ: "\<not> has_prefix (apikeyPrefix @ x) sessionPrefix" "has_prefix (apikeyPrefix @ x) apikeyPrefix"
  "has_prefix (sessionPrefix @ x) sessionPrefix"
  by (simp_all add: has_prefix_def apikeyPrefix_def sessionPrefix_def)

lemma after_last_dot_append: "CHR ''.'' \<notin> set y \<Longrightarrow> after_last_dot (x @ CHR ''.'' # y) = y"
proof -
  assume "CHR ''.'' \<notin> set y"
  then have "takeWhile (\<lambda>c. c \<noteq> CHR ''.'') (rev y @ CHR ''.'' # rev x) = rev y"
    by (subst takeWhile_append2) auto
  then show ?thesis by (simp add: after_last_dot_def)
qed

lemma length_RawURL_bound: "length bs \<le> 32 \<Longrightarrow> length (RawURL_encode bs) \<le> 43"
  by (simp add: length_RawURL_encode)

definition display_token :: "'db auth_env \<Rightarrow> bytes \<Rightarrow> string" where
  "display_token A s = key_id A s @ ''.'' @ RawURL_encode s"

lemma display_token_facts:
  assumes "length s = 32"
  shows "secretBytesFromBearer (display_token A s) = Some s" "length (display_token A s) \<le> maxBearerLen"
    "display_token A s = apikeyPrefix @ id8 A s @ ''.'' @ RawURL_encode s"
proof -
  have dot: "CHR ''.'' \<notin> set (RawURL_encode s)"
    using RawURL_encode_chars [of "CHR ''.''"] by auto
  show tok: "display_token A s = apikeyPrefix @ id8 A s @ ''.'' @ RawURL_encode s"
    by (simp add: display_token_def key_id_def)
  show "secretBytesFromBearer (display_token A s) = Some s"
    using after_last_dot_append [OF dot, of "id8 A s"] assms by (simp add: tok secretBytesFromBearer_def)
  show "length (display_token A s) \<le> maxBearerLen"
  proof -
    have "length (take 8 (au_sha A s)) \<le> 32" by simp
    then have "length (id8 A s) \<le> 43" unfolding id8_def by (rule length_RawURL_bound)
    moreover have "length (RawURL_encode s) \<le> 43" by (rule length_RawURL_bound) (simp add: assms)
    ultimately show ?thesis by (simp add: tok apikeyPrefix_def maxBearerLen_def)
  qed
qed

lemma lookup_key_stored:
  assumes "pebble (au_P A) view" and "reliable (au_P A)"
  shows "lookup_key A now h d =
    (case stored_key A (view d) h of
       Some key \<Rightarrow> if usable_key now key then Inr key else Inl ErrUnknownAPIKey | None \<Rightarrow> Inl ErrUnknownAPIKey)"
  by (simp add: lookup_key_def get_record [OF assms] stored_key_def split: option.split)

text \<open>C31: API keys refine a table of grants. Run any sequence of creations, revocations and deletions on a store
  without keys, and the same sequence on an empty table that maps each secret to its mode, expiry and
  switch. Then the printed token of a secret is accepted at a time exactly if the table grants it, enabled
  and not expired, and with the mode of the table; and validation never writes.\<close>

theorem api_keys_refine_grants:
  assumes "pebble (au_P A) view" and "reliable (au_P A)" and "ids_distinct A S" and "key_codec A K"
    and "\<forall>h. view d (PrefixAuthAPIKey # h) = None" and "\<forall>op \<in> set ops. op_ok A K S op"
    and "s \<in> S" and "length s = 32" and "d' = fold (key_step A) ops d"
  shows "ValidateToken A now (display_token A s) d' =
    ((case fold (grant_step A) ops Map.empty s of
        Some (mode, t, True) \<Rightarrow>
          if (case t of None \<Rightarrow> True | Some x \<Rightarrow> now \<le> x)
          then Inr \<lparr>pn_Subject = key_id A s, pn_Mode = mode, pn_Source = SourceAPIKey\<rparr> else Inl ErrUnknownCredential
      | _ \<Rightarrow> Inl ErrUnknownCredential), d')"
proof -
  have "keys_match A K S (view d) Map.empty"
    using assms(5) by (simp add: keys_match_def stored_key_def)
  then have "keys_match A K S (view d') (fold (grant_step A) ops Map.empty)"
    unfolding assms(9) by (rule key_steps_match [OF assms(1-4) _ assms(6)])
  then have g: "map_option grant_of (stored_key A (view d') (hash16 A s)) = fold (grant_step A) ops Map.empty s"
    and own: "\<And>key. stored_key A (view d') (hash16 A s) = Some key \<Longrightarrow> ak_ID key = key_id A s"
    using assms(7) key_id_eq(2) [OF assms(3)]
    by (auto simp: keys_match_def, auto simp: stored_key_def split: option.splits) (metis option.inject)
  note tok = display_token_facts [OF assms(8), of A]
  have "display_token A s \<noteq> []" by (simp add: tok(3) apikeyPrefix_def)
  then have "ValidateToken A now (display_token A s) d' =
      (case lookup_key A now (hash16 A s) d' of Inl e \<Rightarrow> (Inl ErrUnknownCredential, d') | Inr key \<Rightarrow> (Inr (key_principal key), d'))"
    using tok(2) prefixes_differ unfolding ValidateToken_def ValidateAPIKey_def tok(1) by (simp add: tok(3))
  then show ?thesis
    using g own unfolding lookup_key_stored [OF assms(1,2)]
    by (cases "stored_key A (view d') (hash16 A s)")
      (auto simp: grant_of_def key_principal_def usable_key_def not_less split: option.splits bool.splits)
qed

definition demo_secret :: bytes where "demo_secret = replicate 32 7"

definition demo_auth_key :: "bool \<Rightarrow> apikey" where
  "demo_auth_key b =
     \<lparr>ak_ID = apikeyPrefix @ RawURL_encode (take 8 demo_secret), ak_Label = ''l'', ak_Mode = ModeRead, ak_CreatedAt = 5,
      ak_ExpiresAt = Some 10, ak_Enabled = b, ak_LastSeen = 0, ak_StorageHash = take 16 demo_secret\<rparr>"

definition demo_session :: session where
  "demo_session = \<lparr>se_TokenHash = take 16 demo_secret, se_User = ''u'', se_ExpiresAt = 12, se_LastSeen = 5,
     se_CreatedIP = [], se_CreatedAt = 5\<rparr>"

definition demo_auth :: "(bytes \<times> bytes) list auth_env" where
  "demo_auth =
     \<lparr>au_P = mem_pebble, au_sha = id,
      au_key = \<lparr>cd_marshal = (\<lambda>key. Some [if ak_Enabled key then 1 else 0]), cd_unmarshal = (\<lambda>bs. Some (demo_auth_key (bs = [1])))\<rparr>,
      au_sess = \<lparr>cd_marshal = (\<lambda>_. Some []), cd_unmarshal = (\<lambda>_. Some demo_session)\<rparr>,
      au_admin = \<lparr>cd_marshal = (\<lambda>_. None), cd_unmarshal = (\<lambda>_. None)\<rparr>,
      au_bcrypt = (\<lambda>p. Inr p), au_bcrypt_ok = (\<lambda>h p. h = p)\<rparr>"

lemma demo_auth_facts:
  "pebble (au_P demo_auth) map_of" "reliable (au_P demo_auth)" "ids_distinct demo_auth {demo_secret}"
  "key_codec demo_auth {demo_auth_key True, demo_auth_key False}" "length demo_secret = 32"
  "minted_key demo_auth demo_secret 5 ''l'' ModeRead (Some 10) = demo_auth_key True"
  by (simp_all add: demo_auth_def mem.pebble_axioms ids_distinct_def key_codec_def codec_on_def demo_auth_key_def demo_secret_def
      minted_key_def key_id_def id8_def hash16_def)

theorem api_keys_refine_grants_witness:
  "let mint = Mint demo_secret 5 ''l'' ModeRead (Some 10); tok = display_token demo_auth demo_secret;
       d1 = fold (key_step demo_auth) [mint] []; d2 = fold (key_step demo_auth) [mint, Revoke (key_id demo_auth demo_secret)] []
   in fst (ValidateToken demo_auth 7 tok d1) =
        Inr \<lparr>pn_Subject = key_id demo_auth demo_secret, pn_Mode = ModeRead, pn_Source = SourceAPIKey\<rparr> \<and>
      fst (ValidateToken demo_auth 11 tok d1) = Inl ErrUnknownCredential \<and>
      fst (ValidateToken demo_auth 7 tok d2) = Inl ErrUnknownCredential"
proof -
  note refine = api_keys_refine_grants [OF demo_auth_facts(1-4), where d = "[]" and s = demo_secret, OF _ _ _ demo_auth_facts(5) refl]
  have "validMode ModeRead" by (simp add: validMode_def)
  then show ?thesis
    using refine [of "[Mint demo_secret 5 ''l'' ModeRead (Some 10)]" 7] refine [of "[Mint demo_secret 5 ''l'' ModeRead (Some 10)]" 11]
      refine [of "[Mint demo_secret 5 ''l'' ModeRead (Some 10), Revoke (key_id demo_auth demo_secret)]" 7]
    by (simp add: Let_def demo_auth_facts(6) del: key_step.simps)
qed

section \<open>Sessions\<close>

lemma session_token_facts:
  assumes "length s = 32"
  shows "sessionSecretBytes (sessionPrefix @ RawURL_encode s) = Some s"
    "length (sessionPrefix @ RawURL_encode s) \<le> maxBearerLen" "sessionPrefix @ RawURL_encode s \<noteq> []"
proof -
  have ne: "RawURL_encode s \<noteq> []" using assms by auto
  then show "sessionSecretBytes (sessionPrefix @ RawURL_encode s) = Some s"
    by (cases "RawURL_encode s") (auto simp: sessionSecretBytes_def simp flip: RawURL_roundtrip [of s])
  have "length (RawURL_encode s) \<le> 43" by (rule length_RawURL_bound) (simp add: assms)
  then show "length (sessionPrefix @ RawURL_encode s) \<le> maxBearerLen" by (simp add: sessionPrefix_def maxBearerLen_def)
  show "sessionPrefix @ RawURL_encode s \<noteq> []" using ne by simp
qed

lemma ValidateToken_session:
  assumes "length s = 32"
  shows "ValidateToken A now (sessionPrefix @ RawURL_encode s) d =
    (case ValidateSession A now (sessionPrefix @ RawURL_encode s) d of
       (Inl e, d') \<Rightarrow> (Inl ErrUnknownCredential, d')
     | (Inr sess, d') \<Rightarrow> (Inr \<lparr>pn_Subject = se_User sess, pn_Mode = ModeAdmin, pn_Source = SourceSession\<rparr>, d'))"
  using session_token_facts [OF assms] prefixes_differ(3) [of "RawURL_encode s"]
  unfolding ValidateToken_def by (simp only: if_False if_True not_le) simp

text \<open>C32: a session lives until it expires or is revoked. The token that a login returns is accepted, with
  administrator rights, up to the expiry of the session and without a write; the first use after the expiry is
  refused and deletes the record, and nothing else; after a logout the token is refused at any time.\<close>

theorem session_lifetime:
  assumes "pebble (au_P A) view" and "reliable (au_P A)" and "codec_on {sess} (au_sess A)" and "length s = 32"
    and "MintSession A (Inr s) now user ip ttl d = (Inr (token, sess), d1)"
  shows "se_ExpiresAt sess = now + (if ttl = 0 then DefaultSessionTTL else ttl) \<and>
    (\<forall>t \<le> se_ExpiresAt sess.
       ValidateToken A t token d1 = (Inr \<lparr>pn_Subject = user, pn_Mode = ModeAdmin, pn_Source = SourceSession\<rparr>, d1)) \<and>
    (\<forall>t > se_ExpiresAt sess. \<exists>d2. ValidateToken A t token d1 = (Inl ErrUnknownCredential, d2) \<and>
       view d2 = (view d1)(PrefixAuthSession # hash16 A s := None)) \<and>
    (\<exists>d2. RevokeSession A token d1 = Inr d2 \<and> (\<forall>t. fst (ValidateToken A t token d2) = Inl ErrUnknownCredential))"
proof -
  let ?k = "PrefixAuthSession # hash16 A s"
  obtain val where val: "cd_marshal (au_sess A) sess = Some val" "DB_SetWithPrefix (au_P A) d PrefixAuthSession (hash16 A s) val = Inr d1"
    and tok: "token = sessionPrefix @ RawURL_encode s"
    and sess: "se_ExpiresAt sess = now + (if ttl = 0 then DefaultSessionTTL else ttl)" "se_User sess = user"
    using assms(5) by (auto simp: MintSession_def Let_def split: if_splits option.splits sum.splits)
  have un: "cd_unmarshal (au_sess A) val = Some sess"
    using codec_onD [OF assms(3) _ val(1)] by simp
  have at: "view d1 ?k = Some val"
    using pebble.DB_SetWithPrefix_view [OF assms(1) val(2)] by simp
  obtain d2 where d2: "DB_DeleteWithPrefix (au_P A) d1 PrefixAuthSession (hash16 A s) = Inr d2" "view d2 = (view d1)(?k := None)"
    using pebble.reliable_commitE [OF assms(1,2), of d1 "[KDelete ?k]"] by (auto simp: DB_DeleteWithPrefix_def)
  note V = ValidateToken_session [OF assms(4)] and T = session_token_facts(1) [OF assms(4)] and G = get_record [OF assms(1,2)]
  have "ValidateSession A t token d1 = (if se_ExpiresAt sess < t then (Inl ErrUnknownSession, d2) else (Inr sess, d1))" for t
    unfolding tok ValidateSession_def T by (simp add: G at un d2(1))
  moreover have "ValidateSession A t token d2 = (Inl ErrUnknownSession, d2)" for t
    unfolding tok ValidateSession_def T by (simp add: G d2(2))
  moreover have "RevokeSession A token d1 = Inr d2"
    unfolding tok RevokeSession_def T by (simp add: d2(1))
  ultimately show ?thesis
    using sess d2(2) V [of A, folded tok] by (auto simp: not_less)
qed

theorem session_lifetime_witness:
  "\<exists>token d1 d2. MintSession demo_auth (Inr demo_secret) 5 ''u'' [] 7 [] = (Inr (token, demo_session), d1) \<and>
     ValidateToken demo_auth 12 token d1 = (Inr \<lparr>pn_Subject = ''u'', pn_Mode = ModeAdmin, pn_Source = SourceSession\<rparr>, d1) \<and>
     fst (ValidateToken demo_auth 13 token d1) = Inl ErrUnknownCredential \<and> RevokeSession demo_auth token d1 = Inr d2"
proof -
  have exp: "se_ExpiresAt demo_session = 12" by (simp add: demo_session_def)
  obtain token d1 where m: "MintSession demo_auth (Inr demo_secret) 5 ''u'' [] 7 [] = (Inr (token, demo_session), d1)"
    by (simp add: MintSession_def demo_auth_def demo_session_def hash16_def DB_SetWithPrefix_def mem_pebble_def Let_def)
  have "codec_on {demo_session} (au_sess demo_auth)"
    by (simp add: codec_on_def demo_auth_def)
  note life = session_lifetime [OF demo_auth_facts(1,2) this demo_auth_facts(5) m, unfolded exp]
  note use = life [THEN conjunct2, THEN conjunct1, rule_format, of 12] and late = life [THEN conjunct2, THEN conjunct2, THEN conjunct1, rule_format, of 13]
  have "ValidateToken demo_auth 12 token d1 = (Inr \<lparr>pn_Subject = ''u'', pn_Mode = ModeAdmin, pn_Source = SourceSession\<rparr>, d1)"
    by (rule use) simp
  moreover have "fst (ValidateToken demo_auth 13 token d1) = Inl ErrUnknownCredential"
    using late by auto
  moreover obtain d2 where "RevokeSession demo_auth token d1 = Inr d2"
    using life by blast
  ultimately show ?thesis
    using m by blast
qed

section \<open>Who gets in\<close>

text \<open>C33: every accepted caller is justified by the store. A principal is either the holder of an unexpired session
  record, or of an enabled and unexpired key record under the hash of what was presented, with the mode
  of that record, or a loopback peer without a token while the store holds neither an API key nor an
  administrator; and accepting a caller leaves the store as it is.\<close>

theorem principal_justified:
  assumes "pebble (au_P A) view" and "reliable (au_P A)"
    and "ValidateTokenOrBypass A now token loopback d = (Inr p, d')"
  shows "d' = d \<and>
    ((token = [] \<and> loopback \<and> p = bypassPrincipal \<and>
        (\<forall>h. view d (PrefixAuthAPIKey # h) = None \<and> view d (PrefixAuthAdmin # h) = None)) \<or>
     (\<exists>s val sess. sessionSecretBytes token = Some s \<and> view d (PrefixAuthSession # hash16 A s) = Some val \<and>
        cd_unmarshal (au_sess A) val = Some sess \<and> now \<le> se_ExpiresAt sess \<and>
        p = \<lparr>pn_Subject = se_User sess, pn_Mode = ModeAdmin, pn_Source = SourceSession\<rparr>) \<or>
     (\<exists>s key. (secretBytesFromBearer token = Some s \<or> (s = str_bytes token \<and> \<not> has_prefix token apikeyPrefix \<and> \<not> has_prefix token sessionPrefix)) \<and>
        stored_key A (view d) (hash16 A s) = Some key \<and> usable_key now key \<and> p = key_principal key))"
proof (cases "token = []")
  case True
  then have "loopback \<and> storesEmpty A (Some d) \<and> p = bypassPrincipal \<and> d' = d"
    using assms(3) by (auto simp: ValidateTokenOrBypass_def split: if_splits)
  then show ?thesis
    using True by (auto simp: storesEmpty_def anyKey_any [OF assms(1,2)] split: if_splits)
next
  case False
  then have V: "ValidateToken A now token d = (Inr p, d')"
    using assms(3) by (simp add: ValidateTokenOrBypass_def)
  consider (session) "has_prefix token sessionPrefix"
    | (key) "\<not> has_prefix token sessionPrefix" "has_prefix token apikeyPrefix"
    | (raw) "\<not> has_prefix token sessionPrefix" "\<not> has_prefix token apikeyPrefix" by blast
  then show ?thesis
  proof cases
    case session
    then obtain sess where "ValidateSession A now token d = (Inr sess, d')"
        "p = \<lparr>pn_Subject = se_User sess, pn_Mode = ModeAdmin, pn_Source = SourceSession\<rparr>"
      using V False by (auto simp: ValidateToken_def split: if_splits prod.splits sum.splits)
    then show ?thesis
      by (auto simp: ValidateSession_def get_record [OF assms(1,2)] not_less split: option.splits if_splits)
  next
    case key
    then obtain k where "ValidateAPIKey A now token d = Inr k" "p = key_principal k" "d' = d"
      using V False by (auto simp: ValidateToken_def split: if_splits sum.splits)
    then show ?thesis
      by (auto simp: ValidateAPIKey_def lookup_key_stored [OF assms(1,2)] split: option.splits if_splits)
  next
    case raw
    then obtain k where "ValidateAPIKeyRaw A now token d = Inr k" "p = key_principal k" "d' = d"
      using V False by (auto simp: ValidateToken_def split: if_splits sum.splits)
    then show ?thesis
      using raw by (auto simp: ValidateAPIKeyRaw_def lookup_key_stored [OF assms(1,2)] split: option.splits if_splits)
  qed
qed

theorem principal_justified_witness:
  "ValidateTokenOrBypass demo_auth 5 [] True [] = (Inr bypassPrincipal, []) \<and>
   map_of ([] :: (bytes \<times> bytes) list) (PrefixAuthAdmin # [1]) = None"
proof -
  have "ValidateTokenOrBypass demo_auth 5 [] True [] = (Inr bypassPrincipal, [])"
    by (simp add: ValidateTokenOrBypass_def storesEmpty_def anyKey_any [OF demo_auth_facts(1,2)])
  then show ?thesis
    using principal_justified [OF demo_auth_facts(1,2), of 5 "[]" True "[]" bypassPrincipal "[]"] by simp
qed

lemma key_step_other:
  assumes "pebble (au_P A) view" and "reliable (au_P A)" and "p \<noteq> PrefixAuthAPIKey"
  shows "view (key_step A op d) (p # h) = view d (p # h)"
proof -
  have set: "DB_SetWithPrefix (au_P A) d PrefixAuthAPIKey k v = Inr d' \<Longrightarrow> view d' (p # h) = view d (p # h)" for k v d'
    using pebble.DB_SetWithPrefix_view [OF assms(1)] assms(3) by simp
  have del: "DB_DeleteWithPrefix (au_P A) d PrefixAuthAPIKey k = Inr d' \<Longrightarrow> view d' (p # h) = view d (p # h)" for k d'
    using pebble.DB_DeleteWithPrefix_view [OF assms(1)] assms(3) by simp
  show ?thesis
    by (cases op) (auto simp: CreateAPIKey_def RevokeAPIKey_def DeleteAPIKey_def Let_def dest: set del split: option.split sum.split prod.split)
qed

lemma key_steps_other:
  assumes "pebble (au_P A) view" and "reliable (au_P A)" and "p \<noteq> PrefixAuthAPIKey"
  shows "view (fold (key_step A) ops d) (p # h) = view d (p # h)"
  by (induction ops arbitrary: d) (simp_all add: key_step_other [OF assms])

lemma storesEmpty_iff:
  assumes "pebble (au_P A) view" and "reliable (au_P A)"
  shows "storesEmpty A (Some d) \<longleftrightarrow> (\<forall>h. view d (PrefixAuthAPIKey # h) = None \<and> view d (PrefixAuthAdmin # h) = None)"
  by (auto simp: storesEmpty_def anyKey_any [OF assms])

lemma keys_match_none:
  assumes "keys_match A K S m g"
  shows "(\<forall>h. m (PrefixAuthAPIKey # h) = None) \<longleftrightarrow> (\<forall>s \<in> S. g s = None)"
proof
  assume "\<forall>h. m (PrefixAuthAPIKey # h) = None"
  then show "\<forall>s \<in> S. g s = None"
    using assms by (auto simp: keys_match_def stored_key_def)
next
  assume g: "\<forall>s \<in> S. g s = None"
  show "\<forall>h. m (PrefixAuthAPIKey # h) = None"
  proof (rule ccontr)
    assume "\<not> (\<forall>h. m (PrefixAuthAPIKey # h) = None)"
    then obtain h val where val: "m (PrefixAuthAPIKey # h) = Some val" by auto
    obtain s key where "s \<in> S" "key \<in> K" "cd_unmarshal (au_key A) val = Some key" "h = hash16 A s"
        "ak_StorageHash key = h" "ak_ID key = key_id A s"
      by (rule keys_matchE [OF assms val])
    then have "map_option grant_of (stored_key A m (hash16 A s)) \<noteq> None"
      using val by (simp add: stored_key_def)
    then show False using assms g \<open>s \<in> S\<close> by (auto simp: keys_match_def)
  qed
qed

text \<open>C34: the loopback bypass is not off for good. After any sequence of creations, revocations and deletions of API
  keys, a local caller without a token is let in, as an administrator, exactly if no grant is left and no administrator
  is stored; so on a store without an administrator the bypass that was armed by the first key comes back when the last
  key is deleted. With a token, or from another host, it never applies.\<close>

theorem bypass_rearmed:
  assumes "pebble (au_P A) view" and "reliable (au_P A)" and "ids_distinct A S" and "key_codec A K"
    and "\<forall>h. view d (PrefixAuthAPIKey # h) = None" and "\<forall>op \<in> set ops. op_ok A K S op"
    and "d' = fold (key_step A) ops d"
  shows "ValidateTokenOrBypass A now [] loopback d' =
    (if loopback \<and> (\<forall>h. view d (PrefixAuthAdmin # h) = None) \<and> (\<forall>s \<in> S. fold (grant_step A) ops Map.empty s = None)
     then Inr bypassPrincipal else Inl ErrNoCredential, d')"
proof -
  have "keys_match A K S (view d) Map.empty"
    using assms(5) by (simp add: keys_match_def stored_key_def)
  then have m: "keys_match A K S (view d') (fold (grant_step A) ops Map.empty)"
    unfolding assms(7) by (rule key_steps_match [OF assms(1-4) _ assms(6)])
  have other: "PrefixAuthAdmin \<noteq> PrefixAuthAPIKey"
    by (simp add: PrefixAuthAdmin_def PrefixAuthAPIKey_def)
  have "storesEmpty A (Some d') \<longleftrightarrow> (\<forall>s \<in> S. fold (grant_step A) ops Map.empty s = None) \<and> (\<forall>h. view d (PrefixAuthAdmin # h) = None)"
    using keys_match_none [OF m] key_steps_other [OF assms(1,2) other, of ops d]
    unfolding storesEmpty_iff [OF assms(1,2)] assms(7) by auto
  then show ?thesis
    by (simp add: ValidateTokenOrBypass_def)
qed

theorem bypass_rearmed_witness:
  "let mint = Mint demo_secret 5 ''l'' ModeRead (Some 10); kid = key_id demo_auth demo_secret in
   ValidateTokenOrBypass demo_auth 7 [] True (fold (key_step demo_auth) [mint] []) =
     (Inl ErrNoCredential, fold (key_step demo_auth) [mint] []) \<and>
   ValidateTokenOrBypass demo_auth 7 [] True (fold (key_step demo_auth) [mint, Remove kid] []) =
     (Inr bypassPrincipal, fold (key_step demo_auth) [mint, Remove kid] [])"
proof -
  note exact = bypass_rearmed [OF demo_auth_facts(1-4), where d = "[]", OF _ _ refl, where loopback = True and now = 7]
  have "validMode ModeRead" by (simp add: validMode_def)
  then show ?thesis
    using exact [of "[Mint demo_secret 5 ''l'' ModeRead (Some 10)]"]
      exact [of "[Mint demo_secret 5 ''l'' ModeRead (Some 10), Remove (key_id demo_auth demo_secret)]"]
    by (simp add: Let_def demo_auth_facts(6) del: key_step.simps)
qed

end
