(* ===== verification/Listing.thy ===== *)
theory Listing
  imports Engine Base64
begin

text \<open>
  Paged listings: \<open>internal/engine/list_documents.go\<close>, \<open>list_chunks.go\<close> and their client
  \<open>bridge_source.go\<close>. A page token carries the position of the last item of its page; the next page starts
  strictly behind that position. Times are nanoseconds since Go's zero time; the functions of Go's \<open>time\<close>
  package are parameters.
\<close>

section \<open>Requests and tokens\<close>

definition defaultListPageSize :: int where "defaultListPageSize = 50"
definition maxListPageSize :: int where "maxListPageSize = 200"
definition pageTokenSep :: char where "pageTokenSep = CHR 0x1F"

record go_time =
  gt_format :: "int \<Rightarrow> string"
  gt_parse_nano :: "string \<Rightarrow> int option"
  gt_parse :: "string \<Rightarrow> int option"

record list_documents_request =
  ld_PageSize :: int
  ld_PageToken :: string
  ld_After :: string
  ld_Status :: string
  ld_Tags :: "string list"

definition docHasAnyTag :: "document \<Rightarrow> string list \<Rightarrow> bool" where
  "docHasAnyTag d tags =
     (case d_Enrichment d of None \<Rightarrow> False | Some i \<Rightarrow> list_ex (\<lambda>t. t \<in> set tags) (en_Tags i))"

text \<open>\<open>strings.SplitN(s, sep, 2)\<close>: the parts before and behind the first separator.\<close>

definition split_token :: "string \<Rightarrow> (string \<times> string) option" where
  "split_token s =
     (if pageTokenSep \<in> set s
      then Some (takeWhile (\<lambda>c. c \<noteq> pageTokenSep) s, tl (dropWhile (\<lambda>c. c \<noteq> pageTokenSep) s)) else None)"

definition encode_token :: "string \<Rightarrow> string \<Rightarrow> string" where
  "encode_token position item = RawURL_encode (str_bytes (position @ [pageTokenSep] @ item))"

definition decode_token :: "(string \<Rightarrow> 'k option) \<Rightarrow> string \<Rightarrow> ('k \<times> string) gres" where
  "decode_token parse s =
     (case RawURL_decode s of
        None \<Rightarrow> Inl (ErrInvalid ''page_token decode'')
      | Some raw \<Rightarrow>
          (case split_token (bytes_str raw) of
             None \<Rightarrow> Inl (ErrInvalid ''page_token format'')
           | Some (position, item) \<Rightarrow>
               (case parse position of
                  None \<Rightarrow> Inl (ErrInvalid ''page_token value'')
                | Some k \<Rightarrow> if item = [] then Inl (ErrInvalid ''page_token value'') else Inr (k, item))))"

definition encodePageToken :: "go_time \<Rightarrow> int \<Rightarrow> string \<Rightarrow> string" where
  "encodePageToken T t docID = encode_token (gt_format T t) docID"

definition decodePageToken :: "go_time \<Rightarrow> string \<Rightarrow> (int \<times> string) gres" where
  "decodePageToken T s = decode_token (gt_parse_nano T) s"

definition encodeChunkPageToken :: "int \<Rightarrow> string \<Rightarrow> string" where
  "encodeChunkPageToken idx chunkID = encode_token (Itoa idx) chunkID"

definition decodeChunkPageToken :: "string \<Rightarrow> (int \<times> string) gres" where
  "decodeChunkPageToken s = decode_token Atoi s"

section \<open>One page\<close>

text \<open>The order of both listings: position, then identifier.\<close>

definition page_less :: "('a \<Rightarrow> int) \<Rightarrow> ('a \<Rightarrow> string) \<Rightarrow> 'a \<Rightarrow> 'a \<Rightarrow> bool" where
  "page_less pos name a b = (if pos a = pos b then name a < name b else pos a < pos b)"

text \<open>\<open>sort.SliceStable\<close> with this comparison.\<close>

definition page_sort :: "('a \<Rightarrow> int) \<Rightarrow> ('a \<Rightarrow> string) \<Rightarrow> 'a list \<Rightarrow> 'a list" where
  "page_sort pos name xs = sort_key pos (sort_key name xs)"

text \<open>An item lies behind the resume point.\<close>

definition past_resume :: "('a \<Rightarrow> int) \<Rightarrow> ('a \<Rightarrow> string) \<Rightarrow> int \<times> string \<Rightarrow> 'a \<Rightarrow> bool" where
  "past_resume pos name r a \<longleftrightarrow> fst r < pos a \<or> pos a = fst r \<and> snd r < name a"

definition take_page ::
    "('a \<Rightarrow> int) \<Rightarrow> ('a \<Rightarrow> string) \<Rightarrow> (int \<Rightarrow> string \<Rightarrow> string) \<Rightarrow> nat \<Rightarrow> (int \<times> string) option \<Rightarrow> 'a list \<Rightarrow> 'a list \<times> string" where
  "take_page pos name enc pageSize resume xs =
     (let rest = (case resume of None \<Rightarrow> xs | Some r \<Rightarrow> dropWhile (\<lambda>a. \<not> past_resume pos name r a) xs);
          page = take pageSize rest
      in (page, if pageSize < length rest then enc (pos (last page)) (name (last page)) else []))"

text \<open>
  The resume point of a request: none without a token; a token of blanks is not decoded and stands for the
  zero position, for which \<open>skip\<close> decides.
\<close>

definition resume_point :: "('k :: zero \<times> string) gres \<Rightarrow> string \<Rightarrow> ('k \<times> string) option gres" where
  "resume_point dec token =
     (if token = [] then Inr None
      else if TrimSpace token = [] then Inr (Some (0, []))
      else gbind dec (\<lambda>r. Inr (Some r)))"

section \<open>Documents\<close>

text \<open>
  Both listings drop the error of \<open>VaultKindRange\<close>; its bounds are then nil and the scan runs over the whole
  store. Errors of the scan itself are dropped too.
\<close>

definition scan_kind :: "'db pebble_ops \<Rightarrow> 'db \<Rightarrow> byte \<Rightarrow> ws \<Rightarrow> (bytes \<Rightarrow> bytes \<Rightarrow> 's \<Rightarrow> 's \<times> bool) \<Rightarrow> 's \<Rightarrow> 's" where
  "scan_kind P d kind ws fn s =
     (case VaultKindRange kind ws of
        Inr (lower, upper) \<Rightarrow> fst (DB_RangeScan P d lower upper fn s)
      | Inl e \<Rightarrow>
          (case pb_iter P d None None of
             Inl err \<Rightarrow> s | Inr (kvs, err) \<Rightarrow> fst (scan_loop (\<lambda>_. True) fn kvs s)))"

definition list_keep :: "list_documents_request \<Rightarrow> int \<Rightarrow> document \<Rightarrow> bool" where
  "list_keep req afterT d \<longleftrightarrow>
     \<not> (ld_Status req \<noteq> [] \<and> d_Status d \<noteq> ld_Status req) \<and>
     \<not> (afterT \<noteq> 0 \<and> \<not> afterT < d_IngestedAt d) \<and>
     \<not> (ld_Tags req \<noteq> [] \<and> \<not> docHasAnyTag d (ld_Tags req))"

definition page_size :: "int \<Rightarrow> int gres" where
  "page_size n =
     (let k = (if n = 0 then defaultListPageSize else n)
      in if k < 1 \<or> maxListPageSize < k then Inl (ErrInvalid ''page_size'') else Inr k)"

definition after_time :: "go_time \<Rightarrow> string \<Rightarrow> int gres" where
  "after_time T s =
     (if TrimSpace s = [] then Inr 0
      else case gt_parse T s of None \<Rightarrow> Inl (ErrInvalid ''after must be RFC3339'') | Some t \<Rightarrow> Inr t)"

definition ListDocuments ::
    "('db, 's) engine_env \<Rightarrow> go_time \<Rightarrow> string \<Rightarrow> list_documents_request \<Rightarrow> ('db, 's) engine \<Rightarrow>
     (document list \<times> string) gres \<times> ('db, 's) engine" where
  "ListDocuments E T vault req e =
     (case gbind (page_size (ld_PageSize req)) (\<lambda>n.
             if ld_Status req \<notin> {[], ''embedded'', ''pending'', ''error''} then Inl (ErrInvalid ''status'')
             else gbind (after_time T (ld_After req)) (\<lambda>t.
               gbind (resume_point (decodePageToken T (ld_PageToken req)) (ld_PageToken req)) (\<lambda>r. Inr (n, t, r)))) of
        Inl err \<Rightarrow> (Inl err, e)
      | Inr (pageSize, afterT, resume) \<Rightarrow>
          (case resolve_ws E vault e of
             (ws, e') \<Rightarrow>
               (let docs = scan_kind (ge_P E) (pdb (en_db e')) PrefixDocument ws
                      (\<lambda>k v ds. (case cd_unmarshal (ge_doc E) v of Some d \<Rightarrow> ds @ [d] | None \<Rightarrow> ds, True)) []
                in (Inr (take_page d_IngestedAt d_ID (encodePageToken T) (nat pageSize) resume
                      (page_sort d_IngestedAt d_ID (filter (list_keep req afterT) docs))), e'))))"

section \<open>Chunks\<close>

definition ListChunks ::
    "('db, 's) engine_env \<Rightarrow> string \<Rightarrow> string \<Rightarrow> int \<Rightarrow> string \<Rightarrow> ('db, 's) engine \<Rightarrow>
     (chunk list \<times> string) gres \<times> ('db, 's) engine" where
  "ListChunks E vault documentID PageSize PageToken e =
     (if TrimSpace documentID = [] then (Inl (ErrInvalid ''document_id must be non-empty''), e)
      else case gbind (page_size PageSize) (\<lambda>n.
             gbind (resume_point (decodeChunkPageToken PageToken) PageToken) (\<lambda>r. Inr (n, r))) of
        Inl err \<Rightarrow> (Inl err, e)
      | Inr (pageSize, resume) \<Rightarrow>
          (case resolve_ws E vault e of
             (ws, e') \<Rightarrow>
               (let chunks = scan_kind (ge_P E) (pdb (en_db e')) PrefixChunk ws
                      (\<lambda>k v cs. (case cd_unmarshal (ge_chunk E) v of
                                    Some c \<Rightarrow> if c_DocumentID c = documentID then cs @ [c] else cs
                                  | None \<Rightarrow> cs, True)) []
                in (Inr (take_page c_ChunkIndex c_ID encodeChunkPageToken (nat pageSize) resume
                      (page_sort c_ChunkIndex c_ID chunks)), e'))))"

section \<open>The client that collects all pages\<close>

text \<open>The loop of the bridge source: it ends at an error or at a page without a next token.\<close>

partial_function (option) collect_pages ::
    "(string \<Rightarrow> 'e \<Rightarrow> ('a list \<times> string) gres \<times> 'e) \<Rightarrow> string \<Rightarrow> 'a list \<Rightarrow> 'e \<Rightarrow> ('a list gres \<times> 'e) option" where
  "collect_pages fetch token acc e =
     (case fetch token e of
        (Inl err, e') \<Rightarrow> Some (Inl err, e')
      | (Inr (xs, next_token), e') \<Rightarrow>
          if next_token = [] then Some (Inr (acc @ xs), e') else collect_pages fetch next_token (acc @ xs) e')"

definition bridge_ListDocuments ::
    "('db, 's) engine_env \<Rightarrow> go_time \<Rightarrow> string \<Rightarrow> ('db, 's) engine \<Rightarrow> (document list gres \<times> ('db, 's) engine) option" where
  "bridge_ListDocuments E T vault e =
     collect_pages (\<lambda>token. ListDocuments E T vault
         \<lparr>ld_PageSize = 200, ld_PageToken = token, ld_After = [], ld_Status = ''embedded'', ld_Tags = []\<rparr>) [] [] e"

definition bridge_Chunks ::
    "('db, 's) engine_env \<Rightarrow> string \<Rightarrow> string \<Rightarrow> ('db, 's) engine \<Rightarrow> (chunk list gres \<times> ('db, 's) engine) option" where
  "bridge_Chunks E vault docID e = collect_pages (\<lambda>token. ListChunks E vault docID 200 token) [] [] e"

end
