(* ===== verification/Listing_Facts.thy ===== *)
theory Listing_Facts
  imports Listing Vault_Lifecycle
begin

text \<open>
  Collecting the pages of a listing gives the whole listing. The law of a page server is the locale
  \<open>pager\<close>; documents and chunks are its two interpretations.
\<close>

section \<open>Page servers\<close>

text \<open>
  What a server of pages promises: token \<open>tok i\<close> asks for the items from position \<open>i\<close> on. \<open>ok\<close> holds for
  the states in which the items are the listing; fetching a page keeps it.
\<close>

locale pager =
  fixes fetch :: "string \<Rightarrow> 'e \<Rightarrow> ('a list \<times> string) gres \<times> 'e"
    and ok :: "'a list \<Rightarrow> 'e \<Rightarrow> bool"
    and tok :: "'a list \<Rightarrow> nat \<Rightarrow> string"
    and len :: nat
  assumes len_pos: "0 < len"
    and tok_0: "tok items 0 = []"
    and tok_behind: "ok items e \<Longrightarrow> 0 < i \<Longrightarrow> i < length items \<Longrightarrow> tok items i \<noteq> []"
    and fetch_page: "ok items e \<Longrightarrow> i = 0 \<or> i < length items \<Longrightarrow>
      \<exists>e'. ok items e' \<and> fetch (tok items i) e =
        (Inr (take len (drop i items), if i + len < length items then tok items (i + len) else []), e')"
begin

lemma collect_from:
  assumes "ok items e" and "i = 0 \<or> i < length items"
  shows "\<exists>e'. ok items e' \<and> collect_pages fetch (tok items i) acc e = Some (Inr (acc @ drop i items), e')"
  using assms
proof (induction "length items - i" arbitrary: i acc e rule: less_induct)
  case less
  obtain e1 where e1: "ok items e1" "fetch (tok items i) e =
      (Inr (take len (drop i items), if i + len < length items then tok items (i + len) else []), e1)"
    using fetch_page [OF less.prems] by blast
  show ?case
  proof (cases "i + len < length items")
    case True
    have "tok items (i + len) \<noteq> []"
      using tok_behind [OF e1(1), of "i + len"] len_pos True by simp
    moreover have "\<exists>e'. ok items e' \<and>
        collect_pages fetch (tok items (i + len)) (acc @ take len (drop i items)) e1 =
          Some (Inr ((acc @ take len (drop i items)) @ drop (i + len) items), e')"
      using less.hyps [of "i + len" e1 "acc @ take len (drop i items)"] len_pos True e1(1) by simp
    moreover have "take len (drop i items) @ drop (i + len) items = drop i items"
      by (metis append_take_drop_id drop_drop add.commute)
    ultimately show ?thesis
      using True e1(2) by (subst collect_pages.simps) auto
  next
    case False
    then have "take len (drop i items) = drop i items" by simp
    then show ?thesis
      using False e1 by (subst collect_pages.simps) auto
  qed
qed

theorem collect_all:
  assumes "ok items e"
  shows "\<exists>e'. ok items e' \<and> collect_pages fetch [] [] e = Some (Inr items, e')"
  using collect_from [OF assms, of 0 "[]"] by (simp add: tok_0)

end

section \<open>Pages of a sorted listing\<close>

lemma page_less_linear:
  "\<not> page_less pos name a a"
  "page_less pos name a b \<Longrightarrow> page_less pos name b c \<Longrightarrow> page_less pos name a c"
  by (auto simp: page_less_def split: if_splits)

lemma page_less_asym: "page_less pos name a b \<Longrightarrow> \<not> page_less pos name b a"
  by (auto simp: page_less_def split: if_splits)

lemma sorted_page_sort:
  "sorted_wrt (\<lambda>a b. \<not> page_less pos name b a) (page_sort pos name xs)"
proof -
  have s: "sorted (map name (sort_key name xs))" by simp
  have "sorted (map pos (page_sort pos name xs))" by (simp add: page_sort_def)
  moreover have "name (page_sort pos name xs ! i) \<le> name (page_sort pos name xs ! j)"
    if "i < j" "j < length xs" "pos (page_sort pos name xs ! i) = pos (page_sort pos name xs ! j)" for i j
  proof -
    let ?l = "page_sort pos name xs" and ?p = "pos (page_sort pos name xs ! i)"
    have "filter (\<lambda>x. pos x = ?p) ?l = filter (\<lambda>x. pos x = ?p) (sort_key name xs)"
      unfolding page_sort_def by (rule sort_key_stable)
    moreover have "sorted (map name (filter (\<lambda>x. pos x = ?p) (sort_key name xs)))"
      using s by (rule sorted_filter)
    ultimately have f: "sorted_wrt (\<lambda>a b. name a \<le> name b) (filter (\<lambda>x. pos x = ?p) ?l)"
      by (simp add: sorted_wrt_map)
    have "?l = take j ?l @ ?l ! j # drop (Suc j) ?l"
      using that(2) by (simp add: id_take_nth_drop page_sort_def)
    then have "filter (\<lambda>x. pos x = ?p) ?l =
        filter (\<lambda>x. pos x = ?p) (take j ?l) @ ?l ! j # filter (\<lambda>x. pos x = ?p) (drop (Suc j) ?l)"
      using that(3) by (metis (mono_tags, lifting) filter.simps(2) filter_append)
    moreover have "?l ! i \<in> set (filter (\<lambda>x. pos x = ?p) (take j ?l))"
      using that(1,2) by (force simp: in_set_conv_nth page_sort_def)
    ultimately show ?thesis
      using f by (auto simp: sorted_wrt_append)
  qed
  ultimately have "\<not> page_less pos name (page_sort pos name xs ! j) (page_sort pos name xs ! i)" if "i < j" "j < length xs" for i j
    using that sorted_nth_mono [of "map pos (page_sort pos name xs)" i j] by (auto simp: page_less_def page_sort_def not_less)
  then show ?thesis
    by (simp add: sorted_wrt_iff_nth_less) (simp add: page_sort_def)
qed


lemma past_resume_less: "past_resume pos name (pos b, name b) a \<longleftrightarrow> page_less pos name b a"
  by (auto simp: past_resume_def page_less_def)

definition resume_at :: "('a \<Rightarrow> int) \<Rightarrow> ('a \<Rightarrow> string) \<Rightarrow> 'a list \<Rightarrow> nat \<Rightarrow> (int \<times> string) option" where
  "resume_at pos name items i = (if i = 0 then None else Some (pos (items ! (i - 1)), name (items ! (i - 1))))"

lemma take_page_from:
  assumes "sorted_wrt (page_less pos name) items" and "i = 0 \<or> i < length items" and "0 < n"
  shows "take_page pos name enc n (resume_at pos name items i) items =
    (take n (drop i items), if i + n < length items then enc (pos (items ! (i + n - 1))) (name (items ! (i + n - 1))) else [])"
proof -
  have rest: "(case resume_at pos name items i of None \<Rightarrow> items | Some r \<Rightarrow> dropWhile (\<lambda>a. \<not> past_resume pos name r a) items) = drop i items"
  proof (cases "i = 0")
    case False
    let ?b = "items ! (i - 1)"
    have i: "i < length items" "i - 1 < i" using assms(2) False by simp_all
    have before: "\<not> page_less pos name ?b a" if a: "a \<in> set (take i items)" for a
    proof -
      obtain j where j: "j < i" "a = items ! j" using a i by (auto simp: in_set_conv_nth)
      show ?thesis
      proof (cases "j = i - 1")
        case False
        then have "page_less pos name a ?b"
          using assms(1) i j by (auto simp: sorted_wrt_iff_nth_less)
        then show ?thesis by (rule page_less_asym)
      qed (use j in \<open>simp add: page_less_linear(1)\<close>)
    qed
    have behind: "page_less pos name ?b (items ! i)"
      using assms(1) i by (auto simp: sorted_wrt_iff_nth_less)
    have "dropWhile (\<lambda>a. \<not> page_less pos name ?b a) (take i items @ drop i items) = drop i items"
      using before behind i by (subst dropWhile_append2) (simp_all add: Cons_nth_drop_Suc [symmetric])
    then show ?thesis
      using False by (simp add: resume_at_def past_resume_less)
  qed (simp add: resume_at_def)
  have last: "last (take n (drop i items)) = items ! (i + n - 1)" if "i + n < length items"
    using that assms(3) by (subst last_conv_nth) (auto simp: min_def)
  show ?thesis
    using last by (auto simp: take_page_def rest Let_def)
qed

section \<open>Tokens\<close>

lemma decode_encode_token:
  assumes "pageTokenSep \<notin> set position" and "parse position = Some k" and "item \<noteq> []"
  shows "decode_token parse (encode_token position item) = Inr (k, item)"
proof -
  have "split_token (position @ [pageTokenSep] @ item) = Some (position, item)"
  proof -
    have *: "\<forall>c \<in> set position. c \<noteq> pageTokenSep" using assms(1) by auto
    then show ?thesis
      by (simp add: split_token_def takeWhile_append2 dropWhile_append2)
  qed
  then show ?thesis
    using assms(2,3) by (simp add: decode_token_def encode_token_def RawURL_roundtrip)
qed

lemma TrimSpace_solid:
  assumes "s \<noteq> []" and "hd s \<notin> hd ` set space_encodings" and "last s \<notin> last ` set space_encodings"
  shows "TrimSpace s = s"
proof -
  have ne: "\<forall>e \<in> set space_encodings. e \<noteq> []" by (simp add: space_encodings_def)
  have "\<not> has_prefix s e" if "e \<in> set space_encodings" for e
  proof
    assume "has_prefix s e"
    then have "hd s = hd e" using ne that assms(1) by (cases s; cases e) (auto simp: has_prefix_def)
    then show False using assms(2) that by auto
  qed
  then have "find (has_prefix s) space_encodings = None" by (auto simp: find_None_iff)
  then have "space_len s = 0" by (simp add: space_len_def)
  moreover have "\<not> has_prefix (rev s) (rev e)" if "e \<in> set space_encodings" for e
  proof
    assume "has_prefix (rev s) (rev e)"
    moreover have "e \<noteq> []" using ne that by blast
    ultimately have "last s = last e"
      using assms(1) by (cases s rule: rev_cases; cases e rule: rev_cases) (auto simp: has_prefix_def)
    then show False using assms(3) that by auto
  qed
  then have "find (\<lambda>e. has_prefix (rev s) (rev e)) space_encodings = None" by (auto simp: find_None_iff)
  then have "space_len_end s = 0" by (simp add: space_len_end_def)
  ultimately show ?thesis
    by (simp add: TrimSpace_def trim_left.simps [of s] trim_right.simps [of s])
qed

lemma b64_solid: "n < 64 \<Longrightarrow> b64_digit n \<notin> hd ` set space_encodings \<and> b64_digit n \<notin> last ` set space_encodings"
proof -
  assume n: "n < 64"
  have printable: "32 < (of_char (b64_digit n) :: nat) \<and> of_char (b64_digit n) < (128 :: nat)"
    using n by (auto simp: b64_digit_def of_char_of)
  have "\<forall>e \<in> set space_encodings. (of_char (hd e) \<le> (32 :: nat) \<or> 128 \<le> (of_char (hd e) :: nat)) \<and>
      (of_char (last e) \<le> (32 :: nat) \<or> 128 \<le> (of_char (last e) :: nat))"
    by (simp add: space_encodings_def)
  then show ?thesis using printable by fastforce
qed

lemma encode_token_solid: "encode_token position item \<noteq> []" "TrimSpace (encode_token position item) \<noteq> []"
proof -
  show ne: "encode_token position item \<noteq> []"
  proof -
    have "length (str_bytes (position @ [pageTokenSep] @ item)) \<noteq> 0" by simp
    then show ?thesis by (simp only: encode_token_def RawURL_encode_Nil_iff length_0_conv not_False_eq_True)
  qed
  have digit: "\<exists>n < 64. c = b64_digit n" if "c \<in> set (encode_token position item)" for c
    using that RawURL_digits_less by (auto simp: encode_token_def RawURL_encode_def)
  have "TrimSpace (encode_token position item) = encode_token position item"
  proof (rule TrimSpace_solid [OF ne])
    obtain n where "n < 64" "hd (encode_token position item) = b64_digit n"
      using digit [OF hd_in_set [OF ne]] by (elim exE conjE)
    then show "hd (encode_token position item) \<notin> hd ` set space_encodings"
      using b64_solid [of n] by simp
    obtain m where "m < 64" "last (encode_token position item) = b64_digit m"
      using digit [OF last_in_set [OF ne]] by (elim exE conjE)
    then show "last (encode_token position item) \<notin> last ` set space_encodings"
      using b64_solid [of m] by simp
  qed
  then show "TrimSpace (encode_token position item) \<noteq> []" using ne by simp
qed

lemma digit_code: "k < 10 \<Longrightarrow> of_char (char_of (48 + k :: nat) :: char) = (48 + int k)"
  using of_char_digit [of k] by (metis of_nat_add of_nat_numeral of_nat_of_char)

lemma digit_is_digit: "k < 10 \<Longrightarrow> is_digit (char_of (48 + k :: nat)) \<and> char_of (48 + k) \<notin> {CHR ''-'', CHR ''+'', pageTokenSep}"
proof -
  have "list_all (\<lambda>k. is_digit (char_of (48 + k :: nat)) \<and> char_of (48 + k) \<notin> {CHR ''-'', CHR ''+'', pageTokenSep}) [0 ..< 10]"
    by code_simp
  then show "k < 10 \<Longrightarrow> ?thesis" by (simp add: list_all_iff)
qed

lemma digits_value_nat_digits: "digits_value (nat_digits n) = int n"
proof (induction n rule: nat_digits.induct)
  case (1 n)
  have snoc: "digits_value (s @ [c]) = 10 * digits_value s + (of_char c - 48)" for s c
    by (simp add: digits_value_def)
  show ?case
  proof (cases "n < 10")
    case True
    then show ?thesis using digit_code [of n] by (simp add: nat_digits.simps [of n] digits_value_def)
  next
    case False
    have "n mod 10 < 10" by simp
    then show ?thesis
      using 1 [OF False] digit_code [of "n mod 10"] False
      by (simp add: nat_digits.simps [of n] snoc) (metis mult_div_mod_eq of_nat_add of_nat_mult of_nat_numeral)
  qed
qed

lemma nat_digits_digits: "list_all is_digit (nat_digits n)" "pageTokenSep \<notin> set (nat_digits n)"
  "hd (nat_digits n) \<notin> {CHR ''-'', CHR ''+''}"
proof -
  have *: "is_digit c \<and> c \<notin> {CHR ''-'', CHR ''+'', pageTokenSep}" if c: "c \<in> set (nat_digits n)" for c
  proof -
    obtain k :: nat where "k < 10" "c = char_of (48 + k)"
      using nat_digits_chars [OF c] by (elim exE conjE)
    then show ?thesis using digit_is_digit [of k] by simp
  qed
  show "list_all is_digit (nat_digits n)"
    unfolding list_all_iff using * by blast
  show "pageTokenSep \<notin> set (nat_digits n)"
    using * by blast
  show "hd (nat_digits n) \<notin> {CHR ''-'', CHR ''+''}"
    using * [OF hd_in_set [OF nat_digits_nonempty]] by blast
qed

lemma Atoi_Itoa:
  assumes "- (2 ^ 63) \<le> i" and "i < 2 ^ 63"
  shows "Atoi (Itoa i) = Some i" "pageTokenSep \<notin> set (Itoa i)"
proof -
  show "Atoi (Itoa i) = Some i"
    using assms nat_digits_digits [of "nat i"] nat_digits_digits [of "nat (- i)"]
    by (cases "i < 0") (simp_all add: Atoi_def Itoa_def Let_def digits_value_nat_digits)
  show "pageTokenSep \<notin> set (Itoa i)"
    using nat_digits_digits(2) by (simp add: Itoa_def) (simp add: pageTokenSep_def)
qed


section \<open>The listing of a store\<close>

lemma fold_collect:
  fixes dec :: "bytes \<Rightarrow> 'a option"
  shows "fold (\<lambda>(i, v) acc. case dec v of Some x \<Rightarrow> if Q x then acc @ [x] else acc | None \<Rightarrow> acc) es acc =
     acc @ filter Q (List.map_filter (\<lambda>e. dec (snd e)) es)"
  by (induction es arbitrary: acc) (auto simp: map_filter_simps split: option.split)

lemma set_map_filter: "x \<in> set (List.map_filter f xs) \<longleftrightarrow> (\<exists>y \<in> set xs. f y = Some x)"
  by (induction xs) (auto simp: map_filter_simps split: option.split)

lemma distinct_decoded:
  fixes dec :: "bytes \<Rightarrow> 'a option"
  assumes "distinct (map fst es)" and "\<And>i v x. (i, v) \<in> set es \<Longrightarrow> dec v = Some x \<Longrightarrow> name x = i"
  shows "distinct (map name (List.map_filter (\<lambda>e. dec (snd e)) es))"
  using assms
proof (induction es)
  case (Cons e es)
  have "distinct (map name (List.map_filter (\<lambda>e. dec (snd e)) es))"
    using Cons.prems by (intro Cons.IH) auto
  moreover have "name x \<notin> name ` set (List.map_filter (\<lambda>e. dec (snd e)) es)" if "dec (snd e) = Some x" for x
  proof
    assume "name x \<in> name ` set (List.map_filter (\<lambda>e. dec (snd e)) es)"
    then obtain i v y where "(i, v) \<in> set es" "dec v = Some y" "name x = name y"
      by (auto simp: set_map_filter)
    moreover have "name x = fst e" using Cons.prems(2) [of "fst e" "snd e" x] that by simp
    ultimately have "fst e \<in> fst ` set es"
      using Cons.prems(2) [of i v y] by (auto intro: image_eqI [of _ _ "(i, v)"])
    then show False using Cons.prems(1) by simp
  qed
  ultimately show ?case by (cases "dec (snd e)") (auto simp: map_filter_simps)
qed (simp add: map_filter_simps)

text \<open>Every record is stored under its own identifier.\<close>

definition own_ids :: "byte \<Rightarrow> ('a \<Rightarrow> string) \<Rightarrow> (bytes \<Rightarrow> 'a option) \<Rightarrow> ws \<Rightarrow> contents \<Rightarrow> bool" where
  "own_ids kind name dec ws m \<longleftrightarrow>
     (\<forall>i v x. m (vaultScopedString kind ws i) = Some v \<and> dec v = Some x \<longrightarrow> name x = i \<and> i \<noteq> [])"

definition stored_in :: "byte \<Rightarrow> (bytes \<Rightarrow> 'a option) \<Rightarrow> ws \<Rightarrow> contents \<Rightarrow> 'a set" where
  "stored_in kind dec ws m = {x. \<exists>i v. m (vaultScopedString kind ws i) = Some v \<and> dec v = Some x}"

lemma scan_kind_items:
  fixes dec :: "bytes \<Rightarrow> 'a option"
  assumes "pebble P view" and "reliable P" and "is_ws ws" and "long_keys kind (view d)"
    and "VaultKindRange kind ws = Inr (lower, upper)" and "own_ids kind name dec ws (view d)"
  obtains xs where
    "\<And>Q. scan_kind P d kind ws
        (\<lambda>k v acc. (case dec v of Some x \<Rightarrow> if Q x then acc @ [x] else acc | None \<Rightarrow> acc, True)) [] = filter Q xs"
    and "set xs = stored_in kind dec ws (view d)" and "distinct (map name xs)"
proof -
  obtain es where
    scan: "\<And>f (s :: 'a list). DB_RangeScan P d lower upper (\<lambda>k v s. (f k v s, True)) s = (fold (\<lambda>(i, v). f (vaultScopedString kind ws i) v) es s, None)"
    and es: "distinct (map fst es)" "sorted_wrt (<) (map (str_bytes \<circ> fst) es)"
      "\<And>i v. (i, v) \<in> set es \<longleftrightarrow> view d (vaultScopedString kind ws i) = Some v"
    by (rule pebble.scoped_scan [OF assms(1-5)]) blast
  let ?xs = "List.map_filter (\<lambda>e. dec (snd e)) es"
  show thesis
  proof (rule that [of ?xs])
    show "scan_kind P d kind ws
        (\<lambda>k v acc. (case dec v of Some x \<Rightarrow> if Q x then acc @ [x] else acc | None \<Rightarrow> acc, True)) [] = filter Q ?xs" for Q
      using fold_collect [where dec = dec and Q = Q and es = es and acc = "[]"] by (simp add: scan_kind_def assms(5) scan case_prod_unfold)
    show "set ?xs = stored_in kind dec ws (view d)"
      using es(3) by (force simp: stored_in_def set_map_filter)
    show "distinct (map name ?xs)"
      using assms(6) es by (intro distinct_decoded) (auto simp: own_ids_def)
  qed
qed

lemma mset_page_sort: "mset (page_sort pos name xs) = mset xs"
  by (simp add: page_sort_def)

lemma strict_page_sort:
  assumes "distinct (map name xs)"
  shows "sorted_wrt (page_less pos name) (page_sort pos name xs)"
proof -
  let ?l = "page_sort pos name xs"
  have "distinct (map name ?l)"
    using assms mset_page_sort by (metis distinct_map mset_eq_imp_distinct_iff mset_eq_setD)
  then have "name (?l ! i) \<noteq> name (?l ! j)" if "i < j" "j < length ?l" for i j
    using that by (auto simp: distinct_conv_nth)
  moreover have "\<not> page_less pos name (?l ! j) (?l ! i)" if "i < j" "j < length ?l" for i j
    using sorted_page_sort [of pos name xs] that by (simp add: sorted_wrt_iff_nth_less)
  ultimately show ?thesis
    unfolding sorted_wrt_iff_nth_less page_less_def by (metis linorder_neqE)
qed

section \<open>The name of the vault\<close>

text \<open>The vault resolves to \<open>ws\<close> and the store has the contents \<open>d\<close>.\<close>

definition settled :: "('db, 's) engine_env \<Rightarrow> string \<Rightarrow> ws \<Rightarrow> 'db \<Rightarrow> ('db, 's) engine \<Rightarrow> bool" where
  "settled E vault ws d e \<longleftrightarrow>
     lru_inv (vaultPrefixCache (en_db e)) \<and> 0 < cap (vaultPrefixCache (en_db e)) \<and>
     fst (resolve_ws E vault e) = ws \<and> pdb (en_db e) = d"

lemma settled_again:
  assumes "settled E vault ws d e"
  obtains e1 where "resolve_ws E vault e = (ws, e1)" and "settled E vault ws d e1" and "pdb (en_db e1) = d"
proof -
  obtain e1 where e1: "resolve_ws E vault e = (ws, e1)"
    using assms unfolding settled_def by (metis prod.collapse)
  note c = resolve_ws_cache [OF _ e1]
  have "settled E vault ws d e1"
    using resolve_again [OF _ _ e1, of e1] c assms by (auto simp: settled_def)
  then show thesis
    using e1 that by (simp add: settled_def)
qed

section \<open>Tokens of a listing\<close>

definition page_tok :: "('a \<Rightarrow> int) \<Rightarrow> ('a \<Rightarrow> string) \<Rightarrow> (int \<Rightarrow> string \<Rightarrow> string) \<Rightarrow> 'a list \<Rightarrow> nat \<Rightarrow> string" where
  "page_tok pos name enc items i = (if i = 0 then [] else enc (pos (items ! (i - 1))) (name (items ! (i - 1))))"

text \<open>The positions of the listing survive the token.\<close>

definition tokens_ok :: "('a \<Rightarrow> int) \<Rightarrow> ('a \<Rightarrow> string) \<Rightarrow> (int \<Rightarrow> string) \<Rightarrow> (string \<Rightarrow> int option) \<Rightarrow> 'a list \<Rightarrow> bool" where
  "tokens_ok pos name fmt parse items \<longleftrightarrow>
     (\<forall>a \<in> set items. name a \<noteq> [] \<and> pageTokenSep \<notin> set (fmt (pos a)) \<and> parse (fmt (pos a)) = Some (pos a))"

lemma resume_point_tok:
  assumes "tokens_ok pos name fmt parse items" and "i = 0 \<or> i < length items"
  shows "resume_point (decode_token parse (page_tok pos name (\<lambda>p. encode_token (fmt p)) items i))
      (page_tok pos name (\<lambda>p. encode_token (fmt p)) items i) = Inr (resume_at pos name items i)"
proof (cases "i = 0")
  case False
  then have "items ! (i - 1) \<in> set items" using assms(2) by simp
  then show ?thesis
    using False assms(1) decode_encode_token [of "fmt (pos (items ! (i - 1)))" parse _ "name (items ! (i - 1))"]
    by (simp add: resume_point_def page_tok_def resume_at_def tokens_ok_def encode_token_solid)
qed (simp add: resume_point_def page_tok_def resume_at_def)

section \<open>Documents\<close>

definition all_documents :: "('db, 's) engine_env \<Rightarrow> ws \<Rightarrow> 'db \<Rightarrow> document list" where
  "all_documents E ws d =
     scan_kind (ge_P E) d PrefixDocument ws
       (\<lambda>k v ds. (case cd_unmarshal (ge_doc E) v of Some x \<Rightarrow> ds @ [x] | None \<Rightarrow> ds, True)) []"

definition page_len :: "int \<Rightarrow> nat" where
  "page_len n = (case page_size n of Inr k \<Rightarrow> nat k | Inl _ \<Rightarrow> 1)"

definition documents_ok ::
    "('db, 's) engine_env \<Rightarrow> go_time \<Rightarrow> string \<Rightarrow> list_documents_request \<Rightarrow> ws \<Rightarrow> 'db \<Rightarrow> document list \<Rightarrow> ('db, 's) engine \<Rightarrow> bool" where
  "documents_ok E T vault req ws d items e \<longleftrightarrow>
     (\<exists>t n. settled E vault ws d e \<and> page_size (ld_PageSize req) = Inr n \<and>
        ld_Status req \<in> {[], ''embedded'', ''pending'', ''error''} \<and> after_time T (ld_After req) = Inr t \<and>
        items = page_sort d_IngestedAt d_ID (filter (list_keep req t) (all_documents E ws d)) \<and>
        sorted_wrt (page_less d_IngestedAt d_ID) items \<and>
        tokens_ok d_IngestedAt d_ID (gt_format T) (gt_parse_nano T) items)"

lemma page_size_Inr: "page_size n = Inr k \<Longrightarrow> 0 < k \<and> page_len n = nat k"
  by (auto simp: page_size_def page_len_def Let_def split: if_splits)

lemma page_len_pos: "0 < page_len n"
  by (cases "page_size n") (auto simp: page_len_def dest: page_size_Inr)

lemma list_keep_token: "list_keep (req\<lparr>ld_PageToken := token\<rparr>) t = list_keep req t"
  by (simp add: list_keep_def fun_eq_iff)

interpretation document_pages:
  pager "\<lambda>token. ListDocuments E T vault (req\<lparr>ld_PageToken := token\<rparr>)" "documents_ok E T vault req ws d"
    "page_tok d_IngestedAt d_ID (encodePageToken T)" "page_len (ld_PageSize req)" for E T vault req ws d
proof unfold_locales
  show "0 < page_len (ld_PageSize req)" by (rule page_len_pos)
  show "page_tok d_IngestedAt d_ID (encodePageToken T) items 0 = []" for items
    by (simp add: page_tok_def)
  show "page_tok d_IngestedAt d_ID (encodePageToken T) items i \<noteq> []" if "0 < i" for items i
    using that by (simp add: page_tok_def encodePageToken_def encode_token_solid)
  show "\<exists>e'. documents_ok E T vault req ws d items e' \<and>
      ListDocuments E T vault (req\<lparr>ld_PageToken := page_tok d_IngestedAt d_ID (encodePageToken T) items i\<rparr>) e =
        (Inr (take (page_len (ld_PageSize req)) (drop i items),
           if i + page_len (ld_PageSize req) < length items
           then page_tok d_IngestedAt d_ID (encodePageToken T) items (i + page_len (ld_PageSize req)) else []), e')"
    if ok: "documents_ok E T vault req ws d items e" and i: "i = 0 \<or> i < length items" for items e i
  proof -
    obtain t n where h: "settled E vault ws d e" "page_size (ld_PageSize req) = Inr n"
        "ld_Status req \<in> {[], ''embedded'', ''pending'', ''error''}" "after_time T (ld_After req) = Inr t"
        "items = page_sort d_IngestedAt d_ID (filter (list_keep req t) (all_documents E ws d))"
        "sorted_wrt (page_less d_IngestedAt d_ID) items" "tokens_ok d_IngestedAt d_ID (gt_format T) (gt_parse_nano T) items"
      using ok unfolding documents_ok_def by (elim exE conjE)
    obtain e1 where e1: "resolve_ws E vault e = (ws, e1)" "settled E vault ws d e1" "pdb (en_db e1) = d"
      by (rule settled_again [OF h(1)])
    have "documents_ok E T vault req ws d items e1"
      using h e1 unfolding documents_ok_def by blast
    moreover have "encodePageToken T = (\<lambda>p. encode_token (gt_format T p))"
      by (simp add: fun_eq_iff encodePageToken_def)
    then have "resume_point (decodePageToken T (page_tok d_IngestedAt d_ID (encodePageToken T) items i))
        (page_tok d_IngestedAt d_ID (encodePageToken T) items i) = Inr (resume_at d_IngestedAt d_ID items i)"
      using resume_point_tok [OF h(7) i] by (simp add: decodePageToken_def)
    moreover note take_page_from [OF h(6) i, of "nat n" "encodePageToken T"] page_size_Inr [OF h(2)]
    ultimately show ?thesis
      using h(3) e1 by (intro exI [of _ e1])
        (simp add: ListDocuments_def h(2,4) list_keep_token h(5) [unfolded all_documents_def, symmetric] page_tok_def)
  qed
qed

lemma documents_collected:
  assumes "pebble (ge_P E) view" and "reliable (ge_P E)" and "is_ws ws" and "settled E vault ws d e"
    and "VaultKindRange PrefixDocument ws = Inr (lower, upper)" and "long_keys PrefixDocument (view d)"
    and "own_ids PrefixDocument d_ID (cd_unmarshal (ge_doc E)) ws (view d)"
    and "\<forall>x \<in> stored_in PrefixDocument (cd_unmarshal (ge_doc E)) ws (view d).
      pageTokenSep \<notin> set (gt_format T (d_IngestedAt x)) \<and> gt_parse_nano T (gt_format T (d_IngestedAt x)) = Some (d_IngestedAt x)"
    and "page_size (ld_PageSize req) = Inr n" and "ld_Status req \<in> {[], ''embedded'', ''pending'', ''error''}"
    and "after_time T (ld_After req) = Inr t"
  shows "\<exists>docs e'. collect_pages (\<lambda>token. ListDocuments E T vault (req\<lparr>ld_PageToken := token\<rparr>)) [] [] e = Some (Inr docs, e') \<and>
    set docs = {x \<in> stored_in PrefixDocument (cd_unmarshal (ge_doc E)) ws (view d). list_keep req t x} \<and>
    sorted_wrt (page_less d_IngestedAt d_ID) docs \<and> settled E vault ws d e'"
proof -
  obtain xs where xs:
    "\<And>Q. scan_kind (ge_P E) d PrefixDocument ws
        (\<lambda>k v acc. (case cd_unmarshal (ge_doc E) v of Some x \<Rightarrow> if Q x then acc @ [x] else acc | None \<Rightarrow> acc, True)) [] = filter Q xs"
    "set xs = stored_in PrefixDocument (cd_unmarshal (ge_doc E)) ws (view d)" "distinct (map d_ID xs)"
    by (rule scan_kind_items [OF assms(1-3,6,5,7)]) blast
  have all: "all_documents E ws d = xs"
    using xs(1) [of "\<lambda>_. True"] by (simp add: all_documents_def cong: option.case_cong)
  define items where "items = page_sort d_IngestedAt d_ID (filter (list_keep req t) xs)"
  have set: "set items = {x \<in> set xs. list_keep req t x}"
    unfolding items_def by (metis mset_page_sort mset_eq_setD set_filter)
  have sorted: "sorted_wrt (page_less d_IngestedAt d_ID) items"
    unfolding items_def by (intro strict_page_sort distinct_map_filter xs(3))
  have "d_ID x \<noteq> []" if "x \<in> set xs" for x
    using that assms(7) unfolding xs(2) by (auto simp: own_ids_def stored_in_def)
  then have tok: "tokens_ok d_IngestedAt d_ID (gt_format T) (gt_parse_nano T) items"
    using assms(8) set xs(2) by (auto simp: tokens_ok_def)
  have ok: "documents_ok E T vault req ws d items e"
    unfolding documents_ok_def using assms(4,9-11) sorted tok all items_def by blast
  obtain e' where e': "documents_ok E T vault req ws d items e'"
      "collect_pages (\<lambda>token. ListDocuments E T vault (req\<lparr>ld_PageToken := token\<rparr>)) [] [] e = Some (Inr items, e')"
    using document_pages.collect_all [OF ok] by (elim exE conjE)
  then show ?thesis
    using set sorted xs(2) unfolding documents_ok_def by auto
qed

text \<open>In particular the bridge reads every embedded document.\<close>

lemma bridge_ListDocuments_complete:
  assumes "pebble (ge_P E) view" and "reliable (ge_P E)" and "is_ws ws" and "settled E vault ws d e"
    and "VaultKindRange PrefixDocument ws = Inr (lower, upper)" and "long_keys PrefixDocument (view d)"
    and "own_ids PrefixDocument d_ID (cd_unmarshal (ge_doc E)) ws (view d)"
    and "\<forall>x \<in> stored_in PrefixDocument (cd_unmarshal (ge_doc E)) ws (view d).
      pageTokenSep \<notin> set (gt_format T (d_IngestedAt x)) \<and> gt_parse_nano T (gt_format T (d_IngestedAt x)) = Some (d_IngestedAt x)"
  shows "\<exists>docs e'. bridge_ListDocuments E T vault e = Some (Inr docs, e') \<and>
    set docs = {x \<in> stored_in PrefixDocument (cd_unmarshal (ge_doc E)) ws (view d). d_Status x = ''embedded''} \<and>
    sorted_wrt (page_less d_IngestedAt d_ID) docs"
proof -
  let ?req = "\<lparr>ld_PageSize = 200, ld_PageToken = [], ld_After = [], ld_Status = ''embedded'', ld_Tags = []\<rparr>"
  have size: "page_size (ld_PageSize ?req) = Inr 200" by (simp add: page_size_def maxListPageSize_def)
  have "TrimSpace [] = []" by code_simp
  then have after: "after_time T (ld_After ?req) = Inr 0" by (simp add: after_time_def)
  have status: "ld_Status ?req \<in> {[], ''embedded'', ''pending'', ''error''}" by simp
  have "list_keep ?req 0 x \<longleftrightarrow> d_Status x = ''embedded''" for x by (auto simp: list_keep_def)
  then show ?thesis
    using documents_collected [OF assms size status after] by (auto simp: bridge_ListDocuments_def)
qed

text \<open>C35: paging visits every document once. Following the page tokens of a valid request from the first page
  until no token is returned ends, and the concatenated pages are exactly the documents of the vault that
  match the filters, in the order of ingestion time and identifier, each once; the store is unchanged.\<close>

theorem document_pages_complete:
  assumes "pebble (ge_P E) view" and "reliable (ge_P E)" and "is_ws ws" and "settled E vault ws d e"
    and "VaultKindRange PrefixDocument ws = Inr (lower, upper)" and "long_keys PrefixDocument (view d)"
    and "own_ids PrefixDocument d_ID (cd_unmarshal (ge_doc E)) ws (view d)"
    and "\<forall>x \<in> stored_in PrefixDocument (cd_unmarshal (ge_doc E)) ws (view d).
      pageTokenSep \<notin> set (gt_format T (d_IngestedAt x)) \<and> gt_parse_nano T (gt_format T (d_IngestedAt x)) = Some (d_IngestedAt x)"
    and "page_size (ld_PageSize req) = Inr n" and "ld_Status req \<in> {[], ''embedded'', ''pending'', ''error''}"
    and "after_time T (ld_After req) = Inr t"
  shows "\<exists>docs e'. collect_pages (\<lambda>token. ListDocuments E T vault (req\<lparr>ld_PageToken := token\<rparr>)) [] [] e = Some (Inr docs, e') \<and>
    set docs = {x \<in> stored_in PrefixDocument (cd_unmarshal (ge_doc E)) ws (view d). list_keep req t x} \<and>
    sorted_wrt (page_less d_IngestedAt d_ID) docs \<and> settled E vault ws d e'"
  by (rule documents_collected [OF assms])

definition demo_times :: go_time where
  "demo_times = \<lparr>gt_format = Itoa, gt_parse_nano = Atoi, gt_parse = Atoi\<rparr>"

definition demo_listing :: "((bytes \<times> bytes) list, unit) engine" where
  "demo_listing = demo_engine\<lparr>en_db := (en_db demo_engine)\<lparr>pdb := (DocumentKey demo_vault ''db'', str_bytes ''db'') # demo_data\<rparr>\<rparr>"

definition demo_page :: list_documents_request where
  "demo_page = \<lparr>ld_PageSize = 1, ld_PageToken = [], ld_After = [], ld_Status = [], ld_Tags = []\<rparr>"

lemma demo_settled: "settled demo_engine_env ''a'' demo_vault (pdb (en_db demo_listing)) demo_listing"
proof -
  have ws: "VaultPrefix demo_sip ''a'' = demo_vault"
    by code_simp
  have get: "fst (vaultCache_Get (vaultPrefixCache (en_db demo_listing)) ''a'') = None"
    by (simp add: demo_listing_def demo_engine_def NewWithDB_def newQueryCaches_def Default_def vaultCache_Get_def newVaultCache_def
        NewLRU_def)
  have cache: "vaultPrefixCache (en_db demo_listing) = NewLRU 10"
    by (simp add: demo_listing_def demo_engine_def NewWithDB_def newQueryCaches_def Default_def newVaultCache_def)
  have name: "pb_get (ge_P demo_engine_env) (pdb (en_db demo_listing)) (VaultNameIndexKey demo_sip ''a'') = Inr None"
    by (simp add: demo_listing_def demo_engine_env_def mem_pebble_def demo_data_def VaultNameIndexKey_def ChunkKey_def
        DocumentKey_def EmbeddingKey_def vaultScopedString_def vaultScoped_def)
  have "ge_sip demo_engine_env = demo_sip" by (simp add: demo_engine_env_def)
  then have "fst (resolve_ws demo_engine_env ''a'' demo_listing) = demo_vault"
    using get by (simp add: resolve_ws_def ResolveVaultPrefix_def case_prod_unfold name ws Let_def split: option.split)
  then show ?thesis
    by (simp add: settled_def cache lru_inv_NewLRU cap_NewLRU)
qed

lemma demo_documents:
  "stored_in PrefixDocument (cd_unmarshal (ge_doc demo_engine_env)) demo_vault (map_of (pdb (en_db demo_listing))) =
     {blank_document\<lparr>d_ID := ''da'', d_FilePath := ''/da''\<rparr>, blank_document\<lparr>d_ID := ''db'', d_FilePath := ''/db''\<rparr>}"
  "own_ids PrefixDocument d_ID (cd_unmarshal (ge_doc demo_engine_env)) demo_vault (map_of (pdb (en_db demo_listing)))"
proof -
  have str: "str_bytes i = [100, 97] \<longleftrightarrow> i = ''da''" "str_bytes i = [100, 98] \<longleftrightarrow> i = ''db''" for i
  proof -
    have "str_bytes ''da'' = [100, 97]" "str_bytes ''db'' = [100, 98]" by code_simp+
    then show "str_bytes i = [100, 97] \<longleftrightarrow> i = ''da''" "str_bytes i = [100, 98] \<longleftrightarrow> i = ''db''"
      by (metis str_bytes_inject)+
  qed
  have b: "bytes_str [100, 97] = ''da''" "bytes_str [100, 98] = ''db''" "str_bytes ''da'' = [100, 97]" "str_bytes ''db'' = [100, 98]"
    by code_simp+
  have view: "map_of (pdb (en_db demo_listing)) (vaultScopedString PrefixDocument demo_vault i) =
      (if i = ''da'' then Some [100, 97] else if i = ''db'' then Some [100, 98] else None)" for i
    by (simp add: demo_listing_def demo_data_def DocumentKey_def ChunkKey_def EmbeddingKey_def vaultScopedString_def vaultScoped_def
        PrefixDocument_def PrefixChunk_def PrefixEmbedding_def b str)
  have dec: "cd_unmarshal (ge_doc demo_engine_env) v = Some (blank_document\<lparr>d_ID := bytes_str v, d_FilePath := ''/'' @ bytes_str v\<rparr>)" for v
    by (simp add: demo_engine_env_def)
  show "stored_in PrefixDocument (cd_unmarshal (ge_doc demo_engine_env)) demo_vault (map_of (pdb (en_db demo_listing))) =
     {blank_document\<lparr>d_ID := ''da'', d_FilePath := ''/da''\<rparr>, blank_document\<lparr>d_ID := ''db'', d_FilePath := ''/db''\<rparr>}"
    (is "?S = {?a, ?b}")
  proof
    show "?S \<subseteq> {?a, ?b}"
      unfolding stored_in_def view dec by (auto simp: b split: if_splits)
    have "?a \<in> ?S"
      unfolding stored_in_def view dec by (intro CollectI exI [of _ "''da''"] exI [of _ "[100, 97]"]) (simp add: b)
    moreover have "?b \<in> ?S"
      unfolding stored_in_def view dec by (intro CollectI exI [of _ "''db''"] exI [of _ "[100, 98]"]) (simp add: b)
    ultimately show "{?a, ?b} \<subseteq> ?S" by simp
  qed
  show "own_ids PrefixDocument d_ID (cd_unmarshal (ge_doc demo_engine_env)) demo_vault (map_of (pdb (en_db demo_listing)))"
    unfolding own_ids_def view dec by (auto simp: b split: if_splits)
qed

theorem document_pages_complete_witness:
  "\<exists>docs e'. collect_pages (\<lambda>token. ListDocuments demo_engine_env demo_times ''a'' (demo_page\<lparr>ld_PageToken := token\<rparr>)) [] []
      demo_listing = Some (Inr docs, e') \<and>
    set docs = {blank_document\<lparr>d_ID := ''da'', d_FilePath := ''/da''\<rparr>, blank_document\<lparr>d_ID := ''db'', d_FilePath := ''/db''\<rparr>}"
proof -
  have keep: "list_keep demo_page 0 = (\<lambda>_. True)"
    by (simp add: fun_eq_iff list_keep_def demo_page_def)
  have range: "VaultKindRange PrefixDocument demo_vault =
      Inr ([PrefixDocument, 0, 0, 0, 0, 0, 0, 0, 97], [PrefixDocument, 0, 0, 0, 0, 0, 0, 0, 98])"
    by code_simp
  have long: "long_keys PrefixDocument (map_of (pdb (en_db demo_listing)))"
    by (auto simp: long_keys_def demo_listing_def demo_data_def DocumentKey_def ChunkKey_def EmbeddingKey_def vaultScopedString_def
        vaultScoped_def split: if_splits)
  have zero: "Itoa 0 = ''0''" "Atoi ''0'' = Some 0"
    by code_simp+
  have times: "\<forall>x \<in> stored_in PrefixDocument (cd_unmarshal (ge_doc demo_engine_env)) demo_vault (map_of (pdb (en_db demo_listing))).
      pageTokenSep \<notin> set (gt_format demo_times (d_IngestedAt x)) \<and>
      gt_parse_nano demo_times (gt_format demo_times (d_IngestedAt x)) = Some (d_IngestedAt x)"
    by (simp add: demo_documents(1) demo_times_def blank_document_def zero pageTokenSep_def)
  have size: "page_size (ld_PageSize demo_page) = Inr 1"
    by (simp add: page_size_def demo_page_def maxListPageSize_def)
  have after: "after_time demo_times (ld_After demo_page) = Inr 0"
  proof -
    have "TrimSpace [] = []" by code_simp
    then show ?thesis by (simp add: after_time_def demo_page_def)
  qed
  have ws: "is_ws demo_vault" by (simp add: is_ws_def)
  have status: "ld_Status demo_page \<in> {[], ''embedded'', ''pending'', ''error''}" by (simp add: demo_page_def)
  show ?thesis
    using document_pages_complete [OF demo_store ws demo_settled range long demo_documents(2) times size status after]
    by (auto simp: demo_documents(1) keep)
qed

section \<open>Chunks\<close>

definition chunks_ok ::
    "('db, 's) engine_env \<Rightarrow> string \<Rightarrow> string \<Rightarrow> int \<Rightarrow> ws \<Rightarrow> 'db \<Rightarrow> chunk list \<Rightarrow> ('db, 's) engine \<Rightarrow> bool" where
  "chunks_ok E vault docID PageSize ws d items e \<longleftrightarrow>
     settled E vault ws d e \<and> TrimSpace docID \<noteq> [] \<and> (\<exists>n. page_size PageSize = Inr n) \<and>
     items = page_sort c_ChunkIndex c_ID (scan_kind (ge_P E) d PrefixChunk ws
         (\<lambda>k v cs. (case cd_unmarshal (ge_chunk E) v of
                       Some c \<Rightarrow> if c_DocumentID c = docID then cs @ [c] else cs | None \<Rightarrow> cs, True)) []) \<and>
     sorted_wrt (page_less c_ChunkIndex c_ID) items \<and> tokens_ok c_ChunkIndex c_ID Itoa Atoi items"

interpretation chunk_pages:
  pager "ListChunks E vault docID PageSize" "chunks_ok E vault docID PageSize ws d"
    "page_tok c_ChunkIndex c_ID encodeChunkPageToken" "page_len PageSize" for E vault docID PageSize ws d
proof unfold_locales
  show "0 < page_len PageSize" by (rule page_len_pos)
  show "page_tok c_ChunkIndex c_ID encodeChunkPageToken items 0 = []" for items
    by (simp add: page_tok_def)
  show "page_tok c_ChunkIndex c_ID encodeChunkPageToken items i \<noteq> []" if "0 < i" for items i
    using that by (simp add: page_tok_def encodeChunkPageToken_def encode_token_solid)
  show "\<exists>e'. chunks_ok E vault docID PageSize ws d items e' \<and>
      ListChunks E vault docID PageSize (page_tok c_ChunkIndex c_ID encodeChunkPageToken items i) e =
        (Inr (take (page_len PageSize) (drop i items),
           if i + page_len PageSize < length items
           then page_tok c_ChunkIndex c_ID encodeChunkPageToken items (i + page_len PageSize) else []), e')"
    if ok: "chunks_ok E vault docID PageSize ws d items e" and i: "i = 0 \<or> i < length items" for items e i
  proof -
    have st: "settled E vault ws d e" and docID: "TrimSpace docID \<noteq> []"
      and sorted: "sorted_wrt (page_less c_ChunkIndex c_ID) items" and tok: "tokens_ok c_ChunkIndex c_ID Itoa Atoi items"
      using ok unfolding chunks_ok_def by blast+
    obtain n where n: "page_size PageSize = Inr n" using ok unfolding chunks_ok_def by blast
    obtain e1 where e1: "resolve_ws E vault e = (ws, e1)" "settled E vault ws d e1" "pdb (en_db e1) = d"
      by (rule settled_again [OF st])
    have "chunks_ok E vault docID PageSize ws d items e1"
      using ok e1(2) unfolding chunks_ok_def by blast
    moreover have "encodeChunkPageToken = (\<lambda>p. encode_token (Itoa p))"
      by (simp add: fun_eq_iff encodeChunkPageToken_def)
    then have "resume_point (decodeChunkPageToken (page_tok c_ChunkIndex c_ID encodeChunkPageToken items i))
        (page_tok c_ChunkIndex c_ID encodeChunkPageToken items i) = Inr (resume_at c_ChunkIndex c_ID items i)"
      using resume_point_tok [OF tok i] by (simp add: decodeChunkPageToken_def)
    moreover have "take_page c_ChunkIndex c_ID encodeChunkPageToken (nat n) (resume_at c_ChunkIndex c_ID items i) items =
        (take (nat n) (drop i items), if i + nat n < length items
          then encodeChunkPageToken (c_ChunkIndex (items ! (i + nat n - 1))) (c_ID (items ! (i + nat n - 1))) else [])"
      using page_size_Inr [OF n] by (intro take_page_from sorted i) simp
    moreover note page_size_Inr [OF n]
    moreover have "page_sort c_ChunkIndex c_ID (scan_kind (ge_P E) d PrefixChunk ws
         (\<lambda>k v cs. (case cd_unmarshal (ge_chunk E) v of
                       Some c \<Rightarrow> if c_DocumentID c = docID then cs @ [c] else cs | None \<Rightarrow> cs, True)) []) = items"
      using ok unfolding chunks_ok_def by blast
    ultimately show ?thesis
      using docID e1 by (intro exI [of _ e1]) (simp add: ListChunks_def n page_tok_def)
  qed
qed

text \<open>The pages of a document's chunks: all of them, in order, each once.\<close>

theorem bridge_Chunks_complete:
  assumes "pebble (ge_P E) view" and "reliable (ge_P E)" and "is_ws ws" and "settled E vault ws d e"
    and "VaultKindRange PrefixChunk ws = Inr (lower, upper)" and "long_keys PrefixChunk (view d)"
    and "own_ids PrefixChunk c_ID (cd_unmarshal (ge_chunk E)) ws (view d)" and "TrimSpace docID \<noteq> []"
    and "\<forall>c \<in> stored_in PrefixChunk (cd_unmarshal (ge_chunk E)) ws (view d). - (2 ^ 63) \<le> c_ChunkIndex c \<and> c_ChunkIndex c < 2 ^ 63"
  shows "\<exists>cs e'. bridge_Chunks E vault docID e = Some (Inr cs, e') \<and>
    set cs = {c \<in> stored_in PrefixChunk (cd_unmarshal (ge_chunk E)) ws (view d). c_DocumentID c = docID} \<and>
    sorted_wrt (page_less c_ChunkIndex c_ID) cs \<and> settled E vault ws d e'"
proof -
  obtain xs where xs:
    "\<And>Q. scan_kind (ge_P E) d PrefixChunk ws
        (\<lambda>k v acc. (case cd_unmarshal (ge_chunk E) v of Some x \<Rightarrow> if Q x then acc @ [x] else acc | None \<Rightarrow> acc, True)) [] = filter Q xs"
    "set xs = stored_in PrefixChunk (cd_unmarshal (ge_chunk E)) ws (view d)" "distinct (map c_ID xs)"
    by (rule scan_kind_items [OF assms(1-3,6,5,7)]) blast
  define items where "items = page_sort c_ChunkIndex c_ID (filter (\<lambda>c. c_DocumentID c = docID) xs)"
  have set: "set items = {x \<in> set xs. c_DocumentID x = docID}"
    unfolding items_def by (metis mset_page_sort mset_eq_setD set_filter)
  have sorted: "sorted_wrt (page_less c_ChunkIndex c_ID) items"
    unfolding items_def by (intro strict_page_sort distinct_map_filter xs(3))
  have "c_ID x \<noteq> []" if "x \<in> set xs" for x
    using that assms(7) unfolding xs(2) by (auto simp: own_ids_def stored_in_def)
  then have tok: "tokens_ok c_ChunkIndex c_ID Itoa Atoi items"
    using assms(9) set xs(2) Atoi_Itoa by (auto simp: tokens_ok_def)
  have "page_size 200 = Inr 200" by (simp add: page_size_def maxListPageSize_def)
  then have ok: "chunks_ok E vault docID 200 ws d items e"
    unfolding chunks_ok_def xs(1) using assms(4,8) sorted tok items_def by blast
  obtain e' where e': "chunks_ok E vault docID 200 ws d items e'"
      "collect_pages (ListChunks E vault docID 200) [] [] e = Some (Inr items, e')"
    using chunk_pages.collect_all [OF ok] by (elim exE conjE)
  then show ?thesis
    using set sorted xs(2) unfolding chunks_ok_def bridge_Chunks_def by auto
qed

end
