(* ===== verification/Get_Chunks.thy ===== *)
theory Get_Chunks
  imports Engine_Query
begin

text \<open>
  Point reads: \<open>internal/engine/get_chunk.go\<close>, \<open>get_document.go\<close>, \<open>get_chunk_context.go\<close> and
  \<open>batch_get_chunks.go\<close>. The parameter \<open>read_source\<close> is what \<open>json.Unmarshal\<close> leaves in a zero source
  record, also when it fails.
\<close>

section \<open>Operations\<close>

record source =
  so_ID :: string
  so_Path :: string
  so_Kind :: string
  so_AddedAt :: int
  so_UpdatedAt :: int

definition no_source :: source where
  "no_source = \<lparr>so_ID = [], so_Path = [], so_Kind = [], so_AddedAt = 0, so_UpdatedAt = 0\<rparr>"

record chunk_result =
  cr_Chunk :: chunk
  cr_Document :: document
  cr_Source :: source

record document_result =
  dr_Document :: document
  dr_Source :: source

record context_result =
  xr_Chunks :: "chunk list"
  xr_TargetIndex :: nat
  xr_Document :: document
  xr_Source :: source

record batch_item =
  bi_ChunkID :: string
  bi_Chunk :: chunk
  bi_Document :: document
  bi_Source :: source
  bi_Err :: string

text \<open>The optional read of the source record.\<close>

definition lookup_source ::
    "('db, 's) engine_env \<Rightarrow> (bytes \<Rightarrow> source) \<Rightarrow> 'db \<Rightarrow> ws \<Rightarrow> string \<Rightarrow> source" where
  "lookup_source E read_source d ws sourceID =
     (case DB_Get (ge_P E) d (SourceKey ws sourceID) of Inr (Some raw) \<Rightarrow> read_source raw | _ \<Rightarrow> no_source)"

text \<open>The parent document and its source; both zero for an orphan.\<close>

definition parent_of ::
    "('db, 's) engine_env \<Rightarrow> (bytes \<Rightarrow> source) \<Rightarrow> 'db \<Rightarrow> ws \<Rightarrow> string \<Rightarrow> document \<times> source" where
  "parent_of E read_source d ws docID =
     (case lookupDoc (ge_P E) (ge_doc E) d ws docID of
        Some x \<Rightarrow> (x, lookup_source E read_source d ws (d_SourceID x))
      | None \<Rightarrow> (blank_document, no_source))"

definition GetChunk ::
    "('db, 's) engine_env \<Rightarrow> (bytes \<Rightarrow> source) \<Rightarrow> string \<Rightarrow> string \<Rightarrow> ('db, 's) engine \<Rightarrow>
     chunk_result gres \<times> ('db, 's) engine" where
  "GetChunk E read_source vault chunkID e =
     (case resolve_ws E vault e of
        (ws, e') \<Rightarrow>
          (if TrimSpace chunkID = [] then Inl (ErrInvalid ''chunk_id is required'')
           else case lookupChunk (ge_P E) (ge_chunk E) (pdb (en_db e')) ws chunkID of
             None \<Rightarrow> Inl (ErrNotFound chunkID)
           | Some c \<Rightarrow>
               (case parent_of E read_source (pdb (en_db e')) ws (c_DocumentID c) of
                  (doc, src) \<Rightarrow> Inr \<lparr>cr_Chunk = c, cr_Document = doc, cr_Source = src\<rparr>), e'))"

definition GetDocument ::
    "('db, 's) engine_env \<Rightarrow> (bytes \<Rightarrow> source) \<Rightarrow> string \<Rightarrow> string \<Rightarrow> ('db, 's) engine \<Rightarrow>
     document_result gres \<times> ('db, 's) engine" where
  "GetDocument E read_source vault docID e =
     (case resolve_ws E vault e of
        (ws, e') \<Rightarrow>
          (if TrimSpace docID = [] then Inl (ErrInvalid ''document_id is required'')
           else case lookupDoc (ge_P E) (ge_doc E) (pdb (en_db e')) ws docID of
             None \<Rightarrow> Inl (ErrNotFound docID)
           | Some x \<Rightarrow>
               Inr \<lparr>dr_Document = x, dr_Source = lookup_source E read_source (pdb (en_db e')) ws (d_SourceID x)\<rparr>, e'))"

definition defaultChunkContextWindow :: int where "defaultChunkContextWindow = 2"
definition maxChunkContextWindow :: int where "maxChunkContextWindow = 10"

text \<open>The two walks over the links; the predecessors are put in front.\<close>

fun predecessors :: "(string \<Rightarrow> chunk option) \<Rightarrow> nat \<Rightarrow> chunk \<Rightarrow> chunk list \<Rightarrow> chunk list" where
  "predecessors look 0 cur acc = acc"
| "predecessors look (Suc n) cur acc =
     (if c_PreviousChunkID cur = [] then acc
      else case look (c_PreviousChunkID cur) of None \<Rightarrow> acc | Some p \<Rightarrow> predecessors look n p (p # acc))"

fun successors :: "(string \<Rightarrow> chunk option) \<Rightarrow> nat \<Rightarrow> chunk \<Rightarrow> chunk list \<Rightarrow> chunk list" where
  "successors look 0 cur acc = acc"
| "successors look (Suc n) cur acc =
     (if c_NextChunkID cur = [] then acc
      else case look (c_NextChunkID cur) of None \<Rightarrow> acc | Some nx \<Rightarrow> successors look n nx (acc @ [nx]))"

definition GetChunkContext ::
    "('db, 's) engine_env \<Rightarrow> (bytes \<Rightarrow> source) \<Rightarrow> string \<Rightarrow> string \<Rightarrow> int \<Rightarrow> ('db, 's) engine \<Rightarrow>
     context_result gres \<times> ('db, 's) engine" where
  "GetChunkContext E read_source vault chunkID window e =
     (case resolve_ws E vault e of
        (ws, e') \<Rightarrow>
          (if TrimSpace chunkID = [] then Inl (ErrInvalid ''chunk_id is required'')
           else if window < 0 \<or> maxChunkContextWindow < window then Inl (ErrInvalid ''window'')
           else
             let look = lookupChunk (ge_P E) (ge_chunk E) (pdb (en_db e')) ws in
             case look chunkID of
               None \<Rightarrow> Inl (ErrNotFound chunkID)
             | Some target \<Rightarrow>
                 (let before = predecessors look (nat window) target []; behind = successors look (nat window) target []
                  in case parent_of E read_source (pdb (en_db e')) ws (c_DocumentID target) of
                       (doc, src) \<Rightarrow>
                         Inr \<lparr>xr_Chunks = before @ [target] @ behind, xr_TargetIndex = length before,
                              xr_Document = doc, xr_Source = src\<rparr>), e'))"

definition maxBatchGetChunks :: nat where "maxBatchGetChunks = 100"

definition batch_get :: "('db, 's) engine_env \<Rightarrow> (bytes \<Rightarrow> source) \<Rightarrow> 'db \<Rightarrow> ws \<Rightarrow> string \<Rightarrow> batch_item" where
  "batch_get E read_source d ws i =
     (case lookupChunk (ge_P E) (ge_chunk E) d ws i of
        None \<Rightarrow> \<lparr>bi_ChunkID = i, bi_Chunk = blank_chunk, bi_Document = blank_document, bi_Source = no_source,
                 bi_Err = ''not found''\<rparr>
      | Some c \<Rightarrow>
          (case parent_of E read_source d ws (c_DocumentID c) of
             (doc, src) \<Rightarrow> \<lparr>bi_ChunkID = i, bi_Chunk = c, bi_Document = doc, bi_Source = src, bi_Err = []\<rparr>))"

definition BatchGetChunks ::
    "('db, 's) engine_env \<Rightarrow> (bytes \<Rightarrow> source) \<Rightarrow> string \<Rightarrow> string list \<Rightarrow> ('db, 's) engine \<Rightarrow>
     batch_item list gres \<times> ('db, 's) engine" where
  "BatchGetChunks E read_source vault chunkIDs e =
     (case resolve_ws E vault e of
        (ws, e') \<Rightarrow>
          (if chunkIDs = [] then Inl (ErrInvalid ''chunk_ids is required'')
           else if maxBatchGetChunks < length chunkIDs then Inl (ErrInvalid ''chunk_ids length exceeds max'')
           else if list_ex (\<lambda>i. TrimSpace i = []) chunkIDs then Inl (ErrInvalid ''chunk_ids contains an empty element'')
           else Inr (map (batch_get E read_source (pdb (en_db e')) ws) chunkIDs), e'))"

section \<open>The window around a chunk\<close>

lemma successors_linked:
  assumes "linked look cs" and "i < length cs"
  shows "successors look n (cs ! i) acc = acc @ take n (drop (Suc i) cs)"
  using assms(2)
proof (induction n arbitrary: i acc)
  case (Suc n)
  note i = linkedD [OF assms(1) Suc.prems]
  show ?case
  proof (cases "Suc i = length cs")
    case False
    then have "Suc i < length cs" using Suc.prems by simp
    then show ?thesis
      using linkedD(1,2) [OF assms(1), of "Suc i"] Suc.IH [of "Suc i"] False
      by (simp add: i Cons_nth_drop_Suc [symmetric])
  qed (simp add: i)
qed simp

lemma predecessors_linked:
  assumes "linked look cs" and "i < length cs"
  shows "predecessors look n (cs ! i) acc = drop (i - n) (take i cs) @ acc"
  using assms(2)
proof (induction n arbitrary: i acc)
  case (Suc n)
  note i = linkedD [OF assms(1) Suc.prems]
  show ?case
  proof (cases i)
    case 0
    then show ?thesis using i by simp
  next
    case (Suc j)
    then have j: "j < length cs" using Suc.prems by simp
    then show ?thesis
      using linkedD(1,2) [OF assms(1), of j] Suc.IH [of j "cs ! j # acc"] i Suc
      by (simp add: take_Suc_conv_app_nth)
  qed
qed simp

lemma slice_parts:
  "(before @ [x] @ behind) ! length before = x"
  "take (length before) (before @ [x] @ behind) @ drop (Suc (length before)) (before @ [x] @ behind) = before @ behind"
  by simp_all

text \<open>C36: both contexts of a chunk agree. When the chunks of a document are stored under their identifiers and
  linked in order, \<open>GetChunkContext\<close> returns the slice of the document of up to \<open>window\<close> chunks on either side of
  the target, which stands at the returned index; and the context that a query attaches to the same chunk is
  this slice without the target.\<close>

theorem chunk_context_agrees:
  assumes "resolve_ws E vault e = (ws, e')" and "linked (lookupChunk (ge_P E) (ge_chunk E) (pdb (en_db e')) ws) cs"
    and "i < length cs" and "TrimSpace (c_ID (cs ! i)) \<noteq> []" and "0 \<le> window" and "window \<le> 10"
  shows "\<exists>r. GetChunkContext E read_source vault (c_ID (cs ! i)) window e = (Inr r, e') \<and>
    xr_Chunks r = take (min i (nat window) + 1 + nat window) (drop (i - nat window) cs) \<and>
    xr_Chunks r ! xr_TargetIndex r = cs ! i \<and>
    map cx_ChunkID (expandContext E (pdb (en_db e')) ws (c_ID (cs ! i)) window) =
      map c_ID (take (xr_TargetIndex r) (xr_Chunks r) @ drop (Suc (xr_TargetIndex r)) (xr_Chunks r))"
proof -
  let ?n = "nat window" and ?d = "pdb (en_db e')"
  let ?before = "drop (i - ?n) (take i cs)" and ?behind = "take ?n (drop (Suc i) cs)"
  obtain doc src where parent: "parent_of E read_source ?d ws (c_DocumentID (cs ! i)) = (doc, src)"
    by (metis prod.exhaust)
  have look: "lookupChunk (ge_P E) (ge_chunk E) ?d ws (c_ID (cs ! i)) = Some (cs ! i)"
    using linkedD(1) [OF assms(2,3)] .
  let ?r = "\<lparr>xr_Chunks = ?before @ [cs ! i] @ ?behind, xr_TargetIndex = length ?before, xr_Document = doc, xr_Source = src\<rparr>"
  have "GetChunkContext E read_source vault (c_ID (cs ! i)) window e = (Inr ?r, e')"
    using assms(1,4-6) successors_linked [OF assms(2,3), of ?n "[]"] predecessors_linked [OF assms(2,3), of ?n "[]"]
    by (simp add: GetChunkContext_def look parent Let_def maxChunkContextWindow_def)
  moreover have "?before @ [cs ! i] @ ?behind = take (min i ?n + 1 + ?n) (drop (i - ?n) cs)"
  proof -
    have "drop (i - ?n) cs = ?before @ drop i cs"
      using assms(3) by (metis append_take_drop_id diff_le_self drop_append drop_take length_take less_imp_le min_absorb2 diff_diff_cancel drop0 diff_is_0_eq')
    moreover have "drop i cs = cs ! i # drop (Suc i) cs" using assms(3) by (simp add: Cons_nth_drop_Suc)
    moreover have "length ?before = min i ?n" using assms(3) by simp
    ultimately show ?thesis by simp
  qed
  moreover have "map cx_ChunkID (expandContext E ?d ws (c_ID (cs ! i)) window) = map c_ID (?before @ ?behind)"
    by (simp add: context_window_exact [OF assms(2,3)] comp_def context_entry_def del: drop_take take_drop)
  ultimately show ?thesis
    using slice_parts [of ?before "cs ! i" ?behind] by (intro exI [of _ ?r]) (simp only: context_result.simps simp_thms)
qed

theorem chunk_context_agrees_witness:
  "\<exists>r e'. GetChunkContext demo_engine_env (\<lambda>_. no_source) ''a'' ''b'' 1 demo_engine = (Inr r, e') \<and>
     map c_ID (xr_Chunks r) = [''a'', ''b'', ''c''] \<and> xr_Chunks r ! xr_TargetIndex r = demo_part ''b''"
proof -
  let ?cs = "[demo_part ''a'', demo_part ''b'', demo_part ''c'']"
  have ws: "VaultPrefix demo_sip ''a'' = demo_vault"
    by code_simp
  obtain e1 where e1: "resolve_ws demo_engine_env ''a'' demo_engine = (demo_vault, e1)" "pdb (en_db e1) = demo_data"
    by (simp add: resolve_ws_def ResolveVaultPrefix_def demo_engine_env_def demo_engine_def NewWithDB_def newQueryCaches_def
        vaultCache_Get_def newVaultCache_def NewLRU_def Default_def mem_pebble_def demo_data_def VaultNameIndexKey_def
        ChunkKey_def DocumentKey_def EmbeddingKey_def vaultScopedString_def vaultScoped_def ws Let_def)
  have look: "lookupChunk (ge_P demo_engine_env) (ge_chunk demo_engine_env) demo_data demo_vault x = Some (demo_part x)"
    if "x \<in> {''a'', ''b'', ''c''}" for x
    using that by (auto simp: lookupChunk_def DB_Get_def demo_engine_env_def mem_pebble_def demo_data_def
        ChunkKey_def vaultScopedString_def vaultScoped_def)
  have linked: "linked (lookupChunk (ge_P demo_engine_env) (ge_chunk demo_engine_env) (pdb (en_db e1)) demo_vault) ?cs"
    using look [of "''a''"] look [of "''b''"] look [of "''c''"]
    by (simp add: linked_def All_less_Suc numeral_3_eq_3 demo_part_def blank_chunk_def e1(2))
  have trim: "TrimSpace ''b'' \<noteq> []" by code_simp
  have ids: "c_ID (demo_part x) = x" for x by (simp add: demo_part_def)
  show ?thesis
    using chunk_context_agrees [OF e1(1) linked, of 1 1 "\<lambda>_. no_source"] trim by (auto simp: ids)
qed

text \<open>A batch is its single reads, in the order of the request, repetitions included.\<close>

lemma batch_is_gets:
  assumes "resolve_ws E vault e = (ws, e')" and "chunkIDs \<noteq> []" and "length chunkIDs \<le> 100"
    and "\<forall>i \<in> set chunkIDs. TrimSpace i \<noteq> []"
  shows "\<exists>items. BatchGetChunks E read_source vault chunkIDs e = (Inr items, e') \<and>
    list_all2 (\<lambda>i it. bi_ChunkID it = i \<and>
      (case fst (GetChunk E read_source vault i e) of
         Inr r \<Rightarrow> bi_Err it = [] \<and> bi_Chunk it = cr_Chunk r \<and> bi_Document it = cr_Document r \<and> bi_Source it = cr_Source r
       | Inl err \<Rightarrow> err = ErrNotFound i \<and> bi_Err it = ''not found'')) chunkIDs items"
  using assms
  by (auto simp: BatchGetChunks_def list_ex_iff maxBatchGetChunks_def list_all2_map2 GetChunk_def batch_get_def
      intro!: list.rel_refl_strong split: option.split prod.split)

end
