(* ===== verification/Poison_Facts.thy ===== *)
theory Poison_Facts
  imports Poison Listing_Facts
begin

text \<open>
  What the scorer measures, and the quarantine: its index covers the flagged chunks, a release is permanent, and
  a rescan looks at scores only.
\<close>

section \<open>The signals\<close>

lemma clamp01_bounds: "0 \<le> clamp01 v" "clamp01 v \<le> 1" "0 \<le> v \<Longrightarrow> clamp01 v = min 1 v"
  by (simp_all add: clamp01_def)

lemma token_counts_bump: "token_counts Q ts = bump_all (map (\<lambda>t. (t, 1)) (filter Q ts)) []"
proof -
  have "fold (\<lambda>t m. if Q t then bump t 1 m else m) ts m = bump_all (map (\<lambda>t. (t, 1)) (filter Q ts)) m" for m :: "(string \<times> int) list"
    by (induction ts arbitrary: m) auto
  then show ?thesis by (simp add: token_counts_def)
qed

lemma bump_one_sum: "sum_list (map snd (bump k (1 :: int) m)) = sum_list (map snd m) + 1"
  by (induction m) auto

lemma bump_one_pos: "\<forall>kv \<in> set m. 1 \<le> snd kv \<Longrightarrow> \<forall>kv \<in> set (bump k (1 :: int) m). 1 \<le> snd kv"
proof (induction m)
  case (Cons kv m)
  obtain j c where kv: "kv = (j, c)" by (cases kv)
  have "1 \<le> c" "\<forall>kv \<in> set m. 1 \<le> snd kv" using Cons.prems kv by auto
  then show ?case using Cons.IH kv by (simp del: split_paired_All)
qed simp

lemma token_counts_facts:
  fixes ts :: "string list"
  shows "sum_list (map snd (token_counts Q ts)) = int (length (filter Q ts))"
    "\<forall>kv \<in> set (token_counts Q ts). 1 \<le> snd kv"
    "length (token_counts Q ts) = card (set (filter Q ts))"
    "snd ` set (token_counts Q ts) = (\<lambda>t. int (count_list ts t)) ` set (filter Q ts)"
proof -
  let ?us = "map (\<lambda>t. (t, 1 :: int)) (filter Q ts)"
  have loop1: "sum_list (map snd (bump_all (map (\<lambda>t. (t, 1 :: int)) xs) m)) = sum_list (map snd m) + int (length xs)"
    for xs :: "string list" and m
    by (induction xs arbitrary: m) (simp_all add: bump_one_sum)
  have loop2: "\<forall>kv \<in> set m. 1 \<le> snd kv \<Longrightarrow> \<forall>kv \<in> set (bump_all (map (\<lambda>t. (t, 1 :: int)) xs) m). 1 \<le> snd kv"
    for xs :: "string list" and m
  proof (induction xs arbitrary: m)
    case (Cons x xs)
    show ?case using Cons.IH [OF bump_one_pos [OF Cons.prems]] by simp
  qed simp
  show "sum_list (map snd (token_counts Q ts)) = int (length (filter Q ts))"
    "\<forall>kv \<in> set (token_counts Q ts). 1 \<le> snd kv"
    using loop1 [of "filter Q ts" "[]"] loop2 [of "[]" "filter Q ts"] by (simp_all add: token_counts_bump)
  have d: "distinct (map fst (bump_all ?us []))" by (simp add: distinct_bump_all)
  have k: "fst ` set (bump_all ?us []) = set (filter Q ts)"
    by (auto simp: keys_bump_all image_iff)
  show "length (token_counts Q ts) = card (set (filter Q ts))"
    using distinct_card [OF d] k by (simp add: token_counts_bump)
  have tally: "tally t (map (\<lambda>t. (t, 1 :: int)) xs) = int (count_list xs t)" for t and xs :: "string list"
    by (induction xs) auto
  have count: "Q t \<Longrightarrow> count_list (filter Q ts) t = count_list ts t" for t
    by (induction ts) auto
  have "(t, c) \<in> set (bump_all ?us []) \<longleftrightarrow> t \<in> set (filter Q ts) \<and> c = int (count_list ts t)" for t c
    using map_of_eq_Some_iff [OF d, of t c] map_of_bump_all [of ?us "[]" t] count [of t] by (auto simp: tally image_iff split: if_splits)
  then show "snd ` set (token_counts Q ts) = (\<lambda>t. int (count_list ts t)) ` set (filter Q ts)"
    unfolding token_counts_bump by force
qed

lemma dup_loop:
  "\<forall>kv \<in> set m. 1 \<le> snd kv \<Longrightarrow>
   fold (\<lambda>(t, c) n. if 1 < c then n + (c - 1) else n) m n = n + sum_list (map snd m) - int (length m)"
  by (induction m arbitrary: n) auto

lemma max_loop:
  fixes m :: "(string \<times> int) list"
  shows "fold (\<lambda>(t, c) b. if b < c then c else b) m b = Max (insert b (snd ` set m))"
proof (induction m arbitrary: b)
  case (Cons kv m)
  obtain t c where "kv = (t, c)" by (cases kv)
  then have "fold (\<lambda>(t, c) b. if b < c then c else b) (kv # m) b = Max (insert (max b c) (snd ` set m))"
    using Cons by (simp add: max_def)
  also have "\<dots> = Max (insert b (snd ` set (kv # m)))"
  proof (cases "m = []")
    case False
    then have "Max (insert x (snd ` set m)) = max x (Max (snd ` set m))" for x by (simp add: Max_insert)
    moreover have "Max (insert b (insert c (snd ` set m))) = max b (max c (Max (snd ` set m)))"
      using False by (simp add: Max_insert)
    ultimately show ?thesis using \<open>kv = (t, c)\<close> by (simp add: max.assoc)
  qed (simp add: \<open>kv = (t, c)\<close>)
  finally show ?case .
qed simp

text \<open>Neither signal depends on the order of the tokens.\<close>

lemma repetition_eq:
  "repetition nt =
     (let ts = Fields nt in
      if length ts < 6 then 0 else min 1 (2 * real (length ts - card (set ts)) / real (length ts)))"
proof -
  let ?ts = "Fields nt"
  have "card (set ?ts) \<le> length ?ts" by (rule card_length)
  then have "int (length ?ts) - int (card (set ?ts)) = int (length ?ts - card (set ?ts))" by simp
  moreover have "filter (\<lambda>_. True) ?ts = ?ts" by simp
  ultimately have "fold (\<lambda>(t, c) n. if 1 < c then n + (c - 1) else n) (token_counts (\<lambda>_. True) ?ts) 0 = int (length ?ts - card (set ?ts))"
    by (simp only: dup_loop [OF token_counts_facts(2)] token_counts_facts(1,3) add_0)
  then have "repetition nt = (if length ?ts < 6 then 0 else clamp01 (real (length ?ts - card (set ?ts)) / real (length ?ts) * 2))"
    unfolding repetition_def Let_def by (simp only: of_int_of_nat_eq)
  also have "clamp01 (real (length ?ts - card (set ?ts)) / real (length ?ts) * 2) =
      min 1 (2 * real (length ?ts - card (set ?ts)) / real (length ?ts))"
  proof -
    have "0 \<le> real (length ?ts - card (set ?ts)) / real (length ?ts) * 2"
      by (intro mult_nonneg_nonneg divide_nonneg_nonneg of_nat_0_le_iff) simp
    then show ?thesis
      by (simp only: clamp01_bounds(3)) (simp only: mult.commute [of _ 2] times_divide_eq_right)
  qed
  finally show ?thesis by (simp only: Let_def)
qed

definition top_count :: "string list \<Rightarrow> int" where
  "top_count ts = Max (insert 0 ((\<lambda>t. int (count_list ts t)) ` {t \<in> set ts. 3 < length t}))"

lemma stuffing_eq:
  "stuffing nt =
     (let ts = Fields nt in
      if length ts < 6 \<or> top_count ts < 2 then 0 else min 1 (real_of_int (top_count ts - 1) / 5))"
proof -
  have "fold (\<lambda>(t, c) m. if m < c then c else m) (token_counts (\<lambda>t. \<not> length t \<le> 3) ts) 0 = top_count ts" for ts
    unfolding max_loop token_counts_facts(4) top_count_def by (simp add: not_le)
  then show ?thesis
    by (simp add: stuffing_def Let_def clamp01_bounds(3))
qed

lemma repetition_bounds: "0 \<le> repetition nt" "repetition nt \<le> 1"
  by (simp_all add: repetition_def Let_def clamp01_bounds)

lemma stuffing_bounds: "0 \<le> stuffing nt" "stuffing nt \<le> 1"
  by (simp_all add: stuffing_def Let_def clamp01_bounds)

text \<open>C37: the score is a bounded weighted sum, and what the thresholds make of it. Whatever the
  thresholds, the signals and the score lie in the unit interval, the score is half the instruction
  signal and a quarter of the two others each, and the instruction signal is 1 exactly if a phrase
  occurs in the normalised text. Only with a suspicious threshold of at most a half (as by default)
  is every text with a phrase flagged, and only with a quarantine threshold above a half (as by
  default) is no text quarantined without one; \<open>Set\<close> accepts others.\<close>

theorem poison_score_bounds:
  shows "let v = Score u h text; sg = pv_Signals v; phrase = (\<exists>p \<in> set (hs_phrases h). contains (normalize_text u text) p) in
    0 \<le> Repetition sg \<and> Repetition sg \<le> 1 \<and> 0 \<le> Stuffing sg \<and> Stuffing sg \<le> 1 \<and> 0 \<le> pv_Score v \<and> pv_Score v \<le> 1 \<and>
    pv_Score v = Instruction sg / 2 + Repetition sg / 4 + Stuffing sg / 4 \<and>
    Instruction sg = (if normalize_text u text \<noteq> [] \<and> phrase then 1 else 0) \<and>
    (hs_suspicious h \<le> 1 / 2 \<and> Instruction sg = 1 \<longrightarrow> Quarantined (pv_Level v)) \<and>
    (1 / 2 < hs_quarantine h \<and> pv_Level v = PoisonQuarantine \<longrightarrow> Instruction sg = 1)"
proof -
  let ?nt = "normalize_text u text"
  obtain i matched where instr: "instruction ?nt (hs_phrases h) = (i, matched)" by fastforce
  then have i: "i = (if ?nt \<noteq> [] \<and> (\<exists>p \<in> set (hs_phrases h). contains ?nt p) then 1 else 0)"
    by (auto simp: instruction_def Let_def filter_empty_conv split: if_splits)
  define s where "s = 0.5 * i + 0.25 * repetition ?nt + 0.25 * stuffing ?nt"
  note b = repetition_bounds [of ?nt] stuffing_bounds [of ?nt]
  have s: "0 \<le> s" "s \<le> 1" "i = 1 \<Longrightarrow> 1 / 2 \<le> s" "i = 0 \<Longrightarrow> s \<le> 1 / 2"
    using b i by (simp_all add: s_def split: if_splits)
  then have c: "clamp01 s = s" by (simp add: clamp01_def)
  have sc: "Score u h text =
      \<lparr>pv_Level = LevelFor s (hs_suspicious h) (hs_quarantine h), pv_Score = s,
       pv_Signals = \<lparr>Repetition = repetition ?nt, Stuffing = stuffing ?nt, Instruction = i\<rparr>, pv_MatchedPhrases = matched\<rparr>"
    using c unfolding Score_def Let_def instr s_def by simp
  have seq: "s = i / 2 + repetition ?nt / 4 + stuffing ?nt / 4" by (simp add: s_def)
  have "hs_suspicious h \<le> 1 / 2 \<Longrightarrow> i = 1 \<Longrightarrow> Quarantined (LevelFor s (hs_suspicious h) (hs_quarantine h))"
    using s(3) by (auto simp: LevelFor_def Quarantined_def)
  moreover have "1 / 2 < hs_quarantine h \<Longrightarrow> LevelFor s (hs_suspicious h) (hs_quarantine h) = PoisonQuarantine \<Longrightarrow> i = 1"
    using s(4) i by (auto simp: LevelFor_def split: if_splits)
  ultimately show ?thesis
    using b s(1,2) by (simp add: Let_def sc flip: i seq)
qed

theorem poison_score_bounds_witness:
  "let v = Score ascii_tables (NewHeuristic [''x''] (4 / 10) (7 / 10)) ''X'' in
   Instruction (pv_Signals v) = 1 \<and> pv_Score v \<le> 1 \<and> Quarantined (pv_Level v)"
proof -
  have "normalize_text ascii_tables ''X'' = ''x''" "contains ''x'' ''x''" by code_simp+
  then show ?thesis
    using poison_score_bounds [of ascii_tables "NewHeuristic [''x''] (4 / 10) (7 / 10)" "''X''"]
    by (simp add: NewHeuristic_def Let_def)
qed

section \<open>The quarantine index\<close>

definition stored_chunk :: "('db, 's) engine_env \<Rightarrow> ws \<Rightarrow> contents \<Rightarrow> string \<Rightarrow> chunk option" where
  "stored_chunk E ws m i = Option.bind (m (ChunkKey ws i)) (cd_unmarshal (ge_chunk E))"

definition flagged_chunk :: "chunk \<Rightarrow> bool" where
  "flagged_chunk c \<longleftrightarrow> (case c_Poisoning c of None \<Rightarrow> False | Some v \<Rightarrow> Quarantined (pv_Level v))"

text \<open>JSON carries the chunks of \<open>K\<close> with the verdicts of \<open>V\<close>, among them every verdict that the scorer gives
  with the configured thresholds.\<close>

definition scored_in :: "('db, 's) poison_env \<Rightarrow> chunk set \<Rightarrow> poison_verdict set \<Rightarrow> heuristic \<Rightarrow> bool" where
  "scored_in Z K V det \<longleftrightarrow> (\<forall>c \<in> K. Score (ge_u (pz_E Z)) det (c_Content c) \<in> V)"

definition poison_codec :: "('db, 's) poison_env \<Rightarrow> chunk set \<Rightarrow> poison_verdict set \<Rightarrow> bool" where
  "poison_codec Z K V \<longleftrightarrow> codec_on K (ge_chunk (pz_E Z)) \<and>
     (\<forall>c \<in> K. cd_marshal (ge_chunk (pz_E Z)) c \<noteq> None \<and> (\<forall>v. c_Poisoning c = Some v \<longrightarrow> v \<in> V) \<and>
        (\<forall>v \<in> V. c\<lparr>c_Poisoning := Some v\<rparr> \<in> K)) \<and>
     (\<forall>v \<in> V. cd_marshal (pz_verdict Z) v \<noteq> None \<and> (\<forall>l. v\<lparr>pv_Level := l\<rparr> \<in> V)) \<and>
     (\<forall>ps. distinct ps \<and> [] \<notin> set ps \<longrightarrow>
        scored_in Z K V (NewHeuristic ps (EffectivePoisonThresholdSuspicious (ge_cfg (pz_E Z)))
          (EffectivePoisonThresholdQuarantine (ge_cfg (pz_E Z)))))"

text \<open>Chunks are stored under their identifiers, and every flagged one has an entry in the index.\<close>

definition index_covers :: "('db, 's) engine_env \<Rightarrow> chunk set \<Rightarrow> ws \<Rightarrow> contents \<Rightarrow> bool" where
  "index_covers E K ws m \<longleftrightarrow>
     (\<forall>i c. stored_chunk E ws m i = Some c \<longrightarrow>
        c_ID c = i \<and> c \<in> K \<and> (flagged_chunk c \<longrightarrow> m (QuarantineKey ws i) \<noteq> None))"

text \<open>What writing the verdict of chunk \<open>i\<close> does to the store.\<close>

definition marks :: "('db, 's) engine_env \<Rightarrow> chunk set \<Rightarrow> ws \<Rightarrow> chunk \<Rightarrow> contents \<Rightarrow> contents \<Rightarrow> bool" where
  "marks E K ws c m m' \<longleftrightarrow>
     (\<exists>b q. m' = m(ChunkKey ws (c_ID c) \<mapsto> b, QuarantineKey ws (c_ID c) := q) \<and>
        cd_unmarshal (ge_chunk E) b = Some c \<and> c \<in> K \<and> (flagged_chunk c \<longrightarrow> q \<noteq> None))"

lemma poison_keys [simp]:
  "ChunkKey ws i \<noteq> QuarantineKey ws j" "QuarantineKey ws j \<noteq> ChunkKey ws i"
  "ChunkKey ws i = ChunkKey ws j \<longleftrightarrow> i = j" "QuarantineKey ws i = QuarantineKey ws j \<longleftrightarrow> i = j"
  by (simp_all add: ChunkKey_def QuarantineKey_def vaultScopedString_def vaultScoped_def)

lemma marks_covers:
  assumes "index_covers E K ws m" and "marks E K ws c m m'"
  shows "index_covers E K ws m'"
  using assms unfolding index_covers_def marks_def
  by (auto simp: stored_chunk_def split: if_splits)

lemma marks_stored:
  "marks E K ws c m m' \<Longrightarrow> stored_chunk E ws m' i = (if i = c_ID c then Some c else stored_chunk E ws m i)"
  by (auto simp: marks_def stored_chunk_def)

lemma poison_codecE:
  assumes "poison_codec Z K V" and "c \<in> K" and "v \<in> V"
  obtains b where "cd_marshal (ge_chunk (pz_E Z)) (c\<lparr>c_Poisoning := Some v\<rparr>) = Some b"
    and "cd_unmarshal (ge_chunk (pz_E Z)) b = Some (c\<lparr>c_Poisoning := Some v\<rparr>)" and "c\<lparr>c_Poisoning := Some v\<rparr> \<in> K"
proof -
  have K: "c\<lparr>c_Poisoning := Some v\<rparr> \<in> K" and codec: "codec_on K (ge_chunk (pz_E Z))"
    using assms unfolding poison_codec_def by blast+
  then obtain b where b: "cd_marshal (ge_chunk (pz_E Z)) (c\<lparr>c_Poisoning := Some v\<rparr>) = Some b"
    using assms(1) unfolding poison_codec_def by blast
  show thesis
    by (rule that [OF b codec_onD [OF codec K b] K])
qed

lemma poison_codecD:
  assumes "poison_codec Z K V"
  shows "c \<in> K \<Longrightarrow> c_Poisoning c = Some v \<Longrightarrow> v \<in> V" "v \<in> V \<Longrightarrow> v\<lparr>pv_Level := l\<rparr> \<in> V"
  using assms unfolding poison_codec_def by simp_all

lemma dedupe_loop_clean:
  "distinct out \<Longrightarrow> [] \<notin> set out \<Longrightarrow> distinct (dedupe_loop out ps) \<and> [] \<notin> set (dedupe_loop out ps)"
  by (induction out ps rule: dedupe_loop.induct) auto

lemma poisonDetector_scored:
  assumes "poison_codec Z K V"
  shows "scored_in Z K V (fst (poisonDetector Z e))"
proof -
  define ps where "ps = fst (mergedPhrases Z e)"
  obtain srcs err e' where l: "ListThreatSources Z ''default'' e = ((srcs, err), e')" by (metis prod.exhaust)
  have "distinct (dedupePhrases xs) \<and> [] \<notin> set (dedupePhrases xs)" for xs
    using dedupe_loop_clean [of "[]" xs] by (simp add: dedupePhrases_def)
  then have "distinct ps \<and> [] \<notin> set ps"
    by (simp add: ps_def mergedPhrases_def l)
  then show ?thesis
    using assms by (simp add: poison_codec_def poisonDetector_def ps_def case_prod_unfold)
qed

context pebble
begin

lemma drop_quarantine_view:
  assumes "reliable P"
  shows "view (drop_quarantine P ws i d) = (view d)(QuarantineKey ws i := None)"
proof -
  obtain d' where "pb_commit P d [KDelete (QuarantineKey ws i)] = Inr d'"
      "view d' = apply_batch [KDelete (QuarantineKey ws i)] (view d)"
    by (rule reliable_commitE [OF assms])
  then show ?thesis by (simp add: drop_quarantine_def DeleteQuarantine_def DB_Delete_def)
qed

end

lemma put_quarantine_view:
  assumes "pebble (ge_P (pz_E Z)) view" and "reliable (ge_P (pz_E Z))" and "poison_codec Z K V" and "v \<in> V"
  obtains b where "view (put_quarantine Z ws i v d) = (view d)(QuarantineKey ws i \<mapsto> b)"
proof -
  have "\<forall>v \<in> V. cd_marshal (pz_verdict Z) v \<noteq> None \<and> (\<forall>l. v\<lparr>pv_Level := l\<rparr> \<in> V)"
    using assms(3) unfolding poison_codec_def by (elim conjE)
  then obtain b where b: "cd_marshal (pz_verdict Z) v = Some b"
    using assms(4) by auto
  have "put_quarantine Z ws i v d = set_or (ge_P (pz_E Z)) d (QuarantineKey ws i) b"
    by (simp add: put_quarantine_def b PutQuarantine_def set_or_def split: sum.split)
  then show thesis
    using that set_or_view [OF assms(1,2)] by metis
qed

lemma rescan_chunk_marks:
  assumes "pebble (ge_P (pz_E Z)) view" and "reliable (ge_P (pz_E Z))" and "poison_codec Z K V" and "c \<in> K" and "scored_in Z K V det"
    and "rescan_chunk Z det ws c (d, r, f) = (d', r', f')"
  shows "d' = d \<or> (\<exists>c'. marks (pz_E Z) K ws c' (view d) (view d') \<and> c_ID c' = c_ID c \<and>
    c_Poisoning c' \<noteq> None \<and> c_Content c' = c_Content c \<and>
    (\<forall>v. c_Poisoning c = Some v \<and> pv_Level v = PoisonReleased \<longrightarrow> pv_Level (the (c_Poisoning c')) = PoisonReleased))"
proof -
  let ?E = "pz_E Z" and ?fresh = "Score (ge_u (pz_E Z)) det (c_Content c)"
  define save where "save = (\<lambda>c' d'. case cd_marshal (ge_chunk ?E) c' of
      Some bj \<Rightarrow> set_or (ge_P ?E) d' (ChunkKey ws (c_ID c)) bj | None \<Rightarrow> d')"
  have save: "marks ?E K ws (c\<lparr>c_Poisoning := Some v\<rparr>) (view d) (view (save (c\<lparr>c_Poisoning := Some v\<rparr>) d1))"
    if "view d1 = (view d)(QuarantineKey ws (c_ID c) := q)" "Quarantined (pv_Level v) \<Longrightarrow> q \<noteq> None" "v \<in> V" for v d1 q
  proof -
    have vV: "v \<in> V" by (rule that(3))
    obtain b where b: "cd_marshal (ge_chunk ?E) (c\<lparr>c_Poisoning := Some v\<rparr>) = Some b"
        "cd_unmarshal (ge_chunk ?E) b = Some (c\<lparr>c_Poisoning := Some v\<rparr>)" "c\<lparr>c_Poisoning := Some v\<rparr> \<in> K"
      by (rule poison_codecE [OF assms(3,4) vV])
    have "view (set_or (ge_P ?E) d1 (ChunkKey ws (c_ID c)) b) = (view d1)(ChunkKey ws (c_ID c) \<mapsto> b)"
      by (rule set_or_view [OF assms(1,2)])
    then show ?thesis
      using b that unfolding marks_def
      by (intro exI [of _ b] exI [of _ q]) (auto simp: save_def flagged_chunk_def fun_upd_twist)
  qed
  have fresh: "?fresh \<in> V" "?fresh\<lparr>pv_Level := PoisonReleased\<rparr> \<in> V"
    using assms(4,5) poison_codecD(2) [OF assms(3)] unfolding scored_in_def by blast+
  obtain b where put: "view (put_quarantine Z ws (c_ID c) ?fresh d) = (view d)(QuarantineKey ws (c_ID c) \<mapsto> b)"
    by (rule put_quarantine_view [OF assms(1-3) fresh(1)])
  note drop = pebble.drop_quarantine_view [OF assms(1,2), of ws "c_ID c" d]
  consider (same) "d' = d"
    | (released) v where "c_Poisoning c = Some v" "pv_Level v = PoisonReleased"
        "d' = save (c\<lparr>c_Poisoning := Some (?fresh\<lparr>pv_Level := PoisonReleased\<rparr>)\<rparr>) d"
    | (flagged) "\<forall>v. c_Poisoning c = Some v \<longrightarrow> pv_Level v \<noteq> PoisonReleased" "Quarantined (pv_Level ?fresh)"
        "d' = save (c\<lparr>c_Poisoning := Some ?fresh\<rparr>) (put_quarantine Z ws (c_ID c) ?fresh d)"
    | (clean) "\<forall>v. c_Poisoning c = Some v \<longrightarrow> pv_Level v \<noteq> PoisonReleased" "\<not> Quarantined (pv_Level ?fresh)"
        "d' = save (c\<lparr>c_Poisoning := Some ?fresh\<rparr>) (drop_quarantine (ge_P ?E) ws (c_ID c) d)"
    using assms(6) unfolding rescan_chunk_def save_def Let_def by (auto split: option.splits if_splits)
  then show ?thesis
  proof cases
    case released
    have "view d = (view d)(QuarantineKey ws (c_ID c) := view d (QuarantineKey ws (c_ID c)))" by simp
    then show ?thesis
      using save [of d "view d (QuarantineKey ws (c_ID c))" "?fresh\<lparr>pv_Level := PoisonReleased\<rparr>"] released fresh(2)
      by (intro disjI2 exI [of _ "c\<lparr>c_Poisoning := Some (?fresh\<lparr>pv_Level := PoisonReleased\<rparr>)\<rparr>"]) (auto simp: Quarantined_def)
  next
    case flagged
    then show ?thesis
      using save [OF put _ fresh(1)] by (intro disjI2 exI [of _ "c\<lparr>c_Poisoning := Some ?fresh\<rparr>"]) auto
  next
    case clean
    then show ?thesis
      using save [OF drop _ fresh(1)] by (intro disjI2 exI [of _ "c\<lparr>c_Poisoning := Some ?fresh\<rparr>"]) auto
  qed simp
qed

section \<open>States of the engine\<close>

definition registry_frame :: "contents \<Rightarrow> contents \<Rightarrow> bool" where
  "registry_frame m m' \<longleftrightarrow> (\<forall>p k. p \<in> {PrefixVaultMeta, PrefixVaultNameIndex} \<longrightarrow> m' (p # k) = m (p # k))"

lemma registry_frame_refl: "registry_frame m m"
  by (simp add: registry_frame_def)

lemma registry_frame_trans: "registry_frame m m' \<Longrightarrow> registry_frame m' m'' \<Longrightarrow> registry_frame m m''"
  by (simp add: registry_frame_def)

lemma registry_frameD:
  assumes "registry_frame m m'"
  shows "m' (VaultMetaKey ws) = m (VaultMetaKey ws)" "m' (0x1B # h) = m (0x1B # h)"
    "m' (VaultNameIndexKey sip name) = m (VaultNameIndexKey sip name)"
  using assms by (simp_all add: registry_frame_def VaultMetaKey_def VaultNameIndexKey_def PrefixVaultMeta_def PrefixVaultNameIndex_def)

lemma session_inv_frame:
  assumes "session_inv view sip N D" and "registry_frame (view (pdb D)) (view d)"
  shows "session_inv view sip N (D\<lparr>pdb := d\<rparr>)" "resolve_spec sip (view d) name = resolve_spec sip (view (pdb D)) name"
proof -
  note f = registry_frameD [OF assms(2)]
  show "resolve_spec sip (view d) name = resolve_spec sip (view (pdb D)) name" for name
    by (simp add: resolve_spec_def f)
  then show "session_inv view sip N (D\<lparr>pdb := d\<rparr>)"
    using assms(1) by (simp add: session_inv_def registry_ok_def cache_coherent_def f)
qed

lemma resolve_at:
  assumes "pebble (ge_P E) view" and "reliable (ge_P E)" and "session_inv view (ge_sip E) UNIV (en_db e)"
  obtains e1 where "resolve_ws E v e = (resolve_spec (ge_sip E) (view (pdb (en_db e))) v, e1)"
    and "session_inv view (ge_sip E) UNIV (en_db e1)" and "pdb (en_db e1) = pdb (en_db e)"
proof -
  have get: "pb_get (ge_P E) (pdb (en_db e)) (VaultNameIndexKey (ge_sip E) v) = Inr (view (pdb (en_db e)) (VaultNameIndexKey (ge_sip E) v))"
    by (rule pebble.reliable_get [OF assms(1,2)])
  note r = pebble.Resolve_correct [OF assms(1,3) UNIV_I get]
  show thesis
    by (rule that [of "snd (resolve_ws E v e)"]) (simp_all add: resolve_ws_def r case_prod_unfold)
qed

definition released_chunk :: "chunk \<Rightarrow> bool" where
  "released_chunk c \<longleftrightarrow> (\<exists>v. c_Poisoning c = Some v \<and> pv_Level v = PoisonReleased)"

text \<open>The engine serves the vault \<open>ws\<close>, whose quarantine index covers its flagged chunks.\<close>

definition quarantine_ok ::
    "('db \<Rightarrow> contents) \<Rightarrow> ('db, 's) engine_env \<Rightarrow> chunk set \<Rightarrow> string \<Rightarrow> ws \<Rightarrow> ('db, 's) engine \<Rightarrow> bool" where
  "quarantine_ok view E K vault ws e \<longleftrightarrow>
     session_inv view (ge_sip E) UNIV (en_db e) \<and> resolve_spec (ge_sip E) (view (pdb (en_db e))) vault = ws \<and>
     index_covers E K ws (view (pdb (en_db e))) \<and>
     long_keys PrefixChunk (view (pdb (en_db e))) \<and> long_keys PrefixPoisonQuar (view (pdb (en_db e)))"

text \<open>A change of verdicts: any number of chunks are marked, and \<open>free\<close> says which may lose a release.\<close>

definition evolves ::
    "('db, 's) engine_env \<Rightarrow> chunk set \<Rightarrow> ws \<Rightarrow> string set \<Rightarrow> contents \<Rightarrow> contents \<Rightarrow> bool" where
  "evolves E K ws free m m' \<longleftrightarrow>
     index_covers E K ws m' \<and> registry_frame m m' \<and> long_keys PrefixChunk m' \<and> long_keys PrefixPoisonQuar m' \<and>
     (\<forall>i c. i \<notin> free \<and> stored_chunk E ws m i = Some c \<and> released_chunk c \<longrightarrow>
        (\<exists>c'. stored_chunk E ws m' i = Some c' \<and> released_chunk c'))"

lemma evolves_refl:
  "index_covers E K ws m \<Longrightarrow> long_keys PrefixChunk m \<Longrightarrow> long_keys PrefixPoisonQuar m \<Longrightarrow> evolves E K ws free m m"
  by (simp add: evolves_def registry_frame_refl)

lemma evolves_trans: "evolves E K ws free m m' \<Longrightarrow> evolves E K ws free m' m'' \<Longrightarrow> evolves E K ws free m m''"
  unfolding evolves_def by (meson registry_frame_trans)

lemma marks_evolves:
  assumes "is_ws ws" and "index_covers E K ws m" and "long_keys PrefixChunk m" and "long_keys PrefixPoisonQuar m"
    and "marks E K ws c m m'" and "c_ID c \<in> free \<or> released_chunk c \<or> (\<forall>d. stored_chunk E ws m (c_ID c) = Some d \<longrightarrow> \<not> released_chunk d)"
  shows "evolves E K ws free m m'"
proof -
  obtain b q where m': "m' = m(ChunkKey ws (c_ID c) \<mapsto> b, QuarantineKey ws (c_ID c) := q)"
    using assms(5) by (auto simp: marks_def)
  have "registry_frame m m'"
    by (auto simp: registry_frame_def m' ChunkKey_def QuarantineKey_def vaultScopedString_def vaultScoped_def PrefixVaultMeta_def
        PrefixVaultNameIndex_def PrefixChunk_def PrefixPoisonQuar_def)
  moreover have "long_keys PrefixChunk m'" "long_keys PrefixPoisonQuar m'"
    using assms(1,3,4) by (auto simp: long_keys_def m' ChunkKey_def QuarantineKey_def vaultScopedString_def vaultScoped_def is_ws_def
        split: if_splits)
  ultimately show ?thesis
    using marks_covers [OF assms(2,5)] assms(6) marks_stored [OF assms(5)] unfolding evolves_def by auto
qed

section \<open>The operations\<close>

lemma rescan_chunks_evolve:
  assumes "pebble (ge_P (pz_E Z)) view" and "reliable (ge_P (pz_E Z))" and "poison_codec Z K V" and "is_ws ws" and "scored_in Z K V det"
    and "set cs \<subseteq> K" and "fold (rescan_chunk Z det ws) cs (d, r, f) = (d', r', f')"
    and "index_covers (pz_E Z) K ws (view d)" and "long_keys PrefixChunk (view d)" and "long_keys PrefixPoisonQuar (view d)"
    and "distinct (map c_ID cs)" and "\<And>c. c \<in> set cs \<Longrightarrow> stored_chunk (pz_E Z) ws (view d) (c_ID c) = Some c"
  shows "evolves (pz_E Z) K ws {} (view d) (view d')"
  using assms(6-)
proof (induction cs arbitrary: d r f)
  case (Cons c cs)
  obtain d1 r1 f1 where step: "rescan_chunk Z det ws c (d, r, f) = (d1, r1, f1)" by (metis prod.exhaust)
  have c: "c \<in> K" "stored_chunk (pz_E Z) ws (view d) (c_ID c) = Some c" using Cons.prems(1,7) by auto
  have m1: "evolves (pz_E Z) K ws {} (view d) (view d1)"
    and other: "\<And>i. i \<noteq> c_ID c \<Longrightarrow> stored_chunk (pz_E Z) ws (view d1) i = stored_chunk (pz_E Z) ws (view d) i"
    using rescan_chunk_marks [OF assms(1-3) c(1) assms(5) step]
  proof (atomize (full), elim disjE exE conjE)
    assume "d1 = d"
    then show "evolves (pz_E Z) K ws {} (view d) (view d1) \<and>
        (\<forall>i. i \<noteq> c_ID c \<longrightarrow> stored_chunk (pz_E Z) ws (view d1) i = stored_chunk (pz_E Z) ws (view d) i)"
      using evolves_refl Cons.prems(3-5) by blast
  next
    fix c'
    assume m: "marks (pz_E Z) K ws c' (view d) (view d1)" "c_ID c' = c_ID c" "c_Poisoning c' \<noteq> None"
      "\<forall>v. c_Poisoning c = Some v \<and> pv_Level v = PoisonReleased \<longrightarrow> pv_Level (the (c_Poisoning c')) = PoisonReleased"
    then have "released_chunk c' \<or> (\<forall>b. stored_chunk (pz_E Z) ws (view d) (c_ID c') = Some b \<longrightarrow> \<not> released_chunk b)"
      using c(2) by (auto simp: released_chunk_def)
    then show "evolves (pz_E Z) K ws {} (view d) (view d1) \<and>
        (\<forall>i. i \<noteq> c_ID c \<longrightarrow> stored_chunk (pz_E Z) ws (view d1) i = stored_chunk (pz_E Z) ws (view d) i)"
      using marks_evolves [OF assms(4) Cons.prems(3-5) m(1)] marks_stored [OF m(1)] m(2) by auto
  qed
  have "evolves (pz_E Z) K ws {} (view d1) (view d')"
  proof (rule Cons.IH)
    show "set cs \<subseteq> K" "distinct (map c_ID cs)" using Cons.prems by auto
    show "fold (rescan_chunk Z det ws) cs (d1, r1, f1) = (d', r', f')" using Cons.prems(2) step by simp
    show "index_covers (pz_E Z) K ws (view d1)" "long_keys PrefixChunk (view d1)" "long_keys PrefixPoisonQuar (view d1)"
      using m1 by (simp_all add: evolves_def)
    show "stored_chunk (pz_E Z) ws (view d1) (c_ID x) = Some x" if "x \<in> set cs" for x
    proof -
      have "c_ID x \<in> c_ID ` set cs" using that by (rule imageI)
      then have "c_ID x \<noteq> c_ID c" using Cons.prems(6) by force
      then show ?thesis using other [of "c_ID x"] Cons.prems(7) [of x] that by simp
    qed
  qed
  then show ?case using evolves_trans [OF m1] by blast
qed (simp add: evolves_refl)

lemma quarantine_ok_evolves:
  assumes "quarantine_ok view E K vault ws e" and "session_inv view (ge_sip E) UNIV (en_db e1)" and "pdb (en_db e1) = pdb (en_db e)"
    and "evolves E K ws free (view (pdb (en_db e))) (view d)"
  shows "quarantine_ok view E K vault ws (e1\<lparr>en_db := (en_db e1)\<lparr>pdb := d\<rparr>\<rparr>)"
proof -
  have "registry_frame (view (pdb (en_db e1))) (view d)" using assms(3,4) by (simp add: evolves_def)
  then show ?thesis
    using session_inv_frame [OF assms(2)] assms(1,3,4) by (simp add: quarantine_ok_def evolves_def)
qed

lemma quarantine_ok_mark: "quarantine_ok view E K vault ws (markIndexChanged ws' e) \<longleftrightarrow> quarantine_ok view E K vault ws e"
  by (simp add: quarantine_ok_def markIndexChanged_def)

lemma chunk_scan:
  assumes "pebble (ge_P E) view" and "reliable (ge_P E)" and "is_ws ws" and "long_keys PrefixChunk (view d)"
    and "VaultKindRange PrefixChunk ws = Inr (lower, upper)" and "index_covers E K ws (view d)"
  obtains cs where
    "DB_RangeScan (ge_P E) d lower upper
       (\<lambda>_ val cs. (case cd_unmarshal (ge_chunk E) val of Some c \<Rightarrow> cs @ [c] | None \<Rightarrow> cs, True)) [] = (cs, None)"
    and "set cs \<subseteq> K" and "distinct (map c_ID cs)" and "\<And>c. c \<in> set cs \<Longrightarrow> stored_chunk E ws (view d) (c_ID c) = Some c"
proof -
  obtain es where
    scan: "\<And>f (s :: chunk list). DB_RangeScan (ge_P E) d lower upper (\<lambda>k v s. (f k v s, True)) s =
        (fold (\<lambda>(i, v). f (vaultScopedString PrefixChunk ws i) v) es s, None)"
    and es: "distinct (map fst es)" "sorted_wrt (<) (map (str_bytes \<circ> fst) es)"
      "\<And>i v. (i, v) \<in> set es \<longleftrightarrow> view d (vaultScopedString PrefixChunk ws i) = Some v"
    by (rule pebble.scoped_scan [OF assms(1-5)]) blast
  let ?cs = "List.map_filter (\<lambda>e. cd_unmarshal (ge_chunk E) (snd e)) es"
  have stored: "c_ID c = i \<and> c \<in> K \<and> stored_chunk E ws (view d) i = Some c" if "(i, v) \<in> set es" "cd_unmarshal (ge_chunk E) v = Some c" for i v c
  proof -
    have "stored_chunk E ws (view d) i = Some c"
      using es(3) that by (simp add: stored_chunk_def ChunkKey_def PrefixChunk_def)
    then show ?thesis using assms(6) unfolding index_covers_def by blast
  qed
  show thesis
  proof (rule that [of ?cs])
    show "DB_RangeScan (ge_P E) d lower upper
       (\<lambda>_ val cs. (case cd_unmarshal (ge_chunk E) val of Some c \<Rightarrow> cs @ [c] | None \<Rightarrow> cs, True)) [] = (?cs, None)"
      using fold_collect [where dec = "cd_unmarshal (ge_chunk E)" and Q = "\<lambda>_. True" and es = es and acc = "[]"]
      by (simp add: scan case_prod_unfold cong: option.case_cong)
    show "set ?cs \<subseteq> K" using stored by (force simp: set_map_filter)
    show "distinct (map c_ID ?cs)"
      using stored by (intro distinct_decoded es(1)) blast
    show "stored_chunk E ws (view d) (c_ID c) = Some c" if "c \<in> set ?cs" for c
      using that stored by (force simp: set_map_filter)
  qed
qed

text \<open>Any operation that keeps the registry and the vault's chunks and entries keeps the state good.\<close>

definition good_step ::
    "('db \<Rightarrow> contents) \<Rightarrow> ('db, 's) engine_env \<Rightarrow> chunk set \<Rightarrow> string \<Rightarrow> ws \<Rightarrow> string set \<Rightarrow> ('db, 's) engine \<Rightarrow>
     ('db, 's) engine \<Rightarrow> bool" where
  "good_step view E K vault ws free e e' \<longleftrightarrow>
     quarantine_ok view E K vault ws e' \<and> evolves E K ws free (view (pdb (en_db e))) (view (pdb (en_db e')))"

lemma good_step_refl: "quarantine_ok view E K vault ws e \<Longrightarrow> good_step view E K vault ws free e e"
  by (simp add: good_step_def evolves_refl quarantine_ok_def)

lemma good_step_trans:
  "good_step view E K vault ws free e e' \<Longrightarrow> good_step view E K vault ws free e' e'' \<Longrightarrow> good_step view E K vault ws free e e''"
  unfolding good_step_def using evolves_trans by blast

lemma good_step_resolved:
  assumes "quarantine_ok view E K vault ws e" and "session_inv view (ge_sip E) UNIV (en_db e1)" and "pdb (en_db e1) = pdb (en_db e)"
  shows "good_step view E K vault ws free e e1"
  using assms by (simp add: good_step_def evolves_refl quarantine_ok_def)

lemma good_step_store:
  assumes "quarantine_ok view E K vault ws e" and "evolves E K ws free (view (pdb (en_db e))) (view d)"
  shows "good_step view E K vault ws free e (e\<lparr>en_db := (en_db e)\<lparr>pdb := d\<rparr>\<rparr>)"
  using quarantine_ok_evolves [OF assms(1) _ refl assms(2)] assms by (simp add: good_step_def quarantine_ok_def)

lemma good_step_mark: "good_step view E K vault ws free e (markIndexChanged ws' e') \<longleftrightarrow> good_step view E K vault ws free e e'"
  by (simp add: good_step_def quarantine_ok_mark) (simp add: markIndexChanged_def)

lemma evolves_mono: "evolves E K ws {} m m' \<Longrightarrow> evolves E K ws free m m'"
  unfolding evolves_def by blast

lemma ListThreatSources_good:
  assumes "pebble (ge_P (pz_E Z)) view" and "reliable (ge_P (pz_E Z))" and "quarantine_ok view (pz_E Z) K vault ws e"
  shows "good_step view (pz_E Z) K vault ws free e (snd (ListThreatSources Z v e))"
proof -
  obtain e1 where e1: "resolve_ws (pz_E Z) v e = (resolve_spec (ge_sip (pz_E Z)) (view (pdb (en_db e))) v, e1)"
      "session_inv view (ge_sip (pz_E Z)) UNIV (en_db e1)" "pdb (en_db e1) = pdb (en_db e)"
    using resolve_at [OF assms(1,2)] assms(3) unfolding quarantine_ok_def by blast
  have "snd (ListThreatSources Z v e) = e1"
    by (simp add: ListThreatSources_def e1(1) case_prod_unfold)
  then show ?thesis using good_step_resolved [OF assms(3) e1(2,3)] by simp
qed

lemma RescanPoisoning_good:
  assumes "pebble (ge_P (pz_E Z)) view" and "reliable (ge_P (pz_E Z))" and "poison_codec Z K V" and "is_ws ws"
    and "quarantine_ok view (pz_E Z) K vault ws e"
  shows "good_step view (pz_E Z) K vault ws free e (snd (RescanPoisoning Z vault e))"
proof -
  let ?E = "pz_E Z"
  obtain e1 where e1: "resolve_ws ?E vault e = (ws, e1)" "session_inv view (ge_sip ?E) UNIV (en_db e1)" "pdb (en_db e1) = pdb (en_db e)"
    using resolve_at [OF assms(1,2)] assms(5) unfolding quarantine_ok_def by metis
  have g1: "good_step view ?E K vault ws free e e1" by (rule good_step_resolved [OF assms(5) e1(2,3)])
  define det e2 where "det = fst (poisonDetector Z e1)" and "e2 = snd (poisonDetector Z e1)"
  have "e2 = snd (ListThreatSources Z ''default'' e1)"
    by (simp add: e2_def poisonDetector_def mergedPhrases_def case_prod_unfold)
  then have g2: "good_step view ?E K vault ws free e1 e2"
    using ListThreatSources_good [OF assms(1,2), of K vault ws e1 free "''default''"] g1 unfolding good_step_def by simp
  then have ok2: "quarantine_ok view ?E K vault ws e2" by (simp add: good_step_def)
  have pd: "poisonDetector Z e1 = (det, e2)" by (simp add: det_def e2_def)
  show ?thesis
  proof (cases "EffectivePoisoningEnabled (ge_cfg ?E)")
    case False
    then show ?thesis using g1 by (simp add: RescanPoisoning_def e1(1))
  next
    case on: True
    show ?thesis
    proof (cases "VaultKindRange PrefixChunk ws")
      case (Inl err)
      then show ?thesis using good_step_trans [OF g1 g2] on by (simp add: RescanPoisoning_def e1(1) pd)
    next
      case (Inr lu)
      obtain lower upper where lu: "VaultKindRange PrefixChunk ws = Inr (lower, upper)" using Inr by (cases lu) auto
      note o = ok2 [unfolded quarantine_ok_def]
      have lk: "long_keys PrefixChunk (view (pdb (en_db e2)))" and lq: "long_keys PrefixPoisonQuar (view (pdb (en_db e2)))"
        and ic: "index_covers ?E K ws (view (pdb (en_db e2)))"
        using o by blast+
      obtain cs where cs: "DB_RangeScan (ge_P ?E) (pdb (en_db e2)) lower upper
           (\<lambda>_ val cs. (case cd_unmarshal (ge_chunk ?E) val of Some c \<Rightarrow> cs @ [c] | None \<Rightarrow> cs, True)) [] = (cs, None)"
        "set cs \<subseteq> K" "distinct (map c_ID cs)" "\<And>c. c \<in> set cs \<Longrightarrow> stored_chunk ?E ws (view (pdb (en_db e2))) (c_ID c) = Some c"
        by (rule chunk_scan [OF assms(1,2,4) lk lu ic]) blast
      obtain d r f where fold: "fold (rescan_chunk Z det ws) cs (pdb (en_db e2), 0, 0) = (d, r, f)" by (metis prod.exhaust)
      have "evolves ?E K ws {} (view (pdb (en_db e2))) (view d)"
        using poisonDetector_scored [OF assms(3)]
        by (intro rescan_chunks_evolve [OF assms(1-4) _ cs(2) fold ic lk lq cs(3,4)]) (simp_all add: det_def)
      then have g3: "good_step view ?E K vault ws free e2 (e2\<lparr>en_db := (en_db e2)\<lparr>pdb := d\<rparr>\<rparr>)"
        by (rule good_step_store [OF ok2 evolves_mono])
      have "snd (RescanPoisoning Z vault e) = markIndexChanged ws (e2\<lparr>en_db := (en_db e2)\<lparr>pdb := d\<rparr>\<rparr>)"
        using on by (simp add: RescanPoisoning_def e1(1) pd lu cs(1) fold)
      then show ?thesis
        using good_step_trans [OF g1 good_step_trans [OF g2 g3]] by (simp add: good_step_mark)
    qed
  qed
qed


lemma putChunk_marks:
  assumes "pebble (ge_P (pz_E Z)) view" and "reliable (ge_P (pz_E Z))" and "poison_codec Z K V" and "c \<in> K" and "v \<in> V"
  obtains d1 b where "putChunk (pz_E Z) ws (with_level l v c) d = Inr d1" and "view d1 = (view d)(ChunkKey ws (c_ID c) \<mapsto> b)"
    and "cd_unmarshal (ge_chunk (pz_E Z)) b = Some (with_level l v c)" and "with_level l v c \<in> K"
proof -
  obtain b where b: "cd_marshal (ge_chunk (pz_E Z)) (with_level l v c) = Some b"
      "cd_unmarshal (ge_chunk (pz_E Z)) b = Some (with_level l v c)" "with_level l v c \<in> K"
    unfolding with_level_def by (rule poison_codecE [OF assms(3,4) poison_codecD(2) [OF assms(3,5)]])
  obtain d1 where d1: "pb_commit (ge_P (pz_E Z)) d [KSet (ChunkKey ws (c_ID c)) b] = Inr d1"
      "view d1 = apply_batch [KSet (ChunkKey ws (c_ID c)) b] (view d)"
    by (rule pebble.reliable_commitE [OF assms(1,2)])
  show thesis
    by (rule that [of d1 b]) (use b d1 in \<open>simp_all add: putChunk_def DB_Set_def\<close>, simp add: with_level_def)
qed

lemma with_level_simps [simp]:
  "c_ID (with_level l v c) = c_ID c" "flagged_chunk (with_level l v c) = Quarantined l"
  "released_chunk (with_level l v c) \<longleftrightarrow> l = PoisonReleased"
  by (simp_all add: with_level_def flagged_chunk_def released_chunk_def)

lemma ReleaseChunk_good:
  assumes "pebble (ge_P (pz_E Z)) view" and "reliable (ge_P (pz_E Z))" and "poison_codec Z K V" and "is_ws ws"
    and "quarantine_ok view (pz_E Z) K vault ws e" and "ReleaseChunk (pz_E Z) vault i e = (r, e')"
  shows "good_step view (pz_E Z) K vault ws free e e'"
    "stored_chunk (pz_E Z) ws (view (pdb (en_db e))) i = Some c \<Longrightarrow> c_Poisoning c = Some v \<Longrightarrow>
       r = None \<and> (\<exists>c'. stored_chunk (pz_E Z) ws (view (pdb (en_db e'))) i = Some c' \<and> released_chunk c')"
proof -
  let ?E = "pz_E Z"
  obtain e1 where e1: "resolve_ws ?E vault e = (ws, e1)" "session_inv view (ge_sip ?E) UNIV (en_db e1)" "pdb (en_db e1) = pdb (en_db e)"
    using resolve_at [OF assms(1,2)] assms(5) unfolding quarantine_ok_def by metis
  have g1: "good_step view ?E K vault ws free e e1" by (rule good_step_resolved [OF assms(5) e1(2,3)])
  let ?d = "pdb (en_db e)"
  note o = assms(5) [unfolded quarantine_ok_def]
  have look: "lookupChunk (ge_P ?E) (ge_chunk ?E) ?d ws i = stored_chunk ?E ws (view ?d) i"
    by (simp add: pebble.lookupChunk_view [OF assms(1,2)] stored_chunk_def)
  have "good_step view ?E K vault ws free e e' \<and> (\<forall>c v. stored_chunk ?E ws (view ?d) i = Some c \<longrightarrow> c_Poisoning c = Some v \<longrightarrow>
       r = None \<and> (\<exists>c'. stored_chunk ?E ws (view (pdb (en_db e'))) i = Some c' \<and> released_chunk c'))"
  proof (cases "\<exists>c v. stored_chunk ?E ws (view ?d) i = Some c \<and> c_Poisoning c = Some v \<and> pv_Level v \<noteq> PoisonReleased")
    case True
    then obtain c v where c: "stored_chunk ?E ws (view ?d) i = Some c" "c_Poisoning c = Some v" "pv_Level v \<noteq> PoisonReleased" by blast
    have cK: "c_ID c = i" "c \<in> K" using o c(1) unfolding index_covers_def by blast+
    have vV: "v \<in> V" by (rule poison_codecD(1) [OF assms(3) cK(2) c(2)])
    obtain d1 b where d1: "putChunk ?E ws (with_level PoisonReleased v c) ?d = Inr d1" "view d1 = (view ?d)(ChunkKey ws (c_ID c) \<mapsto> b)"
        "cd_unmarshal (ge_chunk ?E) b = Some (with_level PoisonReleased v c)" "with_level PoisonReleased v c \<in> K"
      by (rule putChunk_marks [OF assms(1-3) cK(2) vV])
    let ?d2 = "drop_quarantine (ge_P ?E) ws i d1"
    have m: "marks ?E K ws (with_level PoisonReleased v c) (view ?d) (view ?d2)"
      unfolding marks_def using d1(3,4) cK(1)
      by (intro exI [of _ b] exI [of _ None]) (simp add: pebble.drop_quarantine_view [OF assms(1,2)] d1(2) Quarantined_def)
    have ev: "evolves ?E K ws free (view ?d) (view ?d2)"
      using o by (intro marks_evolves [OF assms(4) _ _ _ m]) simp_all
    have e': "e' = markIndexChanged ws (e1\<lparr>en_db := (en_db e1)\<lparr>pdb := ?d2\<rparr>\<rparr>)" "r = None"
      using assms(6) c d1(1) by (simp_all add: ReleaseChunk_def e1(1,3) Let_def look)
    have "good_step view ?E K vault ws free e1 (e1\<lparr>en_db := (en_db e1)\<lparr>pdb := ?d2\<rparr>\<rparr>)"
      using g1 ev e1(3) by (intro good_step_store) (simp_all add: good_step_def)
    then have "good_step view ?E K vault ws free e e'"
      using good_step_trans [OF g1] by (simp add: e'(1) good_step_mark)
    moreover have "stored_chunk ?E ws (view (pdb (en_db e'))) i = Some (with_level PoisonReleased v c)"
      using marks_stored [OF m, of i] cK(1) by (simp add: e'(1) markIndexChanged_def)
    ultimately show ?thesis using e'(2) by simp
  next
    case False
    then have "e' = e1"
      using assms(6) by (auto simp: ReleaseChunk_def e1(1,3) Let_def look split: option.splits if_splits sum.splits)
    moreover have "r = None" if "stored_chunk ?E ws (view ?d) i = Some c" "c_Poisoning c = Some v" for c v
      using assms(6) False that by (auto simp: ReleaseChunk_def e1(1,3) Let_def look split: if_splits)
    ultimately show ?thesis using g1 False e1(3) by (auto simp: released_chunk_def)
  qed
  then show "good_step view ?E K vault ws free e e'"
    "stored_chunk ?E ws (view ?d) i = Some c \<Longrightarrow> c_Poisoning c = Some v \<Longrightarrow>
       r = None \<and> (\<exists>c'. stored_chunk ?E ws (view (pdb (en_db e'))) i = Some c' \<and> released_chunk c')"
    by blast+
qed

lemma ResetChunk_good:
  assumes "pebble (ge_P (pz_E Z)) view" and "reliable (ge_P (pz_E Z))" and "poison_codec Z K V" and "is_ws ws"
    and "quarantine_ok view (pz_E Z) K vault ws e" and "i \<in> free"
  shows "good_step view (pz_E Z) K vault ws free e (snd (ResetChunk Z vault i e))"
proof -
  let ?E = "pz_E Z"
  obtain e1 where e1: "resolve_ws ?E vault e = (ws, e1)" "session_inv view (ge_sip ?E) UNIV (en_db e1)" "pdb (en_db e1) = pdb (en_db e)"
    using resolve_at [OF assms(1,2)] assms(5) unfolding quarantine_ok_def by metis
  have g1: "good_step view ?E K vault ws free e e1" by (rule good_step_resolved [OF assms(5) e1(2,3)])
  let ?d = "pdb (en_db e)"
  note o = assms(5) [unfolded quarantine_ok_def]
  have look: "lookupChunk (ge_P ?E) (ge_chunk ?E) ?d ws i = stored_chunk ?E ws (view ?d) i"
    by (simp add: pebble.lookupChunk_view [OF assms(1,2)] stored_chunk_def)
  show ?thesis
  proof (cases "\<exists>c v. stored_chunk ?E ws (view ?d) i = Some c \<and> c_Poisoning c = Some v")
    case True
    then obtain c v where c: "stored_chunk ?E ws (view ?d) i = Some c" "c_Poisoning c = Some v" by blast
    have cK: "c_ID c = i" "c \<in> K" using o c(1) unfolding index_covers_def by blast+
    have vV: "v \<in> V" by (rule poison_codecD(1) [OF assms(3) cK(2) c(2)])
    define l where "l = LevelFor (pv_Score v) (EffectivePoisonThresholdSuspicious (ge_cfg ?E)) (EffectivePoisonThresholdQuarantine (ge_cfg ?E))"
    obtain d1 b where d1: "putChunk ?E ws (with_level l v c) ?d = Inr d1" "view d1 = (view ?d)(ChunkKey ws (c_ID c) \<mapsto> b)"
        "cd_unmarshal (ge_chunk ?E) b = Some (with_level l v c)" "with_level l v c \<in> K"
      by (rule putChunk_marks [OF assms(1-3) cK(2) vV])
    obtain vb where put: "view (put_quarantine Z ws i (v\<lparr>pv_Level := l\<rparr>) d1) = (view d1)(QuarantineKey ws i \<mapsto> vb)"
      by (rule put_quarantine_view [OF assms(1-3) poison_codecD(2) [OF assms(3) vV]])
    let ?d2 = "if Quarantined l then put_quarantine Z ws i (v\<lparr>pv_Level := l\<rparr>) d1 else drop_quarantine (ge_P ?E) ws i d1"
    have m: "marks ?E K ws (with_level l v c) (view ?d) (view ?d2)"
      unfolding marks_def using d1(3,4) cK(1)
      by (intro exI [of _ b] exI [of _ "if Quarantined l then Some vb else None"])
        (simp add: pebble.drop_quarantine_view [OF assms(1,2)] d1(2) put)
    have ev: "evolves ?E K ws free (view ?d) (view ?d2)"
      using o cK(1) assms(6) by (intro marks_evolves [OF assms(4) _ _ _ m]) simp_all
    have e': "snd (ResetChunk Z vault i e) = markIndexChanged ws (e1\<lparr>en_db := (en_db e1)\<lparr>pdb := ?d2\<rparr>\<rparr>)"
      using c d1(1) by (simp add: ResetChunk_def e1(1,3) Let_def look flip: l_def)
    have "good_step view ?E K vault ws free e1 (e1\<lparr>en_db := (en_db e1)\<lparr>pdb := ?d2\<rparr>\<rparr>)"
      using g1 ev e1(3) by (intro good_step_store) (simp_all add: good_step_def)
    then show ?thesis
      using good_step_trans [OF g1] by (simp add: e' good_step_mark)
  next
    case False
    then have "snd (ResetChunk Z vault i e) = e1"
      by (auto simp: ResetChunk_def e1(1,3) Let_def look split: option.splits)
    then show ?thesis using g1 by simp
  qed
qed

lemma source_key_evolves:
  assumes "quarantine_ok view E K vault ws e" and "is_ws ws'" and "m' = (view (pdb (en_db e)))(ThreatSourceKey ws' j := x)"
  shows "evolves E K ws free (view (pdb (en_db e))) m'"
proof -
  note o = assms(1) [unfolded quarantine_ok_def]
  have k: "ThreatSourceKey ws' j \<noteq> ChunkKey w i" "ThreatSourceKey ws' j \<noteq> QuarantineKey w i" for w i
    by (simp_all add: ThreatSourceKey_def ChunkKey_def QuarantineKey_def vaultScopedString_def vaultScoped_def)
  then have k': "ChunkKey w i \<noteq> ThreatSourceKey ws' j" "QuarantineKey w i \<noteq> ThreatSourceKey ws' j" for w i by metis+
  have "stored_chunk E ws m' i = stored_chunk E ws (view (pdb (en_db e))) i" for i
    by (simp add: stored_chunk_def assms(3) k')
  moreover have "m' (QuarantineKey ws i) = view (pdb (en_db e)) (QuarantineKey ws i)" for i
    by (simp add: assms(3) k')
  moreover have "registry_frame (view (pdb (en_db e))) m'"
    by (auto simp: registry_frame_def assms(3) ThreatSourceKey_def vaultScopedString_def vaultScoped_def PrefixVaultMeta_def
        PrefixVaultNameIndex_def)
  moreover have "long_keys PrefixChunk m'" "long_keys PrefixPoisonQuar m'"
    using o by (auto simp: long_keys_def assms(3) ThreatSourceKey_def vaultScopedString_def vaultScoped_def PrefixChunk_def
        PrefixPoisonQuar_def split: if_splits)
  ultimately show ?thesis
    using o unfolding evolves_def index_covers_def by simp
qed

lemma putThreatSource_good:
  assumes "pebble (ge_P (pz_E Z)) view" and "reliable (ge_P (pz_E Z))" and "quarantine_ok view (pz_E Z) K vault ws e"
  shows "good_step view (pz_E Z) K vault ws free e (snd (putThreatSource Z s e))"
proof -
  let ?E = "pz_E Z" and ?w = "resolve_spec (ge_sip (pz_E Z)) (view (pdb (en_db e))) ''default''"
  obtain e1 where e1: "resolve_ws ?E ''default'' e = (?w, e1)" "session_inv view (ge_sip ?E) UNIV (en_db e1)" "pdb (en_db e1) = pdb (en_db e)"
    using resolve_at [OF assms(1,2)] assms(3) unfolding quarantine_ok_def by metis
  have g1: "good_step view ?E K vault ws free e e1" by (rule good_step_resolved [OF assms(3) e1(2,3)])
  then have ok1: "quarantine_ok view ?E K vault ws e1" by (simp add: good_step_def)
  show ?thesis
  proof (cases "cd_marshal (pz_source Z) s")
    case None
    then show ?thesis using g1 by (simp add: putThreatSource_def e1(1))
  next
    case (Some bj)
    obtain d where d: "pb_commit (ge_P ?E) (pdb (en_db e1)) [KSet (ThreatSourceKey ?w (ts_ID s)) bj] = Inr d"
        "view d = apply_batch [KSet (ThreatSourceKey ?w (ts_ID s)) bj] (view (pdb (en_db e1)))"
      by (rule pebble.reliable_commitE [OF assms(1,2)])
    have "evolves ?E K ws free (view (pdb (en_db e1))) (view d)"
      by (rule source_key_evolves [OF ok1 is_ws_resolve_spec]) (simp add: d(2))
    then have "good_step view ?E K vault ws free e1 (e1\<lparr>en_db := (en_db e1)\<lparr>pdb := d\<rparr>\<rparr>)"
      using g1 by (intro good_step_store) (simp_all add: good_step_def)
    moreover have "snd (putThreatSource Z s e) = e1\<lparr>en_db := (en_db e1)\<lparr>pdb := d\<rparr>\<rparr>"
      using d(1) by (simp add: putThreatSource_def e1(1) Some DB_Set_def)
    ultimately show ?thesis using good_step_trans [OF g1] by simp
  qed
qed

lemma store_and_rescan_good:
  assumes "pebble (ge_P (pz_E Z)) view" and "reliable (ge_P (pz_E Z))" and "poison_codec Z K V" and "is_ws ws"
    and "quarantine_ok view (pz_E Z) K vault ws e"
  shows "good_step view (pz_E Z) K vault ws free e (snd (store_and_rescan Z vault s e))"
proof -
  obtain r e1 where p: "putThreatSource Z s e = (r, e1)" by (metis prod.exhaust)
  have g: "good_step view (pz_E Z) K vault ws free e e1" using putThreatSource_good [OF assms(1,2,5), of free s] p by simp
  then have "good_step view (pz_E Z) K vault ws free e1 (snd (RescanPoisoning Z vault e1))"
    by (intro RescanPoisoning_good [OF assms(1-4)]) (simp add: good_step_def)
  then show ?thesis
    using g good_step_trans [OF g] by (auto simp: store_and_rescan_def p split: option.split prod.split)
qed

lemma RemoveThreatSource_good:
  assumes "pebble (ge_P (pz_E Z)) view" and "reliable (ge_P (pz_E Z))" and "poison_codec Z K V" and "is_ws ws"
    and "quarantine_ok view (pz_E Z) K vault ws e"
  shows "good_step view (pz_E Z) K vault ws free e (snd (RemoveThreatSource Z vault j e))"
proof -
  let ?E = "pz_E Z"
  obtain e1 where e1: "resolve_ws ?E vault e = (ws, e1)" "session_inv view (ge_sip ?E) UNIV (en_db e1)" "pdb (en_db e1) = pdb (en_db e)"
    using resolve_at [OF assms(1,2)] assms(5) unfolding quarantine_ok_def by metis
  have g1: "good_step view ?E K vault ws free e e1" by (rule good_step_resolved [OF assms(5) e1(2,3)])
  obtain d where d: "pb_commit (ge_P ?E) (pdb (en_db e1)) [KDelete (ThreatSourceKey ws j)] = Inr d"
      "view d = apply_batch [KDelete (ThreatSourceKey ws j)] (view (pdb (en_db e1)))"
    by (rule pebble.reliable_commitE [OF assms(1,2)])
  let ?e2 = "e1\<lparr>en_db := (en_db e1)\<lparr>pdb := d\<rparr>\<rparr>"
  have ok1: "quarantine_ok view ?E K vault ws e1" using g1 by (simp add: good_step_def)
  have "evolves ?E K ws free (view (pdb (en_db e1))) (view d)"
    by (rule source_key_evolves [OF ok1 assms(4)]) (simp add: d(2))
  then have g2: "good_step view ?E K vault ws free e1 ?e2"
    using g1 by (intro good_step_store) (simp_all add: good_step_def)
  then have "good_step view ?E K vault ws free ?e2 (snd (RescanPoisoning Z vault ?e2))"
    by (intro RescanPoisoning_good [OF assms(1-4)]) (simp add: good_step_def)
  moreover have "snd (RemoveThreatSource Z vault j e) = snd (RescanPoisoning Z vault ?e2)"
    using d(1) by (simp add: RemoveThreatSource_def e1(1) DB_Delete_def)
  ultimately show ?thesis using good_step_trans [OF g1 good_step_trans [OF g2]] by simp
qed

end
