(* ===== verification/Quarantine.thy ===== *)
theory Quarantine
  imports Poison_Facts
begin

text \<open>
  Whole runs of the quarantine: any sequence of releases, resets, rescans and changes of the phrase sources in
  one vault keeps the index in step with the verdicts and the releases in place.
\<close>

section \<open>Runs\<close>

datatype quarantine_op =
  OpRelease string
  | OpReset string
  | OpRescan
  | OpEnable string bool
  | OpPhrases int "string list"
  | OpImport int string "string gres"
  | OpRemove string

fun quarantine_step :: "('db, 's) poison_env \<Rightarrow> string \<Rightarrow> quarantine_op \<Rightarrow> ('db, 's) engine \<Rightarrow> ('db, 's) engine" where
  "quarantine_step Z vault (OpRelease i) e = snd (ReleaseChunk (pz_E Z) vault i e)"
| "quarantine_step Z vault (OpReset i) e = snd (ResetChunk Z vault i e)"
| "quarantine_step Z vault OpRescan e = snd (RescanPoisoning Z vault e)"
| "quarantine_step Z vault (OpEnable i b) e = snd (SetThreatSourceEnabled Z vault i b e)"
| "quarantine_step Z vault (OpPhrases now ps) e = snd (AddPhrases Z now vault ps e)"
| "quarantine_step Z vault (OpImport now origin contents) e = snd (ImportThreatSource Z now vault origin contents e)"
| "quarantine_step Z vault (OpRemove i) e = snd (RemoveThreatSource Z vault i e)"

abbreviation quarantine_run ::
    "('db, 's) poison_env \<Rightarrow> string \<Rightarrow> quarantine_op list \<Rightarrow> ('db, 's) engine \<Rightarrow> ('db, 's) engine" where
  "quarantine_run Z vault ops e \<equiv> fold (quarantine_step Z vault) ops e"

text \<open>What the operations of one run rely on.\<close>

definition quarantine_setup ::
    "('db \<Rightarrow> contents) \<Rightarrow> ('db, 's) poison_env \<Rightarrow> chunk set \<Rightarrow> poison_verdict set \<Rightarrow> ws \<Rightarrow> bool" where
  "quarantine_setup view Z K V ws \<longleftrightarrow>
     pebble (ge_P (pz_E Z)) view \<and> reliable (ge_P (pz_E Z)) \<and> poison_codec Z K V \<and> is_ws ws"

lemma quarantine_setupD:
  assumes "quarantine_setup view Z K V ws"
  shows "pebble (ge_P (pz_E Z)) view" "reliable (ge_P (pz_E Z))" "poison_codec Z K V" "is_ws ws"
  using assms by (simp_all add: quarantine_setup_def)

lemma getThreatSource_good:
  assumes "pebble (ge_P (pz_E Z)) view" and "reliable (ge_P (pz_E Z))" and "quarantine_ok view (pz_E Z) K vault ws e"
  shows "good_step view (pz_E Z) K vault ws free e (snd (getThreatSource Z i e))"
proof -
  let ?w = "resolve_spec (ge_sip (pz_E Z)) (view (pdb (en_db e))) ''default''"
  obtain e1 where e1: "resolve_ws (pz_E Z) ''default'' e = (?w, e1)"
      "session_inv view (ge_sip (pz_E Z)) UNIV (en_db e1)" "pdb (en_db e1) = pdb (en_db e)"
    using resolve_at [OF assms(1,2)] assms(3) unfolding quarantine_ok_def by metis
  have "snd (getThreatSource Z i e) = e1"
    by (simp add: getThreatSource_def e1(1))
  then show ?thesis using good_step_resolved [OF assms(3) e1(2,3)] by simp
qed

lemma good_step_ok: "good_step view E K vault ws free e e' \<Longrightarrow> quarantine_ok view E K vault ws e'"
  by (simp add: good_step_def)

lemma quarantine_step_good:
  assumes S: "quarantine_setup view Z K V ws" and ok: "quarantine_ok view (pz_E Z) K vault ws e"
    and free: "\<And>i. x = OpReset i \<Longrightarrow> i \<in> free"
  shows "good_step view (pz_E Z) K vault ws free e (quarantine_step Z vault x e)"
proof (cases x)
  case (OpRelease i)
  obtain r e' where r: "ReleaseChunk (pz_E Z) vault i e = (r, e')" by fastforce
  show ?thesis using ReleaseChunk_good(1) [OF quarantine_setupD [OF S] ok r] by (simp add: OpRelease r)
next
  case (OpReset i)
  then show ?thesis using ResetChunk_good [OF quarantine_setupD [OF S] ok free] by simp
next
  case OpRescan
  then show ?thesis using RescanPoisoning_good [OF quarantine_setupD [OF S] ok] by simp
next
  case (OpEnable i b)
  obtain r e1 where r: "getThreatSource Z i e = (r, e1)" by fastforce
  have g1: "good_step view (pz_E Z) K vault ws free e e1"
    using getThreatSource_good [OF quarantine_setupD(1,2) [OF S] ok, of free i] r by simp
  consider (none) "quarantine_step Z vault x e = e1"
    | (put) s r' e2 where "putThreatSource Z s e1 = (r', e2)" and
        "quarantine_step Z vault x e = e2 \<or> quarantine_step Z vault x e = snd (RescanPoisoning Z vault e2)"
  proof (cases "\<exists>s. r = Inr (Some s)")
    case True
    then obtain s where s: "r = Inr (Some s)" by blast
    obtain r' e2 where "putThreatSource Z (s\<lparr>ts_Enabled := b\<rparr>) e1 = (r', e2)" by fastforce
    then show thesis
      using r s by (intro put [of "s\<lparr>ts_Enabled := b\<rparr>" r' e2]) (simp_all add: OpEnable SetThreatSourceEnabled_def split: option.split)
  next
    case False
    then show thesis
      using r by (intro none) (auto simp: OpEnable SetThreatSourceEnabled_def split: sum.split option.split)
  qed
  then show ?thesis
  proof cases
    case put
    have g2: "good_step view (pz_E Z) K vault ws free e1 e2"
      using putThreatSource_good [OF quarantine_setupD(1,2) [OF S] good_step_ok [OF g1], of free s] put(1) by simp
    have "good_step view (pz_E Z) K vault ws free e2 (snd (RescanPoisoning Z vault e2))"
      by (rule RescanPoisoning_good [OF quarantine_setupD [OF S] good_step_ok [OF g2]])
    then show ?thesis using put(2) good_step_trans [OF g1 g2] good_step_trans by metis
  qed (simp add: g1)
next
  case (OpPhrases now ps)
  obtain r e1 where r: "getThreatSource Z threatUserID e = (r, e1)" by fastforce
  have g1: "good_step view (pz_E Z) K vault ws free e e1"
    using getThreatSource_good [OF quarantine_setupD(1,2) [OF S] ok, of free threatUserID] r by simp
  have "good_step view (pz_E Z) K vault ws free e1 (snd (store_and_rescan Z vault s e1))" for s
    by (rule store_and_rescan_good [OF quarantine_setupD [OF S] good_step_ok [OF g1]])
  then show ?thesis using good_step_trans [OF g1] by (simp add: OpPhrases AddPhrases_def r Let_def)
next
  case (OpImport now origin contents)
  then show ?thesis
    using store_and_rescan_good [OF quarantine_setupD [OF S] ok] good_step_refl [OF ok]
    by (cases contents) (simp_all add: ImportThreatSource_def Let_def)
next
  case (OpRemove i)
  then show ?thesis using RemoveThreatSource_good [OF quarantine_setupD [OF S] ok] by simp
qed

lemma quarantine_run_good:
  assumes S: "quarantine_setup view Z K V ws" and "quarantine_ok view (pz_E Z) K vault ws e"
    and "\<And>i. OpReset i \<in> set ops \<Longrightarrow> i \<in> free"
  shows "good_step view (pz_E Z) K vault ws free e (quarantine_run Z vault ops e)"
  using assms(2,3)
proof (induction ops arbitrary: e)
  case (Cons x ops)
  have g: "good_step view (pz_E Z) K vault ws free e (quarantine_step Z vault x e)"
    using Cons.prems by (intro quarantine_step_good [OF S]) auto
  have "good_step view (pz_E Z) K vault ws free (quarantine_step Z vault x e) (quarantine_run Z vault ops (quarantine_step Z vault x e))"
    using Cons.prems(2) by (intro Cons.IH good_step_ok [OF g]) auto
  then show ?case using good_step_trans [OF g] by simp
qed (simp add: good_step_refl)

section \<open>The list of flagged chunks\<close>

lemma fold_entries:
  "fold (\<lambda>(i, v) acc. case f i of Some p \<Rightarrow> acc @ [p] | None \<Rightarrow> acc) es acc = acc @ List.map_filter (\<lambda>e. f (fst e)) es"
  by (induction es arbitrary: acc) (auto simp: map_filter_simps split: option.split)

lemma poisoned_entry_facts:
  "poisoned_entry c = Some p \<Longrightarrow> pz_ChunkID p = c_ID c" "poisoned_entry c \<noteq> None \<longleftrightarrow> flagged_chunk c"
  by (auto simp: poisoned_entry_def flagged_chunk_def split: option.splits if_splits)

lemma lookup_stored:
  assumes "pebble (ge_P E) view" and "reliable (ge_P E)"
  shows "lookupChunk (ge_P E) (ge_chunk E) d ws i = stored_chunk E ws (view d) i"
  by (simp add: pebble.lookupChunk_view [OF assms] stored_chunk_def)

lemma ListPoisoned_entries:
  assumes P: "pebble (ge_P E) view" "reliable (ge_P E)" and "is_ws ws" and ok: "quarantine_ok view E K vault ws e"
    and lu: "VaultKindRange PrefixPoisonQuar ws = Inr (lower, upper)"
  obtains ps where "fst (ListPoisoned E vault e) = (ps, None)" and "distinct (map pz_ChunkID ps)"
    and "set ps = {p. \<exists>i c. stored_chunk E ws (view (pdb (en_db e))) i = Some c \<and> poisoned_entry c = Some p}"
proof -
  let ?m = "view (pdb (en_db e))"
  obtain e1 where e1: "resolve_ws E vault e = (ws, e1)" "pdb (en_db e1) = pdb (en_db e)"
    using resolve_at [OF P] ok unfolding quarantine_ok_def by metis
  have lk: "long_keys PrefixPoisonQuar ?m" and cov: "index_covers E K ws ?m"
    using ok by (simp_all add: quarantine_ok_def)
  obtain es where
    scan: "\<And>f (s :: poisoned_chunk list). DB_RangeScan (ge_P E) (pdb (en_db e)) lower upper (\<lambda>k v s. (f k v s, True)) s =
        (fold (\<lambda>(i, v). f (vaultScopedString PrefixPoisonQuar ws i) v) es s, None)"
    and es: "distinct (map fst es)" "\<And>i v. (i, v) \<in> set es \<longleftrightarrow> ?m (vaultScopedString PrefixPoisonQuar ws i) = Some v"
    by (rule pebble.scoped_scan [OF P assms(3) lk lu]) blast
  let ?f = "\<lambda>i. Option.bind (stored_chunk E ws ?m i) poisoned_entry"
  let ?ps = "List.map_filter (\<lambda>x. ?f (fst x)) es"
  have drop: "bytes_str (drop 9 (vaultScopedString PrefixPoisonQuar ws i)) = i" for i
    by (simp add: vaultScopedString_def vaultScoped_drop9 [OF assms(3)])
  have look: "(case lookupChunk (ge_P E) (ge_chunk E) (pdb (en_db e)) ws i of
        None \<Rightarrow> out | Some c \<Rightarrow> (case poisoned_entry c of Some p \<Rightarrow> out @ [p] | None \<Rightarrow> out)) =
      (case ?f i of Some p \<Rightarrow> out @ [p] | None \<Rightarrow> out)" for i out
    using lookup_stored [OF P] by (cases "stored_chunk E ws ?m i") simp_all
  have own: "pz_ChunkID p = i" if "?f i = Some p" for i p
    using that cov poisoned_entry_facts(1) by (auto simp: index_covers_def bind_eq_Some_conv)
  have "fst (ListPoisoned E vault e) = (?ps, None)"
    by (simp add: ListPoisoned_def ScanQuarantine_def lu e1 look drop scan fold_entries)
  moreover have "distinct (map pz_ChunkID ?ps)"
    using es(1)
  proof (induction es)
    case (Cons x xs)
    have sub: "set (map pz_ChunkID (List.map_filter (\<lambda>x. ?f (fst x)) xs)) \<subseteq> fst ` set xs"
      using own by (force simp: set_map_filter)
    have "distinct (map pz_ChunkID (List.map_filter (\<lambda>x. ?f (fst x)) xs))" using Cons by simp
    moreover have "fst x \<notin> fst ` set xs" using Cons.prems by simp
    ultimately show ?case using sub own [of "fst x"] by (auto simp: map_filter_simps split: option.split)
  qed (simp add: map_filter_simps)
  moreover have "set ?ps = {p. \<exists>i c. stored_chunk E ws ?m i = Some c \<and> poisoned_entry c = Some p}"
  proof (intro set_eqI iffI)
    fix p assume "p \<in> set ?ps"
    then show "p \<in> {p. \<exists>i c. stored_chunk E ws ?m i = Some c \<and> poisoned_entry c = Some p}"
      by (auto simp: set_map_filter bind_eq_Some_conv)
  next
    fix p assume "p \<in> {p. \<exists>i c. stored_chunk E ws ?m i = Some c \<and> poisoned_entry c = Some p}"
    then obtain i c where c: "stored_chunk E ws ?m i = Some c" "poisoned_entry c = Some p" by blast
    then have "?m (QuarantineKey ws i) \<noteq> None"
      using cov poisoned_entry_facts(2) [of c] unfolding index_covers_def by auto
    then obtain v where "(i, v) \<in> set es" using es(2) by (auto simp: QuarantineKey_def PrefixPoisonQuar_def)
    then show "p \<in> set ?ps" using c by (force simp: set_map_filter)
  qed
  ultimately show thesis using that by blast
qed

section \<open>A small quarantine\<close>

text \<open>Chunks whose text is \<open>x\<close>. A stored chunk is its level, whether a phrase matched and its identifier.\<close>

definition x_verdict :: "bool \<Rightarrow> poison_level \<Rightarrow> poison_verdict" where
  "x_verdict hit l =
     \<lparr>pv_Level = l, pv_Score = (if hit then 1 / 2 else 0),
      pv_Signals = \<lparr>Repetition = 0, Stuffing = 0, Instruction = (if hit then 1 else 0)\<rparr>,
      pv_MatchedPhrases = (if hit then [''x''] else [])\<rparr>"

definition x_chunk :: "string \<Rightarrow> poison_verdict option \<Rightarrow> chunk" where
  "x_chunk i v = blank_chunk\<lparr>c_ID := i, c_Content := ''x'', c_Poisoning := v\<rparr>"

definition level_byte :: "poison_level \<Rightarrow> byte" where
  "level_byte l = (case l of PoisonClean \<Rightarrow> 0 | PoisonSuspicious \<Rightarrow> 1 | PoisonQuarantine \<Rightarrow> 2 | PoisonReleased \<Rightarrow> 3)"

definition byte_level :: "byte \<Rightarrow> poison_level" where
  "byte_level b = (if b = 0 then PoisonClean else if b = 1 then PoisonSuspicious else if b = 2 then PoisonQuarantine else PoisonReleased)"

definition x_codec :: "chunk codec" where
  "x_codec =
     \<lparr>cd_marshal = (\<lambda>c. Some ((case c_Poisoning c of None \<Rightarrow> [4, 0]
          | Some v \<Rightarrow> [level_byte (pv_Level v), if pv_MatchedPhrases v = [] then 0 else 1]) @ str_bytes (c_ID c))),
      cd_unmarshal = (\<lambda>b. case b of l # h # i \<Rightarrow>
          Some (x_chunk (bytes_str i) (if l = 4 then None else Some (x_verdict (h = 1) (byte_level l)))) | _ \<Rightarrow> None)\<rparr>"

definition x_env :: "((bytes \<times> bytes) list, unit) poison_env" where
  "x_env =
     \<lparr>pz_E = demo_engine_env\<lparr>ge_chunk := x_codec\<rparr>,
      pz_source = \<lparr>cd_marshal = (\<lambda>s. Some []), cd_unmarshal = (\<lambda>b. Some (no_threat_source\<lparr>ts_Enabled := True, ts_Phrases := [''x'']\<rparr>))\<rparr>,
      pz_verdict = \<lparr>cd_marshal = (\<lambda>v. Some []), cd_unmarshal = (\<lambda>b. None)\<rparr>\<rparr>"

abbreviation x_verdicts :: "poison_verdict set" where
  "x_verdicts \<equiv> {v. \<exists>hit l. v = x_verdict hit l}"

abbreviation x_chunks :: "chunk set" where
  "x_chunks \<equiv> {c. \<exists>i v. c = x_chunk i v \<and> (v = None \<or> v \<in> Some ` x_verdicts)}"

text \<open>The vault \<open>a\<close> with a flagged and a clean chunk.\<close>

definition x_engine :: "((bytes \<times> bytes) list, unit) engine" where
  "x_engine = NewWithDB Default
     \<lparr>pdb = [(ChunkKey demo_vault ''a'', [1, 1, 97]), (ChunkKey demo_vault ''b'', [0, 0, 98]), (QuarantineKey demo_vault ''a'', [])],
      vaultPrefixCache = newVaultCache 10, vaultNameWritten = {}\<rparr> ()"

lemma contains_x: "contains ''x'' p \<longleftrightarrow> p = [] \<or> p = ''x''"
proof -
  have "contains ''x'' p \<longleftrightarrow> has_prefix ''x'' p \<or> has_prefix [] p" by (simp add: contains_def upt_rec)
  then show ?thesis by (cases p) (auto simp: has_prefix_def)
qed

lemma filter_x: "distinct ps \<Longrightarrow> [] \<notin> set ps \<Longrightarrow> filter (contains ''x'') ps = (if ''x'' \<in> set ps then [''x''] else [])"
  by (induction ps) (auto simp: contains_x filter_empty_conv)

lemma x_score:
  assumes "distinct ps" and "[] \<notin> set ps"
  shows "Score ascii_tables (NewHeuristic ps s q) ''x'' \<in> x_verdicts"
proof -
  have nt: "normalize_text ascii_tables ''x'' = ''x''" and f: "length (Fields ''x'') < 6" by code_simp+
  have d: "filter (contains ''x'') DefaultPhrases = []" by (simp add: contains_x DefaultPhrases_def)
  have r: "repetition ''x'' = 0" "stuffing ''x'' = 0" using f by (simp_all add: repetition_def stuffing_def Let_def)
  have "instruction ''x'' (hs_phrases (NewHeuristic ps s q)) = (if ''x'' \<in> set ps then (1, [''x'']) else (0, []))"
    using filter_x [OF assms] d by (simp add: instruction_def NewHeuristic_def)
  then show ?thesis
    by (auto simp: Score_def nt r Let_def x_verdict_def clamp01_def intro: exI [of _ True] exI [of _ False])
qed

lemma distinct_one: "distinct xs \<Longrightarrow> set xs = {x} \<Longrightarrow> xs = [x]"
proof (cases xs)
  case (Cons y ys)
  assume "distinct xs" "set xs = {x}"
  then have "y = x" "x \<notin> set ys" "set ys \<subseteq> {x}" using Cons by auto
  then have "set ys = {}" by (auto simp: subset_singleton_iff)
  then show ?thesis using \<open>y = x\<close> Cons by simp
qed simp

lemma x_codec_level [simp]: "byte_level (level_byte l) = l" "level_byte l \<noteq> 4"
  by (cases l; simp add: byte_level_def level_byte_def)+

lemma x_setup: "quarantine_setup map_of x_env x_chunks x_verdicts demo_vault"
proof -
  have codec: "codec_on x_chunks x_codec"
    by (auto simp: codec_on_def x_codec_def x_chunk_def blank_chunk_def) (auto simp: x_verdict_def split: if_splits)
  have E: "ge_chunk (pz_E x_env) = x_codec" "ge_u (pz_E x_env) = ascii_tables" "ge_P (pz_E x_env) = mem_pebble"
    by (simp_all add: x_env_def demo_engine_env_def)
  have K: "cd_marshal x_codec c \<noteq> None \<and> (\<forall>v. c_Poisoning c = Some v \<longrightarrow> v \<in> x_verdicts) \<and>
      (\<forall>v \<in> x_verdicts. c\<lparr>c_Poisoning := Some v\<rparr> \<in> x_chunks)" if cx: "c \<in> x_chunks" for c
  proof -
    obtain i v where c: "c = x_chunk i v" "v = None \<or> v \<in> Some ` x_verdicts" using cx by blast
    have upd: "c\<lparr>c_Poisoning := w\<rparr> = x_chunk i w" for w by (simp add: c(1) x_chunk_def)
    have "c_Poisoning c = v" by (simp add: c(1) x_chunk_def)
    moreover have "cd_marshal x_codec c \<noteq> None" by (simp add: x_codec_def)
    ultimately show ?thesis using c(2) by (simp add: upd) blast
  qed
  have V: "cd_marshal (pz_verdict x_env) v \<noteq> None \<and> (\<forall>l. v\<lparr>pv_Level := l\<rparr> \<in> x_verdicts)" if "v \<in> x_verdicts" for v
    using that by (auto simp: x_env_def x_verdict_def)
  have S: "scored_in x_env x_chunks x_verdicts (NewHeuristic ps s q)" if "distinct ps" "[] \<notin> set ps" for ps s q
    unfolding scored_in_def
  proof
    fix c assume "c \<in> x_chunks"
    then have "c_Content c = ''x''" by (auto simp: x_chunk_def)
    then show "Score (ge_u (pz_E x_env)) (NewHeuristic ps s q) (c_Content c) \<in> x_verdicts"
      using x_score [OF that, of s q] unfolding E by (simp only:)
  qed
  have "poison_codec x_env x_chunks x_verdicts"
    unfolding poison_codec_def E using codec K V S by (intro conjI ballI allI impI) blast+
  then show ?thesis
    using demo_store by (simp add: quarantine_setup_def E is_ws_def demo_engine_env_def)
qed

lemma x_engine_db:
  "pdb (en_db x_engine) =
     [(ChunkKey demo_vault ''a'', [1, 1, 97]), (ChunkKey demo_vault ''b'', [0, 0, 98]), (QuarantineKey demo_vault ''a'', [])]"
  "vaultPrefixCache (en_db x_engine) = NewLRU 10" "vaultNameWritten (en_db x_engine) = {}"
  by (simp_all add: x_engine_def NewWithDB_def newVaultCache_def case_prod_unfold)

lemma x_stored:
  "stored_chunk (pz_E x_env) demo_vault (map_of (pdb (en_db x_engine))) i =
     (if i = ''a'' then Some (x_chunk ''a'' (Some (x_verdict True PoisonSuspicious)))
      else if i = ''b'' then Some (x_chunk ''b'' (Some (x_verdict False PoisonClean))) else None)"
proof -
  have "bytes_str [97] = ''a''" "bytes_str [98] = ''b''" by code_simp+
  then show ?thesis
    by (simp add: stored_chunk_def x_engine_db x_env_def x_codec_def byte_level_def)
qed

lemma x_resolve: "resolve_spec demo_sip (map_of (pdb (en_db x_engine))) ''a'' = demo_vault"
proof -
  have "VaultPrefix demo_sip ''a'' = demo_vault" by code_simp
  then show ?thesis
    by (simp add: resolve_spec_def x_engine_db VaultNameIndexKey_def ChunkKey_def QuarantineKey_def vaultScopedString_def vaultScoped_def)
qed

lemma x_ok: "quarantine_ok map_of (pz_E x_env) x_chunks ''a'' demo_vault x_engine"
  unfolding quarantine_ok_def
proof (intro conjI)
  have sip: "ge_sip (pz_E x_env) = demo_sip" by (simp add: x_env_def demo_engine_env_def)
  show "resolve_spec (ge_sip (pz_E x_env)) (map_of (pdb (en_db x_engine))) ''a'' = demo_vault"
    by (simp add: sip x_resolve)
  have "registry_ok sip (map_of (pdb (en_db x_engine)))" for sip
    by (simp add: registry_ok_def x_engine_db VaultMetaKey_def ChunkKey_def QuarantineKey_def vaultScopedString_def vaultScoped_def)
  then show "session_inv map_of (ge_sip (pz_E x_env)) UNIV (en_db x_engine)"
    by (simp add: session_inv_def cache_coherent_def x_engine_db(2,3))
  show "index_covers (pz_E x_env) x_chunks demo_vault (map_of (pdb (en_db x_engine)))"
    unfolding index_covers_def
  proof (intro allI impI)
    fix i c assume c: "stored_chunk (pz_E x_env) demo_vault (map_of (pdb (en_db x_engine))) i = Some c"
    then consider "i = ''a''" "c = x_chunk ''a'' (Some (x_verdict True PoisonSuspicious))"
      | "i = ''b''" "c = x_chunk ''b'' (Some (x_verdict False PoisonClean))"
      by (auto simp: x_stored split: if_splits)
    then have "c_ID c = i \<and> (flagged_chunk c \<longrightarrow> i = ''a'') \<and> c \<in> x_chunks"
    proof cases
      case 1
      then have "c \<in> x_chunks" by blast
      then show ?thesis using 1 by (simp add: x_chunk_def)
    next
      case 2
      then have "c \<in> x_chunks" by blast
      then show ?thesis using 2 by (simp add: x_chunk_def flagged_chunk_def x_verdict_def Quarantined_def)
    qed
    then show "c_ID c = i \<and> c \<in> x_chunks \<and>
        (flagged_chunk c \<longrightarrow> map_of (pdb (en_db x_engine)) (QuarantineKey demo_vault i) \<noteq> None)"
      by (auto simp: x_engine_db(1))
  qed
  show "long_keys PrefixChunk (map_of (pdb (en_db x_engine)))" "long_keys PrefixPoisonQuar (map_of (pdb (en_db x_engine)))"
    by (auto simp: long_keys_def x_engine_db ChunkKey_def QuarantineKey_def vaultScopedString_def vaultScoped_def split: if_splits)
qed

section \<open>What runs keep\<close>

text \<open>C38: after any run of releases, resets, rescans and changes of the phrase sources, \<open>ListPoisoned\<close>
  reports exactly the flagged chunks of the vault, each once, with the verdict that is stored with the chunk:
  none is lost from the index, and stale entries of the index do not show.\<close>

theorem poison_list_exact:
  assumes "quarantine_setup view Z K V ws" and "quarantine_ok view (pz_E Z) K vault ws e"
    and "VaultKindRange PrefixPoisonQuar ws = Inr (lower, upper)"
  shows "let e' = quarantine_run Z vault ops e; r = fst (ListPoisoned (pz_E Z) vault e') in
    snd r = None \<and> distinct (map pz_ChunkID (fst r)) \<and>
    set (fst r) = {p. \<exists>i c. stored_chunk (pz_E Z) ws (view (pdb (en_db e'))) i = Some c \<and> poisoned_entry c = Some p}"
proof -
  have ok: "quarantine_ok view (pz_E Z) K vault ws (quarantine_run Z vault ops e)"
    by (rule good_step_ok [OF quarantine_run_good [OF assms(1,2), where free = UNIV]]) simp
  obtain ps where "fst (ListPoisoned (pz_E Z) vault (quarantine_run Z vault ops e)) = (ps, None)"
    "distinct (map pz_ChunkID ps)"
    "set ps = {p. \<exists>i c. stored_chunk (pz_E Z) ws (view (pdb (en_db (quarantine_run Z vault ops e)))) i = Some c \<and> poisoned_entry c = Some p}"
    by (rule ListPoisoned_entries [OF quarantine_setupD(1,2,4) [OF assms(1)] ok assms(3)])
  then show ?thesis by (simp add: Let_def)
qed

theorem poison_list_exact_witness:
  "map pz_ChunkID (fst (fst (ListPoisoned (pz_E x_env) ''a'' x_engine))) = [''a'']"
proof -
  let ?r = "fst (ListPoisoned (pz_E x_env) ''a'' x_engine)"
  have range: "VaultKindRange PrefixPoisonQuar demo_vault =
      Inr ([PrefixPoisonQuar, 0, 0, 0, 0, 0, 0, 0, 97], [PrefixPoisonQuar, 0, 0, 0, 0, 0, 0, 0, 98])"
    by code_simp
  have clean: "poisoned_entry (x_chunk ''b'' (Some (x_verdict False PoisonClean))) = None"
    by (simp add: poisoned_entry_def x_chunk_def x_verdict_def Quarantined_def)
  obtain p where p: "poisoned_entry (x_chunk ''a'' (Some (x_verdict True PoisonSuspicious))) = Some p" "pz_ChunkID p = ''a''"
    by (simp add: poisoned_entry_def x_chunk_def x_verdict_def Quarantined_def)
  have r: "distinct (map pz_ChunkID (fst ?r))"
    "set (fst ?r) = {p. \<exists>i c. stored_chunk (pz_E x_env) demo_vault (map_of (pdb (en_db x_engine))) i = Some c \<and> poisoned_entry c = Some p}"
    using poison_list_exact [OF x_setup x_ok range, of "[]"] by (simp_all add: Let_def)
  have "set (fst ?r) = {p}"
    unfolding r(2)
  proof (intro set_eqI iffI)
    fix q assume "q \<in> {q. \<exists>i c. stored_chunk (pz_E x_env) demo_vault (map_of (pdb (en_db x_engine))) i = Some c \<and> poisoned_entry c = Some q}"
    then obtain i c where "stored_chunk (pz_E x_env) demo_vault (map_of (pdb (en_db x_engine))) i = Some c" "poisoned_entry c = Some q"
      by blast
    then show "q \<in> {p}" using p(1) clean by (simp add: x_stored split: if_splits)
  next
    fix q assume "q \<in> {p}"
    then have "stored_chunk (pz_E x_env) demo_vault (map_of (pdb (en_db x_engine))) ''a'' =
          Some (x_chunk ''a'' (Some (x_verdict True PoisonSuspicious))) \<and>
        poisoned_entry (x_chunk ''a'' (Some (x_verdict True PoisonSuspicious))) = Some q"
      using p(1) by (simp add: x_stored)
    then show "q \<in> {q. \<exists>i c. stored_chunk (pz_E x_env) demo_vault (map_of (pdb (en_db x_engine))) i = Some c \<and> poisoned_entry c = Some q}"
      by blast
  qed
  then have "set (map pz_ChunkID (fst ?r)) = {''a''}" by (simp add: p(2))
  with r(1) show ?thesis by (rule distinct_one)
qed

text \<open>C39: a release is permanent. Releasing a chunk that has a verdict succeeds, and afterwards the chunk stays
  released whatever is released, rescanned, imported, enabled or removed in the vault, until the chunk
  itself is reset.\<close>

theorem release_sticks:
  assumes "quarantine_setup view Z K V ws" and "quarantine_ok view (pz_E Z) K vault ws e"
    and "stored_chunk (pz_E Z) ws (view (pdb (en_db e))) i = Some c" and "c_Poisoning c = Some v"
    and "OpReset i \<notin> set ops"
  shows "let (r, e1) = ReleaseChunk (pz_E Z) vault i e; e2 = quarantine_run Z vault ops e1 in
    r = None \<and> (\<exists>c'. stored_chunk (pz_E Z) ws (view (pdb (en_db e2))) i = Some c' \<and> released_chunk c')"
proof -
  obtain r e1 where r: "ReleaseChunk (pz_E Z) vault i e = (r, e1)" by fastforce
  note rel = ReleaseChunk_good [OF quarantine_setupD [OF assms(1)] assms(2) r]
  have g: "good_step view (pz_E Z) K vault ws (- {i}) e1 (quarantine_run Z vault ops e1)"
    using assms(5) by (intro quarantine_run_good [OF assms(1) good_step_ok [OF rel(1)]]) auto
  obtain c1 where "r = None" "stored_chunk (pz_E Z) ws (view (pdb (en_db e1))) i = Some c1" "released_chunk c1"
    using rel(2) [OF assms(3,4)] by blast
  then show ?thesis
    using g by (simp add: r Let_def good_step_def evolves_def)
qed

theorem release_sticks_witness:
  "let (r, e1) = ReleaseChunk (pz_E x_env) ''a'' ''a'' x_engine; e2 = quarantine_run x_env ''a'' [OpRescan, OpReset ''b''] e1 in
     r = None \<and> (\<exists>c'. stored_chunk (pz_E x_env) demo_vault (map_of (pdb (en_db e2))) ''a'' = Some c' \<and> released_chunk c')"
  by (rule release_sticks [OF x_setup x_ok, where c = "x_chunk ''a'' (Some (x_verdict True PoisonSuspicious))"
        and v = "x_verdict True PoisonSuspicious"])
    (simp_all add: x_stored, simp add: x_chunk_def)

section \<open>Thresholds\<close>

lemma ListThreatSources_resolved:
  assumes "pebble (ge_P (pz_E Z)) view" and "reliable (ge_P (pz_E Z))" and "session_inv view (ge_sip (pz_E Z)) UNIV (en_db e)"
  shows "fst (ListThreatSources Z v e) =
    (case ScanThreatSources (ge_P (pz_E Z)) (pdb (en_db e)) (resolve_spec (ge_sip (pz_E Z)) (view (pdb (en_db e))) v)
        (\<lambda>_ val out. (case cd_unmarshal (pz_source Z) val of Some s \<Rightarrow> out @ [s] | None \<Rightarrow> out, True)) [] of
       (out, err) \<Rightarrow> (sort_key ts_ID out, err))"
    "pdb (en_db (snd (ListThreatSources Z v e))) = pdb (en_db e)"
proof -
  obtain e1 where e1: "resolve_ws (pz_E Z) v e = (resolve_spec (ge_sip (pz_E Z)) (view (pdb (en_db e))) v, e1)"
      "pdb (en_db e1) = pdb (en_db e)"
    using resolve_at [OF assms] by metis
  show "fst (ListThreatSources Z v e) =
    (case ScanThreatSources (ge_P (pz_E Z)) (pdb (en_db e)) (resolve_spec (ge_sip (pz_E Z)) (view (pdb (en_db e))) v)
        (\<lambda>_ val out. (case cd_unmarshal (pz_source Z) val of Some s \<Rightarrow> out @ [s] | None \<Rightarrow> out, True)) [] of
       (out, err) \<Rightarrow> (sort_key ts_ID out, err))"
    "pdb (en_db (snd (ListThreatSources Z v e))) = pdb (en_db e)"
    by (simp_all add: ListThreatSources_def e1 case_prod_unfold)
qed

lemma poisonDetector_resolved:
  assumes "pebble (ge_P (pz_E Z)) view" and "reliable (ge_P (pz_E Z))" and "session_inv view (ge_sip (pz_E Z)) UNIV (en_db e)"
    and "session_inv view (ge_sip (pz_E Z)) UNIV (en_db e1)" and "pdb (en_db e1) = pdb (en_db e)"
  shows "fst (poisonDetector Z e1) = fst (poisonDetector Z e)" "pdb (en_db (snd (poisonDetector Z e1))) = pdb (en_db e)"
  using ListThreatSources_resolved [OF assms(1-3), of "''default''"] ListThreatSources_resolved [OF assms(1,2,4), of "''default''"]
  by (simp_all add: poisonDetector_def mergedPhrases_def case_prod_unfold assms(5))

lemma score_phrases: "hs_phrases h = hs_phrases h' \<Longrightarrow> pv_Score (Score u h text) = pv_Score (Score u h' text)"
  by (simp add: Score_def Let_def case_prod_unfold)

lemma rescan_unchanged:
  assumes "\<And>c. c \<in> set cs \<Longrightarrow> \<exists>v. c_Poisoning c = Some v \<and> pv_Score v = pv_Score (Score (ge_u (pz_E Z)) det (c_Content c))"
  shows "fold (rescan_chunk Z det ws) cs st = st"
  using assms
proof (induction cs)
  case (Cons c cs)
  obtain v where v: "c_Poisoning c = Some v" "pv_Score v = pv_Score (Score (ge_u (pz_E Z)) det (c_Content c))"
    using Cons.prems by auto
  have "rescan_chunk Z det ws c st = st"
    by (cases st) (simp add: rescan_chunk_def v Let_def)
  then show ?case using Cons by simp
qed simp

text \<open>C40: a rescan compares scores only. If every chunk of the vault carries the score that the current
  phrases give its text, under whatever thresholds its level was once derived, the rescan reports 0 changes
  and writes nothing: a change of the thresholds never reaches the chunks already scored.\<close>

theorem rescan_ignores_thresholds:
  assumes "pebble (ge_P (pz_E Z)) view" and "reliable (ge_P (pz_E Z))" and "is_ws ws"
    and "quarantine_ok view (pz_E Z) K vault ws e" and "EffectivePoisoningEnabled (ge_cfg (pz_E Z))"
    and "VaultKindRange PrefixChunk ws = Inr (lower, upper)" and "hs_phrases h = hs_phrases (fst (poisonDetector Z e))"
    and "\<And>i c. stored_chunk (pz_E Z) ws (view (pdb (en_db e))) i = Some c \<Longrightarrow>
      \<exists>v. c_Poisoning c = Some v \<and> pv_Score v = pv_Score (Score (ge_u (pz_E Z)) h (c_Content c))"
  shows "fst (RescanPoisoning Z vault e) = (0, 0, None) \<and> pdb (en_db (snd (RescanPoisoning Z vault e))) = pdb (en_db e)"
proof -
  let ?E = "pz_E Z"
  note o = assms(4) [unfolded quarantine_ok_def]
  obtain e1 where e1: "resolve_ws ?E vault e = (ws, e1)" "session_inv view (ge_sip ?E) UNIV (en_db e1)" "pdb (en_db e1) = pdb (en_db e)"
    using resolve_at [OF assms(1,2)] o by metis
  have s: "session_inv view (ge_sip ?E) UNIV (en_db e)" and lk: "long_keys PrefixChunk (view (pdb (en_db e)))"
    and ic: "index_covers ?E K ws (view (pdb (en_db e)))"
    using o by blast+
  obtain det e2 where pd: "poisonDetector Z e1 = (det, e2)" by (metis prod.exhaust)
  have det: "det = fst (poisonDetector Z e)" "pdb (en_db e2) = pdb (en_db e)"
    using poisonDetector_resolved [OF assms(1,2) s e1(2,3)] pd by simp_all
  obtain cs where cs: "DB_RangeScan (ge_P ?E) (pdb (en_db e)) lower upper
       (\<lambda>_ val cs. (case cd_unmarshal (ge_chunk ?E) val of Some c \<Rightarrow> cs @ [c] | None \<Rightarrow> cs, True)) [] = (cs, None)"
    "\<And>c. c \<in> set cs \<Longrightarrow> stored_chunk ?E ws (view (pdb (en_db e))) (c_ID c) = Some c"
    by (rule chunk_scan [OF assms(1-3) lk assms(6) ic]) blast
  have "fold (rescan_chunk Z det ws) cs (pdb (en_db e), 0, 0) = (pdb (en_db e), 0, 0)"
  proof (rule rescan_unchanged)
    fix c assume "c \<in> set cs"
    then obtain v where "c_Poisoning c = Some v" "pv_Score v = pv_Score (Score (ge_u ?E) h (c_Content c))"
      using assms(8) [OF cs(2)] by blast
    then show "\<exists>v. c_Poisoning c = Some v \<and> pv_Score v = pv_Score (Score (ge_u ?E) det (c_Content c))"
      using score_phrases [OF assms(7)] by (simp add: det(1))
  qed
  then show ?thesis
    using assms(5) by (simp add: RescanPoisoning_def e1(1) pd assms(6) det(2) cs(1) markIndexChanged_def)
qed

text \<open>A chunk flagged at the default thresholds, after the suspicious threshold has been raised to 0.6.\<close>

definition strict_env :: "((bytes \<times> bytes) list, unit) poison_env" where
  "strict_env = x_env\<lparr>pz_E := (pz_E x_env)\<lparr>ge_cfg := Default\<lparr>cf_PoisoningThresholdSuspicious := 6 / 10\<rparr>,
     ge_chunk := \<lparr>cd_marshal = (\<lambda>c. Some []),
       cd_unmarshal = (\<lambda>b. Some (blank_chunk\<lparr>c_ID := ''a'', c_Content := ''jailbreak'',
          c_Poisoning := Some (x_verdict True PoisonSuspicious)\<rparr>))\<rparr>\<rparr>\<rparr>"

definition strict_engine :: "((bytes \<times> bytes) list, unit) engine" where
  "strict_engine = x_engine\<lparr>en_db := (en_db x_engine)\<lparr>pdb :=
     [(ChunkKey demo_vault ''a'', []), (QuarantineKey demo_vault ''a'', [])]\<rparr>\<rparr>"

lemma strict_stored:
  "stored_chunk (pz_E strict_env) demo_vault (map_of (pdb (en_db strict_engine))) i =
     (if i = ''a'' then Some (blank_chunk\<lparr>c_ID := ''a'', c_Content := ''jailbreak'', c_Poisoning := Some (x_verdict True PoisonSuspicious)\<rparr>)
      else None)"
  by (simp add: stored_chunk_def strict_engine_def strict_env_def)

lemma strict_ok: "quarantine_ok map_of (pz_E strict_env) UNIV ''a'' demo_vault strict_engine"
  unfolding quarantine_ok_def
proof (intro conjI)
  have sip: "ge_sip (pz_E strict_env) = demo_sip" by (simp add: strict_env_def x_env_def demo_engine_env_def)
  have db: "pdb (en_db strict_engine) = [(ChunkKey demo_vault ''a'', []), (QuarantineKey demo_vault ''a'', [])]"
    "vaultPrefixCache (en_db strict_engine) = NewLRU 10" "vaultNameWritten (en_db strict_engine) = {}"
    by (simp_all add: strict_engine_def x_engine_db)
  have "VaultPrefix demo_sip ''a'' = demo_vault" by code_simp
  then show "resolve_spec (ge_sip (pz_E strict_env)) (map_of (pdb (en_db strict_engine))) ''a'' = demo_vault"
    by (simp add: sip resolve_spec_def db VaultNameIndexKey_def ChunkKey_def QuarantineKey_def vaultScopedString_def vaultScoped_def)
  have "registry_ok sip (map_of (pdb (en_db strict_engine)))" for sip
    by (simp add: registry_ok_def db VaultMetaKey_def ChunkKey_def QuarantineKey_def vaultScopedString_def vaultScoped_def)
  then show "session_inv map_of (ge_sip (pz_E strict_env)) UNIV (en_db strict_engine)"
    by (simp add: session_inv_def cache_coherent_def db(2,3))
  show "index_covers (pz_E strict_env) UNIV demo_vault (map_of (pdb (en_db strict_engine)))"
    unfolding index_covers_def strict_stored by (simp add: db(1))
  show "long_keys PrefixChunk (map_of (pdb (en_db strict_engine)))" "long_keys PrefixPoisonQuar (map_of (pdb (en_db strict_engine)))"
    by (auto simp: long_keys_def db ChunkKey_def QuarantineKey_def vaultScopedString_def vaultScoped_def split: if_splits)
qed

text \<open>The built-in phrases are always among those of the detector, so the chunk scores one half.\<close>

lemma dedupe_loop_keeps: "set out \<subseteq> set (dedupe_loop out ps)" "p \<in> set ps \<Longrightarrow> p \<noteq> [] \<Longrightarrow> p \<in> set (dedupe_loop out ps)"
  by (induction out ps rule: dedupe_loop.induct) (auto split: if_splits)

lemma jailbreak_score: "pv_Score (Score ascii_tables (fst (poisonDetector Z e)) ''jailbreak'') = 1 / 2"
proof -
  define ps where "ps = fst (mergedPhrases Z e)"
  have nt: "normalize_text ascii_tables ''jailbreak'' = ''jailbreak''" and f: "length (Fields ''jailbreak'') < 6"
    and c: "contains ''jailbreak'' ''jailbreak''" by code_simp+
  have "''jailbreak'' \<in> set (dedupePhrases (DefaultPhrases @ xs))" for xs
    unfolding dedupePhrases_def by (rule dedupe_loop_keeps(2)) (simp_all add: DefaultPhrases_def)
  then have "''jailbreak'' \<in> set ps"
    by (simp add: ps_def mergedPhrases_def case_prod_unfold)
  then have ps: "ps \<noteq> []" "filter (contains ''jailbreak'') ps \<noteq> []" using c by (auto simp: filter_empty_conv)
  have d: "hs_phrases (fst (poisonDetector Z e)) = ps"
    using ps(1) by (simp add: poisonDetector_def NewHeuristic_def ps_def case_prod_unfold)
  have r: "repetition ''jailbreak'' = 0" "stuffing ''jailbreak'' = 0" using f by (simp_all add: repetition_def stuffing_def Let_def)
  show ?thesis
    using ps(2) by (simp add: Score_def nt r d Let_def instruction_def clamp01_def)
qed

theorem rescan_ignores_thresholds_witness:
  "fst (RescanPoisoning strict_env ''a'' strict_engine) = (0, 0, None) \<and>
   map_of (pdb (en_db (snd (RescanPoisoning strict_env ''a'' strict_engine)))) (QuarantineKey demo_vault ''a'') \<noteq> None \<and>
   LevelFor (1 / 2) (EffectivePoisonThresholdSuspicious (ge_cfg (pz_E strict_env)))
     (EffectivePoisonThresholdQuarantine (ge_cfg (pz_E strict_env))) = PoisonClean"
proof -
  have range: "VaultKindRange PrefixChunk demo_vault =
      Inr ([PrefixChunk, 0, 0, 0, 0, 0, 0, 0, 97], [PrefixChunk, 0, 0, 0, 0, 0, 0, 0, 98])"
    by code_simp
  have P: "pebble (ge_P (pz_E strict_env)) map_of" "reliable (ge_P (pz_E strict_env))"
    using demo_store by (simp_all add: strict_env_def x_env_def)
  have u: "ge_u (pz_E strict_env) = ascii_tables" by (simp add: strict_env_def x_env_def demo_engine_env_def)
  have ws: "is_ws demo_vault" by (simp add: is_ws_def)
  have on: "EffectivePoisoningEnabled (ge_cfg (pz_E strict_env))"
    by (simp add: strict_env_def EffectivePoisoningEnabled_def Default_def)
  have "fst (RescanPoisoning strict_env ''a'' strict_engine) = (0, 0, None) \<and>
      pdb (en_db (snd (RescanPoisoning strict_env ''a'' strict_engine))) = pdb (en_db strict_engine)"
  proof (rule rescan_ignores_thresholds [OF P ws strict_ok on range refl])
    fix i c assume "stored_chunk (pz_E strict_env) demo_vault (map_of (pdb (en_db strict_engine))) i = Some c"
    then show "\<exists>v. c_Poisoning c = Some v \<and>
        pv_Score v = pv_Score (Score (ge_u (pz_E strict_env)) (fst (poisonDetector strict_env strict_engine)) (c_Content c))"
      by (auto simp: strict_stored u jailbreak_score x_verdict_def split: if_splits)
  qed
  moreover have "map_of (pdb (en_db strict_engine)) (QuarantineKey demo_vault ''a'') \<noteq> None"
    by (simp add: strict_engine_def)
  moreover have "LevelFor (1 / 2) (EffectivePoisonThresholdSuspicious (ge_cfg (pz_E strict_env)))
      (EffectivePoisonThresholdQuarantine (ge_cfg (pz_E strict_env))) = PoisonClean"
    by (simp add: strict_env_def EffectivePoisonThresholdSuspicious_def EffectivePoisonThresholdQuarantine_def positive_or_def
        LevelFor_def Default_def DefaultPoisonThresholdQuarantine_def)
  ultimately show ?thesis by simp
qed

end
