(* ===== verification/Spec2Isabelle.thy ===== *)
theory Spec2Isabelle
  imports Prelude Keys Pebble_Store Lru Go_Strings Vault_Registry Indexes Utf8 Ranking Fts
    Vector_Index Retrieval Chunker Model Migrate Breaker Enrich Bridge Prefixer Embed_Processor Redact Sections
    Pipeline Near_Dup Config Workers Query_Cache Engine Engine_Query Cross_Vault Query_Facts
    Vault_Lifecycle Base64 Event_Bus Auth Auth_Facts
    Listing Listing_Facts Get_Chunks Poison Poison_Facts Quarantine
begin

text \<open>
  go-rag is a local retrieval database. Files are read, redacted and cut into chunks; chunks are indexed by
  terms (BM25) and by vectors and queried per vault, a namespace. All vaults live in one Pebble store and all
  transports (command line, REST, gRPC, MCP) call one engine. The theories follow that path bottom up; every
  one names its Go files, and a definition has the name of the function it translates, with the type in front
  where two would clash (\<open>LRU_Get\<close>, \<open>Vec_Add\<close>, \<open>DB_RangeScan\<close>).

  The store.
  \<^item> \<open>Prelude\<close>, \<open>Go_Strings\<close>, \<open>Utf8\<close>, \<open>Base64\<close>: bytes, the order on keys, fallible results, and what the code
    uses of Go's \<open>strings\<close>, \<open>strconv\<close>, \<open>unicode/utf8\<close> and \<open>encoding/base64\<close>. A Go string is a list of bytes.
  \<^item> \<open>Keys\<close> (\<open>storage/keys/keys.go\<close>): one byte of kind, eight bytes of vault, the identifier. The range of one
    kind in one vault contains exactly its keys, and the increment of the prefix carries.
  \<^item> \<open>Pebble_Store\<close> (\<open>storage/db.go\<close>): reads, writes and scans over an abstract Pebble. The locale \<open>pebble\<close>
    states what its documentation promises of get, atomic commit and iteration; an in-memory store interprets it.
  \<^item> \<open>Vault_Registry\<close> (\<open>storage/vault.go\<close>): names of vaults, the key prefixes of their data and the cache of
    names. The cache agrees with the store, and registered vaults have disjoint data, as long as deletions are
    of registered vaults; a deletion by an unregistered name, which the code lets through, breaks this.
  \<^item> \<open>Indexes\<close> (\<open>storage/near.go\<close>, \<open>poison.go\<close>, \<open>embedqueue.go\<close>): the small indexes as instances of one locale.
  \<^item> \<open>Migrate\<close> (\<open>storage/migrate\<close>): the runner, the steps 1 to 4 and the merge of legacy stores. An
    interrupted run, repeated, ends like an undisturbed one; an interrupted merge does not.

  The indexes and a query.
  \<^item> \<open>Ranking\<close>, \<open>Fts\<close> (\<open>index/fts.go\<close>), \<open>Vector_Index\<close> (\<open>index/vector.go\<close>), \<open>Retrieval\<close>
    (\<open>index/retrieval.go\<close>, \<open>filter.go\<close>, \<open>transform.go\<close>, \<open>classify.go\<close>): scoring, deletion as the inverse of
    indexing, fusion, filters and the depth classifier.
  \<^item> \<open>Lru\<close> (\<open>engine/cache.go\<close>, \<open>storage/vault.go\<close>): both caches with their recency lists refine a bounded list of
    pairs; the locale \<open>lru_cache\<close> is the contract. \<open>Query_Cache\<close> holds the keys of the result cache.
  \<^item> \<open>Engine\<close>, \<open>Engine_Query\<close>, \<open>Query_Facts\<close>, \<open>Cross_Vault\<close> (\<open>engine/engine.go\<close>, \<open>query.go\<close>, \<open>crossvault.go\<close> and
    their helpers): the state of the engine and a query from validation through cache, embedding, retrieval,
    reranking and projection to the cache again. The store may change between the three parts of a query.
  \<^item> \<open>Get_Chunks\<close>, \<open>Listing\<close>, \<open>Listing_Facts\<close> (\<open>engine/get_*.go\<close>, \<open>batch_get_chunks.go\<close>, \<open>list_*.go\<close>): point reads
    and paged listings. The locale \<open>pager\<close> states the law of a page server; both listings interpret it.

  Ingestion.
  \<^item> \<open>Chunker\<close>, \<open>Redact\<close>, \<open>Sections\<close>, \<open>Near_Dup\<close>, \<open>Prefixer\<close>, \<open>Model\<close>: the pure parts (\<open>chunk/\<close>, \<open>redact/\<close>,
    \<open>pipeline/section.go\<close>, \<open>delta.go\<close>, \<open>near/\<close>, \<open>embed/prefix.go\<close>, \<open>model/\<close>).
  \<^item> \<open>Pipeline\<close>, \<open>Workers\<close> (\<open>pipeline/\<close>): ingestion of a file up to the acknowledgement, deletion, re-ingestion,
    and the work of a job afterwards.
  \<^item> \<open>Embed_Processor\<close>, \<open>Breaker\<close>, \<open>Enrich\<close>, \<open>Bridge\<close> (\<open>embedproc/\<close>, \<open>enrich/\<close>, \<open>bridge/muninn/\<close>): the background
    workers with their breakers, queues and counters. The promotion pool of the bridge is a step relation.
  \<^item> \<open>Poison\<close>, \<open>Poison_Facts\<close>, \<open>Quarantine\<close> (\<open>poison/\<close>, \<open>engine/poison.go\<close>, \<open>threat.go\<close>): the injection score, the
    quarantine with its index, and runs of all operations on both.

  Around the engine.
  \<^item> \<open>Vault_Lifecycle\<close> (\<open>engine/vault_lifecycle.go\<close>): creating, renaming, clearing and deleting.
  \<^item> \<open>Config\<close> (\<open>config/config.go\<close>): every key, with its default, check, environment variable and text form.
  \<^item> \<open>Event_Bus\<close> (\<open>events/bus.go\<close>, \<open>grpc/watch_documents.go\<close>): the bus as a step relation, cursors and streams.
  \<^item> \<open>Auth\<close>, \<open>Auth_Facts\<close> (\<open>auth/\<close>): API keys, sessions, administrators and the loopback bypass. The keys refine
    a table of grants.

  State is passed explicitly: the store is a value of the type that the Pebble operations work on, and the
  engine a record of the store, the caches and the indexes. An error is \<open>Inl\<close> of \<open>go_error\<close>; a Go error that the
  code drops is dropped in the same place. Mutexes make each operation atomic; goroutines are interleavings of
  steps. One step covers more than the lock does in \<open>fan_out_event\<close>, which is atomic over all subscribers.

  Parameters, with what is assumed of them in the theorems that need it: Pebble, SipHash, SHA-256, bcrypt, JSON
  (a codec that restores the values in use), the Unicode tables beyond ASCII, \<open>path.Match\<close>, \<open>sort.Slice\<close> (some
  sorted permutation), times and their format, random bytes, the clock, and the models that embed, rerank,
  caption and enrich, each with a state of its own. No parameter is assumed to do what a theorem claims of the
  program; each property has a witness with concrete functions.

  Idealisations: float64 scores, similarities and rates are reals (float32 term frequencies keep their bits), so
  rounding, infinities and NaN do not occur, a threshold configured as \<open>nan\<close> among them;
  \<open>int\<close> is unbounded where it only counts; integers that wrap or are stored keep their width. The order of map
  iteration is a parameter or one of the possible orders.

  Loops: most are structural or functions with a measure. \<open>FindAll\<close> of the regular expressions runs one round
  more than the text has bytes, and \<open>find_all_enough\<close> shows that further rounds add nothing. \<open>processBatch\<close> of the
  embedding processor runs on fuel and is \<open>None\<close> if it has not returned; \<open>embed_queue_drains\<close> shows how much fuel
  gives the result, \<open>empty_answers_livelock\<close> that none does. \<open>collect_pages\<close>, which asks for pages until there is no
  further token, is a partial function into \<open>option\<close>; \<open>document_pages_complete\<close> shows that it ends.

  Not modelled: the document readers (PDF, DOCX and Markdown parsing around third-party parsers), the HTTP and
  gRPC clients of models and of MuninnDB, the transports, the command line and the UI (argument and message
  conversion around engine calls), the daemon and the file watcher (processes and operating-system events),
  metrics, traces and the audit log (output only), gob files of the vector index, opening and closing the store,
  and of the engine the handlers around the pipeline (ingest, delete, re-enrich, watch) and the status, drift,
  baseline and configuration reports.
\<close>

end
